(* ===== verification/Prelude.thy ===== *)
theory Prelude
  imports Main "HOL-Library.Word"
begin

text \<open>
  What every component shares: the machine integer types of the modelled build (x64, 8-bit
  chars, little endian, C++11), the model of a raw buffer as a list of bytes with a
  \<open>memcpy\<close>-like overwrite, the fact collections, and generic lemmas on lists and words.
\<close>

unbundle bit_operations_syntax

section \<open>Machine integers\<close>

type_synonym u8 = "8 word"
type_synonym u16 = "16 word"
type_synonym u32 = "32 word"
type_synonym u64 = "64 word"

text \<open>\<open>uintptr_t\<close> and pointers; the target's addressable memory, one byte per address.\<close>

type_synonym uintptr = "64 word"
type_synonym memory = "uintptr \<Rightarrow> u8"

section \<open>Fact collections\<close>

named_theorems codec_simps \<open>equations that evaluate the byte codecs\<close>
named_theorems comm_simps \<open>field equations of the communication handler's operations\<close>
named_theorems enc_simps \<open>field equations of the datalogging encoder's operations\<close>
named_theorems dl_simps \<open>field equations of the datalogger's operations\<close>

section \<open>Buffers\<close>

text \<open>
  A buffer is the list of its bytes. \<open>blit buf i bs\<close> is \<open>memcpy(&buf[i], bs, |bs|)\<close>.
  A copy that runs past the end of the buffer makes the list longer, so that
  \<open>length (blit buf i bs) = length buf\<close> is the statement that the copy stays in bounds.
\<close>

definition blit :: "'a list \<Rightarrow> nat \<Rightarrow> 'a list \<Rightarrow> 'a list" where
  "blit buf i bs = take i buf @ bs @ drop (i + length bs) buf"

lemma length_blit [simp]:
  "i + length bs \<le> length buf \<Longrightarrow> length (blit buf i bs) = length buf"
  by (simp add: blit_def)

lemma length_blit_iff:
  "i \<le> length buf \<Longrightarrow> length (blit buf i bs) = length buf \<longleftrightarrow> i + length bs \<le> length buf"
  by (auto simp: blit_def)

lemma blit_Nil [simp]: "blit buf i [] = buf"
  by (simp add: blit_def)

lemma take_blit_prefix [simp]: "j \<le> i \<Longrightarrow> i \<le> length buf \<Longrightarrow> take j (blit buf i bs) = take j buf"
  by (simp add: blit_def min_def)

lemma take_blit_end:
  "i \<le> length buf \<Longrightarrow> take (i + length bs) (blit buf i bs) = take i buf @ bs"
  by (simp add: blit_def)

lemma take_blit_append:
  assumes "take i buf = xs" "i \<le> length buf" "n = i + length bs"
  shows "take n (blit buf i bs) = xs @ bs"
  using assms take_blit_end by fastforce

lemma drop_blit_end:
  "i + length bs \<le> length buf \<Longrightarrow> i + length bs \<le> j \<Longrightarrow> drop j (blit buf i bs) = drop j buf"
  by (simp add: blit_def min_def drop_Cons')

lemma blit_0_all: "length bs = length buf \<Longrightarrow> blit buf 0 bs = bs"
  by (simp add: blit_def)

lemma nth_blit:
  assumes "i + length bs \<le> length buf" "k < length buf"
  shows "blit buf i bs ! k =
    (if i \<le> k \<and> k < i + length bs then bs ! (k - i) else buf ! k)"
  using assms by (auto simp: blit_def nth_append min_def)

lemma take_drop_blit_same:
  "i + length bs \<le> length buf \<Longrightarrow> take (length bs) (drop i (blit buf i bs)) = bs"
  by (simp add: blit_def)

lemma take_drop_blit_other:
  assumes "i + length bs \<le> length buf" "j + n \<le> i \<or> i + length bs \<le> j"
  shows "take n (drop j (blit buf i bs)) = take n (drop j buf)"
proof (rule nth_equalityI)
  show len: "length (take n (drop j (blit buf i bs))) = length (take n (drop j buf))"
    using assms(1) by simp
  fix k assume "k < length (take n (drop j (blit buf i bs)))"
  with assms show "take n (drop j (blit buf i bs)) ! k = take n (drop j buf) ! k"
    by (auto simp: nth_blit)
qed

text \<open>A cell of a buffer, read as the code reads \<open>buf[i]\<close> after \<open>buf\<close> was written.\<close>

lemma blit_append: "blit buf i (xs @ ys) = blit (blit buf i xs) (i + length xs) ys"
  if "i + length xs + length ys \<le> length buf"
proof (rule nth_equalityI)
  show "length (blit buf i (xs @ ys)) = length (blit (blit buf i xs) (i + length xs) ys)"
    using that by simp
  fix k assume "k < length (blit buf i (xs @ ys))"
  with that have "k < length buf" by simp
  with that show "blit buf i (xs @ ys) ! k = blit (blit buf i xs) (i + length xs) ys ! k"
    by (auto simp: nth_blit nth_append)
qed

lemma drop_after: "drop n xs = ys @ zs \<Longrightarrow> drop (n + length ys) xs = zs"
proof -
  assume "drop n xs = ys @ zs"
  then have "drop (length ys) (drop n xs) = zs" by simp
  then show ?thesis by (simp add: add.commute)
qed

section \<open>Words\<close>

lemma unat_u8_lt [simp]: "unat (b :: u8) < 256"
  using unsigned_less [of b] by simp

lemma unat_u16_lt [simp]: "unat (w :: u16) < 65536"
  using unsigned_less [of w] by simp

lemma unat_u32_lt [simp]: "unat (w :: u32) < 4294967296"
  using unsigned_less [of w] by simp

lemma unat_of_nat_u16 [simp]: "n < 65536 \<Longrightarrow> unat (of_nat n :: u16) = n"
  by (simp add: unat_of_nat take_bit_eq_mod)

lemma unat_of_nat_u32 [simp]: "n < 4294967296 \<Longrightarrow> unat (of_nat n :: u32) = n"
  by (simp add: unat_of_nat take_bit_eq_mod)

lemma unat_of_nat_u8 [simp]: "n < 256 \<Longrightarrow> unat (of_nat n :: u8) = n"
  by (simp add: unat_of_nat take_bit_eq_mod)

lemma unat_add_u16: "unat (a + b :: u16) = (unat a + unat b) mod 65536"
  by (simp add: unat_word_ariths)

lemma unat_add_no_wrap_u16: "unat a + unat b < 65536 \<Longrightarrow> unat (a + b :: u16) = unat a + unat b"
  by (simp add: unat_add_u16)

lemma unat_sub_no_wrap: "(b :: 'a::len word) \<le> a \<Longrightarrow> unat (a - b) = unat a - unat b"
  by (rule unat_sub)

end
