(* ===== verification/Tools.thy ===== *)
theory Tools
  imports Prelude
begin

text \<open>
  The helpers of \<open>lib/src/scrutiny_tools.cpp\<close> and \<open>lib/inc/scrutiny_tools.hpp\<close>: the type
  encoding of \<open>lib/inc/scrutiny_types.hpp\<close> (a type is one byte, the kind in the high nibble and
  the base-2 logarithm of the size in the low one), the CRC32 and small string and address
  helpers. Lemmas: the type arithmetic, the table-driven CRC equals the bitwise CRC, it can be
  chained over chunks, and it tells any two messages apart that differ in one byte.
\<close>

section \<open>Variable types\<close>

text \<open>
  The enums have a fixed 8-bit underlying type and the code casts bytes received from the server
  to them without a check, so a value of the type is any byte.
\<close>

type_synonym variable_type = u8
type_synonym variable_type_type = u8
type_synonym variable_type_size = u8

abbreviation (input) TypeType_sint :: variable_type_type where "TypeType_sint \<equiv> 0x00"
abbreviation (input) TypeType_uint :: variable_type_type where "TypeType_uint \<equiv> 0x10"
abbreviation (input) TypeType_float :: variable_type_type where "TypeType_float \<equiv> 0x20"
abbreviation (input) TypeType_boolean :: variable_type_type where "TypeType_boolean \<equiv> 0x30"
abbreviation (input) TypeType_cfloat :: variable_type_type where "TypeType_cfloat \<equiv> 0x40"
abbreviation (input) TypeType_undef :: variable_type_type where "TypeType_undef \<equiv> 0xF0"

abbreviation (input) TypeSize_8 :: variable_type_size where "TypeSize_8 \<equiv> 0"
abbreviation (input) TypeSize_16 :: variable_type_size where "TypeSize_16 \<equiv> 1"
abbreviation (input) TypeSize_32 :: variable_type_size where "TypeSize_32 \<equiv> 2"
abbreviation (input) TypeSize_64 :: variable_type_size where "TypeSize_64 \<equiv> 3"
abbreviation (input) TypeSize_128 :: variable_type_size where "TypeSize_128 \<equiv> 4"
abbreviation (input) TypeSize_256 :: variable_type_size where "TypeSize_256 \<equiv> 5"
abbreviation (input) TypeSize_undef :: variable_type_size where "TypeSize_undef \<equiv> 0xF"

abbreviation (input) VT_sint8 :: variable_type where "VT_sint8 \<equiv> 0x00"
abbreviation (input) VT_sint16 :: variable_type where "VT_sint16 \<equiv> 0x01"
abbreviation (input) VT_sint32 :: variable_type where "VT_sint32 \<equiv> 0x02"
abbreviation (input) VT_sint64 :: variable_type where "VT_sint64 \<equiv> 0x03"
abbreviation (input) VT_uint8 :: variable_type where "VT_uint8 \<equiv> 0x10"
abbreviation (input) VT_uint16 :: variable_type where "VT_uint16 \<equiv> 0x11"
abbreviation (input) VT_uint32 :: variable_type where "VT_uint32 \<equiv> 0x12"
abbreviation (input) VT_uint64 :: variable_type where "VT_uint64 \<equiv> 0x13"
abbreviation (input) VT_float32 :: variable_type where "VT_float32 \<equiv> 0x22"
abbreviation (input) VT_float64 :: variable_type where "VT_float64 \<equiv> 0x23"
abbreviation (input) VT_boolean8 :: variable_type where "VT_boolean8 \<equiv> 0x30"
abbreviation (input) VT_boolean16 :: variable_type where "VT_boolean16 \<equiv> 0x31"
abbreviation (input) VT_boolean32 :: variable_type where "VT_boolean32 \<equiv> 0x32"
abbreviation (input) VT_boolean64 :: variable_type where "VT_boolean64 \<equiv> 0x33"
abbreviation (input) VT_boolean :: variable_type where "VT_boolean \<equiv> 0x3F"
abbreviation (input) VT_unknown :: variable_type where "VT_unknown \<equiv> 0xFF"

definition get_required_type_size_8bits :: "u8 \<Rightarrow> variable_type_size" where
  "get_required_type_size_8bits size' =
    (if size' \<le> 1 then TypeSize_8
     else if size' \<le> 2 then TypeSize_16
     else if size' \<le> 4 then TypeSize_32
     else if size' \<le> 8 then TypeSize_64
     else if size' \<le> 16 then TypeSize_128
     else if size' \<le> 32 then TypeSize_256
     else TypeSize_undef)"

definition make_type :: "variable_type_type \<Rightarrow> variable_type_size \<Rightarrow> variable_type" where
  "make_type tt ts =
    (if tt = TypeType_undef \<or> ts = TypeSize_undef then VT_unknown else tt OR ts)"

text \<open>\<open>sizeof(bool)\<close> is 1 on the modelled target.\<close>

definition get_platform_boolean_size_8bits :: u8 where
  "get_platform_boolean_size_8bits = 1"

definition get_platform_boolean :: variable_type where
  "get_platform_boolean =
     make_type TypeType_boolean (get_required_type_size_8bits get_platform_boolean_size_8bits)"

text \<open>
  The shift is done on an \<open>int\<close> and the result returned as a \<open>uint_least8_t\<close>: an exponent of 8 or
  more shifts the bit out.
\<close>

definition get_type_size_8bits :: "variable_type \<Rightarrow> u8" where
  "get_type_size_8bits vt =
    (if vt = VT_unknown then 0
     else if vt = VT_boolean then get_platform_boolean_size_8bits
     else push_bit (unat (vt AND 0xF)) 1)"

text \<open>\<open>CHAR_BIT / 8\<close> is 1.\<close>

definition get_type_size_char :: "variable_type \<Rightarrow> u8" where
  "get_type_size_char vt = get_type_size_8bits vt div 1"

definition get_var_type_type :: "variable_type \<Rightarrow> variable_type_type" where
  "get_var_type_type vt = vt AND 0xF0"

definition is_supported_type :: "variable_type \<Rightarrow> bool" where
  "is_supported_type vt =
    (let tt = get_var_type_type vt;
         ts = get_type_size_8bits vt
     in if vt = VT_boolean then True
        else if ts = 0 then False
        else if ts > 8 then False
        else if tt = TypeType_boolean then ts = get_platform_boolean_size_8bits
        else if tt = TypeType_float then ts = 4 \<or> ts = 8
        else tt = TypeType_uint \<or> tt = TypeType_sint)"

section \<open>CRC32\<close>

definition crc_table :: "u32 list" where
  "crc_table =
    [0x00000000, 0x1DB71064, 0x3B6E20C8, 0x26D930AC, 0x76DC4190, 0x6B6B51F4,
     0x4DB26158, 0x5005713C, 0xEDB88320, 0xF00F9344, 0xD6D6A3E8, 0xCB61B38C,
     0x9B64C2B0, 0x86D3D2D4, 0xA00AE278, 0xBDBDF21C]"

text \<open>One round of the loop body: a table look-up for each half of the byte.\<close>

definition crc_nibble :: "u32 \<Rightarrow> u32 \<Rightarrow> u32" where
  "crc_nibble crc n = crc_table ! unat ((crc XOR n) AND 0xF) XOR drop_bit 4 crc"

definition crc_byte :: "u32 \<Rightarrow> u8 \<Rightarrow> u32" where
  "crc_byte crc b = crc_nibble (crc_nibble crc (ucast b)) (ucast (drop_bit 4 b))"

definition crc32 :: "u8 list \<Rightarrow> u32 \<Rightarrow> u32" where
  "crc32 data start_value = NOT (foldl crc_byte (NOT start_value) data)"

text \<open>The specification: the reflected CRC-32 with polynomial \<open>0xEDB88320\<close>, one bit at a time.\<close>

definition crc_bit :: "u32 \<Rightarrow> u32" where
  "crc_bit c = (if bit c 0 then 0xEDB88320 XOR drop_bit 1 c else drop_bit 1 c)"

definition crc_byte_spec :: "u32 \<Rightarrow> u8 \<Rightarrow> u32" where
  "crc_byte_spec c b = (crc_bit ^^ 8) (c XOR ucast b)"

definition crc32_spec :: "u8 list \<Rightarrow> u32 \<Rightarrow> u32" where
  "crc32_spec data start_value = NOT (foldl crc_byte_spec (NOT start_value) data)"

section \<open>Strings, addresses and floats\<close>

text \<open>
  \<open>strnlen\<close>: a pointer is \<open>None\<close> (null) or the readable bytes it points to; the loop stops at the
  terminator or at \<open>maxlen\<close>.
\<close>

function strnlen_loop :: "u8 list \<Rightarrow> nat \<Rightarrow> nat \<Rightarrow> nat" where
  "strnlen_loop s maxlen n =
    (if n < maxlen \<and> n < length s \<and> s ! n \<noteq> 0 then strnlen_loop s maxlen (Suc n) else n)"
  by pat_completeness auto
termination
  by (relation "measure (\<lambda>(s, maxlen, n). maxlen - n)") auto

declare strnlen_loop.simps [simp del]

definition strnlen :: "u8 list option \<Rightarrow> nat \<Rightarrow> nat" where
  "strnlen s maxlen = (case s of None \<Rightarrow> 0 | Some bs \<Rightarrow> strnlen_loop bs maxlen 0)"

text \<open>An address range: both ends included.\<close>

record address_range =
  ar_start :: uintptr
  ar_end :: uintptr

definition make_address_range :: "uintptr \<Rightarrow> uintptr \<Rightarrow> address_range" where
  "make_address_range start size' =
    (let size' = (if size' = 0 then 1 else size')
     in \<lparr>ar_start = start, ar_end = start + size' - 1\<rparr>)"

text \<open>A \<open>float\<close> is its 32 bits; it is finite when the exponent field is not all ones.\<close>

definition is_float_finite :: "u32 \<Rightarrow> bool" where
  "is_float_finite val = (drop_bit 23 val AND 0xFF \<noteq> 0xFF)"

section \<open>Interface: a checksum computed piecewise\<close>

text \<open>
  The receiver and the acquisition reader never see their data in one piece; all they need of
  the checksum is that it can be continued from its last value.
\<close>

locale chained_checksum =
  fixes sum :: "u8 list \<Rightarrow> 'c \<Rightarrow> 'c"
  assumes sum_empty: "sum [] v = v"
    and sum_append: "sum (xs @ ys) v = sum ys (sum xs v)"
begin

lemma sum_chunks: "foldl (\<lambda>v c. sum c v) v cs = sum (concat cs) v"
  by (induction cs arbitrary: v) (simp_all add: sum_empty sum_append)

lemma sum_snoc: "sum (xs @ [x]) v = sum [x] (sum xs v)"
  by (rule sum_append)

end

section \<open>The CRC and its specification\<close>

lemma crc_bit_xor: "crc_bit (a XOR b) = crc_bit a XOR crc_bit b"
  by (simp add: crc_bit_def bit_xor_iff ac_simps)

lemma crc_bits_xor: "(crc_bit ^^ n) (a XOR b) = (crc_bit ^^ n) a XOR (crc_bit ^^ n) b"
  by (induction n) (simp_all add: crc_bit_xor)

lemma crc_bits_low_zero:
  "(\<And>i. i < n \<Longrightarrow> \<not> bit c i) \<Longrightarrow> (crc_bit ^^ n) c = drop_bit n c"
proof (induction n)
  case 0
  then show ?case by simp
next
  case (Suc n)
  have "(crc_bit ^^ n) c = drop_bit n c"
    using Suc by simp
  moreover have "\<not> bit (drop_bit n c) 0"
    using Suc.prems [of n] by (simp add: bit_simps)
  ultimately show ?case
    unfolding funpow.simps comp_apply by (simp add: crc_bit_def)
qed

lemma crc_table_spec: "crc_table = map (\<lambda>n. (crc_bit ^^ 4) (of_nat n)) [0..<16]"
  by code_simp

lemma fifteen_mask: "(15 :: u32) = mask 4"
  by (simp add: mask_eq_exp_minus_1)

lemma crc_nibble_spec: "crc_nibble c n = (crc_bit ^^ 4) (c XOR (n AND 0xF))"
proof -
  let ?x = "c XOR (n AND 0xF)"
  have split: "?x = (?x AND 0xF) XOR (?x AND NOT 0xF)"
    by (rule bit_word_eqI) (auto simp: bit_simps)
  have low: "unat (?x AND 0xF) < 16"
    using word_and_le1 [of ?x "0xF"] by (simp add: word_le_nat_alt)
  have tab: "crc_table ! unat (?x AND 0xF) = (crc_bit ^^ 4) (?x AND 0xF)"
    using low by (simp add: crc_table_spec)
  have "(crc_bit ^^ 4) (?x AND NOT 0xF) = drop_bit 4 (?x AND NOT 0xF)"
    by (rule crc_bits_low_zero) (auto simp: bit_simps fifteen_mask)
  also have "\<dots> = drop_bit 4 c"
    by (rule bit_word_eqI) (auto simp: bit_simps fifteen_mask dest: bit_imp_le_length)
  finally have high: "(crc_bit ^^ 4) (?x AND NOT 0xF) = drop_bit 4 c" .
  have idx: "(c XOR n) AND 0xF = ?x AND 0xF"
    by (rule bit_word_eqI) (auto simp: bit_simps)
  have "(crc_bit ^^ 4) ?x = (crc_bit ^^ 4) (?x AND 0xF) XOR (crc_bit ^^ 4) (?x AND NOT 0xF)"
    by (subst split) (rule crc_bits_xor)
  then show ?thesis
    by (simp only: crc_nibble_def idx tab high)
qed

lemma crc_byte_spec: "crc_byte c b = crc_byte_spec c b"
proof -
  let ?lo = "(ucast b :: u32) AND 0xF" and ?hi = "(ucast (drop_bit 4 b) :: u32) AND 0xF"
  have bits: "ucast b = ?lo XOR push_bit 4 ?hi"
    by (rule bit_word_eqI) (auto simp: bit_simps fifteen_mask dest: bit_imp_le_length)
  have hi: "(crc_bit ^^ 4) (push_bit 4 ?hi) = ?hi"
  proof -
    have "(crc_bit ^^ 4) (push_bit 4 ?hi) = drop_bit 4 (push_bit 4 ?hi)"
      by (rule crc_bits_low_zero) (auto simp: bit_simps)
    also have "\<dots> = ?hi"
      by (rule bit_word_eqI) (auto simp: bit_simps fifteen_mask dest: bit_imp_le_length)
    finally show ?thesis .
  qed
  have eight: "(crc_bit ^^ 8) x = (crc_bit ^^ 4) ((crc_bit ^^ 4) x)" for x
    by (simp add: funpow_add [of 4 4, simplified])
  have "crc_byte_spec c b = (crc_bit ^^ 4) ((crc_bit ^^ 4) ((c XOR ?lo) XOR push_bit 4 ?hi))"
    unfolding crc_byte_spec_def eight by (subst bits) (simp only: xor.assoc)
  also have "\<dots> = (crc_bit ^^ 4) ((crc_bit ^^ 4) (c XOR ?lo) XOR ?hi)"
    by (simp only: crc_bits_xor hi)
  also have "\<dots> = crc_byte c b"
    by (simp only: crc_byte_def crc_nibble_spec)
  finally show ?thesis by simp
qed

subsection \<open>Chaining and error detection\<close>

lemma crc_byte_eq_spec: "crc_byte = crc_byte_spec"
  by (intro ext) (rule crc_byte_spec)

lemma crc32_append: "crc32 (xs @ ys) v = crc32 ys (crc32 xs v)"
  by (simp add: crc32_def)

lemma crc32_Nil [simp]: "crc32 [] v = v"
  by (simp add: crc32_def)

interpretation crc: chained_checksum crc32
  by unfold_locales (simp_all add: crc32_append)

lemma crc32_Cons: "crc32 (x # xs) v = crc32 xs (crc32 [x] v)"
  using crc32_append [of "[x]" xs v] by simp

text \<open>The top bit of the polynomial records which branch was taken, so a bit step can be undone.\<close>

lemma crc_bit_top: "bit (crc_bit c) 31 \<longleftrightarrow> bit c 0"
  by (auto simp: crc_bit_def bit_simps dest: bit_imp_le_length)

lemma xor_left_cancel: "x XOR a = x XOR b \<longleftrightarrow> a = b" for x :: u32
proof
  assume "x XOR a = x XOR b"
  then have "x XOR (x XOR a) = x XOR (x XOR b)" by simp
  then show "a = b" by (simp add: xor.assoc [symmetric])
qed simp

lemma crc_bit_inj: "crc_bit a = crc_bit b \<Longrightarrow> a = b"
proof -
  assume eq: "crc_bit a = crc_bit b"
  then have low: "bit a 0 = bit b 0"
    using crc_bit_top by metis
  with eq have drop: "drop_bit 1 a = drop_bit 1 b"
    by (simp add: crc_bit_def xor_left_cancel split: if_splits)
  show "a = b"
  proof (rule bit_word_eqI)
    fix n :: nat
    show "bit a n = bit b n"
    proof (cases n)
      case 0
      with low show ?thesis by simp
    next
      case (Suc m)
      have "bit (drop_bit 1 a) m = bit (drop_bit 1 b) m" using drop by simp
      with Suc show ?thesis by (simp add: bit_simps)
    qed
  qed
qed

lemma crc_bits_inj: "(crc_bit ^^ n) a = (crc_bit ^^ n) b \<Longrightarrow> a = b"
  by (induction n) (auto dest: crc_bit_inj)

lemma crc_byte_inj: "crc_byte a x = crc_byte b x \<Longrightarrow> a = b"
proof -
  assume "crc_byte a x = crc_byte b x"
  then have "a XOR ucast x = b XOR ucast x"
    unfolding crc_byte_spec crc_byte_spec_def by (rule crc_bits_inj)
  then have "(a XOR ucast x) XOR ucast x = (b XOR ucast x) XOR ucast x" by simp
  then show "a = b" by (simp add: xor.assoc)
qed

lemma crc_fold_inj: "foldl crc_byte a xs = foldl crc_byte b xs \<Longrightarrow> a = b"
  by (induction xs arbitrary: a b) (auto dest: crc_byte_inj)

text \<open>Up to four bytes as one little-endian word; the CRC of a burst is the CRC of that word.\<close>

fun le_word :: "u8 list \<Rightarrow> u32" where
  "le_word [] = 0"
| "le_word (b # bs) = ucast b XOR push_bit 8 (le_word bs)"

lemma le_word_bound: "bit (le_word bs) i \<Longrightarrow> i < 8 * length bs"
proof (induction bs arbitrary: i)
  case Nil
  then show ?case by simp
next
  case (Cons b bs)
  then show ?case
    by (cases "i < 8") (fastforce simp: bit_simps dest: bit_imp_le_length)+
qed

lemma le_word_inj:
  "length xs = length ys \<Longrightarrow> length xs \<le> 4 \<Longrightarrow> le_word xs = le_word ys \<Longrightarrow> xs = ys"
proof (induction xs ys rule: list_induct2)
  case Nil
  then show ?case by simp
next
  case (Cons x xs y ys)
  have bits: "bit (le_word (x # xs)) i = bit (le_word (y # ys)) i" for i
    using Cons.prems(2) by simp
  have "x = y"
  proof (rule bit_word_eqI)
    fix i :: nat assume i: "i < LENGTH(8)"
    with bits [of i] show "bit x i = bit y i" by (simp add: bit_simps)
  qed
  moreover have "le_word xs = le_word ys"
  proof (rule bit_word_eqI)
    fix i :: nat assume i: "i < LENGTH(32)"
    show "bit (le_word xs) i = bit (le_word ys) i"
    proof (cases "i < 24")
      case True
      with bits [of "i + 8"] show ?thesis
        by (auto simp: bit_simps dest: bit_imp_le_length)
    next
      case False
      with Cons.prems(1) Cons.hyps le_word_bound [of xs i] le_word_bound [of ys i]
      show ?thesis by auto
    qed
  qed
  ultimately show ?case using Cons by simp
qed

lemma crc_fold_word:
  "length bs \<le> 4 \<Longrightarrow> foldl crc_byte c bs = (crc_bit ^^ (8 * length bs)) (c XOR le_word bs)"
proof (induction bs arbitrary: c)
  case Nil
  then show ?case by simp
next
  case (Cons b bs)
  have shift: "(crc_bit ^^ 8) (push_bit 8 (le_word bs)) = le_word bs"
  proof -
    have "(crc_bit ^^ 8) (push_bit 8 (le_word bs)) = drop_bit 8 (push_bit 8 (le_word bs))"
      by (rule crc_bits_low_zero) (auto simp: bit_simps)
    also have "\<dots> = le_word bs"
    proof (rule bit_word_eqI)
      fix i :: nat assume "i < LENGTH(32)"
      then show "bit (drop_bit 8 (push_bit 8 (le_word bs)) :: u32) i = bit (le_word bs) i"
        using Cons.prems le_word_bound [of bs i] by (auto simp: bit_simps)
    qed
    finally show ?thesis .
  qed
  have "foldl crc_byte c (b # bs)
      = (crc_bit ^^ (8 * length bs)) (crc_byte c b XOR le_word bs)"
    using Cons by simp
  also have "crc_byte c b XOR le_word bs = (crc_bit ^^ 8) (c XOR ucast b) XOR le_word bs"
    by (simp only: crc_byte_spec crc_byte_spec_def)
  also have "(crc_bit ^^ 8) (c XOR ucast b) XOR le_word bs
      = (crc_bit ^^ 8) (c XOR le_word (b # bs))"
    using shift crc_bits_xor [of 8 "c XOR ucast b" "push_bit 8 (le_word bs)"]
    by (simp only: le_word.simps xor.assoc)
  finally show ?case
    by (simp add: funpow_add add.commute [of 8])
qed

text \<open>
  C12: the table-driven CRC of the code is the reflected CRC-32 of polynomial 0xEDB88320 computed
  bit by bit, for every message and every start value.
\<close>

theorem crc32_is_reflected_crc: "crc32 data v = crc32_spec data v"
  by (simp add: crc32_def crc32_spec_def crc_byte_eq_spec)

lemma crc32_burst:
  assumes "length m = length m'" "length m \<le> 4" "m \<noteq> m'"
  shows "crc32 (p @ m @ s) v \<noteq> crc32 (p @ m' @ s) v"
proof
  assume "crc32 (p @ m @ s) v = crc32 (p @ m' @ s) v"
  then have "foldl crc_byte (foldl crc_byte (NOT v) p) m = foldl crc_byte (foldl crc_byte (NOT v) p) m'"
    by (auto simp: crc32_def dest!: crc_fold_inj dest: arg_cong [where f = "\<lambda>x. NOT x"])
  then have "le_word m = le_word m'"
    using assms(1,2) by (auto simp: crc_fold_word xor_left_cancel dest: crc_bits_inj)
  with assms show False
    using le_word_inj by blast
qed

section \<open>Type arithmetic\<close>

definition type_kinds :: "variable_type_type list" where
  "type_kinds = [TypeType_sint, TypeType_uint, TypeType_float, TypeType_boolean, TypeType_cfloat]"

lemma small_byte: "P b" if "\<forall>n \<in> set [0..<Suc m]. P (word_of_nat n)" "b \<le> word_of_nat m" "m < 256"
  for b :: u8
proof -
  have "unat b \<le> m" using that(2,3) by (simp add: word_le_nat_alt)
  then have "unat b \<in> set [0..<Suc m]" by (simp add: less_Suc_eq_le del: upt_Suc)
  with that(1) have "P (word_of_nat (unat b))" by blast
  then show ?thesis by simp
qed

lemma byte_nibbles: "b = (b AND 0xF0) OR (b AND 0xF)" for b :: u8
proof -
  have "(0xF0 :: u8) = NOT 0xF" by simp
  then show ?thesis
    by (metis and.right_neutral bit.conj_disj_distrib bit.disj_cancel_right or.commute)
qed

lemma is_supported_type_iff:
  "is_supported_type vt \<longleftrightarrow>
     vt \<in> set [VT_sint8, VT_sint16, VT_sint32, VT_sint64, VT_uint8, VT_uint16, VT_uint32,
              VT_uint64, VT_float32, VT_float64, VT_boolean8, VT_boolean]"
proof
  assume "vt \<in> set [VT_sint8, VT_sint16, VT_sint32, VT_sint64, VT_uint8, VT_uint16, VT_uint32,
              VT_uint64, VT_float32, VT_float64, VT_boolean8, VT_boolean]"
  then show "is_supported_type vt"
    by (auto simp: is_supported_type_def get_var_type_type_def get_type_size_8bits_def
        get_platform_boolean_size_8bits_def)
next
  assume sup: "is_supported_type vt"
  show "vt \<in> set [VT_sint8, VT_sint16, VT_sint32, VT_sint64, VT_uint8, VT_uint16, VT_uint32,
              VT_uint64, VT_float32, VT_float64, VT_boolean8, VT_boolean]"
  proof (cases "vt = VT_boolean \<or> vt = VT_unknown")
    case True
    with sup show ?thesis
      by (auto simp: is_supported_type_def get_type_size_8bits_def Let_def)
  next
    case False
    let ?L = "vt AND 0xF" and ?T = "vt AND 0xF0"
    from sup False have size: "push_bit (unat ?L) 1 \<noteq> (0 :: u8)" "push_bit (unat ?L) 1 \<le> (8 :: u8)"
      and kind: "?T = 0x30 \<and> push_bit (unat ?L) 1 = (1 :: u8)
        \<or> ?T = 0x20 \<and> (push_bit (unat ?L) 1 = (4 :: u8) \<or> push_bit (unat ?L) 1 = (8 :: u8))
        \<or> ?T = 0x10 \<or> ?T = 0"
      by (auto simp: is_supported_type_def get_type_size_8bits_def get_var_type_type_def Let_def
          get_platform_boolean_size_8bits_def not_less split: if_splits)
    have "\<forall>n \<in> set [0..<Suc 15]. push_bit (unat (word_of_nat n :: u8)) 1 \<noteq> (0 :: u8)
        \<longrightarrow> push_bit (unat (word_of_nat n :: u8)) 1 \<le> (8 :: u8)
        \<longrightarrow> (word_of_nat n :: u8) \<in> {0, 1, 2, 3}"
      by (simp add: upt_conv_Cons word_le_nat_alt)
    then have "push_bit (unat ?L) 1 \<noteq> (0 :: u8) \<longrightarrow> push_bit (unat ?L) 1 \<le> (8 :: u8)
        \<longrightarrow> ?L \<in> {0, 1, 2, 3}"
      by (rule small_byte) (simp_all add: word_and_le1)
    with size have low: "?L \<in> {0, 1, 2, 3}" by blast
    have "vt = ?T OR ?L" by (rule byte_nibbles)
    with kind low show ?thesis by (auto simp del: word_bw_lcs)
  qed
qed

lemma supported_type_size:
  "is_supported_type vt \<Longrightarrow> get_type_size_8bits vt \<in> {1, 2, 4, 8}"
  by (auto simp: is_supported_type_iff get_type_size_8bits_def get_platform_boolean_size_8bits_def)

lemma get_required_type_size_minimal:
  assumes "sz \<le> 32" "1 \<le> sz"
  shows "unat sz \<le> 2 ^ unat (get_required_type_size_8bits sz)
       \<and> 2 ^ unat (get_required_type_size_8bits sz) < 2 * unat sz"
proof -
  let ?P = "\<lambda>sz :: u8. sz = 0 \<or> unat sz \<le> 2 ^ unat (get_required_type_size_8bits sz)
       \<and> 2 ^ unat (get_required_type_size_8bits sz) < 2 * unat sz"
  have "\<forall>n \<in> set [0..<Suc 32]. ?P (word_of_nat n)"
    by (simp add: upt_conv_Cons get_required_type_size_8bits_def word_le_nat_alt)
  then have "?P sz"
    by (rule small_byte) (use assms in simp_all)
  with assms show ?thesis by auto
qed

lemma make_type_inverse:
  assumes "tt \<in> set type_kinds" "ts \<le> 5"
  shows "get_var_type_type (make_type tt ts) = tt
       \<and> get_type_size_8bits (make_type tt ts) = push_bit (unat ts) 1"
proof -
  let ?P = "\<lambda>ts :: u8. \<forall>tt \<in> set type_kinds. get_var_type_type (make_type tt ts) = tt
       \<and> get_type_size_8bits (make_type tt ts) = push_bit (unat ts) 1"
  have "\<forall>n \<in> set [0..<Suc 5]. ?P (word_of_nat n)"
    by (simp add: upt_conv_Cons type_kinds_def make_type_def get_var_type_type_def
        get_type_size_8bits_def)
  then have "?P ts"
    by (rule small_byte) (use assms in simp_all)
  with assms show ?thesis by blast
qed

section \<open>Strings\<close>

lemma strnlen_loop_bounds:
  "n \<le> maxlen \<Longrightarrow> n \<le> length s \<Longrightarrow>
     n \<le> strnlen_loop s maxlen n \<and> strnlen_loop s maxlen n \<le> maxlen
   \<and> strnlen_loop s maxlen n \<le> length s"
proof (induction s maxlen n rule: strnlen_loop.induct)
  case (1 s maxlen n)
  show ?case
  proof (cases "n < maxlen \<and> n < length s \<and> s ! n \<noteq> 0")
    case True
    with 1 show ?thesis by (subst (1 2 3) strnlen_loop.simps) fastforce
  next
    case False
    with "1.prems" show ?thesis by (subst (1 2 3) strnlen_loop.simps) auto
  qed
qed

lemma strnlen_bounds: "strnlen s maxlen \<le> maxlen"
  using strnlen_loop_bounds [of 0 maxlen] by (auto simp: strnlen_def split: option.splits)

lemma strnlen_in_string: "strnlen (Some bs) maxlen \<le> length bs"
  using strnlen_loop_bounds [of 0 maxlen bs] by (simp add: strnlen_def)

end
