(* ===== verification/CharTools.thy ===== *)
theory CharTools
  imports Tools
begin

text \<open>
  The helpers of \<open>lib/inc/scrutiny_tools.hpp\<close> for targets whose chars are wider than a byte, and its
  string copy. A buffer of 8-bit units, one per char, is what travels on the link; on a target with
  16-bit chars a char of memory is two of them. A char is a 16-bit word here, which also holds a char
  of the 8-bit build, where the copies are plain. The interface \<open>repacking\<close> is what the services
  rely on: memory that is dilated into a response and a request that is compressed into memory are
  inverse to each other. Interpreted on both byte orders and on the native one.
\<close>

type_synonym wchar = u16

section \<open>Type tests\<close>

definition is_float_type :: "variable_type \<Rightarrow> bool" where
  "is_float_type vt = (get_var_type_type vt = TypeType_float)"

definition is_uint_type :: "variable_type \<Rightarrow> bool" where
  "is_uint_type vt = (get_var_type_type vt = TypeType_uint)"

definition is_sint_type :: "variable_type \<Rightarrow> bool" where
  "is_sint_type vt = (get_var_type_type vt = TypeType_sint)"

text \<open>A size in chars; \<open>wide\<close>: chars have 16 bits.\<close>

definition get_required_type_size_char :: "bool \<Rightarrow> u8 \<Rightarrow> variable_type_size" where
  "get_required_type_size_char wide sz =
    (let per_char = (if wide then 2 else 1) in
     if \<not> wide \<and> sz \<le> 1 then TypeSize_8
     else if sz \<le> 2 div per_char then TypeSize_16
     else if sz \<le> 4 div per_char then TypeSize_32
     else if sz \<le> 8 div per_char then TypeSize_64
     else if sz \<le> 16 div per_char then TypeSize_128
     else if sz \<le> 32 div per_char then TypeSize_256
     else TypeSize_undef)"

text \<open>A char of the 16-bit build counts twice.\<close>

lemma get_required_type_size_char_units:
  "get_required_type_size_char False sz = get_required_type_size_8bits sz"
  "0 < sz \<Longrightarrow> sz \<le> 127 \<Longrightarrow> get_required_type_size_char True sz = get_required_type_size_8bits (2 * sz)"
proof -
  show "get_required_type_size_char False sz = get_required_type_size_8bits sz"
    by (simp add: get_required_type_size_char_def get_required_type_size_8bits_def Let_def)
  have d: "unat (2 * sz) = 2 * unat sz" if "sz \<le> 127"
    using that by (simp add: unat_word_ariths word_le_nat_alt)
  show "get_required_type_size_char True sz = get_required_type_size_8bits (2 * sz)" if "0 < sz" "sz \<le> 127"
    using that by (simp add: get_required_type_size_char_def get_required_type_size_8bits_def Let_def word_le_nat_alt word_less_nat_alt d [OF that(2)])
qed

section \<open>Copies between units and chars\<close>

text \<open>The loops of the 16-bit build; the first argument is the number of iterations.\<close>

primrec dilate_big_loop :: "nat \<Rightarrow> wchar list \<Rightarrow> wchar list \<Rightarrow> wchar list" where
  "dilate_big_loop 0 src dst = dst"
| "dilate_big_loop (Suc i) src dst =
    (dilate_big_loop i src dst)[2 * i := drop_bit 8 (src ! i) AND 0xFF, 2 * i + 1 := src ! i AND 0xFF]"

primrec dilate_little_loop :: "nat \<Rightarrow> wchar list \<Rightarrow> wchar list \<Rightarrow> wchar list" where
  "dilate_little_loop 0 src dst = dst"
| "dilate_little_loop (Suc i) src dst =
    (dilate_little_loop i src dst)[2 * i := src ! i AND 0xFF, 2 * i + 1 := drop_bit 8 (src ! i) AND 0xFF]"

primrec compress_big_loop :: "nat \<Rightarrow> wchar list \<Rightarrow> wchar list \<Rightarrow> wchar list" where
  "compress_big_loop 0 src dst = dst"
| "compress_big_loop (Suc i) src dst =
    (compress_big_loop i src dst)[i := push_bit 8 (src ! (2 * i) AND 0xFF) OR (src ! (2 * i + 1) AND 0xFF)]"

primrec compress_little_loop :: "nat \<Rightarrow> wchar list \<Rightarrow> wchar list \<Rightarrow> wchar list" where
  "compress_little_loop 0 src dst = dst"
| "compress_little_loop (Suc i) src dst =
    (compress_little_loop i src dst)[i := push_bit 8 (src ! (2 * i + 1) AND 0xFF) OR (src ! (2 * i) AND 0xFF)]"

text \<open>\<open>little\<close>: what \<open>is_little_endian\<close> says of the target.\<close>

definition memcpy_dilate_8bits_big_endian :: "bool \<Rightarrow> wchar list \<Rightarrow> wchar list \<Rightarrow> nat \<Rightarrow> wchar list" where
  "memcpy_dilate_8bits_big_endian wide dst src nb_8bits =
    (if wide then dilate_big_loop (nb_8bits div 2) src dst else blit dst 0 (take nb_8bits src))"

definition memcpy_dilate_8bits_little_endian :: "bool \<Rightarrow> wchar list \<Rightarrow> wchar list \<Rightarrow> nat \<Rightarrow> wchar list" where
  "memcpy_dilate_8bits_little_endian wide dst src nb_8bits =
    (if wide then dilate_little_loop (nb_8bits div 2) src dst else blit dst 0 (take nb_8bits src))"

definition memcpy_dilate_8bits_native :: "bool \<Rightarrow> bool \<Rightarrow> wchar list \<Rightarrow> wchar list \<Rightarrow> nat \<Rightarrow> wchar list" where
  "memcpy_dilate_8bits_native wide little dst src nb_8bits =
    (if wide then
       (if little then memcpy_dilate_8bits_little_endian wide dst src nb_8bits
        else memcpy_dilate_8bits_big_endian wide dst src nb_8bits)
     else blit dst 0 (take nb_8bits src))"

definition memcpy_compress_from_8bits_big_endian :: "bool \<Rightarrow> wchar list \<Rightarrow> wchar list \<Rightarrow> nat \<Rightarrow> wchar list" where
  "memcpy_compress_from_8bits_big_endian wide dst src nb_8bits =
    (if wide then compress_big_loop (nb_8bits div 2) src dst else blit dst 0 (take nb_8bits src))"

definition memcpy_compress_from_8bits_little_endian :: "bool \<Rightarrow> wchar list \<Rightarrow> wchar list \<Rightarrow> nat \<Rightarrow> wchar list" where
  "memcpy_compress_from_8bits_little_endian wide dst src nb_8bits =
    (if wide then compress_little_loop (nb_8bits div 2) src dst else blit dst 0 (take nb_8bits src))"

definition memcpy_compress_from_8bits_native :: "bool \<Rightarrow> bool \<Rightarrow> wchar list \<Rightarrow> wchar list \<Rightarrow> nat \<Rightarrow> wchar list" where
  "memcpy_compress_from_8bits_native wide little dst src nb_8bits =
    (if wide then
       (if little then memcpy_compress_from_8bits_little_endian wide dst src nb_8bits
        else memcpy_compress_from_8bits_big_endian wide dst src nb_8bits)
     else blit dst 0 (take nb_8bits src))"

section \<open>What the loops do\<close>

definition hi_unit :: "wchar \<Rightarrow> wchar" where "hi_unit c = drop_bit 8 c AND 0xFF"
definition lo_unit :: "wchar \<Rightarrow> wchar" where "lo_unit c = c AND 0xFF"

lemma units_of_char: "push_bit 8 (hi_unit c AND 0xFF) OR (lo_unit c AND 0xFF) = c"
proof -
  have unit: "(0xFF :: wchar) = mask 8" by (simp add: mask_eq_exp_minus_1)
  show ?thesis
    unfolding hi_unit_def lo_unit_def unit by (rule bit_word_eqI) (auto simp: bit_simps)
qed

lemmas units_of_char' = units_of_char [simplified]

definition units_big :: "wchar list \<Rightarrow> wchar list" where
  "units_big cs = concat (map (\<lambda>c. [hi_unit c, lo_unit c]) cs)"

definition units_little :: "wchar list \<Rightarrow> wchar list" where
  "units_little cs = concat (map (\<lambda>c. [lo_unit c, hi_unit c]) cs)"

lemma length_units [simp]: "length (units_big cs) = 2 * length cs" "length (units_little cs) = 2 * length cs"
  by (induction cs) (simp_all add: units_big_def units_little_def)

lemma two_updates: "2 * n + 1 < length dst \<Longrightarrow> length us = 2 * n \<Longrightarrow>
    (blit dst 0 us)[2 * n := a, 2 * n + 1 := b] = blit dst 0 (us @ [a, b])"
  by (rule nth_equalityI) (auto simp: nth_blit nth_append nth_list_update less_Suc_eq)

lemma dilate_big_loop_eq:
  "n \<le> length src \<Longrightarrow> 2 * n \<le> length dst \<Longrightarrow> dilate_big_loop n src dst = blit dst 0 (units_big (take n src))"
  by (induction n) (simp_all add: units_big_def take_Suc_conv_app_nth hi_unit_def lo_unit_def
      two_updates [simplified] length_units(1) [unfolded units_big_def hi_unit_def lo_unit_def])

lemma dilate_little_loop_eq:
  "n \<le> length src \<Longrightarrow> 2 * n \<le> length dst \<Longrightarrow> dilate_little_loop n src dst = blit dst 0 (units_little (take n src))"
  by (induction n) (simp_all add: units_little_def take_Suc_conv_app_nth hi_unit_def lo_unit_def
      two_updates [simplified] length_units(2) [unfolded units_little_def hi_unit_def lo_unit_def])

lemma one_update: "n < length dst \<Longrightarrow> length us = n \<Longrightarrow> (blit dst 0 us)[n := a] = blit dst 0 (us @ [a])"
  by (rule nth_equalityI) (auto simp: nth_blit nth_append nth_list_update less_Suc_eq)

lemma units_nth:
  "i < length cs \<Longrightarrow> units_big cs ! (2 * i) = hi_unit (cs ! i) \<and> units_big cs ! (2 * i + 1) = lo_unit (cs ! i)"
  "i < length cs \<Longrightarrow> units_little cs ! (2 * i) = lo_unit (cs ! i) \<and> units_little cs ! (2 * i + 1) = hi_unit (cs ! i)"
  by (induction cs arbitrary: i) (auto simp: units_big_def units_little_def less_Suc_eq_0_disj)

lemma compress_big_loop_eq:
  "n \<le> length cs \<Longrightarrow> n \<le> length dst \<Longrightarrow> compress_big_loop n (units_big cs) dst = blit dst 0 (take n cs)"
  by (induction n) (simp_all add: take_Suc_conv_app_nth units_nth [simplified] units_of_char' one_update)

lemma compress_little_loop_eq:
  "n \<le> length cs \<Longrightarrow> n \<le> length dst \<Longrightarrow> compress_little_loop n (units_little cs) dst = blit dst 0 (take n cs)"
  by (induction n) (simp_all add: take_Suc_conv_app_nth units_nth [simplified] units_of_char' one_update)

section \<open>Repacking\<close>

text \<open>
  The units of memory can be taken to the link and back: \<open>units\<close> is what the dilation writes, and
  the compression of these units writes the chars they came from.
\<close>

locale repacking =
  fixes width :: nat and units :: "wchar list \<Rightarrow> wchar list"
    and dilate compress :: "wchar list \<Rightarrow> wchar list \<Rightarrow> nat \<Rightarrow> wchar list"
  assumes length_units: "length (units cs) = width * length cs"
    and dilate: "n \<le> length src \<Longrightarrow> width * n \<le> length dst \<Longrightarrow> dilate dst src (width * n) = blit dst 0 (units (take n src))"
    and compress: "n \<le> length dst \<Longrightarrow> length cs = n \<Longrightarrow> compress dst (units cs @ rest) (width * n) = blit dst 0 cs"
begin

lemma dilate_length:
  "n \<le> length src \<Longrightarrow> width * n \<le> length dst \<Longrightarrow> length (dilate dst src (width * n)) = length dst"
  by (simp add: dilate length_units min_absorb2)

lemma compress_dilate:
  assumes "n \<le> length src" "width * n \<le> length link" "n \<le> length dst"
  shows "compress dst (dilate link src (width * n)) (width * n) = blit dst 0 (take n src)"
proof -
  have "dilate link src (width * n) = units (take n src) @ drop (width * n) link"
    using assms by (simp add: dilate blit_def length_units min_absorb2)
  then show ?thesis using assms by (simp add: compress)
qed

end

lemma compress_big_loop_app:
  "n \<le> length cs \<Longrightarrow> compress_big_loop n (units_big cs @ rest) dst = compress_big_loop n (units_big cs) dst"
  by (induction n) (simp_all add: nth_append)

lemma compress_little_loop_app:
  "n \<le> length cs \<Longrightarrow> compress_little_loop n (units_little cs @ rest) dst = compress_little_loop n (units_little cs) dst"
  by (induction n) (simp_all add: nth_append)

interpretation plain: repacking 1 "\<lambda>cs. cs" "memcpy_dilate_8bits_native False little" "memcpy_compress_from_8bits_native False little"
  for little
  by unfold_locales (simp_all add: memcpy_dilate_8bits_native_def memcpy_compress_from_8bits_native_def)

interpretation big: repacking 2 units_big "memcpy_dilate_8bits_big_endian True" "memcpy_compress_from_8bits_big_endian True"
  by unfold_locales (simp_all add: memcpy_dilate_8bits_big_endian_def memcpy_compress_from_8bits_big_endian_def
      dilate_big_loop_eq compress_big_loop_app compress_big_loop_eq)

interpretation little: repacking 2 units_little "memcpy_dilate_8bits_little_endian True" "memcpy_compress_from_8bits_little_endian True"
  by unfold_locales (simp_all add: memcpy_dilate_8bits_little_endian_def memcpy_compress_from_8bits_little_endian_def
      dilate_little_loop_eq compress_little_loop_app compress_little_loop_eq)

text \<open>On every target, memory that is read into a response and written back is unchanged.\<close>

lemma native_repacking:
  assumes "n \<le> length src" "(if wide then 2 else 1) * n \<le> length link" "n \<le> length dst"
  shows "memcpy_compress_from_8bits_native wide le dst
      (memcpy_dilate_8bits_native wide le link src ((if wide then 2 else 1) * n)) ((if wide then 2 else 1) * n)
    = blit dst 0 (take n src)"
  using assms big.compress_dilate little.compress_dilate plain.compress_dilate [of n src link dst le]
  by (cases wide; cases le) (simp_all add: memcpy_dilate_8bits_native_def memcpy_compress_from_8bits_native_def)

text \<open>An odd number of units: the last char is left out.\<close>

lemma odd_units_left_out:
  "memcpy_dilate_8bits_native True le dst src (2 * n + 1) = memcpy_dilate_8bits_native True le dst src (2 * n)"
  by (simp add: memcpy_dilate_8bits_native_def memcpy_dilate_8bits_little_endian_def memcpy_dilate_8bits_big_endian_def)

section \<open>Copying a string\<close>

text \<open>
  \<open>strncpy\<close> over the chars that are readable at \<open>src\<close>: the loop from \<open>n\<close>, its count and the
  destination. It is called with a positive \<open>maxlen\<close>: for 0 the code writes before its buffer.
\<close>

function strncpy_loop :: "u8 list \<Rightarrow> nat \<Rightarrow> nat \<Rightarrow> u8 list \<Rightarrow> nat \<times> u8 list" where
  "strncpy_loop src maxlen n dst =
    (if n < maxlen then
       (let dst = dst[n := src ! n] in if src ! n = 0 then (n, dst) else strncpy_loop src maxlen (Suc n) dst)
     else (n, dst))"
  by pat_completeness auto
termination
  by (relation "measure (\<lambda>(src, maxlen, n, dst). maxlen - n)") auto

declare strncpy_loop.simps [simp del]

definition strncpy :: "u8 list \<Rightarrow> u8 list \<Rightarrow> nat \<Rightarrow> nat \<times> u8 list" where
  "strncpy dst src maxlen =
    (case strncpy_loop src maxlen 0 dst of (n, dst) \<Rightarrow> (n, if n \<ge> maxlen then dst[maxlen - 1 := 0] else dst))"

lemma strncpy_loop_copies:
  assumes "n \<le> maxlen" "maxlen \<le> length dst" "strncpy_loop src maxlen n dst = (m, dst')"
    "take n dst = take n src" "n \<le> length src" "maxlen \<le> length src \<or> 0 \<in> set (drop n src)"
  shows "n \<le> m \<and> m \<le> maxlen \<and> length dst' = length dst \<and> take m dst' = take m src \<and> m \<le> length src
    \<and> drop maxlen dst' = drop maxlen dst \<and> 0 \<notin> set (take (m - n) (drop n src)) \<and> (m < maxlen \<longrightarrow> m < length src \<and> src ! m = 0 \<and> dst' ! m = 0)"
  using assms
proof (induction src maxlen n dst rule: strncpy_loop.induct)
  case (1 src maxlen n dst)
  have inside: "n < length src" if "n < maxlen"
    using 1(7) that by (cases "n < length src") auto
  show ?case
  proof (cases "n < maxlen \<and> src ! n \<noteq> 0")
    case True
    then have n: "n < length src" "n < length dst" using inside 1(3) by auto
    have "take (Suc n) (dst[n := src ! n]) = take (Suc n) src"
      using 1(5) n by (simp add: take_Suc_conv_app_nth)
    moreover have "maxlen \<le> length src \<or> 0 \<in> set (drop (Suc n) src)"
      using 1(7) n True by (auto simp: Cons_nth_drop_Suc [symmetric])
    moreover have "strncpy_loop src maxlen (Suc n) (dst[n := src ! n]) = (m, dst')"
      using 1(4) True by (simp add: strncpy_loop.simps [of src maxlen n dst] Let_def)
    ultimately have IH: "Suc n \<le> m \<and> m \<le> maxlen \<and> length dst' = length dst \<and> take m dst' = take m src \<and> m \<le> length src
        \<and> drop maxlen dst' = drop maxlen dst \<and> 0 \<notin> set (take (m - Suc n) (drop (Suc n) src))
        \<and> (m < maxlen \<longrightarrow> m < length src \<and> src ! m = 0 \<and> dst' ! m = 0)"
      using 1(1) [OF _ refl] 1(3) n True by (simp add: drop_update_cancel)
    then have "m - n = Suc (m - Suc n)" by arith
    then have "take (m - n) (drop n src) = src ! n # take (m - Suc n) (drop (Suc n) src)"
      using n by (simp add: Cons_nth_drop_Suc [symmetric])
    with IH True show ?thesis by simp
  next
    case False
    then show ?thesis
      using 1 inside by (auto simp: strncpy_loop.simps [of src maxlen n dst] Let_def split: if_splits)
  qed
qed

text \<open>The destination is a string, the source cut to \<open>maxlen - 1\<close> chars, and nothing behind is touched.\<close>

lemma strncpy_string:
  assumes "0 < maxlen" "maxlen \<le> length dst" "src = s @ 0 # rest" "0 \<notin> set s"
  shows "fst (strncpy dst src maxlen) = min (length s) maxlen"
    and "\<exists>r. snd (strncpy dst src maxlen) = take (maxlen - 1) s @ 0 # r"
    and "length (snd (strncpy dst src maxlen)) = length dst"
    and "drop maxlen (snd (strncpy dst src maxlen)) = drop maxlen dst"
proof -
  obtain m d where l: "strncpy_loop src maxlen 0 dst = (m, d)" by force
  note c = strncpy_loop_copies [OF _ assms(2) l, simplified]
  have c: "m \<le> maxlen" "length d = length dst" "take m d = take m src" "m \<le> length src" "drop maxlen d = drop maxlen dst"
    "0 \<notin> set (take m src)" "m < maxlen \<Longrightarrow> src ! m = 0 \<and> m < length src \<and> d ! m = 0"
    using c assms(3) by auto
  have m: "m = min (length s) maxlen"
  proof (cases "m < maxlen")
    case True
    have "\<not> length s < m" using c(4,6) assms(3) by (auto simp: take_Cons')
    moreover have "\<not> m < length s" using c(7) True assms(3,4) by (auto simp: nth_append in_set_conv_nth)
    ultimately show ?thesis using True by simp
  next
    case False
    then have "m = maxlen" using c(1) by simp
    moreover have "\<not> length s < m" using c(4,6) assms(3) by (auto simp: take_Cons')
    ultimately show ?thesis by simp
  qed
  have eq: "strncpy dst src maxlen = (m, if m \<ge> maxlen then d[maxlen - 1 := 0] else d)"
    by (simp add: strncpy_def l)
  then show "fst (strncpy dst src maxlen) = min (length s) maxlen" using m by simp
  show "length (snd (strncpy dst src maxlen)) = length dst" using eq c(2) by simp
  show "drop maxlen (snd (strncpy dst src maxlen)) = drop maxlen dst" using eq c(5) assms(1) by simp
  show "\<exists>r. snd (strncpy dst src maxlen) = take (maxlen - 1) s @ 0 # r"
  proof (cases "m < maxlen")
    case True
    then have ms: "m = length s" using m by auto
    have "d = take m d @ 0 # drop (Suc m) d"
      using c(2,7) True assms(2) id_take_nth_drop [of m d] by simp
    then have "d = s @ 0 # drop (Suc m) d" using c(3) assms(3) ms by simp
    moreover have "take (maxlen - 1) s = s" using True ms by simp
    ultimately show ?thesis using eq True by force
  next
    case False
    then have ms: "m = maxlen" "maxlen \<le> length s" using c(1) m by auto
    have "d[maxlen - 1 := 0] = take (maxlen - 1) d @ 0 # drop maxlen d"
      using c(2) assms(1,2) by (simp add: upd_conv_take_nth_drop)
    moreover have "take maxlen d = take maxlen s" using c(3) ms assms(3) by simp
    then have "take (maxlen - 1) (take maxlen d) = take (maxlen - 1) (take maxlen s)" by simp
    then have "take (maxlen - 1) d = take (maxlen - 1) s" by (simp add: min_absorb1)
    ultimately show ?thesis using eq ms by force
  qed
qed

end
