(* ===== verification/Codecs.thy ===== *)
theory Codecs
  imports Tools
begin

text \<open>
  The byte codecs of \<open>lib/inc/scrutiny_common_codecs.hpp\<close> and
  \<open>lib/src/scrutiny_common_codecs.cpp\<close>. An encoder writes its bytes at the pointer it is given and
  returns how many it wrote; here it is the list of these bytes, so the returned count is the
  length of the list. A decoder reads the first bytes of the list it is given. The interface
  \<open>byte_codec\<close> states what the rest of the library uses of a pair of them, and every pair of the
  code is an interpretation of it.
\<close>

section \<open>Encoders\<close>

definition encode_8_bits_8bits :: "u8 \<Rightarrow> u8 list" where
  "encode_8_bits_8bits value' = [value' AND 0xFF]"

definition encode_16_bits_big_endian :: "u16 \<Rightarrow> u8 list" where
  "encode_16_bits_big_endian value' =
    [ucast (drop_bit 8 value' AND 0xFF), ucast (drop_bit 0 value' AND 0xFF)]"

definition encode_16_bits_little_endian :: "u16 \<Rightarrow> u8 list" where
  "encode_16_bits_little_endian value' =
    [ucast (drop_bit 0 value' AND 0xFF), ucast (drop_bit 8 value' AND 0xFF)]"

definition encode_32_bits_big_endian :: "u32 \<Rightarrow> u8 list" where
  "encode_32_bits_big_endian value' =
    [ucast (drop_bit 24 value' AND 0xFF), ucast (drop_bit 16 value' AND 0xFF),
     ucast (drop_bit 8 value' AND 0xFF), ucast (drop_bit 0 value' AND 0xFF)]"

definition encode_32_bits_little_endian :: "u32 \<Rightarrow> u8 list" where
  "encode_32_bits_little_endian value' =
    [ucast (drop_bit 0 value' AND 0xFF), ucast (drop_bit 8 value' AND 0xFF),
     ucast (drop_bit 16 value' AND 0xFF), ucast (drop_bit 24 value' AND 0xFF)]"

definition encode_64_bits_big_endian :: "u64 \<Rightarrow> u8 list" where
  "encode_64_bits_big_endian value' =
    [ucast (drop_bit 56 value' AND 0xFF), ucast (drop_bit 48 value' AND 0xFF),
     ucast (drop_bit 40 value' AND 0xFF), ucast (drop_bit 32 value' AND 0xFF),
     ucast (drop_bit 24 value' AND 0xFF), ucast (drop_bit 16 value' AND 0xFF),
     ucast (drop_bit 8 value' AND 0xFF), ucast (drop_bit 0 value' AND 0xFF)]"

definition encode_64_bits_little_endian :: "u64 \<Rightarrow> u8 list" where
  "encode_64_bits_little_endian value' =
    [ucast (drop_bit 0 value' AND 0xFF), ucast (drop_bit 8 value' AND 0xFF),
     ucast (drop_bit 16 value' AND 0xFF), ucast (drop_bit 24 value' AND 0xFF),
     ucast (drop_bit 32 value' AND 0xFF), ucast (drop_bit 40 value' AND 0xFF),
     ucast (drop_bit 48 value' AND 0xFF), ucast (drop_bit 56 value' AND 0xFF)]"

text \<open>A \<open>float\<close> is its 32 bits: the \<open>memcpy\<close> from the float to the integer keeps them.\<close>

definition encode_float_big_endian :: "u32 \<Rightarrow> u8 list" where
  "encode_float_big_endian value' = (let uv = value' in encode_32_bits_big_endian uv)"

definition encode_float_little_endian :: "u32 \<Rightarrow> u8 list" where
  "encode_float_little_endian value' = (let uv = value' in encode_32_bits_little_endian uv)"

text \<open>\<open>sizeof(void*)\<close> is 8 on the modelled target, so every \<open>if (addr_size >= n)\<close> is taken.\<close>

definition encode_address_big_endian :: "uintptr \<Rightarrow> u8 list" where
  "encode_address_big_endian addr =
    [ucast (drop_bit 56 addr AND 0xFF), ucast (drop_bit 48 addr AND 0xFF),
     ucast (drop_bit 40 addr AND 0xFF), ucast (drop_bit 32 addr AND 0xFF),
     ucast (drop_bit 24 addr AND 0xFF), ucast (drop_bit 16 addr AND 0xFF),
     ucast (drop_bit 8 addr AND 0xFF), ucast (drop_bit 0 addr AND 0xFF)]"

text \<open>
  \<open>AnyType\<close> is a union of the scalar types: here its 8 bytes as a little-endian word, so the
  16-bit member, say, is the low half word. An unsupported size writes nothing and returns 0.
\<close>

type_synonym anytype = u64

definition encode_anytype_big_endian_sz :: "anytype \<Rightarrow> u8 \<Rightarrow> u8 list" where
  "encode_anytype_big_endian_sz val typesize =
    (if typesize = 1 then [ucast val]
     else if typesize = 2 then encode_16_bits_big_endian (ucast val)
     else if typesize = 4 then encode_32_bits_big_endian (ucast val)
     else if typesize = 8 then encode_64_bits_big_endian (ucast val)
     else [])"

definition encode_anytype_big_endian :: "anytype \<Rightarrow> variable_type \<Rightarrow> u8 list" where
  "encode_anytype_big_endian val vartype =
    encode_anytype_big_endian_sz val (get_type_size_8bits vartype)"

definition encode_anytype_big_endian_char :: "anytype \<Rightarrow> variable_type \<Rightarrow> u8 list" where
  "encode_anytype_big_endian_char val vartype =
    (let typesize = get_type_size_char vartype
     in if typesize = 1 then [ucast val]
        else if typesize = 2 then encode_16_bits_big_endian (ucast val)
        else if typesize = 4 then encode_32_bits_big_endian (ucast val)
        else if typesize = 8 then encode_64_bits_big_endian (ucast val)
        else [])"

section \<open>Decoders\<close>

definition decode_16_bits_big_endian :: "u8 list \<Rightarrow> u16" where
  "decode_16_bits_big_endian buff =
    (push_bit 8 (ucast (buff ! 0)) AND 0xFF00) OR (push_bit 0 (ucast (buff ! 1)) AND 0x00FF)"

definition decode_16_bits_little_endian :: "u8 list \<Rightarrow> u16" where
  "decode_16_bits_little_endian buff =
    (push_bit 8 (ucast (buff ! 1)) AND 0xFF00) OR (push_bit 0 (ucast (buff ! 0)) AND 0x00FF)"

definition decode_32_bits_big_endian :: "u8 list \<Rightarrow> u32" where
  "decode_32_bits_big_endian buff =
    (push_bit 24 (ucast (buff ! 0)) AND 0xFF000000) OR
    (push_bit 16 (ucast (buff ! 1)) AND 0x00FF0000) OR
    (push_bit 8 (ucast (buff ! 2)) AND 0x0000FF00) OR
    (push_bit 0 (ucast (buff ! 3)) AND 0x000000FF)"

definition decode_32_bits_little_endian :: "u8 list \<Rightarrow> u32" where
  "decode_32_bits_little_endian buff =
    (push_bit 24 (ucast (buff ! 3)) AND 0xFF000000) OR
    (push_bit 16 (ucast (buff ! 2)) AND 0x00FF0000) OR
    (push_bit 8 (ucast (buff ! 1)) AND 0x0000FF00) OR
    (push_bit 0 (ucast (buff ! 0)) AND 0x000000FF)"

definition decode_64_bits_big_endian :: "u8 list \<Rightarrow> u64" where
  "decode_64_bits_big_endian buff =
    (push_bit 56 (ucast (buff ! 0)) AND 0xFF00000000000000) OR
    (push_bit 48 (ucast (buff ! 1)) AND 0x00FF000000000000) OR
    (push_bit 40 (ucast (buff ! 2)) AND 0x0000FF0000000000) OR
    (push_bit 32 (ucast (buff ! 3)) AND 0x000000FF00000000) OR
    (push_bit 24 (ucast (buff ! 4)) AND 0x00000000FF000000) OR
    (push_bit 16 (ucast (buff ! 5)) AND 0x0000000000FF0000) OR
    (push_bit 8 (ucast (buff ! 6)) AND 0x000000000000FF00) OR
    (push_bit 0 (ucast (buff ! 7)) AND 0x00000000000000FF)"

definition decode_64_bits_little_endian :: "u8 list \<Rightarrow> u64" where
  "decode_64_bits_little_endian buff =
    (push_bit 56 (ucast (buff ! 7)) AND 0xFF00000000000000) OR
    (push_bit 48 (ucast (buff ! 6)) AND 0x00FF000000000000) OR
    (push_bit 40 (ucast (buff ! 5)) AND 0x0000FF0000000000) OR
    (push_bit 32 (ucast (buff ! 4)) AND 0x000000FF00000000) OR
    (push_bit 24 (ucast (buff ! 3)) AND 0x00000000FF000000) OR
    (push_bit 16 (ucast (buff ! 2)) AND 0x0000000000FF0000) OR
    (push_bit 8 (ucast (buff ! 1)) AND 0x000000000000FF00) OR
    (push_bit 0 (ucast (buff ! 0)) AND 0x00000000000000FF)"

definition decode_float_big_endian :: "u8 list \<Rightarrow> u32" where
  "decode_float_big_endian buff = (let temp = decode_32_bits_big_endian buff in temp)"

definition decode_float_little_endian :: "u8 list \<Rightarrow> u32" where
  "decode_float_little_endian buff = (let temp = decode_32_bits_little_endian buff in temp)"

text \<open>\<open>decode_address_big_endian_8bits\<close> does not mask: a shifted byte has no other bits.\<close>

definition decode_address_big_endian :: "u8 list \<Rightarrow> uintptr" where
  "decode_address_big_endian buf =
    push_bit 56 (ucast (buf ! 0)) OR push_bit 48 (ucast (buf ! 1)) OR
    push_bit 40 (ucast (buf ! 2)) OR push_bit 32 (ucast (buf ! 3)) OR
    push_bit 24 (ucast (buf ! 4)) OR push_bit 16 (ucast (buf ! 5)) OR
    push_bit 8 (ucast (buf ! 6)) OR push_bit 0 (ucast (buf ! 7))"

section \<open>Interface: a fixed-size codec\<close>

locale byte_codec =
  fixes enc :: "'a \<Rightarrow> u8 list" and dec :: "u8 list \<Rightarrow> 'a" and len :: nat
  assumes length_enc: "length (enc v) = len"
    and dec_enc: "dec (enc v) = v"
    and enc_dec: "length bs = len \<Longrightarrow> enc (dec bs) = bs"
    and dec_take: "len \<le> length bs \<Longrightarrow> dec bs = dec (take len bs)"
begin

lemma dec_enc_append: "dec (enc v @ bs) = v"
  using dec_take [of "enc v @ bs"] by (simp add: length_enc dec_enc)

lemma enc_inj: "enc v = enc w \<longleftrightarrow> v = w"
  using dec_enc by metis

lemma dec_inj: "length bs = len \<Longrightarrow> length cs = len \<Longrightarrow> dec bs = dec cs \<longleftrightarrow> bs = cs"
  using enc_dec by metis

lemma enc_dec_take: "len \<le> length bs \<Longrightarrow> enc (dec bs) = take len bs"
  using dec_take [of bs] enc_dec [of "take len bs"] by simp

lemma dec_blit:
  "i + len \<le> length buf \<Longrightarrow> dec (drop i (blit buf i (enc v))) = v"
  by (subst dec_take) (use take_drop_blit_same [of i "enc v" buf] in \<open>simp_all add: length_enc dec_enc\<close>)

lemma dec_drop_append: "length xs = n \<Longrightarrow> dec (drop n (xs @ enc v @ bs)) = v"
  by (simp add: dec_enc_append)

end

section \<open>The codecs of the code are fixed-size codecs\<close>

lemma length_2: "length bs = 2 \<Longrightarrow> bs = [bs ! 0, bs ! 1]"
  by (auto simp: numeral_2_eq_2 length_Suc_conv)

lemma length_4: "length bs = 4 \<Longrightarrow> bs = [bs ! 0, bs ! 1, bs ! 2, bs ! 3]"
  by (auto simp: numeral_eq_Suc length_Suc_conv)

lemma length_8:
  "length bs = 8 \<Longrightarrow> bs = [bs ! 0, bs ! 1, bs ! 2, bs ! 3, bs ! 4, bs ! 5, bs ! 6, bs ! 7]"
  by (auto simp: numeral_eq_Suc length_Suc_conv)

text \<open>The masks of the code take a byte, or the byte that was just shifted in place.\<close>

lemma byte_mask [codec_simps]: "(0xFF :: 'a::len word) = mask 8"
  by (simp add: mask_eq_exp_minus_1)

lemma and_mask_ucast: "(ucast (w AND mask 8 :: 'a::len word) :: u8) = ucast w"
  by (rule bit_word_eqI) (auto simp: bit_simps dest: bit_imp_le_length)

lemma shifted_byte_mask: "push_bit n (ucast (b :: u8)) AND push_bit n (mask 8) = (push_bit n (ucast b) :: 'a::len word)"
  by (rule bit_word_eqI) (auto simp: bit_simps dest: bit_imp_le_length)

lemma byte_mask_16 [codec_simps]: "(0xFF00 :: u16) = push_bit 8 (mask 8)"
  by (simp add: mask_eq_exp_minus_1)

lemma byte_mask_32 [codec_simps]:
  "(0xFF00 :: u32) = push_bit 8 (mask 8)" "(0xFF0000 :: u32) = push_bit 16 (mask 8)"
  "(0xFF000000 :: u32) = push_bit 24 (mask 8)"
  by (simp_all add: mask_eq_exp_minus_1)

lemma byte_mask_64 [codec_simps]:
  "(0xFF00 :: u64) = push_bit 8 (mask 8)" "(0xFF0000 :: u64) = push_bit 16 (mask 8)"
  "(0xFF000000 :: u64) = push_bit 24 (mask 8)" "(0xFF00000000 :: u64) = push_bit 32 (mask 8)"
  "(0xFF0000000000 :: u64) = push_bit 40 (mask 8)"
  "(0xFF000000000000 :: u64) = push_bit 48 (mask 8)"
  "(0xFF00000000000000 :: u64) = push_bit 56 (mask 8)"
  by (simp_all add: mask_eq_exp_minus_1)

lemma unshifted_byte_mask: "push_bit 0 (ucast (b :: u8)) AND mask 8 = (ucast b :: 'a::len word)"
  by (rule bit_word_eqI) (auto simp: bit_simps dest: bit_imp_le_length)

lemmas byte_codec_simps = codec_simps and_mask_ucast shifted_byte_mask unshifted_byte_mask

lemma u8_bit_oob: "8 \<le> n \<Longrightarrow> \<not> bit (b :: u8) n"
  by (auto dest: bit_imp_le_length)

lemmas byte_bits = bit_simps u8_bit_oob

text \<open>Two words are equal when their bytes are.\<close>

lemma u16_eq_bytes:
  fixes v w :: u16
  shows "(\<And>j. j < 8 \<Longrightarrow> bit v j = bit w j) \<Longrightarrow>
    (\<And>j. j < 8 \<Longrightarrow> bit v (8 + j) = bit w (8 + j)) \<Longrightarrow> v = w"
proof (rule bit_word_eqI)
  fix n :: nat
  assume bytes: "\<And>j. j < 8 \<Longrightarrow> bit v j = bit w j"
    "\<And>j. j < 8 \<Longrightarrow> bit v (8 + j) = bit w (8 + j)"
  assume "n < LENGTH(16)"
  then have q: "n div 8 < 2" by simp
  have n: "n = 8 * (n div 8) + n mod 8" by simp
  from q have "n div 8 = 0 \<or> n div 8 = 1"
    by arith
  then show "bit v n = bit w n"
    using n bytes(1) [of "n mod 8"] bytes(2) [of "n mod 8"]
    by (elim disjE) simp_all
qed

lemma u32_eq_bytes:
  fixes v w :: u32
  shows "(\<And>j. j < 8 \<Longrightarrow> bit v j = bit w j) \<Longrightarrow>
    (\<And>j. j < 8 \<Longrightarrow> bit v (8 + j) = bit w (8 + j)) \<Longrightarrow>
    (\<And>j. j < 8 \<Longrightarrow> bit v (16 + j) = bit w (16 + j)) \<Longrightarrow>
    (\<And>j. j < 8 \<Longrightarrow> bit v (24 + j) = bit w (24 + j)) \<Longrightarrow> v = w"
proof (rule bit_word_eqI)
  fix n :: nat
  assume bytes: "\<And>j. j < 8 \<Longrightarrow> bit v j = bit w j"
    "\<And>j. j < 8 \<Longrightarrow> bit v (8 + j) = bit w (8 + j)"
    "\<And>j. j < 8 \<Longrightarrow> bit v (16 + j) = bit w (16 + j)"
    "\<And>j. j < 8 \<Longrightarrow> bit v (24 + j) = bit w (24 + j)"
  assume "n < LENGTH(32)"
  then have q: "n div 8 < 4" by simp
  have n: "n = 8 * (n div 8) + n mod 8" by simp
  from q have "n div 8 = 0 \<or> n div 8 = 1 \<or> n div 8 = 2 \<or> n div 8 = 3"
    by arith
  then show "bit v n = bit w n"
    using n bytes(1) [of "n mod 8"] bytes(2) [of "n mod 8"] bytes(3) [of "n mod 8"] bytes(4) [of "n mod 8"]
    by (elim disjE) simp_all
qed

lemma u64_eq_bytes:
  fixes v w :: u64
  shows "(\<And>j. j < 8 \<Longrightarrow> bit v j = bit w j) \<Longrightarrow>
    (\<And>j. j < 8 \<Longrightarrow> bit v (8 + j) = bit w (8 + j)) \<Longrightarrow>
    (\<And>j. j < 8 \<Longrightarrow> bit v (16 + j) = bit w (16 + j)) \<Longrightarrow>
    (\<And>j. j < 8 \<Longrightarrow> bit v (24 + j) = bit w (24 + j)) \<Longrightarrow>
    (\<And>j. j < 8 \<Longrightarrow> bit v (32 + j) = bit w (32 + j)) \<Longrightarrow>
    (\<And>j. j < 8 \<Longrightarrow> bit v (40 + j) = bit w (40 + j)) \<Longrightarrow>
    (\<And>j. j < 8 \<Longrightarrow> bit v (48 + j) = bit w (48 + j)) \<Longrightarrow>
    (\<And>j. j < 8 \<Longrightarrow> bit v (56 + j) = bit w (56 + j)) \<Longrightarrow> v = w"
proof (rule bit_word_eqI)
  fix n :: nat
  assume bytes: "\<And>j. j < 8 \<Longrightarrow> bit v j = bit w j"
    "\<And>j. j < 8 \<Longrightarrow> bit v (8 + j) = bit w (8 + j)"
    "\<And>j. j < 8 \<Longrightarrow> bit v (16 + j) = bit w (16 + j)"
    "\<And>j. j < 8 \<Longrightarrow> bit v (24 + j) = bit w (24 + j)"
    "\<And>j. j < 8 \<Longrightarrow> bit v (32 + j) = bit w (32 + j)"
    "\<And>j. j < 8 \<Longrightarrow> bit v (40 + j) = bit w (40 + j)"
    "\<And>j. j < 8 \<Longrightarrow> bit v (48 + j) = bit w (48 + j)"
    "\<And>j. j < 8 \<Longrightarrow> bit v (56 + j) = bit w (56 + j)"
  assume "n < LENGTH(64)"
  then have q: "n div 8 < 8" by simp
  have n: "n = 8 * (n div 8) + n mod 8" by simp
  from q have "n div 8 = 0 \<or> n div 8 = 1 \<or> n div 8 = 2 \<or> n div 8 = 3 \<or> n div 8 = 4 \<or> n div 8 = 5 \<or> n div 8 = 6 \<or> n div 8 = 7"
    by arith
  then show "bit v n = bit w n"
    using n bytes(1) [of "n mod 8"] bytes(2) [of "n mod 8"] bytes(3) [of "n mod 8"] bytes(4) [of "n mod 8"] bytes(5) [of "n mod 8"] bytes(6) [of "n mod 8"] bytes(7) [of "n mod 8"] bytes(8) [of "n mod 8"]
    by (elim disjE) simp_all
qed

interpretation be16: byte_codec encode_16_bits_big_endian decode_16_bits_big_endian 2
proof
  fix v :: u16
  show "decode_16_bits_big_endian (encode_16_bits_big_endian v) = v"
    unfolding encode_16_bits_big_endian_def decode_16_bits_big_endian_def byte_codec_simps
    by (rule u16_eq_bytes) (simp_all add: byte_bits)
next
  fix bs :: "u8 list" assume "length bs = 2"
  then obtain a b where bs: "bs = [a, b]" using length_2 by blast
  show "encode_16_bits_big_endian (decode_16_bits_big_endian bs) = bs"
    unfolding encode_16_bits_big_endian_def decode_16_bits_big_endian_def byte_codec_simps bs
    by (auto intro!: bit_word_eqI simp: byte_bits)
qed (simp_all add: encode_16_bits_big_endian_def decode_16_bits_big_endian_def)

interpretation le16: byte_codec encode_16_bits_little_endian decode_16_bits_little_endian 2
proof
  fix v :: u16
  show "decode_16_bits_little_endian (encode_16_bits_little_endian v) = v"
    unfolding encode_16_bits_little_endian_def decode_16_bits_little_endian_def byte_codec_simps
    by (rule u16_eq_bytes) (simp_all add: byte_bits)
next
  fix bs :: "u8 list" assume "length bs = 2"
  then obtain a b where bs: "bs = [a, b]" using length_2 by blast
  show "encode_16_bits_little_endian (decode_16_bits_little_endian bs) = bs"
    unfolding encode_16_bits_little_endian_def decode_16_bits_little_endian_def byte_codec_simps bs
    by (auto intro!: bit_word_eqI simp: byte_bits)
qed (simp_all add: encode_16_bits_little_endian_def decode_16_bits_little_endian_def)

interpretation be32: byte_codec encode_32_bits_big_endian decode_32_bits_big_endian 4
proof
  fix v :: u32
  show "decode_32_bits_big_endian (encode_32_bits_big_endian v) = v"
    unfolding encode_32_bits_big_endian_def decode_32_bits_big_endian_def byte_codec_simps
    by (rule u32_eq_bytes) (simp_all add: byte_bits)
next
  fix bs :: "u8 list" assume "length bs = 4"
  then obtain a b c d where bs: "bs = [a, b, c, d]" using length_4 by blast
  show "encode_32_bits_big_endian (decode_32_bits_big_endian bs) = bs"
    unfolding encode_32_bits_big_endian_def decode_32_bits_big_endian_def byte_codec_simps bs
    by (auto intro!: bit_word_eqI simp: byte_bits)
qed (simp_all add: encode_32_bits_big_endian_def decode_32_bits_big_endian_def)

interpretation le32: byte_codec encode_32_bits_little_endian decode_32_bits_little_endian 4
proof
  fix v :: u32
  show "decode_32_bits_little_endian (encode_32_bits_little_endian v) = v"
    unfolding encode_32_bits_little_endian_def decode_32_bits_little_endian_def byte_codec_simps
    by (rule u32_eq_bytes) (simp_all add: byte_bits)
next
  fix bs :: "u8 list" assume "length bs = 4"
  then obtain a b c d where bs: "bs = [a, b, c, d]" using length_4 by blast
  show "encode_32_bits_little_endian (decode_32_bits_little_endian bs) = bs"
    unfolding encode_32_bits_little_endian_def decode_32_bits_little_endian_def byte_codec_simps bs
    by (auto intro!: bit_word_eqI simp: byte_bits)
qed (simp_all add: encode_32_bits_little_endian_def decode_32_bits_little_endian_def)

interpretation be64: byte_codec encode_64_bits_big_endian decode_64_bits_big_endian 8
proof
  fix v :: u64
  show "decode_64_bits_big_endian (encode_64_bits_big_endian v) = v"
    unfolding encode_64_bits_big_endian_def decode_64_bits_big_endian_def byte_codec_simps
    by (rule u64_eq_bytes) (simp_all add: byte_bits)
next
  fix bs :: "u8 list" assume "length bs = 8"
  then obtain a b c d e f g h where bs: "bs = [a, b, c, d, e, f, g, h]" using length_8 by blast
  show "encode_64_bits_big_endian (decode_64_bits_big_endian bs) = bs"
    unfolding encode_64_bits_big_endian_def decode_64_bits_big_endian_def byte_codec_simps bs
    by (auto intro!: bit_word_eqI simp: byte_bits)
qed (simp_all add: encode_64_bits_big_endian_def decode_64_bits_big_endian_def)

interpretation le64: byte_codec encode_64_bits_little_endian decode_64_bits_little_endian 8
proof
  fix v :: u64
  show "decode_64_bits_little_endian (encode_64_bits_little_endian v) = v"
    unfolding encode_64_bits_little_endian_def decode_64_bits_little_endian_def byte_codec_simps
    by (rule u64_eq_bytes) (simp_all add: byte_bits)
next
  fix bs :: "u8 list" assume "length bs = 8"
  then obtain a b c d e f g h where bs: "bs = [a, b, c, d, e, f, g, h]" using length_8 by blast
  show "encode_64_bits_little_endian (decode_64_bits_little_endian bs) = bs"
    unfolding encode_64_bits_little_endian_def decode_64_bits_little_endian_def byte_codec_simps bs
    by (auto intro!: bit_word_eqI simp: byte_bits)
qed (simp_all add: encode_64_bits_little_endian_def decode_64_bits_little_endian_def)


interpretation be_float: byte_codec encode_float_big_endian decode_float_big_endian 4
  unfolding encode_float_big_endian_def [abs_def] decode_float_big_endian_def [abs_def] Let_def
  by (rule be32.byte_codec_axioms)

interpretation le_float: byte_codec encode_float_little_endian decode_float_little_endian 4
  unfolding encode_float_little_endian_def [abs_def] decode_float_little_endian_def [abs_def] Let_def
  by (rule le32.byte_codec_axioms)

lemma encode_address_is_64: "encode_address_big_endian = encode_64_bits_big_endian"
  by (simp add: fun_eq_iff encode_address_big_endian_def encode_64_bits_big_endian_def)

lemma decode_address_is_64: "decode_address_big_endian = decode_64_bits_big_endian"
  unfolding decode_address_big_endian_def [abs_def] decode_64_bits_big_endian_def [abs_def]
    byte_codec_simps by simp

interpretation be_addr: byte_codec encode_address_big_endian decode_address_big_endian 8
  unfolding encode_address_is_64 decode_address_is_64 by (rule be64.byte_codec_axioms)

lemma and_u8_mask [simp]: "(b :: u8) AND 0xFF = b"
  by (simp add: codec_simps) (auto intro!: bit_word_eqI simp: byte_bits)

section \<open>Tagged values\<close>

lemma length_encode_anytype:
  "length (encode_anytype_big_endian_sz val ts) = (if ts \<in> {1, 2, 4, 8} then unat ts else 0)"
  by (simp add: encode_anytype_big_endian_sz_def be16.length_enc be32.length_enc be64.length_enc)

lemma length_encode_anytype_supported:
  "is_supported_type vt \<Longrightarrow>
    length (encode_anytype_big_endian val vt) = unat (get_type_size_8bits vt)"
  using supported_type_size [of vt] length_encode_anytype [of val "get_type_size_8bits vt"]
  by (simp add: encode_anytype_big_endian_def)

end
