(* ===== verification/CharCodecs.thy ===== *)
theory CharCodecs
  imports CharTools Codecs
begin

text \<open>
  The codecs of \<open>lib/inc/scrutiny_common_codecs.hpp\<close> that count in chars of the target, for a target
  with 8-bit chars (\<open>wide\<close> is false), where they are the byte codecs, and for one with 16-bit
  chars, where a char holds two bytes. The interface \<open>char_codec\<close> is what a client of such a pair
  relies on, whatever the width. The link and the memory of a wide target agree: the chars that an
  encoder writes, dilated into bytes, are the bytes that the byte encoder writes.
\<close>

section \<open>Encoders\<close>

definition encode_16_bits_big_endian_char :: "bool \<Rightarrow> u16 \<Rightarrow> wchar list" where
  "encode_16_bits_big_endian_char wide value' =
    (if wide then [value'] else map ucast (encode_16_bits_big_endian value'))"

definition encode_16_bits_little_endian_char :: "bool \<Rightarrow> u16 \<Rightarrow> wchar list" where
  "encode_16_bits_little_endian_char wide value' =
    (if wide then [value'] else map ucast (encode_16_bits_little_endian value'))"

definition encode_32_bits_big_endian_char :: "bool \<Rightarrow> u32 \<Rightarrow> wchar list" where
  "encode_32_bits_big_endian_char wide value' =
    (if wide then [ucast (drop_bit 16 value' AND 0xFFFF), ucast (value' AND 0xFFFF)]
     else map ucast (encode_32_bits_big_endian value'))"

definition encode_32_bits_little_endian_char :: "bool \<Rightarrow> u32 \<Rightarrow> wchar list" where
  "encode_32_bits_little_endian_char wide value' =
    (if wide then [ucast (value' AND 0xFFFF), ucast (drop_bit 16 value' AND 0xFFFF)]
     else map ucast (encode_32_bits_little_endian value'))"

definition encode_float_big_endian_char :: "bool \<Rightarrow> u32 \<Rightarrow> wchar list" where
  "encode_float_big_endian_char wide value' =
    (if wide then let uv = value' in encode_32_bits_big_endian_char wide uv
     else map ucast (encode_float_big_endian value'))"

definition encode_float_little_endian_char :: "bool \<Rightarrow> u32 \<Rightarrow> wchar list" where
  "encode_float_little_endian_char wide value' =
    (if wide then let uv = value' in encode_32_bits_little_endian_char wide uv
     else map ucast (encode_float_little_endian value'))"

definition encode_64_bits_big_endian_char :: "bool \<Rightarrow> u64 \<Rightarrow> wchar list" where
  "encode_64_bits_big_endian_char wide value' =
    (if wide then [ucast (drop_bit 48 value' AND 0xFFFF), ucast (drop_bit 32 value' AND 0xFFFF),
       ucast (drop_bit 16 value' AND 0xFFFF), ucast (value' AND 0xFFFF)]
     else map ucast (encode_64_bits_big_endian value'))"

definition encode_64_bits_little_endian_char :: "bool \<Rightarrow> u64 \<Rightarrow> wchar list" where
  "encode_64_bits_little_endian_char wide value' =
    (if wide then [ucast (value' AND 0xFFFF), ucast (drop_bit 16 value' AND 0xFFFF),
       ucast (drop_bit 32 value' AND 0xFFFF), ucast (drop_bit 48 value' AND 0xFFFF)]
     else map ucast (encode_64_bits_little_endian value'))"

section \<open>Decoders\<close>

definition decode_16_bits_big_endian_char :: "bool \<Rightarrow> wchar list \<Rightarrow> u16" where
  "decode_16_bits_big_endian_char wide buff =
    (if wide then buff ! 0 else decode_16_bits_big_endian (map ucast buff))"

definition decode_16_bits_little_endian_char :: "bool \<Rightarrow> wchar list \<Rightarrow> u16" where
  "decode_16_bits_little_endian_char wide buff =
    (if wide then buff ! 0 else decode_16_bits_little_endian (map ucast buff))"

definition decode_32_bits_big_endian_char :: "bool \<Rightarrow> wchar list \<Rightarrow> u32" where
  "decode_32_bits_big_endian_char wide buff =
    (if wide then (push_bit 16 (ucast (buff ! 0)) AND 0xFFFF0000) OR (push_bit 0 (ucast (buff ! 1)) AND 0x0000FFFF)
     else decode_32_bits_big_endian (map ucast buff))"

definition decode_32_bits_little_endian_char :: "bool \<Rightarrow> wchar list \<Rightarrow> u32" where
  "decode_32_bits_little_endian_char wide buff =
    (if wide then (push_bit 0 (ucast (buff ! 0)) AND 0x0000FFFF) OR (push_bit 16 (ucast (buff ! 1)) AND 0xFFFF0000)
     else decode_32_bits_little_endian (map ucast buff))"

definition decode_float_big_endian_char :: "bool \<Rightarrow> wchar list \<Rightarrow> u32" where
  "decode_float_big_endian_char wide buff =
    (if wide then let temp = decode_32_bits_big_endian_char wide buff in temp
     else decode_float_big_endian (map ucast buff))"

definition decode_float_little_endian_char :: "bool \<Rightarrow> wchar list \<Rightarrow> u32" where
  "decode_float_little_endian_char wide buff =
    (if wide then let temp = decode_32_bits_little_endian_char wide buff in temp
     else decode_float_little_endian (map ucast buff))"

definition decode_64_bits_big_endian_char :: "bool \<Rightarrow> wchar list \<Rightarrow> u64" where
  "decode_64_bits_big_endian_char wide buff =
    (if wide then
       (push_bit 48 (ucast (buff ! 0)) AND 0xFFFF000000000000) OR (push_bit 32 (ucast (buff ! 1)) AND 0x0000FFFF00000000)
       OR (push_bit 16 (ucast (buff ! 2)) AND 0x00000000FFFF0000) OR (push_bit 0 (ucast (buff ! 3)) AND 0x000000000000FFFF)
     else decode_64_bits_big_endian (map ucast buff))"

definition decode_64_bits_little_endian_char :: "bool \<Rightarrow> wchar list \<Rightarrow> u64" where
  "decode_64_bits_little_endian_char wide buff =
    (if wide then
       (push_bit 0 (ucast (buff ! 0)) AND 0x000000000000FFFF) OR (push_bit 16 (ucast (buff ! 1)) AND 0x00000000FFFF0000)
       OR (push_bit 32 (ucast (buff ! 2)) AND 0x0000FFFF00000000) OR (push_bit 48 (ucast (buff ! 3)) AND 0xFFFF000000000000)
     else decode_64_bits_little_endian (map ucast buff))"

section \<open>Interface: a codec in chars\<close>

text \<open>A char of a narrow target holds a byte.\<close>

definition chars_ok :: "bool \<Rightarrow> wchar list \<Rightarrow> bool" where
  "chars_ok wide cs = (wide \<or> list_all (\<lambda>c. c < 256) cs)"

locale char_codec =
  fixes wide :: bool and enc :: "'a \<Rightarrow> wchar list" and dec :: "wchar list \<Rightarrow> 'a" and len :: nat
  assumes length_enc: "length (enc v) = len" and enc_ok: "chars_ok wide (enc v)"
    and dec_enc: "dec (enc v @ cs) = v"
    and enc_dec: "length cs = len \<Longrightarrow> chars_ok wide cs \<Longrightarrow> enc (dec cs) = cs"
begin

lemma enc_inj: "enc v = enc w \<longleftrightarrow> v = w"
  using dec_enc by metis

lemma dec_inj: "length bs = len \<Longrightarrow> length cs = len \<Longrightarrow> chars_ok wide bs \<Longrightarrow> chars_ok wide cs \<Longrightarrow> dec bs = dec cs \<longleftrightarrow> bs = cs"
  using enc_dec by metis

lemma dec_blit:
  assumes "i + len \<le> length buf"
  shows "dec (drop i (blit buf i (enc v))) = v"
proof -
  have "drop i (blit buf i (enc v)) = enc v @ drop (i + len) buf"
    using assms by (simp add: blit_def length_enc)
  then show ?thesis by (simp add: dec_enc)
qed

text \<open>Values written one after the other.\<close>

lemma dec_array: "k < length vs \<Longrightarrow> dec (drop (k * len) (concat (map enc vs) @ cs)) = vs ! k"
proof (induction vs arbitrary: k)
  case (Cons v vs)
  show ?case
  proof (cases k)
    case 0
    then show ?thesis by (simp add: dec_enc)
  next
    case (Suc j)
    have "drop (len + j * len) (enc v @ rest) = drop (j * len) rest" for rest
      by (simp add: length_enc)
    then show ?thesis using Cons.IH [of j] Cons.prems by (simp add: Suc del: drop_append)
  qed
qed simp

end

section \<open>The codecs of the code\<close>

lemma chars_ok_bytes: "chars_ok False (map ucast (bs :: u8 list))"
proof -
  have "(ucast b :: wchar) < 256" for b :: u8
    using le_less_trans [OF take_bit_nat_less_eq_self unat_u8_lt] by (simp add: word_less_nat_alt unsigned_ucast_eq)
  then show ?thesis by (simp add: chars_ok_def list_all_iff)
qed

lemma bytes_of_chars:
  assumes "chars_ok False cs"
  shows "map (\<lambda>c. ucast (ucast c :: u8)) cs = cs"
proof -
  have "ucast (ucast c :: u8) = take_bit 8 c" for c :: wchar
    by (rule bit_word_eqI) (auto simp: bit_simps)
  then have "ucast (ucast c :: u8) = c" if "c < 256" for c :: wchar
    using that by (simp add: word_unat_eq_iff word_less_nat_alt unsigned_take_bit_eq take_bit_nat_eq_self)
  with assms show ?thesis by (induction cs) (simp_all add: chars_ok_def)
qed

lemma chars_of_bytes: "map (\<lambda>b. ucast (ucast b :: wchar)) bs = (bs :: u8 list)"
proof -
  have "(ucast (ucast b :: wchar) :: u8) = b" for b
    by (rule bit_word_eqI) (auto simp: bit_simps)
  then show ?thesis by (simp add: map_idI)
qed

text \<open>A byte codec, with a byte per char.\<close>

context byte_codec begin

lemma narrow: "char_codec False (\<lambda>v. map ucast (enc v)) (\<lambda>cs. dec (map ucast cs)) len"
proof
  show "dec (map ucast (map ucast (enc v) @ (cs :: wchar list))) = v" for v cs
    using dec_enc_append by (simp add: comp_def chars_of_bytes)
  show "map ucast (enc (dec (map ucast cs))) = cs" if "length cs = len" "chars_ok False cs" for cs
    using that by (simp add: enc_dec comp_def bytes_of_chars)
qed (simp_all add: length_enc chars_ok_bytes)

end

text \<open>A 16-bit unit that was just shifted in place.\<close>

lemma unit_masks:
  "(0xFFFF :: 'a::len word) = mask 16"
  "(0xFFFF0000 :: u32) = push_bit 16 (mask 16)" "(0xFFFF0000 :: u64) = push_bit 16 (mask 16)"
  "(0xFFFF00000000 :: u64) = push_bit 32 (mask 16)" "(0xFFFF000000000000 :: u64) = push_bit 48 (mask 16)"
  by (simp_all add: mask_eq_exp_minus_1)

lemma wchar_bit_oob: "16 \<le> n \<Longrightarrow> \<not> bit (c :: wchar) n"
  by (auto dest: bit_imp_le_length)

lemma unit_cases: "n < LENGTH(64) \<Longrightarrow> n < 16 \<or> 16 \<le> n \<and> n < 32 \<or> 32 \<le> n \<and> n < 48 \<or> 48 \<le> n \<and> n < 64"
  by auto

lemmas unit_bits = unit_masks bit_simps wchar_bit_oob

lemma wide_16: "char_codec True (encode_16_bits_big_endian_char True) (decode_16_bits_big_endian_char True) 1"
  "char_codec True (encode_16_bits_little_endian_char True) (decode_16_bits_little_endian_char True) 1"
  by (unfold_locales; auto simp: encode_16_bits_big_endian_char_def decode_16_bits_big_endian_char_def
      encode_16_bits_little_endian_char_def decode_16_bits_little_endian_char_def chars_ok_def length_Suc_conv)+

lemma wide_32_big: "char_codec True (encode_32_bits_big_endian_char True) (decode_32_bits_big_endian_char True) 2"
proof
  fix v :: u32 and cs :: "wchar list"
  show "decode_32_bits_big_endian_char True (encode_32_bits_big_endian_char True v @ cs) = v"
    by (rule bit_word_eqI) (auto simp: encode_32_bits_big_endian_char_def decode_32_bits_big_endian_char_def unit_bits)
next
  fix cs :: "wchar list" assume "length cs = 2"
  then obtain a b where "cs = [a, b]" using length_2 by blast
  then show "encode_32_bits_big_endian_char True (decode_32_bits_big_endian_char True cs) = cs"
    by (auto simp: encode_32_bits_big_endian_char_def decode_32_bits_big_endian_char_def unit_bits intro!: bit_word_eqI)
qed (simp_all add: encode_32_bits_big_endian_char_def chars_ok_def)

lemma wide_32_little: "char_codec True (encode_32_bits_little_endian_char True) (decode_32_bits_little_endian_char True) 2"
proof
  fix v :: u32 and cs :: "wchar list"
  show "decode_32_bits_little_endian_char True (encode_32_bits_little_endian_char True v @ cs) = v"
    by (rule bit_word_eqI) (auto simp: encode_32_bits_little_endian_char_def decode_32_bits_little_endian_char_def unit_bits)
next
  fix cs :: "wchar list" assume "length cs = 2"
  then obtain a b where "cs = [a, b]" using length_2 by blast
  then show "encode_32_bits_little_endian_char True (decode_32_bits_little_endian_char True cs) = cs"
    by (auto simp: encode_32_bits_little_endian_char_def decode_32_bits_little_endian_char_def unit_bits intro!: bit_word_eqI)
qed (simp_all add: encode_32_bits_little_endian_char_def chars_ok_def)

lemma wide_64_big: "char_codec True (encode_64_bits_big_endian_char True) (decode_64_bits_big_endian_char True) 4"
proof
  fix v :: u64 and cs :: "wchar list"
  show "decode_64_bits_big_endian_char True (encode_64_bits_big_endian_char True v @ cs) = v"
    by (rule bit_word_eqI, frule unit_cases) (elim disjE conjE; simp add: less_diff_conv2 encode_64_bits_big_endian_char_def decode_64_bits_big_endian_char_def unit_bits)
next
  fix cs :: "wchar list" assume "length cs = 4"
  then obtain a b c d where "cs = [a, b, c, d]" using length_4 by blast
  then show "encode_64_bits_big_endian_char True (decode_64_bits_big_endian_char True cs) = cs"
    by (auto simp: encode_64_bits_big_endian_char_def decode_64_bits_big_endian_char_def unit_bits intro!: bit_word_eqI)
qed (simp_all add: encode_64_bits_big_endian_char_def chars_ok_def)

lemma wide_64_little: "char_codec True (encode_64_bits_little_endian_char True) (decode_64_bits_little_endian_char True) 4"
proof
  fix v :: u64 and cs :: "wchar list"
  show "decode_64_bits_little_endian_char True (encode_64_bits_little_endian_char True v @ cs) = v"
    by (rule bit_word_eqI, frule unit_cases) (elim disjE conjE; simp add: less_diff_conv2 encode_64_bits_little_endian_char_def decode_64_bits_little_endian_char_def unit_bits)
next
  fix cs :: "wchar list" assume "length cs = 4"
  then obtain a b c d where "cs = [a, b, c, d]" using length_4 by blast
  then show "encode_64_bits_little_endian_char True (decode_64_bits_little_endian_char True cs) = cs"
    by (auto simp: encode_64_bits_little_endian_char_def decode_64_bits_little_endian_char_def unit_bits intro!: bit_word_eqI)
qed (simp_all add: encode_64_bits_little_endian_char_def chars_ok_def)

text \<open>Both widths at once; \<open>n\<close> bytes are \<open>n div 2\<close> chars of a wide target.\<close>

definition chars_of :: "bool \<Rightarrow> nat \<Rightarrow> nat" where
  "chars_of wide n = (if wide then n div 2 else n)"

lemma either_width:
  assumes "byte_codec enc8 dec8 n" "char_codec True (enc True) (dec True) m" "m = n div 2"
    and "enc False = (\<lambda>v. map ucast (enc8 v))" "dec False = (\<lambda>cs. dec8 (map ucast cs))"
  shows "char_codec wide (enc wide) (dec wide) (chars_of wide n)"
  using assms(2) byte_codec.narrow [OF assms(1)] by (cases wide) (simp_all add: chars_of_def assms(3-5))

interpretation be16c: char_codec wide "encode_16_bits_big_endian_char wide" "decode_16_bits_big_endian_char wide" "chars_of wide 2"
  for wide
  by (rule either_width [where enc = encode_16_bits_big_endian_char and dec = decode_16_bits_big_endian_char,
      OF be16.byte_codec_axioms wide_16(1)])
    (simp_all add: fun_eq_iff encode_16_bits_big_endian_char_def decode_16_bits_big_endian_char_def)

interpretation le16c: char_codec wide "encode_16_bits_little_endian_char wide" "decode_16_bits_little_endian_char wide" "chars_of wide 2"
  for wide
  by (rule either_width [where enc = encode_16_bits_little_endian_char and dec = decode_16_bits_little_endian_char,
      OF le16.byte_codec_axioms wide_16(2)])
    (simp_all add: fun_eq_iff encode_16_bits_little_endian_char_def decode_16_bits_little_endian_char_def)

interpretation be32c: char_codec wide "encode_32_bits_big_endian_char wide" "decode_32_bits_big_endian_char wide" "chars_of wide 4"
  for wide
  by (rule either_width [where enc = encode_32_bits_big_endian_char and dec = decode_32_bits_big_endian_char,
      OF be32.byte_codec_axioms wide_32_big])
    (simp_all add: fun_eq_iff encode_32_bits_big_endian_char_def decode_32_bits_big_endian_char_def)

interpretation le32c: char_codec wide "encode_32_bits_little_endian_char wide" "decode_32_bits_little_endian_char wide" "chars_of wide 4"
  for wide
  by (rule either_width [where enc = encode_32_bits_little_endian_char and dec = decode_32_bits_little_endian_char,
      OF le32.byte_codec_axioms wide_32_little])
    (simp_all add: fun_eq_iff encode_32_bits_little_endian_char_def decode_32_bits_little_endian_char_def)

interpretation be64c: char_codec wide "encode_64_bits_big_endian_char wide" "decode_64_bits_big_endian_char wide" "chars_of wide 8"
  for wide
  by (rule either_width [where enc = encode_64_bits_big_endian_char and dec = decode_64_bits_big_endian_char,
      OF be64.byte_codec_axioms wide_64_big])
    (simp_all add: fun_eq_iff encode_64_bits_big_endian_char_def decode_64_bits_big_endian_char_def)

interpretation le64c: char_codec wide "encode_64_bits_little_endian_char wide" "decode_64_bits_little_endian_char wide" "chars_of wide 8"
  for wide
  by (rule either_width [where enc = encode_64_bits_little_endian_char and dec = decode_64_bits_little_endian_char,
      OF le64.byte_codec_axioms wide_64_little])
    (simp_all add: fun_eq_iff encode_64_bits_little_endian_char_def decode_64_bits_little_endian_char_def)

lemma float_chars:
  "encode_float_big_endian_char = encode_32_bits_big_endian_char" "decode_float_big_endian_char = decode_32_bits_big_endian_char"
  "encode_float_little_endian_char = encode_32_bits_little_endian_char" "decode_float_little_endian_char = decode_32_bits_little_endian_char"
  by (auto simp: fun_eq_iff encode_float_big_endian_char_def decode_float_big_endian_char_def
      encode_float_little_endian_char_def decode_float_little_endian_char_def encode_float_big_endian_def
      decode_float_big_endian_def encode_float_little_endian_def decode_float_little_endian_def
      encode_32_bits_big_endian_char_def decode_32_bits_big_endian_char_def
      encode_32_bits_little_endian_char_def decode_32_bits_little_endian_char_def)

interpretation be_floatc: char_codec wide "encode_float_big_endian_char wide" "decode_float_big_endian_char wide" "chars_of wide 4"
  for wide
  unfolding float_chars by (rule be32c.char_codec_axioms)

interpretation le_floatc: char_codec wide "encode_float_little_endian_char wide" "decode_float_little_endian_char wide" "chars_of wide 4"
  for wide
  unfolding float_chars by (rule le32c.char_codec_axioms)

section \<open>Memory and link agree\<close>

text \<open>
  The chars that a wide target writes in memory, dilated into bytes in the same order, are the
  bytes of the byte codec.
\<close>

lemma units_of_unit:
  "hi_unit (ucast (drop_bit n w AND 0xFFFF)) = ucast (ucast (drop_bit (n + 8) w AND 0xFF) :: u8)"
  "lo_unit (ucast (drop_bit n w AND 0xFFFF)) = ucast (ucast (drop_bit n w AND 0xFF) :: u8)"
  "hi_unit (ucast (w AND 0xFFFF)) = ucast (ucast (drop_bit 8 w AND 0xFF) :: u8)"
  "lo_unit (ucast (w AND 0xFFFF)) = ucast (ucast (w AND 0xFF) :: u8)"
  by (auto intro!: bit_word_eqI simp: hi_unit_def lo_unit_def byte_mask unit_masks(1) bit_simps ac_simps) (drule bit_imp_le_length, simp)+

lemma units_wide_16:
  "units_big (encode_16_bits_big_endian_char True v) = map ucast (encode_16_bits_big_endian v)"
  "units_little (encode_16_bits_little_endian_char True v) = map ucast (encode_16_bits_little_endian v)"
  by (auto intro!: bit_word_eqI simp: units_big_def units_little_def hi_unit_def lo_unit_def encode_16_bits_big_endian_char_def
      encode_16_bits_little_endian_char_def encode_16_bits_big_endian_def encode_16_bits_little_endian_def byte_mask bit_simps)

lemma units_wide_32:
  "units_big (encode_32_bits_big_endian_char True w) = map ucast (encode_32_bits_big_endian w)"
  "units_little (encode_32_bits_little_endian_char True w) = map ucast (encode_32_bits_little_endian w)"
  by (simp_all add: units_big_def units_little_def units_of_unit encode_32_bits_big_endian_char_def
      encode_32_bits_little_endian_char_def encode_32_bits_big_endian_def encode_32_bits_little_endian_def)

lemma units_wide_64:
  "units_big (encode_64_bits_big_endian_char True x) = map ucast (encode_64_bits_big_endian x)"
  "units_little (encode_64_bits_little_endian_char True x) = map ucast (encode_64_bits_little_endian x)"
  by (simp_all add: units_big_def units_little_def units_of_unit encode_64_bits_big_endian_char_def
      encode_64_bits_little_endian_char_def encode_64_bits_big_endian_def encode_64_bits_little_endian_def)

text \<open>
  A published value in the log of a wide target. \<open>get_type_size_char\<close> halves the size; a type of one
  byte, which such a target does not support, writes nothing.
\<close>

definition encode_anytype_wide :: "anytype \<Rightarrow> variable_type \<Rightarrow> wchar list" where
  "encode_anytype_wide val vartype =
    (let typesize = get_type_size_8bits vartype div 2
     in if typesize = 1 then encode_16_bits_big_endian_char True (ucast val)
        else if typesize = 2 then encode_32_bits_big_endian_char True (ucast val)
        else if typesize = 4 then encode_64_bits_big_endian_char True (ucast val)
        else [])"

lemma anytype_wide_dilated:
  assumes "get_type_size_8bits vartype \<in> {2, 4, 8}"
  shows "units_big (encode_anytype_wide val vartype) = map ucast (encode_anytype_big_endian val vartype)"
  using assms by (auto simp: encode_anytype_wide_def encode_anytype_big_endian_def encode_anytype_big_endian_sz_def
      units_wide_16 units_wide_32 units_wide_64)

text \<open>A table of values, written in memory and read back value by value, on a target of either width.\<close>

lemma table_read_back:
  "k < length vs \<Longrightarrow> decode_32_bits_big_endian_char wide
     (drop (k * chars_of wide 4) (concat (map (encode_32_bits_big_endian_char wide) vs) @ cs)) = vs ! k"
  by (rule be32c.dec_array)

end
