(* ===== verification/Ipc.thy ===== *)
theory Ipc
  imports Prelude
begin

text \<open>
  The mailbox that the main handler and a loop handler, which may run in two tasks, exchange messages
  through: \<open>lib/inc/ipc/scrutiny_ipc_std_atomic.hpp\<close>. It holds at most one message; the flag
  \<open>m_written\<close> is atomic and tells whose turn it is. The interface \<open>mailbox\<close> is what its users rely
  on: seen as an optional message, it neither loses, duplicates nor reorders what a producer that
  looks before it sends hands to a consumer.
\<close>

section \<open>Accesses to memory\<close>

text \<open>
  A method that another task may interrupt is the list of its accesses to the mailbox, in the order
  of its statements. A plain store is not indivisible: until it is done the other task may find any
  value. An instruction, an operation of an atomic variable or a call of the compiler's intrinsics is
  one access. Beside the mailbox, an access uses the local variables of the method: the message sent or
  taken, the flag that was read, the interrupt state that was saved.
\<close>

record 'm regs =
  rg_message :: "'m option"
  rg_look :: bool
  rg_saved :: u16

definition regs_for :: "'m option \<Rightarrow> 'm regs" where
  "regs_for m = \<lparr>rg_message = m, rg_look = False, rg_saved = 0\<rparr>"

lemma regs_for_simps [simp]: "rg_message (regs_for m) = m"
  by (simp add: regs_for_def)

datatype ('m, 'b) access =
    Data_Write "'m \<Rightarrow> 'b \<Rightarrow> 'b"
  | Data_Read "'b \<Rightarrow> 'm"
  | Flag_Write "bool \<Rightarrow> 'b \<Rightarrow> 'b" bool
  | Instr "'m regs \<Rightarrow> 'b \<Rightarrow> 'm regs \<times> 'b"

fun exec_access :: "('m, 'b) access \<Rightarrow> 'm regs \<Rightarrow> 'b \<Rightarrow> 'm regs \<times> 'b" where
  "exec_access (Data_Write put) r b = (r, put (the (rg_message r)) b)"
| "exec_access (Data_Read get) r b = (r\<lparr>rg_message := Some (get b)\<rparr>, b)"
| "exec_access (Flag_Write put v) r b = (r, put v b)"
| "exec_access (Instr f) r b = f r b"

text \<open>What the memory may hold while an access is under way.\<close>

fun partial_access :: "('m, 'b) access \<Rightarrow> 'b \<Rightarrow> 'b \<Rightarrow> bool" where
  "partial_access (Data_Write put) b b' = (\<exists>m. b' = put m b)"
| "partial_access (Flag_Write put v) b b' = (\<exists>v'. b' = put v' b)"
| "partial_access (Data_Read get) b b' = False"
| "partial_access (Instr f) b b' = False"

definition on_box :: "('b \<Rightarrow> 'b) \<Rightarrow> ('m, 'b) access" where
  "on_box f = Instr (\<lambda>r b. (r, f b))"

definition look_at :: "('b \<Rightarrow> bool) \<Rightarrow> ('m, 'b) access" where
  "look_at f = Instr (\<lambda>r b. (r\<lparr>rg_look := f b\<rparr>, b))"

lemma exec_instr [simp]:
  "exec_access (on_box f) r b = (r, f b)" "exec_access (look_at g) r b = (r\<lparr>rg_look := g b\<rparr>, b)"
  "\<not> partial_access (on_box f) b b'" "\<not> partial_access (look_at g) b b'"
  by (simp_all add: on_box_def look_at_def)

text \<open>A method that is not interrupted.\<close>

fun execute :: "('m, 'b) access list \<Rightarrow> 'm regs \<Rightarrow> 'b \<Rightarrow> 'm regs \<times> 'b" where
  "execute [] r b = (r, b)"
| "execute (a # as) r b = (case exec_access a r b of (r, b) \<Rightarrow> execute as r b)"

text \<open>What another task sees of a mailbox: its methods, and whether the interrupts are disabled.\<close>

record ('m, 'b) mailbox_code =
  mx_look :: "('m, 'b) access list"
  mx_send :: "('m, 'b) access list"
  mx_pop :: "('m, 'b) access list"
  mx_masked :: "'b \<Rightarrow> bool"

definition code_look :: "('m, 'b) mailbox_code \<Rightarrow> 'b \<Rightarrow> bool" where
  "code_look mx b = rg_look (fst (execute (mx_look mx) (regs_for None) b))"

definition code_send :: "('m, 'b) mailbox_code \<Rightarrow> 'm \<Rightarrow> 'b \<Rightarrow> 'b" where
  "code_send mx m b = snd (execute (mx_send mx) (regs_for (Some m)) b)"

definition code_pop :: "('m, 'b) mailbox_code \<Rightarrow> 'b \<Rightarrow> 'm \<times> 'b" where
  "code_pop mx b = (case execute (mx_pop mx) (regs_for None) b of (r, b) \<Rightarrow> (the (rg_message r), b))"

section \<open>The mailbox of the code\<close>

record 'm ipc =
  ipc_data :: 'm
  ipc_written :: bool

definition ipc_has_content :: "'m ipc \<Rightarrow> bool" where
  "ipc_has_content b = ipc_written b"

definition ipc_commit :: "'m ipc \<Rightarrow> 'm ipc" where
  "ipc_commit b = b\<lparr>ipc_written := True\<rparr>"

definition ipc_clear :: "'m ipc \<Rightarrow> 'm ipc" where
  "ipc_clear b = b\<lparr>ipc_written := False\<rparr>"

text \<open>A new mailbox: its data is whatever the memory held.\<close>

definition ipc_new :: "'m \<Rightarrow> 'm ipc" where
  "ipc_new junk = ipc_clear \<lparr>ipc_data = junk, ipc_written = False\<rparr>"

text \<open>The flag is atomic: \<open>load\<close> and \<open>store\<close> are one access. The data is a plain member.\<close>

definition ipc_send_code :: "('m, 'm ipc) access list" where
  "ipc_send_code = [Data_Write (\<lambda>indata b. b\<lparr>ipc_data := indata\<rparr>), on_box ipc_commit]"

definition ipc_pop_code :: "('m, 'm ipc) access list" where
  "ipc_pop_code = [Data_Read ipc_data, on_box ipc_clear]"

definition ipc_code :: "('m, 'm ipc) mailbox_code" where
  "ipc_code = \<lparr>mx_look = [look_at ipc_has_content], mx_send = ipc_send_code, mx_pop = ipc_pop_code, mx_masked = (\<lambda>_. False)\<rparr>"

definition ipc_send :: "'m \<Rightarrow> 'm ipc \<Rightarrow> 'm ipc" where
  "ipc_send indata b = code_send ipc_code indata b"

definition ipc_pop :: "'m ipc \<Rightarrow> 'm \<times> 'm ipc" where
  "ipc_pop b = code_pop ipc_code b"

lemma ipc_send_eq: "ipc_send indata b = ipc_commit (b\<lparr>ipc_data := indata\<rparr>)"
  by (simp add: ipc_send_def code_send_def ipc_code_def ipc_send_code_def ipc_commit_def)

lemma ipc_pop_eq: "ipc_pop b = (ipc_data b, ipc_clear b)"
  by (simp add: ipc_pop_def code_pop_def ipc_code_def ipc_pop_code_def)

section \<open>Interface: a one-place mailbox\<close>

datatype 'm mailbox_op = Offer 'm | Poll

text \<open>
  An operation of the producer, which sends when there is room, or of the consumer, which takes
  what there is. The lists collect the messages that were accepted and those that were taken.
\<close>

fun mailbox_run ::
  "('b \<Rightarrow> bool) \<Rightarrow> ('m \<Rightarrow> 'b \<Rightarrow> 'b) \<Rightarrow> ('b \<Rightarrow> 'm \<times> 'b) \<Rightarrow> 'm mailbox_op list \<Rightarrow> 'b \<Rightarrow> 'm list \<times> 'm list \<times> 'b" where
  "mailbox_run full put take_out [] b = ([], [], b)"
| "mailbox_run full put take_out (Offer m # ops) b =
    (if full b then mailbox_run full put take_out ops b
     else case mailbox_run full put take_out ops (put m b) of (ins, outs, b) \<Rightarrow> (m # ins, outs, b))"
| "mailbox_run full put take_out (Poll # ops) b =
    (if full b then
       (case take_out b of (m, b) \<Rightarrow>
        case mailbox_run full put take_out ops b of (ins, outs, b) \<Rightarrow> (ins, m # outs, b))
     else mailbox_run full put take_out ops b)"

definition held :: "'m option \<Rightarrow> 'm list" where
  "held c = (case c of None \<Rightarrow> [] | Some m \<Rightarrow> [m])"

lemma held_simps [simp]: "held None = []" "held (Some m) = [m]"
  by (simp_all add: held_def)

locale mailbox =
  fixes ok :: "'b \<Rightarrow> bool" and content :: "'b \<Rightarrow> 'm option" and full :: "'b \<Rightarrow> bool" and put :: "'m \<Rightarrow> 'b \<Rightarrow> 'b"
    and take_out :: "'b \<Rightarrow> 'm \<times> 'b" and empty_out :: "'b \<Rightarrow> 'b"
  assumes full_content: "ok b \<Longrightarrow> full b \<longleftrightarrow> content b \<noteq> None"
    and content_put: "ok b \<Longrightarrow> content (put m b) = Some m"
    and take_out_content: "ok b \<Longrightarrow> content b = Some m \<Longrightarrow> fst (take_out b) = m"
    and content_take_out: "ok b \<Longrightarrow> content (snd (take_out b)) = None"
    and content_empty_out: "ok b \<Longrightarrow> content (empty_out b) = None"
    and ok_put: "ok b \<Longrightarrow> ok (put m b)"
    and ok_take_out: "ok b \<Longrightarrow> ok (snd (take_out b))"
    and ok_empty_out: "ok b \<Longrightarrow> ok (empty_out b)"
begin

lemma put_take_out: "ok b \<Longrightarrow> take_out (put m b) = (m, b') \<Longrightarrow> \<not> full b'"
  using content_take_out [of "put m b"] ok_take_out [of "put m b"] ok_put [of b m] by (simp add: full_content)

lemma run_fifo:
  "ok b \<Longrightarrow> mailbox_run full put take_out ops b = (ins, outs, b') \<Longrightarrow> held (content b) @ ins = outs @ held (content b') \<and> ok b'"
proof (induction ops arbitrary: b ins outs)
  case (Cons op' ops)
  show ?case
  proof (cases op')
    case (Offer m)
    show ?thesis
    proof (cases "full b")
      case True
      with Cons Offer show ?thesis by simp
    next
      case False
      obtain ins1 outs1 b1 where run: "mailbox_run full put take_out ops (put m b) = (ins1, outs1, b1)"
        by (metis prod_cases3)
      with Cons.prems False have eqs: "ins = m # ins1" "outs = outs1" "b' = b1" by (simp_all add: Offer)
      from Cons.IH [OF ok_put [OF Cons.prems(1)] run [folded eqs(3)]] False Cons.prems(1) show ?thesis
        by (simp add: eqs(1,2) content_put full_content)
    qed
  next
    case Poll
    show ?thesis
    proof (cases "full b")
      case True
      then obtain m where m: "content b = Some m" using Cons.prems(1) by (auto simp: full_content)
      obtain b1 where out: "take_out b = (m, b1)"
        using take_out_content [OF Cons.prems(1) m] by (cases "take_out b") auto
      have b1: "content b1 = None" "ok b1"
        using content_take_out [OF Cons.prems(1)] ok_take_out [OF Cons.prems(1)] by (simp_all add: out)
      obtain ins1 outs1 b2 where run: "mailbox_run full put take_out ops b1 = (ins1, outs1, b2)" by (metis prod_cases3)
      with Cons.prems True out have eqs: "ins = ins1" "outs = m # outs1" "b' = b2" by (simp_all add: Poll)
      from Cons.IH [OF b1(2) run [folded eqs(3)]] b1(1) show ?thesis by (simp add: eqs(1,2) m)
    next
      case False
      with Cons Poll show ?thesis by simp
    qed
  qed
qed simp

end

section \<open>Two tasks\<close>

text \<open>
  A producer and a consumer use a mailbox, each in its task. The producer looks and, when there is room,
  sends; the consumer looks and, when there is a message, pops it. The tasks interleave between any two
  accesses and in the middle of a plain store, except that while the interrupts are disabled the
  current task stays the current one. Nothing here says in which order a method accesses the data and the
  flag: that is the code's.
\<close>

datatype phase = Rest | Look | Act
datatype who = Producer | Consumer

record ('m, 'b) task =
  tk_phase :: phase
  tk_todo :: "('m, 'b) access list"
  tk_regs :: "'m regs"

text \<open>The messages whose sending began, and those that were taken.\<close>

record ('m, 'b) race =
  rc_box :: 'b
  rc_task :: "who \<Rightarrow> ('m, 'b) task"
  rc_current :: who
  rc_sent :: "'m list"
  rc_taken :: "'m list"

definition resting :: "('m, 'b) task" where
  "resting = \<lparr>tk_phase = Rest, tk_todo = [], tk_regs = regs_for None\<rparr>"

definition race_start :: "'b \<Rightarrow> ('m, 'b) race" where
  "race_start b = \<lparr>rc_box = b, rc_task = (\<lambda>_. resting), rc_current = Producer, rc_sent = [], rc_taken = []\<rparr>"

definition moves :: "('m, 'b) mailbox_code \<Rightarrow> ('m, 'b) race \<Rightarrow> who \<Rightarrow> bool" where
  "moves mx s t = (mx_masked mx (rc_box s) \<longrightarrow> rc_current s = t)"

definition set_task :: "who \<Rightarrow> ('m, 'b) task \<Rightarrow> ('m, 'b) race \<Rightarrow> ('m, 'b) race" where
  "set_task t k s = s\<lparr>rc_task := (rc_task s)(t := k), rc_current := t\<rparr>"

inductive race_step :: "('m, 'b) mailbox_code \<Rightarrow> ('m, 'b) race \<Rightarrow> ('m, 'b) race \<Rightarrow> bool" for mx where
  begin_look: "moves mx s t \<Longrightarrow> tk_phase (rc_task s t) = Rest \<Longrightarrow>
     race_step mx s (set_task t \<lparr>tk_phase = Look, tk_todo = mx_look mx, tk_regs = regs_for None\<rparr> s)"
| whole_access: "moves mx s t \<Longrightarrow> tk_todo (rc_task s t) = a # as \<Longrightarrow>
     exec_access a (tk_regs (rc_task s t)) (rc_box s) = (r, b) \<Longrightarrow>
     race_step mx s (set_task t ((rc_task s t)\<lparr>tk_todo := as, tk_regs := r\<rparr>) (s\<lparr>rc_box := b\<rparr>))"
| part_of_access: "moves mx s t \<Longrightarrow> tk_todo (rc_task s t) = a # as \<Longrightarrow> partial_access a (rc_box s) b \<Longrightarrow>
     race_step mx s (set_task t (rc_task s t) (s\<lparr>rc_box := b\<rparr>))"
| begin_send: "moves mx s Producer \<Longrightarrow> tk_phase (rc_task s Producer) = Look \<Longrightarrow> tk_todo (rc_task s Producer) = [] \<Longrightarrow>
     \<not> rg_look (tk_regs (rc_task s Producer)) \<Longrightarrow>
     race_step mx s (set_task Producer \<lparr>tk_phase = Act, tk_todo = mx_send mx, tk_regs = regs_for (Some m)\<rparr>
       (s\<lparr>rc_sent := rc_sent s @ [m]\<rparr>))"
| no_room: "moves mx s Producer \<Longrightarrow> tk_phase (rc_task s Producer) = Look \<Longrightarrow> tk_todo (rc_task s Producer) = [] \<Longrightarrow>
     rg_look (tk_regs (rc_task s Producer)) \<Longrightarrow> race_step mx s (set_task Producer resting s)"
| end_send: "moves mx s Producer \<Longrightarrow> tk_phase (rc_task s Producer) = Act \<Longrightarrow> tk_todo (rc_task s Producer) = [] \<Longrightarrow>
     race_step mx s (set_task Producer resting s)"
| begin_pop: "moves mx s Consumer \<Longrightarrow> tk_phase (rc_task s Consumer) = Look \<Longrightarrow> tk_todo (rc_task s Consumer) = [] \<Longrightarrow>
     rg_look (tk_regs (rc_task s Consumer)) \<Longrightarrow>
     race_step mx s (set_task Consumer \<lparr>tk_phase = Act, tk_todo = mx_pop mx, tk_regs = regs_for None\<rparr> s)"
| no_message: "moves mx s Consumer \<Longrightarrow> tk_phase (rc_task s Consumer) = Look \<Longrightarrow> tk_todo (rc_task s Consumer) = [] \<Longrightarrow>
     \<not> rg_look (tk_regs (rc_task s Consumer)) \<Longrightarrow> race_step mx s (set_task Consumer resting s)"
| end_pop: "moves mx s Consumer \<Longrightarrow> tk_phase (rc_task s Consumer) = Act \<Longrightarrow> tk_todo (rc_task s Consumer) = [] \<Longrightarrow>
     race_step mx s (set_task Consumer resting
       (s\<lparr>rc_taken := rc_taken s @ [the (rg_message (tk_regs (rc_task s Consumer)))]\<rparr>))"

inductive_cases race_stepE: "race_step mx s s'"

text \<open>A task whose next access is to the data.\<close>

fun at_data :: "('m, 'b) access list \<Rightarrow> bool" where
  "at_data (Data_Write put # as) = True"
| "at_data (Data_Read get # as) = True"
| "at_data as = False"

text \<open>
  No race from a mailbox: the tasks are never at the data together; what was taken is what was sent, in
  order, none of it twice; when both tasks rest nothing was lost, what is missing is what a consumer
  would find; and a task that rests has not left the interrupts disabled.
\<close>

definition race_free :: "('m, 'b) mailbox_code \<Rightarrow> 'b \<Rightarrow> bool" where
  "race_free mx b =
    (\<forall>s. (race_step mx)\<^sup>*\<^sup>* (race_start b) s \<longrightarrow>
       \<not> (at_data (tk_todo (rc_task s Producer)) \<and> at_data (tk_todo (rc_task s Consumer)))
       \<and> (\<exists>rest. rc_sent s = rc_taken s @ rest)
       \<and> (tk_phase (rc_task s Producer) = Rest \<and> tk_phase (rc_task s Consumer) = Rest \<longrightarrow>
           rc_sent s = rc_taken s @ (if code_look mx (rc_box s) then [fst (code_pop mx (rc_box s))] else []))
       \<and> (mx_masked mx (rc_box s) \<longrightarrow> tk_phase (rc_task s (rc_current s)) \<noteq> Rest))"

text \<open>An invariant shows it.\<close>

lemma race_freeI:
  assumes "J (race_start b)" "\<And>s s'. race_step mx s s' \<Longrightarrow> J s \<Longrightarrow> J s'"
    "\<And>s. J s \<Longrightarrow> \<not> (at_data (tk_todo (rc_task s Producer)) \<and> at_data (tk_todo (rc_task s Consumer)))"
    "\<And>s. J s \<Longrightarrow> \<exists>rest. rc_sent s = rc_taken s @ rest"
    "\<And>s. J s \<Longrightarrow> tk_phase (rc_task s Producer) = Rest \<Longrightarrow> tk_phase (rc_task s Consumer) = Rest \<Longrightarrow>
       rc_sent s = rc_taken s @ (if code_look mx (rc_box s) then [fst (code_pop mx (rc_box s))] else [])"
    "\<And>s. J s \<Longrightarrow> mx_masked mx (rc_box s) \<Longrightarrow> tk_phase (rc_task s (rc_current s)) \<noteq> Rest"
  shows "race_free mx b"
proof -
  have "J s" if "(race_step mx)\<^sup>*\<^sup>* (race_start b) s" for s
    using that by (induction rule: rtranclp_induct) (use assms(1,2) in blast)+
  then show ?thesis using assms(3-6) unfolding race_free_def by blast
qed

section \<open>Interface: a flag beside the data\<close>

text \<open>The laws of the data and of the flag, whatever the instructions that access them.\<close>

locale flag_box =
  fixes ok :: "'b \<Rightarrow> bool" and set_data :: "'m \<Rightarrow> 'b \<Rightarrow> 'b" and get_data :: "'b \<Rightarrow> 'm" and written :: "'b \<Rightarrow> bool"
    and set_flag :: "bool \<Rightarrow> 'b \<Rightarrow> 'b"
  assumes ok_set: "ok b \<Longrightarrow> ok (set_data m b)" and ok_flag: "ok b \<Longrightarrow> ok (set_flag v b)"
    and written_set: "ok b \<Longrightarrow> written (set_data m b) = written b"
    and written_flag: "ok b \<Longrightarrow> written (set_flag v b) = v"
    and get_set: "ok b \<Longrightarrow> get_data (set_data m b) = m"
    and get_flag: "ok b \<Longrightarrow> get_data (set_flag v b) = get_data b"
begin

lemmas box_laws = ok_set ok_flag written_set written_flag get_set get_flag

end

text \<open>Seen from outside, such a flag and its data are a one-place mailbox.\<close>

sublocale flag_box \<subseteq> mailbox ok "\<lambda>b. if written b then Some (get_data b) else None" written
    "\<lambda>m b. set_flag True (set_data m b)" "\<lambda>b. (get_data b, set_flag False b)" "set_flag False"
  by unfold_locales (auto simp: box_laws split: if_splits)

text \<open>The flag is written and read in one access.\<close>

locale atomic_mailbox = flag_box ok set_data get_data written set_flag
  for ok :: "'b \<Rightarrow> bool" and set_data :: "'m \<Rightarrow> 'b \<Rightarrow> 'b" and get_data written set_flag +
  fixes mx :: "('m, 'b) mailbox_code"
  assumes look: "mx_look mx = [look_at written]"
    and send: "mx_send mx = [Data_Write set_data, on_box (set_flag True)]"
    and pop: "mx_pop mx = [Data_Read get_data, on_box (set_flag False)]"
    and never_masked: "\<not> mx_masked mx b"
begin

definition producer_inv :: "('m, 'b) task \<Rightarrow> 'b \<Rightarrow> bool" where
  "producer_inv k b =
    (case tk_phase k of
       Rest \<Rightarrow> tk_todo k = []
     | Look \<Rightarrow> tk_todo k = mx_look mx \<or> tk_todo k = [] \<and> (\<not> rg_look (tk_regs k) \<longrightarrow> \<not> written b)
     | Act \<Rightarrow> tk_todo k = mx_send mx \<and> \<not> written b
         \<or> tk_todo k = [on_box (set_flag True)] \<and> \<not> written b \<and> get_data b = the (rg_message (tk_regs k))
         \<or> tk_todo k = [])"

definition consumer_inv :: "('m, 'b) task \<Rightarrow> 'b \<Rightarrow> bool" where
  "consumer_inv k b =
    (case tk_phase k of
       Rest \<Rightarrow> tk_todo k = []
     | Look \<Rightarrow> tk_todo k = mx_look mx \<or> tk_todo k = [] \<and> (rg_look (tk_regs k) \<longrightarrow> written b)
     | Act \<Rightarrow> tk_todo k = mx_pop mx \<and> written b
         \<or> tk_todo k = [on_box (set_flag False)] \<and> written b \<and> rg_message (tk_regs k) = Some (get_data b)
         \<or> tk_todo k = [])"

text \<open>The messages on their way: with the consumer, in the mailbox, with the producer.\<close>

definition on_the_way :: "('m, 'b) task \<Rightarrow> ('m, 'b) task \<Rightarrow> 'b \<Rightarrow> 'm list" where
  "on_the_way p c b =
    (if tk_phase c = Act \<and> tk_todo c = [] then [the (rg_message (tk_regs c))] else [])
    @ (if written b then [get_data b] else [])
    @ (if tk_phase p = Act \<and> tk_todo p \<noteq> [] then [the (rg_message (tk_regs p))] else [])"

definition race_inv :: "('m, 'b) race \<Rightarrow> bool" where
  "race_inv s =
    (ok (rc_box s) \<and> producer_inv (rc_task s Producer) (rc_box s) \<and> consumer_inv (rc_task s Consumer) (rc_box s)
     \<and> rc_sent s = rc_taken s @ on_the_way (rc_task s Producer) (rc_task s Consumer) (rc_box s))"

lemmas race_defs = race_inv_def producer_inv_def consumer_inv_def on_the_way_def set_task_def resting_def

lemma race_inv_step: "race_step mx s s' \<Longrightarrow> race_inv s \<Longrightarrow> race_inv s'"
proof (induction rule: race_step.induct)
  case (whole_access s t a as r b)
  then show ?case by (cases t) (auto simp: race_defs look send pop box_laws split: phase.splits if_splits)
next
  case (part_of_access s t a as b)
  then show ?case by (cases t) (auto simp: race_defs look send pop box_laws split: phase.splits if_splits)
next
  case (begin_look s t)
  then show ?case by (cases t) (auto simp: race_defs look send pop split: phase.splits)
qed (auto simp: race_defs look send pop split: phase.splits)

lemma code_means:
  "ok b \<Longrightarrow> code_look mx b = written b" "ok b \<Longrightarrow> fst (code_pop mx b) = get_data b"
  by (simp_all add: code_look_def code_pop_def look pop)

lemma race_inv_safe:
  assumes "race_inv s"
  shows "\<not> (at_data (tk_todo (rc_task s Producer)) \<and> at_data (tk_todo (rc_task s Consumer)))"
    "\<exists>rest. rc_sent s = rc_taken s @ rest"
    "tk_phase (rc_task s Producer) = Rest \<Longrightarrow> tk_phase (rc_task s Consumer) = Rest \<Longrightarrow>
       rc_sent s = rc_taken s @ (if code_look mx (rc_box s) then [fst (code_pop mx (rc_box s))] else [])"
proof -
  show "\<not> (at_data (tk_todo (rc_task s Producer)) \<and> at_data (tk_todo (rc_task s Consumer)))"
    using assms by (auto simp: race_inv_def producer_inv_def consumer_inv_def look on_box_def look_at_def split: phase.splits)
qed (use assms in \<open>simp_all add: race_inv_def on_the_way_def code_means\<close>)

lemma free_of_races:
  assumes "ok b" "\<not> written b"
  shows "race_free mx b"
proof (rule race_freeI [where J = race_inv])
  show "race_inv (race_start b)"
    using assms by (simp add: race_inv_def producer_inv_def consumer_inv_def on_the_way_def race_start_def resting_def)
qed (simp_all add: race_inv_step race_inv_safe never_masked)

end

section \<open>The mailbox over an atomic flag\<close>

definition ipc_content :: "'m ipc \<Rightarrow> 'm option" where
  "ipc_content b = (if ipc_written b then Some (ipc_data b) else None)"

interpretation ipc: atomic_mailbox "\<lambda>_. True" "\<lambda>indata b. b\<lparr>ipc_data := indata\<rparr>" ipc_data ipc_has_content
    "\<lambda>v. if v then ipc_commit else ipc_clear" ipc_code
  by unfold_locales
    (simp_all add: ipc_has_content_def ipc_commit_def ipc_clear_def ipc_code_def ipc_send_code_def ipc_pop_code_def)

lemma ipc_content_eq: "ipc_content b = (if ipc_has_content b then Some (ipc_data b) else None)"
  by (simp add: ipc_content_def ipc_has_content_def)

lemma ipc_simps [simp]:
  "ipc_has_content (ipc_send m b)" "\<not> ipc_has_content (ipc_clear b)" "\<not> ipc_has_content (ipc_new junk)"
  "\<not> ipc_has_content (snd (ipc_pop b))" "fst (ipc_pop (ipc_send m b)) = m" "ipc_data (ipc_send m b) = m"
  "ipc_content (ipc_clear b) = None" "ipc_content (ipc_new junk) = None" "ipc_content (ipc_send m b) = Some m"
  "ipc_content (snd (ipc_pop b)) = None"
  by (simp_all add: ipc_has_content_def ipc_send_eq ipc_commit_def ipc_clear_def ipc_new_def ipc_pop_eq ipc_content_def)

lemma ipc_full: "ipc_has_content b \<longleftrightarrow> ipc_content b \<noteq> None"
  by (simp add: ipc_content_eq)

lemma ipc_popped: "ipc_content b = Some m \<Longrightarrow> fst (ipc_pop b) = m"
  by (auto simp: ipc_content_def ipc_pop_eq split: if_splits)

text \<open>A new mailbox is free of races.\<close>

lemma ipc_race_free: "race_free ipc_code (ipc_new junk)"
  by (rule ipc.free_of_races) simp_all

section \<open>A schedule\<close>

text \<open>The steps, without those in the middle of a store, as a function of the task whose turn it is.\<close>

definition turn :: "('m, 'b) mailbox_code \<Rightarrow> 'm \<Rightarrow> who \<Rightarrow> ('m, 'b) race \<Rightarrow> ('m, 'b) race" where
  "turn mx m t s =
    (if \<not> moves mx s t then s
     else
       let k = rc_task s t
       in case tk_todo k of
            a # as \<Rightarrow> (case exec_access a (tk_regs k) (rc_box s) of (r, b) \<Rightarrow>
              set_task t (k\<lparr>tk_todo := as, tk_regs := r\<rparr>) (s\<lparr>rc_box := b\<rparr>))
          | [] \<Rightarrow>
              (case (tk_phase k, t) of
                 (Rest, _) \<Rightarrow> set_task t \<lparr>tk_phase = Look, tk_todo = mx_look mx, tk_regs = regs_for None\<rparr> s
               | (Look, Producer) \<Rightarrow>
                   if rg_look (tk_regs k) then set_task t resting s
                   else set_task t \<lparr>tk_phase = Act, tk_todo = mx_send mx, tk_regs = regs_for (Some m)\<rparr> (s\<lparr>rc_sent := rc_sent s @ [m]\<rparr>)
               | (Look, Consumer) \<Rightarrow>
                   if rg_look (tk_regs k)
                   then set_task t \<lparr>tk_phase = Act, tk_todo = mx_pop mx, tk_regs = regs_for None\<rparr> s
                   else set_task t resting s
               | (Act, Producer) \<Rightarrow> set_task t resting s
               | (Act, Consumer) \<Rightarrow> set_task t resting (s\<lparr>rc_taken := rc_taken s @ [the (rg_message (tk_regs k))]\<rparr>)))"

lemma turn_reach: "(race_step mx)\<^sup>*\<^sup>* s (turn mx m t s)"
  using race_step.intros [of mx s]
  by (cases t) (auto simp: turn_def Let_def split: list.split phase.split prod.split)

lemma turns_reach: "(race_step mx)\<^sup>*\<^sup>* s (fold (turn mx m) ts s)"
  by (induction ts arbitrary: s) (auto intro: rtranclp_trans turn_reach)

text \<open>The steps are not idle: a consumer that finds nothing, a message that is
  sent and taken, a producer that finds no room in between, and a second message begun.\<close>

lemma ipc_race_run:
  "\<exists>s. (race_step ipc_code)\<^sup>*\<^sup>* (race_start (ipc_new (0 :: nat))) s \<and> rc_sent s = [7, 7] \<and> rc_taken s = [7]"
proof -
  let ?s = "fold (turn ipc_code 7) (replicate 3 Consumer @ replicate 9 Producer @ replicate 6 Consumer @ replicate 3 Producer)
    (race_start (ipc_new (0 :: nat)))"
  have "rc_sent ?s = [7, 7] \<and> rc_taken ?s = [7]"
    by code_simp
  then show ?thesis by (intro exI [of _ ?s] conjI turns_reach) simp_all
qed

end
