(* ===== verification/MaskedMailbox.thy ===== *)
theory MaskedMailbox
  imports Ipc
begin

text \<open>
  The mailbox whose flag is a plain member, as on the targets of \<open>lib/inc/ipc/scrutiny_ipc_avr.hpp\<close> and
  \<open>_ti_c28.hpp\<close>: the interface of the instructions that disable the interrupts around each access to
  the flag, and that two tasks cannot race because of them, although the store to the flag is not
  indivisible.
\<close>

section \<open>Interface: a flag written with the interrupts disabled\<close>

text \<open>
  The flag is a plain member. \<open>lock\<close> and \<open>unlock\<close> are the instructions around its accesses; \<open>saved\<close> tells that
  the interrupt state that \<open>unlock\<close> will restore has the interrupts enabled.
\<close>

locale masked_mailbox = flag_box ok set_data get_data written set_flag
  for ok :: "'b \<Rightarrow> bool" and set_data :: "'m \<Rightarrow> 'b \<Rightarrow> 'b" and get_data written set_flag +
  fixes mx :: "('m, 'b) mailbox_code" and lock unlock :: "'m regs \<Rightarrow> 'b \<Rightarrow> 'm regs \<times> 'b"
    and saved :: "'m regs \<Rightarrow> 'b \<Rightarrow> bool"
  assumes look: "mx_look mx = [look_at written] \<or> mx_look mx = [Instr lock, look_at written, Instr unlock]"
    and send: "mx_send mx = [Data_Write set_data, Instr lock, Flag_Write set_flag True, Instr unlock]"
    and pop: "mx_pop mx = [Data_Read get_data, Instr lock, Flag_Write set_flag False, Instr unlock]"
    and lock: "ok b \<Longrightarrow> \<not> mx_masked mx b \<Longrightarrow> lock r b = (r', b') \<Longrightarrow>
      ok b' \<and> mx_masked mx b' \<and> written b' = written b \<and> get_data b' = get_data b
      \<and> rg_message r' = rg_message r \<and> rg_look r' = rg_look r \<and> saved r' b'"
    and unlock: "ok b \<Longrightarrow> saved r b \<Longrightarrow> unlock r b = (r', b') \<Longrightarrow>
      ok b' \<and> \<not> mx_masked mx b' \<and> written b' = written b \<and> get_data b' = get_data b
      \<and> rg_message r' = rg_message r \<and> rg_look r' = rg_look r"
    and mask_kept: "ok b \<Longrightarrow> mx_masked mx (set_data m b) = mx_masked mx b" "ok b \<Longrightarrow> mx_masked mx (set_flag v b) = mx_masked mx b"
    and saved_kept: "ok b \<Longrightarrow> saved r (set_flag v b) = saved r b" "saved (r\<lparr>rg_look := v\<rparr>) b = saved r b"
begin

definition look_locked :: bool where
  "look_locked = (length (mx_look mx) = 3)"

lemma look_code:
  "look_locked \<Longrightarrow> mx_look mx = [Instr lock, look_at written, Instr unlock]"
  "\<not> look_locked \<Longrightarrow> mx_look mx = [look_at written]"
  using look by (auto simp: look_locked_def)

definition locked :: "('m, 'b) task \<Rightarrow> bool" where
  "locked k = ((tk_phase k = Act \<or> tk_phase k = Look \<and> look_locked) \<and> (length (tk_todo k) = 1 \<or> length (tk_todo k) = 2))"

text \<open>A task in the middle of the flag, and whether there is a message, which the flag does not tell then.\<close>

definition at_flag :: "('m, 'b) task \<Rightarrow> bool" where
  "at_flag k = (tk_phase k = Act \<and> length (tk_todo k) = 2)"

definition full :: "('m, 'b) task \<Rightarrow> ('m, 'b) task \<Rightarrow> 'b \<Rightarrow> bool" where
  "full p c b = (\<not> at_flag p \<and> (at_flag c \<or> written b))"

definition producer_inv :: "('m, 'b) task \<Rightarrow> bool \<Rightarrow> 'b \<Rightarrow> bool" where
  "producer_inv k f b =
    (case tk_phase k of
       Rest \<Rightarrow> tk_todo k = []
     | Look \<Rightarrow> tk_todo k = mx_look mx
         \<or> look_locked \<and> tk_todo k = [look_at written, Instr unlock]
         \<or> look_locked \<and> tk_todo k = [Instr unlock] \<and> (\<not> rg_look (tk_regs k) \<longrightarrow> \<not> f)
         \<or> tk_todo k = [] \<and> (\<not> rg_look (tk_regs k) \<longrightarrow> \<not> f)
     | Act \<Rightarrow> tk_todo k = mx_send mx \<and> \<not> f
         \<or> tk_todo k = [Instr lock, Flag_Write set_flag True, Instr unlock] \<and> \<not> f \<and> get_data b = the (rg_message (tk_regs k))
         \<or> tk_todo k = [Flag_Write set_flag True, Instr unlock] \<and> \<not> f \<and> get_data b = the (rg_message (tk_regs k))
         \<or> tk_todo k = [Instr unlock] \<or> tk_todo k = [])"

definition consumer_inv :: "('m, 'b) task \<Rightarrow> bool \<Rightarrow> 'b \<Rightarrow> bool" where
  "consumer_inv k f b =
    (case tk_phase k of
       Rest \<Rightarrow> tk_todo k = []
     | Look \<Rightarrow> tk_todo k = mx_look mx
         \<or> look_locked \<and> tk_todo k = [look_at written, Instr unlock]
         \<or> look_locked \<and> tk_todo k = [Instr unlock] \<and> (rg_look (tk_regs k) \<longrightarrow> f)
         \<or> tk_todo k = [] \<and> (rg_look (tk_regs k) \<longrightarrow> f)
     | Act \<Rightarrow> tk_todo k = mx_pop mx \<and> f
         \<or> tk_todo k = [Instr lock, Flag_Write set_flag False, Instr unlock] \<and> f \<and> rg_message (tk_regs k) = Some (get_data b)
         \<or> tk_todo k = [Flag_Write set_flag False, Instr unlock] \<and> f \<and> rg_message (tk_regs k) = Some (get_data b)
         \<or> tk_todo k = [Instr unlock] \<or> tk_todo k = [])"

definition popped :: "('m, 'b) task \<Rightarrow> 'm list" where
  "popped c = (if tk_phase c = Act \<and> length (tk_todo c) \<le> 1 then [the (rg_message (tk_regs c))] else [])"

definition sending :: "('m, 'b) task \<Rightarrow> 'm list" where
  "sending p = (if tk_phase p = Act \<and> 2 \<le> length (tk_todo p) then [the (rg_message (tk_regs p))] else [])"

text \<open>The interrupts are disabled exactly where a task has locked, and then it is the current one.\<close>

definition mask_inv :: "('m, 'b) race \<Rightarrow> bool" where
  "mask_inv s =
    ((mx_masked mx (rc_box s) \<longleftrightarrow> locked (rc_task s Producer) \<or> locked (rc_task s Consumer))
     \<and> (locked (rc_task s Producer) \<longrightarrow> rc_current s = Producer \<and> saved (tk_regs (rc_task s Producer)) (rc_box s))
     \<and> (locked (rc_task s Consumer) \<longrightarrow> rc_current s = Consumer \<and> saved (tk_regs (rc_task s Consumer)) (rc_box s)))"

definition race_inv :: "('m, 'b) race \<Rightarrow> bool" where
  "race_inv s =
    (let b = rc_box s; p = rc_task s Producer; c = rc_task s Consumer
     in ok b \<and> mask_inv s \<and> producer_inv p (full p c b) b \<and> consumer_inv c (full p c b) b
       \<and> rc_sent s = rc_taken s @ popped c @ (if full p c b then [get_data b] else []) @ sending p)"

lemmas access_laws = box_laws mask_kept saved_kept

lemma consumer_waits: "consumer_inv k False b \<Longrightarrow> consumer_inv k f b'"
  by (auto simp: consumer_inv_def split: phase.splits)

lemma producer_waits: "producer_inv k True b \<Longrightarrow> producer_inv k f b'"
  by (auto simp: producer_inv_def split: phase.splits)

lemma inv_data:
  "get_data b' = get_data b \<Longrightarrow> consumer_inv k f b' = consumer_inv k f b"
  "get_data b' = get_data b \<Longrightarrow> producer_inv k f b' = producer_inv k f b"
  by (simp_all add: consumer_inv_def producer_inv_def split: phase.split)

text \<open>The task that moves has the other one out of its locked part.\<close>

lemma other_unlocked:
  assumes "mask_inv s" "moves mx s t"
  shows "t = Producer \<Longrightarrow> \<not> locked (rc_task s Consumer)" "t = Consumer \<Longrightarrow> \<not> locked (rc_task s Producer)"
    "\<not> locked (rc_task s t) \<Longrightarrow> \<not> mx_masked mx (rc_box s)"
  using assms by (cases t; auto simp: mask_inv_def moves_def)+

lemma unlocked_at_flag: "\<not> locked k \<Longrightarrow> \<not> at_flag k"
  by (auto simp: locked_def at_flag_def)

lemma producer_moves:
  assumes s: "race_inv s" "moves mx s Producer"
    and new: "ok b" "mx_masked mx b = locked k" "locked k \<longrightarrow> saved (tk_regs k) b"
      "producer_inv k (\<not> at_flag k \<and> written b) b"
      "consumer_inv (rc_task s Consumer) (\<not> at_flag k \<and> written b) b"
      "(if \<not> at_flag (rc_task s Producer) \<and> written (rc_box s) then [get_data (rc_box s)] else []) @ sending (rc_task s Producer) @ ms
        = (if \<not> at_flag k \<and> written b then [get_data b] else []) @ sending k"
  shows "race_inv (set_task Producer k (s\<lparr>rc_box := b, rc_sent := rc_sent s @ ms\<rparr>))"
proof -
  have c: "\<not> locked (rc_task s Consumer)" using other_unlocked(1) s by (simp add: race_inv_def Let_def)
  with unlocked_at_flag have "\<not> at_flag (rc_task s Consumer)" by blast
  with c s(1) new show ?thesis
    by (simp add: race_inv_def mask_inv_def Let_def set_task_def full_def split del: if_split)
qed

lemma consumer_moves:
  assumes s: "race_inv s" "moves mx s Consumer"
    and new: "ok b" "mx_masked mx b = locked k" "locked k \<longrightarrow> saved (tk_regs k) b"
      "consumer_inv k (at_flag k \<or> written b) b"
      "producer_inv (rc_task s Producer) (at_flag k \<or> written b) b"
      "popped (rc_task s Consumer) @ (if at_flag (rc_task s Consumer) \<or> written (rc_box s) then [get_data (rc_box s)] else [])
        = ms @ popped k @ (if at_flag k \<or> written b then [get_data b] else [])"
  shows "race_inv (set_task Consumer k (s\<lparr>rc_box := b, rc_taken := rc_taken s @ ms\<rparr>))"
proof -
  have c: "\<not> locked (rc_task s Producer)" using other_unlocked(2) s by (simp add: race_inv_def Let_def)
  with unlocked_at_flag have "\<not> at_flag (rc_task s Producer)" by blast
  with c s(1) new show ?thesis
    by (simp add: race_inv_def mask_inv_def Let_def set_task_def full_def split del: if_split)
qed

lemmas task_defs = locked_def at_flag_def sending_def popped_def

text \<open>What holds when a task moves, in terms of the other one, which is not at the flag.\<close>

lemma moving_producer:
  assumes "race_inv s" "moves mx s Producer"
  defines "p \<equiv> rc_task s Producer" and "c \<equiv> rc_task s Consumer" and "b \<equiv> rc_box s"
  shows "ok b" "mx_masked mx b = locked p" "locked p \<Longrightarrow> saved (tk_regs p) b"
    "producer_inv p (\<not> at_flag p \<and> written b) b" "consumer_inv c (\<not> at_flag p \<and> written b) b"
proof -
  have c: "\<not> locked c" using other_unlocked(1) assms(1,2) by (simp add: race_inv_def Let_def c_def)
  with unlocked_at_flag have "\<not> at_flag c" by blast
  with c assms(1) show "ok b" "mx_masked mx b = locked p" "locked p \<Longrightarrow> saved (tk_regs p) b"
    "producer_inv p (\<not> at_flag p \<and> written b) b" "consumer_inv c (\<not> at_flag p \<and> written b) b"
    by (simp_all add: race_inv_def mask_inv_def Let_def full_def p_def c_def b_def)
qed

lemma moving_consumer:
  assumes "race_inv s" "moves mx s Consumer"
  defines "p \<equiv> rc_task s Producer" and "c \<equiv> rc_task s Consumer" and "b \<equiv> rc_box s"
  shows "ok b" "mx_masked mx b = locked c" "locked c \<Longrightarrow> saved (tk_regs c) b"
    "consumer_inv c (at_flag c \<or> written b) b" "producer_inv p (at_flag c \<or> written b) b"
proof -
  have p: "\<not> locked p" using other_unlocked(2) assms(1,2) by (simp add: race_inv_def Let_def p_def)
  with unlocked_at_flag have "\<not> at_flag p" by blast
  with p assms(1) show "ok b" "mx_masked mx b = locked c" "locked c \<Longrightarrow> saved (tk_regs c) b"
    "consumer_inv c (at_flag c \<or> written b) b" "producer_inv p (at_flag c \<or> written b) b"
    by (simp_all add: race_inv_def mask_inv_def Let_def full_def p_def c_def b_def)
qed

lemma producer_access:
  assumes s: "race_inv s" "moves mx s Producer" and p: "tk_todo (rc_task s Producer) = a # as"
    and x: "exec_access a (tk_regs (rc_task s Producer)) (rc_box s) = (r, b)"
  shows "race_inv (set_task Producer ((rc_task s Producer)\<lparr>tk_todo := as, tk_regs := r\<rparr>) (s\<lparr>rc_box := b\<rparr>))"
proof -
  let ?p = "rc_task s Producer" and ?c = "rc_task s Consumer" and ?b = "rc_box s"
  let ?k = "?p\<lparr>tk_todo := as, tk_regs := r\<rparr>"
  note inv = moving_producer [OF s]
  have waits: "consumer_inv ?c False ?b \<Longrightarrow> consumer_inv ?c f b'" for f b' by (rule consumer_waits)
  have "ok b \<and> mx_masked mx b = locked ?k \<and> (locked ?k \<longrightarrow> saved (tk_regs ?k) b)
    \<and> producer_inv ?k (\<not> at_flag ?k \<and> written b) b \<and> consumer_inv ?c (\<not> at_flag ?k \<and> written b) b
    \<and> (if \<not> at_flag ?p \<and> written ?b then [get_data ?b] else []) @ sending ?p
        = (if \<not> at_flag ?k \<and> written b then [get_data b] else []) @ sending ?k"
  proof (cases "tk_phase ?p")
    case Rest
    with inv(4) p show ?thesis by (simp add: producer_inv_def)
  next
    case Look
    with inv(4) p consider "a # as = mx_look mx" | "look_locked" "a # as = [look_at written, Instr unlock]"
      | "look_locked" "a # as = [Instr unlock]" "\<not> rg_look (tk_regs ?p) \<longrightarrow> \<not> written ?b"
      by (auto simp: producer_inv_def at_flag_def)
    then show ?thesis
    proof cases
      case 1
      show ?thesis
      proof (cases look_locked)
        case True
        with 1 Look p inv x lock [of ?b "tk_regs ?p" r b] show ?thesis
          by (simp add: producer_inv_def task_defs look_code inv_data(1) [of b ?b])
      next
        case False
        with 1 Look p inv x show ?thesis by (auto simp: producer_inv_def task_defs look_code)
      qed
    next
      case 2
      with Look p inv x show ?thesis by (auto simp: producer_inv_def task_defs saved_kept)
    next
      case 3
      with Look p inv x unlock [of ?b "tk_regs ?p" r b] show ?thesis
        by (simp add: producer_inv_def task_defs inv_data(1) [of b ?b])
    qed
  next
    case Act
    with inv(4) p consider "a # as = mx_send mx" "\<not> written ?b"
      | "a # as = [Instr lock, Flag_Write set_flag True, Instr unlock]" "\<not> written ?b" "get_data ?b = the (rg_message (tk_regs ?p))"
      | "a # as = [Flag_Write set_flag True, Instr unlock]" "get_data ?b = the (rg_message (tk_regs ?p))"
      | "a # as = [Instr unlock]"
      by (auto simp: producer_inv_def at_flag_def send)
    then show ?thesis
    proof cases
      case 1
      with Act p inv x show ?thesis by (auto simp: producer_inv_def task_defs send access_laws waits)
    next
      case 2
      with Act p inv x lock [of ?b "tk_regs ?p" r b] show ?thesis
        by (simp add: producer_inv_def task_defs waits)
    next
      case 3
      with Act p inv x show ?thesis by (auto simp: producer_inv_def task_defs access_laws waits)
    next
      case 4
      with Act p inv x unlock [of ?b "tk_regs ?p" r b] show ?thesis
        by (simp add: producer_inv_def task_defs inv_data(1) [of b ?b])
    qed
  qed
  with producer_moves [OF s, of b ?k "[]"] show ?thesis by simp
qed

lemma consumer_access:
  assumes s: "race_inv s" "moves mx s Consumer" and c: "tk_todo (rc_task s Consumer) = a # as"
    and x: "exec_access a (tk_regs (rc_task s Consumer)) (rc_box s) = (r, b)"
  shows "race_inv (set_task Consumer ((rc_task s Consumer)\<lparr>tk_todo := as, tk_regs := r\<rparr>) (s\<lparr>rc_box := b\<rparr>))"
proof -
  let ?p = "rc_task s Producer" and ?c = "rc_task s Consumer" and ?b = "rc_box s"
  let ?k = "?c\<lparr>tk_todo := as, tk_regs := r\<rparr>"
  note inv = moving_consumer [OF s]
  have waits: "producer_inv ?p True ?b \<Longrightarrow> producer_inv ?p f b'" for f b' by (rule producer_waits)
  have "ok b \<and> mx_masked mx b = locked ?k \<and> (locked ?k \<longrightarrow> saved (tk_regs ?k) b)
    \<and> consumer_inv ?k (at_flag ?k \<or> written b) b \<and> producer_inv ?p (at_flag ?k \<or> written b) b
    \<and> popped ?c @ (if at_flag ?c \<or> written ?b then [get_data ?b] else [])
        = popped ?k @ (if at_flag ?k \<or> written b then [get_data b] else [])"
  proof (cases "tk_phase ?c")
    case Rest
    with inv(4) c show ?thesis by (simp add: consumer_inv_def)
  next
    case Look
    with inv(4) c consider "a # as = mx_look mx" | "look_locked" "a # as = [look_at written, Instr unlock]"
      | "look_locked" "a # as = [Instr unlock]" "rg_look (tk_regs ?c) \<longrightarrow> written ?b"
      by (auto simp: consumer_inv_def at_flag_def)
    then show ?thesis
    proof cases
      case 1
      show ?thesis
      proof (cases look_locked)
        case True
        with 1 Look c inv x lock [of ?b "tk_regs ?c" r b] show ?thesis
          by (simp add: consumer_inv_def task_defs look_code inv_data(2) [of b ?b])
      next
        case False
        with 1 Look c inv x show ?thesis by (auto simp: consumer_inv_def task_defs look_code)
      qed
    next
      case 2
      with Look c inv x show ?thesis by (auto simp: consumer_inv_def task_defs saved_kept)
    next
      case 3
      with Look c inv x unlock [of ?b "tk_regs ?c" r b] show ?thesis
        by (simp add: consumer_inv_def task_defs inv_data(2) [of b ?b])
    qed
  next
    case Act
    with inv(4) c consider "a # as = mx_pop mx" "written ?b"
      | "a # as = [Instr lock, Flag_Write set_flag False, Instr unlock]" "written ?b" "rg_message (tk_regs ?c) = Some (get_data ?b)"
      | "a # as = [Flag_Write set_flag False, Instr unlock]" "rg_message (tk_regs ?c) = Some (get_data ?b)"
      | "a # as = [Instr unlock]"
      by (auto simp: consumer_inv_def at_flag_def pop)
    then show ?thesis
    proof cases
      case 1
      with Act c inv x show ?thesis by (auto simp: consumer_inv_def task_defs pop)
    next
      case 2
      with Act c inv x lock [of ?b "tk_regs ?c" r b] show ?thesis
        by (simp add: consumer_inv_def task_defs waits)
    next
      case 3
      with Act c inv x show ?thesis by (auto simp: consumer_inv_def task_defs access_laws waits)
    next
      case 4
      with Act c inv x unlock [of ?b "tk_regs ?c" r b] show ?thesis
        by (simp add: consumer_inv_def task_defs inv_data(2) [of b ?b])
    qed
  qed
  with consumer_moves [OF s, of b ?k "[]"] show ?thesis by simp
qed

text \<open>A plain store that is under way.\<close>

lemma producer_part:
  assumes s: "race_inv s" "moves mx s Producer" and p: "tk_todo (rc_task s Producer) = a # as" and x: "partial_access a (rc_box s) b"
  shows "race_inv (set_task Producer (rc_task s Producer) (s\<lparr>rc_box := b\<rparr>))"
proof -
  let ?p = "rc_task s Producer" and ?c = "rc_task s Consumer" and ?b = "rc_box s"
  note inv = moving_producer [OF s]
  have waits: "consumer_inv ?c False ?b \<Longrightarrow> consumer_inv ?c f b'" for f b' by (rule consumer_waits)
  have "tk_phase ?p = Act \<and> (a # as = mx_send mx \<and> \<not> written ?b \<or> a # as = [Flag_Write set_flag True, Instr unlock]
      \<and> get_data ?b = the (rg_message (tk_regs ?p)))"
    using inv(4) p x look by (auto simp: producer_inv_def at_flag_def send split: phase.splits)
  then have "ok b \<and> mx_masked mx b = locked ?p \<and> (locked ?p \<longrightarrow> saved (tk_regs ?p) b)
    \<and> producer_inv ?p (\<not> at_flag ?p \<and> written b) b \<and> consumer_inv ?c (\<not> at_flag ?p \<and> written b) b
    \<and> (if \<not> at_flag ?p \<and> written ?b then [get_data ?b] else []) = (if \<not> at_flag ?p \<and> written b then [get_data b] else [])"
    using p inv x by (auto simp: producer_inv_def task_defs send access_laws waits)
  with producer_moves [OF s, of b ?p "[]"] show ?thesis by simp
qed

lemma consumer_part:
  assumes s: "race_inv s" "moves mx s Consumer" and c: "tk_todo (rc_task s Consumer) = a # as" and x: "partial_access a (rc_box s) b"
  shows "race_inv (set_task Consumer (rc_task s Consumer) (s\<lparr>rc_box := b\<rparr>))"
proof -
  let ?p = "rc_task s Producer" and ?c = "rc_task s Consumer" and ?b = "rc_box s"
  note inv = moving_consumer [OF s]
  have waits: "producer_inv ?p True ?b \<Longrightarrow> producer_inv ?p f b'" for f b' by (rule producer_waits)
  have "tk_phase ?c = Act \<and> a # as = [Flag_Write set_flag False, Instr unlock] \<and> rg_message (tk_regs ?c) = Some (get_data ?b)"
    using inv(4) c x look by (auto simp: consumer_inv_def at_flag_def pop split: phase.splits)
  then have "ok b \<and> mx_masked mx b = locked ?c \<and> (locked ?c \<longrightarrow> saved (tk_regs ?c) b)
    \<and> consumer_inv ?c (at_flag ?c \<or> written b) b \<and> producer_inv ?p (at_flag ?c \<or> written b) b
    \<and> (if at_flag ?c \<or> written ?b then [get_data ?b] else []) = (if at_flag ?c \<or> written b then [get_data b] else [])"
    using c inv x by (auto simp: consumer_inv_def task_defs access_laws waits)
  with consumer_moves [OF s, of b ?c "[]"] show ?thesis by simp
qed

text \<open>A task that goes from one phase to the next.\<close>

lemma producer_phase:
  assumes s: "race_inv s" "moves mx s Producer" and p: "tk_todo (rc_task s Producer) = []"
    and k: "\<not> locked k" "producer_inv k (written (rc_box s)) (rc_box s)" "sending k = ms"
  shows "race_inv (set_task Producer k (s\<lparr>rc_sent := rc_sent s @ ms\<rparr>))"
proof -
  note inv = moving_producer [OF s]
  have idle: "\<not> locked (rc_task s Producer)" "\<not> at_flag (rc_task s Producer)" "sending (rc_task s Producer) = []"
    using p by (simp_all add: task_defs)
  have "\<not> at_flag k" by (rule unlocked_at_flag [OF k(1)])
  with producer_moves [OF s, of "rc_box s" k ms] inv idle k show ?thesis by simp
qed

lemma consumer_phase:
  assumes s: "race_inv s" "moves mx s Consumer" and c: "tk_todo (rc_task s Consumer) = []"
    and k: "\<not> locked k" "consumer_inv k (written (rc_box s)) (rc_box s)" "popped (rc_task s Consumer) = ms" "popped k = []"
  shows "race_inv (set_task Consumer k (s\<lparr>rc_taken := rc_taken s @ ms\<rparr>))"
proof -
  note inv = moving_consumer [OF s]
  have idle: "\<not> locked (rc_task s Consumer)" "\<not> at_flag (rc_task s Consumer)" using c by (simp_all add: task_defs)
  have "\<not> at_flag k" by (rule unlocked_at_flag [OF k(1)])
  with consumer_moves [OF s, of "rc_box s" k ms] inv idle k show ?thesis by simp
qed

lemma race_inv_step: "race_step mx s s' \<Longrightarrow> race_inv s \<Longrightarrow> race_inv s'"
proof (induction rule: race_step.induct)
  case (begin_look s t)
  let ?k = "\<lparr>tk_phase = Look, tk_todo = mx_look mx, tk_regs = regs_for None\<rparr>"
  have k: "\<not> locked ?k" "sending ?k = []" "popped ?k = []" using look by (auto simp: task_defs look_locked_def)
  show ?case
  proof (cases t)
    case Producer
    with begin_look moving_producer [OF begin_look(3)] have "tk_todo (rc_task s Producer) = []" by (simp add: producer_inv_def)
    with producer_phase [of s ?k "[]"] begin_look Producer k show ?thesis by (simp add: producer_inv_def)
  next
    case Consumer
    with begin_look moving_consumer [OF begin_look(3)] have "tk_todo (rc_task s Consumer) = []" by (simp add: consumer_inv_def)
    with consumer_phase [of s ?k "[]"] begin_look Consumer k show ?thesis by (simp add: consumer_inv_def popped_def)
  qed
next
  case (whole_access s t a as r b)
  then show ?case using producer_access [of s a as r b] consumer_access [of s a as r b] by (cases t) simp_all
next
  case (part_of_access s t a as b)
  then show ?case using producer_part [of s a as b] consumer_part [of s a as b] by (cases t) simp_all
next
  case (begin_send s m)
  let ?k = "\<lparr>tk_phase = Act, tk_todo = mx_send mx, tk_regs = regs_for (Some m)\<rparr>"
  have "\<not> written (rc_box s)"
    using moving_producer(4) [OF begin_send(5,1)] begin_send look by (auto simp: producer_inv_def at_flag_def)
  with begin_send producer_phase [of s ?k "[m]"] show ?case by (simp add: task_defs send producer_inv_def)
next
  case (no_room s)
  with producer_phase [of s resting "[]"] show ?case by (simp add: task_defs producer_inv_def resting_def)
next
  case (end_send s)
  with producer_phase [of s resting "[]"] show ?case by (simp add: task_defs producer_inv_def resting_def)
next
  case (begin_pop s)
  let ?k = "\<lparr>tk_phase = Act, tk_todo = mx_pop mx, tk_regs = regs_for None\<rparr>"
  have "written (rc_box s)"
    using moving_consumer(4) [OF begin_pop(5,1)] begin_pop look by (auto simp: consumer_inv_def at_flag_def)
  with begin_pop consumer_phase [of s ?k "[]"] show ?case by (simp add: task_defs pop consumer_inv_def)
next
  case (no_message s)
  with consumer_phase [of s resting "[]"] show ?case by (simp add: task_defs consumer_inv_def resting_def)
next
  case (end_pop s)
  let ?m = "the (rg_message (tk_regs (rc_task s Consumer)))"
  from end_pop consumer_phase [of s resting "[?m]"] show ?case by (simp add: task_defs consumer_inv_def resting_def)
qed

lemma code_means:
  assumes "ok b" "\<not> mx_masked mx b"
  shows "code_look mx b = written b" "fst (code_pop mx b) = get_data b"
proof -
  obtain r1 b1 where l: "lock (regs_for None) b = (r1, b1)" by force
  obtain r2 b2 where u: "unlock (r1\<lparr>rg_look := written b1\<rparr>) b1 = (r2, b2)" by force
  have "saved (r1\<lparr>rg_look := written b1\<rparr>) b1" using lock [OF assms l] by (simp add: saved_kept)
  with lock [OF assms l] unlock [OF _ _ u] l u look show "code_look mx b = written b"
    by (auto simp: code_look_def)
  let ?r = "(regs_for None)\<lparr>rg_message := Some (get_data b)\<rparr>"
  obtain r1 b1 where l: "lock ?r b = (r1, b1)" by force
  obtain r2 b2 where u: "unlock r1 (set_flag False b1) = (r2, b2)" by force
  have "saved r1 (set_flag False b1)" "ok (set_flag False b1)" using lock [OF assms l] by (simp_all add: saved_kept ok_flag)
  with lock [OF assms l] unlock [OF _ _ u] l u show "fst (code_pop mx b) = get_data b"
    by (simp add: code_pop_def pop)
qed

lemma race_inv_safe:
  assumes "race_inv s"
  shows "\<not> (at_data (tk_todo (rc_task s Producer)) \<and> at_data (tk_todo (rc_task s Consumer)))"
    "\<exists>rest. rc_sent s = rc_taken s @ rest"
    "tk_phase (rc_task s Producer) = Rest \<Longrightarrow> tk_phase (rc_task s Consumer) = Rest \<Longrightarrow>
       rc_sent s = rc_taken s @ (if code_look mx (rc_box s) then [fst (code_pop mx (rc_box s))] else [])"
    "mx_masked mx (rc_box s) \<Longrightarrow> tk_phase (rc_task s (rc_current s)) \<noteq> Rest"
proof -
  let ?p = "rc_task s Producer" and ?c = "rc_task s Consumer" and ?b = "rc_box s"
  have p: "\<not> full ?p ?c ?b" if "at_data (tk_todo ?p)"
    using that assms look by (auto simp: race_inv_def Let_def producer_inv_def send look_at_def split: phase.splits)
  have c: "full ?p ?c ?b" if "at_data (tk_todo ?c)"
    using that assms look by (auto simp: race_inv_def Let_def consumer_inv_def pop look_at_def split: phase.splits)
  from p c show "\<not> (at_data (tk_todo ?p) \<and> at_data (tk_todo ?c))" by blast
  show "\<exists>rest. rc_sent s = rc_taken s @ rest" using assms by (auto simp: race_inv_def Let_def)
  show "rc_sent s = rc_taken s @ (if code_look mx ?b then [fst (code_pop mx ?b)] else [])"
    if "tk_phase ?p = Rest" "tk_phase ?c = Rest"
    using assms that code_means [of ?b] by (simp add: race_inv_def mask_inv_def Let_def full_def task_defs)
  show "tk_phase (rc_task s (rc_current s)) \<noteq> Rest" if "mx_masked mx ?b"
    using assms that by (auto simp: race_inv_def mask_inv_def Let_def locked_def)
qed

lemma free_of_races:
  assumes "ok b" "\<not> written b" "\<not> mx_masked mx b"
  shows "race_free mx b"
proof (rule race_freeI [where J = race_inv])
  show "race_inv (race_start b)"
    using assms by (simp add: race_inv_def mask_inv_def Let_def full_def task_defs producer_inv_def consumer_inv_def race_start_def resting_def)
qed (simp_all add: race_inv_step race_inv_safe)

end

end
