(* ===== verification/IpcTargets.thy ===== *)
theory IpcTargets
  imports MaskedMailbox
begin

text \<open>
  The mailboxes of the targets without atomic types: \<open>lib/inc/ipc/scrutiny_ipc_x86.hpp\<close>, \<open>_avr.hpp\<close>,
  \<open>_tricore.hpp\<close> and \<open>_ti_c28.hpp\<close>. The class is the one of \<open>Ipc\<close>; the accesses to the flag are
  machine instructions, or a plain store between two calls that disable and enable the interrupts. Each
  is an interpretation of \<open>atomic_mailbox\<close> or of \<open>masked_mailbox\<close> on the accesses of its methods, so its
  two tasks cannot race either, in the states where its flag can be cleared.
\<close>

section \<open>x86\<close>

text \<open>
  The flag is a \<open>bool\<close> of one byte; \<open>movl\<close> stores four. The flag is the first byte of the memory
  from its address on.
\<close>

record 'm ipc_x86 =
  x86_data :: 'm
  x86_written :: "u8 list"

definition x86_has_content :: "'m ipc_x86 \<Rightarrow> bool" where
  "x86_has_content b = (x86_written b ! 0 \<noteq> 0)"

definition x86_commit :: "'m ipc_x86 \<Rightarrow> 'm ipc_x86" where
  "x86_commit b = b\<lparr>x86_written := blit (x86_written b) 0 [1, 0, 0, 0]\<rparr>"

definition x86_clear :: "'m ipc_x86 \<Rightarrow> 'm ipc_x86" where
  "x86_clear b = b\<lparr>x86_written := blit (x86_written b) 0 [0, 0, 0, 0]\<rparr>"

definition x86_new :: "'m \<Rightarrow> u8 list \<Rightarrow> 'm ipc_x86" where
  "x86_new junk junk_bytes = \<lparr>x86_data = junk, x86_written = junk_bytes[0 := 0]\<rparr>"

text \<open>\<open>movl\<close> is one access, and so is the read of the flag.\<close>

definition x86_send_code :: "('m, 'm ipc_x86) access list" where
  "x86_send_code = [Data_Write (\<lambda>indata b. b\<lparr>x86_data := indata\<rparr>), on_box x86_commit]"

definition x86_pop_code :: "('m, 'm ipc_x86) access list" where
  "x86_pop_code = [Data_Read x86_data, on_box x86_clear]"

definition x86_code :: "('m, 'm ipc_x86) mailbox_code" where
  "x86_code = \<lparr>mx_look = [look_at x86_has_content], mx_send = x86_send_code, mx_pop = x86_pop_code, mx_masked = (\<lambda>_. False)\<rparr>"

definition x86_send :: "'m \<Rightarrow> 'm ipc_x86 \<Rightarrow> 'm ipc_x86" where
  "x86_send indata b = code_send x86_code indata b"

definition x86_pop :: "'m ipc_x86 \<Rightarrow> 'm \<times> 'm ipc_x86" where
  "x86_pop b = code_pop x86_code b"

definition x86_room :: "'m ipc_x86 \<Rightarrow> bool" where
  "x86_room b = (4 \<le> length (x86_written b))"

lemma blit_first: "4 \<le> length xs \<Longrightarrow> blit xs 0 [a, b, c, d] ! 0 = a"
  by (simp add: blit_def)

interpretation x86: atomic_mailbox x86_room "\<lambda>indata b. b\<lparr>x86_data := indata\<rparr>" x86_data x86_has_content
    "\<lambda>v. if v then x86_commit else x86_clear" x86_code
  by unfold_locales (simp_all add: x86_room_def x86_has_content_def x86_commit_def x86_clear_def blit_first
      x86_code_def x86_send_code_def x86_pop_code_def)

text \<open>The three bytes after the flag are overwritten with zeros, whatever they belong to.\<close>

lemma x86_overwrites:
  assumes "x86_room b"
  shows "x86_written (x86_commit b) = [1, 0, 0, 0] @ drop 4 (x86_written b)"
    "x86_written (x86_clear b) = [0, 0, 0, 0] @ drop 4 (x86_written b)"
  using assms by (simp_all add: x86_commit_def x86_clear_def x86_room_def blit_def eval_nat_numeral)

section \<open>AVR\<close>

text \<open>The flag is written with the interrupts disabled; \<open>sei\<close> enables them whatever they were.\<close>

record 'm ipc_avr =
  avr_data :: 'm
  avr_written :: bool
  avr_interrupts :: bool

definition cli :: "'m ipc_avr \<Rightarrow> 'm ipc_avr" where "cli b = b\<lparr>avr_interrupts := False\<rparr>"
definition sei :: "'m ipc_avr \<Rightarrow> 'm ipc_avr" where "sei b = b\<lparr>avr_interrupts := True\<rparr>"

definition avr_set_written :: "bool \<Rightarrow> 'm ipc_avr \<Rightarrow> 'm ipc_avr" where
  "avr_set_written v b = b\<lparr>avr_written := v\<rparr>"

definition avr_has_content :: "'m ipc_avr \<Rightarrow> bool" where
  "avr_has_content b = avr_written b"

definition avr_commit_code :: "('m, 'm ipc_avr) access list" where
  "avr_commit_code = [on_box cli, Flag_Write avr_set_written True, on_box sei]"

definition avr_clear_code :: "('m, 'm ipc_avr) access list" where
  "avr_clear_code = [on_box cli, Flag_Write avr_set_written False, on_box sei]"

definition avr_send_code :: "('m, 'm ipc_avr) access list" where
  "avr_send_code = Data_Write (\<lambda>indata b. b\<lparr>avr_data := indata\<rparr>) # avr_commit_code"

definition avr_pop_code :: "('m, 'm ipc_avr) access list" where
  "avr_pop_code = Data_Read avr_data # avr_clear_code"

definition avr_code :: "('m, 'm ipc_avr) mailbox_code" where
  "avr_code = \<lparr>mx_look = [look_at avr_has_content], mx_send = avr_send_code, mx_pop = avr_pop_code,
     mx_masked = (\<lambda>b. \<not> avr_interrupts b)\<rparr>"

definition avr_new :: "'m \<Rightarrow> bool \<Rightarrow> 'm ipc_avr" where
  "avr_new junk interrupts = \<lparr>avr_data = junk, avr_written = False, avr_interrupts = interrupts\<rparr>"

definition avr_send :: "'m \<Rightarrow> 'm ipc_avr \<Rightarrow> 'm ipc_avr" where
  "avr_send indata b = code_send avr_code indata b"

definition avr_pop :: "'m ipc_avr \<Rightarrow> 'm \<times> 'm ipc_avr" where
  "avr_pop b = code_pop avr_code b"

lemmas avr_defs = avr_code_def avr_send_code_def avr_pop_code_def avr_commit_code_def avr_clear_code_def
  avr_has_content_def avr_set_written_def cli_def sei_def

interpretation avr: masked_mailbox "\<lambda>_. True" "\<lambda>indata b. b\<lparr>avr_data := indata\<rparr>" avr_data avr_has_content
    avr_set_written avr_code "\<lambda>r b. (r, cli b)" "\<lambda>r b. (r, sei b)" "\<lambda>_ _. True"
  by unfold_locales (auto simp: avr_defs on_box_def)

lemma avr_send_eq: "avr_send indata b = b\<lparr>avr_data := indata, avr_written := True, avr_interrupts := True\<rparr>"
  by (simp add: avr_send_def code_send_def avr_defs)

lemma avr_pop_eq: "avr_pop b = (avr_data b, b\<lparr>avr_written := False, avr_interrupts := True\<rparr>)"
  by (simp add: avr_pop_def code_pop_def avr_defs)

lemma avr_enables_interrupts: "avr_interrupts (avr_send m b)" "avr_interrupts (snd (avr_pop b))"
  by (simp_all add: avr_send_eq avr_pop_eq)

section \<open>TriCore\<close>

text \<open>\<open>ldmst\<close> replaces, in one access, the bits of a word that a mask selects.\<close>

record 'm ipc_tricore =
  tri_data :: 'm
  tri_written :: u32

definition ldmst :: "u32 \<Rightarrow> u32 \<Rightarrow> u32 \<Rightarrow> u32" where
  "ldmst mask' value' word = (word AND NOT mask') OR (value' AND mask')"

definition tri_has_content :: "'m ipc_tricore \<Rightarrow> bool" where
  "tri_has_content b = (tri_written b \<noteq> 0)"

definition tri_commit :: "'m ipc_tricore \<Rightarrow> 'm ipc_tricore" where
  "tri_commit b = b\<lparr>tri_written := ldmst 1 1 (tri_written b)\<rparr>"

definition tri_clear :: "'m ipc_tricore \<Rightarrow> 'm ipc_tricore" where
  "tri_clear b = b\<lparr>tri_written := ldmst 1 0 (tri_written b)\<rparr>"

definition tri_new :: "'m \<Rightarrow> u32 \<Rightarrow> 'm ipc_tricore" where
  "tri_new junk junk_flag = tri_clear \<lparr>tri_data = junk, tri_written = junk_flag\<rparr>"

definition tri_send_code :: "('m, 'm ipc_tricore) access list" where
  "tri_send_code = [Data_Write (\<lambda>indata b. b\<lparr>tri_data := indata\<rparr>), on_box tri_commit]"

definition tri_pop_code :: "('m, 'm ipc_tricore) access list" where
  "tri_pop_code = [Data_Read tri_data, on_box tri_clear]"

definition tri_code :: "('m, 'm ipc_tricore) mailbox_code" where
  "tri_code = \<lparr>mx_look = [look_at tri_has_content], mx_send = tri_send_code, mx_pop = tri_pop_code, mx_masked = (\<lambda>_. False)\<rparr>"

definition tri_send :: "'m \<Rightarrow> 'm ipc_tricore \<Rightarrow> 'm ipc_tricore" where
  "tri_send indata b = code_send tri_code indata b"

definition tri_pop :: "'m ipc_tricore \<Rightarrow> 'm \<times> 'm ipc_tricore" where
  "tri_pop b = code_pop tri_code b"

lemma tri_pop_eq: "tri_pop b = (tri_data b, tri_clear b)"
  by (simp add: tri_pop_def code_pop_def tri_code_def tri_pop_code_def)

text \<open>The flag is one bit of the word; nothing ever writes the others.\<close>

definition tri_one_bit :: "'m ipc_tricore \<Rightarrow> bool" where
  "tri_one_bit b = (tri_written b AND NOT 1 = 0)"

lemma ldmst_bit: "ldmst 1 0 w = w AND NOT 1" "ldmst 1 1 w = (w AND NOT 1) OR 1"
  by (simp_all add: ldmst_def)

lemma upper_bits_kept [simplified, simp]: "ldmst 1 v w AND NOT 1 = w AND NOT 1"
  by (rule bit_word_eqI) (auto simp: ldmst_def bit_simps)

interpretation tri: atomic_mailbox tri_one_bit "\<lambda>indata b. b\<lparr>tri_data := indata\<rparr>" tri_data tri_has_content
    "\<lambda>v. if v then tri_commit else tri_clear" tri_code
  by unfold_locales (simp_all add: tri_one_bit_def tri_has_content_def tri_commit_def tri_clear_def ldmst_bit [symmetric]
      upper_bits_kept tri_code_def tri_send_code_def tri_pop_code_def, simp_all add: ldmst_bit)

section \<open>TI C28\<close>

text \<open>
  The intrinsics of the compiler are parameters: \<open>disable\<close> takes the status register to its previous
  value and the new one, \<open>restore\<close> takes a saved value and the register to the new one.
\<close>

record 'm ipc_c28 =
  c28_data :: 'm
  c28_written :: bool
  c28_status :: u16

definition c28_disable :: "(u16 \<Rightarrow> u16 \<times> u16) \<Rightarrow> 'm regs \<Rightarrow> 'm ipc_c28 \<Rightarrow> 'm regs \<times> 'm ipc_c28" where
  "c28_disable disable r b =
    (case disable (c28_status b) of (primask, st) \<Rightarrow> (r\<lparr>rg_saved := primask\<rparr>, b\<lparr>c28_status := st\<rparr>))"

definition c28_restore :: "(u16 \<Rightarrow> u16 \<Rightarrow> u16) \<Rightarrow> 'm regs \<Rightarrow> 'm ipc_c28 \<Rightarrow> 'm regs \<times> 'm ipc_c28" where
  "c28_restore restore r b = (r, b\<lparr>c28_status := restore (rg_saved r) (c28_status b)\<rparr>)"

definition c28_set_written :: "bool \<Rightarrow> 'm ipc_c28 \<Rightarrow> 'm ipc_c28" where
  "c28_set_written v b = b\<lparr>c28_written := v\<rparr>"

definition c28_has_content_code :: "(u16 \<Rightarrow> u16 \<times> u16) \<Rightarrow> (u16 \<Rightarrow> u16 \<Rightarrow> u16) \<Rightarrow> ('m, 'm ipc_c28) access list" where
  "c28_has_content_code disable restore =
    [Instr (c28_disable disable), look_at c28_written, Instr (c28_restore restore)]"

definition c28_commit_code :: "(u16 \<Rightarrow> u16 \<times> u16) \<Rightarrow> (u16 \<Rightarrow> u16 \<Rightarrow> u16) \<Rightarrow> ('m, 'm ipc_c28) access list" where
  "c28_commit_code disable restore =
    [Instr (c28_disable disable), Flag_Write c28_set_written True, Instr (c28_restore restore)]"

definition c28_clear_code :: "(u16 \<Rightarrow> u16 \<times> u16) \<Rightarrow> (u16 \<Rightarrow> u16 \<Rightarrow> u16) \<Rightarrow> ('m, 'm ipc_c28) access list" where
  "c28_clear_code disable restore =
    [Instr (c28_disable disable), Flag_Write c28_set_written False, Instr (c28_restore restore)]"

definition c28_send_code :: "(u16 \<Rightarrow> u16 \<times> u16) \<Rightarrow> (u16 \<Rightarrow> u16 \<Rightarrow> u16) \<Rightarrow> ('m, 'm ipc_c28) access list" where
  "c28_send_code disable restore = Data_Write (\<lambda>indata b. b\<lparr>c28_data := indata\<rparr>) # c28_commit_code disable restore"

definition c28_pop_code :: "(u16 \<Rightarrow> u16 \<times> u16) \<Rightarrow> (u16 \<Rightarrow> u16 \<Rightarrow> u16) \<Rightarrow> ('m, 'm ipc_c28) access list" where
  "c28_pop_code disable restore = Data_Read c28_data # c28_clear_code disable restore"

text \<open>\<open>masked\<close> tells of a status register whether the interrupts are disabled.\<close>

definition c28_code ::
  "(u16 \<Rightarrow> bool) \<Rightarrow> (u16 \<Rightarrow> u16 \<times> u16) \<Rightarrow> (u16 \<Rightarrow> u16 \<Rightarrow> u16) \<Rightarrow> ('m, 'm ipc_c28) mailbox_code" where
  "c28_code masked disable restore =
    \<lparr>mx_look = c28_has_content_code disable restore, mx_send = c28_send_code disable restore,
     mx_pop = c28_pop_code disable restore, mx_masked = (\<lambda>b. masked (c28_status b))\<rparr>"

definition c28_clear :: "(u16 \<Rightarrow> u16 \<times> u16) \<Rightarrow> (u16 \<Rightarrow> u16 \<Rightarrow> u16) \<Rightarrow> 'm ipc_c28 \<Rightarrow> 'm ipc_c28" where
  "c28_clear disable restore b = snd (execute (c28_clear_code disable restore) (regs_for None) b)"

definition c28_new :: "(u16 \<Rightarrow> u16 \<times> u16) \<Rightarrow> (u16 \<Rightarrow> u16 \<Rightarrow> u16) \<Rightarrow> 'm \<Rightarrow> bool \<Rightarrow> u16 \<Rightarrow> 'm ipc_c28" where
  "c28_new disable restore junk junk_flag st =
    c28_clear disable restore \<lparr>c28_data = junk, c28_written = junk_flag, c28_status = st\<rparr>"

definition c28_has_content :: "(u16 \<Rightarrow> u16 \<times> u16) \<Rightarrow> (u16 \<Rightarrow> u16 \<Rightarrow> u16) \<Rightarrow> 'm ipc_c28 \<Rightarrow> bool \<times> 'm ipc_c28" where
  "c28_has_content disable restore b =
    (case execute (c28_has_content_code disable restore) (regs_for None) b of (r, b) \<Rightarrow> (rg_look r, b))"

definition c28_send :: "(u16 \<Rightarrow> u16 \<times> u16) \<Rightarrow> (u16 \<Rightarrow> u16 \<Rightarrow> u16) \<Rightarrow> 'm \<Rightarrow> 'm ipc_c28 \<Rightarrow> 'm ipc_c28" where
  "c28_send disable restore indata b = snd (execute (c28_send_code disable restore) (regs_for (Some indata)) b)"

definition c28_pop :: "(u16 \<Rightarrow> u16 \<times> u16) \<Rightarrow> (u16 \<Rightarrow> u16 \<Rightarrow> u16) \<Rightarrow> 'm ipc_c28 \<Rightarrow> 'm \<times> 'm ipc_c28" where
  "c28_pop disable restore b =
    (case execute (c28_pop_code disable restore) (regs_for None) b of (r, b) \<Rightarrow> (the (rg_message r), b))"

lemmas c28_defs = c28_code_def c28_has_content_code_def c28_send_code_def c28_pop_code_def c28_commit_code_def
  c28_clear_code_def c28_disable_def c28_restore_def c28_set_written_def

text \<open>
  What the compiler documents of its intrinsics: \<open>__disable_interrupts\<close> leaves the interrupts disabled, and
  \<open>__restore_interrupts\<close>, given what it returned, enables them again if they were enabled.
\<close>

definition c28_intrinsics :: "(u16 \<Rightarrow> bool) \<Rightarrow> (u16 \<Rightarrow> u16 \<times> u16) \<Rightarrow> (u16 \<Rightarrow> u16 \<Rightarrow> u16) \<Rightarrow> bool" where
  "c28_intrinsics masked disable restore =
    (\<forall>st. masked (snd (disable st)) \<and> (\<not> masked st \<longrightarrow> \<not> masked (restore (fst (disable st)) (snd (disable st)))))"

lemma c28_intrinsicsD:
  assumes "c28_intrinsics masked disable restore"
  shows "masked (snd (disable st))" "\<not> masked st \<Longrightarrow> \<not> masked (restore (fst (disable st)) (snd (disable st)))"
  using assms by (simp_all add: c28_intrinsics_def)

lemma c28_mailbox:
  assumes "c28_intrinsics masked disable restore"
  shows "masked_mailbox (\<lambda>_. True) (\<lambda>indata b. b\<lparr>c28_data := indata\<rparr>) c28_data c28_written c28_set_written
    (c28_code masked disable restore) (c28_disable disable) (c28_restore restore)
    (\<lambda>r b. \<not> masked (restore (rg_saved r) (c28_status b)))"
  by unfold_locales (auto simp: c28_defs case_prod_beta c28_intrinsicsD [OF assms])

text \<open>On a status register of which one bit disables the interrupts, the interface has its laws.\<close>

definition intm_disable :: "u16 \<Rightarrow> u16 \<times> u16" where "intm_disable st = (st, st OR 1)"
definition intm_restore :: "u16 \<Rightarrow> u16 \<Rightarrow> u16" where "intm_restore primask st = (st AND NOT 1) OR (primask AND 1)"
definition intm_masked :: "u16 \<Rightarrow> bool" where "intm_masked st = bit st 0"

lemma intm_intrinsics: "c28_intrinsics intm_masked intm_disable intm_restore"
  by (simp add: c28_intrinsics_def intm_masked_def intm_disable_def intm_restore_def bit_simps)

interpretation c28: masked_mailbox "\<lambda>_. True" "\<lambda>indata b. b\<lparr>c28_data := indata\<rparr>" c28_data c28_written c28_set_written
    "c28_code intm_masked intm_disable intm_restore" "c28_disable intm_disable" "c28_restore intm_restore"
    "\<lambda>r b. \<not> intm_masked (intm_restore (rg_saved r) (c28_status b))"
  by (rule c28_mailbox [OF intm_intrinsics])

text \<open>Unlike the mailbox of the AVR, this one leaves the interrupts as it found them.\<close>

lemma c28_keeps_interrupts:
  assumes "\<And>st. restore (fst (disable st)) (snd (disable st)) = st"
  shows "c28_status (c28_send disable restore m b) = c28_status b"
    "c28_status (snd (c28_pop disable restore b)) = c28_status b"
    "c28_status (snd (c28_has_content disable restore b)) = c28_status b"
  using assms [of "c28_status b"] by (simp_all add: c28_send_def c28_pop_def c28_has_content_def c28_defs case_prod_beta)

section \<open>Sending and popping\<close>

lemma x86_send_pop:
  assumes "x86_room b"
  shows "x86_has_content (x86_send m b)" "fst (x86_pop (x86_send m b)) = m" "\<not> x86_has_content (snd (x86_pop (x86_send m b)))"
  using x86.content_put [OF assms, of m] x86.content_take_out [OF x86.ok_put [OF assms], of m]
  by (simp_all add: x86_send_def x86_pop_def code_send_def code_pop_def x86_code_def x86_send_code_def x86_pop_code_def
      split: if_splits)

lemma avr_send_pop:
  "avr_has_content (avr_send m b)" "fst (avr_pop (avr_send m b)) = m" "\<not> avr_has_content (snd (avr_pop (avr_send m b)))"
  by (simp_all add: avr_has_content_def avr_send_eq avr_pop_eq)

lemma tri_send_pop:
  assumes "tri_one_bit b"
  shows "tri_has_content (tri_send m b)" "fst (tri_pop (tri_send m b)) = m" "\<not> tri_has_content (snd (tri_pop (tri_send m b)))"
  using tri.content_put [OF assms, of m] tri.content_take_out [OF tri.ok_put [OF assms], of m]
  by (simp_all add: tri_pop_eq tri_send_def code_send_def tri_code_def tri_send_code_def split: if_splits)

lemma c28_send_pop:
  "c28_written (c28_send disable restore m b)" "fst (c28_pop disable restore (c28_send disable restore m b)) = m"
  "\<not> c28_written (snd (c28_pop disable restore (c28_send disable restore m b)))"
  by (simp_all add: c28_send_def c28_pop_def c28_defs case_prod_beta)

section \<open>The mailboxes of all targets\<close>

text \<open>
  C36: the mailboxes are free of races. The producer looks and, when there is room, runs \<open>send\<close>; the
  consumer looks and, when there is a message, runs \<open>pop\<close>. However the accesses that these methods make
  interleave, in the order in which the code makes them, from a new mailbox the two are never both at the
  data; what is taken is what was sent, in order and once; nothing is lost; and a task that is done has
  not left the interrupts disabled. With an atomic flag, without condition; on an x86 with four bytes at
  the flag; on a TriCore whose flag was zero but for its lowest bit before the constructor ran; on an
  AVR and on a C28, where the store to the flag need not be indivisible, with the interrupts enabled at the
  start and, on the C28, intrinsics that do what the compiler documents.
\<close>

theorem mailboxes_race_free:
  assumes "4 \<le> length bytes" "flag AND NOT 1 = 0" "c28_intrinsics masked disable restore" "\<not> masked st"
  shows "race_free ipc_code (ipc_new junk)
    \<and> race_free x86_code (x86_new junk bytes)
    \<and> race_free avr_code (avr_new junk True)
    \<and> race_free tri_code (tri_new junk flag)
    \<and> race_free (c28_code masked disable restore) (c28_new disable restore junk old st)"
proof (intro conjI)
  have "bytes \<noteq> []" using assms(1) by auto
  then show "race_free x86_code (x86_new junk bytes)"
    using assms(1) by (intro x86.free_of_races) (simp_all add: x86_new_def x86_room_def x86_has_content_def)
  show "race_free avr_code (avr_new junk True)"
    by (rule avr.free_of_races) (simp_all add: avr_new_def avr_defs)
  show "race_free tri_code (tri_new junk flag)"
    using assms(2) by (intro tri.free_of_races)
      (simp_all add: tri_new_def tri_clear_def tri_one_bit_def tri_has_content_def upper_bits_kept ldmst_bit)
  show "race_free (c28_code masked disable restore) (c28_new disable restore junk old st)"
    by (intro masked_mailbox.free_of_races [OF c28_mailbox [OF assms(3)]])
      (simp_all add: c28_new_def c28_clear_def c28_defs case_prod_beta c28_intrinsicsD [OF assms(3)] assms(4))
qed (rule ipc_race_free)

text \<open>Mailboxes of numbers, on memory that was not zero, and a status register with one interrupt bit.\<close>

lemma mailboxes_race_free_witness:
  "race_free x86_code (x86_new (0 :: nat) [9, 9, 9, 9]) \<and> race_free avr_code (avr_new (0 :: nat) True)
    \<and> race_free tri_code (tri_new (0 :: nat) 1)
    \<and> race_free (c28_code intm_masked intm_disable intm_restore) (c28_new intm_disable intm_restore (0 :: nat) True 0)"
  using mailboxes_race_free [where bytes = "[9, 9, 9, 9]" and flag = 1 and junk = "0 :: nat" and st = 0 and old = True,
      OF _ _ intm_intrinsics]
  by (simp add: intm_masked_def)

text \<open>
  A mailbox of the TriCore whose flag was not zero in memory is never empty again: the
  constructor clears one bit of the flag and the test reads them all. A producer that looks before it
  sends never sends, and a consumer takes what was in memory, at every look.
\<close>

theorem tricore_stale_flag:
  assumes "flag AND NOT 1 \<noteq> 0" "mailbox_run tri_has_content tri_send tri_pop ops (tri_new junk flag) = (ins, outs, b)"
  shows "tri_has_content b \<and> ins = [] \<and> outs = replicate (length (filter (\<lambda>op'. op' = Poll) ops)) junk"
proof -
  have stale: "tri_has_content b" if "tri_written b AND NOT 1 \<noteq> 0" for b :: "'a ipc_tricore"
    using that by (auto simp: tri_has_content_def)
  have run: "tri_has_content b \<and> ins = [] \<and> outs = replicate (length (filter (\<lambda>op'. op' = Poll) ops)) (tri_data a)"
    if "tri_written a AND NOT 1 \<noteq> 0" "mailbox_run tri_has_content tri_send tri_pop ops a = (ins, outs, b)" for a ins outs
    using that
  proof (induction ops arbitrary: a ins outs)
    case Nil
    then show ?case using stale by simp
  next
    case (Cons op' ops)
    let ?a = "tri_clear a"
    have next': "tri_written ?a AND NOT 1 \<noteq> 0" "tri_data ?a = tri_data a"
      using Cons.prems(1) by (simp_all add: tri_clear_def upper_bits_kept)
    show ?case
      using Cons.prems(2) stale [OF Cons.prems(1)] Cons.IH [OF Cons.prems(1)] Cons.IH [OF next'(1)] next'(2)
      by (cases op') (auto simp: tri_pop_eq split: prod.splits)
  qed
  have "tri_written (tri_new junk flag) AND NOT 1 \<noteq> 0" "tri_data (tri_new junk flag) = junk"
    using assms(1) by (simp_all add: tri_new_def tri_clear_def upper_bits_kept)
  then show ?thesis using run [OF _ assms(2)] by simp
qed

lemma tricore_stale_flag_witness:
  "mailbox_run tri_has_content tri_send tri_pop [Offer 1, Poll, Poll] (tri_new (5 :: nat) 2)
    = ([], [5, 5], tri_new 5 2) \<and> tri_has_content (tri_new (5 :: nat) 2)"
proof -
  have run: "mailbox_run tri_has_content tri_send tri_pop [Offer 1, Poll, Poll] (tri_new (5 :: nat) 2)
    = ([], [5, 5], tri_new 5 2)"
    by (simp add: tri_has_content_def tri_pop_eq tri_new_def tri_clear_def ldmst_def)
  with tricore_stale_flag [OF _ run] show ?thesis by simp
qed

end
