(* ===== verification/Protocol.thy ===== *)
theory Protocol
  imports Codecs
begin

text \<open>
  The protocol's data: \<open>lib/inc/protocol/scrutiny_protocol_definitions.hpp\<close> and its .cpp, with the
  sizes and timeouts of \<open>scrutiny_protocol.hpp\<close> and the default build configuration. A request or
  a response owns its payload buffer here: the handler's reception (transmission) buffer is never
  reached but through the active request (response), whose \<open>data\<close> points to it.
\<close>

section \<open>Requests and responses\<close>

record request =
  rq_command_id :: u8
  rq_subfunction_id :: u8
  rq_data_length :: u16
  rq_data_max_length :: u16
  rq_data :: "u8 list"
  rq_crc :: u32

definition rq_reset :: "request \<Rightarrow> request" where
  "rq_reset r = r\<lparr>rq_command_id := 0, rq_subfunction_id := 0, rq_data_length := 0, rq_crc := 0\<rparr>"

record response =
  rs_command_id :: u8
  rs_subfunction_id :: u8
  rs_response_code :: u8
  rs_data_length :: u16
  rs_data_max_length :: u16
  rs_data :: "u8 list"
  rs_crc :: u32

definition rs_reset :: "response \<Rightarrow> response" where
  "rs_reset r = r\<lparr>rs_command_id := 0, rs_subfunction_id := 0, rs_response_code := 0,
                  rs_data_length := 0\<rparr>"

section \<open>Identifiers\<close>

text \<open>The enums are bytes on the wire and are compared as such.\<close>

abbreviation (input) CommandId_GetInfo :: u8 where "CommandId_GetInfo \<equiv> 0x01"
abbreviation (input) CommandId_CommControl :: u8 where "CommandId_CommControl \<equiv> 0x02"
abbreviation (input) CommandId_MemoryControl :: u8 where "CommandId_MemoryControl \<equiv> 0x03"
abbreviation (input) CommandId_UserCommand :: u8 where "CommandId_UserCommand \<equiv> 0x04"
abbreviation (input) CommandId_DataLogControl :: u8 where "CommandId_DataLogControl \<equiv> 0x05"

datatype response_code =
    RC_OK | RC_InvalidRequest | RC_UnsupportedFeature | RC_Overflow | RC_Busy
  | RC_FailureToProceed | RC_Forbidden | RC_NoResponseToSend | RC_ProcessAgain

primrec response_code_byte :: "response_code \<Rightarrow> u8" where
  "response_code_byte RC_OK = 0"
| "response_code_byte RC_InvalidRequest = 1"
| "response_code_byte RC_UnsupportedFeature = 2"
| "response_code_byte RC_Overflow = 3"
| "response_code_byte RC_Busy = 4"
| "response_code_byte RC_FailureToProceed = 5"
| "response_code_byte RC_Forbidden = 6"
| "response_code_byte RC_NoResponseToSend = 0xFE"
| "response_code_byte RC_ProcessAgain = 0xFF"

datatype rx_error = RxError_None | RxError_Overflow | RxError_Disabled | RxError_InvalidCommand
datatype tx_error = TxError_None | TxError_Overflow | TxError_Busy | TxError_Disabled

abbreviation (input) GetInfo_GetProtocolVersion :: u8 where "GetInfo_GetProtocolVersion \<equiv> 1"
abbreviation (input) GetInfo_GetSoftwareId :: u8 where "GetInfo_GetSoftwareId \<equiv> 2"
abbreviation (input) GetInfo_GetSupportedFeatures :: u8 where "GetInfo_GetSupportedFeatures \<equiv> 3"
abbreviation (input) GetInfo_GetSpecialMemoryRegionCount :: u8 where
  "GetInfo_GetSpecialMemoryRegionCount \<equiv> 4"
abbreviation (input) GetInfo_GetSpecialMemoryRegionLocation :: u8 where
  "GetInfo_GetSpecialMemoryRegionLocation \<equiv> 5"
abbreviation (input) GetInfo_GetRPVCount :: u8 where "GetInfo_GetRPVCount \<equiv> 6"
abbreviation (input) GetInfo_GetRPVDefinition :: u8 where "GetInfo_GetRPVDefinition \<equiv> 7"
abbreviation (input) GetInfo_GetLoopCount :: u8 where "GetInfo_GetLoopCount \<equiv> 8"
abbreviation (input) GetInfo_GetLoopDefinition :: u8 where "GetInfo_GetLoopDefinition \<equiv> 9"

abbreviation (input) CommControl_Discover :: u8 where "CommControl_Discover \<equiv> 1"
abbreviation (input) CommControl_Heartbeat :: u8 where "CommControl_Heartbeat \<equiv> 2"
abbreviation (input) CommControl_GetParams :: u8 where "CommControl_GetParams \<equiv> 3"
abbreviation (input) CommControl_Connect :: u8 where "CommControl_Connect \<equiv> 4"
abbreviation (input) CommControl_Disconnect :: u8 where "CommControl_Disconnect \<equiv> 5"

abbreviation (input) MemoryControl_Read :: u8 where "MemoryControl_Read \<equiv> 1"
abbreviation (input) MemoryControl_Write :: u8 where "MemoryControl_Write \<equiv> 2"
abbreviation (input) MemoryControl_WriteMasked :: u8 where "MemoryControl_WriteMasked \<equiv> 3"
abbreviation (input) MemoryControl_ReadRPV :: u8 where "MemoryControl_ReadRPV \<equiv> 4"
abbreviation (input) MemoryControl_WriteRPV :: u8 where "MemoryControl_WriteRPV \<equiv> 5"

abbreviation (input) DataLogControl_GetSetup :: u8 where "DataLogControl_GetSetup \<equiv> 1"
abbreviation (input) DataLogControl_Configure :: u8 where "DataLogControl_Configure \<equiv> 2"
abbreviation (input) DataLogControl_ArmTrigger :: u8 where "DataLogControl_ArmTrigger \<equiv> 3"
abbreviation (input) DataLogControl_DisarmTrigger :: u8 where "DataLogControl_DisarmTrigger \<equiv> 4"
abbreviation (input) DataLogControl_GetStatus :: u8 where "DataLogControl_GetStatus \<equiv> 5"
abbreviation (input) DataLogControl_GetAcquisitionMetadata :: u8 where
  "DataLogControl_GetAcquisitionMetadata \<equiv> 6"
abbreviation (input) DataLogControl_ReadAcquisition :: u8 where "DataLogControl_ReadAcquisition \<equiv> 7"
abbreviation (input) DataLogControl_ResetDatalogger :: u8 where "DataLogControl_ResetDatalogger \<equiv> 8"

definition DISCOVER_MAGIC :: "u8 list" where "DISCOVER_MAGIC = [0x7E, 0x18, 0xFC, 0x68]"
definition CONNECT_MAGIC :: "u8 list" where "CONNECT_MAGIC = [0x82, 0x90, 0x22, 0x66]"

section \<open>Sizes and timeouts\<close>

abbreviation (input) REQUEST_OVERHEAD :: nat where "REQUEST_OVERHEAD \<equiv> 8"
abbreviation (input) RESPONSE_OVERHEAD :: nat where "RESPONSE_OVERHEAD \<equiv> 9"
abbreviation (input) MINIMUM_RX_BUFFER_SIZE :: u16 where "MINIMUM_RX_BUFFER_SIZE \<equiv> 32"
abbreviation (input) MAXIMUM_RX_BUFFER_SIZE :: u16 where "MAXIMUM_RX_BUFFER_SIZE \<equiv> 65519"
abbreviation (input) MINIMUM_TX_BUFFER_SIZE :: u16 where "MINIMUM_TX_BUFFER_SIZE \<equiv> 32"
abbreviation (input) MAXIMUM_TX_BUFFER_SIZE :: u16 where "MAXIMUM_TX_BUFFER_SIZE \<equiv> 65519"
abbreviation (input) MAX_DISPLAY_NAME_LENGTH :: nat where "MAX_DISPLAY_NAME_LENGTH \<equiv> 64"
abbreviation (input) MAX_LOOP_NAME_LENGTH :: nat where "MAX_LOOP_NAME_LENGTH \<equiv> 32"

text \<open>In counts of the time base.\<close>

abbreviation (input) RX_TIMEOUT_100NS :: u32 where "RX_TIMEOUT_100NS \<equiv> 50000 * 10"
abbreviation (input) HEARTBEAT_TIMEOUT_100NS :: u32 where "HEARTBEAT_TIMEOUT_100NS \<equiv> 5000000 * 10"

section \<open>Frames\<close>

text \<open>
  What goes on the wire, most significant byte first: the two identifiers (and the code of a
  response), the length of the payload, the payload, and the CRC of all of it.
\<close>

definition request_body :: "u8 \<Rightarrow> u8 \<Rightarrow> u8 list \<Rightarrow> u8 list" where
  "request_body cmd subfn payload =
    [cmd, subfn] @ encode_16_bits_big_endian (of_nat (length payload)) @ payload"

definition request_frame :: "u8 \<Rightarrow> u8 \<Rightarrow> u8 list \<Rightarrow> u8 list" where
  "request_frame cmd subfn payload =
    request_body cmd subfn payload @ encode_32_bits_big_endian (crc32 (request_body cmd subfn payload) 0)"

definition response_header :: "response \<Rightarrow> u8 list" where
  "response_header r =
    [rs_command_id r, rs_subfunction_id r, rs_response_code r] @
    encode_16_bits_big_endian (rs_data_length r)"

definition response_payload :: "response \<Rightarrow> u8 list" where
  "response_payload r = take (unat (rs_data_length r)) (rs_data r)"

definition response_frame :: "response \<Rightarrow> u8 list" where
  "response_frame r =
    response_header r @ response_payload r @ encode_32_bits_big_endian (rs_crc r)"

lemma rq_reset_fields [simp]:
  "rq_data (rq_reset r) = rq_data r" "rq_data_max_length (rq_reset r) = rq_data_max_length r"
  "rq_data_length (rq_reset r) = 0" "rq_crc (rq_reset r) = 0"
  "rq_command_id (rq_reset r) = 0" "rq_subfunction_id (rq_reset r) = 0"
  by (simp_all add: rq_reset_def)

lemma rs_reset_fields [simp]:
  "rs_data (rs_reset r) = rs_data r" "rs_data_max_length (rs_reset r) = rs_data_max_length r"
  "rs_data_length (rs_reset r) = 0" "rs_crc (rs_reset r) = rs_crc r"
  "rs_command_id (rs_reset r) = 0" "rs_response_code (rs_reset r) = 0"
  "rs_subfunction_id (rs_reset r) = 0"
  by (simp_all add: rs_reset_def)

lemma length_request_body: "length (request_body c s p) = 4 + length p"
  by (simp add: request_body_def be16.length_enc)

lemma length_request_frame: "length (request_frame c s p) = REQUEST_OVERHEAD + length p"
  by (simp add: request_frame_def length_request_body be32.length_enc)

lemma length_response_header: "length (response_header r) = 5"
  by (simp add: response_header_def be16.length_enc)

lemma length_response_frame:
  "unat (rs_data_length r) \<le> length (rs_data r) \<Longrightarrow>
    length (response_frame r) = RESPONSE_OVERHEAD + unat (rs_data_length r)"
  by (simp add: response_frame_def length_response_header response_payload_def be32.length_enc)

end
