(* ===== verification/Timebase.thy ===== *)
theory Timebase
  imports Prelude
begin

text \<open>
  The time base of \<open>lib/inc/scrutiny_timebase.hpp\<close>: a free-running 32-bit counter of 100 ns steps
  that wraps around, and the elapsed-time tests made on it. The lemmas relate the wrapping counter
  to the time that really went by.
\<close>

type_synonym timestamp = u32
type_synonym timediff = u32

record timebase =
  tb_time_100ns :: timestamp

definition tb_init :: timebase where
  "tb_init = \<lparr>tb_time_100ns = 0\<rparr>"

definition tb_step :: "timediff \<Rightarrow> timebase \<Rightarrow> timebase" where
  "tb_step timestep_100ns tb = tb\<lparr>tb_time_100ns := tb_time_100ns tb + timestep_100ns\<rparr>"

definition get_timestamp :: "timebase \<Rightarrow> timestamp" where
  "get_timestamp tb = tb_time_100ns tb"

definition elapsed_since :: "timebase \<Rightarrow> timestamp \<Rightarrow> timediff" where
  "elapsed_since tb timestamp = tb_time_100ns tb - timestamp"

definition elapsed_us_since :: "timebase \<Rightarrow> timestamp \<Rightarrow> timediff" where
  "elapsed_us_since tb timestamp = elapsed_since tb timestamp div 10"

definition has_expired :: "timebase \<Rightarrow> timestamp \<Rightarrow> timediff \<Rightarrow> bool" where
  "has_expired tb timestamp timeout_100ns = (timeout_100ns \<le> elapsed_since tb timestamp)"

definition tb_reset :: "timestamp \<Rightarrow> timebase \<Rightarrow> timebase" where
  "tb_reset val tb = tb\<lparr>tb_time_100ns := val\<rparr>"

section \<open>The counter and the time that went by\<close>

text \<open>The time in 100 ns that a list of steps takes, not wrapped.\<close>

definition total_time :: "timediff list \<Rightarrow> nat" where
  "total_time steps = sum_list (map unat steps)"

lemma total_time_Nil [simp]: "total_time [] = 0"
  by (simp add: total_time_def)

lemma total_time_Cons [simp]: "total_time (x # xs) = unat x + total_time xs"
  by (simp add: total_time_def)

lemma tb_steps_time:
  "tb_time_100ns (fold tb_step steps tb) = tb_time_100ns tb + of_nat (total_time steps)"
  by (induction steps arbitrary: tb) (simp_all add: tb_step_def add.assoc)

lemma elapsed_after_steps:
  "unat (elapsed_since (fold tb_step steps tb) (get_timestamp tb)) = total_time steps mod 2 ^ 32"
  by (simp add: elapsed_since_def get_timestamp_def tb_steps_time unat_of_nat take_bit_eq_mod)

text \<open>
  Taken a timestamp, after any sequence of steps a timeout is reported exactly when the time
  that went by, modulo the 2^32 counts of the timer, reaches it: a wrap of the counter itself is
  harmless, only an interval of 2^32 counts or more (429 s) is misjudged.
\<close>

theorem has_expired_after_steps:
  "has_expired (fold tb_step steps tb) (get_timestamp tb) timeout
    = (unat timeout \<le> total_time steps mod 2 ^ 32)"
  by (simp add: has_expired_def word_le_nat_alt elapsed_after_steps)

lemma has_expired_no_wrap:
  "total_time steps < 2 ^ 32 \<Longrightarrow>
    has_expired (fold tb_step steps tb) (get_timestamp tb) timeout \<longleftrightarrow> unat timeout \<le> total_time steps"
  by (simp add: has_expired_def word_le_nat_alt elapsed_after_steps)

lemma has_expired_now: "has_expired tb (get_timestamp tb) timeout \<longleftrightarrow> timeout = 0"
  by (simp add: has_expired_def elapsed_since_def get_timestamp_def)

end
