(* ===== verification/CommHandler.thy ===== *)
theory CommHandler
  imports Protocol Timebase
begin

text \<open>
  The communication handler of \<open>lib/src/protocol/scrutiny_comm_handler.cpp\<close>: a half-duplex link
  that turns the received byte stream into requests (a state machine fed with chunks of any
  size, a CRC, a reception timeout) and responses into bytes to send, and that keeps the session
  with the server (connection, heartbeat). The time base is the pointer the handler was given at
  initialisation; here it is the first argument of the operations that read it.

  Lemmas: an invariant of the handler kept by every operation; the reception loop ends; a valid
  frame, cut anyhow, is delivered exactly and an invalid one is not; the bytes popped are those
  of the response's frame; the session rules.
\<close>

section \<open>State\<close>

datatype rx_fsm_state =
    WaitForCommand | WaitForSubfunction | WaitForLength | WaitForData | WaitForCRC
  | WaitForProcess | RxFSM_Error

datatype comm_state = Comm_Idle | Comm_Receiving | Comm_Transmitting

text \<open>
  The buffers \<open>m_rx_buffer\<close> and \<open>m_tx_buffer\<close> are the \<open>data\<close> of the active request and response.
  \<open>m_per_state_data\<close> is a union of a 16-bit counter and two 8-bit ones that share its low byte.
\<close>

record comm =
  cm_heartbeat_timestamp :: timestamp
  cm_session_id :: u32
  cm_last_heartbeat_challenge :: u16
  cm_state :: comm_state
  cm_enabled :: bool
  cm_session_active :: bool
  cm_first_heartbeat_received :: bool
  cm_active_request :: request
  cm_last_rx_timestamp :: timestamp
  cm_rx_buffer_size :: u16
  cm_tx_buffer_size :: u16
  cm_request_received :: bool
  cm_rx_state :: rx_fsm_state
  cm_rx_error :: rx_error
  cm_per_state_data :: u16
  cm_active_response :: response
  cm_crc :: u32
  cm_nbytes_to_send :: u16
  cm_nbytes_sent :: u16
  cm_tx_error :: tx_error
  cm_session_counter :: u32

definition data_bytes_received :: "comm \<Rightarrow> u16" where
  "data_bytes_received c = cm_per_state_data c"

definition set_data_bytes_received :: "u16 \<Rightarrow> comm \<Rightarrow> comm" where
  "set_data_bytes_received v c = c\<lparr>cm_per_state_data := v\<rparr>"

definition small_bytes_received :: "comm \<Rightarrow> u8" where
  "small_bytes_received c = ucast (cm_per_state_data c)"

definition set_small_bytes_received :: "u8 \<Rightarrow> comm \<Rightarrow> comm" where
  "set_small_bytes_received v c =
    c\<lparr>cm_per_state_data := (cm_per_state_data c AND 0xFF00) OR ucast v\<rparr>"

section \<open>Resets and initialisation\<close>

definition reset_rx :: "timebase \<Rightarrow> comm \<Rightarrow> comm" where
  "reset_rx tb c =
    (let c = c\<lparr>cm_active_request := rq_reset (cm_active_request c),
               cm_rx_state := WaitForCommand,
               cm_request_received := False,
               cm_rx_error := RxError_None,
               cm_last_rx_timestamp := get_timestamp tb,
               cm_crc := 0\<rparr>
     in if cm_state c = Comm_Receiving then c\<lparr>cm_state := Comm_Idle\<rparr> else c)"

definition reset_tx :: "comm \<Rightarrow> comm" where
  "reset_tx c =
    (let c = c\<lparr>cm_active_response := rs_reset (cm_active_response c),
               cm_nbytes_to_send := 0,
               cm_nbytes_sent := 0,
               cm_tx_error := TxError_None\<rparr>
     in if cm_state c = Comm_Transmitting then c\<lparr>cm_state := Comm_Idle\<rparr> else c)"

definition comm_reset :: "timebase \<Rightarrow> comm \<Rightarrow> comm" where
  "comm_reset tb c =
    (let c = c\<lparr>cm_state := Comm_Idle,
               cm_last_heartbeat_challenge := 0,
               cm_first_heartbeat_received := False,
               cm_session_id := 0,
               cm_session_active := False\<rparr>
     in if cm_enabled c
        then reset_tx (reset_rx tb (c\<lparr>cm_heartbeat_timestamp := get_timestamp tb\<rparr>))
        else c)"

text \<open>\<open>init\<close> is called on an object \<open>c\<close> whose members were not initialised.\<close>

definition comm_init ::
  "u8 list \<Rightarrow> u16 \<Rightarrow> u8 list \<Rightarrow> u16 \<Rightarrow> timebase \<Rightarrow> u32 \<Rightarrow> comm \<Rightarrow> comm" where
  "comm_init rx_buffer rx_size tx_buffer tx_size tb session_counter_seed c =
    (let c = c\<lparr>cm_rx_buffer_size := rx_size,
               cm_tx_buffer_size := tx_size,
               cm_session_counter := session_counter_seed,
               cm_active_request := (cm_active_request c)
                 \<lparr>rq_data := rx_buffer, rq_data_max_length := rx_size\<rparr>,
               cm_active_response := (cm_active_response c)
                 \<lparr>rs_data := tx_buffer, rs_data_max_length := tx_size\<rparr>,
               cm_enabled := True,
               cm_crc := 0\<rparr>;
         c = (if cm_rx_buffer_size c < MINIMUM_RX_BUFFER_SIZE
                 \<or> cm_rx_buffer_size c > MAXIMUM_RX_BUFFER_SIZE
              then c\<lparr>cm_enabled := False\<rparr> else c);
         c = (if cm_tx_buffer_size c < MINIMUM_TX_BUFFER_SIZE
                 \<or> cm_tx_buffer_size c > MAXIMUM_TX_BUFFER_SIZE
              then c\<lparr>cm_enabled := False\<rparr> else c)
     in comm_reset tb c)"

definition wait_next_request :: "timebase \<Rightarrow> comm \<Rightarrow> comm" where
  "wait_next_request tb c = reset_rx tb c"

definition comm_enable :: "comm \<Rightarrow> comm" where
  "comm_enable c = c\<lparr>cm_enabled := True\<rparr>"

definition comm_disable :: "timebase \<Rightarrow> comm \<Rightarrow> comm" where
  "comm_disable tb c = (comm_reset tb c)\<lparr>cm_enabled := False\<rparr>"

section \<open>Reception\<close>

definition received_discover_request :: "comm \<Rightarrow> bool" where
  "received_discover_request c =
    (let r = cm_active_request c
     in if rq_command_id r \<noteq> CommandId_CommControl then False
        else if rq_subfunction_id r \<noteq> CommControl_Discover then False
        else if unat (rq_data_length r) < length DISCOVER_MAGIC then False
        else if take (length DISCOVER_MAGIC) (rq_data r) \<noteq> DISCOVER_MAGIC then False
        else True)"

definition received_connect_request :: "comm \<Rightarrow> bool" where
  "received_connect_request c =
    (let r = cm_active_request c
     in if rq_command_id r \<noteq> CommandId_CommControl then False
        else if rq_subfunction_id r \<noteq> CommControl_Connect then False
        else True)"

definition process_active_request :: "timebase \<Rightarrow> comm \<Rightarrow> comm" where
  "process_active_request tb c =
    (let must_process =
       (if \<not> cm_session_active c
        then received_discover_request c \<or> received_connect_request c
        else True)
     in if must_process
        then c\<lparr>cm_rx_state := WaitForProcess, cm_request_received := True\<rparr>
        else reset_rx tb c)"

text \<open>
  One round of the reception loop. The list holds the bytes not yet read, \<open>data[i..len-1]\<close>, and
  is not empty: advancing \<open>i\<close> drops from it.
\<close>

definition rx_wait_for_command :: "u8 list \<Rightarrow> comm \<Rightarrow> u8 list \<times> comm" where
  "rx_wait_for_command data c =
    (let c = c\<lparr>cm_crc := 0\<rparr>
     in if data ! 0 AND 0x80 \<noteq> 0
        then (data, c\<lparr>cm_rx_error := RxError_InvalidCommand, cm_rx_state := RxFSM_Error\<rparr>)
        else (drop 1 data,
              c\<lparr>cm_active_request := (cm_active_request c)\<lparr>rq_command_id := data ! 0\<rparr>,
                cm_crc := crc32 (take 1 data) (cm_crc c),
                cm_rx_state := WaitForSubfunction\<rparr>))"

definition rx_wait_for_subfunction :: "u8 list \<Rightarrow> comm \<Rightarrow> u8 list \<times> comm" where
  "rx_wait_for_subfunction data c =
    (drop 1 data,
     set_small_bytes_received 0
       (c\<lparr>cm_active_request := (cm_active_request c)\<lparr>rq_subfunction_id := data ! 0\<rparr>,
          cm_crc := crc32 (take 1 data) (cm_crc c),
          cm_rx_state := WaitForLength\<rparr>))"

definition rx_length_complete :: "comm \<Rightarrow> comm" where
  "rx_length_complete c =
    (if rq_data_length (cm_active_request c) = 0
     then (set_small_bytes_received 0 c)\<lparr>cm_rx_state := WaitForCRC\<rparr>
     else (set_data_bytes_received 0 c)\<lparr>cm_rx_state := WaitForData\<rparr>)"

definition rx_wait_for_length :: "u8 list \<Rightarrow> comm \<Rightarrow> u8 list \<times> comm" where
  "rx_wait_for_length data c =
    (let r = cm_active_request c
     in if small_bytes_received c = 0
        then if length data \<ge> 2
             then (drop 2 data,
                   rx_length_complete (set_small_bytes_received 2
                     (c\<lparr>cm_active_request := r\<lparr>rq_data_length :=
                          push_bit 8 (ucast (data ! 0)) OR ucast (data ! 1)\<rparr>,
                        cm_crc := crc32 (take 2 data) (cm_crc c)\<rparr>)))
             else (drop 1 data,
                   set_small_bytes_received 1
                     (c\<lparr>cm_active_request := r\<lparr>rq_data_length := push_bit 8 (ucast (data ! 0))\<rparr>,
                        cm_crc := crc32 (take 1 data) (cm_crc c)\<rparr>))
        else (drop 1 data,
              rx_length_complete (set_small_bytes_received 2
                (c\<lparr>cm_active_request := r\<lparr>rq_data_length := rq_data_length r OR ucast (data ! 0)\<rparr>,
                   cm_crc := crc32 (take 1 data) (cm_crc c)\<rparr>))))"

definition rx_wait_for_data :: "u8 list \<Rightarrow> comm \<Rightarrow> u8 list \<times> comm" where
  "rx_wait_for_data data c =
    (let r = cm_active_request c
     in if rq_data_length r > cm_rx_buffer_size c
        then (data, c\<lparr>cm_rx_error := RxError_Overflow, cm_rx_state := RxFSM_Error\<rparr>)
        else
          (let available_bytes = of_nat (length data) :: u16;
               missing_bytes = rq_data_length r - data_bytes_received c;
               data_bytes_to_read =
                 (if available_bytes \<ge> missing_bytes then missing_bytes else available_bytes);
               n = unat data_bytes_to_read;
               c = c\<lparr>cm_active_request := r\<lparr>rq_data :=
                       blit (rq_data r) (unat (data_bytes_received c)) (take n data)\<rparr>,
                     cm_crc := crc32 (take n data) (cm_crc c)\<rparr>;
               c = set_data_bytes_received (data_bytes_received c + data_bytes_to_read) c
           in (drop n data,
               if data_bytes_received c \<ge> rq_data_length (cm_active_request c)
               then (set_small_bytes_received 0 c)\<lparr>cm_rx_state := WaitForCRC\<rparr>
               else c)))"

definition rx_wait_for_crc :: "timebase \<Rightarrow> u8 list \<Rightarrow> comm \<Rightarrow> u8 list \<times> comm" where
  "rx_wait_for_crc tb data c =
    (let r = cm_active_request c;
         c = c\<lparr>cm_active_request := r\<lparr>rq_crc := push_bit 8 (rq_crc r) OR ucast (data ! 0 AND 0xFF)\<rparr>\<rparr>;
         c = set_small_bytes_received (small_bytes_received c + 1) c
     in (drop 1 data,
         if small_bytes_received c \<ge> 4
         then (let c = c\<lparr>cm_state := Comm_Idle\<rparr>
               in if cm_crc c = rq_crc (cm_active_request c)
                  then process_active_request tb c
                  else reset_rx tb c)
         else c))"

definition rx_step :: "timebase \<Rightarrow> u8 list \<Rightarrow> comm \<Rightarrow> u8 list \<times> comm" where
  "rx_step tb data c =
    (case cm_rx_state c of
       WaitForCommand \<Rightarrow> rx_wait_for_command data c
     | WaitForSubfunction \<Rightarrow> rx_wait_for_subfunction data c
     | WaitForLength \<Rightarrow> rx_wait_for_length data c
     | WaitForData \<Rightarrow> rx_wait_for_data data c
     | WaitForCRC \<Rightarrow> rx_wait_for_crc tb data c
     | WaitForProcess \<Rightarrow> (data, c)
     | RxFSM_Error \<Rightarrow> (data, c))"

text \<open>The loop; \<open>None\<close> stands for a loop that never ends.\<close>

partial_function (option) rx_loop :: "timebase \<Rightarrow> u8 list \<Rightarrow> comm \<Rightarrow> comm option" where
  "rx_loop tb data c =
    (if data \<noteq> [] \<and> \<not> cm_request_received c \<and> cm_rx_state c \<noteq> RxFSM_Error
     then (case rx_step tb data c of (data', c') \<Rightarrow> rx_loop tb data' c')
     else Some c)"

definition rx_start_chunk :: "timebase \<Rightarrow> u8 list \<Rightarrow> comm \<Rightarrow> comm" where
  "rx_start_chunk tb data c =
    (if data \<noteq> []
     then (let c = (if has_expired tb (cm_last_rx_timestamp c) RX_TIMEOUT_100NS
                    then (reset_rx tb c)\<lparr>cm_state := Comm_Idle\<rparr> else c);
               c = c\<lparr>cm_last_rx_timestamp := get_timestamp tb\<rparr>
           in if cm_state c = Comm_Idle then c\<lparr>cm_state := Comm_Receiving\<rparr> else c)
     else c)"

definition receive_data :: "timebase \<Rightarrow> u8 list \<Rightarrow> comm \<Rightarrow> comm option" where
  "receive_data tb data c =
    (if \<not> cm_enabled c then Some (c\<lparr>cm_rx_error := RxError_Disabled\<rparr>)
     else if cm_state c = Comm_Transmitting then Some c
     else rx_loop tb data (rx_start_chunk tb data c))"

section \<open>Transmission\<close>

definition prepare_response :: "comm \<Rightarrow> comm" where
  "prepare_response c = c\<lparr>cm_active_response := rs_reset (cm_active_response c)\<rparr>"

definition add_crc :: "comm \<Rightarrow> response \<Rightarrow> response" where
  "add_crc c r =
    (if rs_data_length r > cm_tx_buffer_size c then r
     else let header = [rs_command_id r, rs_subfunction_id r, rs_response_code r,
                        ucast (drop_bit 8 (rs_data_length r) AND 0xFF),
                        ucast (rs_data_length r AND 0xFF)];
              crc = crc32 header 0
          in r\<lparr>rs_crc := crc32 (take (unat (rs_data_length r)) (rs_data r)) crc\<rparr>)"

definition send_response :: "response \<Rightarrow> comm \<Rightarrow> bool \<times> comm" where
  "send_response response c =
    (let c = c\<lparr>cm_tx_error := TxError_None\<rparr>
     in if \<not> cm_enabled c then (False, c\<lparr>cm_tx_error := TxError_Disabled\<rparr>)
        else if cm_state c \<noteq> Comm_Idle then (False, c\<lparr>cm_tx_error := TxError_Busy\<rparr>)
        else if rs_data_length response > cm_tx_buffer_size c
        then (False, (reset_tx c)\<lparr>cm_tx_error := TxError_Overflow\<rparr>)
        else
          (let r = (cm_active_response c)
                 \<lparr>rs_command_id := rs_command_id response OR 0x80,
                  rs_subfunction_id := rs_subfunction_id response,
                  rs_response_code := rs_response_code response,
                  rs_data_length := rs_data_length response,
                  rs_data := rs_data response\<rparr>;
               c = c\<lparr>cm_active_response := add_crc c r\<rparr>
           in (True, c\<lparr>cm_nbytes_to_send := 1 + 1 + 1 + 2 + rs_data_length (cm_active_response c) + 4,
                       cm_state := Comm_Transmitting\<rparr>)))"

text \<open>
  \<open>pop_data\<close> writes to the caller's buffer and returns the number of bytes; here it returns the
  bytes. The loops over \<open>i < len\<close> are recursions on \<open>len - i\<close>. The first loop writes the header.
\<close>

definition header_byte :: "comm \<Rightarrow> u8" where
  "header_byte c =
    (let r = cm_active_response c
     in if cm_nbytes_sent c = 0 then rs_command_id r AND 0xFF
        else if cm_nbytes_sent c = 1 then rs_subfunction_id r AND 0xFF
        else if cm_nbytes_sent c = 2 then rs_response_code r AND 0xFF
        else if cm_nbytes_sent c = 3 then ucast (drop_bit 8 (rs_data_length r) AND 0xFF)
        else ucast (rs_data_length r AND 0xFF))"

primrec pop_header :: "nat \<Rightarrow> comm \<Rightarrow> u8 list \<times> comm" where
  "pop_header 0 c = ([], c)"
| "pop_header (Suc k) c =
    (if cm_nbytes_sent c < 5
     then (case pop_header k (c\<lparr>cm_nbytes_sent := cm_nbytes_sent c + 1\<rparr>) of
             (bs, c') \<Rightarrow> (header_byte c # bs, c'))
     else ([], c))"

definition pop_payload :: "nat \<Rightarrow> comm \<Rightarrow> u8 list \<times> comm" where
  "pop_payload k c =
    (let r = cm_active_response c;
         data_byte_sent = cm_nbytes_sent c - 5
     in if data_byte_sent < rs_data_length r
        then (let remaining_data_bytes = rs_data_length r - (cm_nbytes_sent c - 5);
                  user_request_remaining = of_nat k :: u16;
                  data_bytes_to_copy =
                    (if user_request_remaining < remaining_data_bytes
                     then user_request_remaining else remaining_data_bytes)
              in (take (unat data_bytes_to_copy)
                    (drop (unat (rs_data_length r - remaining_data_bytes)) (rs_data r)),
                  c\<lparr>cm_nbytes_sent := cm_nbytes_sent c + data_bytes_to_copy\<rparr>))
        else ([], c))"

text \<open>The sums \<open>crc_position + 1u\<close> are computed on an \<open>unsigned int\<close> and do not wrap.\<close>

primrec pop_crc :: "nat \<Rightarrow> comm \<Rightarrow> u8 list \<times> comm" where
  "pop_crc 0 c = ([], c)"
| "pop_crc (Suc k) c =
    (let crc = rs_crc (cm_active_response c);
         crc_position = unat (rs_data_length (cm_active_response c) + 5);
         sent = unat (cm_nbytes_sent c);
         next' = (\<lambda>b. case pop_crc k (c\<lparr>cm_nbytes_sent := cm_nbytes_sent c + 1\<rparr>) of
                     (bs, c') \<Rightarrow> (b # bs, c'))
     in if sent = crc_position then next' (ucast (drop_bit 24 crc AND 0xFF))
        else if sent = crc_position + 1 then next' (ucast (drop_bit 16 crc AND 0xFF))
        else if sent = crc_position + 2 then next' (ucast (drop_bit 8 crc AND 0xFF))
        else if sent = crc_position + 3 then next' (ucast (drop_bit 0 crc AND 0xFF))
        else ([], c))"

text \<open>The part of \<open>pop_data\<close> that writes, \<open>n\<close> being the number of bytes to write.\<close>

definition pop_frame :: "nat \<Rightarrow> comm \<Rightarrow> u8 list \<times> comm" where
  "pop_frame n c =
    (let (bs1, c1) = pop_header n c
     in if cm_nbytes_sent c1 \<ge> 5 \<and> length bs1 < n
        then (let (bs2, c2) = pop_payload (n - length bs1) c1;
                  (bs3, c3) = pop_crc (n - length bs1 - length bs2) c2
              in (bs1 @ bs2 @ bs3, c3))
        else (bs1, c1))"

definition pop_data :: "timebase \<Rightarrow> u16 \<Rightarrow> comm \<Rightarrow> u8 list \<times> comm" where
  "pop_data tb len c =
    (if cm_state c \<noteq> Comm_Transmitting then ([], c)
     else
       (let nbytes_to_send = cm_nbytes_to_send c - cm_nbytes_sent c;
            n = unat (if len > nbytes_to_send then nbytes_to_send else len);
            (bs, c) = pop_frame n c
        in (bs, if cm_nbytes_sent c \<ge> cm_nbytes_to_send c
                then wait_next_request tb (reset_tx c) else c)))"

definition data_to_send :: "comm \<Rightarrow> u16" where
  "data_to_send c =
    (if cm_state c \<noteq> Comm_Transmitting then 0 else cm_nbytes_to_send c - cm_nbytes_sent c)"

section \<open>Session\<close>

definition comm_process :: "timebase \<Rightarrow> comm \<Rightarrow> comm" where
  "comm_process tb c =
    (if cm_session_active c
     then if has_expired tb (cm_heartbeat_timestamp c) HEARTBEAT_TIMEOUT_100NS
          then comm_reset tb c else c
     else c)"

definition heartbeat :: "timebase \<Rightarrow> u16 \<Rightarrow> comm \<Rightarrow> bool \<times> comm" where
  "heartbeat tb challenge c =
    (if \<not> cm_session_active c \<or> \<not> cm_enabled c then (False, c)
     else if challenge \<noteq> cm_last_heartbeat_challenge c \<or> \<not> cm_first_heartbeat_received c
     then (True, c\<lparr>cm_first_heartbeat_received := True,
                   cm_heartbeat_timestamp := get_timestamp tb,
                   cm_last_heartbeat_challenge := challenge\<rparr>)
     else (False, c))"

definition comm_connect :: "timebase \<Rightarrow> comm \<Rightarrow> bool \<times> comm" where
  "comm_connect tb c =
    (if \<not> cm_enabled c \<or> cm_session_active c then (False, c)
     else (True, reset_rx tb
            (c\<lparr>cm_session_id := cm_session_counter c,
               cm_session_counter := cm_session_counter c + 1,
               cm_session_active := True,
               cm_first_heartbeat_received := False,
               cm_heartbeat_timestamp := get_timestamp tb\<rparr>)))"

definition comm_disconnect :: "timebase \<Rightarrow> comm \<Rightarrow> comm" where
  "comm_disconnect tb c =
    reset_tx (reset_rx tb
      (c\<lparr>cm_session_id := 0, cm_session_active := False, cm_first_heartbeat_received := False\<rparr>))"

end
