(* ===== verification/CommReceive.thy ===== *)
theory CommReceive
  imports CommHandler
begin

text \<open>
  Reception: the invariant of the receiving state machine, the end of its loop, and what it makes
  of a frame that arrives in chunks. \<open>rx_at\<close> says what the handler holds after the first
  \<open>n\<close> bytes of a frame; a round of the loop moves it forward, so the way the frame was cut does
  not matter.
\<close>

section \<open>The union of counters\<close>

lemma small_set_small [comm_simps]: "small_bytes_received (set_small_bytes_received v c) = v"
  unfolding small_bytes_received_def set_small_bytes_received_def
  by (simp add: codec_simps) (auto intro!: bit_word_eqI simp: byte_bits)

lemma data_set_data [comm_simps]: "data_bytes_received (set_data_bytes_received v c) = v"
  by (simp add: data_bytes_received_def set_data_bytes_received_def)

lemma set_small_fields [comm_simps]:
  "cm_state (set_small_bytes_received v c) = cm_state c"
  "cm_enabled (set_small_bytes_received v c) = cm_enabled c"
  "cm_session_active (set_small_bytes_received v c) = cm_session_active c"
  "cm_active_request (set_small_bytes_received v c) = cm_active_request c"
  "cm_rx_buffer_size (set_small_bytes_received v c) = cm_rx_buffer_size c"
  "cm_request_received (set_small_bytes_received v c) = cm_request_received c"
  "cm_rx_state (set_small_bytes_received v c) = cm_rx_state c"
  "cm_crc (set_small_bytes_received v c) = cm_crc c"
  by (simp_all add: set_small_bytes_received_def)

lemma set_data_fields [comm_simps]:
  "cm_state (set_data_bytes_received v c) = cm_state c"
  "cm_enabled (set_data_bytes_received v c) = cm_enabled c"
  "cm_session_active (set_data_bytes_received v c) = cm_session_active c"
  "cm_active_request (set_data_bytes_received v c) = cm_active_request c"
  "cm_rx_buffer_size (set_data_bytes_received v c) = cm_rx_buffer_size c"
  "cm_request_received (set_data_bytes_received v c) = cm_request_received c"
  "cm_rx_state (set_data_bytes_received v c) = cm_rx_state c"
  "cm_crc (set_data_bytes_received v c) = cm_crc c"
  by (simp_all add: set_data_bytes_received_def)

lemma counters_update [comm_simps]:
  "small_bytes_received (c\<lparr>cm_rx_state := s\<rparr>) = small_bytes_received c"
  "data_bytes_received (c\<lparr>cm_rx_state := s\<rparr>) = data_bytes_received c"
  "small_bytes_received (c\<lparr>cm_active_request := r\<rparr>) = small_bytes_received c"
  "data_bytes_received (c\<lparr>cm_active_request := r\<rparr>) = data_bytes_received c"
  "small_bytes_received (c\<lparr>cm_crc := k\<rparr>) = small_bytes_received c"
  "data_bytes_received (c\<lparr>cm_crc := k\<rparr>) = data_bytes_received c"
  by (simp_all add: small_bytes_received_def data_bytes_received_def)

section \<open>What the handler holds inside a frame\<close>

definition crc_so_far :: "u8 list \<Rightarrow> u32" where
  "crc_so_far bs = foldl (\<lambda>v b. push_bit 8 v OR ucast (b AND 0xFF)) 0 bs"

lemma crc_so_far_snoc: "crc_so_far (bs @ [b]) = push_bit 8 (crc_so_far bs) OR ucast (b AND 0xFF)"
  by (simp add: crc_so_far_def)

lemma crc_so_far_Nil [simp]: "crc_so_far [] = 0"
  by (simp add: crc_so_far_def)

lemma crc_so_far_decode: "length cb = 4 \<Longrightarrow> crc_so_far cb = decode_32_bits_big_endian cb"
proof -
  assume "length cb = 4"
  then obtain a b c d where cb: "cb = [a, b, c, d]" using length_4 by blast
  show ?thesis
    unfolding cb crc_so_far_def decode_32_bits_big_endian_def byte_codec_simps
    by (rule u32_eq_bytes) (simp_all add: byte_bits)
qed

text \<open>The frame of a command, a subfunction, a payload and four CRC bytes, valid or not.\<close>

definition raw_frame :: "u8 \<Rightarrow> u8 \<Rightarrow> u8 list \<Rightarrow> u8 list \<Rightarrow> u8 list" where
  "raw_frame cmd subfn payload cb = request_body cmd subfn payload @ cb"

definition rx_at :: "u8 \<Rightarrow> u8 \<Rightarrow> u8 list \<Rightarrow> u8 list \<Rightarrow> nat \<Rightarrow> comm \<Rightarrow> bool" where
  "rx_at cmd subfn payload cb n c =
    (let r = cm_active_request c; len = length payload
     in \<not> cm_request_received c
      \<and> rq_crc r = crc_so_far (take (n - (4 + len)) cb)
      \<and> (1 \<le> n \<longrightarrow> cm_crc c = crc32 (take n (request_body cmd subfn payload)) 0
                 \<and> rq_command_id r = cmd)
      \<and> (2 \<le> n \<longrightarrow> rq_subfunction_id r = subfn)
      \<and> (4 \<le> n \<longrightarrow> rq_data_length r = of_nat len
                 \<and> take (min (n - 4) len) (rq_data r) = take (n - 4) payload)
      \<and> cm_rx_state c =
          (if n = 0 then WaitForCommand else if n = 1 then WaitForSubfunction
           else if n < 4 then WaitForLength else if n < 4 + len then WaitForData
           else WaitForCRC)
      \<and> (n = 2 \<longrightarrow> small_bytes_received c = 0)
      \<and> (n = 3 \<longrightarrow> small_bytes_received c = 1
                 \<and> rq_data_length r = push_bit 8 (ucast (request_body cmd subfn payload ! 2)))
      \<and> (4 \<le> n \<and> n < 4 + len \<longrightarrow> data_bytes_received c = of_nat (n - 4))
      \<and> (4 + len \<le> n \<longrightarrow> small_bytes_received c = of_nat (n - 4 - len)))"

text \<open>Only the fields of the reception in progress change.\<close>

definition rx_frame :: "comm \<Rightarrow> comm \<Rightarrow> bool" where
  "rx_frame c c' =
    (c'\<lparr>cm_active_request := cm_active_request c, cm_per_state_data := cm_per_state_data c,
        cm_crc := cm_crc c, cm_rx_state := cm_rx_state c\<rparr> = c
     \<and> length (rq_data (cm_active_request c')) = length (rq_data (cm_active_request c)))"

lemma rx_frame_update [comm_simps]:
  "rx_frame c (set_small_bytes_received v c') = rx_frame c c'"
  "rx_frame c (set_data_bytes_received v' c') = rx_frame c c'"
  "rx_frame c (c'\<lparr>cm_crc := k\<rparr>) = rx_frame c c'"
  "rx_frame c (c'\<lparr>cm_rx_state := s\<rparr>) = rx_frame c c'"
  "length (rq_data r) = length (rq_data (cm_active_request c')) \<Longrightarrow>
    rx_frame c (c'\<lparr>cm_active_request := r\<rparr>) = rx_frame c c'"
  by (simp_all add: rx_frame_def set_small_bytes_received_def set_data_bytes_received_def)

lemma rx_frame_refl [comm_simps]: "rx_frame c c"
  by (simp add: rx_frame_def)

lemma rx_frame_trans: "rx_frame a b \<Longrightarrow> rx_frame b c \<Longrightarrow> rx_frame a c"
  unfolding rx_frame_def by (cases a, cases b, cases c) simp

lemma rx_frame_fields:
  assumes "rx_frame c c'"
  shows "cm_state c' = cm_state c" "cm_enabled c' = cm_enabled c"
    "cm_session_active c' = cm_session_active c" "cm_rx_buffer_size c' = cm_rx_buffer_size c"
    "cm_request_received c' = cm_request_received c"
    "cm_last_rx_timestamp c' = cm_last_rx_timestamp c"
    "length (rq_data (cm_active_request c')) = length (rq_data (cm_active_request c))"
    "cm_active_response c' = cm_active_response c"
    "cm_session_id c' = cm_session_id c" "cm_rx_error c' = cm_rx_error c"
  using assms unfolding rx_frame_def by (cases c, cases c', simp)+

text \<open>The reception buffer can take the payload, and the frame starts with a valid command.\<close>

definition rx_fits :: "u8 \<Rightarrow> u8 list \<Rightarrow> u8 list \<Rightarrow> comm \<Rightarrow> bool" where
  "rx_fits cmd payload cb c =
    (cmd AND 0x80 = 0 \<and> length cb = 4 \<and> length payload \<le> unat (cm_rx_buffer_size c)
     \<and> length (rq_data (cm_active_request c)) = unat (cm_rx_buffer_size c)
     \<and> cm_rx_buffer_size c \<le> MAXIMUM_RX_BUFFER_SIZE)"

lemma rx_fits_frame: "rx_frame c c' \<Longrightarrow> rx_fits cmd payload cb c \<Longrightarrow> rx_fits cmd payload cb c'"
  by (simp add: rx_fits_def rx_frame_fields)

section \<open>One round of the loop\<close>

text \<open>A round reads \<open>k\<close> bytes, between 1 and all, and moves the handler forward by them.\<close>

definition rx_advances ::
  "timebase \<Rightarrow> u8 \<Rightarrow> u8 \<Rightarrow> u8 list \<Rightarrow> u8 list \<Rightarrow> nat \<Rightarrow> u8 list \<Rightarrow> comm \<Rightarrow> bool" where
  "rx_advances tb cmd subfn payload cb n data c =
    (\<exists>k c'. 0 < k \<and> k \<le> length data \<and> n + k < 8 + length payload \<and> rx_step tb data c = (drop k data, c')
      \<and> rx_at cmd subfn payload cb (n + k) c' \<and> rx_frame c c')"

lemma body_nths:
  "request_body cmd subfn payload ! 0 = cmd" "request_body cmd subfn payload ! Suc 0 = subfn"
  "request_body cmd subfn payload =
    cmd # subfn # ucast (drop_bit 8 (of_nat (length payload) :: u16)) # ucast (of_nat (length payload) :: u16) # payload"
  unfolding request_body_def encode_16_bits_big_endian_def byte_codec_simps by simp_all

lemma crc_take_step:
  "crc32 (take k (drop n bs)) (crc32 (take n bs) v) = crc32 (take (n + k) bs) v"
  by (simp add: take_add crc32_append)

lemma crc_snoc_rev: "crc32 [x] (crc32 xs v) = crc32 (xs @ [x]) v"
  by (simp add: crc32_append)

lemma rx_step_command:
  assumes "rx_at cmd subfn payload cb 0 c" "data \<noteq> []" "data ! 0 = cmd" "cmd AND 0x80 = 0"
  shows "rx_advances tb cmd subfn payload cb 0 data c"
proof -
  obtain ds where data: "data = cmd # ds" using assms by (cases data) auto
  show ?thesis
    unfolding rx_advances_def
    by (rule exI [of _ 1], rule exI [of _ "snd (rx_step tb data c)"])
      (use assms in \<open>simp add: data rx_step_def rx_wait_for_command_def rx_at_def Let_def comm_simps
        body_nths(3)\<close>)
qed

lemma rx_step_subfunction:
  assumes "rx_at cmd subfn payload cb 1 c" "data \<noteq> []" "data ! 0 = subfn"
  shows "rx_advances tb cmd subfn payload cb 1 data c"
proof -
  obtain ds where data: "data = subfn # ds" using assms by (cases data) auto
  show ?thesis
    unfolding rx_advances_def
    by (rule exI [of _ 1], rule exI [of _ "snd (rx_step tb data c)"])
      (use assms in \<open>simp add: data rx_step_def rx_wait_for_subfunction_def rx_at_def Let_def
        body_nths(3) comm_simps crc_snoc_rev numeral_2_eq_2\<close>)
qed

lemma u16_of_bytes: "push_bit 8 (ucast (ucast (drop_bit 8 w) :: u8)) OR ucast (ucast w :: u8) = w"
  for w :: u16
  by (rule u16_eq_bytes) (simp_all add: byte_bits)

lemma of_nat_u16_0: "len < 65536 \<Longrightarrow> (of_nat len :: u16) = 0 \<longleftrightarrow> len = 0"
  using unat_of_nat_u16 [of len] by (metis unat_eq_0 of_nat_0)

lemma rx_length_complete_at:
  assumes "rq_data_length (cm_active_request c) = of_nat (length payload)" "length payload < 65536"
    "\<not> cm_request_received c" "rq_crc (cm_active_request c) = 0"
    "cm_crc c = crc32 (take 4 (request_body cmd subfn payload)) 0"
    "rq_command_id (cm_active_request c) = cmd" "rq_subfunction_id (cm_active_request c) = subfn"
  shows "rx_at cmd subfn payload cb 4 (rx_length_complete c)"
  using assms by (simp add: rx_length_complete_def rx_at_def Let_def comm_simps of_nat_u16_0)

lemma rx_frame_length_complete [comm_simps]:
  "rx_frame c (rx_length_complete c') = rx_frame c c'"
  by (simp add: rx_length_complete_def comm_simps)

lemma rx_step_length_1:
  assumes at: "rx_at cmd subfn payload cb 2 c" and len: "length payload < 65536"
    and data: "data = [request_body cmd subfn payload ! 2]"
  shows "rx_advances tb cmd subfn payload cb 2 data c"
  unfolding rx_advances_def
  by (rule exI [of _ 1], rule exI [of _ "snd (rx_step tb data c)"])
    (use at in \<open>simp add: data rx_step_def rx_wait_for_length_def rx_at_def Let_def comm_simps
      body_nths(3) crc_snoc_rev numeral_2_eq_2 numeral_3_eq_3\<close>)

lemma rx_step_length_2:
  assumes at: "rx_at cmd subfn payload cb 2 c" and len: "length payload < 65536"
    and data: "data = request_body cmd subfn payload ! 2 # request_body cmd subfn payload ! 3 # ds"
  shows "rx_advances tb cmd subfn payload cb 2 data c"
proof -
  let ?hi = "request_body cmd subfn payload ! 2" and ?lo = "request_body cmd subfn payload ! 3"
  let ?b = "cm_active_request c"
  define c1 where "c1 = set_small_bytes_received 2
    (c\<lparr>cm_active_request := ?b\<lparr>rq_data_length := push_bit 8 (ucast ?hi) OR ucast ?lo\<rparr>,
       cm_crc := crc32 [?hi, ?lo] (cm_crc c)\<rparr>)"
  have step: "rx_step tb data c = (ds, rx_length_complete c1)"
    using at by (simp add: c1_def data rx_step_def rx_wait_for_length_def rx_at_def Let_def)
  have crc: "crc32 [?hi, ?lo] (cm_crc c) = crc32 (take 4 (request_body cmd subfn payload)) 0"
    using at crc_take_step [of 2 2 "request_body cmd subfn payload" 0]
    by (simp add: rx_at_def Let_def body_nths(3) numeral_eq_Suc)
  have "rx_at cmd subfn payload cb 4 (rx_length_complete c1)"
    by (rule rx_length_complete_at)
      (use at len crc in \<open>simp_all add: c1_def comm_simps rx_at_def Let_def body_nths(3) u16_of_bytes\<close>)
  moreover have "rx_frame c (rx_length_complete c1)"
    by (simp add: c1_def comm_simps)
  ultimately show ?thesis
    unfolding rx_advances_def using step
    by (intro exI [of _ 2] exI [of _ "rx_length_complete c1"]) (simp add: data)
qed

lemma rx_step_length_3:
  assumes at: "rx_at cmd subfn payload cb 3 c" and len: "length payload < 65536"
    and data: "data = request_body cmd subfn payload ! 3 # ds"
  shows "rx_advances tb cmd subfn payload cb 3 data c"
proof -
  let ?lo = "request_body cmd subfn payload ! 3" and ?b = "cm_active_request c"
  define c1 where "c1 = set_small_bytes_received 2
    (c\<lparr>cm_active_request := ?b\<lparr>rq_data_length := rq_data_length ?b OR ucast ?lo\<rparr>,
       cm_crc := crc32 [?lo] (cm_crc c)\<rparr>)"
  have step: "rx_step tb data c = (ds, rx_length_complete c1)"
    using at by (simp add: c1_def data rx_step_def rx_wait_for_length_def rx_at_def Let_def)
  have crc: "crc32 [?lo] (cm_crc c) = crc32 (take 4 (request_body cmd subfn payload)) 0"
    using at crc_take_step [of 1 3 "request_body cmd subfn payload" 0]
    by (simp add: rx_at_def Let_def body_nths(3) numeral_eq_Suc)
  have "rx_at cmd subfn payload cb 4 (rx_length_complete c1)"
    by (rule rx_length_complete_at)
      (use at len crc in \<open>simp_all add: c1_def comm_simps rx_at_def Let_def body_nths(3) u16_of_bytes\<close>)
  moreover have "rx_frame c (rx_length_complete c1)"
    by (simp add: c1_def comm_simps)
  ultimately show ?thesis
    unfolding rx_advances_def using step
    by (intro exI [of _ 1] exI [of _ "rx_length_complete c1"]) (simp add: data)
qed

lemma drop_body: "4 \<le> n \<Longrightarrow> drop n (request_body cmd subfn payload) = drop (n - 4) payload"
proof -
  assume "4 \<le> n"
  then obtain k where "n = 4 + k" using le_Suc_ex by blast
  then show ?thesis by (simp add: body_nths(3) numeral_eq_Suc)
qed

lemma unat_sub_of_nat_u16:
  "a \<le> b \<Longrightarrow> b < 65536 \<Longrightarrow> unat (of_nat b - of_nat a :: u16) = b - a"
  by (metis diff_le_self of_nat_diff order_le_less_trans unat_of_nat_u16)

lemma rx_step_data:
  assumes at: "rx_at cmd subfn payload cb n c" and n: "4 \<le> n" "n < 4 + length payload"
    and fits: "rx_fits cmd payload cb c"
    and data: "data \<noteq> []" "length data < 65536" "drop (n - 4) (payload @ cb) = data @ rest"
  shows "rx_advances tb cmd subfn payload cb n data c"
proof -
  let ?r = "cm_active_request c" and ?len = "length payload"
  let ?body = "request_body cmd subfn payload"
  define m where "m = n - 4"
  define k where "k = min (length data) (?len - m)"
  have m: "m < ?len" "n = m + 4" using n by (auto simp: m_def)
  have len: "?len \<le> unat (cm_rx_buffer_size c)" "?len < 65536"
    "length (rq_data ?r) = unat (cm_rx_buffer_size c)"
    using fits by (auto simp: rx_fits_def intro: le_less_trans [OF _ unat_u16_lt])
  have k: "0 < k" "k \<le> length data" "m + k \<le> ?len" "k < 65536"
    using m data by (auto simp: k_def)
  have taken: "take k data = take k (drop m payload)"
  proof -
    have "take k data = take k (data @ rest)" using k by simp
    also have "\<dots> = take k (drop m payload @ drop (m - ?len) cb)"
      using data(3) by (simp only: m_def [symmetric] drop_append)
    also have "\<dots> = take k (drop m payload)" using k by simp
    finally show ?thesis .
  qed
  from at m len have flds: "rq_data_length ?r = of_nat ?len" "data_bytes_received c = of_nat m"
    "take m (rq_data ?r) = take m payload" "cm_crc c = crc32 (take n ?body) 0"
    "cm_rx_state c = WaitForData" "\<not> cm_request_received c" "rq_crc ?r = 0"
    "rq_command_id ?r = cmd" "rq_subfunction_id ?r = subfn"
    by (auto simp: rx_at_def Let_def)
  define c1 where "c1 = set_data_bytes_received (of_nat (m + k))
    (c\<lparr>cm_active_request := ?r\<lparr>rq_data := blit (rq_data ?r) m (take k data)\<rparr>,
       cm_crc := crc32 (take k data) (cm_crc c)\<rparr>)"
  define c2 where "c2 = (if m + k \<ge> ?len
    then (set_small_bytes_received 0 c1)\<lparr>cm_rx_state := WaitForCRC\<rparr> else c1)"
  have read: "(if (of_nat (length data) :: u16) \<ge> of_nat ?len - of_nat m then of_nat ?len - of_nat m
      else of_nat (length data) :: u16) = of_nat k"
    by (rule word_unat_eq_iff [THEN iffD2])
      (use m len data k in \<open>auto simp: k_def word_le_nat_alt unat_sub_of_nat_u16 min_def\<close>)
  have full: "(of_nat ?len :: u16) \<le> of_nat m + of_nat k \<longleftrightarrow> ?len \<le> m + k"
    using k len by (simp add: word_le_nat_alt flip: of_nat_add)
  have kle: "(of_nat k :: u16) \<le> of_nat (length data)"
    using k data by (simp add: word_le_nat_alt)
  have "\<not> rq_data_length ?r > cm_rx_buffer_size c"
    using len flds by (simp add: word_less_nat_alt)
  then have "rx_step tb data c = (drop k data, c2)"
    using flds len k m
    by (simp add: rx_step_def rx_wait_for_data_def Let_def read full kle c2_def c1_def comm_simps)
  moreover have "rx_at cmd subfn payload cb (n + k) c2"
  proof -
    have crc: "crc32 (take k data) (cm_crc c) = crc32 (take (n + k) ?body) 0"
      using crc_take_step [of k n ?body 0] flds m by (simp add: taken drop_body)
    have buf: "take (m + k) (blit (rq_data ?r) m (take k data)) = take (m + k) payload"
      using take_blit_append [OF flds(3), of "m + k" "take k data"] m k len
      by (simp add: taken take_add)
    show ?thesis
      using flds m k crc buf
      by (auto simp: rx_at_def Let_def c2_def c1_def comm_simps)
  qed
  moreover have "rx_frame c c2"
    using m k len by (simp add: c2_def c1_def comm_simps)
  ultimately show ?thesis
    using k m unfolding rx_advances_def
    by (intro exI [of _ k] exI [of _ c2]) simp
qed

lemma small_count: "q < 3 \<Longrightarrow> (of_nat q + 1 :: u8) \<ge> 4 \<longleftrightarrow> False"
proof -
  assume "q < 3"
  then consider "q = 0" | "q = 1" | "q = 2" by linarith
  then show ?thesis by cases (simp_all add: word_le_nat_alt)
qed

lemma rx_step_crc:
  assumes at: "rx_at cmd subfn payload cb n c" and n: "n = 4 + length payload + q" "q < 3"
    and data: "data = cb ! q # ds" and cb: "length cb = 4"
  shows "rx_advances tb cmd subfn payload cb n data c"
proof -
  have crc: "crc_so_far (take (Suc q) cb) = push_bit 8 (crc_so_far (take q cb)) OR ucast (cb ! q)"
    using n cb by (simp add: take_Suc_conv_app_nth crc_so_far_snoc)
  show ?thesis
    unfolding rx_advances_def
    by (rule exI [of _ 1], rule exI [of _ "snd (rx_step tb data c)"])
      (use at n crc in \<open>simp add: data rx_step_def rx_wait_for_crc_def rx_at_def Let_def comm_simps
        small_count add.commute [of 1] length_request_body\<close>)
qed

text \<open>The handler holding a whole frame, its CRC still to be judged.\<close>

definition rx_complete :: "u8 \<Rightarrow> u8 \<Rightarrow> u8 list \<Rightarrow> u8 list \<Rightarrow> comm \<Rightarrow> bool" where
  "rx_complete cmd subfn payload cb c =
    (let r = cm_active_request c
     in \<not> cm_request_received c \<and> cm_state c = Comm_Idle
      \<and> rq_command_id r = cmd \<and> rq_subfunction_id r = subfn
      \<and> rq_data_length r = of_nat (length payload)
      \<and> take (length payload) (rq_data r) = payload
      \<and> cm_crc c = crc32 (request_body cmd subfn payload) 0
      \<and> rq_crc r = decode_32_bits_big_endian cb)"

definition rx_judge :: "timebase \<Rightarrow> comm \<Rightarrow> comm" where
  "rx_judge tb c =
    (if cm_crc c = rq_crc (cm_active_request c) then process_active_request tb c else reset_rx tb c)"

lemma rx_step_crc_last:
  assumes at: "rx_at cmd subfn payload cb (7 + length payload) c"
    and data: "data = cb ! 3 # ds" and cb: "length cb = 4"
  shows "\<exists>c0. rx_step tb data c = (ds, rx_judge tb c0) \<and> rx_complete cmd subfn payload cb c0
    \<and> rx_frame (c\<lparr>cm_state := Comm_Idle\<rparr>) c0"
proof -
  let ?r = "cm_active_request c"
  define c0 where "c0 = (set_small_bytes_received 4 (c\<lparr>cm_active_request :=
    ?r\<lparr>rq_crc := push_bit 8 (rq_crc ?r) OR ucast (cb ! 3)\<rparr>\<rparr>))\<lparr>cm_state := Comm_Idle\<rparr>"
  have crc: "push_bit 8 (crc_so_far (take 3 cb)) OR ucast (cb ! 3) = decode_32_bits_big_endian cb"
    using cb crc_so_far_decode [OF cb] crc_so_far_snoc [of "take 3 cb" "cb ! 3"]
    by (simp add: take_Suc_conv_app_nth [of 3 cb, symmetric])
  have step: "rx_step tb data c = (ds, rx_judge tb c0)"
    using at by (simp add: data c0_def rx_judge_def rx_step_def rx_wait_for_crc_def rx_at_def
        Let_def comm_simps numeral_eq_Suc)
  have "rx_complete cmd subfn payload cb c0"
    using at crc cb by (simp add: c0_def rx_complete_def rx_at_def Let_def comm_simps length_request_body)
  moreover have "rx_frame (c\<lparr>cm_state := Comm_Idle\<rparr>) c0"
    by (simp add: c0_def rx_frame_def set_small_bytes_received_def)
  ultimately show ?thesis using step by blast
qed

section \<open>The loop\<close>

text \<open>One round, anywhere before the last byte of the frame.\<close>

lemma rx_step_at:
  assumes at: "rx_at cmd subfn payload cb n c" and fits: "rx_fits cmd payload cb c"
    and data: "data \<noteq> []" "raw_frame cmd subfn payload cb = take n (raw_frame cmd subfn payload cb) @ data @ rest"
    and n: "n < 7 + length payload"
  shows "rx_advances tb cmd subfn payload cb n data c"
proof -
  let ?f = "raw_frame cmd subfn payload cb" and ?len = "length payload"
  have lens: "length cb = 4" "length payload < 65520" "length ?f = 8 + ?len"
    using fits by (auto simp: rx_fits_def raw_frame_def length_request_body word_le_nat_alt)
  have suffix: "drop n ?f = data @ rest"
    using data(2) n lens by (metis append_eq_conv_conj append_take_drop_id append_Nil2 same_append_eq)
  have short: "length data < 65536"
    using arg_cong [OF data(2), of length] lens n by simp
  have nth: "data ! i = ?f ! (n + i)" if "i < length data" for i
  proof -
    have "data ! i = (drop n ?f) ! i" using that by (simp add: suffix nth_append)
    also have "\<dots> = ?f ! (n + i)" using n lens by simp
    finally show ?thesis .
  qed
  have hd: "data ! 0 = ?f ! n" and data_Cons: "data = ?f ! n # tl data"
    using nth [of 0] data(1) by (simp_all add: neq_Nil_conv) auto
  have body: "?f ! i = request_body cmd subfn payload ! i" if "i < 4" for i
    using that by (simp add: raw_frame_def nth_append length_request_body)
  consider "n = 0" | "n = 1" | "n = 2" | "n = 3" | "4 \<le> n" "n < 4 + ?len" | "4 + ?len \<le> n"
    by linarith
  then show ?thesis
  proof cases
    case 1
    then show ?thesis
      using at hd data fits body [of 0] by (auto intro!: rx_step_command simp: rx_fits_def body_nths)
  next
    case 2
    have "data ! 0 = subfn" using 2 hd body [of 1] by (simp add: body_nths)
    then show ?thesis using at data(1) unfolding 2 by (intro rx_step_subfunction)
  next
    case 3
    show ?thesis
    proof (cases "length data = 1")
      case True
      then have "data = [request_body cmd subfn payload ! 2]"
        using data_Cons 3 body [of 2] by (cases data) auto
      then show ?thesis using rx_step_length_1 at lens 3 by simp
    next
      case False
      with data(1) have "2 \<le> length data" by (cases data) (auto simp: Suc_le_eq)
      then obtain a b ds where ds: "data = a # b # ds"
        by (cases data; cases "tl data") auto
      then have "data = request_body cmd subfn payload ! 2 # request_body cmd subfn payload ! 3 # ds"
        using nth [of 0] nth [of 1] body [of 2] body [of 3] 3 by simp
      then show ?thesis using rx_step_length_2 at lens 3 by simp
    qed
  next
    case 4
    then have "data = request_body cmd subfn payload ! 3 # tl data"
      using data_Cons body [of 3] by simp
    then show ?thesis using at lens unfolding 4 by (intro rx_step_length_3) simp_all
  next
    case 5
    have "drop (n - 4) (payload @ cb) = data @ rest"
      using suffix 5 by (simp add: raw_frame_def drop_body length_request_body)
    with 5 at fits data short show ?thesis by (intro rx_step_data)
  next
    case 6
    then obtain q where q: "n = 4 + ?len + q" using le_Suc_ex by blast
    with n have "q < 3" by simp
    moreover have "data = cb ! q # tl data"
      using data_Cons q lens by (simp add: raw_frame_def nth_append length_request_body)
    ultimately show ?thesis using rx_step_crc at q lens by blast
  qed
qed

lemma take_drop_glue: "take k xs @ drop k xs @ ys = xs @ ys"
  by (metis append.assoc append_take_drop_id)

text \<open>The loop on a chunk that ends before the frame does.\<close>

lemma rx_loop_done: "data = [] \<or> cm_request_received c \<or> cm_rx_state c = RxFSM_Error \<Longrightarrow>
    rx_loop tb data c = Some c"
  by (subst rx_loop.simps) auto

lemma rx_loop_step:
  "data \<noteq> [] \<Longrightarrow> \<not> cm_request_received c \<Longrightarrow> cm_rx_state c \<noteq> RxFSM_Error \<Longrightarrow>
    rx_step tb data c = (data', c') \<Longrightarrow> rx_loop tb data c = rx_loop tb data' c'"
  by (subst rx_loop.simps) simp

lemma rx_at_running:
  "rx_at cmd subfn payload cb n c \<Longrightarrow> \<not> cm_request_received c \<and> cm_rx_state c \<noteq> RxFSM_Error"
  by (simp add: rx_at_def Let_def)

lemma rx_loop_within:
  assumes "rx_at cmd subfn payload cb n c" "rx_fits cmd payload cb c"
    "raw_frame cmd subfn payload cb = take n (raw_frame cmd subfn payload cb) @ data @ rest"
    "rest \<noteq> []"
  shows "\<exists>c'. rx_loop tb data c = Some c' \<and> rx_at cmd subfn payload cb (n + length data) c'
    \<and> rx_frame c c'"
  using assms
proof (induction "length data" arbitrary: n data c rule: less_induct)
  case less
  let ?f = "raw_frame cmd subfn payload cb"
  have len: "length ?f = 8 + length payload"
    using less.prems(2) by (simp add: rx_fits_def raw_frame_def length_request_body)
  show ?case
  proof (cases "data = []")
    case True
    with less.prems show ?thesis by (simp add: rx_loop_done rx_frame_refl)
  next
    case False
    have "n + length data < length ?f"
      using arg_cong [OF less.prems(3), of length] len less.prems(4)
      by (cases "n \<le> length ?f") (auto simp: neq_Nil_conv)
    with len False have n: "n < 7 + length payload" by (cases data) auto
    obtain k c' where k: "0 < k" "k \<le> length data" "rx_step tb data c = (drop k data, c')"
      "rx_at cmd subfn payload cb (n + k) c'" "rx_frame c c'"
      using rx_step_at [OF less.prems(1,2) False less.prems(3) n] unfolding rx_advances_def by blast
    have "take (n + k) ?f = take n ?f @ take k (drop n ?f)" by (rule take_add)
    moreover have "drop n ?f = data @ rest"
      using less.prems(3) n len by (metis append_take_drop_id same_append_eq)
    ultimately have split: "?f = take (n + k) ?f @ drop k data @ rest"
      using less.prems(3) k(2) by (simp add: take_drop_glue)
    have smaller: "length (drop k data) < length data" using k(1,2) by simp
    have loop: "rx_loop tb data c = rx_loop tb (drop k data) c'"
      using False rx_at_running [OF less.prems(1)] k(3) by (intro rx_loop_step) auto
    obtain c2 where "rx_loop tb (drop k data) c' = Some c2"
      "rx_at cmd subfn payload cb (n + k + length (drop k data)) c2" "rx_frame c' c2"
      using less.hyps [OF smaller k(4) rx_fits_frame [OF k(5) less.prems(2)] split less.prems(4)] k(1,2)
      by auto
    then show ?thesis
      using loop k(2,5) rx_frame_trans by fastforce
  qed
qed

text \<open>The loop on the chunk that ends the frame.\<close>

lemma rx_loop_last:
  assumes at: "rx_at cmd subfn payload cb n c" and fits: "rx_fits cmd payload cb c"
    and data: "raw_frame cmd subfn payload cb = take n (raw_frame cmd subfn payload cb) @ data"
    and "data \<noteq> []"
  shows "\<exists>c0. rx_loop tb data c = Some (rx_judge tb c0) \<and> rx_complete cmd subfn payload cb c0
    \<and> rx_frame (c\<lparr>cm_state := Comm_Idle\<rparr>) c0"
  using at fits data \<open>data \<noteq> []\<close>
proof (induction "length data" arbitrary: n data c rule: less_induct)
  case less
  let ?f = "raw_frame cmd subfn payload cb"
  have cb: "length cb = 4" using less.prems(2) by (simp add: rx_fits_def)
  have len: "length ?f = 8 + length payload"
    using cb by (simp add: raw_frame_def length_request_body)
  have n: "n + length data = length ?f"
    using arg_cong [OF less.prems(3), of length] less.prems(4)
    by (cases "n \<le> length ?f") (auto simp: neq_Nil_conv)
  show ?case
  proof (cases "length data = 1")
    case True
    with n len have n7: "n = 7 + length payload" by simp
    have "data = drop n ?f"
      using less.prems(3) n by (metis append_take_drop_id same_append_eq)
    also have "\<dots> = [cb ! 3]"
      using cb n7 length_4 [OF cb] by (simp add: raw_frame_def length_request_body)
        (metis drop0 drop_Suc_Cons numeral_3_eq_3)
    finally have "data = cb ! 3 # []" .
    from rx_step_crc_last [OF less.prems(1) [unfolded n7] this cb]
    obtain c0 where c0: "rx_step tb data c = ([], rx_judge tb c0)"
      "rx_complete cmd subfn payload cb c0" "rx_frame (c\<lparr>cm_state := Comm_Idle\<rparr>) c0" by blast
    have "rx_loop tb data c = rx_loop tb [] (rx_judge tb c0)"
      using less.prems(4) rx_at_running [OF less.prems(1)] c0(1) by (intro rx_loop_step) auto
    with c0 show ?thesis by (auto simp: rx_loop_done)
  next
    case False
    with less.prems(4) have "2 \<le> length data" by (cases data) (auto simp: Suc_le_eq)
    with n len have n7: "n < 7 + length payload" by simp
    obtain k c' where k: "0 < k" "k \<le> length data" "rx_step tb data c = (drop k data, c')"
      "rx_at cmd subfn payload cb (n + k) c'" "rx_frame c c'"
      "n + k < 8 + length payload"
      using rx_step_at [OF less.prems(1,2,4) _ n7, of "[]" tb] less.prems(3)
      unfolding rx_advances_def by auto
    have "drop n ?f = data"
      using less.prems(3) n by (metis append_take_drop_id same_append_eq)
    then have split: "?f = take (n + k) ?f @ drop k data"
      using less.prems(3) k(2) by (simp add: take_add)
    have smaller: "length (drop k data) < length data" using k(1,2) by simp
    have loop: "rx_loop tb data c = rx_loop tb (drop k data) c'"
      using less.prems(4) rx_at_running [OF less.prems(1)] k(3) by (intro rx_loop_step) auto
    have more: "drop k data \<noteq> []" using k(6) n len by simp
    obtain c0 where "rx_loop tb (drop k data) c' = Some (rx_judge tb c0)"
      "rx_complete cmd subfn payload cb c0" "rx_frame (c'\<lparr>cm_state := Comm_Idle\<rparr>) c0"
      using less.hyps [OF smaller k(4) rx_fits_frame [OF k(5) less.prems(2)] split more] k(1,2)
      by auto
    moreover have "rx_frame (c\<lparr>cm_state := Comm_Idle\<rparr>) (c'\<lparr>cm_state := Comm_Idle\<rparr>)"
      using k(5) unfolding rx_frame_def by (cases c, cases c') simp
    ultimately show ?thesis
      using loop rx_frame_trans by fastforce
  qed
qed

section \<open>Frames that arrive in chunks\<close>

text \<open>The chunks handed to \<open>receive_data\<close>, each with the time base at that moment.\<close>

fun receive_chunks :: "(timebase \<times> u8 list) list \<Rightarrow> comm \<Rightarrow> comm option" where
  "receive_chunks [] c = Some c"
| "receive_chunks ((tb, d) # cs) c =
    (case receive_data tb d c of None \<Rightarrow> None | Some c' \<Rightarrow> receive_chunks cs c')"

text \<open>No reception timeout between the bytes.\<close>

fun in_time :: "timestamp \<Rightarrow> (timebase \<times> u8 list) list \<Rightarrow> bool" where
  "in_time t [] = True"
| "in_time t ((tb, d) # cs) =
    (if d = [] then in_time t cs
     else \<not> has_expired tb t RX_TIMEOUT_100NS \<and> in_time (get_timestamp tb) cs)"

definition chunk_bytes :: "(timebase \<times> u8 list) list \<Rightarrow> u8 list" where
  "chunk_bytes cs = concat (map snd cs)"

lemma chunk_bytes_simps [simp]:
  "chunk_bytes [] = []" "chunk_bytes ((tb, d) # cs) = d @ chunk_bytes cs"
  by (simp_all add: chunk_bytes_def)

text \<open>Ready for a new frame: what every reset of the reception leaves.\<close>

definition rx_ready :: "comm \<Rightarrow> bool" where
  "rx_ready c =
    (cm_enabled c \<and> cm_state c \<noteq> Comm_Transmitting \<and> \<not> cm_request_received c
     \<and> cm_rx_state c = WaitForCommand \<and> rq_crc (cm_active_request c) = 0
     \<and> length (rq_data (cm_active_request c)) = unat (cm_rx_buffer_size c)
     \<and> cm_rx_buffer_size c \<le> MAXIMUM_RX_BUFFER_SIZE)"

lemma receive_nothing: "receive_data tb [] c = Some c" if "cm_enabled c"
  using that by (simp add: receive_data_def rx_start_chunk_def rx_loop_done)

lemma receive_chunks_nothing:
  "cm_enabled c \<Longrightarrow> chunk_bytes cs = [] \<Longrightarrow> receive_chunks cs c = Some c"
  by (induction cs) (auto simp: receive_nothing)

lemma start_chunk_in_time:
  assumes "d \<noteq> []" "\<not> has_expired tb (cm_last_rx_timestamp c) RX_TIMEOUT_100NS"
    "rx_at cmd subfn payload cb n c" "rx_fits cmd payload cb c" "cm_enabled c"
    "cm_state c \<noteq> Comm_Transmitting"
  defines "c' \<equiv> rx_start_chunk tb d c"
  shows "rx_at cmd subfn payload cb n c'" "rx_fits cmd payload cb c'" "cm_enabled c'"
    "cm_state c' \<noteq> Comm_Transmitting" "cm_last_rx_timestamp c' = get_timestamp tb"
    "cm_session_active c' = cm_session_active c"
    "receive_data tb d c = rx_loop tb d c'"
  using assms by (auto simp: rx_start_chunk_def rx_at_def rx_fits_def Let_def receive_data_def
      small_bytes_received_def data_bytes_received_def)

lemma rx_judge_enabled: "cm_enabled (rx_judge tb c) = cm_enabled c"
  by (simp add: rx_judge_def process_active_request_def reset_rx_def Let_def)

lemma receive_chunks_complete:
  assumes "rx_at cmd subfn payload cb n c" "rx_fits cmd payload cb c" "cm_enabled c"
    "cm_state c \<noteq> Comm_Transmitting" "in_time (cm_last_rx_timestamp c) cs"
    "raw_frame cmd subfn payload cb = take n (raw_frame cmd subfn payload cb) @ chunk_bytes cs"
    "chunk_bytes cs \<noteq> []"
  shows "\<exists>tb c0. receive_chunks cs c = Some (rx_judge tb c0) \<and> rx_complete cmd subfn payload cb c0
    \<and> cm_session_active c0 = cm_session_active c \<and> rx_fits cmd payload cb c0 \<and> cm_enabled c0"
  using assms
proof (induction cs arbitrary: n c)
  case Nil
  then show ?case by simp
next
  case (Cons a cs)
  obtain tb d where a: "a = (tb, d)" by force
  let ?f = "raw_frame cmd subfn payload cb"
  show ?case
  proof (cases "d = []")
    case True
    with Cons a show ?thesis by (auto simp: receive_nothing)
  next
    case False
    note start = start_chunk_in_time [OF False _ Cons.prems(1-4)]
    from Cons.prems(5) False a have "\<not> has_expired tb (cm_last_rx_timestamp c) RX_TIMEOUT_100NS"
      and later: "in_time (get_timestamp tb) cs" by simp_all
    note start = start [OF this(1)]
    let ?c = "rx_start_chunk tb d c"
    show ?thesis
    proof (cases "chunk_bytes cs = []")
      case True
      with Cons.prems(6) a have "?f = take n ?f @ d" by simp
      from rx_loop_last [OF start(1,2) this False, of tb] obtain c0 where c0:
        "rx_loop tb d ?c = Some (rx_judge tb c0)" "rx_complete cmd subfn payload cb c0"
        "rx_frame (?c\<lparr>cm_state := Comm_Idle\<rparr>) c0" by blast
      have "rx_fits cmd payload cb (?c\<lparr>cm_state := Comm_Idle\<rparr>)"
        using start(2) by (simp add: rx_fits_def)
      with rx_fits_frame [OF c0(3)] have fits: "rx_fits cmd payload cb c0" by blast
      have en: "cm_enabled c0" "cm_session_active c0 = cm_session_active c"
        using rx_frame_fields(2,3) [OF c0(3)] start(3,6) by simp_all
      then show ?thesis
        using c0 fits start(7) True a receive_chunks_nothing [of "rx_judge tb c0" cs]
        by (auto simp: rx_judge_enabled)
    next
      case more: False
      have "?f = take n ?f @ d @ chunk_bytes cs" using Cons.prems(6) a by simp
      from rx_loop_within [OF start(1,2) this more, of tb] obtain c' where c':
        "rx_loop tb d ?c = Some c'" "rx_at cmd subfn payload cb (n + length d) c'" "rx_frame ?c c'"
        by blast
      have "drop n ?f = d @ chunk_bytes cs"
        using \<open>?f = take n ?f @ d @ chunk_bytes cs\<close> more
        by (metis append_take_drop_id same_append_eq)
      then have "?f = take (n + length d) ?f @ chunk_bytes cs"
        using \<open>?f = take n ?f @ d @ chunk_bytes cs\<close> by (simp add: take_add)
      from Cons.IH [OF c'(2) rx_fits_frame [OF c'(3) start(2)] _ _ _ this more]
      show ?thesis
        using c'(1,3) start later a by (auto simp: rx_frame_fields [OF c'(3)])
    qed
  qed
qed

section \<open>What is made of a whole frame\<close>

text \<open>Without a session only a Discover request with its magic number, or a Connect, is taken.\<close>

definition opens_session :: "u8 \<Rightarrow> u8 \<Rightarrow> u8 list \<Rightarrow> bool" where
  "opens_session cmd subfn payload =
    (cmd = CommandId_CommControl
     \<and> (subfn = CommControl_Discover \<and> take 4 payload = DISCOVER_MAGIC \<or> subfn = CommControl_Connect))"

lemma discover_iff:
  assumes "rx_complete cmd subfn payload cb c" "length payload < 65536"
    "length payload \<le> length (rq_data (cm_active_request c))"
  shows "received_discover_request c \<or> received_connect_request c \<longleftrightarrow> opens_session cmd subfn payload"
proof -
  let ?r = "cm_active_request c"
  have pre: "take (length payload) (rq_data ?r) = payload"
    using assms(1) by (simp add: rx_complete_def Let_def)
  have "take 4 payload = take 4 (rq_data ?r)" if "4 \<le> length payload"
    using that by (subst pre [symmetric]) (simp add: min_def)
  moreover have "4 \<le> length payload" if "take 4 payload = DISCOVER_MAGIC"
    using arg_cong [OF that, of length] by (simp add: DISCOVER_MAGIC_def)
  moreover have "length DISCOVER_MAGIC = 4" by (simp add: DISCOVER_MAGIC_def)
  ultimately show ?thesis
    using assms by (auto simp: rx_complete_def received_discover_request_def
        received_connect_request_def opens_session_def Let_def not_less)
qed

text \<open>The request is handed to the main handler with its exact contents.\<close>

definition delivers :: "u8 \<Rightarrow> u8 \<Rightarrow> u8 list \<Rightarrow> comm \<Rightarrow> bool" where
  "delivers cmd subfn payload c =
    (let r = cm_active_request c
     in cm_request_received c \<and> cm_rx_state c = WaitForProcess \<and> cm_state c = Comm_Idle
      \<and> rq_command_id r = cmd \<and> rq_subfunction_id r = subfn
      \<and> unat (rq_data_length r) = length payload
      \<and> take (length payload) (rq_data r) = payload)"

lemma judge_delivers:
  assumes "rx_complete cmd subfn payload cb c" "length payload < 65536"
    "length payload \<le> length (rq_data (cm_active_request c))"
    "decode_32_bits_big_endian cb = crc32 (request_body cmd subfn payload) 0"
    "cm_session_active c \<or> opens_session cmd subfn payload"
  shows "delivers cmd subfn payload (rx_judge tb c)"
  using assms discover_iff [OF assms(1-3)]
  by (auto simp: delivers_def rx_judge_def process_active_request_def rx_complete_def Let_def)

lemma judge_drops:
  assumes "rx_complete cmd subfn payload cb c" "rx_fits cmd payload cb c" "cm_enabled c"
    "decode_32_bits_big_endian cb \<noteq> crc32 (request_body cmd subfn payload) 0
     \<or> \<not> cm_session_active c \<and> \<not> opens_session cmd subfn payload"
  shows "rx_ready (rx_judge tb c)"
proof -
  have len: "length payload < 65536"
    using assms(2) by (auto simp: rx_fits_def intro: le_less_trans [OF _ unat_u16_lt])
  have "received_discover_request c \<or> received_connect_request c \<longleftrightarrow> opens_session cmd subfn payload"
    by (rule discover_iff) (use assms len in \<open>simp_all add: rx_fits_def\<close>)
  then have "rx_judge tb c = reset_rx tb c"
    using assms(1,4) by (auto simp: rx_judge_def process_active_request_def rx_complete_def Let_def)
  then show ?thesis
    using assms(1-3) by (simp add: rx_ready_def rx_complete_def rx_fits_def reset_rx_def Let_def)
qed

lemma ready_at: "rx_ready c \<Longrightarrow> rx_at cmd subfn payload cb 0 c"
  by (simp add: rx_ready_def rx_at_def Let_def)

lemma raw_request_frame:
  "request_frame cmd subfn payload =
    raw_frame cmd subfn payload (encode_32_bits_big_endian (crc32 (request_body cmd subfn payload) 0))"
  by (simp add: request_frame_def raw_frame_def)

lemma chunks_judged:
  assumes "rx_ready c" "in_time (cm_last_rx_timestamp c) cs" "cmd AND 0x80 = 0" "length cb = 4"
    "length payload \<le> unat (cm_rx_buffer_size c)" "chunk_bytes cs = raw_frame cmd subfn payload cb"
  shows "\<exists>tb c0. receive_chunks cs c = Some (rx_judge tb c0) \<and> rx_complete cmd subfn payload cb c0
    \<and> cm_session_active c0 = cm_session_active c \<and> rx_fits cmd payload cb c0 \<and> cm_enabled c0"
proof (rule receive_chunks_complete)
  show "rx_at cmd subfn payload cb 0 c" using assms(1) by (rule ready_at)
  show "rx_fits cmd payload cb c" using assms by (simp add: rx_fits_def rx_ready_def)
  show "chunk_bytes cs \<noteq> []" using assms(6) by (simp add: raw_frame_def body_nths(3))
qed (use assms in \<open>simp_all add: rx_ready_def\<close>)

lemma raw_frame_not_Nil [simp]: "raw_frame cmd subfn payload cb \<noteq> []"
  by (simp add: raw_frame_def body_nths(3))

text \<open>A handler as \<open>init\<close> leaves it, for the examples.\<close>

definition blank_comm :: comm where
  "blank_comm =
    \<lparr>cm_heartbeat_timestamp = 0, cm_session_id = 0, cm_last_heartbeat_challenge = 0,
     cm_state = Comm_Idle, cm_enabled = False, cm_session_active = False,
     cm_first_heartbeat_received = False,
     cm_active_request = \<lparr>rq_command_id = 0, rq_subfunction_id = 0, rq_data_length = 0,
       rq_data_max_length = 0, rq_data = [], rq_crc = 0\<rparr>,
     cm_last_rx_timestamp = 0, cm_rx_buffer_size = 0, cm_tx_buffer_size = 0,
     cm_request_received = False, cm_rx_state = WaitForCommand, cm_rx_error = RxError_None,
     cm_per_state_data = 0,
     cm_active_response = \<lparr>rs_command_id = 0, rs_subfunction_id = 0, rs_response_code = 0,
       rs_data_length = 0, rs_data_max_length = 0, rs_data = [], rs_crc = 0\<rparr>,
     cm_crc = 0, cm_nbytes_to_send = 0, cm_nbytes_sent = 0, cm_tx_error = TxError_None,
     cm_session_counter = 0\<rparr>"

definition demo_comm :: comm where
  "demo_comm = comm_init (replicate 32 0) 32 (replicate 32 0) 32 tb_init 7 blank_comm"

lemma demo_comm_ready:
  "rx_ready demo_comm" "cm_rx_buffer_size demo_comm = 32" "cm_tx_buffer_size demo_comm = 32"
  "cm_session_active demo_comm = False" "cm_last_rx_timestamp demo_comm = 0"
  by (simp_all add: demo_comm_def comm_init_def comm_reset_def reset_rx_def reset_tx_def blank_comm_def
      rx_ready_def Let_def tb_init_def get_timestamp_def)

lemma valid_frame_delivered:
  assumes "rx_ready c" "in_time (cm_last_rx_timestamp c) cs" "cmd AND 0x80 = 0"
    "length payload \<le> unat (cm_rx_buffer_size c)" "chunk_bytes cs = request_frame cmd subfn payload"
    "cm_session_active c \<or> opens_session cmd subfn payload"
  shows "\<exists>c'. receive_chunks cs c = Some c' \<and> delivers cmd subfn payload c'"
proof -
  let ?cb = "encode_32_bits_big_endian (crc32 (request_body cmd subfn payload) 0)"
  obtain tb c0 where c0: "receive_chunks cs c = Some (rx_judge tb c0)"
    "rx_complete cmd subfn payload ?cb c0" "cm_session_active c0 = cm_session_active c"
    "rx_fits cmd payload ?cb c0"
    using chunks_judged [OF assms(1-3) be32.length_enc assms(4) assms(5) [unfolded raw_request_frame]]
    by blast
  have "delivers cmd subfn payload (rx_judge tb c0)"
    by (rule judge_delivers [OF c0(2)])
      (use c0 assms(6) in \<open>auto simp: rx_fits_def be32.dec_enc intro: le_less_trans [OF _ unat_u16_lt]\<close>)
  with c0(1) show ?thesis by blast
qed

text \<open>
  C2: a valid request frame that arrives in chunks of any sizes, with no reception timeout between
  them, is delivered when its last byte arrives, with exactly its command, subfunction and
  payload, if a session is active or the frame may open one.
\<close>

theorem receive_valid_frame:
  assumes "rx_ready c" "in_time (cm_last_rx_timestamp c) cs" "cmd AND 0x80 = 0"
    "length payload \<le> unat (cm_rx_buffer_size c)" "chunk_bytes cs = request_frame cmd subfn payload"
    "cm_session_active c \<or> opens_session cmd subfn payload"
  shows "\<exists>c'. receive_chunks cs c = Some c' \<and> delivers cmd subfn payload c'"
  using assms by (rule valid_frame_delivered)

theorem receive_valid_frame_witness:
  "\<exists>c'. receive_chunks [(tb_init, take 3 (request_frame 2 4 CONNECT_MAGIC)), (tb_init, []),
      (tb_step 100 tb_init, drop 3 (request_frame 2 4 CONNECT_MAGIC))] demo_comm = Some c'
    \<and> delivers 2 4 CONNECT_MAGIC c'"
  by (rule receive_valid_frame)
    (simp_all add: demo_comm_ready CONNECT_MAGIC_def opens_session_def has_expired_def elapsed_since_def
      get_timestamp_def tb_init_def tb_step_def word_le_nat_alt)

text \<open>
  C3: a frame of the right shape whose CRC bytes are not those of its contents is never delivered:
  the handler drops it and is ready for the next frame.
\<close>

theorem receive_corrupt_frame:
  assumes "rx_ready c" "in_time (cm_last_rx_timestamp c) cs" "cmd AND 0x80 = 0" "length cb = 4"
    "length payload \<le> unat (cm_rx_buffer_size c)" "chunk_bytes cs = raw_frame cmd subfn payload cb"
    "cb \<noteq> encode_32_bits_big_endian (crc32 (request_body cmd subfn payload) 0)"
  shows "\<exists>c'. receive_chunks cs c = Some c' \<and> rx_ready c'"
proof -
  obtain tb c0 where c0: "receive_chunks cs c = Some (rx_judge tb c0)"
    "rx_complete cmd subfn payload cb c0" "rx_fits cmd payload cb c0" "cm_enabled c0"
    using chunks_judged [OF assms(1-6)] by blast
  have "decode_32_bits_big_endian cb \<noteq> crc32 (request_body cmd subfn payload) 0"
    using assms(4,7) be32.enc_dec by metis
  with judge_drops [OF c0(2-4)] c0(1) show ?thesis by blast
qed

theorem receive_corrupt_frame_witness:
  "\<exists>c'. receive_chunks [(tb_init, raw_frame 2 4 CONNECT_MAGIC
      (encode_32_bits_big_endian (crc32 (request_body 2 4 CONNECT_MAGIC) 0 + 1)))] demo_comm = Some c'
    \<and> rx_ready c'"
  by (rule receive_corrupt_frame [where cmd = 2 and subfn = 4 and payload = CONNECT_MAGIC and
      cb = "encode_32_bits_big_endian (crc32 (request_body 2 4 CONNECT_MAGIC) 0 + 1)"])
    (simp_all add: demo_comm_ready CONNECT_MAGIC_def has_expired_def elapsed_since_def be32.length_enc
      be32.enc_inj get_timestamp_def tb_init_def word_le_nat_alt)

text \<open>
  C4: a transmission error that changes bytes within four consecutive positions of the payload of a
  valid frame is always detected: the damaged frame is dropped, however it is cut in chunks.
\<close>

theorem receive_damaged_frame:
  assumes "rx_ready c" "in_time (cm_last_rx_timestamp c) cs" "cmd AND 0x80 = 0"
    "length (p @ m @ s) \<le> unat (cm_rx_buffer_size c)"
    "length m = length m'" "length m \<le> 4" "m \<noteq> m'"
    "chunk_bytes cs = raw_frame cmd subfn (p @ m' @ s)
       (encode_32_bits_big_endian (crc32 (request_body cmd subfn (p @ m @ s)) 0))"
  shows "\<exists>c'. receive_chunks cs c = Some c' \<and> rx_ready c'"
proof -
  define h where "h = [cmd, subfn] @ encode_16_bits_big_endian (of_nat (length (p @ m @ s)))"
  have "request_body cmd subfn (p @ m @ s) = (h @ p) @ m @ s"
    "request_body cmd subfn (p @ m' @ s) = (h @ p) @ m' @ s"
    using assms(5) by (simp_all add: request_body_def h_def)
  then have "crc32 (request_body cmd subfn (p @ m' @ s)) 0 \<noteq> crc32 (request_body cmd subfn (p @ m @ s)) 0"
    using crc32_burst [OF assms(5-7), of "h @ p" s 0] by simp
  moreover obtain tb c0 where c0: "receive_chunks cs c = Some (rx_judge tb c0)"
    "rx_complete cmd subfn (p @ m' @ s)
       (encode_32_bits_big_endian (crc32 (request_body cmd subfn (p @ m @ s)) 0)) c0"
    "rx_fits cmd (p @ m' @ s)
       (encode_32_bits_big_endian (crc32 (request_body cmd subfn (p @ m @ s)) 0)) c0"
    "cm_enabled c0"
    using chunks_judged [OF assms(1-3) be32.length_enc _ assms(8)] assms(4,5) by auto
  ultimately have "rx_ready (rx_judge tb c0)"
    using judge_drops [OF c0(2-4)] by (simp add: be32.dec_enc)
  with c0(1) show ?thesis by blast
qed

theorem receive_damaged_frame_witness:
  "\<exists>c'. receive_chunks [(tb_init, raw_frame 2 4 ([0x82] @ [0x91, 0x23] @ [0x66])
      (encode_32_bits_big_endian (crc32 (request_body 2 4 ([0x82] @ [0x90, 0x22] @ [0x66])) 0)))]
      demo_comm = Some c' \<and> rx_ready c'"
  by (rule receive_damaged_frame [where cmd = 2 and subfn = 4 and p = "[0x82]" and m = "[0x90, 0x22]" and
      m' = "[0x91, 0x23]" and s = "[0x66]"])
    (simp_all add: demo_comm_ready has_expired_def elapsed_since_def
      get_timestamp_def tb_init_def word_le_nat_alt)

text \<open>
  C5: without a session, a valid frame that is neither a Discover request with the right magic
  number nor a Connect request is dropped silently.
\<close>

theorem receive_without_session:
  assumes "rx_ready c" "in_time (cm_last_rx_timestamp c) cs" "cmd AND 0x80 = 0"
    "length payload \<le> unat (cm_rx_buffer_size c)" "chunk_bytes cs = request_frame cmd subfn payload"
    "\<not> cm_session_active c" "\<not> opens_session cmd subfn payload"
  shows "\<exists>c'. receive_chunks cs c = Some c' \<and> rx_ready c'"
proof -
  let ?cb = "encode_32_bits_big_endian (crc32 (request_body cmd subfn payload) 0)"
  obtain tb c0 where c0: "receive_chunks cs c = Some (rx_judge tb c0)"
    "rx_complete cmd subfn payload ?cb c0" "rx_fits cmd payload ?cb c0" "cm_enabled c0"
    "cm_session_active c0 = cm_session_active c"
    using chunks_judged [OF assms(1-3) be32.length_enc assms(4) assms(5) [unfolded raw_request_frame]]
    by blast
  with assms(6,7) judge_drops [OF c0(2-4)] show ?thesis by auto
qed

theorem receive_without_session_witness:
  "\<exists>c'. receive_chunks [(tb_init, request_frame 3 1 [0, 0, 0, 0, 0, 0, 0, 1, 0, 4])] demo_comm = Some c'
    \<and> rx_ready c'"
  by (rule receive_without_session [where cmd = 3 and subfn = 1 and
      payload = "[0, 0, 0, 0, 0, 0, 0, 1, 0, 4]"])
    (simp_all add: demo_comm_ready has_expired_def elapsed_since_def opens_session_def
      get_timestamp_def tb_init_def word_le_nat_alt raw_request_frame)

end
