(* ===== verification/CommInvariant.thy ===== *)
theory CommInvariant
  imports CommReceive
begin

text \<open>
  The invariant of the communication handler. It holds after an initialisation with valid buffer
  sizes, every operation keeps it, and under it the reception loop ends, writes stay inside the
  reception buffer and the counters of the transmission stay inside the frame.
\<close>

section \<open>The invariant\<close>

definition rx_inv :: "comm \<Rightarrow> bool" where
  "rx_inv c =
    (let r = cm_active_request c
     in length (rq_data r) = unat (cm_rx_buffer_size c)
      \<and> MINIMUM_RX_BUFFER_SIZE \<le> cm_rx_buffer_size c \<and> cm_rx_buffer_size c \<le> MAXIMUM_RX_BUFFER_SIZE
      \<and> (cm_request_received c \<longleftrightarrow> cm_rx_state c = WaitForProcess)
      \<and> (case cm_rx_state c of
           WaitForLength \<Rightarrow> small_bytes_received c = 0 \<or> small_bytes_received c = 1
         | WaitForData \<Rightarrow> data_bytes_received c < rq_data_length r
             \<and> (data_bytes_received c = 0 \<or> rq_data_length r \<le> cm_rx_buffer_size c)
         | WaitForCRC \<Rightarrow> small_bytes_received c < 4 \<and> rq_data_length r \<le> cm_rx_buffer_size c
         | WaitForProcess \<Rightarrow> rq_data_length r \<le> cm_rx_buffer_size c
         | _ \<Rightarrow> True))"

definition tx_inv :: "comm \<Rightarrow> bool" where
  "tx_inv c =
    (let r = cm_active_response c
     in length (rs_data r) = unat (cm_tx_buffer_size c)
      \<and> MINIMUM_TX_BUFFER_SIZE \<le> cm_tx_buffer_size c \<and> cm_tx_buffer_size c \<le> MAXIMUM_TX_BUFFER_SIZE
      \<and> (if cm_state c = Comm_Transmitting
         then cm_enabled c \<and> rs_data_length r \<le> cm_tx_buffer_size c
            \<and> unat (cm_nbytes_to_send c) = RESPONSE_OVERHEAD + unat (rs_data_length r)
            \<and> cm_nbytes_sent c < cm_nbytes_to_send c
         else cm_nbytes_sent c = 0))"

definition comm_inv :: "comm \<Rightarrow> bool" where
  "comm_inv c = (rx_inv c \<and> tx_inv c)"

section \<open>Resets\<close>

lemma rx_inv_reset_rx: "rx_inv c \<Longrightarrow> rx_inv (reset_rx tb c)"
  by (simp add: rx_inv_def reset_rx_def Let_def)

lemma tx_inv_reset_rx: "tx_inv c \<Longrightarrow> tx_inv (reset_rx tb c)"
  by (simp add: tx_inv_def reset_rx_def Let_def)

lemma comm_inv_reset_rx: "comm_inv c \<Longrightarrow> comm_inv (reset_rx tb c)"
  by (simp add: comm_inv_def rx_inv_reset_rx tx_inv_reset_rx)

lemma rx_inv_reset_tx: "rx_inv c \<Longrightarrow> rx_inv (reset_tx c)"
  by (simp add: rx_inv_def reset_tx_def Let_def small_bytes_received_def data_bytes_received_def
      split: rx_fsm_state.splits)

lemma tx_inv_reset_tx: "tx_inv c \<Longrightarrow> tx_inv (reset_tx c)"
  by (simp add: tx_inv_def reset_tx_def Let_def)

lemma comm_inv_reset_tx: "comm_inv c \<Longrightarrow> comm_inv (reset_tx c)"
  by (simp add: comm_inv_def rx_inv_reset_tx tx_inv_reset_tx)

lemma rx_inv_cong:
  "cm_active_request c = cm_active_request d \<Longrightarrow> cm_rx_buffer_size c = cm_rx_buffer_size d \<Longrightarrow>
   cm_request_received c = cm_request_received d \<Longrightarrow> cm_rx_state c = cm_rx_state d \<Longrightarrow>
   cm_per_state_data c = cm_per_state_data d \<Longrightarrow> rx_inv c = rx_inv d"
  by (simp add: rx_inv_def small_bytes_received_def data_bytes_received_def Let_def
      split: rx_fsm_state.split)

lemma tx_inv_cong:
  "cm_active_response c = cm_active_response d \<Longrightarrow> cm_tx_buffer_size c = cm_tx_buffer_size d \<Longrightarrow>
   cm_state c = cm_state d \<Longrightarrow> cm_enabled c = cm_enabled d \<Longrightarrow>
   cm_nbytes_to_send c = cm_nbytes_to_send d \<Longrightarrow> cm_nbytes_sent c = cm_nbytes_sent d \<Longrightarrow>
   tx_inv c = tx_inv d"
  by (simp add: tx_inv_def)

lemma rx_inv_updates [comm_simps]:
  "rx_inv (c\<lparr>cm_heartbeat_timestamp := x0\<rparr>) = rx_inv c"
  "rx_inv (c\<lparr>cm_session_id := x1\<rparr>) = rx_inv c"
  "rx_inv (c\<lparr>cm_last_heartbeat_challenge := x2\<rparr>) = rx_inv c"
  "rx_inv (c\<lparr>cm_state := x3\<rparr>) = rx_inv c"
  "rx_inv (c\<lparr>cm_enabled := x4\<rparr>) = rx_inv c"
  "rx_inv (c\<lparr>cm_session_active := x5\<rparr>) = rx_inv c"
  "rx_inv (c\<lparr>cm_first_heartbeat_received := x6\<rparr>) = rx_inv c"
  "rx_inv (c\<lparr>cm_last_rx_timestamp := x7\<rparr>) = rx_inv c"
  "rx_inv (c\<lparr>cm_tx_buffer_size := x8\<rparr>) = rx_inv c"
  "rx_inv (c\<lparr>cm_rx_error := x9\<rparr>) = rx_inv c"
  "rx_inv (c\<lparr>cm_active_response := x10\<rparr>) = rx_inv c"
  "rx_inv (c\<lparr>cm_crc := x11\<rparr>) = rx_inv c"
  "rx_inv (c\<lparr>cm_nbytes_to_send := x12\<rparr>) = rx_inv c"
  "rx_inv (c\<lparr>cm_nbytes_sent := x13\<rparr>) = rx_inv c"
  "rx_inv (c\<lparr>cm_tx_error := x14\<rparr>) = rx_inv c"
  "rx_inv (c\<lparr>cm_session_counter := x15\<rparr>) = rx_inv c"
  by (rule rx_inv_cong; simp)+

lemma tx_inv_updates [comm_simps]:
  "tx_inv (c\<lparr>cm_heartbeat_timestamp := x0\<rparr>) = tx_inv c"
  "tx_inv (c\<lparr>cm_session_id := x1\<rparr>) = tx_inv c"
  "tx_inv (c\<lparr>cm_last_heartbeat_challenge := x2\<rparr>) = tx_inv c"
  "tx_inv (c\<lparr>cm_session_active := x3\<rparr>) = tx_inv c"
  "tx_inv (c\<lparr>cm_first_heartbeat_received := x4\<rparr>) = tx_inv c"
  "tx_inv (c\<lparr>cm_last_rx_timestamp := x5\<rparr>) = tx_inv c"
  "tx_inv (c\<lparr>cm_rx_buffer_size := x6\<rparr>) = tx_inv c"
  "tx_inv (c\<lparr>cm_rx_error := x7\<rparr>) = tx_inv c"
  "tx_inv (c\<lparr>cm_active_request := x8\<rparr>) = tx_inv c"
  "tx_inv (c\<lparr>cm_crc := x9\<rparr>) = tx_inv c"
  "tx_inv (c\<lparr>cm_tx_error := x10\<rparr>) = tx_inv c"
  "tx_inv (c\<lparr>cm_session_counter := x11\<rparr>) = tx_inv c"
  "tx_inv (c\<lparr>cm_rx_state := x12\<rparr>) = tx_inv c"
  "tx_inv (c\<lparr>cm_request_received := x13\<rparr>) = tx_inv c"
  "tx_inv (c\<lparr>cm_per_state_data := x14\<rparr>) = tx_inv c"
  by (rule tx_inv_cong; simp)+

lemma comm_inv_reset: "comm_inv c \<Longrightarrow> comm_inv (comm_reset tb c)"
proof -
  assume inv: "comm_inv c"
  have "rx_inv (comm_reset tb c)"
    using inv by (simp add: comm_inv_def comm_reset_def Let_def comm_simps rx_inv_reset_tx rx_inv_reset_rx)
  moreover have "tx_inv (comm_reset tb c)"
    using inv by (simp add: comm_inv_def comm_reset_def Let_def tx_inv_def reset_tx_def reset_rx_def
        split: if_splits)
  ultimately show ?thesis by (simp add: comm_inv_def)
qed

lemma comm_inv_init:
  assumes "length rx_buffer = unat rx_size" "length tx_buffer = unat tx_size"
    "MINIMUM_RX_BUFFER_SIZE \<le> rx_size" "rx_size \<le> MAXIMUM_RX_BUFFER_SIZE"
    "MINIMUM_TX_BUFFER_SIZE \<le> tx_size" "tx_size \<le> MAXIMUM_TX_BUFFER_SIZE"
  shows "comm_inv (comm_init rx_buffer rx_size tx_buffer tx_size tb seed c)"
    "cm_enabled (comm_init rx_buffer rx_size tx_buffer tx_size tb seed c)"
  using assms
  by (simp_all add: comm_init_def comm_reset_def reset_rx_def reset_tx_def comm_inv_def rx_inv_def
      tx_inv_def Let_def leD)

lemma comm_init_bad_size:
  assumes "rx_size < MINIMUM_RX_BUFFER_SIZE \<or> MAXIMUM_RX_BUFFER_SIZE < rx_size
    \<or> tx_size < MINIMUM_TX_BUFFER_SIZE \<or> MAXIMUM_TX_BUFFER_SIZE < tx_size"
  shows "\<not> cm_enabled (comm_init rx_buffer rx_size tx_buffer tx_size tb seed c)"
  using assms by (auto simp: comm_init_def comm_reset_def Let_def)

section \<open>One round of the reception\<close>

definition rx_progress :: "u8 list \<Rightarrow> comm \<Rightarrow> u8 list \<times> comm \<Rightarrow> bool" where
  "rx_progress data c res =
    (case res of (data', c') \<Rightarrow> rx_inv c' \<and> cm_state c' \<noteq> Comm_Transmitting
      \<and> length data' \<le> length data
      \<and> (length data' < length data \<or> cm_rx_state c' = RxFSM_Error)
      \<and> tx_inv c' = tx_inv c \<and> cm_rx_buffer_size c' = cm_rx_buffer_size c)"

lemma tx_inv_set_counters [comm_simps]:
  "tx_inv (set_small_bytes_received v c) = tx_inv c"
  "tx_inv (set_data_bytes_received w c) = tx_inv c"
  by (rule tx_inv_cong; simp add: set_small_bytes_received_def set_data_bytes_received_def)+

lemma rx_progress_command:
  "rx_inv c \<Longrightarrow> cm_rx_state c = WaitForCommand \<Longrightarrow> data \<noteq> [] \<Longrightarrow> cm_state c \<noteq> Comm_Transmitting \<Longrightarrow>
    rx_progress data c (rx_wait_for_command data c)"
  by (simp add: rx_progress_def rx_wait_for_command_def rx_inv_def Let_def comm_simps)

lemma rx_progress_subfunction:
  "rx_inv c \<Longrightarrow> cm_rx_state c = WaitForSubfunction \<Longrightarrow> data \<noteq> [] \<Longrightarrow> cm_state c \<noteq> Comm_Transmitting \<Longrightarrow>
    rx_progress data c (rx_wait_for_subfunction data c)"
  by (simp add: rx_progress_def rx_wait_for_subfunction_def rx_inv_def Let_def comm_simps)

lemma rx_progress_length:
  "rx_inv c \<Longrightarrow> cm_rx_state c = WaitForLength \<Longrightarrow> data \<noteq> [] \<Longrightarrow> cm_state c \<noteq> Comm_Transmitting \<Longrightarrow>
    rx_progress data c (rx_wait_for_length data c)"
  by (simp add: rx_progress_def rx_wait_for_length_def rx_length_complete_def rx_inv_def Let_def comm_simps
      word_gt_0 Suc_le_eq)



lemma rx_inv_process: 
  assumes "rx_inv c" "rq_data_length (cm_active_request c) \<le> cm_rx_buffer_size c"
  shows "rx_inv (process_active_request tb c)"
  using assms by (auto simp: process_active_request_def Let_def rx_inv_def reset_rx_def)

lemma idle_after_judge:
  assumes "cm_state c = Comm_Idle"
  shows "cm_state (rx_judge tb c) = Comm_Idle" "tx_inv (rx_judge tb c) = tx_inv c"
    "cm_rx_buffer_size (rx_judge tb c) = cm_rx_buffer_size c"
  using assms
  by (auto simp: rx_judge_def process_active_request_def reset_rx_def Let_def tx_inv_def)

lemma tx_inv_idle:
  "cm_state c \<noteq> Comm_Transmitting \<Longrightarrow> tx_inv (c\<lparr>cm_state := Comm_Idle\<rparr>) = tx_inv c"
  by (simp add: tx_inv_def)

lemma rx_progress_crc:
  assumes "rx_inv c" "cm_rx_state c = WaitForCRC" "data \<noteq> []" "cm_state c \<noteq> Comm_Transmitting"
  shows "rx_progress data c (rx_wait_for_crc tb data c)"
proof -
  let ?r = "cm_active_request c"
  define c1 where "c1 = set_small_bytes_received (small_bytes_received c + 1)
    (c\<lparr>cm_active_request := ?r\<lparr>rq_crc := push_bit 8 (rq_crc ?r) OR ucast (data ! 0 AND 0xFF)\<rparr>\<rparr>)"
  have res: "rx_wait_for_crc tb data c =
      (drop 1 data, if small_bytes_received c1 \<ge> 4 then rx_judge tb (c1\<lparr>cm_state := Comm_Idle\<rparr>) else c1)"
    by (simp add: rx_wait_for_crc_def rx_judge_def c1_def Let_def comm_simps)
  have fit: "rq_data_length (cm_active_request c1) \<le> cm_rx_buffer_size c1"
    using assms(1,2) by (simp add: rx_inv_def Let_def c1_def comm_simps)
  have tx: "tx_inv c1 = tx_inv c" "cm_rx_buffer_size c1 = cm_rx_buffer_size c"
    "cm_state c1 = cm_state c"
    by (simp_all add: c1_def comm_simps)
  show ?thesis
  proof (cases "small_bytes_received c1 \<ge> 4")
    case False
    then have "rx_inv c1"
      using assms(1,2) by (simp add: rx_inv_def Let_def c1_def comm_simps not_le)
    with False assms(3,4) tx show ?thesis by (simp add: rx_progress_def res)
  next
    case True
    let ?d = "c1\<lparr>cm_state := Comm_Idle\<rparr>"
    have "rx_inv (rx_judge tb ?d)"
    proof -
      have "rx_inv (reset_rx tb ?d)"
        using assms(1,2) by (simp add: rx_inv_def Let_def c1_def comm_simps reset_rx_def)
      moreover have "rx_inv (process_active_request tb ?d)"
        using assms(1,2) fit
        by (auto simp: rx_inv_def Let_def c1_def comm_simps reset_rx_def process_active_request_def)
      ultimately show ?thesis by (simp add: rx_judge_def)
    qed
    then show ?thesis
      using True assms(3,4) idle_after_judge [of ?d tb] tx tx_inv_idle [of c1]
      by (simp add: rx_progress_def res)
  qed
qed

lemma rx_progress_data:
  assumes "rx_inv c" "cm_rx_state c = WaitForData" "data \<noteq> []" "cm_state c \<noteq> Comm_Transmitting"
    "length data < 65536"
  shows "rx_progress data c (rx_wait_for_data data c)"
proof (cases "rq_data_length (cm_active_request c) > cm_rx_buffer_size c")
  case True
  with assms show ?thesis
    by (simp add: rx_progress_def rx_wait_for_data_def rx_inv_def Let_def comm_simps)
next
  case False
  let ?r = "cm_active_request c" and ?got = "unat (data_bytes_received c)"
  let ?missing = "rq_data_length ?r - data_bytes_received c"
  define k where "k = (if (of_nat (length data) :: u16) \<ge> ?missing then ?missing else of_nat (length data))"
  have fit: "unat (rq_data_length ?r) \<le> length (rq_data ?r)" and got: "?got < unat (rq_data_length ?r)"
    using assms(1,2) False by (auto simp: rx_inv_def Let_def word_le_nat_alt word_less_nat_alt)
  have missing: "unat ?missing = unat (rq_data_length ?r) - ?got"
    using got by (intro unat_sub) (simp add: word_le_nat_alt)
  have k: "0 < unat k" "unat k \<le> length data" "?got + unat k \<le> unat (rq_data_length ?r)"
    using missing got assms(3,5) by (auto simp: k_def word_le_nat_alt)
  have sum: "unat (data_bytes_received c + k) = ?got + unat k"
    using k(3) by (intro unat_add_no_wrap_u16) (auto intro: le_less_trans [OF _ unat_u16_lt])
  define c1 where "c1 = set_data_bytes_received (data_bytes_received c + k)
    (c\<lparr>cm_active_request := ?r\<lparr>rq_data := blit (rq_data ?r) ?got (take (unat k) data)\<rparr>,
       cm_crc := crc32 (take (unat k) data) (cm_crc c)\<rparr>)"
  have res: "rx_wait_for_data data c = (drop (unat k) data,
      if data_bytes_received c1 \<ge> rq_data_length (cm_active_request c1)
      then (set_small_bytes_received 0 c1)\<lparr>cm_rx_state := WaitForCRC\<rparr> else c1)"
    using False
    by (simp add: rx_wait_for_data_def Let_def k_def [symmetric] c1_def comm_simps)
  have "?got + min (length data) (unat k) \<le> length (rq_data ?r)"
    using k fit by (simp add: min_def)
  then show ?thesis
    using assms k False
    by (simp add: rx_progress_def res c1_def rx_inv_def Let_def comm_simps not_le not_less min_def)
qed

lemma rx_progress_step:
  assumes "rx_inv c" "data \<noteq> []" "cm_state c \<noteq> Comm_Transmitting" "length data < 65536"
    "\<not> cm_request_received c" "cm_rx_state c \<noteq> RxFSM_Error"
  shows "rx_progress data c (rx_step tb data c)"
  using assms rx_progress_command rx_progress_subfunction rx_progress_length
    rx_progress_crc rx_progress_data
  by (cases "cm_rx_state c") (simp_all add: rx_step_def rx_inv_def [of c] Let_def)

section \<open>The reception loop ends\<close>

lemma rx_loop_total:
  assumes "rx_inv c" "cm_state c \<noteq> Comm_Transmitting" "length data < 65536"
  shows "\<exists>c'. rx_loop tb data c = Some c' \<and> rx_inv c' \<and> cm_state c' \<noteq> Comm_Transmitting
    \<and> tx_inv c' = tx_inv c \<and> cm_rx_buffer_size c' = cm_rx_buffer_size c"
  using assms
proof (induction "length data" arbitrary: data c rule: less_induct)
  case less
  show ?case
  proof (cases "data = [] \<or> cm_request_received c \<or> cm_rx_state c = RxFSM_Error")
    case True
    with less.prems show ?thesis by (auto simp: rx_loop_done)
  next
    case False
    obtain data' c' where step: "rx_step tb data c = (data', c')" by force
    with False less.prems rx_progress_step [of c data tb]
    have prog: "rx_inv c'" "cm_state c' \<noteq> Comm_Transmitting" "length data' \<le> length data"
      "length data' < length data \<or> cm_rx_state c' = RxFSM_Error"
      "tx_inv c' = tx_inv c" "cm_rx_buffer_size c' = cm_rx_buffer_size c"
      by (auto simp: rx_progress_def)
    have loop: "rx_loop tb data c = rx_loop tb data' c'"
      using False step by (intro rx_loop_step) auto
    show ?thesis
    proof (cases "cm_rx_state c' = RxFSM_Error")
      case True
      with loop prog show ?thesis by (auto simp: rx_loop_done)
    next
      case no_error: False
      with prog have "length data' < length data" by blast
      from less.hyps [OF this prog(1,2)] less.prems(3) prog(3,5,6) loop show ?thesis by auto
    qed
  qed
qed

end
