(* ===== verification/CommTransmit.thy ===== *)
theory CommTransmit
  imports CommInvariant
begin

text \<open>
  Transmission: popping the bytes of a response, in requests of any size, is taking a prefix of its
  frame. \<open>tx_pending\<close> is the abstract state, the bytes still to be sent; \<open>send_response\<close> sets it
  and \<open>pop_data\<close> takes from it.
\<close>

section \<open>The abstract state\<close>

definition tx_pending :: "comm \<Rightarrow> u8 list" where
  "tx_pending c =
    (if cm_state c = Comm_Transmitting
     then drop (unat (cm_nbytes_sent c)) (response_frame (cm_active_response c)) else [])"

lemma tx_inv_length_pending:
  "tx_inv c \<Longrightarrow> length (tx_pending c) = unat (data_to_send c)"
proof -
  assume inv: "tx_inv c"
  have "unat (cm_nbytes_to_send c - cm_nbytes_sent c) = unat (cm_nbytes_to_send c) - unat (cm_nbytes_sent c)"
    if "cm_state c = Comm_Transmitting"
    using inv that by (intro unat_sub) (simp add: tx_inv_def Let_def less_imp_le)
  with inv show ?thesis
    by (auto simp: tx_inv_def tx_pending_def data_to_send_def Let_def length_response_frame
        word_le_nat_alt)
qed

section \<open>The three parts of a frame\<close>

lemma u8_masks: "ucast (x AND 0xFF :: u16) = (ucast x :: u8)"
  by (simp add: codec_simps and_mask_ucast)

lemma header_byte_nth:
  "unat (cm_nbytes_sent c) < 5 \<Longrightarrow>
    header_byte c = response_header (cm_active_response c) ! unat (cm_nbytes_sent c)"
proof -
  assume "unat (cm_nbytes_sent c) < 5"
  then have "unat (cm_nbytes_sent c) = 0 \<or> unat (cm_nbytes_sent c) = 1 \<or> unat (cm_nbytes_sent c) = 2
    \<or> unat (cm_nbytes_sent c) = 3 \<or> unat (cm_nbytes_sent c) = 4" by linarith
  then have "cm_nbytes_sent c = 0 \<or> cm_nbytes_sent c = 1 \<or> cm_nbytes_sent c = 2
    \<or> cm_nbytes_sent c = 3 \<or> cm_nbytes_sent c = 4"
    by (simp add: word_unat_eq_iff)
  then show ?thesis
    by (auto simp: header_byte_def response_header_def encode_16_bits_big_endian_def Let_def)
qed

lemma unat_Suc_u16: "unat (x :: u16) < 65535 \<Longrightarrow> unat (x + 1) = Suc (unat x)"
  by (simp add: unat_add_u16)

lemma pop_header_spec:
  assumes "unat (cm_nbytes_sent c) < 65535"
  shows "pop_header n c =
    (take n (drop (unat (cm_nbytes_sent c)) (response_header (cm_active_response c))),
     c\<lparr>cm_nbytes_sent := cm_nbytes_sent c +
       of_nat (length (take n (drop (unat (cm_nbytes_sent c)) (response_header (cm_active_response c)))))\<rparr>)"
  using assms
proof (induction n arbitrary: c)
  case 0
  then show ?case by simp
next
  case (Suc n)
  let ?s = "unat (cm_nbytes_sent c)" and ?H = "response_header (cm_active_response c)"
  let ?c = "c\<lparr>cm_nbytes_sent := cm_nbytes_sent c + 1\<rparr>"
  show ?case
  proof (cases "?s < 5")
    case True
    then have s: "unat (cm_nbytes_sent ?c) = Suc ?s" by (simp add: unat_Suc_u16)
    have H: "drop ?s ?H = header_byte c # drop (Suc ?s) ?H"
      using True by (simp add: header_byte_nth Cons_nth_drop_Suc length_response_header)
    have lt: "cm_nbytes_sent c < 5" using True by (simp add: word_less_nat_alt)
    have "pop_header n ?c = (take n (drop (Suc ?s) ?H),
        ?c\<lparr>cm_nbytes_sent := cm_nbytes_sent c + 1 + of_nat (length (take n (drop (Suc ?s) ?H)))\<rparr>)"
      using Suc.IH [of ?c] True s by simp
    then show ?thesis
      using lt by (simp add: H add.assoc)
  next
    case False
    then have "\<not> cm_nbytes_sent c < 5" by (simp add: word_less_nat_alt)
    moreover have "drop ?s ?H = []" using False by (simp add: length_response_header)
    ultimately show ?thesis by simp
  qed
qed

lemma pop_payload_spec:
  assumes "5 \<le> unat (cm_nbytes_sent c)" "k < 65536"
    "length (rs_data (cm_active_response c)) \<ge> unat (rs_data_length (cm_active_response c))"
  defines "bs \<equiv> take k (drop (unat (cm_nbytes_sent c) - 5) (response_payload (cm_active_response c)))"
  shows "pop_payload k c = (bs, c\<lparr>cm_nbytes_sent := cm_nbytes_sent c + of_nat (length bs)\<rparr>)"
proof -
  let ?r = "cm_active_response c" and ?s = "unat (cm_nbytes_sent c)"
  let ?dl = "rs_data_length ?r"
  have s5: "unat (cm_nbytes_sent c - 5) = ?s - 5"
    using assms(1) by (subst unat_sub) (simp_all add: word_le_nat_alt)
  show ?thesis
  proof (cases "?s - 5 < unat ?dl")
    case False
    then have "\<not> cm_nbytes_sent c - 5 < ?dl" by (simp add: word_less_nat_alt s5)
    with False assms(3) show ?thesis
      by (simp add: pop_payload_def bs_def response_payload_def)
  next
    case True
    then have lt: "cm_nbytes_sent c - 5 < ?dl" by (simp add: word_less_nat_alt s5)
    have rem: "unat (?dl - (cm_nbytes_sent c - 5)) = unat ?dl - (?s - 5)"
      using True by (subst unat_sub) (simp_all add: word_le_nat_alt s5)
    define n where "n = min k (unat ?dl - (?s - 5))"
    have n: "(if (of_nat k :: u16) < ?dl - (cm_nbytes_sent c - 5) then of_nat k
        else ?dl - (cm_nbytes_sent c - 5)) = of_nat n" "n < 65536"
      using assms(2) by (auto simp: n_def word_less_nat_alt rem simp flip: rem)
    have bs: "bs = take n (drop (?s - 5) (rs_data ?r))"
      using True assms(3) by (simp add: bs_def n_def response_payload_def drop_take min.commute)
    have len: "length bs = n"
      using True assms(3) by (simp add: bs n_def)
    have diff: "unat (?dl - (?dl - (cm_nbytes_sent c - 5))) = ?s - 5"
      by (simp add: s5)
    show ?thesis
      unfolding pop_payload_def Let_def n(1) if_P [OF lt] diff len
      using n(2) bs by simp
  qed
qed

lemma pop_crc_spec:
  assumes "unat (cm_nbytes_sent c) = unat (rs_data_length (cm_active_response c)) + 5 + j"
    "unat (rs_data_length (cm_active_response c)) \<le> 65519" "j \<le> 4"
  shows "pop_crc k c =
    (take k (drop j (encode_32_bits_big_endian (rs_crc (cm_active_response c)))),
     c\<lparr>cm_nbytes_sent := cm_nbytes_sent c +
       of_nat (length (take k (drop j (encode_32_bits_big_endian (rs_crc (cm_active_response c))))))\<rparr>)"
  using assms
proof (induction k arbitrary: c j)
  case 0
  then show ?case by simp
next
  case (Suc k)
  let ?r = "cm_active_response c" and ?c = "c\<lparr>cm_nbytes_sent := cm_nbytes_sent c + 1\<rparr>"
  let ?C = "encode_32_bits_big_endian (rs_crc ?r)"
  have pos: "unat (rs_data_length ?r + 5) = unat (rs_data_length ?r) + 5"
    using Suc.prems(2) by (simp add: unat_add_u16)
  show ?case
  proof (cases "j = 4")
    case True
    with Suc.prems(1) pos show ?thesis
      by (simp add: be32.length_enc)
  next
    case False
    with Suc.prems have j: "j < 4" by simp
    have sent: "unat (cm_nbytes_sent ?c) = unat (rs_data_length (cm_active_response ?c)) + 5 + Suc j"
      using Suc.prems j by (simp add: unat_add_u16)
    have C: "drop j ?C = ?C ! j # drop (Suc j) ?C"
      using j by (simp add: Cons_nth_drop_Suc be32.length_enc)
    have "j = 0 \<or> j = 1 \<or> j = 2 \<or> j = 3" using j by linarith
    then have byte: "pop_crc (Suc k) c = (case pop_crc k ?c of (bs, c') \<Rightarrow> (?C ! j # bs, c'))"
      using Suc.prems(1) pos by (auto simp: encode_32_bits_big_endian_def Let_def)
    show ?thesis
      using Suc.IH [OF sent] Suc.prems j unfolding byte by (simp add: C add.assoc)
  qed
qed

section \<open>Popping is taking a prefix\<close>

lemma take_three:
  "take n (A @ B @ C) = take n A @ take (n - length A) B @ take (n - length A - length B) C"
  by (simp add: diff_diff_left)

lemma pop_parts:
  assumes inv: "tx_inv c" "cm_state c = Comm_Transmitting" and n: "unat (cm_nbytes_sent c) + n \<le> unat (cm_nbytes_to_send c)"
  defines "bs \<equiv> take n (drop (unat (cm_nbytes_sent c)) (response_frame (cm_active_response c)))"
  shows "pop_frame n c = (bs, c\<lparr>cm_nbytes_sent := cm_nbytes_sent c + of_nat n\<rparr>)"
proof -
  let ?r = "cm_active_response c" and ?s = "unat (cm_nbytes_sent c)"
  let ?H = "response_header ?r" and ?P = "response_payload ?r"
  let ?C = "encode_32_bits_big_endian (rs_crc ?r)" and ?dl = "unat (rs_data_length ?r)"
  have dl: "?dl \<le> 65519" "?dl \<le> length (rs_data ?r)" "unat (cm_nbytes_to_send c) = 9 + ?dl"
    "?s < 9 + ?dl"
    using inv by (auto simp: tx_inv_def Let_def word_le_nat_alt word_less_nat_alt)
  have lens: "length ?H = 5" "length ?P = ?dl" "length ?C = 4"
    using dl by (simp_all add: length_response_header response_payload_def be32.length_enc)
  define A where "A = drop ?s ?H"
  define B where "B = drop (?s - 5) ?P"
  define C where "C = drop (?s - 5 - ?dl) ?C"
  have bs: "bs = take n A @ take (n - length A) B @ take (n - length A - length B) C"
    unfolding bs_def response_frame_def drop_append lens take_three A_def B_def C_def by simp
  have len_bs: "length bs = n"
    using n dl by (simp add: bs_def length_response_frame)
  define c1 where "c1 = c\<lparr>cm_nbytes_sent := cm_nbytes_sent c + of_nat (length (take n A))\<rparr>"
  have header: "pop_header n c = (take n A, c1)"
    using dl by (simp add: pop_header_spec A_def c1_def)
  have s1: "unat (cm_nbytes_sent c1) = ?s + length (take n A)"
    using n dl by (auto simp: c1_def unat_add_u16 unat_of_nat_u16 A_def lens)
  show ?thesis
  proof (cases "length (take n A) < n")
    case False
    then have "take n A = bs" using len_bs bs by simp
    with False len_bs show ?thesis by (auto simp: pop_frame_def header c1_def)
  next
    case True
    then have A: "length A < n" "take n A = A" by auto
    have s5: "unat (cm_nbytes_sent c1) - 5 = ?s - 5" "5 \<le> unat (cm_nbytes_sent c1)"
      unfolding s1 A(2) by (auto simp: A_def lens)
    have c1: "cm_active_response c1 = ?r" by (simp add: c1_def)
    define bs2 where "bs2 = take (n - length A) B"
    define c2 where "c2 = c1\<lparr>cm_nbytes_sent := cm_nbytes_sent c1 + of_nat (length bs2)\<rparr>"
    have "n < 65536" using n dl by linarith
    then have payload: "pop_payload (n - length A) c1 = (bs2, c2)"
      using pop_payload_spec [of c1 "n - length A"] s5 dl(2) by (simp add: c1 bs2_def c2_def B_def)
    have "unat (cm_nbytes_sent c1) + length bs2 \<le> ?s + n"
      unfolding s1 A(2) using A(1) by (simp add: bs2_def)
    then have s2: "unat (cm_nbytes_sent c2) = unat (cm_nbytes_sent c1) + length bs2"
      using n dl by (simp add: c2_def unat_add_u16)
    define bs3 where "bs3 = take (n - length A - length bs2) C"
    define c3 where "c3 = c2\<lparr>cm_nbytes_sent := cm_nbytes_sent c2 + of_nat (length bs3)\<rparr>"
    have crc: "pop_crc (n - length A - length bs2) c2 = (bs3, c3)"
    proof (cases "n - length A - length bs2 = 0")
      case True
      then show ?thesis by (simp add: bs3_def c3_def)
    next
      case more: False
      then have B2: "bs2 = B" by (auto simp: bs2_def)
      define j where "j = ?s - 5 - ?dl"
      have "unat (cm_nbytes_sent c2) = ?dl + 5 + j"
        unfolding s2 s1 A(2) B2 by (simp add: A_def B_def lens j_def)
      moreover have "j \<le> 4" using dl by (simp add: j_def)
      ultimately show ?thesis
        using pop_crc_spec [of c2 j] dl(1) by (simp add: c2_def c1 bs3_def c3_def C_def j_def)
    qed
    have all: "bs = A @ bs2 @ bs3"
    proof (cases "n - length A \<le> length B")
      case True
      then show ?thesis by (simp add: bs A(2) bs2_def bs3_def)
    next
      case False
      then show ?thesis by (simp add: bs A(2) bs2_def bs3_def)
    qed
    have "cm_nbytes_sent c1 \<ge> 5" using s5(2) by (simp add: word_le_nat_alt)
    moreover have "c3 = c\<lparr>cm_nbytes_sent := cm_nbytes_sent c + of_nat n\<rparr>"
      using all len_bs unfolding c3_def c2_def c1_def A(2) by (simp add: add.assoc flip: of_nat_add)
    ultimately show ?thesis
      using A(1) by (simp add: pop_frame_def header A(2) payload crc [unfolded diff_diff_left] all)
  qed
qed

lemma pop_data_spec:
  fixes len :: u16
  assumes inv: "tx_inv c" "cm_state c = Comm_Transmitting"
  defines "n \<equiv> min (unat len) (length (tx_pending c))"
  defines "c1 \<equiv> c\<lparr>cm_nbytes_sent := cm_nbytes_sent c + of_nat n\<rparr>"
  shows "pop_data tb len c = (take n (tx_pending c),
      if n = length (tx_pending c) then reset_rx tb (reset_tx c1) else c1)"
    "unat (cm_nbytes_sent c1) = unat (cm_nbytes_sent c) + n"
proof -
  let ?s = "unat (cm_nbytes_sent c)"
  have pend: "length (tx_pending c) = unat (cm_nbytes_to_send c) - ?s"
    "?s < unat (cm_nbytes_to_send c)"
    "tx_pending c = drop ?s (response_frame (cm_active_response c))"
    "unat (cm_nbytes_to_send c - cm_nbytes_sent c) = unat (cm_nbytes_to_send c) - ?s"
  proof -
    show lt: "?s < unat (cm_nbytes_to_send c)"
      using inv by (simp add: tx_inv_def Let_def word_less_nat_alt)
    show diff: "unat (cm_nbytes_to_send c - cm_nbytes_sent c) = unat (cm_nbytes_to_send c) - ?s"
      using lt by (intro unat_sub) (simp add: word_le_nat_alt)
    show "length (tx_pending c) = unat (cm_nbytes_to_send c) - ?s"
      using tx_inv_length_pending [OF inv(1)] inv(2) diff by (simp add: data_to_send_def)
  qed (use inv(2) in \<open>simp add: tx_pending_def\<close>)
  have clamp: "unat (if len > cm_nbytes_to_send c - cm_nbytes_sent c
      then cm_nbytes_to_send c - cm_nbytes_sent c else len) = n"
    using pend by (auto simp: n_def word_less_nat_alt min_def)
  have n: "?s + n \<le> unat (cm_nbytes_to_send c)" using pend by (simp add: n_def)
  show s1: "unat (cm_nbytes_sent c1) = ?s + n"
  proof -
    have "n < 65536" "?s + n < 65536"
      using n unat_u16_lt [of "cm_nbytes_to_send c"] by linarith+
    then show ?thesis by (simp add: c1_def unat_add_u16)
  qed
  have "cm_nbytes_sent c1 \<ge> cm_nbytes_to_send c \<longleftrightarrow> n = length (tx_pending c)"
    using s1 n pend by (auto simp: word_le_nat_alt)
  then show "pop_data tb len c = (take n (tx_pending c),
      if n = length (tx_pending c) then reset_rx tb (reset_tx c1) else c1)"
    using pop_parts [OF inv n] inv(2)
    by (simp add: pop_data_def Let_def clamp pend(3) wait_next_request_def c1_def)
qed

text \<open>\<open>pop_data\<close> refines taking bytes from the pending frame.\<close>

lemma pop_data_prefix:
  assumes "tx_inv c"
  shows "fst (pop_data tb len c) = take (unat len) (tx_pending c)
    \<and> tx_pending (snd (pop_data tb len c)) = drop (unat len) (tx_pending c)"
proof (cases "cm_state c = Comm_Transmitting")
  case False
  then show ?thesis by (simp add: pop_data_def tx_pending_def)
next
  case True
  let ?n = "min (unat len) (length (tx_pending c))"
  show ?thesis
  proof (cases "?n = length (tx_pending c)")
    case all: True
    have "tx_pending (reset_rx tb (reset_tx d)) = []" if "cm_state d = Comm_Transmitting" for d
      using that by (simp add: tx_pending_def reset_rx_def reset_tx_def Let_def)
    with all True show ?thesis
      by (simp add: pop_data_spec [OF assms True])
  next
    case False
  then have n: "?n = unat len" "?n \<noteq> length (tx_pending c)" by simp_all
    let ?c1 = "c\<lparr>cm_nbytes_sent := cm_nbytes_sent c + of_nat ?n\<rparr>"
    have "tx_pending ?c1 = drop ?n (tx_pending c)"
      using pop_data_spec(2) [OF assms True, of len] True
      by (simp add: tx_pending_def add.commute)
    moreover have "unat len \<noteq> length (tx_pending c)" using n by simp
    ultimately show ?thesis
      unfolding pop_data_spec(1) [OF assms True] if_not_P [OF n(2)] fst_conv snd_conv using n(1) by simp
  qed
qed

section \<open>The invariant\<close>

lemma comm_inv_pop_data: "comm_inv c \<Longrightarrow> comm_inv (snd (pop_data tb len c))"
proof (cases "cm_state c = Comm_Transmitting")
  case False
  then show "comm_inv c \<Longrightarrow> ?thesis" by (simp add: pop_data_def)
next
  case True
  assume inv: "comm_inv c"
  then have tx: "tx_inv c" by (simp add: comm_inv_def)
  let ?n = "min (unat len) (length (tx_pending c))"
  let ?c1 = "c\<lparr>cm_nbytes_sent := cm_nbytes_sent c + of_nat ?n\<rparr>"
  have rx: "rx_inv ?c1" using inv by (simp add: comm_inv_def comm_simps)
  show ?thesis
  proof (cases "?n = length (tx_pending c)")
    case all: True
    have "tx_inv (reset_tx ?c1)"
      using tx True by (simp add: tx_inv_def reset_tx_def Let_def)
    then have "comm_inv (reset_rx tb (reset_tx ?c1))"
      using rx by (intro comm_inv_reset_rx) (simp add: comm_inv_def rx_inv_reset_tx)
    with all show ?thesis unfolding pop_data_spec(1) [OF tx True] by simp
  next
    case False
    have "unat (cm_nbytes_sent ?c1) < unat (cm_nbytes_to_send c)"
      using False tx tx_inv_length_pending [OF tx] True
      unfolding pop_data_spec(2) [OF tx True]
      by (auto simp: data_to_send_def tx_inv_def Let_def min_def unat_sub less_imp_le split: if_splits)
    then have "tx_inv ?c1"
      using tx True by (simp add: tx_inv_def Let_def word_less_nat_alt)
    with rx False show ?thesis
      unfolding pop_data_spec(1) [OF tx True] if_not_P [OF False] by (simp add: comm_inv_def)
  qed
qed

lemma comm_inv_send_response:
  assumes "comm_inv c" "length (rs_data r) = unat (cm_tx_buffer_size c)"
  shows "comm_inv (snd (send_response r c))"
proof -
  show ?thesis
  proof (cases "cm_enabled c \<and> cm_state c = Comm_Idle \<and> rs_data_length r \<le> cm_tx_buffer_size c")
    case False
    then show ?thesis
      using assms(1) rx_inv_reset_tx tx_inv_reset_tx
      by (auto simp: send_response_def Let_def comm_inv_def comm_simps not_less)
  next
    case True
    let ?c' = "snd (send_response r c)"
    have "rx_inv ?c' = rx_inv c"
      using True by (intro rx_inv_cong) (simp_all add: send_response_def Let_def leD)
    moreover have "unat (9 + rs_data_length r) = 9 + unat (rs_data_length r)"
      using True assms(1) by (subst unat_add_no_wrap_u16)
        (auto simp: comm_inv_def tx_inv_def Let_def word_le_nat_alt)
    then have "tx_inv ?c'"
      using True assms
      by (simp add: send_response_def Let_def comm_inv_def tx_inv_def leD add_crc_def word_less_nat_alt
          word_le_nat_alt)
    ultimately show ?thesis using assms(1) by (simp add: comm_inv_def)
  qed
qed

lemma comm_inv_prepare: "comm_inv c \<Longrightarrow> cm_state c \<noteq> Comm_Transmitting \<Longrightarrow> comm_inv (prepare_response c)"
  by (simp add: comm_inv_def prepare_response_def tx_inv_def Let_def comm_simps)

lemma comm_inv_process: "comm_inv c \<Longrightarrow> comm_inv (comm_process tb c)"
  by (simp add: comm_process_def comm_inv_reset)

lemma comm_inv_cong_session:
  "comm_inv c \<Longrightarrow> comm_inv (c\<lparr>cm_session_id := i, cm_session_counter := k, cm_session_active := a,
     cm_first_heartbeat_received := f, cm_heartbeat_timestamp := t\<rparr>)"
  by (simp add: comm_inv_def comm_simps)

lemma comm_inv_connect: "comm_inv c \<Longrightarrow> comm_inv (snd (comm_connect tb c))"
  by (simp add: comm_connect_def comm_inv_reset_rx comm_inv_cong_session)

lemma comm_inv_disconnect: "comm_inv c \<Longrightarrow> comm_inv (comm_disconnect tb c)"
proof -
  assume inv: "comm_inv c"
  let ?d = "c\<lparr>cm_session_id := 0, cm_session_active := False, cm_first_heartbeat_received := False\<rparr>"
  have "comm_inv ?d"
    using inv by (simp add: comm_inv_def comm_simps)
  then show ?thesis
    by (simp add: comm_disconnect_def comm_inv_reset_rx comm_inv_reset_tx)
qed

lemma comm_inv_heartbeat: "comm_inv c \<Longrightarrow> comm_inv (snd (heartbeat tb ch c))"
  by (simp add: heartbeat_def comm_inv_def comm_simps)

lemma comm_inv_enable: "comm_inv c \<Longrightarrow> comm_inv (comm_enable c)"
  by (simp add: comm_enable_def comm_inv_def comm_simps tx_inv_def Let_def split: if_splits)

lemma comm_inv_disable: "comm_inv c \<Longrightarrow> comm_inv (comm_disable tb c)"
proof -
  assume "comm_inv c"
  then have inv: "comm_inv (comm_reset tb c)" by (rule comm_inv_reset)
  have "cm_state (comm_reset tb c) = Comm_Idle"
    by (simp add: comm_reset_def reset_rx_def reset_tx_def Let_def)
  with inv show ?thesis
    by (simp add: comm_disable_def comm_inv_def comm_simps tx_inv_def Let_def)
qed

lemma rx_start_chunk_inv:
  assumes "comm_inv c" "cm_state c \<noteq> Comm_Transmitting"
  shows "comm_inv (rx_start_chunk tb d c)" "cm_state (rx_start_chunk tb d c) \<noteq> Comm_Transmitting"
proof -
  let ?a = "if has_expired tb (cm_last_rx_timestamp c) RX_TIMEOUT_100NS
    then (reset_rx tb c)\<lparr>cm_state := Comm_Idle\<rparr> else c"
  have a: "comm_inv ?a" "cm_state ?a \<noteq> Comm_Transmitting"
    using assms comm_inv_reset_rx [OF assms(1), of tb]
    by (auto simp: comm_inv_def comm_simps tx_inv_def reset_rx_def Let_def)
  have "comm_inv (b\<lparr>cm_last_rx_timestamp := t, cm_state := s\<rparr>)"
    if "comm_inv b" "cm_state b \<noteq> Comm_Transmitting" "s \<noteq> Comm_Transmitting" for b t s
    using that by (simp add: comm_inv_def comm_simps tx_inv_def Let_def)
  from this [OF a] a assms show "comm_inv (rx_start_chunk tb d c)"
    "cm_state (rx_start_chunk tb d c) \<noteq> Comm_Transmitting"
    by (auto simp: rx_start_chunk_def Let_def comm_inv_def comm_simps)
qed

section \<open>Sending a response\<close>

text \<open>The frame that answers: the command with its top bit set, and a CRC of all before it.\<close>

definition response_body :: "response \<Rightarrow> u8 list" where
  "response_body r =
    [rs_command_id r OR 0x80, rs_subfunction_id r, rs_response_code r] @
    encode_16_bits_big_endian (rs_data_length r) @ response_payload r"

definition wire_response :: "response \<Rightarrow> u8 list" where
  "wire_response r = response_body r @ encode_32_bits_big_endian (crc32 (response_body r) 0)"

lemma send_response_pending:
  assumes "cm_enabled c" "cm_state c = Comm_Idle" "rs_data_length r \<le> cm_tx_buffer_size c"
    "cm_nbytes_sent c = 0"
  shows "fst (send_response r c)" "tx_pending (snd (send_response r c)) = wire_response r"
proof -
  show "fst (send_response r c)" using assms by (simp add: send_response_def Let_def leD)
  define q where "q = (cm_active_response c)
    \<lparr>rs_command_id := rs_command_id r OR 0x80, rs_subfunction_id := rs_subfunction_id r,
     rs_response_code := rs_response_code r, rs_data_length := rs_data_length r, rs_data := rs_data r\<rparr>"
  have header: "[rs_command_id q, rs_subfunction_id q, rs_response_code q,
      ucast (drop_bit 8 (rs_data_length q) AND 0xFF), ucast (rs_data_length q AND 0xFF)] = response_header q"
    by (simp add: response_header_def encode_16_bits_big_endian_def)
  have "tx_pending (snd (send_response r c)) = response_frame (add_crc (c\<lparr>cm_tx_error := TxError_None\<rparr>) q)"
    using assms by (simp add: tx_pending_def send_response_def Let_def leD q_def)
  also have "add_crc (c\<lparr>cm_tx_error := TxError_None\<rparr>) q
      = q\<lparr>rs_crc := crc32 (response_header q @ response_payload q) 0\<rparr>"
    using assms(3) unfolding add_crc_def Let_def header
    by (simp add: q_def leD crc32_append response_payload_def)
  also have "response_frame \<dots> = wire_response r"
    by (simp add: response_frame_def response_header_def response_payload_def wire_response_def
        response_body_def q_def)
  finally show "tx_pending (snd (send_response r c)) = wire_response r" .
qed

text \<open>Popping repeatedly, with the time base and the size of each request.\<close>

fun pop_many :: "(timebase \<times> u16) list \<Rightarrow> comm \<Rightarrow> u8 list \<times> comm" where
  "pop_many [] c = ([], c)"
| "pop_many ((tb, len) # ls) c =
    (case pop_data tb len c of (bs, c1) \<Rightarrow> case pop_many ls c1 of (bs', c2) \<Rightarrow> (bs @ bs', c2))"

definition total_len :: "(timebase \<times> u16) list \<Rightarrow> nat" where
  "total_len ls = (\<Sum>p\<leftarrow>ls. unat (snd p))"

lemma pop_many_prefix:
  "comm_inv c \<Longrightarrow> fst (pop_many ls c) = take (total_len ls) (tx_pending c)
    \<and> tx_pending (snd (pop_many ls c)) = drop (total_len ls) (tx_pending c)
    \<and> comm_inv (snd (pop_many ls c))"
proof (induction ls arbitrary: c)
  case Nil
  then show ?case by (simp add: total_len_def)
next
  case (Cons p ls)
  obtain tb len where p: "p = (tb, len)" by force
  obtain bs c1 where pop: "pop_data tb len c = (bs, c1)" by force
  obtain bs' c2 where rest: "pop_many ls c1 = (bs', c2)" by force
  have "bs = take (unat len) (tx_pending c)" "tx_pending c1 = drop (unat len) (tx_pending c)"
    "comm_inv c1"
    using pop_data_prefix [of c tb len] comm_inv_pop_data [OF Cons.prems, of tb len] pop Cons.prems
    by (auto simp: comm_inv_def)
  with Cons.IH [OF this(3)] show ?case
    by (simp add: p pop rest total_len_def take_add add.commute)
qed

lemma length_wire_response:
  "unat (rs_data_length r) \<le> length (rs_data r) \<Longrightarrow>
    length (wire_response r) = RESPONSE_OVERHEAD + unat (rs_data_length r)"
  by (simp add: wire_response_def response_body_def response_payload_def be16.length_enc be32.length_enc)

text \<open>
  C6: a response accepted by the handler is transmitted exactly: whatever the sizes of the
  successive \<open>pop_data\<close> calls, the bytes they return are, in order, the first bytes of the response's
  frame, its command with the response flag, its code, its length, its payload and the CRC of
  all that, and nothing after it.
\<close>

theorem response_transmitted:
  assumes "comm_inv c" "cm_enabled c" "cm_state c = Comm_Idle"
    "rs_data_length r \<le> cm_tx_buffer_size c" "length (rs_data r) = unat (cm_tx_buffer_size c)"
  shows "fst (send_response r c)
    \<and> fst (pop_many ls (snd (send_response r c))) = take (total_len ls) (wire_response r)
    \<and> tx_pending (snd (pop_many ls (snd (send_response r c)))) = drop (total_len ls) (wire_response r)"
proof -
  have "cm_nbytes_sent c = 0"
    using assms(1,3) by (simp add: comm_inv_def tx_inv_def Let_def)
  from send_response_pending [OF assms(2-4) this]
    pop_many_prefix [OF comm_inv_send_response [OF assms(1,5)], of ls]
  show ?thesis by simp
qed

text \<open>The handler of the examples.\<close>

lemma demo_comm_inv: "comm_inv demo_comm" "cm_enabled demo_comm" "cm_state demo_comm = Comm_Idle"
  unfolding demo_comm_def
  by ((rule comm_inv_init; simp add: word_le_nat_alt),
      (rule comm_inv_init; simp add: word_le_nat_alt),
      simp add: comm_init_def comm_reset_def reset_rx_def reset_tx_def Let_def)

definition demo_response :: response where
  "demo_response = \<lparr>rs_command_id = 2, rs_subfunction_id = 1, rs_response_code = 0, rs_data_length = 3,
    rs_data_max_length = 32, rs_data = [7, 8, 9] @ replicate 29 0, rs_crc = 0\<rparr>"

theorem response_transmitted_witness:
  "fst (pop_many [(tb_init, 4), (tb_init, 20)] (snd (send_response demo_response demo_comm)))
    = wire_response demo_response"
  using response_transmitted [OF demo_comm_inv, of demo_response "[(tb_init, 4), (tb_init, 20)]"]
  by (simp add: demo_response_def demo_comm_ready total_len_def length_wire_response word_le_nat_alt)

end
