(* ===== verification/CommSession.thy ===== *)
theory CommSession
  imports CommTransmit
begin

text \<open>
  The communication handler as a state machine: every public operation is a transition, the
  invariant holds in every reachable state, and so do the consequences drawn from it. Then the
  session: connection, heartbeat, timeouts, and the ways reception and transmission go wrong.
\<close>

section \<open>The state machine\<close>

text \<open>
  Every public operation, in any state: nothing stops a user of the handler from preparing a response
  while another one is being sent. A chunk has at most 65535 bytes, and the response that is sent lies
  in the buffer of the handler, as the one that \<open>prepare_response\<close> returns.
\<close>

inductive comm_step :: "comm \<Rightarrow> comm \<Rightarrow> bool" where
  receive: "length data < 65536 \<Longrightarrow> receive_data tb data c = Some c' \<Longrightarrow> comm_step c c'"
| prepare: "comm_step c (prepare_response c)"
| send: "length (rs_data r) = unat (cm_tx_buffer_size c) \<Longrightarrow> comm_step c (snd (send_response r c))"
| pop: "comm_step c (snd (pop_data tb len c))"
| process: "comm_step c (comm_process tb c)"
| beat: "comm_step c (snd (heartbeat tb challenge c))"
| connect: "comm_step c (snd (comm_connect tb c))"
| disconnect: "comm_step c (comm_disconnect tb c)"
| reset: "comm_step c (comm_reset tb c)"
| wait_request: "comm_step c (wait_next_request tb c)"
| enable: "comm_step c (comm_enable c)"
| disable: "comm_step c (comm_disable tb c)"

inductive comm_reach :: "comm \<Rightarrow> comm \<Rightarrow> bool" where
  start: "comm_reach c c"
| next_step: "comm_reach c d \<Longrightarrow> comm_step d e \<Longrightarrow> comm_reach c e"

inductive_cases comm_stepE: "comm_step c d"

lemma receive_data_inv:
  assumes "comm_inv c" "length data < 65536"
  shows "\<exists>c'. receive_data tb data c = Some c' \<and> comm_inv c'"
proof (cases "cm_enabled c \<and> cm_state c \<noteq> Comm_Transmitting")
  case False
  with assms show ?thesis by (auto simp: receive_data_def comm_inv_def comm_simps)
next
  case True
  let ?c = "rx_start_chunk tb data c"
  have start: "comm_inv ?c" "cm_state ?c \<noteq> Comm_Transmitting"
    using rx_start_chunk_inv assms(1) True by blast+
  from rx_loop_total [of ?c data tb] start assms(2) obtain c' where
    "rx_loop tb data ?c = Some c'" "rx_inv c'" "tx_inv c' = tx_inv ?c"
    by (auto simp: comm_inv_def)
  with True start show ?thesis
    by (auto simp: receive_data_def comm_inv_def)
qed

text \<open>
  Every operation keeps the invariant, in every state where it holds, but for one: a response prepared
  while another one is being sent.
\<close>

lemma comm_step_inv:
  "comm_step c d \<Longrightarrow> comm_inv c \<Longrightarrow> comm_inv d \<or> cm_state c = Comm_Transmitting \<and> d = prepare_response c"
proof (induction rule: comm_step.induct)
  case (receive data tb c c')
  then show ?case using receive_data_inv [of c data tb] by auto
next
  case (prepare c)
  then show ?case using comm_inv_prepare by blast
qed (auto simp: wait_next_request_def intro: comm_inv_send_response comm_inv_pop_data
    comm_inv_process comm_inv_heartbeat comm_inv_connect comm_inv_disconnect comm_inv_reset
    comm_inv_reset_rx comm_inv_enable comm_inv_disable)

text \<open>That operation does break it as soon as the response being sent has data: the frame that is left
  is no longer as long as was announced.\<close>

lemma prepare_breaks_transmission:
  assumes "comm_inv c" "cm_state c = Comm_Transmitting" "rs_data_length (cm_active_response c) \<noteq> 0"
  shows "\<not> comm_inv (prepare_response c)" "data_to_send (prepare_response c) \<noteq> 0"
    "length (tx_pending (prepare_response c)) < unat (data_to_send (prepare_response c))"
proof -
  let ?r = "cm_active_response c" and ?d = "prepare_response c"
  have tx: "tx_inv c" using assms(1) by (simp add: comm_inv_def)
  have pos: "0 < unat (rs_data_length ?r)" using assms(3) by (simp add: unat_gt_0)
  with assms(2) tx show "\<not> comm_inv ?d" by (simp add: comm_inv_def tx_inv_def prepare_response_def Let_def)
  have lens: "unat (cm_nbytes_to_send c) = 9 + unat (rs_data_length ?r)" "cm_nbytes_sent c < cm_nbytes_to_send c"
    using tx assms(2) by (simp_all add: tx_inv_def Let_def)
  have left: "unat (data_to_send ?d) = unat (cm_nbytes_to_send c) - unat (cm_nbytes_sent c)"
    using assms(2) lens(2) by (simp add: data_to_send_def prepare_response_def unat_sub less_imp_le)
  with lens(2) have "0 < unat (data_to_send ?d)" by (simp add: word_less_nat_alt)
  then show "data_to_send ?d \<noteq> 0" by auto
  have "length (tx_pending ?d) = 9 - unat (cm_nbytes_sent c)"
    using assms(2) by (simp add: tx_pending_def prepare_response_def length_response_frame)
  with left lens pos show "length (tx_pending ?d) < unat (data_to_send ?d)" by (simp add: word_less_nat_alt)
qed

section \<open>Whatever the order of the operations\<close>

text \<open>What is left of the invariant then: a transmission may have lost its frame, not its buffer.\<close>

definition tx_safe :: "comm \<Rightarrow> bool" where
  "tx_safe c =
    (let r = cm_active_response c
     in length (rs_data r) = unat (cm_tx_buffer_size c)
      \<and> MINIMUM_TX_BUFFER_SIZE \<le> cm_tx_buffer_size c \<and> cm_tx_buffer_size c \<le> MAXIMUM_TX_BUFFER_SIZE
      \<and> (if cm_state c = Comm_Transmitting
         then cm_enabled c \<and> rs_data_length r \<le> cm_tx_buffer_size c
            \<and> unat (cm_nbytes_to_send c) \<le> RESPONSE_OVERHEAD + unat (cm_tx_buffer_size c)
            \<and> cm_nbytes_sent c < cm_nbytes_to_send c
         else cm_nbytes_sent c = 0))"

definition comm_safe :: "comm \<Rightarrow> bool" where
  "comm_safe c = (rx_inv c \<and> tx_safe c)"

lemma comm_inv_safe: "comm_inv c \<Longrightarrow> comm_safe c"
  by (auto simp: comm_inv_def comm_safe_def tx_inv_def tx_safe_def Let_def word_le_nat_alt split: if_splits)

lemma comm_safe_idle: "cm_state c \<noteq> Comm_Transmitting \<Longrightarrow> comm_safe c = comm_inv c"
  by (simp add: comm_inv_def comm_safe_def tx_inv_def tx_safe_def)

lemma pop_crc_advances:
  "pop_crc k c = (bs, d) \<Longrightarrow> d = c\<lparr>cm_nbytes_sent := cm_nbytes_sent c + of_nat (length bs)\<rparr> \<and> length bs \<le> k"
proof (induction k arbitrary: c bs d)
  case (Suc k)
  let ?c = "c\<lparr>cm_nbytes_sent := cm_nbytes_sent c + 1\<rparr>"
  obtain bs1 d1 where run: "pop_crc k ?c = (bs1, d1)" by force
  with Suc.prems have "bs = [] \<and> d = c \<or> (\<exists>b. bs = b # bs1) \<and> d = d1"
    by (auto simp: Let_def split: if_splits)
  with Suc.IH [OF run] show ?case by (auto simp: add.assoc)
qed simp

lemma pop_frame_advances:
  assumes "n < 65536" "unat (cm_nbytes_sent c) + n < 65536" "unat (cm_nbytes_sent c) < 65535"
    "unat (rs_data_length (cm_active_response c)) \<le> length (rs_data (cm_active_response c))"
  shows "\<exists>bs. pop_frame n c = (bs, c\<lparr>cm_nbytes_sent := cm_nbytes_sent c + of_nat (length bs)\<rparr>) \<and> length bs \<le> n"
proof -
  define bs1 where "bs1 = take n (drop (unat (cm_nbytes_sent c)) (response_header (cm_active_response c)))"
  define c1 where "c1 = c\<lparr>cm_nbytes_sent := cm_nbytes_sent c + of_nat (length bs1)\<rparr>"
  have header: "pop_header n c = (bs1, c1)" using assms(3) by (simp add: pop_header_spec bs1_def c1_def)
  have n1: "length bs1 \<le> n" by (simp add: bs1_def)
  show ?thesis
  proof (cases "cm_nbytes_sent c1 \<ge> 5 \<and> length bs1 < n")
    case False
    have "pop_frame n c = (bs1, c1)" unfolding pop_frame_def Let_def header case_prod_conv if_not_P [OF False] ..
    with n1 show ?thesis unfolding c1_def by blast
  next
    case True
    define bs2 where "bs2 = take (n - length bs1) (drop (unat (cm_nbytes_sent c1) - 5) (response_payload (cm_active_response c1)))"
    define c2 where "c2 = c1\<lparr>cm_nbytes_sent := cm_nbytes_sent c1 + of_nat (length bs2)\<rparr>"
    have payload: "pop_payload (n - length bs1) c1 = (bs2, c2)"
      unfolding bs2_def c2_def by (rule pop_payload_spec) (use True assms in \<open>simp_all add: c1_def word_le_nat_alt\<close>)
    obtain bs3 d where run: "pop_crc (n - length bs1 - length bs2) c2 = (bs3, d)" by force
    note crc = run pop_crc_advances [OF run]
    have "length bs2 \<le> n - length bs1" by (simp add: bs2_def)
    with True crc(2) have "length (bs1 @ bs2 @ bs3) \<le> n" by simp linarith
    with True header payload crc show ?thesis
      by (intro exI [of _ "bs1 @ bs2 @ bs3"]) (simp add: pop_frame_def c1_def c2_def add.assoc)
  qed
qed

lemma comm_safe_pop: "comm_safe c \<Longrightarrow> comm_safe (snd (pop_data tb len c))"
proof (cases "cm_state c = Comm_Transmitting")
  case True
  assume safe: "comm_safe c"
  then have tx: "tx_safe c" by (simp add: comm_safe_def)
  let ?left = "cm_nbytes_to_send c - cm_nbytes_sent c"
  define n where "n = unat (if len > ?left then ?left else len)"
  have lt: "unat (cm_nbytes_sent c) < unat (cm_nbytes_to_send c)" using tx True by (simp add: tx_safe_def Let_def word_less_nat_alt)
  then have left: "unat ?left = unat (cm_nbytes_to_send c) - unat (cm_nbytes_sent c)"
    by (intro unat_sub) (simp add: word_le_nat_alt)
  then have n: "unat (cm_nbytes_sent c) + n \<le> unat (cm_nbytes_to_send c)"
    using lt by (auto simp: n_def word_less_nat_alt not_less)
  have small: "unat (cm_nbytes_to_send c) < 65536" by simp
  have "n < 65536" "unat (cm_nbytes_sent c) + n < 65536" "unat (cm_nbytes_sent c) < 65535" using n lt small by linarith+
  from pop_frame_advances [OF this] tx True obtain bs where
    bs: "pop_frame n c = (bs, c\<lparr>cm_nbytes_sent := cm_nbytes_sent c + of_nat (length bs)\<rparr>)" "length bs \<le> n"
    by (auto simp: tx_safe_def Let_def word_le_nat_alt)
  let ?c = "c\<lparr>cm_nbytes_sent := cm_nbytes_sent c + of_nat (length bs)\<rparr>"
  have "unat (cm_nbytes_sent c) + length bs < 65536" using n bs(2) small by linarith
  have pop: "snd (pop_data tb len c) = (if cm_nbytes_sent ?c \<ge> cm_nbytes_to_send c then wait_next_request tb (reset_tx ?c) else ?c)"
    using True bs(1) by (simp add: pop_data_def Let_def n_def)
  have rx: "rx_inv ?c" using safe by (simp add: comm_safe_def comm_simps)
  show ?thesis
  proof (cases "cm_nbytes_sent ?c \<ge> cm_nbytes_to_send c")
    case over: True
    have "tx_inv (reset_tx ?c)" using tx True by (simp add: tx_inv_def tx_safe_def reset_tx_def Let_def)
    then have "comm_inv (reset_rx tb (reset_tx ?c))" using rx by (intro comm_inv_reset_rx) (simp add: comm_inv_def rx_inv_reset_tx)
    with over show ?thesis unfolding pop by (simp add: wait_next_request_def comm_inv_safe)
  next
    case False
    then have "tx_safe ?c" using tx True by (simp add: tx_safe_def Let_def not_le)
    with rx False show ?thesis unfolding pop by (simp add: comm_safe_def)
  qed
qed (simp add: pop_data_def)

text \<open>The operations of the session, which end the transmission or leave it alone.\<close>

lemma tx_safe_cong:
  "cm_active_response c = cm_active_response d \<Longrightarrow> cm_tx_buffer_size c = cm_tx_buffer_size d \<Longrightarrow>
   (cm_state c = Comm_Transmitting) = (cm_state d = Comm_Transmitting) \<Longrightarrow> cm_enabled c = cm_enabled d \<Longrightarrow>
   cm_nbytes_to_send c = cm_nbytes_to_send d \<Longrightarrow> cm_nbytes_sent c = cm_nbytes_sent d \<Longrightarrow> tx_safe c = tx_safe d"
  by (simp add: tx_safe_def)

lemma comm_safe_reset_rx: "comm_safe c \<Longrightarrow> comm_safe (reset_rx tb c)"
  using tx_safe_cong [of "reset_rx tb c" c]
  by (simp add: comm_safe_def rx_inv_reset_rx) (simp add: reset_rx_def Let_def)

lemma comm_safe_reset_tx: "comm_safe c \<Longrightarrow> comm_safe (reset_tx c)"
  by (simp add: comm_safe_def rx_inv_reset_tx) (simp add: tx_safe_def reset_tx_def Let_def)

lemma comm_safe_fields:
  "comm_safe (c\<lparr>cm_session_id := i, cm_session_active := a, cm_first_heartbeat_received := h\<rparr>) = comm_safe c"
  "comm_safe (c\<lparr>cm_session_id := i, cm_session_counter := k, cm_session_active := a, cm_first_heartbeat_received := h,
     cm_heartbeat_timestamp := t\<rparr>) = comm_safe c"
  "comm_safe (c\<lparr>cm_first_heartbeat_received := h, cm_heartbeat_timestamp := t, cm_last_heartbeat_challenge := ch\<rparr>) = comm_safe c"
  "comm_safe (c\<lparr>cm_tx_error := e\<rparr>) = comm_safe c" "comm_safe (c\<lparr>cm_rx_error := e'\<rparr>) = comm_safe c"
  by (simp_all add: comm_safe_def comm_simps) (simp_all add: tx_safe_def)

lemma comm_safe_reset: "comm_safe c \<Longrightarrow> comm_safe (comm_reset tb c)"
proof -
  assume safe: "comm_safe c"
  have rx: "rx_inv (comm_reset tb c)"
    using safe by (simp add: comm_safe_def comm_reset_def Let_def comm_simps rx_inv_reset_tx rx_inv_reset_rx)
  have "tx_safe (comm_reset tb c)"
    using safe by (simp add: comm_safe_def comm_reset_def Let_def tx_safe_def reset_tx_def reset_rx_def split: if_splits)
  with rx show ?thesis by (simp add: comm_safe_def)
qed

lemma comm_step_safe: "comm_step c d \<Longrightarrow> comm_safe c \<Longrightarrow> comm_safe d"
proof (induction rule: comm_step.induct)
  case (receive data tb c c')
  then show ?case
    using receive_data_inv [of c data tb] comm_safe_idle [of c] comm_inv_safe [of c'] by (auto simp: receive_data_def comm_safe_fields split: if_splits)
next
  case (prepare c)
  then show ?case by (simp add: comm_safe_def prepare_response_def comm_simps) (simp add: tx_safe_def Let_def)
next
  case (send r c)
  then show ?case
    using comm_inv_send_response [of c r] comm_safe_idle [of c] comm_inv_safe [of "snd (send_response r c)"]
    by (cases "cm_state c = Comm_Transmitting") (auto simp: send_response_def Let_def comm_safe_fields)
next
  case (disable c tb)
  then show ?case
    using comm_safe_reset [of c tb] by (simp add: comm_disable_def comm_safe_def comm_simps tx_safe_def Let_def comm_reset_def
        reset_tx_def reset_rx_def)
next
  case (enable c)
  then show ?case by (simp add: comm_enable_def comm_safe_def comm_simps tx_safe_def Let_def split: if_splits)
qed (simp_all add: wait_next_request_def comm_process_def heartbeat_def comm_connect_def comm_disconnect_def comm_safe_fields
    comm_safe_pop comm_safe_reset_rx comm_safe_reset_tx comm_safe_reset)

text \<open>
  From an initialisation with buffers of a legal size, whatever operations are called in whatever
  order: the payload received and the payload sent stay inside their buffers, which keep their size, the
  reception counters stay in range and a transmission never sends more bytes than it announced.
\<close>

theorem comm_reachable_safe:
  assumes "comm_reach (comm_init rx rx_size tx tx_size tb seed c0) c"
    "length rx = unat rx_size" "length tx = unat tx_size"
    "MINIMUM_RX_BUFFER_SIZE \<le> rx_size" "rx_size \<le> MAXIMUM_RX_BUFFER_SIZE"
    "MINIMUM_TX_BUFFER_SIZE \<le> tx_size" "tx_size \<le> MAXIMUM_TX_BUFFER_SIZE"
  shows "comm_safe c"
  using assms(1)
proof (induction "comm_init rx rx_size tx tx_size tb seed c0" c rule: comm_reach.induct)
  case start
  show ?case by (intro comm_inv_safe comm_inv_init) (use assms in simp_all)
next
  case (next_step d e)
  then show ?case using comm_step_safe by blast
qed

lemma demo_prepared_twice:
  "comm_reach (comm_init (replicate 32 0) 32 (replicate 32 0) 32 tb_init 7 blank_comm)
     (prepare_response (snd (send_response demo_response demo_comm)))"
  unfolding demo_comm_def [symmetric]
proof (rule comm_reach.next_step [OF comm_reach.next_step [OF comm_reach.start comm_step.send] comm_step.prepare])
  show "length (rs_data demo_response) = unat (cm_tx_buffer_size demo_comm)"
    by (simp add: demo_response_def demo_comm_ready)
qed

theorem comm_reachable_safe_witness:
  "comm_safe (prepare_response (snd (send_response demo_response demo_comm)))"
  by (rule comm_reachable_safe [OF demo_prepared_twice]) (simp_all add: word_le_nat_alt)

text \<open>
  C8: \<open>receive_data\<close> returns in every state that keeps the invariant, which those of the main handler do
  (\<open>main_reachable_inv\<close>), whatever bytes it is given: the loop over the received bytes ends.
\<close>

theorem receive_data_returns:
  assumes "comm_inv c" "length data < 65536"
  shows "\<exists>c'. receive_data tb data c = Some c'"
  using receive_data_inv [OF assms] by blast

theorem receive_data_returns_witness: "\<exists>c'. receive_data tb_init [0xFF, 3, 0, 0] demo_comm = Some c'"
  by (rule receive_data_returns) (simp_all add: demo_comm_inv)

text \<open>The states that any order of operations reaches are enough: nothing is read during a transmission.\<close>

lemma safe_receive_returns: "comm_safe c \<Longrightarrow> length data < 65536 \<Longrightarrow> \<exists>c'. receive_data tb data c = Some c'"
  using receive_data_inv [of c data tb] by (cases "cm_state c = Comm_Transmitting") (auto simp: receive_data_def comm_safe_idle)

section \<open>Recovery after an interrupted reception\<close>

lemma start_chunk_expired:
  assumes "d \<noteq> []" "has_expired tb (cm_last_rx_timestamp c) RX_TIMEOUT_100NS" "comm_inv c"
    "cm_enabled c" "cm_state c \<noteq> Comm_Transmitting"
  defines "c' \<equiv> rx_start_chunk tb d c"
  shows "rx_at cmd subfn payload cb 0 c'" "receive_data tb d c = rx_loop tb d c'"
    "cm_session_active c' = cm_session_active c" "cm_rx_buffer_size c' = cm_rx_buffer_size c"
    "length (rq_data (cm_active_request c')) = unat (cm_rx_buffer_size c)"
  using assms by (simp_all add: rx_start_chunk_def receive_data_def rx_at_def Let_def reset_rx_def
      comm_inv_def rx_inv_def)

text \<open>
  C9: after a silence of the reception timeout a valid frame is delivered whatever the state the
  reception was left in: in the middle of a frame, in error, or with a request never processed.
\<close>

theorem receive_recovers:
  assumes "comm_inv c" "cm_enabled c" "cm_state c \<noteq> Comm_Transmitting"
    "has_expired tb (cm_last_rx_timestamp c) RX_TIMEOUT_100NS"
    "cmd AND 0x80 = 0" "length payload \<le> unat (cm_rx_buffer_size c)"
    "cm_session_active c \<or> opens_session cmd subfn payload"
  shows "\<exists>c'. receive_data tb (request_frame cmd subfn payload) c = Some c' \<and> delivers cmd subfn payload c'"
proof -
  let ?cb = "encode_32_bits_big_endian (crc32 (request_body cmd subfn payload) 0)"
  let ?f = "request_frame cmd subfn payload"
  have f: "?f \<noteq> []" by (simp add: raw_request_frame)
  note start = start_chunk_expired [OF f assms(4,1-3)]
  have fits: "rx_fits cmd payload ?cb (rx_start_chunk tb ?f c)"
    using start assms by (simp add: rx_fits_def be32.length_enc comm_inv_def rx_inv_def Let_def)
  from rx_loop_last [OF start(1) fits _ f] obtain c0 where c0:
    "rx_loop tb ?f (rx_start_chunk tb ?f c) = Some (rx_judge tb c0)"
    "rx_complete cmd subfn payload ?cb c0"
    "rx_frame ((rx_start_chunk tb ?f c)\<lparr>cm_state := Comm_Idle\<rparr>) c0"
    by (auto simp: raw_request_frame)
  have "delivers cmd subfn payload (rx_judge tb c0)"
    by (rule judge_delivers [OF c0(2)])
      (use assms(6,7) rx_frame_fields [OF c0(3)] start(3,5) in \<open>auto simp: be32.dec_enc
        intro: le_less_trans [OF _ unat_u16_lt]\<close>)
  with c0(1) start(2) show ?thesis by simp
qed

theorem receive_recovers_witness:
  "\<exists>c'. receive_data (tb_step 500000 tb_init) (request_frame 2 4 []) demo_comm = Some c'
    \<and> delivers 2 4 [] c'"
  by (rule receive_recovers)
    (simp_all add: demo_comm_inv demo_comm_ready has_expired_def elapsed_since_def opens_session_def
      tb_init_def tb_step_def)

section \<open>The session\<close>

text \<open>
  C10: a heartbeat that is accepted restarts the session's 5 s timer and the timer alone decides: at
  the next \<open>process\<close> the session is still there exactly when less than 5 s went by (modulo the
  wrap of the counter), and a replay of the same challenge is not accepted.
\<close>

theorem heartbeat_keeps_session:
  assumes "fst (heartbeat tb challenge c)"
  shows "cm_session_active (comm_process (fold tb_step steps tb) (snd (heartbeat tb challenge c)))
      = (total_time steps mod 2 ^ 32 < 50000000)
    \<and> heartbeat tb' challenge (snd (heartbeat tb challenge c)) = (False, snd (heartbeat tb challenge c))"
proof -
  let ?d = "snd (heartbeat tb challenge c)" and ?tb = "fold tb_step steps tb"
  have d: "cm_session_active ?d" "cm_heartbeat_timestamp ?d = get_timestamp tb" "cm_enabled ?d"
    "cm_last_heartbeat_challenge ?d = challenge" "cm_first_heartbeat_received ?d"
    using assms by (auto simp: heartbeat_def split: if_splits)
  have "has_expired ?tb (get_timestamp tb) HEARTBEAT_TIMEOUT_100NS \<longleftrightarrow> 50000000 \<le> total_time steps mod 2 ^ 32"
    by (simp add: has_expired_def word_le_nat_alt elapsed_after_steps)
  then show ?thesis
    using d by (auto simp: comm_process_def comm_reset_def reset_rx_def reset_tx_def Let_def heartbeat_def)
qed

theorem heartbeat_keeps_session_witness:
  "cm_session_active (comm_process (fold tb_step [30000000, 19999999] tb_init)
     (snd (heartbeat tb_init 5 (snd (comm_connect tb_init demo_comm)))))
   \<and> \<not> cm_session_active (comm_process (fold tb_step [30000000, 20000000] tb_init)
     (snd (heartbeat tb_init 5 (snd (comm_connect tb_init demo_comm)))))"
proof -
  have hb: "fst (heartbeat tb_init 5 (snd (comm_connect tb_init demo_comm)))"
    by (simp add: heartbeat_def comm_connect_def demo_comm_inv demo_comm_ready reset_rx_def Let_def)
  from heartbeat_keeps_session [OF hb, of "[30000000, 19999999]" tb_init]
    heartbeat_keeps_session [OF hb, of "[30000000, 20000000]" tb_init]
  show ?thesis by (simp add: total_time_def)
qed

text \<open>
  C11: the losing race of the half-duplex link: one byte that arrives while a request waits to be
  processed changes nothing in the request but puts the handler in the receiving state, so the
  response to that request is refused as \<open>Busy\<close> and nothing is transmitted.
\<close>

theorem late_byte_blocks_response:
  assumes "cm_enabled c" "cm_request_received c" "cm_state c = Comm_Idle" "data \<noteq> []"
    "\<not> has_expired tb (cm_last_rx_timestamp c) RX_TIMEOUT_100NS"
  shows "\<exists>c'. receive_data tb data c = Some c' \<and> cm_request_received c'
    \<and> cm_active_request c' = cm_active_request c
    \<and> fst (send_response r c') = False \<and> cm_tx_error (snd (send_response r c')) = TxError_Busy
    \<and> tx_pending (snd (send_response r c')) = []"
  using assms
  by (simp add: receive_data_def rx_start_chunk_def Let_def rx_loop_done send_response_def tx_pending_def)

theorem late_byte_blocks_response_witness:
  "\<exists>c'. receive_data tb_init [0] (demo_comm\<lparr>cm_request_received := True, cm_rx_state := WaitForProcess\<rparr>) = Some c'
    \<and> fst (send_response demo_response c') = False"
  using late_byte_blocks_response [of "demo_comm\<lparr>cm_request_received := True, cm_rx_state := WaitForProcess\<rparr>"
    "[0]" tb_init demo_response]
  by (auto simp: demo_comm_inv demo_comm_ready has_expired_def elapsed_since_def tb_init_def word_le_nat_alt)

text \<open>
  A frame that announces a payload larger than the reception buffer is refused when its first
  payload byte arrives: the error is recorded, the buffer is not touched and the handler ignores
  the rest until a timeout.
\<close>

theorem receive_overflow:
  assumes "rx_ready c" "in_time (cm_last_rx_timestamp c) [(tb, [cmd, subfn, hi, lo, b] @ bs)]"
    "cmd AND 0x80 = 0" "push_bit 8 (ucast hi) OR ucast lo > cm_rx_buffer_size c"
  shows "\<exists>c'. receive_data tb ([cmd, subfn, hi, lo, b] @ bs) c = Some c'
    \<and> cm_rx_error c' = RxError_Overflow \<and> cm_rx_state c' = RxFSM_Error
    \<and> rq_data (cm_active_request c') = rq_data (cm_active_request c) \<and> \<not> cm_request_received c'"
proof -
  let ?d = "[cmd, subfn, hi, lo, b] @ bs" and ?len = "push_bit 8 (ucast hi) OR ucast lo :: u16"
  define d where "d = rx_start_chunk tb ?d c"
  have "?len \<noteq> 0" using assms(4) by auto
  moreover have "\<not> cm_request_received d" "cm_rx_state d = WaitForCommand"
    "cm_rx_buffer_size d = cm_rx_buffer_size c"
    and req: "cm_active_request d = cm_active_request c" "receive_data tb ?d c = rx_loop tb ?d d"
    using assms(1,2) by (auto simp: d_def rx_ready_def rx_start_chunk_def Let_def receive_data_def)
  ultimately show ?thesis
    unfolding req(2) req(1) [symmetric] using assms(3,4)
    by (subst rx_loop.simps, simp add: rx_step_def rx_wait_for_command_def Let_def,
        subst rx_loop.simps, simp add: rx_step_def rx_wait_for_subfunction_def comm_simps,
        subst rx_loop.simps, simp add: rx_step_def rx_wait_for_length_def rx_length_complete_def comm_simps Let_def,
        subst rx_loop.simps, simp add: rx_step_def rx_wait_for_data_def comm_simps Let_def,
        subst rx_loop.simps, simp add: comm_simps)
qed

theorem receive_overflow_witness:
  "\<exists>c'. receive_data tb_init ([3, 1, 0, 33, 0] @ []) demo_comm = Some c' \<and> cm_rx_error c' = RxError_Overflow"
  using receive_overflow [of demo_comm tb_init 3 1 0 33 0 "[]"]
  by (auto simp: demo_comm_ready has_expired_def elapsed_since_def tb_init_def word_le_nat_alt)

end
