(* ===== verification/Config.thy ===== *)
theory Config
  imports Codecs
begin

text \<open>
  The user's configuration: \<open>lib/inc/scrutiny_config.hpp\<close> and its .cpp, with the types that the
  user hands to the library (\<open>RuntimePublishedValue\<close>, the callbacks). A pointer to an array is an
  option of the list of its elements; a null callback is \<open>None\<close>. The callbacks are user code: they
  are functions on the world, which is the target's memory and whatever state \<open>'u\<close> the user keeps.
  A pointer to a loop handler is its index in the store of loop handlers.
\<close>

section \<open>What the user provides\<close>

record rpv =
  rpv_id :: u16
  rpv_type :: variable_type

record 'u world =
  w_memory :: memory
  w_user :: 'u

type_synonym loop_ref = nat

text \<open>
  The read callback is given the value it may overwrite and the loop handler that asks (a null
  pointer from the main handler); it returns its success. The write callback is only called with
  a null pointer, left out here.
\<close>

type_synonym 'u rpv_read_callback = 
  "rpv \<Rightarrow> anytype \<Rightarrow> loop_ref option \<Rightarrow> 'u world \<Rightarrow> bool \<times> anytype \<times> 'u world"
type_synonym 'u rpv_write_callback = "rpv \<Rightarrow> anytype \<Rightarrow> 'u world \<Rightarrow> bool \<times> 'u world"

text \<open>
  A user command is given the subfunction, the request's payload, the response buffer, the
  response length (0) and the buffer's size; it returns the buffer and the length as it left them.
\<close>

type_synonym 'u user_command_callback =
  "u8 \<Rightarrow> u8 list \<Rightarrow> u8 list \<Rightarrow> u16 \<Rightarrow> u16 \<Rightarrow> 'u world \<Rightarrow> u8 list \<times> u16 \<times> 'u world"
type_synonym 'u trigger_callback = "'u world \<Rightarrow> 'u world"

text \<open>
  What is fixed in a loop handler (\<open>lib/inc/scrutiny_loop_handler.hpp\<close>): its name and what its
  class says of its type and of its timestep (0 for a variable-frequency loop).
\<close>

record loop_info =
  li_loop_type :: u8
  li_timestep_100ns :: u32
  li_name :: "u8 list option"
  li_support_datalogging :: bool

abbreviation (input) LoopType_FIXED_FREQ :: u8 where "LoopType_FIXED_FREQ \<equiv> 0"
abbreviation (input) LoopType_VARIABLE_FREQ :: u8 where "LoopType_VARIABLE_FREQ \<equiv> 1"

definition fixed_frequency_loop :: "u32 \<Rightarrow> u8 list option \<Rightarrow> loop_info" where
  "fixed_frequency_loop timestep_100ns name =
    \<lparr>li_loop_type = LoopType_FIXED_FREQ, li_timestep_100ns = timestep_100ns, li_name = name,
     li_support_datalogging = True\<rparr>"

definition variable_frequency_loop :: "u8 list option \<Rightarrow> loop_info" where
  "variable_frequency_loop name =
    \<lparr>li_loop_type = LoopType_VARIABLE_FREQ, li_timestep_100ns = 0, li_name = name,
     li_support_datalogging = True\<rparr>"

definition allow_datalogging :: "bool \<Rightarrow> 'a loop_info_scheme \<Rightarrow> 'a loop_info_scheme" where
  "allow_datalogging val l = l\<lparr>li_support_datalogging := val\<rparr>"

definition datalogging_allowed :: "'a loop_info_scheme \<Rightarrow> bool" where
  "datalogging_allowed l = li_support_datalogging l"

section \<open>The configuration\<close>

record 'u config =
  cf_max_bitrate :: u32
  cf_session_counter_seed :: u32
  cf_display_name :: "u8 list option"
  cf_memory_write_enable :: bool
  cf_rx_buffer :: "u8 list option"
  cf_tx_buffer :: "u8 list option"
  cf_forbidden_ranges :: "address_range list option"
  cf_readonly_ranges :: "address_range list option"
  cf_forbidden_range_count :: u8
  cf_readonly_range_count :: u8
  cf_rpvs :: "rpv list option"
  cf_rpv_read_callback :: "'u rpv_read_callback option"
  cf_rpv_write_callback :: "'u rpv_write_callback option"
  cf_user_command_callback :: "'u user_command_callback option"
  cf_loops :: "loop_ref list option"
  cf_rx_buffer_size :: u16
  cf_tx_buffer_size :: u16
  cf_rpv_count :: u16
  cf_loop_count :: u8
  cf_datalogger_buffer :: "u8 list option"
  cf_datalogger_buffer_size :: u32
  cf_trigger_callback :: "'u trigger_callback option"

definition config_clear :: "'u config" where
  "config_clear =
    \<lparr>cf_max_bitrate = 0, cf_session_counter_seed = 0, cf_display_name = Some [0],
     cf_memory_write_enable = True, cf_rx_buffer = None, cf_tx_buffer = None,
     cf_forbidden_ranges = None, cf_readonly_ranges = None, cf_forbidden_range_count = 0,
     cf_readonly_range_count = 0, cf_rpvs = None, cf_rpv_read_callback = None,
     cf_rpv_write_callback = None, cf_user_command_callback = None, cf_loops = None,
     cf_rx_buffer_size = 0, cf_tx_buffer_size = 0, cf_rpv_count = 0, cf_loop_count = 0,
     cf_datalogger_buffer = None, cf_datalogger_buffer_size = 0, cf_trigger_callback = None\<rparr>"

definition set_buffers ::
  "u8 list option \<Rightarrow> u16 \<Rightarrow> u8 list option \<Rightarrow> u16 \<Rightarrow> 'u config \<Rightarrow> 'u config" where
  "set_buffers rx rx_size tx tx_size cf =
    cf\<lparr>cf_rx_buffer := rx, cf_rx_buffer_size := rx_size, cf_tx_buffer := tx, cf_tx_buffer_size := tx_size\<rparr>"

definition set_forbidden_address_range :: "address_range list option \<Rightarrow> u8 \<Rightarrow> 'u config \<Rightarrow> 'u config" where
  "set_forbidden_address_range ranges count cf =
    cf\<lparr>cf_forbidden_ranges := ranges, cf_forbidden_range_count := count\<rparr>"

definition set_readonly_address_range :: "address_range list option \<Rightarrow> u8 \<Rightarrow> 'u config \<Rightarrow> 'u config" where
  "set_readonly_address_range ranges count cf =
    cf\<lparr>cf_readonly_ranges := ranges, cf_readonly_range_count := count\<rparr>"

definition set_published_values ::
  "rpv list option \<Rightarrow> u16 \<Rightarrow> 'u rpv_read_callback option \<Rightarrow> 'u rpv_write_callback option \<Rightarrow>
   'u config \<Rightarrow> 'u config" where
  "set_published_values rpvs nbr rd_cb wr_cb cf =
    cf\<lparr>cf_rpvs := rpvs, cf_rpv_count := nbr, cf_rpv_read_callback := rd_cb,
       cf_rpv_write_callback := wr_cb\<rparr>"

definition set_loops :: "loop_ref list option \<Rightarrow> u8 \<Rightarrow> 'u config \<Rightarrow> 'u config" where
  "set_loops loops loop_count cf = cf\<lparr>cf_loops := loops, cf_loop_count := loop_count\<rparr>"

definition set_user_command_callback :: "'u user_command_callback option \<Rightarrow> 'u config \<Rightarrow> 'u config" where
  "set_user_command_callback cb cf = cf\<lparr>cf_user_command_callback := cb\<rparr>"

definition set_datalogging_buffers :: "u8 list option \<Rightarrow> u32 \<Rightarrow> 'u config \<Rightarrow> 'u config" where
  "set_datalogging_buffers buffer size' cf =
    cf\<lparr>cf_datalogger_buffer := buffer, cf_datalogger_buffer_size := size'\<rparr>"

definition set_datalogging_trigger_callback :: "'u trigger_callback option \<Rightarrow> 'u config \<Rightarrow> 'u config" where
  "set_datalogging_trigger_callback cb cf = cf\<lparr>cf_trigger_callback := cb\<rparr>"

section \<open>Queries\<close>

definition is_user_command_callback_set :: "'u config \<Rightarrow> bool" where
  "is_user_command_callback_set cf = (\<not> Option.is_none (cf_user_command_callback cf))"

definition is_buffer_set :: "'u config \<Rightarrow> bool" where
  "is_buffer_set cf = (\<not> Option.is_none (cf_rx_buffer cf) \<and> \<not> Option.is_none (cf_tx_buffer cf))"

definition is_forbidden_address_range_set :: "'u config \<Rightarrow> bool" where
  "is_forbidden_address_range_set cf = (\<not> Option.is_none (cf_forbidden_ranges cf))"

definition is_readonly_address_range_set :: "'u config \<Rightarrow> bool" where
  "is_readonly_address_range_set cf = (\<not> Option.is_none (cf_readonly_ranges cf))"

definition is_read_published_values_configured :: "'u config \<Rightarrow> bool" where
  "is_read_published_values_configured cf =
    (\<not> Option.is_none (cf_rpv_read_callback cf) \<and> \<not> Option.is_none (cf_rpvs cf) \<and> cf_rpv_count cf > 0)"

definition is_write_published_values_configured :: "'u config \<Rightarrow> bool" where
  "is_write_published_values_configured cf =
    (\<not> Option.is_none (cf_rpv_write_callback cf) \<and> \<not> Option.is_none (cf_rpvs cf) \<and> cf_rpv_count cf > 0)"

definition is_loop_handlers_configured :: "'u config \<Rightarrow> bool" where
  "is_loop_handlers_configured cf = (\<not> Option.is_none (cf_loops cf) \<and> cf_loop_count cf > 0)"

definition is_datalogging_configured :: "'u config \<Rightarrow> bool" where
  "is_datalogging_configured cf =
    (\<not> Option.is_none (cf_datalogger_buffer cf) \<and> cf_datalogger_buffer_size cf \<noteq> 0)"

text \<open>The first elements of a configured array, as many as its count says.\<close>

definition array_upto :: "'a list option \<Rightarrow> nat \<Rightarrow> 'a list" where
  "array_upto arr n = (case arr of None \<Rightarrow> [] | Some xs \<Rightarrow> take n xs)"

definition config_loops :: "'u config \<Rightarrow> loop_ref list" where
  "config_loops cf = array_upto (cf_loops cf) (unat (cf_loop_count cf))"

definition config_rpvs :: "'u config \<Rightarrow> rpv list" where
  "config_rpvs cf = array_upto (cf_rpvs cf) (unat (cf_rpv_count cf))"

definition has_at_least_one_loop_with_datalogging ::
  "(loop_ref \<Rightarrow> 'l loop_info_scheme) \<Rightarrow> 'u config \<Rightarrow> bool" where
  "has_at_least_one_loop_with_datalogging loops cf =
    list_ex (\<lambda>l. datalogging_allowed (loops l)) (config_loops cf)"

text \<open>\<open>MainHandler::get_rpv\<close>: the first published value with the identifier.\<close>

definition get_rpv :: "'u config \<Rightarrow> u16 \<Rightarrow> rpv option" where
  "get_rpv cf i = find (\<lambda>r. rpv_id r = i) (config_rpvs cf)"

definition get_rpv_type :: "'u config \<Rightarrow> u16 \<Rightarrow> variable_type" where
  "get_rpv_type cf i = (case get_rpv cf i of None \<Rightarrow> VT_unknown | Some r \<Rightarrow> rpv_type r)"

text \<open>\<open>check_config\<close> accepts only published values of these types.\<close>

definition rpvs_supported :: "'u config \<Rightarrow> bool" where
  "rpvs_supported cf = list_all (\<lambda>r. is_supported_type (rpv_type r)) (config_rpvs cf)"

lemma get_rpv_supported: "rpvs_supported cf \<Longrightarrow> get_rpv cf i = Some r \<Longrightarrow> is_supported_type (rpv_type r) \<and> rpv_id r = i"
  by (auto simp: rpvs_supported_def get_rpv_def list_all_iff find_Some_iff)

section \<open>Protected regions\<close>

definition touches :: "uintptr \<Rightarrow> uintptr \<Rightarrow> address_range \<Rightarrow> bool" where
  "touches block_start block_end r = (block_start \<le> ar_end r \<and> block_end \<ge> ar_start r)"

definition touches_forbidden_region :: "'u config \<Rightarrow> uintptr \<Rightarrow> nat \<Rightarrow> bool" where
  "touches_forbidden_region cf addr_start len =
    (if \<not> is_forbidden_address_range_set cf then False
     else (let block_start = addr_start;
               block_end = block_start + of_nat len - 1
           in list_ex (touches block_start block_end)
                (array_upto (cf_forbidden_ranges cf) (unat (cf_forbidden_range_count cf)))))"

definition touches_readonly_region :: "'u config \<Rightarrow> uintptr \<Rightarrow> nat \<Rightarrow> bool" where
  "touches_readonly_region cf addr_start len =
    (if \<not> is_readonly_address_range_set cf then False
     else (let block_start = addr_start;
               block_end = block_start + of_nat len - 1
           in list_ex (touches block_start block_end)
                (array_upto (cf_readonly_ranges cf) (unat (cf_readonly_range_count cf)))))"

text \<open>The addresses of a range and of a block that does not run over the end of the address space.\<close>

definition range_addresses :: "address_range \<Rightarrow> uintptr set" where
  "range_addresses r = {a. ar_start r \<le> a \<and> a \<le> ar_end r}"

definition block_addresses :: "uintptr \<Rightarrow> nat \<Rightarrow> uintptr set" where
  "block_addresses a n = (\<lambda>i. a + of_nat i) ` {..<n}"

definition forbidden_addresses :: "'u config \<Rightarrow> uintptr set" where
  "forbidden_addresses cf =
    (\<Union>r \<in> set (array_upto (cf_forbidden_ranges cf) (unat (cf_forbidden_range_count cf))). range_addresses r)"

definition readonly_addresses :: "'u config \<Rightarrow> uintptr set" where
  "readonly_addresses cf =
    (\<Union>r \<in> set (array_upto (cf_readonly_ranges cf) (unat (cf_readonly_range_count cf))). range_addresses r)"

lemma block_interval:
  assumes "0 < n" "unat a + n \<le> 2 ^ 64"
  shows "block_addresses a n = {x. a \<le> x \<and> x \<le> a + of_nat n - 1}"
proof -
  have eq: "a + of_nat n - 1 = a + of_nat (n - 1)"
    using assms(1) by (simp add: of_nat_diff)
  have sum: "unat (a + of_nat i) = unat a + i" if "i < n" for i
    using that assms(2) by (simp add: unat_word_ariths unat_of_nat take_bit_eq_mod)
  show ?thesis
  proof (intro equalityI subsetI)
    fix x assume "x \<in> block_addresses a n"
    then obtain i where "i < n" "x = a + of_nat i" by (auto simp: block_addresses_def)
    then show "x \<in> {x. a \<le> x \<and> x \<le> a + of_nat n - 1}"
      unfolding eq using sum [of i] sum [of "n - 1"] assms(1) by (simp add: word_le_nat_alt)
  next
    fix x assume "x \<in> {x. a \<le> x \<and> x \<le> a + of_nat n - 1}"
    then have "unat a \<le> unat x" "unat x \<le> unat a + (n - 1)"
      unfolding eq using sum [of "n - 1"] assms(1) by (simp_all add: word_le_nat_alt)
    then have "x = a + of_nat (unat x - unat a)" "unat x - unat a < n"
      using assms(1) by (auto simp: of_nat_diff)
    then show "x \<in> block_addresses a n" unfolding block_addresses_def by blast
  qed
qed

lemma touches_iff:
  assumes "0 < n" "unat a + n \<le> 2 ^ 64" "ar_start r \<le> ar_end r"
  shows "touches a (a + of_nat n - 1) r \<longleftrightarrow> block_addresses a n \<inter> range_addresses r \<noteq> {}"
proof -
  have le: "a \<le> a + of_nat n - 1"
  proof -
    have "a + of_nat 0 \<in> block_addresses a n" using assms(1) unfolding block_addresses_def by blast
    then show ?thesis unfolding block_interval [OF assms(1,2)] by simp
  qed
  show ?thesis
    unfolding block_interval [OF assms(1,2)] range_addresses_def touches_def
  proof
    assume "a \<le> ar_end r \<and> a + of_nat n - 1 \<ge> ar_start r"
    then have "max a (ar_start r) \<in> {x. a \<le> x \<and> x \<le> a + of_nat n - 1} \<inter> {x. ar_start r \<le> x \<and> x \<le> ar_end r}"
      using le assms(3) by (auto simp: max_def)
    then show "{x. a \<le> x \<and> x \<le> a + of_nat n - 1} \<inter> {x. ar_start r \<le> x \<and> x \<le> ar_end r} \<noteq> {}" by blast
  next
    assume "{x. a \<le> x \<and> x \<le> a + of_nat n - 1} \<inter> {x. ar_start r \<le> x \<and> x \<le> ar_end r} \<noteq> {}"
    then show "a \<le> ar_end r \<and> a + of_nat n - 1 \<ge> ar_start r" by (auto intro: order_trans)
  qed
qed

text \<open>Every configured range has its ends in order.\<close>

definition ranges_ordered :: "address_range list option \<Rightarrow> bool" where
  "ranges_ordered rs = list_all (\<lambda>r. ar_start r \<le> ar_end r) (case rs of None \<Rightarrow> [] | Some xs \<Rightarrow> xs)"

lemma ranges_ordered_upto:
  "ranges_ordered rs \<Longrightarrow> r \<in> set (array_upto rs n) \<Longrightarrow> ar_start r \<le> ar_end r"
  by (auto simp: ranges_ordered_def array_upto_def list_all_iff split: option.splits dest: in_set_takeD)

lemma touches_ranges_iff:
  assumes "0 < n" "unat a + n \<le> 2 ^ 64" "ranges_ordered rs"
  shows "list_ex (touches a (a + of_nat n - 1)) (array_upto rs k)
    \<longleftrightarrow> block_addresses a n \<inter> (\<Union>r \<in> set (array_upto rs k). range_addresses r) \<noteq> {}"
proof -
  have "touches a (a + of_nat n - 1) r \<longleftrightarrow> block_addresses a n \<inter> range_addresses r \<noteq> {}"
    if "r \<in> set (array_upto rs k)" for r
    using touches_iff [OF assms(1,2)] ranges_ordered_upto [OF assms(3) that] by blast
  then show ?thesis unfolding list_ex_iff by blast
qed

lemma touches_forbidden_iff:
  assumes "0 < n" "unat a + n \<le> 2 ^ 64" "ranges_ordered (cf_forbidden_ranges cf)"
  shows "touches_forbidden_region cf a n \<longleftrightarrow> block_addresses a n \<inter> forbidden_addresses cf \<noteq> {}"
proof (cases "cf_forbidden_ranges cf")
  case None
  then show ?thesis
    by (simp add: touches_forbidden_region_def forbidden_addresses_def is_forbidden_address_range_set_def array_upto_def)
next
  case (Some rs)
  then show ?thesis
    using touches_ranges_iff [OF assms]
    by (simp add: touches_forbidden_region_def forbidden_addresses_def is_forbidden_address_range_set_def Let_def)
qed

lemma touches_readonly_iff:
  assumes "0 < n" "unat a + n \<le> 2 ^ 64" "ranges_ordered (cf_readonly_ranges cf)"
  shows "touches_readonly_region cf a n \<longleftrightarrow> block_addresses a n \<inter> readonly_addresses cf \<noteq> {}"
proof (cases "cf_readonly_ranges cf")
  case None
  then show ?thesis
    by (simp add: touches_readonly_region_def readonly_addresses_def is_readonly_address_range_set_def array_upto_def)
next
  case (Some rs)
  then show ?thesis
    using touches_ranges_iff [OF assms]
    by (simp add: touches_readonly_region_def readonly_addresses_def is_readonly_address_range_set_def Let_def)
qed

end
