(* ===== verification/DatalogTypes.thy ===== *)
theory DatalogTypes
  imports Config
begin

text \<open>
  The types of \<open>lib/inc/datalogging/scrutiny_datalogging_types.hpp\<close>. The unions \<open>Operand\<close> and
  \<open>LoggableItem\<close> are kept as their bytes on the modelled target: the members that share the first
  eight bytes (an address, a float, an identifier) are read from and written to one word, little
  endian, and the tag \<open>type\<close> lies behind the other members, which never overlap it.
\<close>

section \<open>Trigger operands\<close>

abbreviation (input) MAX_OPERANDS :: nat where "MAX_OPERANDS \<equiv> 3"
abbreviation (input) DATALOGGING_MAX_SIGNAL :: nat where "DATALOGGING_MAX_SIGNAL \<equiv> 16"

abbreviation (input) OperandType_Literal :: u8 where "OperandType_Literal \<equiv> 0"
abbreviation (input) OperandType_Var :: u8 where "OperandType_Var \<equiv> 1"
abbreviation (input) OperandType_VarBit :: u8 where "OperandType_VarBit \<equiv> 2"
abbreviation (input) OperandType_Rpv :: u8 where "OperandType_Rpv \<equiv> 3"

record operand =
  op_addr :: u64
  op_datatype :: variable_type
  op_bitoffset :: u8
  op_bitsize :: u8
  op_type :: u8

definition op_literal_val :: "operand \<Rightarrow> u32" where
  "op_literal_val opd = ucast (op_addr opd)"

definition op_rpv_id :: "operand \<Rightarrow> u16" where
  "op_rpv_id opd = ucast (op_addr opd)"

definition set_op_literal_val :: "u32 \<Rightarrow> operand \<Rightarrow> operand" where
  "set_op_literal_val v opd = opd\<lparr>op_addr := (op_addr opd AND NOT (mask 32)) OR ucast v\<rparr>"

definition set_op_rpv_id :: "u16 \<Rightarrow> operand \<Rightarrow> operand" where
  "set_op_rpv_id v opd = opd\<lparr>op_addr := (op_addr opd AND NOT (mask 16)) OR ucast v\<rparr>"

section \<open>Trigger configuration\<close>

abbreviation (input) Condition_AlwaysTrue :: u8 where "Condition_AlwaysTrue \<equiv> 0"
abbreviation (input) Condition_Equal :: u8 where "Condition_Equal \<equiv> 1"
abbreviation (input) Condition_NotEqual :: u8 where "Condition_NotEqual \<equiv> 2"
abbreviation (input) Condition_LessThan :: u8 where "Condition_LessThan \<equiv> 3"
abbreviation (input) Condition_LessOrEqualThan :: u8 where "Condition_LessOrEqualThan \<equiv> 4"
abbreviation (input) Condition_GreaterThan :: u8 where "Condition_GreaterThan \<equiv> 5"
abbreviation (input) Condition_GreaterOrEqualThan :: u8 where "Condition_GreaterOrEqualThan \<equiv> 6"
abbreviation (input) Condition_ChangeMoreThan :: u8 where "Condition_ChangeMoreThan \<equiv> 7"
abbreviation (input) Condition_IsWithin :: u8 where "Condition_IsWithin \<equiv> 8"

record trigger_config =
  tc_operands :: "operand list"
  tc_hold_time_100ns :: u32
  tc_operand_count :: u8
  tc_condition :: u8

section \<open>Logged items and the configuration\<close>

abbreviation (input) LoggableType_Memory :: u8 where "LoggableType_Memory \<equiv> 0"
abbreviation (input) LoggableType_Rpv :: u8 where "LoggableType_Rpv \<equiv> 1"
abbreviation (input) LoggableType_Time :: u8 where "LoggableType_Time \<equiv> 2"

record loggable_item =
  it_address :: u64
  it_size :: u8
  it_type :: u8

definition it_rpv_id :: "loggable_item \<Rightarrow> u16" where
  "it_rpv_id it = ucast (it_address it)"

definition set_it_rpv_id :: "u16 \<Rightarrow> loggable_item \<Rightarrow> loggable_item" where
  "set_it_rpv_id v it = it\<lparr>it_address := (it_address it AND NOT (mask 16)) OR ucast v\<rparr>"

text \<open>The arrays of the structures are lists of three operands and of sixteen items.\<close>

record dl_config =
  dc_items_to_log :: "loggable_item list"
  dc_trigger :: trigger_config
  dc_timeout_100ns :: u32
  dc_decimation :: u16
  dc_items_count :: u8
  dc_probe_location :: u8

definition dl_config_shape :: "dl_config \<Rightarrow> bool" where
  "dl_config_shape dc = (length (dc_items_to_log dc) = DATALOGGING_MAX_SIGNAL
     \<and> length (tc_operands (dc_trigger dc)) = MAX_OPERANDS)"

text \<open>The operands and the items in use.\<close>

definition dc_operands :: "dl_config \<Rightarrow> operand list" where
  "dc_operands dc = take (unat (tc_operand_count (dc_trigger dc))) (tc_operands (dc_trigger dc))"

definition dc_items :: "dl_config \<Rightarrow> loggable_item list" where
  "dc_items dc = take (unat (dc_items_count dc)) (dc_items_to_log dc)"

section \<open>Reading the unions back\<close>

lemma low_bits_replaced:
  fixes a :: u64 and v :: "'a::len word"
  assumes "LENGTH('a) = n" "n \<le> 64"
  shows "ucast ((a AND NOT (mask n)) OR ucast v) = v"
  by (rule bit_word_eqI) (use assms in \<open>auto simp: bit_simps\<close>)

lemma op_literal_val_set [simp]: "op_literal_val (set_op_literal_val v opd) = v"
  unfolding op_literal_val_def set_op_literal_val_def by (simp add: low_bits_replaced)

lemma op_rpv_id_set [simp]: "op_rpv_id (set_op_rpv_id v opd) = v"
  unfolding op_rpv_id_def set_op_rpv_id_def by (simp add: low_bits_replaced)

lemma it_rpv_id_set [simp]: "it_rpv_id (set_it_rpv_id v it) = v"
  unfolding it_rpv_id_def set_it_rpv_id_def by (simp add: low_bits_replaced)

lemma set_op_type [simp]:
  "op_type (set_op_literal_val v opd) = op_type opd" "op_type (set_op_rpv_id i opd) = op_type opd"
  by (simp_all add: set_op_literal_val_def set_op_rpv_id_def)

lemma set_it_type [simp]: "it_type (set_it_rpv_id i it) = it_type it"
  by (simp add: set_it_rpv_id_def)

end
