(* ===== verification/Float32.thy ===== *)
theory Float32
  imports Prelude
begin

text \<open>
  The \<open>float\<close> arithmetic that the trigger conditions use, on the bits of the numbers as IEEE 754
  and the modelled target have it (round to nearest, ties to even). Every finite single is a
  multiple of 2^-149: \<open>f32_num\<close> is that multiple, an exact integer, so that comparisons are
  comparisons of integers and an addition is one exact sum and one rounding. Lemmas: integers of
  up to 24 bits convert exactly.
\<close>

section \<open>Fields and values\<close>

definition f32_exp :: "u32 \<Rightarrow> nat" where
  "f32_exp x = unat x div 2 ^ 23 mod 256"

definition f32_frac :: "u32 \<Rightarrow> nat" where
  "f32_frac x = unat x mod 2 ^ 23"

definition f32_neg :: "u32 \<Rightarrow> bool" where
  "f32_neg x = (2 ^ 31 \<le> unat x)"

definition f32_is_nan :: "u32 \<Rightarrow> bool" where
  "f32_is_nan x = (f32_exp x = 255 \<and> f32_frac x \<noteq> 0)"

definition f32_is_inf :: "u32 \<Rightarrow> bool" where
  "f32_is_inf x = (f32_exp x = 255 \<and> f32_frac x = 0)"

text \<open>The magnitude in units of 2^-149; an infinity comes out above every finite number.\<close>

definition f32_mag :: "u32 \<Rightarrow> nat" where
  "f32_mag x = (if f32_exp x = 0 then f32_frac x else (2 ^ 23 + f32_frac x) * 2 ^ (f32_exp x - 1))"

definition f32_num :: "u32 \<Rightarrow> int" where
  "f32_num x = (if f32_neg x then - int (f32_mag x) else int (f32_mag x))"

section \<open>Comparisons\<close>

definition f32_eq :: "u32 \<Rightarrow> u32 \<Rightarrow> bool" where
  "f32_eq x y = (\<not> f32_is_nan x \<and> \<not> f32_is_nan y \<and> f32_num x = f32_num y)"

definition f32_lt :: "u32 \<Rightarrow> u32 \<Rightarrow> bool" where
  "f32_lt x y = (\<not> f32_is_nan x \<and> \<not> f32_is_nan y \<and> f32_num x < f32_num y)"

definition f32_le :: "u32 \<Rightarrow> u32 \<Rightarrow> bool" where
  "f32_le x y = (\<not> f32_is_nan x \<and> \<not> f32_is_nan y \<and> f32_num x \<le> f32_num y)"

section \<open>Rounding\<close>

fun bit_length :: "nat \<Rightarrow> nat" where
  "bit_length n = (if n = 0 then 0 else Suc (bit_length (n div 2)))"

declare bit_length.simps [simp del]

text \<open>
  The single nearest to \<open>a\<close> times 2^-\<open>s\<close>: \<open>q\<close> units of 2^\<open>k\<close>, where \<open>k\<close> is the place of the last of
  24 bits or of the smallest subnormal. A \<open>q\<close> of 2^24 carries into the exponent field.
\<close>

definition f32_round_div :: "nat \<Rightarrow> nat \<Rightarrow> nat" where
  "f32_round_div a k =
    (let q = a div 2 ^ k; r = 2 * (a mod 2 ^ k)
     in if r > 2 ^ k \<or> (r = 2 ^ k \<and> odd q) then q + 1 else q)"

definition f32_round :: "nat \<Rightarrow> bool \<Rightarrow> nat \<Rightarrow> u32" where
  "f32_round s neg a =
    (let k = max (bit_length a - 24) (s - 149);
         bits = (k - (s - 149)) * 2 ^ 23 + f32_round_div a k
     in of_nat ((if neg then 2 ^ 31 else 0) + min bits 0x7F800000))"

section \<open>Operations\<close>

definition f32_of_int :: "int \<Rightarrow> u32" where
  "f32_of_int n = f32_round 149 (n < 0) (nat \<bar>n\<bar> * 2 ^ 149)"

definition f32_negate :: "u32 \<Rightarrow> u32" where
  "f32_negate x = x XOR 0x80000000"

text \<open>A sum that is zero is positive, unless both terms are a negative zero.\<close>

definition f32_add :: "u32 \<Rightarrow> u32 \<Rightarrow> u32" where
  "f32_add x y =
    (if f32_is_nan x \<or> f32_is_nan y \<or> (f32_is_inf x \<and> f32_is_inf y \<and> f32_neg x \<noteq> f32_neg y)
     then 0xFFC00000
     else if f32_is_inf x then x
     else if f32_is_inf y then y
     else (let n = f32_num x + f32_num y
           in if n = 0 then (if f32_neg x \<and> f32_neg y then 0x80000000 else 0)
              else f32_round 149 (n < 0) (nat \<bar>n\<bar>)))"

definition f32_sub :: "u32 \<Rightarrow> u32 \<Rightarrow> u32" where
  "f32_sub x y = f32_add x (f32_negate y)"

text \<open>
  \<open>static_cast<int64_t>\<close> truncates towards zero. The language leaves a value that does not fit
  undefined; the conversion instruction of the target gives the smallest integer.
\<close>

definition f32_to_int64 :: "u32 \<Rightarrow> u64" where
  "f32_to_int64 x =
    (let n = f32_mag x div 2 ^ 149
     in if f32_is_nan x \<or> n \<ge> 2 ^ 63 then push_bit 63 1
        else if f32_neg x then - of_nat n else of_nat n)"

text \<open>\<open>static_cast<float>\<close> of a double, whose unit is 2^-1074.\<close>

definition f64_to_f32 :: "u64 \<Rightarrow> u32" where
  "f64_to_f32 x =
    (let e = unat (drop_bit 52 x AND 0x7FF);
         f = unat (x AND mask 52);
         neg = bit x 63;
         sign = (if neg then 0x80000000 else 0)
     in if e = 2047 then sign OR (if f = 0 then 0x7F800000 else 0x7FC00000)
        else f32_round 1074 neg (if e = 0 then f else (2 ^ 52 + f) * 2 ^ (e - 1)))"

section \<open>Small integers are exact\<close>

lemma bit_length_bounds: "0 < n \<Longrightarrow> 2 ^ (bit_length n - 1) \<le> n \<and> n < 2 ^ bit_length n \<and> 0 < bit_length n"
proof (induction n rule: less_induct)
  case (less n)
  show ?case
  proof (cases "n = 1")
    case True
    then show ?thesis by (simp add: bit_length.simps)
  next
    case False
    with less.prems have half: "n div 2 < n" "0 < n div 2" by simp_all
    from less.IH [OF half] have ih: "2 ^ (bit_length (n div 2) - 1) \<le> n div 2"
      "n div 2 < 2 ^ bit_length (n div 2)" "0 < bit_length (n div 2)" by simp_all
    have len: "bit_length n = Suc (bit_length (n div 2))"
      using less.prems by (subst bit_length.simps) simp
    from ih(3) have "(2 :: nat) ^ bit_length (n div 2) = 2 * 2 ^ (bit_length (n div 2) - 1)"
      by (cases "bit_length (n div 2)") simp_all
    moreover have "n div 2 * 2 \<le> n" "n < 2 * (n div 2) + 2" by linarith+
    ultimately show ?thesis using ih(1,2) unfolding len
      by (simp only: diff_Suc_1 power_Suc) linarith
  qed
qed

lemma bit_length_unique: "2 ^ m \<le> n \<Longrightarrow> n < 2 ^ Suc m \<Longrightarrow> bit_length n = Suc m"
proof -
  assume n: "2 ^ m \<le> n" "n < 2 ^ Suc m"
  then have "0 < n" by (metis gr0I not_one_le_zero power_eq_0_iff le_zero_eq zero_neq_numeral)
  note b = bit_length_bounds [OF this]
  have "m < bit_length n"
    using n(1) b by (metis le_less_trans power_less_imp_less_exp one_less_numeral_iff semiring_norm(76))
  moreover have "bit_length n - 1 < Suc m"
    using n(2) b by (metis le_less_trans power_less_imp_less_exp one_less_numeral_iff semiring_norm(76))
  ultimately show ?thesis by simp
qed

lemma bit_length_shift: "0 < n \<Longrightarrow> bit_length (n * 2 ^ k) = bit_length n + k"
proof -
  assume "0 < n"
  note b = bit_length_bounds [OF this]
  obtain m where m: "bit_length n = Suc m" using b by (cases "bit_length n") simp_all
  have "bit_length (n * 2 ^ k) = Suc (m + k)"
    using b m by (intro bit_length_unique) (simp_all add: power_add)
  with m show ?thesis by simp
qed

lemma f32_fields:
  assumes "b < 2 ^ 31"
  shows "f32_exp (of_nat b) = b div 2 ^ 23" "f32_frac (of_nat b) = b mod 2 ^ 23" "\<not> f32_neg (of_nat b)"
    "f32_exp (of_nat (2 ^ 31 + b)) = b div 2 ^ 23" "f32_frac (of_nat (2 ^ 31 + b)) = b mod 2 ^ 23"
    "f32_neg (of_nat (2 ^ 31 + b))"
proof -
  have un: "unat (of_nat b :: u32) = b" "unat (of_nat (2 ^ 31 + b) :: u32) = 2 ^ 31 + b"
    using assms by (intro unat_of_nat_u32, simp)+
  have e: "b div 2 ^ 23 < 256" using assms by simp_all
  have hi: "(2 ^ 31 + b) div 2 ^ 23 = 256 + b div 2 ^ 23" "(2 ^ 31 + b) mod 2 ^ 23 = b mod 2 ^ 23"
    "(2 ^ 31 + b) div 2 ^ 31 = 1"
    using assms div_mult_self3 [of "2 ^ 23" 256 b] mod_mult_self3 [of 256 "2 ^ 23" b] by simp_all
  show "f32_exp (of_nat b) = b div 2 ^ 23" "f32_frac (of_nat b) = b mod 2 ^ 23" "\<not> f32_neg (of_nat b)"
    using assms e by (simp_all only: f32_exp_def f32_frac_def f32_neg_def un) simp_all
  show "f32_exp (of_nat (2 ^ 31 + b)) = b div 2 ^ 23" "f32_frac (of_nat (2 ^ 31 + b)) = b mod 2 ^ 23"
    "f32_neg (of_nat (2 ^ 31 + b))"
    using e by (simp_all only: f32_exp_def f32_frac_def f32_neg_def un hi) simp_all
qed

text \<open>An integer of at most 24 bits is a float, and its conversion is not rounded.\<close>

lemma f32_of_int_exact:
  assumes "\<bar>n\<bar> \<le> 2 ^ 24"
  shows "f32_num (f32_of_int n) = n * 2 ^ 149 \<and> \<not> f32_is_nan (f32_of_int n)"
proof (cases "n = 0")
  case True
  then show ?thesis
    by (simp add: f32_of_int_def f32_round_def f32_round_div_def bit_length.simps f32_num_def f32_mag_def
        f32_exp_def f32_frac_def f32_is_nan_def)
next
  case False
  define m where "m = nat \<bar>n\<bar>"
  have m: "0 < m" "m \<le> 2 ^ 24" using assms False by (simp_all add: m_def nat_le_iff)
  define L where "L = bit_length m"
  note b = bit_length_bounds [OF m(1), folded L_def]
  have L: "0 < L" "L \<le> 25"
    using b m(2) power_increasing_iff [of "2 :: nat" "L - 1" 24] by (auto dest: order.trans)
  have len: "bit_length (m * 2 ^ 149) = L + 149" unfolding L_def by (rule bit_length_shift [OF m(1)])
  define k where "k = L + 125"
  obtain q where q: "m * 2 ^ 149 = q * 2 ^ k" "2 ^ 23 \<le> q" "q < 2 ^ 24"
  proof (cases "L = 25")
    case True
    with b m(2) have "m = 2 ^ 24" by simp
    then have "m * 2 ^ 149 = 2 ^ 23 * 2 ^ k" by (simp add: k_def True)
    then show ?thesis by (intro that [of "2 ^ 23"]) simp_all
  next
    case small: False
    with L have le: "L \<le> 24" by simp
    have "(2 :: nat) ^ 149 = 2 ^ (24 - L) * 2 ^ k"
      using le by (simp add: k_def power_add [symmetric] del: power_add)
    moreover have "2 ^ (L - 1) * 2 ^ (24 - L) = (2 :: nat) ^ 23" "2 ^ L * 2 ^ (24 - L) = (2 :: nat) ^ 24"
      using le L by (simp_all add: power_add [symmetric] del: power_add)
    moreover have "2 ^ (L - 1) * 2 ^ (24 - L) \<le> m * 2 ^ (24 - L)" "m * 2 ^ (24 - L) < 2 ^ L * 2 ^ (24 - L)"
      using b by simp_all
    ultimately show ?thesis by (intro that [of "m * 2 ^ (24 - L)"]) simp_all
  qed
  have rd: "f32_round_div (m * 2 ^ 149) k = q" unfolding f32_round_div_def q(1) by (simp add: Let_def)
  define bits where "bits = k * 2 ^ 23 + q"
  have k: "k \<le> 150" using L by (simp add: k_def)
  have bits: "bits = (k + 1) * 2 ^ 23 + (q - 2 ^ 23)" using q(2) by (simp add: bits_def)
  have f: "q - 2 ^ 23 < 2 ^ 23" using q(3) by simp
  have frac: "bits mod 2 ^ 23 = q - 2 ^ 23" unfolding bits by (simp only: mod_mult_self3 mod_less [OF f])
  have exp: "bits div 2 ^ 23 = k + 1" and lt: "bits < 0x7F800000"
    using f k unfolding bits by simp_all
  have kk: "max (L + 149 - 24) (149 - 149) = k" by (simp add: k_def)
  have conv: "f32_of_int n = of_nat ((if n < 0 then 2 ^ 31 else 0) + bits)"
    unfolding f32_of_int_def f32_round_def m_def [symmetric] len Let_def kk rd
    using lt by (simp add: bits_def)
  have b31: "bits < 2 ^ 31" using lt by simp
  note fields = f32_fields [OF b31, unfolded exp frac]
  have mag: "f32_mag (f32_of_int n) = m * 2 ^ 149"
    using fields q by (simp add: f32_mag_def conv)
  have "f32_exp (f32_of_int n) = k + 1" "f32_neg (f32_of_int n) = (n < 0)"
    using fields by (simp_all add: conv)
  with mag k show ?thesis by (simp add: f32_num_def f32_is_nan_def m_def)
qed

end
