(* ===== verification/BlockCodec.thy ===== *)
theory BlockCodec
  imports Protocol Config
begin

text \<open>
  The parsers and encoders of block lists of \<open>lib/src/protocol/scrutiny_codec_v1_0.cpp\<close>: the
  requests and responses of the memory and published-value services. A parser walks over the
  request's payload, one item per \<open>next\<close>; an encoder appends items to the response's payload.
  Lemmas: where a parser stands inside a well-formed request, what an encoder has written, and
  that the validation traversals end.
\<close>

section \<open>Memory blocks\<close>

text \<open>
  A \<open>MemoryBlock8Bits\<close>; the data and mask pointers are the bytes they point to in the request.
\<close>

record mem_block =
  mb_start_address :: uintptr
  mb_length :: u16
  mb_source_data :: "u8 list"
  mb_mask :: "u8 list option"

abbreviation (input) addr_size :: nat where "addr_size \<equiv> 8"

section \<open>Read request parser\<close>

record read_parser =
  rp_buffer :: "u8 list"
  rp_bytes_read :: u16
  rp_request_datasize :: u16
  rp_required_tx_buffer_size :: u16
  rp_finished :: bool
  rp_invalid :: bool

text \<open>\<open>next\<close> fills the block it is given; the source data and mask of a read block are not set.\<close>

definition rp_next :: "read_parser \<Rightarrow> mem_block \<Rightarrow> read_parser \<times> mem_block" where
  "rp_next p blk =
    (if rp_finished p \<or> rp_invalid p then (p, blk)
     else if addr_size + 2 > unat (rp_request_datasize p - rp_bytes_read p)
     then (p\<lparr>rp_finished := True, rp_invalid := True\<rparr>, blk)
     else
       (let addr = decode_address_big_endian (drop (unat (rp_bytes_read p)) (rp_buffer p));
            p = p\<lparr>rp_bytes_read := rp_bytes_read p + 8\<rparr>;
            length_8bits = decode_16_bits_big_endian (drop (unat (rp_bytes_read p)) (rp_buffer p))
        in if addr_size + 2 + unat length_8bits
              > unat (MAXIMUM_TX_BUFFER_SIZE - rp_required_tx_buffer_size p)
           then (p\<lparr>rp_invalid := True, rp_finished := True\<rparr>, blk)
           else
             (let p = p\<lparr>rp_bytes_read := rp_bytes_read p + 2\<rparr>;
                  blk = blk\<lparr>mb_start_address := addr, mb_length := length_8bits\<rparr>
              in (if rp_bytes_read p = rp_request_datasize p then p\<lparr>rp_finished := True\<rparr> else p, blk))))"

definition rp_reset :: "read_parser \<Rightarrow> read_parser" where
  "rp_reset p = p\<lparr>rp_bytes_read := 0, rp_invalid := False, rp_finished := False,
                  rp_required_tx_buffer_size := 0\<rparr>"

text \<open>The validation traversal of \<open>init\<close>; its block is a local variable.\<close>

partial_function (option) rp_scan :: "read_parser \<Rightarrow> mem_block \<Rightarrow> read_parser option" where
  "rp_scan p blk =
    (case rp_next p blk of (p', blk') \<Rightarrow>
       if rp_invalid p' \<or> rp_finished p' then Some p'
       else rp_scan (p'\<lparr>rp_required_tx_buffer_size :=
              rp_required_tx_buffer_size p' + (8 + 2 + mb_length blk')\<rparr>) blk')"

definition rp_init :: "request \<Rightarrow> mem_block \<Rightarrow> read_parser option" where
  "rp_init rq blk =
    (let p = rp_reset \<lparr>rp_buffer = rq_data rq, rp_bytes_read = 0, rp_request_datasize = rq_data_length rq,
                       rp_required_tx_buffer_size = 0, rp_finished = False, rp_invalid = False\<rparr>
     in case rp_scan p blk of
          None \<Rightarrow> None
        | Some p \<Rightarrow> Some (p\<lparr>rp_bytes_read := 0, rp_finished := False\<rparr>))"

section \<open>Write request parser\<close>

record write_parser =
  wp_buffer :: "u8 list"
  wp_bytes_read :: u16
  wp_size_limit :: u16
  wp_required_tx_buffer_size :: u16
  wp_finished :: bool
  wp_invalid :: bool
  wp_masked_write :: bool

text \<open>The shift of the mask test is done on an \<open>int\<close>, the difference of the promoted counters.\<close>

definition half_remaining :: "u16 \<Rightarrow> u16 \<Rightarrow> u16" where
  "half_remaining limit n = word_of_int ((uint limit - uint n) div 2)"

definition wp_next :: "write_parser \<Rightarrow> mem_block \<Rightarrow> write_parser \<times> mem_block" where
  "wp_next p blk =
    (if wp_finished p \<or> wp_invalid p then (p, blk)
     else if addr_size + 2 > unat (wp_size_limit p - wp_bytes_read p)
     then (p\<lparr>wp_finished := True, wp_invalid := True\<rparr>, blk)
     else
       (let addr = decode_address_big_endian (drop (unat (wp_bytes_read p)) (wp_buffer p));
            p = p\<lparr>wp_bytes_read := wp_bytes_read p + 8\<rparr>;
            length_8bits = decode_16_bits_big_endian (drop (unat (wp_bytes_read p)) (wp_buffer p));
            p = p\<lparr>wp_bytes_read := wp_bytes_read p + 2\<rparr>
        in if length_8bits > wp_size_limit p - wp_bytes_read p
              \<or> wp_masked_write p \<and> length_8bits > half_remaining (wp_size_limit p) (wp_bytes_read p)
           then (p\<lparr>wp_invalid := True, wp_finished := True\<rparr>, blk)
           else
             (let blk = blk\<lparr>mb_start_address := addr,
                            mb_source_data := take (unat length_8bits) (drop (unat (wp_bytes_read p)) (wp_buffer p))\<rparr>;
                  p = p\<lparr>wp_bytes_read := wp_bytes_read p + length_8bits\<rparr>
              in if wp_bytes_read p > wp_size_limit p then (p\<lparr>wp_invalid := True\<rparr>, blk)
                 else
                   (let (p, blk) =
                      (if wp_masked_write p
                       then (p\<lparr>wp_bytes_read := wp_bytes_read p + length_8bits\<rparr>,
                             blk\<lparr>mb_mask := Some (take (unat length_8bits)
                               (drop (unat (wp_bytes_read p)) (wp_buffer p)))\<rparr>)
                       else (p, blk\<lparr>mb_mask := None\<rparr>));
                        blk = blk\<lparr>mb_length := length_8bits\<rparr>
                    in (if wp_bytes_read p = wp_size_limit p then p\<lparr>wp_finished := True\<rparr> else p, blk)))))"

definition wp_reset :: "write_parser \<Rightarrow> write_parser" where
  "wp_reset p = p\<lparr>wp_bytes_read := 0, wp_invalid := False, wp_finished := False,
                  wp_required_tx_buffer_size := 0\<rparr>"

partial_function (option) wp_scan :: "write_parser \<Rightarrow> mem_block \<Rightarrow> write_parser option" where
  "wp_scan p blk =
    (case wp_next p blk of (p', blk') \<Rightarrow>
       if wp_invalid p' \<or> wp_finished p' then Some p'
       else wp_scan (p'\<lparr>wp_required_tx_buffer_size := wp_required_tx_buffer_size p' + (8 + 2)\<rparr>) blk')"

definition wp_init :: "request \<Rightarrow> bool \<Rightarrow> mem_block \<Rightarrow> write_parser option" where
  "wp_init rq masked_write blk =
    (let p = wp_reset \<lparr>wp_buffer = rq_data rq, wp_bytes_read = 0, wp_size_limit = rq_data_length rq,
                       wp_required_tx_buffer_size = 0, wp_finished = False, wp_invalid = False,
                       wp_masked_write = masked_write\<rparr>
     in case wp_scan p blk of
          None \<Rightarrow> None
        | Some p \<Rightarrow> Some (p\<lparr>wp_bytes_read := 0, wp_finished := False\<rparr>))"

section \<open>Published-value request parsers\<close>

record rpv_parser =
  vp_buffer :: "u8 list"
  vp_bytes_read :: u16
  vp_request_len :: u16
  vp_finished :: bool
  vp_invalid :: bool

definition vp_reset :: "rpv_parser \<Rightarrow> rpv_parser" where
  "vp_reset p = p\<lparr>vp_bytes_read := 0, vp_invalid := False, vp_finished := False\<rparr>"

definition vp_start :: "request \<Rightarrow> rpv_parser" where
  "vp_start rq = vp_reset \<lparr>vp_buffer = rq_data rq, vp_bytes_read = 0, vp_request_len = rq_data_length rq,
                           vp_finished = False, vp_invalid = False\<rparr>"

definition read_rpv_init :: "request \<Rightarrow> rpv_parser" where
  "read_rpv_init rq =
    (let p = vp_start rq
     in if vp_request_len p AND 1 \<noteq> 0 then p\<lparr>vp_invalid := True\<rparr> else p)"

text \<open>The difference of the counters is an \<open>int\<close> here. The result is \<open>false\<close> or the identifier read.\<close>

definition read_rpv_next :: "rpv_parser \<Rightarrow> u16 \<Rightarrow> bool \<times> rpv_parser \<times> u16" where
  "read_rpv_next p i =
    (if vp_finished p \<or> vp_invalid p then (False, p, i)
     else if 2 > uint (vp_request_len p) - uint (vp_bytes_read p)
     then (False, p\<lparr>vp_invalid := True\<rparr>, i)
     else
       (let i = decode_16_bits_big_endian (drop (unat (vp_bytes_read p)) (vp_buffer p));
            p = p\<lparr>vp_bytes_read := vp_bytes_read p + 2\<rparr>;
            p = (if vp_bytes_read p = vp_request_len p then p\<lparr>vp_finished := True\<rparr> else p)
        in (\<not> vp_invalid p, p, i)))"

definition write_rpv_init :: "request \<Rightarrow> rpv_parser" where
  "write_rpv_init rq = vp_start rq"

text \<open>Assignments to a member of the \<open>AnyType\<close> union keep the bytes that the member does not cover.\<close>

definition set_uint8 :: "u8 \<Rightarrow> anytype \<Rightarrow> anytype" where
  "set_uint8 b v = (v AND NOT 0xFF) OR ucast b"

definition set_uint16 :: "u16 \<Rightarrow> anytype \<Rightarrow> anytype" where
  "set_uint16 w v = (v AND NOT 0xFFFF) OR ucast w"

definition set_uint32 :: "u32 \<Rightarrow> anytype \<Rightarrow> anytype" where
  "set_uint32 w v = (v AND NOT 0xFFFFFFFF) OR ucast w"

definition write_rpv_next ::
  "(u16 \<Rightarrow> rpv option) \<Rightarrow> rpv_parser \<Rightarrow> rpv \<Rightarrow> anytype \<Rightarrow> bool \<times> rpv_parser \<times> rpv \<times> anytype" where
  "write_rpv_next lookup p rpv v =
    (if vp_finished p \<or> vp_invalid p then (False, p, rpv, v)
     else if 2 > vp_request_len p - vp_bytes_read p
     then (False, p\<lparr>vp_invalid := True\<rparr>, rpv, v)
     else
       (let i = decode_16_bits_big_endian (drop (unat (vp_bytes_read p)) (vp_buffer p));
            p = p\<lparr>vp_bytes_read := vp_bytes_read p + 2\<rparr>
        in case lookup i of
             None \<Rightarrow> (False, p\<lparr>vp_invalid := True\<rparr>, rpv, v)
           | Some rpv \<Rightarrow>
             (let typesize = get_type_size_8bits (rpv_type rpv)
              in if ucast typesize > vp_request_len p - vp_bytes_read p
                 then (False, p\<lparr>vp_invalid := True\<rparr>, rpv, v)
                 else
                   (let buf = drop (unat (vp_bytes_read p)) (vp_buffer p);
                        (ok, v) =
                          (if typesize = 1 then (True, set_uint8 (buf ! 0) v)
                           else if typesize = 2 then (True, set_uint16 (decode_16_bits_big_endian buf) v)
                           else if typesize = 4 then (True, set_uint32 (decode_32_bits_big_endian buf) v)
                           else if typesize = 8 then (True, decode_64_bits_big_endian buf)
                           else (False, v));
                        p = p\<lparr>vp_bytes_read := vp_bytes_read p + ucast typesize\<rparr>;
                        p = (if vp_bytes_read p = vp_request_len p then p\<lparr>vp_finished := True\<rparr> else p)
                    in (ok, p, rpv, v)))))"

section \<open>Response encoders\<close>

text \<open>An encoder holds a pointer to the response it fills: here it holds the response.\<close>

record encoder =
  en_response :: response
  en_cursor :: u16
  en_size_limit :: u16
  en_overflow :: bool

definition en_init :: "response \<Rightarrow> u16 \<Rightarrow> encoder" where
  "en_init r max_size =
    \<lparr>en_response = r\<lparr>rs_data_length := 0\<rparr>, en_cursor = 0, en_size_limit = max_size, en_overflow = False\<rparr>"

definition en_remaining :: "encoder \<Rightarrow> nat" where
  "en_remaining e = unat (en_size_limit e - en_cursor e)"

text \<open>The bytes of an item are copied at the cursor, which moves after them.\<close>

definition en_put :: "u8 list \<Rightarrow> encoder \<Rightarrow> encoder" where
  "en_put bs e =
    e\<lparr>en_response := (en_response e)\<lparr>rs_data := blit (rs_data (en_response e)) (unat (en_cursor e)) bs\<rparr>,
      en_cursor := en_cursor e + of_nat (length bs)\<rparr>"

definition en_set_length :: "encoder \<Rightarrow> encoder" where
  "en_set_length e = e\<lparr>en_response := (en_response e)\<lparr>rs_data_length := en_cursor e\<rparr>\<rparr>"

definition mem_read :: "memory \<Rightarrow> uintptr \<Rightarrow> nat \<Rightarrow> u8 list" where
  "mem_read m a n = map (\<lambda>i. m (a + of_nat i)) [0..<n]"

definition read_mem_write :: "memory \<Rightarrow> mem_block \<Rightarrow> encoder \<Rightarrow> encoder" where
  "read_mem_write m blk e =
    (if unat (mb_length blk) > 65519 - addr_size - 2 then e\<lparr>en_overflow := True\<rparr>
     else if addr_size + 2 + unat (mb_length blk) > en_remaining e then e\<lparr>en_overflow := True\<rparr>
     else en_set_length
       (en_put (mem_read m (mb_start_address blk) (unat (mb_length blk)))
         (en_put (encode_16_bits_big_endian (mb_length blk))
           (en_put (encode_address_big_endian (mb_start_address blk)) e))))"

definition write_mem_write :: "mem_block \<Rightarrow> encoder \<Rightarrow> encoder" where
  "write_mem_write blk e =
    (if addr_size + 2 > en_remaining e then e\<lparr>en_overflow := True\<rparr>
     else en_set_length
       (en_put (encode_16_bits_big_endian (mb_length blk))
         (en_put (encode_address_big_endian (mb_start_address blk)) e)))"

definition rpv_def_write :: "rpv \<Rightarrow> encoder \<Rightarrow> encoder" where
  "rpv_def_write rpv e =
    (if 2 + 1 > en_remaining e then e\<lparr>en_overflow := True\<rparr>
     else
       (let vtype = (if rpv_type rpv = VT_boolean then get_platform_boolean else rpv_type rpv)
        in en_set_length
          (en_put (encode_8_bits_8bits vtype)
            (en_put (encode_16_bits_big_endian (rpv_id rpv)) e))))"

definition read_rpv_write :: "rpv \<Rightarrow> anytype \<Rightarrow> encoder \<Rightarrow> encoder" where
  "read_rpv_write rpv v e =
    (let typesize = get_type_size_8bits (rpv_type rpv)
     in if 2 + unat typesize > en_remaining e then e\<lparr>en_overflow := True\<rparr>
        else if typesize = 1 \<or> typesize = 2 \<or> typesize = 4 \<or> typesize = 8
        then en_set_length
          (en_put (encode_anytype_big_endian_sz v typesize)
            (en_put (encode_16_bits_big_endian (rpv_id rpv)) e))
        else e)"

definition write_rpv_write :: "rpv \<Rightarrow> encoder \<Rightarrow> encoder" where
  "write_rpv_write rpv e =
    (let typesize = get_type_size_8bits (rpv_type rpv)
     in if 2 + 1 > en_remaining e then e\<lparr>en_overflow := True\<rparr>
        else en_set_length
          (en_put (encode_8_bits_8bits typesize)
            (en_put (encode_16_bits_big_endian (rpv_id rpv)) e)))"

section \<open>What an encoder has written\<close>

definition en_inv :: "encoder \<Rightarrow> bool" where
  "en_inv e =
    (unat (en_cursor e) \<le> unat (en_size_limit e)
     \<and> unat (en_size_limit e) \<le> length (rs_data (en_response e))
     \<and> rs_data_length (en_response e) = en_cursor e)"

definition en_payload :: "encoder \<Rightarrow> u8 list" where
  "en_payload e = take (unat (en_cursor e)) (rs_data (en_response e))"

lemma en_inv_init: "unat max_size \<le> length (rs_data r) \<Longrightarrow> en_inv (en_init r max_size)"
  by (simp add: en_inv_def en_init_def)

lemma en_payload_init [simp]: "en_payload (en_init r max_size) = []"
  by (simp add: en_payload_def en_init_def)

lemma en_remaining_nat: "en_inv e \<Longrightarrow> en_remaining e = unat (en_size_limit e) - unat (en_cursor e)"
  unfolding en_remaining_def by (rule unat_sub) (simp add: en_inv_def word_le_nat_alt)

lemma en_fit: "en_inv e \<Longrightarrow> n \<le> en_remaining e \<longleftrightarrow> unat (en_cursor e) + n \<le> unat (en_size_limit e)"
  using en_remaining_nat [of e] by (auto simp: en_inv_def)

lemma en_put_put:
  assumes "unat (en_cursor e) + length xs + length ys \<le> length (rs_data (en_response e))"
    "unat (en_cursor e) + length xs < 65536"
  shows "en_put ys (en_put xs e) = en_put (xs @ ys) e"
proof -
  have "unat (en_cursor e + of_nat (length xs)) = unat (en_cursor e) + length xs"
    using assms(2) by (simp add: unat_add_u16)
  with assms(1) show ?thesis
    by (simp add: en_put_def blit_append add.assoc)
qed

text \<open>The item \<open>bs\<close> is appended.\<close>

definition appends :: "u8 list \<Rightarrow> encoder \<Rightarrow> encoder \<Rightarrow> bool" where
  "appends bs e e' =
    (en_inv e' \<and> en_payload e' = en_payload e @ bs \<and> en_overflow e' = en_overflow e
     \<and> en_size_limit e' = en_size_limit e
     \<and> length (rs_data (en_response e')) = length (rs_data (en_response e))
     \<and> unat (en_cursor e') = unat (en_cursor e) + length bs
     \<and> rs_command_id (en_response e') = rs_command_id (en_response e)
     \<and> rs_subfunction_id (en_response e') = rs_subfunction_id (en_response e)
     \<and> rs_data_max_length (en_response e') = rs_data_max_length (en_response e))"

lemma en_put_appends:
  assumes "en_inv e" "length bs \<le> en_remaining e"
  shows "appends bs e (en_set_length (en_put bs e))"
proof -
  have fit: "unat (en_cursor e) + length bs \<le> unat (en_size_limit e)"
    using assms en_fit by blast
  then have "unat (en_cursor e) + length bs < 65536"
    by (rule le_less_trans) simp
  then have "unat (en_cursor e + of_nat (length bs)) = unat (en_cursor e) + length bs"
    by (simp add: unat_add_u16)
  with fit assms(1) show ?thesis
    by (simp add: appends_def en_set_length_def en_put_def en_inv_def en_payload_def take_blit_end)
qed

text \<open>An encoder that has no room left for the item only sets its flag.\<close>

definition en_flag :: "encoder \<Rightarrow> encoder" where
  "en_flag e = e\<lparr>en_overflow := True\<rparr>"

lemma en_inv_flag [simp]: "en_inv (en_flag e) = en_inv e" "en_payload (en_flag e) = en_payload e"
  "en_response (en_flag e) = en_response e"
  by (simp_all add: en_inv_def en_payload_def en_flag_def)

lemma en_limit_16: "en_inv e \<Longrightarrow> unat (en_cursor e) + n \<le> unat (en_size_limit e) \<Longrightarrow>
    unat (en_cursor e) + n < 65536"
  by (erule le_less_trans) simp

lemma two_puts:
  assumes "en_inv e" "length xs + length ys \<le> en_remaining e"
  shows "appends (xs @ ys) e (en_set_length (en_put ys (en_put xs e)))"
proof -
  have fit: "unat (en_cursor e) + length xs + length ys \<le> unat (en_size_limit e)"
    using assms(2) en_fit [OF assms(1)] by (simp add: add.assoc)
  then have "en_put ys (en_put xs e) = en_put (xs @ ys) e"
    using assms(1) en_limit_16 [OF assms(1), of "length xs"] by (intro en_put_put) (auto simp: en_inv_def)
  then show ?thesis using en_put_appends [of e "xs @ ys"] assms by simp
qed

definition read_item :: "memory \<Rightarrow> uintptr \<Rightarrow> u16 \<Rightarrow> u8 list" where
  "read_item m a len =
    encode_address_big_endian a @ encode_16_bits_big_endian len @ mem_read m a (unat len)"

lemma length_mem_read [simp]: "length (mem_read m a n) = n"
  by (simp add: mem_read_def)

lemma length_read_item: "length (read_item m a len) = 10 + unat len"
  by (simp add: read_item_def be_addr.length_enc be16.length_enc)

lemma read_mem_write_fits:
  assumes "en_inv e" "addr_size + 2 + unat (mb_length blk) \<le> en_remaining e" "unat (en_size_limit e) \<le> 65519"
  shows "appends (read_item m (mb_start_address blk) (mb_length blk)) e (read_mem_write m blk e)"
proof -
  let ?a = "encode_address_big_endian (mb_start_address blk)"
  let ?l = "encode_16_bits_big_endian (mb_length blk)"
  let ?d = "mem_read m (mb_start_address blk) (unat (mb_length blk))"
  have lens: "length ?a = 8" "length ?l = 2" "length ?d = unat (mb_length blk)"
    by (simp_all add: be_addr.length_enc be16.length_enc)
  have fit: "unat (en_cursor e) + 10 + unat (mb_length blk) \<le> unat (en_size_limit e)"
    using assms(2) en_fit [OF assms(1)] by (simp add: add.assoc)
  have "unat (en_size_limit e) < 65536" by simp
  with fit have "unat (en_cursor e) + 8 < 65536" "unat (en_cursor e) + 10 < 65536" by linarith+
  then have "en_put ?d (en_put ?l (en_put ?a e)) = en_put (?a @ ?l @ ?d) e"
    using fit assms(1) by (simp add: en_put_put lens en_inv_def)
  moreover have "unat (mb_length blk) \<le> 65519 - addr_size - 2"
    using fit assms(3) by simp
  ultimately show ?thesis
    using assms(1,2) en_put_appends [of e "?a @ ?l @ ?d"] lens
    by (simp add: read_mem_write_def read_item_def)
qed

lemma read_mem_write_full:
  "en_remaining e < addr_size + 2 + unat (mb_length blk) \<Longrightarrow> read_mem_write m blk e = en_flag e"
  by (simp add: read_mem_write_def en_flag_def)

definition ack_item :: "uintptr \<Rightarrow> u16 \<Rightarrow> u8 list" where
  "ack_item a len = encode_address_big_endian a @ encode_16_bits_big_endian len"

lemma length_ack_item: "length (ack_item a len) = 10"
  by (simp add: ack_item_def be_addr.length_enc be16.length_enc)

lemma write_mem_write_fits:
  assumes "en_inv e" "addr_size + 2 \<le> en_remaining e"
  shows "appends (ack_item (mb_start_address blk) (mb_length blk)) e (write_mem_write blk e)"
  using assms two_puts [of e "encode_address_big_endian (mb_start_address blk)"
      "encode_16_bits_big_endian (mb_length blk)"]
  by (simp add: write_mem_write_def ack_item_def be_addr.length_enc be16.length_enc)

lemma write_mem_write_full:
  "en_remaining e < addr_size + 2 \<Longrightarrow> write_mem_write blk e = en_flag e"
  by (simp add: write_mem_write_def en_flag_def)

definition rpv_def_item :: "rpv \<Rightarrow> u8 list" where
  "rpv_def_item r =
    encode_16_bits_big_endian (rpv_id r) @
    [if rpv_type r = VT_boolean then get_platform_boolean else rpv_type r]"

lemma encode_8 [simp]: "encode_8_bits_8bits b = [b]"
  by (simp add: encode_8_bits_8bits_def codec_simps) (auto intro!: bit_word_eqI simp: byte_bits)

lemma length_rpv_def_item [simp]: "length (rpv_def_item r) = 3"
  by (simp add: rpv_def_item_def be16.length_enc)

lemma rpv_def_write_fits:
  "en_inv e \<Longrightarrow> 3 \<le> en_remaining e \<Longrightarrow> appends (rpv_def_item r) e (rpv_def_write r e)"
  using two_puts [of e "encode_16_bits_big_endian (rpv_id r)"
      "[if rpv_type r = VT_boolean then get_platform_boolean else rpv_type r]"]
  by (simp add: rpv_def_write_def rpv_def_item_def be16.length_enc Let_def)

lemma rpv_def_write_full: "en_remaining e < 3 \<Longrightarrow> rpv_def_write r e = en_flag e"
  by (simp add: rpv_def_write_def en_flag_def)

definition rpv_item :: "rpv \<Rightarrow> anytype \<Rightarrow> u8 list" where
  "rpv_item r v =
    encode_16_bits_big_endian (rpv_id r) @ encode_anytype_big_endian v (rpv_type r)"

lemma length_rpv_item:
  "is_supported_type (rpv_type r) \<Longrightarrow>
    length (rpv_item r v) = 2 + unat (get_type_size_8bits (rpv_type r))"
  by (simp add: rpv_item_def be16.length_enc length_encode_anytype_supported)

lemma read_rpv_write_fits:
  assumes "en_inv e" "is_supported_type (rpv_type r)" "length (rpv_item r v) \<le> en_remaining e"
  shows "appends (rpv_item r v) e (read_rpv_write r v e)"
  using two_puts [of e "encode_16_bits_big_endian (rpv_id r)" "encode_anytype_big_endian v (rpv_type r)"]
    assms supported_type_size [OF assms(2)]
  by (auto simp: read_rpv_write_def rpv_item_def Let_def encode_anytype_big_endian_def be16.length_enc
      length_encode_anytype)

lemma read_rpv_write_full:
  "is_supported_type (rpv_type r) \<Longrightarrow> en_remaining e < length (rpv_item r v) \<Longrightarrow>
    read_rpv_write r v e = en_flag e"
  by (simp add: read_rpv_write_def length_rpv_item en_flag_def Let_def)

definition rpv_ack_item :: "rpv \<Rightarrow> u8 list" where
  "rpv_ack_item r = encode_16_bits_big_endian (rpv_id r) @ [get_type_size_8bits (rpv_type r)]"

lemma length_rpv_ack_item [simp]: "length (rpv_ack_item r) = 3"
  by (simp add: rpv_ack_item_def be16.length_enc)

lemma write_rpv_write_fits:
  "en_inv e \<Longrightarrow> 3 \<le> en_remaining e \<Longrightarrow> appends (rpv_ack_item r) e (write_rpv_write r e)"
  using two_puts [of e "encode_16_bits_big_endian (rpv_id r)" "[get_type_size_8bits (rpv_type r)]"]
  by (simp add: write_rpv_write_def rpv_ack_item_def be16.length_enc Let_def)

lemma write_rpv_write_full: "en_remaining e < 3 \<Longrightarrow> write_rpv_write r e = en_flag e"
  by (simp add: write_rpv_write_def en_flag_def)

section \<open>Where the read parser stands\<close>

text \<open>The payload of a read request: the address and the length of each block.\<close>

definition read_request :: "(uintptr \<times> u16) list \<Rightarrow> u8 list" where
  "read_request bs = concat (map (\<lambda>(a, l). ack_item a l) bs)"

lemma read_request_simps [simp]:
  "read_request [] = []" "read_request ((a, l) # bs) = ack_item a l @ read_request bs"
  by (simp_all add: read_request_def)

lemma length_read_request: "length (read_request bs) = 10 * length bs"
  by (induction bs) (auto simp: length_ack_item)

definition block_need :: "uintptr \<times> u16 \<Rightarrow> nat" where
  "block_need b = 10 + unat (snd b)"

definition rp_suffix :: "read_parser \<Rightarrow> (uintptr \<times> u16) list \<Rightarrow> bool" where
  "rp_suffix p bs =
    (\<not> rp_finished p \<and> \<not> rp_invalid p
     \<and> (\<exists>junk. drop (unat (rp_bytes_read p)) (rp_buffer p) = read_request bs @ junk)
     \<and> unat (rp_request_datasize p) = unat (rp_bytes_read p) + 10 * length bs)"

definition tx_room :: "u16 \<Rightarrow> nat" where
  "tx_room required = unat (MAXIMUM_TX_BUFFER_SIZE - required)"

lemma decode_ack_item:
  "decode_address_big_endian (ack_item a l @ xs) = a"
  "decode_16_bits_big_endian (drop 8 (ack_item a l @ xs)) = l"
  by (simp_all add: ack_item_def be_addr.dec_enc_append be_addr.length_enc be16.dec_enc_append)

lemma rp_suffix_reads:
  assumes "rp_suffix p ((a, l) # bs)"
  shows "\<not> rp_finished p" "\<not> rp_invalid p"
    "\<not> 10 > unat (rp_request_datasize p - rp_bytes_read p)"
    "decode_address_big_endian (drop (unat (rp_bytes_read p)) (rp_buffer p)) = a"
    "decode_16_bits_big_endian (drop (unat (rp_bytes_read p + 8)) (rp_buffer p)) = l"
    "unat (rp_bytes_read p + 10) = unat (rp_bytes_read p) + 10"
    "rp_bytes_read p + 10 = rp_request_datasize p \<longleftrightarrow> bs = []"
    "\<exists>junk. drop (unat (rp_bytes_read p + 10)) (rp_buffer p) = read_request bs @ junk"
proof -
  obtain junk where run: "\<not> rp_finished p" "\<not> rp_invalid p"
    and buf: "drop (unat (rp_bytes_read p)) (rp_buffer p) = ack_item a l @ read_request bs @ junk"
    and size: "unat (rp_request_datasize p) = unat (rp_bytes_read p) + 10 + 10 * length bs"
    using assms by (auto simp: rp_suffix_def)
  show "\<not> rp_finished p" "\<not> rp_invalid p" by (rule run)+
  have lt: "unat (rp_request_datasize p) < 65536" by simp
  show "\<not> 10 > unat (rp_request_datasize p - rp_bytes_read p)"
    using size by (subst unat_sub) (simp_all add: word_le_nat_alt)
  have pos8: "unat (rp_bytes_read p + 8) = unat (rp_bytes_read p) + 8"
    using size lt by (simp add: unat_add_u16)
  show pos: "unat (rp_bytes_read p + 10) = unat (rp_bytes_read p) + 10"
    using size lt by (simp add: unat_add_u16)
  show "decode_address_big_endian (drop (unat (rp_bytes_read p)) (rp_buffer p)) = a"
    by (simp only: buf decode_ack_item)
  have "drop (unat (rp_bytes_read p + 8)) (rp_buffer p) = drop 8 (ack_item a l @ read_request bs @ junk)"
    by (metis buf drop_drop pos8 add.commute)
  then show "decode_16_bits_big_endian (drop (unat (rp_bytes_read p + 8)) (rp_buffer p)) = l"
    by (simp only: decode_ack_item)
  show "rp_bytes_read p + 10 = rp_request_datasize p \<longleftrightarrow> bs = []"
    using size pos by (auto simp: word_unat_eq_iff)
  show "\<exists>junk. drop (unat (rp_bytes_read p + 10)) (rp_buffer p) = read_request bs @ junk"
    using arg_cong [OF buf, of "drop 10"] by (simp add: pos length_ack_item add.commute)
qed

lemma rp_next_suffix:
  assumes "rp_suffix p ((a, l) # bs)" "block_need (a, l) \<le> tx_room (rp_required_tx_buffer_size p)"
  defines "p' \<equiv> p\<lparr>rp_bytes_read := rp_bytes_read p + 10, rp_finished := (bs = [])\<rparr>"
  shows "rp_next p blk = (p', blk\<lparr>mb_start_address := a, mb_length := l\<rparr>)"
    "bs \<noteq> [] \<Longrightarrow> rp_suffix p' bs"
proof -
  note reads = rp_suffix_reads [OF assms(1)]
  have need: "\<not> addr_size + 2 + unat l > unat (MAXIMUM_TX_BUFFER_SIZE - rp_required_tx_buffer_size p)"
    using assms(2) by (simp add: block_need_def tx_room_def)
  have ten: "rp_bytes_read p + 8 + 2 = rp_bytes_read p + 10" by simp
  have keep: "p\<lparr>rp_finished := False\<rparr> = p" using reads(1) by simp
  show "rp_next p blk = (p', blk\<lparr>mb_start_address := a, mb_length := l\<rparr>)"
    using reads need by (cases "bs = []") (simp_all add: rp_next_def Let_def p'_def ten)
  show "rp_suffix p' bs" if "bs \<noteq> []"
    using that reads(1,2,6,8) assms(1) by (simp add: rp_suffix_def p'_def)
qed

lemma rp_next_too_big:
  assumes "rp_suffix p ((a, l) # bs)" "\<not> block_need (a, l) \<le> tx_room (rp_required_tx_buffer_size p)"
  shows "rp_invalid (fst (rp_next p blk))"
  using rp_suffix_reads [OF assms(1)] assms(2)
  by (simp add: rp_next_def Let_def block_need_def tx_room_def)

text \<open>
  The validation traversal: every block must fit in what the blocks before it leave, and the
  size it records counts all the blocks but the last.
\<close>

fun scan_fits :: "u16 \<Rightarrow> (uintptr \<times> u16) list \<Rightarrow> bool" where
  "scan_fits required [] = True"
| "scan_fits required (b # bs) =
    (block_need b \<le> tx_room required \<and> scan_fits (required + (8 + 2 + snd b)) bs)"

fun scan_required :: "u16 \<Rightarrow> (uintptr \<times> u16) list \<Rightarrow> u16" where
  "scan_required required [] = required"
| "scan_required required [b] = required"
| "scan_required required (b # bs) = scan_required (required + (8 + 2 + snd b)) bs"

lemma rp_scan_fits:
  assumes "rp_suffix p bs" "bs \<noteq> []" "scan_fits (rp_required_tx_buffer_size p) bs"
  shows "\<exists>p'. rp_scan p blk = Some p' \<and> \<not> rp_invalid p' \<and> rp_finished p'
    \<and> rp_buffer p' = rp_buffer p \<and> rp_request_datasize p' = rp_request_datasize p
    \<and> rp_required_tx_buffer_size p' = scan_required (rp_required_tx_buffer_size p) bs"
  using assms
proof (induction bs arbitrary: p blk)
  case Nil
  then show ?case by simp
next
  case (Cons b bs)
  obtain a l where b: "b = (a, l)" by force
  let ?p = "p\<lparr>rp_bytes_read := rp_bytes_read p + 10, rp_finished := (bs = [])\<rparr>"
  let ?blk = "blk\<lparr>mb_start_address := a, mb_length := l\<rparr>"
  note suf = Cons.prems(1) [unfolded b]
  have need: "block_need (a, l) \<le> tx_room (rp_required_tx_buffer_size p)"
    using Cons.prems(3) b by simp
  note step = rp_next_suffix [OF suf need]
  have valid: "\<not> rp_invalid p" using suf by (simp add: rp_suffix_def)
  show ?case
  proof (cases "bs = []")
    case True
    with step(1) [of blk] valid b show ?thesis by (subst rp_scan.simps) simp
  next
    case False
    let ?q = "?p\<lparr>rp_required_tx_buffer_size := rp_required_tx_buffer_size ?p + (8 + 2 + l)\<rparr>"
    have loop: "rp_scan p blk = rp_scan ?q ?blk"
      using step(1) [of blk] valid False by (subst rp_scan.simps) simp
    have "rp_suffix ?q bs" using step(2) [OF False] by (simp add: rp_suffix_def)
    from Cons.IH [OF this False, of ?blk] Cons.prems(3) b False loop
    show ?thesis by (cases bs) simp_all
  qed
qed

lemma rp_scan_too_big:
  assumes "rp_suffix p bs" "bs \<noteq> []" "\<not> scan_fits (rp_required_tx_buffer_size p) bs"
  shows "\<exists>p'. rp_scan p blk = Some p' \<and> rp_invalid p'"
  using assms
proof (induction bs arbitrary: p blk)
  case Nil
  then show ?case by simp
next
  case (Cons b bs)
  obtain a l where b: "b = (a, l)" by force
  note suf = Cons.prems(1) [unfolded b]
  show ?case
  proof (cases "block_need (a, l) \<le> tx_room (rp_required_tx_buffer_size p)")
    case False
    then show ?thesis
      using rp_next_too_big [OF suf False, of blk]
      by (subst rp_scan.simps) (auto split: prod.split)
  next
    case need: True
    let ?p = "p\<lparr>rp_bytes_read := rp_bytes_read p + 10, rp_finished := (bs = [])\<rparr>"
    let ?blk = "blk\<lparr>mb_start_address := a, mb_length := l\<rparr>"
    let ?q = "?p\<lparr>rp_required_tx_buffer_size := rp_required_tx_buffer_size ?p + (8 + 2 + l)\<rparr>"
    note step = rp_next_suffix [OF suf need]
    have more: "bs \<noteq> []" using Cons.prems(3) need b by auto
    have valid: "\<not> rp_invalid p" using suf by (simp add: rp_suffix_def)
    have "rp_scan p blk = rp_scan ?q ?blk"
      using step(1) [of blk] valid more by (subst rp_scan.simps) simp
    moreover have "rp_suffix ?q bs" using step(2) [OF more] by (simp add: rp_suffix_def)
    ultimately show ?thesis
      using Cons.IH [of ?q ?blk] more Cons.prems(3) need b by simp
  qed
qed

text \<open>Each \<open>next\<close> that goes on leaves ten bytes less, whatever the request holds.\<close>

lemma rp_next_measure:
  assumes "rp_next p blk = (p', blk')" "\<not> rp_invalid p'" "\<not> rp_finished p'"
  shows "unat (rp_request_datasize p' - rp_bytes_read p') < unat (rp_request_datasize p - rp_bytes_read p)"
proof -
  have run: "\<not> rp_finished p \<and> \<not> rp_invalid p" "10 \<le> unat (rp_request_datasize p - rp_bytes_read p)"
    "p' = p\<lparr>rp_bytes_read := rp_bytes_read p + 8 + 2\<rparr>"
    using assms by (auto simp: rp_next_def Let_def split: if_splits)
  have "rp_request_datasize p - (rp_bytes_read p + 8 + 2) = (rp_request_datasize p - rp_bytes_read p) - 10"
    by simp
  also have "unat \<dots> = unat (rp_request_datasize p - rp_bytes_read p) - 10"
    using run(2) by (subst unat_sub) (simp_all add: word_le_nat_alt)
  finally show ?thesis using run(2,3) by simp
qed

lemma rp_scan_total: "\<exists>p'. rp_scan p blk = Some p'"
proof (induction "unat (rp_request_datasize p - rp_bytes_read p)" arbitrary: p blk rule: less_induct)
  case less
  obtain p' blk' where next': "rp_next p blk = (p', blk')" by force
  show ?case
  proof (cases "rp_invalid p' \<or> rp_finished p'")
    case True
    then show ?thesis by (subst rp_scan.simps) (simp add: next')
  next
    case False
    let ?q = "p'\<lparr>rp_required_tx_buffer_size := rp_required_tx_buffer_size p' + (8 + 2 + mb_length blk')\<rparr>"
    have "unat (rp_request_datasize ?q - rp_bytes_read ?q) < unat (rp_request_datasize p - rp_bytes_read p)"
      using rp_next_measure [OF next'] False by simp
    from less.hyps [OF this, of blk'] obtain r where "rp_scan ?q blk' = Some r" by blast
    with False show ?thesis by (subst rp_scan.simps) (simp add: next')
  qed
qed

lemma rp_init_total: "\<exists>p. rp_init rq blk = Some p"
  using rp_scan_total by (auto simp: rp_init_def Let_def split: option.split)

section \<open>Where the write parser stands\<close>

text \<open>A block to write: its address, the bytes, and the mask when the write is masked.\<close>

type_synonym write_block = "uintptr \<times> u8 list \<times> u8 list"

definition wblock_ok :: "bool \<Rightarrow> write_block \<Rightarrow> bool" where
  "wblock_ok masked b = (case b of (a, ds, ms) \<Rightarrow>
     length ds < 65536 \<and> (if masked then length ms = length ds else ms = []))"

definition wblock_bytes :: "write_block \<Rightarrow> u8 list" where
  "wblock_bytes b = (case b of (a, ds, ms) \<Rightarrow> ack_item a (of_nat (length ds)) @ ds @ ms)"

definition write_request :: "write_block list \<Rightarrow> u8 list" where
  "write_request bs = concat (map wblock_bytes bs)"

lemma write_request_simps [simp]:
  "write_request [] = []" "write_request (b # bs) = wblock_bytes b @ write_request bs"
  by (simp_all add: write_request_def)

definition wp_suffix :: "write_parser \<Rightarrow> write_block list \<Rightarrow> bool" where
  "wp_suffix p bs =
    (\<not> wp_finished p \<and> \<not> wp_invalid p \<and> list_all (wblock_ok (wp_masked_write p)) bs
     \<and> (\<exists>junk. drop (unat (wp_bytes_read p)) (wp_buffer p) = write_request bs @ junk)
     \<and> unat (wp_size_limit p) = unat (wp_bytes_read p) + length (write_request bs))"

definition block_of :: "bool \<Rightarrow> write_block \<Rightarrow> mem_block \<Rightarrow> mem_block" where
  "block_of masked b blk = (case b of (a, ds, ms) \<Rightarrow>
     blk\<lparr>mb_start_address := a, mb_length := of_nat (length ds), mb_source_data := ds,
         mb_mask := (if masked then Some ms else None)\<rparr>)"

lemma half_remaining_nat:
  "unat n \<le> unat limit \<Longrightarrow> unat (half_remaining limit n) = (unat limit - unat n) div 2"
proof -
  assume le: "unat n \<le> unat limit"
  have lt: "(unat limit - unat n) div 2 < 65536"
    using unat_u16_lt [of limit] by linarith
  have "(uint limit - uint n) div 2 = int ((unat limit - unat n) div 2)"
    by (simp only: uint_nat zdiv_int of_nat_diff [OF le] of_nat_numeral)
  then show ?thesis
    by (simp only: half_remaining_def of_int_of_nat_eq unat_of_nat_u16 [OF lt])
qed

lemma wblock_nil_length: "length (write_request bs) = 0 \<longleftrightarrow> bs = []"
proof (cases bs)
  case (Cons b bs')
  then show ?thesis
    by (cases b) (simp add: wblock_bytes_def length_ack_item flip: length_0_conv)
qed simp

lemma wp_next_suffix:
  assumes suf: "wp_suffix p (b # bs)"
  defines "p' \<equiv> p\<lparr>wp_bytes_read := wp_bytes_read p + of_nat (length (wblock_bytes b)), wp_finished := (bs = [])\<rparr>"
  shows "wp_next p blk = (p', block_of (wp_masked_write p) b blk)"
    "bs \<noteq> [] \<Longrightarrow> wp_suffix p' bs"
proof -
  obtain a ds ms where b: "b = (a, ds, ms)" by (cases b) auto
  obtain junk where run: "\<not> wp_finished p" "\<not> wp_invalid p" "wblock_ok (wp_masked_write p) b"
      "list_all (wblock_ok (wp_masked_write p)) bs"
    and buf: "drop (unat (wp_bytes_read p)) (wp_buffer p)
      = ack_item a (of_nat (length ds)) @ ds @ ms @ write_request bs @ junk"
    and size: "unat (wp_size_limit p)
      = unat (wp_bytes_read p) + 10 + length ds + length ms + length (write_request bs)"
    using suf by (auto simp: wp_suffix_def b wblock_bytes_def length_ack_item)
  let ?n = "unat (wp_bytes_read p)" and ?k = "length ds" and ?l = "of_nat (length ds) :: u16"
  have lt: "unat (wp_size_limit p) < 65536" by simp
  have k: "unat ?l = ?k" using size lt by simp
  have pos: "unat (wp_bytes_read p + 8) = ?n + 8" "unat (wp_bytes_read p + 10) = ?n + 10"
    "unat (wp_bytes_read p + 10 + ?l) = ?n + 10 + ?k"
    "unat (wp_bytes_read p + 10 + ?l + of_nat (length ms)) = ?n + 10 + ?k + length ms"
    using size lt by (simp_all add: unat_add_u16)
  have room: "\<not> 10 > unat (wp_size_limit p - wp_bytes_read p)"
    using size by (subst unat_sub) (simp_all add: word_le_nat_alt)
  have addr: "decode_address_big_endian (drop ?n (wp_buffer p)) = a"
    by (simp only: buf decode_ack_item)
  have "drop (unat (wp_bytes_read p + 8)) (wp_buffer p)
      = drop 8 (ack_item a ?l @ ds @ ms @ write_request bs @ junk)"
    by (metis buf drop_drop pos(1) add.commute)
  then have len: "decode_16_bits_big_endian (drop (unat (wp_bytes_read p + 8)) (wp_buffer p)) = ?l"
    by (simp only: decode_ack_item)
  have buf10: "drop (unat (wp_bytes_read p + 10)) (wp_buffer p) = ds @ ms @ write_request bs @ junk"
    using arg_cong [OF buf, of "drop 10"] by (simp add: pos(2) length_ack_item add.commute)
  have bufm: "drop (unat (wp_bytes_read p + 10 + ?l)) (wp_buffer p) = ms @ write_request bs @ junk"
    unfolding pos(3) using arg_cong [OF buf10, of "drop (length ds)"] by (simp add: pos(2) ac_simps)
  have rest: "unat (wp_size_limit p - (wp_bytes_read p + 10)) = ?k + length ms + length (write_request bs)"
    using size pos(2) by (subst unat_sub) (simp_all add: word_le_nat_alt)
  have fits: "\<not> ?l > wp_size_limit p - (wp_bytes_read p + 10)"
    using rest k by (simp add: word_less_nat_alt)
  have half: "\<not> (wp_masked_write p \<and> ?l > half_remaining (wp_size_limit p) (wp_bytes_read p + 10))"
    using size pos(2) k run(3) by (auto simp: word_less_nat_alt half_remaining_nat b wblock_ok_def)
  have inside: "\<not> wp_bytes_read p + 10 + ?l > wp_size_limit p"
    using size pos(3) by (simp add: word_less_nat_alt)
  have fin: "wp_bytes_read p + 10 + ?l + of_nat (length ms) = wp_size_limit p \<longleftrightarrow> bs = []"
    using size pos(4) by (auto simp: word_unat_eq_iff simp flip: wblock_nil_length)
  have total: "wp_bytes_read p + of_nat (length (wblock_bytes b)) = wp_bytes_read p + 10 + ?l + of_nat (length ms)"
    by (simp add: b wblock_bytes_def length_ack_item)
  define l where "l = ?l"
  define n10 where "n10 = wp_bytes_read p + 10"
  define nk where "nk = n10 + l"
  define nm where "nm = nk + of_nat (length ms)"
  note folded = addr len [folded l_def] room fits [folded l_def n10_def] half [folded l_def n10_def]
    inside [folded l_def n10_def nk_def] fin [folded l_def n10_def nk_def nm_def]
    buf10 [folded n10_def] bufm [folded l_def n10_def nk_def] k [folded l_def]
  have ten: "wp_bytes_read p + 8 + 2 = n10" by (simp add: n10_def)
  have p': "p' = p\<lparr>wp_bytes_read := nm, wp_finished := (bs = [])\<rparr>"
    by (simp only: p'_def total l_def [symmetric] n10_def [symmetric] nk_def [symmetric] nm_def [symmetric])
  show "wp_next p blk = (p', block_of (wp_masked_write p) b blk)"
  proof (cases "wp_masked_write p")
    case True
    then have "nk + l = nm" using run(3) by (simp add: nm_def l_def b wblock_ok_def)
    moreover have "length ms = ?k" using run(3) True by (simp add: b wblock_ok_def)
    ultimately show ?thesis
      using True run(1,2) folded nk_def [symmetric]
      by (cases "bs = []") (simp_all add: wp_next_def Let_def ten p' block_of_def b l_def [symmetric])
  next
    case False
    then have "nk = nm" "ms = []" using run(3) by (simp_all add: nm_def b wblock_ok_def)
    then show ?thesis
      using False run(1,2) folded nk_def [symmetric]
      by (cases "bs = []") (simp_all add: wp_next_def Let_def ten p' block_of_def b l_def [symmetric])
  qed
  have "drop (unat (wp_bytes_read p')) (wp_buffer p') = write_request bs @ junk"
    using arg_cong [OF bufm, of "drop (length ms)"]
    by (simp add: p'_def total pos(3,4) add.commute [of "length ms"])
  then show "wp_suffix p' bs" if "bs \<noteq> []"
    using that run size pos(4) by (simp add: wp_suffix_def p'_def total)
qed

lemma wp_scan_fits:
  assumes "wp_suffix p bs" "bs \<noteq> []"
  shows "\<exists>p'. wp_scan p blk = Some p' \<and> \<not> wp_invalid p' \<and> wp_finished p'
    \<and> wp_buffer p' = wp_buffer p \<and> wp_size_limit p' = wp_size_limit p
    \<and> wp_masked_write p' = wp_masked_write p
    \<and> wp_required_tx_buffer_size p' = wp_required_tx_buffer_size p + of_nat (10 * (length bs - 1))"
  using assms
proof (induction bs arbitrary: p blk)
  case Nil
  then show ?case by simp
next
  case (Cons b bs)
  let ?p = "p\<lparr>wp_bytes_read := wp_bytes_read p + of_nat (length (wblock_bytes b)), wp_finished := (bs = [])\<rparr>"
  let ?blk = "block_of (wp_masked_write p) b blk"
  note step = wp_next_suffix [OF Cons.prems(1)]
  have valid: "\<not> wp_invalid p" using Cons.prems(1) by (simp add: wp_suffix_def)
  show ?case
  proof (cases "bs = []")
    case True
    with step(1) [of blk] valid show ?thesis by (subst wp_scan.simps) simp
  next
    case False
    let ?q = "?p\<lparr>wp_required_tx_buffer_size := wp_required_tx_buffer_size ?p + (8 + 2)\<rparr>"
    have loop: "wp_scan p blk = wp_scan ?q ?blk"
      using step(1) [of blk] valid False by (subst wp_scan.simps) simp
    have "wp_suffix ?q bs" using step(2) [OF False] by (simp add: wp_suffix_def)
    from Cons.IH [OF this False, of ?blk] False loop
    show ?thesis by (cases bs) (simp_all add: algebra_simps)
  qed
qed

lemma wp_next_measure:
  assumes "wp_next p blk = (p', blk')" "\<not> wp_invalid p'" "\<not> wp_finished p'"
    "unat (wp_bytes_read p) \<le> unat (wp_size_limit p)"
  shows "wp_size_limit p' = wp_size_limit p" "unat (wp_bytes_read p) < unat (wp_bytes_read p')"
    "unat (wp_bytes_read p') \<le> unat (wp_size_limit p)"
proof -
  let ?n = "wp_bytes_read p" and ?lim = "wp_size_limit p"
  define n10 where "n10 = ?n + 10"
  define l where "l = decode_16_bits_big_endian (drop (unat (?n + 8)) (wp_buffer p))"
  have ten: "?n + 8 + 2 = n10" by (simp add: n10_def)
  have lt: "unat ?lim < 65536" by simp
  have run: "\<not> wp_finished p" "\<not> wp_invalid p" "10 \<le> unat (?lim - ?n)"
    using assms(1-3) by (auto simp: wp_next_def split: if_splits)
  have n10: "unat ?n + 10 \<le> unat ?lim"
    using run(3) assms(4) by (subst (asm) unat_sub) (simp_all add: word_le_nat_alt)
  have pos10: "unat n10 = unat ?n + 10"
  proof -
    have "unat ?n + 10 < 65536" using n10 lt by linarith
    then show ?thesis by (simp add: unat_add_u16 n10_def)
  qed
  have rest: "unat (?lim - n10) = unat ?lim - unat n10"
    using n10 pos10 by (subst unat_sub) (simp_all add: word_le_nat_alt)
  have ok: "\<not> l > ?lim - n10" "\<not> (wp_masked_write p \<and> l > half_remaining ?lim n10)"
    using assms(1,2) run
    by (auto simp: wp_next_def Let_def ten l_def [symmetric] split: if_splits)
  have l: "unat n10 + unat l \<le> unat ?lim"
    "wp_masked_write p \<Longrightarrow> unat n10 + unat l + unat l \<le> unat ?lim"
    using ok rest n10 pos10 by (auto simp: word_less_nat_alt half_remaining_nat)
  have pos1: "unat (n10 + l) = unat n10 + unat l"
    by (rule unat_add_no_wrap_u16) (use l(1) lt in linarith)
  have pos2: "unat (n10 + l + l) = unat n10 + unat l + unat l" if "wp_masked_write p"
    unfolding pos1 [symmetric] by (rule unat_add_no_wrap_u16) (use l(2) [OF that] lt pos1 in linarith)
  have "\<not> ?lim < n10 + l" using pos1 l(1) by (simp add: word_less_nat_alt)
  then have p': "p' = p\<lparr>wp_bytes_read := (if wp_masked_write p then n10 + l + l else n10 + l)\<rparr>"
    using assms(1-3) run ok
    by (auto simp: wp_next_def Let_def ten l_def [symmetric] split: if_splits)
  show "wp_size_limit p' = wp_size_limit p" by (simp add: p')
  show "unat (wp_bytes_read p) < unat (wp_bytes_read p')" using pos1 pos2 pos10 by (simp add: p')
  show "unat (wp_bytes_read p') \<le> unat (wp_size_limit p)" using pos1 pos2 l by (simp add: p')
qed

lemma wp_scan_total:
  "unat (wp_bytes_read p) \<le> unat (wp_size_limit p) \<Longrightarrow> \<exists>p'. wp_scan p blk = Some p'"
proof (induction "unat (wp_size_limit p) - unat (wp_bytes_read p)" arbitrary: p blk rule: less_induct)
  case less
  obtain p' blk' where next': "wp_next p blk = (p', blk')" by force
  show ?case
  proof (cases "wp_invalid p' \<or> wp_finished p'")
    case True
    then show ?thesis by (subst wp_scan.simps) (simp add: next')
  next
    case False
    let ?q = "p'\<lparr>wp_required_tx_buffer_size := wp_required_tx_buffer_size p' + (8 + 2)\<rparr>"
    have m: "wp_size_limit p' = wp_size_limit p" "unat (wp_bytes_read p) < unat (wp_bytes_read p')"
      "unat (wp_bytes_read p') \<le> unat (wp_size_limit p)"
      using wp_next_measure [OF next'] False less.prems by blast+
    then have "unat (wp_size_limit ?q) - unat (wp_bytes_read ?q) < unat (wp_size_limit p) - unat (wp_bytes_read p)"
      by simp
    from less.hyps [OF this, of blk'] m obtain r where "wp_scan ?q blk' = Some r" by auto
    with False show ?thesis by (subst wp_scan.simps) (simp add: next')
  qed
qed

lemma wp_init_total: "\<exists>p. wp_init rq masked blk = Some p"
proof -
  have "\<exists>p'. wp_scan (wp_reset \<lparr>wp_buffer = rq_data rq, wp_bytes_read = 0, wp_size_limit = rq_data_length rq,
      wp_required_tx_buffer_size = 0, wp_finished = False, wp_invalid = False, wp_masked_write = masked\<rparr>) blk = Some p'"
    by (rule wp_scan_total) (simp add: wp_reset_def)
  then show ?thesis by (auto simp: wp_init_def Let_def)
qed

text \<open>The parsers as \<open>init\<close> leaves them, on the payload of a well-formed request.\<close>

definition has_payload :: "request \<Rightarrow> u8 list \<Rightarrow> bool" where
  "has_payload rq bs =
    (unat (rq_data_length rq) = length bs \<and> take (length bs) (rq_data rq) = bs)"

lemma has_payload_split: "has_payload rq bs \<Longrightarrow> \<exists>junk. rq_data rq = bs @ junk"
  unfolding has_payload_def by (metis append_take_drop_id)

lemma rp_init_valid:
  assumes "has_payload rq (read_request bs)" "bs \<noteq> []" "scan_fits 0 bs"
  shows "\<exists>p. rp_init rq blk = Some p \<and> rp_suffix p bs \<and> rp_required_tx_buffer_size p = scan_required 0 bs"
proof -
  let ?p = "rp_reset \<lparr>rp_buffer = rq_data rq, rp_bytes_read = 0, rp_request_datasize = rq_data_length rq,
    rp_required_tx_buffer_size = 0, rp_finished = False, rp_invalid = False\<rparr>"
  have suf: "rp_suffix ?p bs"
    using assms(1) has_payload_split [OF assms(1)]
    by (simp add: rp_suffix_def rp_reset_def has_payload_def length_read_request)
  from rp_scan_fits [OF suf assms(2), of blk] assms(3) obtain p' where p':
    "rp_scan ?p blk = Some p'" "\<not> rp_invalid p'" "rp_buffer p' = rp_buffer ?p"
    "rp_request_datasize p' = rp_request_datasize ?p" "rp_required_tx_buffer_size p' = scan_required 0 bs"
    by (auto simp: rp_reset_def)
  have "rp_suffix (p'\<lparr>rp_bytes_read := 0, rp_finished := False\<rparr>) bs"
    using suf p' by (simp add: rp_suffix_def rp_reset_def)
  with p' show ?thesis by (simp add: rp_init_def Let_def)
qed

lemma wp_init_valid:
  assumes "has_payload rq (write_request bs)" "bs \<noteq> []" "list_all (wblock_ok masked) bs"
  shows "\<exists>p. wp_init rq masked blk = Some p \<and> wp_suffix p bs \<and> wp_masked_write p = masked
    \<and> wp_required_tx_buffer_size p = of_nat (10 * (length bs - 1))"
proof -
  let ?p = "wp_reset \<lparr>wp_buffer = rq_data rq, wp_bytes_read = 0, wp_size_limit = rq_data_length rq,
    wp_required_tx_buffer_size = 0, wp_finished = False, wp_invalid = False, wp_masked_write = masked\<rparr>"
  have suf: "wp_suffix ?p bs"
    using assms(1,3) has_payload_split [OF assms(1)]
    by (simp add: wp_suffix_def wp_reset_def has_payload_def)
  from wp_scan_fits [OF suf assms(2), of blk] obtain p' where p':
    "wp_scan ?p blk = Some p'" "\<not> wp_invalid p'" "wp_buffer p' = wp_buffer ?p"
    "wp_size_limit p' = wp_size_limit ?p" "wp_masked_write p' = masked"
    "wp_required_tx_buffer_size p' = of_nat (10 * (length bs - 1))"
    by (auto simp: wp_reset_def)
  have "wp_suffix (p'\<lparr>wp_bytes_read := 0, wp_finished := False\<rparr>) bs"
    using suf p' by (simp add: wp_suffix_def wp_reset_def)
  with p' show ?thesis by (simp add: wp_init_def Let_def)
qed

end
