(* ===== verification/Trigger.thy ===== *)
theory Trigger
  imports DatalogTypes Float32 BlockCodec
begin

text \<open>
  The trigger of the datalogger: \<open>lib/src/datalogging/scrutiny_datalogging_trigger.cpp\<close>, the operand
  functions of \<open>scrutiny_datalogging.cpp\<close> and the variable reads of the main handler that they use
  (\<open>fetch_variable\<close>, \<open>fetch_variable_bitfield\<close>). A value is its 64 bits with its type. A
  comparison mixes floats, signed and unsigned integers; the lemmas say when it is the comparison
  of the numbers, and where it is not.
\<close>

section \<open>Values and operands\<close>

record val_type =
  vt_val :: anytype
  vt_valtype :: variable_type

abbreviation (input) Compare_float :: variable_type where "Compare_float \<equiv> 0x22"
abbreviation (input) Compare_uint :: variable_type where "Compare_uint \<equiv> 0x13"
abbreviation (input) Compare_sint :: variable_type where "Compare_sint \<equiv> 0x03"

text \<open>Writing a member of the union: the low \<open>n\<close> bits.\<close>

definition set_low :: "nat \<Rightarrow> u64 \<Rightarrow> anytype \<Rightarrow> anytype" where
  "set_low n v old = ((old AND NOT (mask n)) OR (v AND mask n))"

text \<open>\<open>convert_to_compare_type\<close>: 8-byte integers are already of the type that is compared.\<close>

definition convert_to_compare_type :: "val_type \<Rightarrow> val_type" where
  "convert_to_compare_type p =
    (let v = vt_val p; t = vt_valtype p
     in if t = VT_float64 then
          \<lparr>vt_val = set_low 32 (ucast (f64_to_f32 v)) v, vt_valtype = VT_float32\<rparr>
        else if t = VT_boolean8 \<or> t = VT_boolean16 \<or> t = VT_boolean32 \<or> t = VT_boolean64 \<or> t = VT_boolean then
          \<lparr>vt_val = (if (ucast v :: u8) \<noteq> 0 then 1 else 0), vt_valtype = VT_uint64\<rparr>
        else if t = VT_sint8 then \<lparr>vt_val = scast (ucast v :: u8), vt_valtype = VT_sint64\<rparr>
        else if t = VT_sint16 then \<lparr>vt_val = scast (ucast v :: u16), vt_valtype = VT_sint64\<rparr>
        else if t = VT_sint32 then \<lparr>vt_val = scast (ucast v :: u32), vt_valtype = VT_sint64\<rparr>
        else if t = VT_uint8 then \<lparr>vt_val = ucast (ucast v :: u8), vt_valtype = VT_uint64\<rparr>
        else if t = VT_uint16 then \<lparr>vt_val = ucast (ucast v :: u16), vt_valtype = VT_uint64\<rparr>
        else if t = VT_uint32 then \<lparr>vt_val = ucast (ucast v :: u32), vt_valtype = VT_uint64\<rparr>
        else p)"

text \<open>The bytes of a variable as the target's integer, and the copy into the union.\<close>

fun le_value :: "u8 list \<Rightarrow> u64" where
  "le_value [] = 0"
| "le_value (b # bs) = ucast b OR push_bit 8 (le_value bs)"

definition fetch_variable :: "memory \<Rightarrow> uintptr \<Rightarrow> variable_type \<Rightarrow> anytype \<Rightarrow> bool \<times> anytype" where
  "fetch_variable m addr variable_type val =
    (let typesize_char = unat (get_type_size_8bits variable_type)
     in if typesize_char = 0 \<or> typesize_char > 8 then (False, val)
        else (True, set_low (8 * typesize_char) (le_value (mem_read m addr typesize_char)) val))"

text \<open>A member of \<open>w\<close> bits shifted right, then masked to \<open>bitsize\<close> bits and sign-extended.\<close>

definition shift_member :: "nat \<Rightarrow> nat \<Rightarrow> anytype \<Rightarrow> anytype" where
  "shift_member w bitoffset val = set_low w (drop_bit bitoffset (val AND mask w)) val"

definition mask_member :: "nat \<Rightarrow> nat \<Rightarrow> bool \<Rightarrow> anytype \<Rightarrow> anytype" where
  "mask_member w bitsize is_sint val =
    (let msk = (if bitsize < w then mask bitsize else mask w);
         v = val AND mask w AND msk;
         v = (if is_sint \<and> drop_bit (bitsize - 1) v \<noteq> 0 then v OR NOT msk else v)
     in set_low w v val)"

definition type_size_bits :: "variable_type_size \<Rightarrow> nat option" where
  "type_size_bits ts =
    (if ts = TypeSize_8 then Some 8 else if ts = TypeSize_16 then Some 16
     else if ts = TypeSize_32 then Some 32 else if ts = TypeSize_64 then Some 64 else None)"

text \<open>The sizes are computed on \<open>int\<close> and cut to 8 bits; a field of no bits is refused.\<close>

definition fetch_variable_bitfield ::
  "memory \<Rightarrow> uintptr \<Rightarrow> variable_type_type \<Rightarrow> u8 \<Rightarrow> u8 \<Rightarrow> val_type \<Rightarrow> bool \<times> val_type" where
  "fetch_variable_bitfield m addr var_tt bitoffset bitsize p =
    (let fetch_required_size = (of_int ((uint bitoffset + uint bitsize - 1) div 8 + 1) :: u8);
         output_required_size = (of_int ((uint bitsize - 1) div 8 + 1) :: u8);
         fetch_type_size = get_required_type_size_8bits fetch_required_size;
         output_type_size = get_required_type_size_8bits output_required_size;
         fetch_variable_type = make_type TypeType_uint fetch_type_size;
         output_variable_type = make_type var_tt output_type_size;
         (success, val) =
           (if bitsize = 0 then (False, vt_val p)
            else if var_tt = TypeType_sint \<or> var_tt = TypeType_uint \<or> var_tt = TypeType_boolean then
              (case fetch_variable m addr fetch_variable_type (vt_val p) of (success, val) \<Rightarrow>
                 if \<not> success then (False, val)
                 else case (type_size_bits fetch_type_size, type_size_bits output_type_size) of
                   (Some w, Some w') \<Rightarrow>
                     (True, mask_member w' (unat bitsize) (var_tt = TypeType_sint)
                              (shift_member w (unat bitoffset) val))
                 | _ \<Rightarrow> (False, val))
            else (True, vt_val p))
     in if \<not> success then (False, \<lparr>vt_val = 0, vt_valtype = VT_unknown\<rparr>)
        else (True, \<lparr>vt_val = val, vt_valtype = output_variable_type\<rparr>))"

text \<open>
  \<open>fetch_operand\<close>: the value found in the datalogger's array is handed to the callback, as is the
  uninitialised \<open>rpv\<close> (\<open>junk\<close>) when the identifier is unknown.
\<close>

definition fetch_operand ::
  "'u config \<Rightarrow> rpv \<Rightarrow> loop_ref option \<Rightarrow> operand \<Rightarrow> val_type \<Rightarrow> 'u world \<Rightarrow> bool \<times> val_type \<times> 'u world" where
  "fetch_operand cf junk caller opd p w =
    (let (success, p, w) =
       (if op_type opd = OperandType_Literal then
          (True, \<lparr>vt_val = set_low 32 (ucast (op_literal_val opd)) (vt_val p), vt_valtype = VT_float32\<rparr>, w)
        else if op_type opd = OperandType_Rpv then
          (let rpv = (case get_rpv cf (op_rpv_id opd) of None \<Rightarrow> junk | Some rpv \<Rightarrow> rpv)
           in case the (cf_rpv_read_callback cf) rpv (vt_val p) caller w of (success, v, w) \<Rightarrow>
             (success, \<lparr>vt_val = v, vt_valtype = rpv_type rpv\<rparr>, w))
        else if op_type opd = OperandType_Var then
          (case fetch_variable (w_memory w) (op_addr opd) (op_datatype opd) (vt_val p) of (success, v) \<Rightarrow>
             (success, \<lparr>vt_val = v, vt_valtype = op_datatype opd\<rparr>, w))
        else if op_type opd = OperandType_VarBit then
          (case fetch_variable_bitfield (w_memory w) (op_addr opd) (get_var_type_type (op_datatype opd))
                  (op_bitoffset opd) (op_bitsize opd) p of (success, p) \<Rightarrow> (success, p, w))
        else (False, p, w))
     in if \<not> success then (False, \<lparr>vt_val = 0, vt_valtype = VT_float32\<rparr>, w) else (True, p, w))"

section \<open>Comparisons\<close>

datatype relational_operator = RO_Equal | RO_NotEqual | RO_GreaterThan | RO_GreaterOrEqualThan
  | RO_LessThan | RO_LessOrEqualThan

text \<open>The template, with the \<open>==\<close>, \<open><\<close> and \<open><=\<close> of the type it is used at.\<close>

fun apply_relational_op ::
  "('a \<Rightarrow> 'a \<Rightarrow> bool) \<Rightarrow> ('a \<Rightarrow> 'a \<Rightarrow> bool) \<Rightarrow> ('a \<Rightarrow> 'a \<Rightarrow> bool) \<Rightarrow> relational_operator \<Rightarrow> 'a \<Rightarrow> 'a \<Rightarrow> bool" where
  "apply_relational_op eq lt le RO_Equal arg1 arg2 = eq arg1 arg2"
| "apply_relational_op eq lt le RO_NotEqual arg1 arg2 = (\<not> eq arg1 arg2)"
| "apply_relational_op eq lt le RO_GreaterThan arg1 arg2 = lt arg2 arg1"
| "apply_relational_op eq lt le RO_GreaterOrEqualThan arg1 arg2 = le arg2 arg1"
| "apply_relational_op eq lt le RO_LessThan arg1 arg2 = lt arg1 arg2"
| "apply_relational_op eq lt le RO_LessOrEqualThan arg1 arg2 = le arg1 arg2"

abbreviation "apply_float \<equiv> apply_relational_op f32_eq f32_lt f32_le"
abbreviation "apply_sint \<equiv> apply_relational_op (=) (\<lambda>a b. sint (a :: u64) < sint b) (\<lambda>a b. sint a \<le> sint b)"
abbreviation "apply_uint \<equiv> apply_relational_op (=) (\<lambda>a b. (a :: u64) < b) (\<lambda>a b. a \<le> b)"

abbreviation (input) UINT_2_INT_MAX :: u64 where "UINT_2_INT_MAX \<equiv> 0x7FFFFFFFFFFFFFFF"

text \<open>The \<open>_float\<close> member, and \<open>static_cast<float>\<close> of the integer members.\<close>

definition clamp_uint :: "u64 \<Rightarrow> u64" where
  "clamp_uint v = (if v > UINT_2_INT_MAX then UINT_2_INT_MAX else v)"

definition val_float :: "val_type \<Rightarrow> u32" where
  "val_float p = ucast (vt_val p)"

definition relational_compare :: "relational_operator \<Rightarrow> val_type \<Rightarrow> val_type \<Rightarrow> bool" where
  "relational_compare ro a b =
    (let ta = vt_valtype a; tb = vt_valtype b; va = vt_val a; vb = vt_val b
     in if ta = Compare_float then
          (if tb = Compare_float then apply_float ro (val_float a) (val_float b)
           else if tb = Compare_sint then apply_float ro (val_float a) (f32_of_int (sint vb))
           else if tb = Compare_uint then apply_float ro (val_float a) (f32_of_int (uint vb))
           else False)
        else if ta = Compare_sint then
          (if tb = Compare_float then apply_float ro (f32_of_int (sint va)) (val_float b)
           else if tb = Compare_sint then apply_sint ro va vb
           else if tb = Compare_uint then
             apply_sint ro va (clamp_uint vb)
           else False)
        else if ta = Compare_uint then
          (if tb = Compare_float then apply_float ro (f32_of_int (uint va)) (val_float b)
           else if tb = Compare_sint then
             apply_sint ro (clamp_uint va) vb
           else if tb = Compare_uint then apply_uint ro va vb
           else False)
        else False)"

section \<open>Conditions\<close>

record condition_data =
  cd_previous_val :: u64
  cd_initialized :: bool

type_synonym eval_fn = "condition_data \<Rightarrow> val_type list \<Rightarrow> bool \<times> condition_data"
type_synonym reset_fn = "condition_data \<Rightarrow> condition_data"

record active_condition =
  ac_eval_fn :: eval_fn
  ac_reset_fn :: "reset_fn option"
  ac_operand_count :: u8

definition equal_evaluate :: eval_fn where
  "equal_evaluate d ops = (relational_compare RO_Equal (ops ! 0) (ops ! 1), d)"

definition not_equal_evaluate :: eval_fn where
  "not_equal_evaluate d ops = (relational_compare RO_NotEqual (ops ! 0) (ops ! 1), d)"

definition greater_than_evaluate :: eval_fn where
  "greater_than_evaluate d ops = (relational_compare RO_GreaterThan (ops ! 0) (ops ! 1), d)"

definition greater_or_equal_than_evaluate :: eval_fn where
  "greater_or_equal_than_evaluate d ops = (relational_compare RO_GreaterOrEqualThan (ops ! 0) (ops ! 1), d)"

definition less_than_evaluate :: eval_fn where
  "less_than_evaluate d ops = (relational_compare RO_LessThan (ops ! 0) (ops ! 1), d)"

definition less_or_equal_than_evaluate :: eval_fn where
  "less_or_equal_than_evaluate d ops = (relational_compare RO_LessOrEqualThan (ops ! 0) (ops ! 1), d)"

definition always_true_evaluate :: eval_fn where
  "always_true_evaluate d ops = (True, d)"

definition cmt_reset :: reset_fn where
  "cmt_reset d = \<lparr>cd_previous_val = 0, cd_initialized = False\<rparr>"

text \<open>A value of one of the three compared types as a float; the other types are refused.\<close>

definition compare_as_float :: "val_type \<Rightarrow> u32 option" where
  "compare_as_float p =
    (if vt_valtype p = Compare_uint then Some (f32_of_int (uint (vt_val p)))
     else if vt_valtype p = Compare_sint then Some (f32_of_int (sint (vt_val p)))
     else if vt_valtype p = Compare_float then Some (val_float p)
     else None)"

text \<open>The sum of the previous value and the delta is the target's, which wraps around.\<close>

definition change_more_than_evaluate :: eval_fn where
  "change_more_than_evaluate d ops =
    (case compare_as_float (ops ! 1) of
       None \<Rightarrow> (False, d)
     | Some delta \<Rightarrow>
       (let v = ops ! 0; prev = cd_previous_val d; up = f32_le 0 delta;
            outval =
              (if \<not> cd_initialized d then False
               else if vt_valtype v = Compare_uint then
                 (if up then vt_val v > prev + f32_to_int64 delta else vt_val v < prev + f32_to_int64 delta)
               else if vt_valtype v = Compare_sint then
                 (if up then sint (vt_val v) > sint (prev + f32_to_int64 delta)
                  else sint (vt_val v) < sint (prev + f32_to_int64 delta))
               else if vt_valtype v = Compare_float then
                 (if up then f32_lt (f32_add (ucast prev) delta) (val_float v)
                  else f32_lt (val_float v) (f32_add (ucast prev) delta))
               else False)
        in (outval, \<lparr>cd_previous_val = vt_val v, cd_initialized = True\<rparr>)))"

definition f32_abs_macro :: "u32 \<Rightarrow> u32" where
  "f32_abs_macro x = (if f32_le 0 x then x else f32_negate x)"

definition is_within_evaluate :: eval_fn where
  "is_within_evaluate d ops =
    (case (compare_as_float (ops ! 0), compare_as_float (ops ! 1), compare_as_float (ops ! 2)) of
       (Some a, Some b, Some c) \<Rightarrow> (f32_le (f32_abs_macro (f32_sub a b)) (f32_abs_macro c), d)
     | _ \<Rightarrow> (False, d))"

text \<open>\<open>CONDITION_CONFIG_LUT\<close> of the datalogger, indexed by the condition of the configuration.\<close>

definition condition_config_lut :: "active_condition list" where
  "condition_config_lut =
    [\<lparr>ac_eval_fn = always_true_evaluate, ac_reset_fn = None, ac_operand_count = 0\<rparr>,
     \<lparr>ac_eval_fn = equal_evaluate, ac_reset_fn = None, ac_operand_count = 2\<rparr>,
     \<lparr>ac_eval_fn = not_equal_evaluate, ac_reset_fn = None, ac_operand_count = 2\<rparr>,
     \<lparr>ac_eval_fn = less_than_evaluate, ac_reset_fn = None, ac_operand_count = 2\<rparr>,
     \<lparr>ac_eval_fn = less_or_equal_than_evaluate, ac_reset_fn = None, ac_operand_count = 2\<rparr>,
     \<lparr>ac_eval_fn = greater_than_evaluate, ac_reset_fn = None, ac_operand_count = 2\<rparr>,
     \<lparr>ac_eval_fn = greater_or_equal_than_evaluate, ac_reset_fn = None, ac_operand_count = 2\<rparr>,
     \<lparr>ac_eval_fn = change_more_than_evaluate, ac_reset_fn = Some cmt_reset, ac_operand_count = 2\<rparr>,
     \<lparr>ac_eval_fn = is_within_evaluate, ac_reset_fn = None, ac_operand_count = 3\<rparr>]"

section \<open>When a comparison is exact\<close>

text \<open>The number that a value stands for, in units of 2^-149.\<close>

definition val_num :: "val_type \<Rightarrow> int" where
  "val_num p =
    (if vt_valtype p = Compare_float then f32_num (val_float p)
     else if vt_valtype p = Compare_sint then sint (vt_val p) * 2 ^ 149
     else uint (vt_val p) * 2 ^ 149)"

definition comparable :: "val_type \<Rightarrow> bool" where
  "comparable p = (vt_valtype p = Compare_sint \<or> vt_valtype p = Compare_uint
     \<or> (vt_valtype p = Compare_float \<and> \<not> f32_is_nan (val_float p)))"

text \<open>
  An integer meets a float when it has at most 24 bits; a signed integer that is not the largest
  one, or an unsigned integer that a signed one can hold, meet each other.
\<close>

definition small_int :: "val_type \<Rightarrow> bool" where
  "small_int p = (\<bar>if vt_valtype p = Compare_sint then sint (vt_val p) else uint (vt_val p)\<bar> \<le> 2 ^ 24)"

definition meet :: "val_type \<Rightarrow> val_type \<Rightarrow> bool" where
  "meet a b =
    (if vt_valtype a = vt_valtype b then True
     else if vt_valtype a = Compare_float then small_int b
     else if vt_valtype b = Compare_float then small_int a
     else if vt_valtype a = Compare_sint then vt_val a \<noteq> UINT_2_INT_MAX \<or> vt_val b \<le> UINT_2_INT_MAX
     else vt_val b \<noteq> UINT_2_INT_MAX \<or> vt_val a \<le> UINT_2_INT_MAX)"

abbreviation "apply_num \<equiv> apply_relational_op (=) (<) ((\<le>) :: int \<Rightarrow> int \<Rightarrow> bool)"

lemma apply_relational_op_num:
  "(eq a b \<longleftrightarrow> x = y) \<Longrightarrow> (eq a b \<longleftrightarrow> eq b a) \<Longrightarrow> (lt a b \<longleftrightarrow> x < y) \<Longrightarrow> (lt b a \<longleftrightarrow> y < x) \<Longrightarrow>
    (le a b \<longleftrightarrow> x \<le> y) \<Longrightarrow> (le b a \<longleftrightarrow> y \<le> x) \<Longrightarrow> apply_relational_op eq lt le ro a b = apply_num ro x y"
  by (cases ro) auto

lemma apply_float_num:
  "\<not> f32_is_nan a \<Longrightarrow> \<not> f32_is_nan b \<Longrightarrow> apply_float ro a b = apply_num ro (f32_num a) (f32_num b)"
  by (rule apply_relational_op_num) (auto simp: f32_eq_def f32_lt_def f32_le_def)

lemma apply_sint_num: "apply_sint ro a b = apply_num ro (sint a * 2 ^ 149) (sint b * 2 ^ 149)"
  by (rule apply_relational_op_num) (auto intro: signed_word_eqI)

lemma apply_uint_num: "apply_uint ro a b = apply_num ro (uint a * 2 ^ 149) (uint b * 2 ^ 149)"
  by (rule apply_relational_op_num) (auto simp: word_less_def word_le_def intro: unsigned_word_eqI)

lemma sint_small: "b \<le> UINT_2_INT_MAX \<Longrightarrow> sint b = uint b" for b :: u64
proof -
  assume "b \<le> UINT_2_INT_MAX"
  then have "uint b < 2 ^ 63" by (simp add: word_le_def)
  moreover have "- (2 ^ 63) \<le> uint b" by (rule order.trans [OF _ uint_ge_0]) simp
  ultimately have "signed_take_bit 63 (uint b) = uint b" by (intro signed_take_bit_int_eq_self)
  then show ?thesis by (simp add: sint_uint)
qed

lemma sint_le_max: "sint (s :: u64) \<le> 0x7FFFFFFFFFFFFFFF"
  using sint_less [of s] by simp

lemma clamp_num:
  fixes s u :: u64
  assumes "s \<noteq> UINT_2_INT_MAX \<or> u \<le> UINT_2_INT_MAX"
  defines "c \<equiv> clamp_uint u"
  shows "s = c \<longleftrightarrow> sint s = uint u" "sint s < sint c \<longleftrightarrow> sint s < uint u" "sint c < sint s \<longleftrightarrow> uint u < sint s"
    "sint s \<le> sint c \<longleftrightarrow> sint s \<le> uint u" "sint c \<le> sint s \<longleftrightarrow> uint u \<le> sint s"
proof -
  have key: "(s = c \<longleftrightarrow> sint s = uint u) \<and> (sint s < sint c \<longleftrightarrow> sint s < uint u)
    \<and> (sint c < sint s \<longleftrightarrow> uint u < sint s)"
  proof (cases "u \<le> UINT_2_INT_MAX")
    case True
    have eqI: "sint s = sint u \<Longrightarrow> s = u" by (rule signed_word_eqI)
    show ?thesis using True sint_small [OF True] eqI by (auto simp: c_def clamp_uint_def)
  next
    case False
    with assms(1) have "s \<noteq> UINT_2_INT_MAX" by simp
    then have "sint s \<noteq> sint UINT_2_INT_MAX" by (metis signed_word_eqI)
    moreover have max: "sint UINT_2_INT_MAX = 0x7FFFFFFFFFFFFFFF" by (simp add: sint_small)
    ultimately have "sint s < 0x7FFFFFFFFFFFFFFF" using sint_le_max [of s] by simp
    moreover have "uint u > 0x7FFFFFFFFFFFFFFF" using False by (simp add: word_le_def)
    moreover have "c = UINT_2_INT_MAX" using False unfolding c_def clamp_uint_def not_le by simp
    ultimately show ?thesis using max by auto
  qed
  then show "s = c \<longleftrightarrow> sint s = uint u" "sint s < sint c \<longleftrightarrow> sint s < uint u" "sint c < sint s \<longleftrightarrow> uint u < sint s"
    "sint s \<le> sint c \<longleftrightarrow> sint s \<le> uint u" "sint c \<le> sint s \<longleftrightarrow> uint u \<le> sint s"
    by linarith+
qed

lemma apply_clamped:
  assumes "s \<noteq> UINT_2_INT_MAX \<or> u \<le> UINT_2_INT_MAX"
  shows "apply_sint ro s (clamp_uint u)
      = apply_num ro (sint s * 2 ^ 149) (uint u * 2 ^ 149)"
    "apply_sint ro (clamp_uint u) s
      = apply_num ro (uint u * 2 ^ 149) (sint s * 2 ^ 149)"
  using clamp_num [OF assms] by (intro apply_relational_op_num; auto)+

text \<open>
  C28: a relational trigger condition compares numbers. Whatever the two types are, the outcome is
  the comparison of the values that the operands stand for, as long as an integer compared with a
  float has at most 24 bits and the largest signed integer does not meet an unsigned one above it.
\<close>

theorem comparison_of_numbers:
  assumes "comparable a" "comparable b" "meet a b"
  shows "relational_compare ro a b = apply_num ro (val_num a) (val_num b)"
proof -
  have conv: "f32_num (f32_of_int n) = n * 2 ^ 149" "\<not> f32_is_nan (f32_of_int n)" if "\<bar>n\<bar> \<le> 2 ^ 24" for n
    using f32_of_int_exact [OF that] by simp_all
  note unfolds = comparable_def meet_def small_int_def relational_compare_def val_num_def Let_def
  consider "vt_valtype a = Compare_sint" "vt_valtype b = Compare_uint"
    | "vt_valtype a = Compare_uint" "vt_valtype b = Compare_sint"
    | "\<not> (vt_valtype a = Compare_sint \<and> vt_valtype b = Compare_uint)"
      "\<not> (vt_valtype a = Compare_uint \<and> vt_valtype b = Compare_sint)" by blast
  then show ?thesis
  proof cases
    case 1
    with assms show ?thesis using apply_clamped(1) [of "vt_val a" "vt_val b"] by (simp add: unfolds)
  next
    case 2
    with assms show ?thesis using apply_clamped(2) [of "vt_val b" "vt_val a"] by (simp add: unfolds)
  next
    case 3
    with assms show ?thesis
      by (auto simp: unfolds apply_float_num conv apply_sint_num apply_uint_num)
  qed
qed

text \<open>A signed -5 against the literal 2.5.\<close>

lemma comparison_of_numbers_witness:
  "relational_compare RO_LessThan \<lparr>vt_val = - 5, vt_valtype = Compare_sint\<rparr>
     \<lparr>vt_val = 0x40200000, vt_valtype = Compare_float\<rparr>"
  using comparison_of_numbers [of "\<lparr>vt_val = - 5, vt_valtype = Compare_sint\<rparr>"
      "\<lparr>vt_val = 0x40200000, vt_valtype = Compare_float\<rparr>" RO_LessThan]
  by (simp add: comparable_def meet_def small_int_def val_num_def val_float_def f32_is_nan_def f32_exp_def
      f32_frac_def f32_num_def f32_mag_def f32_neg_def)

lemma largest_signed_equals_larger_unsigned:
  "relational_compare RO_Equal \<lparr>vt_val = UINT_2_INT_MAX, vt_valtype = Compare_sint\<rparr>
     \<lparr>vt_val = 0xFFFFFFFFFFFFFFFF, vt_valtype = Compare_uint\<rparr>"
  by (simp add: relational_compare_def clamp_uint_def)

section \<open>ChangeMoreThan\<close>

lemma f32_to_int64_negative:
  assumes "0 < n" "n \<le> 2 ^ 24"
  shows "f32_to_int64 (f32_of_int (- int n)) = - of_nat n" "\<not> f32_le 0 (f32_of_int (- int n))"
proof -
  have "\<bar>- int n\<bar> \<le> 2 ^ 24" using assms(2) by simp
  from f32_of_int_exact [OF this] have num: "f32_num (f32_of_int (- int n)) = - (int n * 2 ^ 149)"
    and nan: "\<not> f32_is_nan (f32_of_int (- int n))" by simp_all
  have pos: "0 < int n * 2 ^ 149" using assms(1) by simp
  have neg: "f32_neg (f32_of_int (- int n))"
  proof (rule ccontr)
    assume "\<not> f32_neg (f32_of_int (- int n))"
    then have "0 \<le> f32_num (f32_of_int (- int n))" by (simp add: f32_num_def)
    with num pos show False by simp
  qed
  have "int (f32_mag (f32_of_int (- int n))) = int n * 2 ^ 149"
    using num neg by (simp add: f32_num_def)
  then have "int (f32_mag (f32_of_int (- int n))) = int (n * 2 ^ 149)" by simp
  then have mag: "f32_mag (f32_of_int (- int n)) = n * 2 ^ 149" by (simp only: of_nat_eq_iff)
  show "f32_to_int64 (f32_of_int (- int n)) = - of_nat n"
    unfolding f32_to_int64_def mag using nan neg assms(2) by (simp add: Let_def)
  have "f32_num 0 = 0" by (simp add: f32_num_def f32_mag_def f32_exp_def f32_frac_def)
  then show "\<not> f32_le 0 (f32_of_int (- int n))"
    unfolding f32_le_def num using pos by simp
qed

lemma ucast_ucast_u32: "ucast (ucast x :: u64) = x" for x :: u32
  by (rule bit_word_eqI) (auto simp: bit_simps)

text \<open>
  The condition "changed by more than" is wrong on unsigned operands and decreases: where the
  previous value is less than the decrease asked for, the subtraction wraps around and the trigger
  fires although the value did not move at all.
\<close>

theorem unchanged_value_triggers:
  assumes "cd_initialized d" "cd_previous_val d = v" "ops ! 0 = \<lparr>vt_val = v, vt_valtype = Compare_uint\<rparr>"
    and "ops ! 1 = \<lparr>vt_val = ucast (f32_of_int (- int n)), vt_valtype = Compare_float\<rparr>"
    and "0 < n" "n \<le> 2 ^ 24" "unat v < n"
  shows "fst (change_more_than_evaluate d ops)"
proof -
  note delta = f32_to_int64_negative [OF assms(5,6)]
  have "v < v + - of_nat n"
  proof (rule ccontr)
    assume "\<not> v < v + - of_nat n"
    then have "v + - of_nat n \<le> v" by simp
    from unat_sub_no_wrap [OF this] have "unat (v - (v + - of_nat n)) \<le> unat v" by linarith
    moreover have "v - (v + - of_nat n) = of_nat n" by (simp only: minus_add_distrib diff_conv_add_uminus) simp
    moreover have "unat (of_nat n :: u64) = n"
      using assms(6) by (simp add: unat_of_nat take_bit_nat_eq_self)
    ultimately show False using assms(7) by simp
  qed
  then show ?thesis
    using delta assms ucast_ucast_u32 by (simp add: change_more_than_evaluate_def compare_as_float_def val_float_def Let_def)
qed

lemma unchanged_value_triggers_witness:
  "fst (change_more_than_evaluate \<lparr>cd_previous_val = 3, cd_initialized = True\<rparr>
     [\<lparr>vt_val = 3, vt_valtype = Compare_uint\<rparr>, \<lparr>vt_val = 0xC1200000, vt_valtype = Compare_float\<rparr>])"
proof -
  have "ucast (f32_of_int (- int 10)) = (0xC1200000 :: u64)"
    by (simp add: f32_of_int_def f32_round_def f32_round_div_def bit_length.simps)
  then show ?thesis
    using unchanged_value_triggers [of "\<lparr>cd_previous_val = 3, cd_initialized = True\<rparr>" 3
        "[\<lparr>vt_val = 3, vt_valtype = Compare_uint\<rparr>, \<lparr>vt_val = 0xC1200000, vt_valtype = Compare_float\<rparr>]" 10]
    by simp
qed

end
