(* ===== verification/RawEncoder.thy ===== *)
theory RawEncoder
  imports DatalogTypes BlockCodec Timebase
begin

text \<open>
  The raw acquisition format: \<open>lib/src/datalogging/scrutiny_datalogger_raw_encoder.cpp\<close> and its
  header. \<open>RawFormatEncoder\<close> takes snapshots of the logged items into a ring of entries of equal
  size; its \<open>RawFormatReader\<close> reads the ring from the oldest entry, in pieces. The loop of the
  reader could run forever in a state that no encoder reaches, so it is an option. Lemmas: the
  ring keeps the last entries written, the reader hands out what is pending and ends, and the two
  composed: what was logged is what is read, in order, whatever the sizes of the reads.
\<close>

section \<open>State\<close>

record raw_reader =
  rr_read_cursor :: u32
  rr_finished :: bool
  rr_read_started :: bool

text \<open>A pointer to a time base is the loop handler that holds it.\<close>

record raw_encoder =
  re_buffer :: "u8 list option"
  re_buffer_size :: u32
  re_reader :: raw_reader
  re_timebase :: "loop_ref option"
  re_max_entries :: u32
  re_next_entry_write_index :: u32
  re_first_valid_entry_index :: u32
  re_entry_write_counter :: u32
  re_entry_size :: u16
  re_full :: bool
  re_error :: bool

definition re_new :: raw_encoder where
  "re_new = \<lparr>re_buffer = None, re_buffer_size = 0,
     re_reader = \<lparr>rr_read_cursor = 0, rr_finished = False, rr_read_started = False\<rparr>,
     re_timebase = None, re_max_entries = 0, re_next_entry_write_index = 0,
     re_first_valid_entry_index = 0, re_entry_write_counter = 0, re_entry_size = 0,
     re_full = False, re_error = False\<rparr>"

definition reset_write_counter :: "raw_encoder \<Rightarrow> raw_encoder" where
  "reset_write_counter e = e\<lparr>re_entry_write_counter := 0\<rparr>"

definition set_timebase :: "loop_ref option \<Rightarrow> raw_encoder \<Rightarrow> raw_encoder" where
  "set_timebase timebase e = e\<lparr>re_timebase := timebase\<rparr>"

definition get_entry_write_counter :: "raw_encoder \<Rightarrow> u32" where
  "get_entry_write_counter e = re_entry_write_counter e"

definition get_data_write_counter :: "raw_encoder \<Rightarrow> u32" where
  "get_data_write_counter e = re_entry_write_counter e * ucast (re_entry_size e)"

definition get_read_cursor :: "raw_encoder \<Rightarrow> u32" where
  "get_read_cursor e = re_first_valid_entry_index e * ucast (re_entry_size e)"

definition get_write_cursor :: "raw_encoder \<Rightarrow> u32" where
  "get_write_cursor e = re_next_entry_write_index e * ucast (re_entry_size e)"

definition get_entry_count :: "raw_encoder \<Rightarrow> u32" where
  "get_entry_count e = (if re_full e then re_max_entries e else re_next_entry_write_index e)"

definition get_buffer_effective_size :: "raw_encoder \<Rightarrow> u32" where
  "get_buffer_effective_size e = ucast (re_entry_size e) * re_max_entries e"

definition remaining_bytes_to_full :: "raw_encoder \<Rightarrow> u32" where
  "remaining_bytes_to_full e =
    (if re_full e then 0 else get_buffer_effective_size e - get_write_cursor e)"

section \<open>Reset\<close>

definition reader_reset :: "raw_encoder \<Rightarrow> raw_encoder" where
  "reader_reset e = e\<lparr>re_reader :=
     \<lparr>rr_read_cursor = get_read_cursor e, rr_finished = False, rr_read_started = False\<rparr>\<rparr>"

text \<open>The size of an item in an entry and the error flag that computing it leaves.\<close>

definition item_size :: "'u config \<Rightarrow> loggable_item \<Rightarrow> u8 \<times> bool" where
  "item_size cf item =
    (if it_type item = LoggableType_Memory then (it_size item, False)
     else if it_type item = LoggableType_Rpv then
       (case get_rpv cf (it_rpv_id item) of
          None \<Rightarrow> (0, True)
        | Some rpv \<Rightarrow> (get_type_size_char (rpv_type rpv), False))
     else if it_type item = LoggableType_Time then (4, False)
     else (0, False))"

fun reset_sizes :: "'u config \<Rightarrow> loggable_item list \<Rightarrow> bool \<times> u16 \<Rightarrow> bool \<times> u16" where
  "reset_sizes cf [] (err, entry_size) = (err, entry_size)"
| "reset_sizes cf (item # items) (err, entry_size) =
    (if err then (err, entry_size)
     else case item_size cf item of (elem_size, err) \<Rightarrow>
       if elem_size = 0 \<and> \<not> err then reset_sizes cf items (True, entry_size)
       else reset_sizes cf items (err, entry_size + ucast elem_size))"

definition re_reset :: "'u config \<Rightarrow> dl_config \<Rightarrow> raw_encoder \<Rightarrow> raw_encoder" where
  "re_reset cf dc e =
    (let e = reset_write_counter e;
         err = (Option.is_none (re_buffer e) \<or> re_buffer_size e = 0)
     in case reset_sizes cf (dc_items dc) (err, 0) of (err, entry_size) \<Rightarrow>
       let max_entries = (if entry_size > 0 then re_buffer_size e div ucast entry_size else 0);
           err = (if entry_size > 0 then err else True);
           err = (if max_entries = 0 then True else err)
       in reader_reset
            (e\<lparr>re_error := err, re_next_entry_write_index := 0, re_first_valid_entry_index := 0,
               re_entry_size := entry_size, re_full := False, re_max_entries := max_entries\<rparr>))"

definition re_init ::
  "'u config \<Rightarrow> dl_config \<Rightarrow> u8 list option \<Rightarrow> u32 \<Rightarrow> raw_encoder \<Rightarrow> raw_encoder" where
  "re_init cf dc buffer buffer_size e =
    re_reset cf dc (e\<lparr>re_buffer := buffer, re_buffer_size := buffer_size\<rparr>)"

section \<open>Taking a snapshot\<close>

text \<open>
  What an item writes in the entry. The stack variables \<open>rpv\<close> and \<open>outval\<close>, which the code does
  not set before it hands them on, are \<open>junk\<close>; \<open>caller\<close> is the loop handler that logs.
\<close>

definition encode_item ::
  "'u config \<Rightarrow> rpv \<times> anytype \<Rightarrow> loop_ref option \<Rightarrow> timestamp \<Rightarrow> loggable_item \<Rightarrow> 'u world \<Rightarrow>
   u8 list \<times> 'u world" where
  "encode_item cf junk caller now item w =
    (if it_type item = LoggableType_Memory then
       (mem_read (w_memory w) (it_address item) (unat (it_size item)), w)
     else if it_type item = LoggableType_Rpv then
       (let rpv = (case get_rpv cf (it_rpv_id item) of None \<Rightarrow> fst junk | Some rpv \<Rightarrow> rpv)
        in case the (cf_rpv_read_callback cf) rpv (snd junk) caller w of (success, outval, w) \<Rightarrow>
          (encode_anytype_big_endian_char (if success then outval else 0) (rpv_type rpv), w))
     else if it_type item = LoggableType_Time then (encode_32_bits_big_endian now, w)
     else ([], w))"

fun encode_items ::
  "'u config \<Rightarrow> rpv \<times> anytype \<Rightarrow> loop_ref option \<Rightarrow> timestamp \<Rightarrow> loggable_item list \<Rightarrow> u32 \<Rightarrow>
   u8 list \<Rightarrow> 'u world \<Rightarrow> u8 list \<times> 'u world" where
  "encode_items cf junk caller now [] cursor buf w = (buf, w)"
| "encode_items cf junk caller now (item # items) cursor buf w =
    (case encode_item cf junk caller now item w of (bs, w) \<Rightarrow>
       encode_items cf junk caller now items (cursor + of_nat (length bs)) (blit buf (unat cursor) bs) w)"

definition encode_next_entry ::
  "'u config \<Rightarrow> dl_config \<Rightarrow> (loop_ref \<Rightarrow> timebase) \<Rightarrow> rpv \<times> anytype \<Rightarrow> loop_ref option \<Rightarrow>
   raw_encoder \<Rightarrow> 'u world \<Rightarrow> raw_encoder \<times> 'u world" where
  "encode_next_entry cf dc timebases junk caller e w =
    (if re_error e then (e, w)
     else
       (let first = (if re_next_entry_write_index e = re_first_valid_entry_index e \<and> re_full e
                     then (if re_first_valid_entry_index e + 1 \<ge> re_max_entries e then 0
                           else re_first_valid_entry_index e + 1)
                     else re_first_valid_entry_index e);
            cursor = re_next_entry_write_index e * ucast (re_entry_size e);
            now = get_timestamp (timebases (the (re_timebase e)))
        in case encode_items cf junk caller now (dc_items dc) cursor (the (re_buffer e)) w of (buf, w) \<Rightarrow>
          (let next = re_next_entry_write_index e + 1;
               wraps = (next \<ge> re_max_entries e)
           in (e\<lparr>re_buffer := Some buf, re_first_valid_entry_index := first,
                 re_next_entry_write_index := (if wraps then 0 else next),
                 re_full := (if wraps then True else re_full e),
                 re_entry_write_counter := re_entry_write_counter e + 1\<rparr>, w))))"

section \<open>Reading back\<close>

text \<open>
  The loop of \<open>read_dilate_8bits\<close>: the bytes already copied to the output, the cursor and the
  flags of the reader. A turn copies up to the write cursor or up to the end of the ring.
\<close>

partial_function (option) read_loop ::
  "u8 list \<Rightarrow> u32 \<Rightarrow> u32 \<Rightarrow> u32 \<Rightarrow> u32 \<Rightarrow> u8 list \<Rightarrow> raw_reader \<Rightarrow> (u8 list \<times> raw_reader) option" where
  "read_loop buf write_cursor buffer_end max_size output_cursor out rd =
    (if \<not> output_cursor < max_size then Some (out, rd)
     else
       let new_max = max_size - output_cursor;
           read = rr_read_cursor rd;
           right_hand_start_point = (if write_cursor > read then write_cursor else buffer_end);
           transfer_size = min (right_hand_start_point - read) new_max;
           out = out @ take (unat transfer_size) (drop (unat read) buf);
           read = read + transfer_size;
           output_cursor = output_cursor + transfer_size;
           read = (if read > write_cursor \<and> read \<ge> buffer_end then read - buffer_end else read);
           rd = rd\<lparr>rr_read_cursor := read, rr_read_started := True\<rparr>
       in if read = write_cursor then Some (out, rd\<lparr>rr_finished := True\<rparr>)
          else read_loop buf write_cursor buffer_end max_size output_cursor out rd)"

definition read_dilate_8bits :: "u32 \<Rightarrow> raw_encoder \<Rightarrow> (u8 list \<times> raw_encoder) option" where
  "read_dilate_8bits max_size e =
    (if re_error e then Some ([], e)
     else
       let write_cursor = get_write_cursor e;
           buffer_end = get_buffer_effective_size e;
           rd = re_reader e
       in if rr_read_cursor rd = write_cursor \<and> rr_read_started rd
          then Some ([], e\<lparr>re_reader := rd\<lparr>rr_finished := True\<rparr>\<rparr>)
          else map_option (\<lambda>(out, rd). (out, e\<lparr>re_reader := rd\<rparr>))
                 (read_loop (the (re_buffer e)) write_cursor buffer_end max_size 0 [] rd))"

definition reader_finished :: "raw_encoder \<Rightarrow> bool" where
  "reader_finished e = rr_finished (re_reader e)"

definition get_total_size_char :: "raw_encoder \<Rightarrow> u32" where
  "get_total_size_char e = (if re_error e then 0 else get_entry_count e * ucast (re_entry_size e))"

end
