(* ===== verification/DataLogger.thy ===== *)
theory DataLogger
  imports Trigger RawEncoder
begin

text \<open>
  The datalogger: \<open>lib/src/datalogging/scrutiny_datalogger.cpp\<close> and its header. One record per
  object, one definition per method. What a call finds around it is an argument: the
  configuration of the main handler, the time bases of the loop handlers, the world (memory and
  user state) and the uninitialised stack variables (\<open>junk\<close>). Its states go from idle to
  configured, armed, triggered and completed.
\<close>

section \<open>State\<close>

datatype dl_state = DL_Idle | DL_Configured | DL_Armed | DL_Triggered | DL_AcquisitionCompleted | DL_Error

record 'u datalogger =
  dl_config :: dl_config
  dl_encoder :: raw_encoder
  dl_buffer_size :: u32
  dl_trigger_callback :: "'u trigger_callback option"
  dl_owner :: "loop_ref option"
  dl_timebase :: "loop_ref option"
  dl_trigger_timestamp :: timestamp
  dl_trigger_cursor_location :: u32
  dl_remaining_data_to_write :: u32
  dl_log_points_after_trigger :: u32
  dl_decimation_counter :: u16
  dl_acquisition_id :: u16
  dl_config_id :: u16
  dl_manual_trigger :: bool
  dl_config_valid :: bool
  dl_state :: dl_state
  dl_active_condition :: active_condition
  dl_condition_data :: condition_data
  dl_rising_edge_timestamp :: timestamp
  dl_previous_val :: bool
  dl_ops_data :: "val_type list"

definition get_bytes_to_acquire_from_trigger_to_completion :: "'u datalogger \<Rightarrow> u32" where
  "get_bytes_to_acquire_from_trigger_to_completion dl =
    (if dl_state dl = DL_Triggered then dl_remaining_data_to_write dl else 0)"

definition data_counter_since_trigger :: "'u datalogger \<Rightarrow> u32" where
  "data_counter_since_trigger dl =
    (if dl_state dl = DL_Triggered then get_data_write_counter (dl_encoder dl) else 0)"

definition set_owner :: "loop_ref option \<Rightarrow> 'u datalogger \<Rightarrow> 'u datalogger" where
  "set_owner owner dl = dl\<lparr>dl_owner := owner\<rparr>"

definition force_trigger :: "'u datalogger \<Rightarrow> 'u datalogger" where
  "force_trigger dl = (if dl_state dl = DL_Armed then dl\<lparr>dl_manual_trigger := True\<rparr> else dl)"

section \<open>Reset, initialisation and configuration\<close>

definition dl_reset :: "'u datalogger \<Rightarrow> 'u datalogger" where
  "dl_reset dl = dl\<lparr>dl_state := DL_Idle, dl_previous_val := False, dl_rising_edge_timestamp := 0,
     dl_active_condition := \<lparr>ac_eval_fn = always_true_evaluate, ac_reset_fn = None, ac_operand_count = 0\<rparr>,
     dl_trigger_cursor_location := 0, dl_trigger_timestamp := 0, dl_remaining_data_to_write := 0,
     dl_config_valid := False, dl_manual_trigger := False, dl_decimation_counter := 0,
     dl_log_points_after_trigger := 0\<rparr>"

definition dl_init ::
  "'u config \<Rightarrow> u8 list option \<Rightarrow> u32 \<Rightarrow> 'u trigger_callback option \<Rightarrow> 'u datalogger \<Rightarrow> 'u datalogger" where
  "dl_init cf buffer buffer_size trigger_callback dl =
    dl_reset (dl\<lparr>dl_timebase := None, dl_buffer_size := buffer_size, dl_trigger_callback := trigger_callback,
      dl_owner := None, dl_encoder := re_init cf (dl_config dl) buffer buffer_size (dl_encoder dl),
      dl_acquisition_id := 0\<rparr>)"

text \<open>
  The limits of a bit field are written with \<open>sizeof(scrutiny::BiggestUint)\<close>, where \<open>BiggestUint\<close>
  is not a type but an enumerator, of one byte.
\<close>

definition sizeof_BiggestUint :: nat where
  "sizeof_BiggestUint = 1"

definition operand_valid :: "'u config \<Rightarrow> operand \<Rightarrow> bool" where
  "operand_valid cf opd =
    (if op_type opd = OperandType_Literal then is_float_finite (op_literal_val opd)
     else if op_type opd = OperandType_Rpv then
       is_read_published_values_configured cf \<and> \<not> Option.is_none (get_rpv cf (op_rpv_id opd))
     else if op_type opd = OperandType_Var then is_supported_type (op_datatype opd)
     else if op_type opd = OperandType_VarBit then
       \<not> (unat (op_bitoffset opd) > sizeof_BiggestUint * 8 - 1 \<or> unat (op_bitsize opd) > sizeof_BiggestUint * 8)
       \<and> is_supported_type (op_datatype opd)
       \<and> \<not> unat (op_bitoffset opd) + unat (op_bitsize opd) > unat (get_type_size_char (op_datatype opd)) * 8
     else False)"

definition item_valid :: "'u config \<Rightarrow> loggable_item \<Rightarrow> bool" where
  "item_valid cf item =
    (if it_type item = LoggableType_Rpv then
       is_read_published_values_configured cf \<and> \<not> Option.is_none (get_rpv cf (it_rpv_id item))
     else if it_type item = LoggableType_Memory then True
     else it_type item = LoggableType_Time)"

definition configure_checks :: "'u config \<Rightarrow> active_condition \<Rightarrow> dl_config \<Rightarrow> bool" where
  "configure_checks cf active dc =
    (let tc = dc_trigger dc;
         sizes_valid = (\<not> (unat (dc_items_count dc) > DATALOGGING_MAX_SIGNAL \<or> dc_items_count dc = 0)
            \<and> \<not> unat (tc_operand_count tc) > MAX_OPERANDS
            \<and> unat (tc_condition tc) < length condition_config_lut
            \<and> tc_operand_count tc = ac_operand_count active
            \<and> dc_decimation dc \<noteq> 0)
     in sizes_valid \<and> list_all (operand_valid cf) (dc_operands dc) \<and> list_all (item_valid cf) (dc_items dc))"

definition dl_configure :: "'u config \<Rightarrow> loop_ref option \<Rightarrow> u16 \<Rightarrow> 'u datalogger \<Rightarrow> 'u datalogger" where
  "dl_configure cf timebase config_id dl =
    (let dl = (dl_reset dl)\<lparr>dl_timebase := timebase, dl_config_id := config_id\<rparr>;
         condition_lut_index = unat (tc_condition (dc_trigger (dl_config dl)));
         active = (if condition_lut_index < length condition_config_lut
                   then condition_config_lut ! condition_lut_index else dl_active_condition dl);
         valid = configure_checks cf active (dl_config dl);
         dl = dl\<lparr>dl_active_condition := active, dl_config_valid := valid\<rparr>
     in if valid then
          dl\<lparr>dl_condition_data := (case ac_reset_fn active of None \<Rightarrow> dl_condition_data dl
                | Some f \<Rightarrow> f (dl_condition_data dl)),
             dl_encoder := re_reset cf (dl_config dl) (set_timebase timebase (dl_encoder dl)),
             dl_state := DL_Configured\<rparr>
        else dl\<lparr>dl_state := DL_Error\<rparr>)"

section \<open>Arming\<close>

definition arm_trigger :: "'u datalogger \<Rightarrow> 'u datalogger" where
  "arm_trigger dl =
    (if dl_state dl = DL_Configured \<or> dl_state dl = DL_AcquisitionCompleted \<or> dl_state dl = DL_Triggered
     then dl\<lparr>dl_state := DL_Armed\<rparr> else dl)"

definition disarm_trigger :: "'u datalogger \<Rightarrow> 'u datalogger" where
  "disarm_trigger dl =
    (if dl_state dl = DL_Armed \<or> dl_state dl = DL_AcquisitionCompleted \<or> dl_state dl = DL_Triggered
     then dl\<lparr>dl_state := DL_Configured\<rparr> else dl)"

section \<open>Periodic process\<close>

type_synonym junk = "rpv \<times> anytype"

definition process_acquisition ::
  "'u config \<Rightarrow> (loop_ref \<Rightarrow> timebase) \<Rightarrow> junk \<Rightarrow> 'u datalogger \<Rightarrow> 'u world \<Rightarrow> 'u datalogger \<times> 'u world" where
  "process_acquisition cf timebases junk dl w =
    (let dl = dl\<lparr>dl_decimation_counter := dl_decimation_counter dl + 1\<rparr>
     in if dl_decimation_counter dl \<ge> dc_decimation (dl_config dl) then
          (case encode_next_entry cf (dl_config dl) timebases junk (dl_owner dl) (dl_encoder dl) w of
             (e, w) \<Rightarrow> (dl\<lparr>dl_encoder := e, dl_decimation_counter := 0\<rparr>, w))
        else (dl, w))"

text \<open>The operands, fetched in order into the array of the datalogger, until one fails.\<close>

fun fetch_operands ::
  "'u config \<Rightarrow> rpv \<Rightarrow> loop_ref option \<Rightarrow> operand list \<Rightarrow> nat \<Rightarrow> val_type list \<Rightarrow> 'u world \<Rightarrow>
   bool \<times> val_type list \<times> 'u world" where
  "fetch_operands cf junk caller [] i ops w = (True, ops, w)"
| "fetch_operands cf junk caller (opd # opds) i ops w =
    (case fetch_operand cf junk caller opd (ops ! i) w of (success, p, w) \<Rightarrow>
       if \<not> success then (False, ops[i := p], w)
       else fetch_operands cf junk caller opds (i + 1) (ops[i := convert_to_compare_type p]) w)"

definition check_trigger ::
  "'u config \<Rightarrow> (loop_ref \<Rightarrow> timebase) \<Rightarrow> junk \<Rightarrow> 'u datalogger \<Rightarrow> 'u world \<Rightarrow> bool \<times> 'u datalogger \<times> 'u world" where
  "check_trigger cf timebases junk dl w =
    (if dl_state dl \<noteq> DL_Armed then (False, dl, w)
     else
       let nb_operand = unat (ac_operand_count (dl_active_condition dl))
       in if nb_operand > MAX_OPERANDS then (False, dl, w)
          else if dl_manual_trigger dl then (True, dl\<lparr>dl_manual_trigger := False, dl_previous_val := True\<rparr>, w)
          else
            (case fetch_operands cf (fst junk) (dl_owner dl)
                    (take nb_operand (tc_operands (dc_trigger (dl_config dl)))) 0 (dl_ops_data dl) w of
               (success, ops, w) \<Rightarrow>
                 (let dl = dl\<lparr>dl_ops_data := ops\<rparr>
                  in if \<not> success then (False, dl, w)
                     else
                       (case ac_eval_fn (dl_active_condition dl) (dl_condition_data dl) ops of
                          (condition_result, cd) \<Rightarrow>
                            (let dl = dl\<lparr>dl_condition_data := cd\<rparr>;
                                 tb = timebases (the (dl_timebase dl));
                                 dl = (if condition_result \<and> \<not> dl_previous_val dl
                                       then dl\<lparr>dl_rising_edge_timestamp := get_timestamp tb\<rparr> else dl);
                                 outval = (condition_result
                                    \<and> has_expired tb (dl_rising_edge_timestamp dl)
                                        (tc_hold_time_100ns (dc_trigger (dl_config dl))))
                             in (outval, dl\<lparr>dl_previous_val := condition_result\<rparr>, w))))))"

definition stamp_trigger_point :: "(loop_ref \<Rightarrow> timebase) \<Rightarrow> 'u datalogger \<Rightarrow> 'u datalogger" where
  "stamp_trigger_point timebases dl =
    (let dl = dl\<lparr>dl_trigger_cursor_location := get_write_cursor (dl_encoder dl),
           dl_trigger_timestamp := get_timestamp (timebases (the (dl_timebase dl))),
           dl_encoder := reset_write_counter (dl_encoder dl)\<rparr>;
         multiplier = (255 - ucast (dc_probe_location (dl_config dl)) :: u64);
         remaining = (ucast (drop_bit 8 (ucast (dl_buffer_size dl) * multiplier)) :: u32);
         remaining = (if \<not> re_full (dl_encoder dl)
                      then max remaining (remaining_bytes_to_full (dl_encoder dl)) else remaining);
         remaining = (if remaining > dl_buffer_size dl then dl_buffer_size dl else remaining)
     in dl\<lparr>dl_remaining_data_to_write := remaining\<rparr>)"

definition acquisition_completed :: "(loop_ref \<Rightarrow> timebase) \<Rightarrow> 'u datalogger \<Rightarrow> bool" where
  "acquisition_completed timebases dl =
    (if dl_state dl = DL_AcquisitionCompleted then True
     else if dl_state dl = DL_Triggered then
       (if dc_timeout_100ns (dl_config dl) > 0
           \<and> has_expired (timebases (the (dl_timebase dl))) (dl_trigger_timestamp dl)
               (dc_timeout_100ns (dl_config dl))
        then True
        else get_data_write_counter (dl_encoder dl) \<ge> dl_remaining_data_to_write dl)
     else False)"

definition process_trigger ::
  "'u config \<Rightarrow> (loop_ref \<Rightarrow> timebase) \<Rightarrow> junk \<Rightarrow> 'u datalogger \<Rightarrow> 'u world \<Rightarrow> 'u datalogger \<times> 'u world" where
  "process_trigger cf timebases junk dl w =
    (if dl_state dl = DL_Armed then
       (case check_trigger cf timebases junk dl w of (triggered, dl, w) \<Rightarrow>
          if triggered then
            ((stamp_trigger_point timebases dl)\<lparr>dl_state := DL_Triggered\<rparr>,
             (case dl_trigger_callback dl of None \<Rightarrow> w | Some callback \<Rightarrow> callback w))
          else (dl, w))
     else (dl, w))"

definition process_completion :: "(loop_ref \<Rightarrow> timebase) \<Rightarrow> 'u datalogger \<Rightarrow> 'u datalogger" where
  "process_completion timebases dl =
    (if dl_state dl = DL_Triggered \<and> acquisition_completed timebases dl then
       dl\<lparr>dl_acquisition_id := dl_acquisition_id dl + 1, dl_state := DL_AcquisitionCompleted,
          dl_log_points_after_trigger := get_entry_write_counter (dl_encoder dl)\<rparr>
     else dl)"

definition dl_process ::
  "'u config \<Rightarrow> (loop_ref \<Rightarrow> timebase) \<Rightarrow> junk \<Rightarrow> 'u datalogger \<Rightarrow> 'u world \<Rightarrow> 'u datalogger \<times> 'u world" where
  "dl_process cf timebases junk dl w =
    (if dl_state dl = DL_Configured \<or> dl_state dl = DL_Armed \<or> dl_state dl = DL_Triggered then
       (if re_error (dl_encoder dl) then (dl\<lparr>dl_state := DL_Error\<rparr>, w)
        else
          (case process_acquisition cf timebases junk dl w of (dl, w) \<Rightarrow>
           case process_trigger cf timebases junk dl w of (dl, w) \<Rightarrow>
             (process_completion timebases dl, w)))
     else (dl, w))"

end
