(* ===== verification/LoopHandler.thy ===== *)
theory LoopHandler
  imports Ipc DataLogger
begin

text \<open>
  The loop handlers: \<open>lib/src/scrutiny_loop_handler.cpp\<close> and its header. A loop handler is called
  periodically by the task that it instruments; it runs the datalogger when it owns it, and it
  exchanges messages with the main handler through two mailboxes. The handlers are a store from
  references to records, so that the operations of one find its time base among those of the others.
\<close>

section \<open>Messages and state\<close>

datatype main2loop_message =
  RELEASE_DATALOGGER_OWNERSHIP | TAKE_DATALOGGER_OWNERSHIP | DATALOGGER_ARM_TRIGGER | DATALOGGER_DISARM_TRIGGER

text \<open>The data of a status update: the state, and the two byte counts. No other message has data.\<close>

datatype loop2main_message =
    DATALOGGER_OWNERSHIP_TAKEN | DATALOGGER_OWNERSHIP_RELEASED | DATALOGGER_DATA_ACQUIRED
  | DATALOGGER_STATUS_UPDATE dl_state u32 u32

record loop = loop_info +
  lp_timebase :: timebase
  lp_main2loop_msg :: "main2loop_message ipc"
  lp_loop2main_msg :: "loop2main_message ipc"
  lp_datalogger_data_acquired :: bool

type_synonym loops = "loop_ref \<Rightarrow> loop"

definition timebases :: "loops \<Rightarrow> loop_ref \<Rightarrow> timebase" where
  "timebases loops l = lp_timebase (loops l)"

definition loop_init :: "loop \<Rightarrow> loop" where
  "loop_init l = l\<lparr>lp_main2loop_msg := ipc_clear (lp_main2loop_msg l),
     lp_loop2main_msg := ipc_clear (lp_loop2main_msg l), lp_datalogger_data_acquired := False\<rparr>"

definition owns_datalogger :: "loop_ref \<Rightarrow> 'u datalogger \<Rightarrow> bool" where
  "owns_datalogger me dl = (dl_owner dl = Some me)"

definition data_acquired :: "'u datalogger \<Rightarrow> bool" where
  "data_acquired dl = (dl_state dl = DL_AcquisitionCompleted)"

section \<open>process\<close>

definition loop_send :: "loop2main_message \<Rightarrow> loop \<Rightarrow> loop" where
  "loop_send msg_out l = l\<lparr>lp_loop2main_msg := ipc_send msg_out (lp_loop2main_msg l)\<rparr>"

text \<open>The message from the main handler, read only when the answer to it has room.\<close>

definition loop_handle_message :: "loop_ref \<Rightarrow> loop \<Rightarrow> 'u datalogger \<Rightarrow> loop \<times> 'u datalogger" where
  "loop_handle_message me l dl =
    (if ipc_has_content (lp_main2loop_msg l) \<and> \<not> ipc_has_content (lp_loop2main_msg l) then
       (case ipc_pop (lp_main2loop_msg l) of (msg_in, box) \<Rightarrow>
         (let l = l\<lparr>lp_main2loop_msg := box\<rparr>
          in case msg_in of
               TAKE_DATALOGGER_OWNERSHIP \<Rightarrow>
                 (loop_send DATALOGGER_OWNERSHIP_TAKEN (l\<lparr>lp_datalogger_data_acquired := False\<rparr>),
                  set_owner (Some me) dl)
             | DATALOGGER_ARM_TRIGGER \<Rightarrow> (l, if owns_datalogger me dl then arm_trigger dl else dl)
             | DATALOGGER_DISARM_TRIGGER \<Rightarrow> (l, if owns_datalogger me dl then disarm_trigger dl else dl)
             | RELEASE_DATALOGGER_OWNERSHIP \<Rightarrow>
                 (if owns_datalogger me dl
                  then (loop_send DATALOGGER_OWNERSHIP_RELEASED l, set_owner None dl) else (l, dl))))
     else (l, dl))"

definition loop_report :: "loop \<Rightarrow> 'u datalogger \<Rightarrow> loop" where
  "loop_report l dl =
    (if \<not> ipc_has_content (lp_loop2main_msg l) then
       (if data_acquired dl \<and> \<not> lp_datalogger_data_acquired l
        then (loop_send DATALOGGER_DATA_ACQUIRED l)\<lparr>lp_datalogger_data_acquired := True\<rparr>
        else loop_send
               (if dl_state dl = DL_Triggered
                then DATALOGGER_STATUS_UPDATE (dl_state dl)
                       (get_bytes_to_acquire_from_trigger_to_completion dl) (data_counter_since_trigger dl)
                else DATALOGGER_STATUS_UPDATE (dl_state dl) 0 0) l)
     else l)"

definition process_common ::
  "'u config \<Rightarrow> junk \<Rightarrow> loop_ref \<Rightarrow> timediff \<Rightarrow> loops \<Rightarrow> 'u datalogger \<Rightarrow> 'u world \<Rightarrow>
   loops \<times> 'u datalogger \<times> 'u world" where
  "process_common cf junk me timestep_100ns loops dl w =
    (let l = loops me; l = l\<lparr>lp_timebase := tb_step timestep_100ns (lp_timebase l)\<rparr>
     in case loop_handle_message me l dl of (l, dl) \<Rightarrow>
          if owns_datalogger me dl then
            (case dl_process cf (timebases (loops(me := l))) junk dl w of (dl, w) \<Rightarrow>
               (loops(me := loop_report l dl), dl, w))
          else (loops(me := l), dl, w))"

text \<open>A fixed-frequency loop steps by its own period unless it is given another.\<close>

definition fixed_frequency_process ::
  "'u config \<Rightarrow> junk \<Rightarrow> loop_ref \<Rightarrow> loops \<Rightarrow> 'u datalogger \<Rightarrow> 'u world \<Rightarrow> loops \<times> 'u datalogger \<times> 'u world" where
  "fixed_frequency_process cf junk me loops dl w =
    process_common cf junk me (li_timestep_100ns (loops me)) loops dl w"

end
