(* ===== verification/ConfigureCodec.thy ===== *)
theory ConfigureCodec
  imports DatalogTypes Protocol
begin

text \<open>
  The request that configures the datalogger: \<open>decode_datalogging_configure_request\<close> of
  \<open>lib/src/protocol/scrutiny_codec_v1_0.cpp\<close>, which fills the configuration of the datalogger in
  place, field by field, until it finds an error. The specification is the encoding that a client
  makes of the configuration it wants; the lemmas say that the decoder accepts exactly these
  encodings and fills in what the client meant.
\<close>

section \<open>The decoder\<close>

text \<open>
  The cursor of the code is 16 bits wide and stays below 256 here: at most three operands of 12
  bytes and sixteen items of 10.
\<close>

definition decode_operand :: "request \<Rightarrow> nat \<Rightarrow> operand \<Rightarrow> response_code \<times> nat \<times> operand" where
  "decode_operand rq cursor opd =
    (let data_length = unat (rq_data_length rq); data = rq_data rq
     in if data_length < cursor + 1 then (RC_InvalidRequest, cursor, opd)
        else
          let optype = data ! cursor;
              opd = opd\<lparr>op_type := optype\<rparr>;
              cursor = cursor + 1
          in if optype = OperandType_Literal then
               (if data_length < cursor + 4 then (RC_InvalidRequest, cursor, opd)
                else (RC_OK, cursor + 4, set_op_literal_val (decode_float_big_endian (drop cursor data)) opd))
             else if optype = OperandType_Rpv then
               (if data_length < cursor + 2 then (RC_InvalidRequest, cursor, opd)
                else (RC_OK, cursor + 2, set_op_rpv_id (decode_16_bits_big_endian (drop cursor data)) opd))
             else if optype = OperandType_Var then
               (if data_length < cursor + 1 + 8 then (RC_InvalidRequest, cursor, opd)
                else (RC_OK, cursor + 1 + 8,
                      opd\<lparr>op_datatype := data ! cursor,
                          op_addr := decode_address_big_endian (drop (cursor + 1) data)\<rparr>))
             else if optype = OperandType_VarBit then
               (if data_length < cursor + 3 + 8 then (RC_InvalidRequest, cursor, opd)
                else (RC_OK, cursor + 1 + 8 + 1 + 1,
                      opd\<lparr>op_datatype := data ! cursor,
                          op_addr := decode_address_big_endian (drop (cursor + 1) data),
                          op_bitoffset := data ! (cursor + 1 + 8) AND 0xFF,
                          op_bitsize := data ! (cursor + 1 + 8 + 1) AND 0xFF\<rparr>))
             else (RC_InvalidRequest, cursor, opd))"

definition decode_item :: "request \<Rightarrow> nat \<Rightarrow> loggable_item \<Rightarrow> response_code \<times> nat \<times> loggable_item" where
  "decode_item rq cursor item =
    (let data_length = unat (rq_data_length rq); data = rq_data rq
     in if data_length < cursor + 1 then (RC_InvalidRequest, cursor, item)
        else
          let item = item\<lparr>it_type := data ! cursor\<rparr>;
              cursor = cursor + 1
          in if it_type item = LoggableType_Memory then
               (if data_length < cursor + 8 + 1 then (RC_InvalidRequest, cursor, item)
                else (RC_OK, cursor + 8 + 1,
                      item\<lparr>it_address := decode_address_big_endian (drop cursor data),
                           it_size := data ! (cursor + 8)\<rparr>))
             else if it_type item = LoggableType_Rpv then
               (if data_length < cursor + 2 then (RC_InvalidRequest, cursor, item)
                else (RC_OK, cursor + 2, set_it_rpv_id (decode_16_bits_big_endian (drop cursor data)) item))
             else if it_type item = LoggableType_Time then (RC_OK, cursor, item)
             else (RC_InvalidRequest, cursor, item))"

text \<open>A loop over the cells \<open>i\<close>, \<open>i + 1\<close>, ... of an array, until a cell is refused.\<close>

fun decode_cells ::
  "(nat \<Rightarrow> 'a \<Rightarrow> response_code \<times> nat \<times> 'a) \<Rightarrow> nat \<Rightarrow> nat \<Rightarrow> nat \<Rightarrow> 'a list \<Rightarrow> response_code \<times> nat \<times> 'a list" where
  "decode_cells decode 0 i cursor cells = (RC_OK, cursor, cells)"
| "decode_cells decode (Suc n) i cursor cells =
    (case decode cursor (cells ! i) of (code, cursor, cell) \<Rightarrow>
       if code \<noteq> RC_OK then (code, cursor, cells[i := cell])
       else decode_cells decode n (i + 1) cursor (cells[i := cell]))"

type_synonym configure_data = "u8 \<times> u16"

definition decode_datalogging_configure_request ::
  "request \<Rightarrow> configure_data \<Rightarrow> dl_config \<Rightarrow> response_code \<times> configure_data \<times> dl_config" where
  "decode_datalogging_configure_request rq d dc =
    (let data_length = unat (rq_data_length rq); data = rq_data rq
     in if data_length < 16 then (RC_InvalidRequest, d, dc)
        else
          let d = (data ! 0 AND 0xFF, decode_16_bits_big_endian (drop 1 data));
              tc = (dc_trigger dc)\<lparr>tc_condition := data ! 10,
                     tc_hold_time_100ns := decode_32_bits_big_endian (drop 11 data),
                     tc_operand_count := data ! 15 AND 0xFF\<rparr>;
              dc = dc\<lparr>dc_decimation := decode_16_bits_big_endian (drop 3 data),
                     dc_probe_location := data ! 5 AND 0xFF,
                     dc_timeout_100ns := decode_32_bits_big_endian (drop 6 data), dc_trigger := tc\<rparr>
          in if unat (tc_operand_count tc) > MAX_OPERANDS then (RC_Overflow, d, dc)
             else
               case decode_cells (decode_operand rq) (unat (tc_operand_count tc)) 0 16 (tc_operands tc) of
                 (code, cursor, operands) \<Rightarrow>
                   let dc = dc\<lparr>dc_trigger := tc\<lparr>tc_operands := operands\<rparr>\<rparr>
                   in if code \<noteq> RC_OK then (code, d, dc)
                      else if data_length < cursor + 1 then (RC_InvalidRequest, d, dc)
                      else
                        let dc = dc\<lparr>dc_items_count := data ! cursor AND 0xFF\<rparr>
                        in if unat (dc_items_count dc) > DATALOGGING_MAX_SIGNAL then (RC_Overflow, d, dc)
                           else
                             case decode_cells (decode_item rq) (unat (dc_items_count dc)) 0 (cursor + 1)
                                    (dc_items_to_log dc) of
                               (code, cursor, items) \<Rightarrow>
                                 let dc = dc\<lparr>dc_items_to_log := items\<rparr>
                                 in if code \<noteq> RC_OK then (code, d, dc)
                                    else if cursor \<noteq> data_length then (RC_InvalidRequest, d, dc)
                                    else (RC_OK, d, dc))"

section \<open>What a client sends\<close>

datatype client_operand =
    ClientLiteral u32 | ClientRpv u16 | ClientVar variable_type u64 | ClientVarBit variable_type u64 u8 u8

datatype client_item = ClientMemory u64 u8 | ClientItemRpv u16 | ClientTime

record client_config =
  cc_loop_id :: u8
  cc_config_id :: u16
  cc_decimation :: u16
  cc_probe_location :: u8
  cc_timeout_100ns :: u32
  cc_condition :: u8
  cc_hold_time_100ns :: u32
  cc_operands :: "client_operand list"
  cc_items :: "client_item list"

fun operand_bytes :: "client_operand \<Rightarrow> u8 list" where
  "operand_bytes (ClientLiteral v) = 0 # encode_float_big_endian v"
| "operand_bytes (ClientRpv i) = 3 # encode_16_bits_big_endian i"
| "operand_bytes (ClientVar vt a) = 1 # vt # encode_address_big_endian a"
| "operand_bytes (ClientVarBit vt a bitoffset bitsize) = 2 # vt # encode_address_big_endian a @ [bitoffset, bitsize]"

fun item_bytes :: "client_item \<Rightarrow> u8 list" where
  "item_bytes (ClientMemory a n) = 0 # encode_address_big_endian a @ [n]"
| "item_bytes (ClientItemRpv i) = 1 # encode_16_bits_big_endian i"
| "item_bytes ClientTime = [2]"

definition configure_header :: "client_config \<Rightarrow> u8 list" where
  "configure_header c =
    [cc_loop_id c] @ encode_16_bits_big_endian (cc_config_id c) @ encode_16_bits_big_endian (cc_decimation c)
    @ [cc_probe_location c] @ encode_32_bits_big_endian (cc_timeout_100ns c) @ [cc_condition c]
    @ encode_32_bits_big_endian (cc_hold_time_100ns c) @ [of_nat (length (cc_operands c))]"

definition configure_payload :: "client_config \<Rightarrow> u8 list" where
  "configure_payload c =
    configure_header c @ concat (map operand_bytes (cc_operands c))
    @ [of_nat (length (cc_items c))] @ concat (map item_bytes (cc_items c))"

definition client_ok :: "client_config \<Rightarrow> bool" where
  "client_ok c = (length (cc_operands c) \<le> MAX_OPERANDS \<and> length (cc_items c) \<le> DATALOGGING_MAX_SIGNAL)"

text \<open>The configuration that the datalogger holds, as the client names it.\<close>

definition operand_view :: "operand \<Rightarrow> client_operand" where
  "operand_view opd =
    (if op_type opd = OperandType_Literal then ClientLiteral (op_literal_val opd)
     else if op_type opd = OperandType_Rpv then ClientRpv (op_rpv_id opd)
     else if op_type opd = OperandType_Var then ClientVar (op_datatype opd) (op_addr opd)
     else ClientVarBit (op_datatype opd) (op_addr opd) (op_bitoffset opd) (op_bitsize opd))"

definition item_view :: "loggable_item \<Rightarrow> client_item" where
  "item_view item =
    (if it_type item = LoggableType_Memory then ClientMemory (it_address item) (it_size item)
     else if it_type item = LoggableType_Rpv then ClientItemRpv (it_rpv_id item)
     else ClientTime)"

definition configure_view :: "configure_data \<Rightarrow> dl_config \<Rightarrow> client_config" where
  "configure_view d dc =
    \<lparr>cc_loop_id = fst d, cc_config_id = snd d, cc_decimation = dc_decimation dc,
     cc_probe_location = dc_probe_location dc, cc_timeout_100ns = dc_timeout_100ns dc,
     cc_condition = tc_condition (dc_trigger dc), cc_hold_time_100ns = tc_hold_time_100ns (dc_trigger dc),
     cc_operands = map operand_view (dc_operands dc), cc_items = map item_view (dc_items dc)\<rparr>"

section \<open>One cell\<close>

text \<open>
  The contract of a cell decoder: on the bytes that are left, it accepts exactly what starts with
  the bytes of some client value, and fills the cell in with that value.
\<close>

definition rq_payload :: "request \<Rightarrow> u8 list" where
  "rq_payload rq = take (unat (rq_data_length rq)) (rq_data rq)"

locale cell_codec =
  fixes bytes :: "'c \<Rightarrow> u8 list" and view :: "'a \<Rightarrow> 'c"
    and decode :: "request \<Rightarrow> nat \<Rightarrow> 'a \<Rightarrow> response_code \<times> nat \<times> 'a"
  assumes decode_bytes: "unat (rq_data_length rq) \<le> length (rq_data rq) \<Longrightarrow>
      drop cursor (rq_payload rq) = bytes c @ rest \<Longrightarrow>
      \<exists>cell'. decode rq cursor cell = (RC_OK, cursor + length (bytes c), cell') \<and> view cell' = c"
    and decode_ok: "unat (rq_data_length rq) \<le> length (rq_data rq) \<Longrightarrow>
      decode rq cursor cell = (RC_OK, cursor', cell') \<Longrightarrow>
      drop cursor (rq_payload rq) = bytes (view cell') @ drop cursor' (rq_payload rq)
      \<and> cursor' = cursor + length (bytes (view cell')) \<and> cursor' \<le> unat (rq_data_length rq)"
begin

lemma cells_bytes:
  assumes "unat (rq_data_length rq) \<le> length (rq_data rq)"
  shows "i + length cs \<le> length cells \<Longrightarrow> drop cursor (rq_payload rq) = concat (map bytes cs) @ rest \<Longrightarrow>
    \<exists>cells'. decode_cells (decode rq) (length cs) i cursor cells
        = (RC_OK, cursor + length (concat (map bytes cs)), cells')
      \<and> length cells' = length cells \<and> take i cells' = take i cells
      \<and> map view (take (length cs) (drop i cells')) = cs"
proof (induction cs arbitrary: i cursor cells)
  case Nil
  then show ?case by simp
next
  case (Cons c cs)
  from Cons.prems(2) have "drop cursor (rq_payload rq) = bytes c @ (concat (map bytes cs) @ rest)" by simp
  from decode_bytes [OF assms this, of "cells ! i"] obtain cell' where
    step: "decode rq cursor (cells ! i) = (RC_OK, cursor + length (bytes c), cell')" "view cell' = c" by blast
  have "drop (cursor + length (bytes c)) (rq_payload rq) = concat (map bytes cs) @ rest"
    using Cons.prems(2) by (simp add: drop_after)
  from Cons.IH [OF _ this, of "i + 1" "cells[i := cell']"] Cons.prems(1) obtain cells' where
    rest: "decode_cells (decode rq) (length cs) (i + 1) (cursor + length (bytes c)) (cells[i := cell'])
        = (RC_OK, cursor + length (bytes c) + length (concat (map bytes cs)), cells')"
    "length cells' = length cells" "take (i + 1) cells' = take (i + 1) (cells[i := cell'])"
    "map view (take (length cs) (drop (i + 1) cells')) = cs"
    by auto
  have i: "i < length cells'" using Cons.prems(1) rest(2) by simp
  have "cells' ! i = take (i + 1) cells' ! i" by simp
  then have at: "cells' ! i = cell'" using i rest(2) unfolding rest(3) by simp
  have "take i cells' = take i (take (i + 1) cells')" by simp
  then have before: "take i cells' = take i cells" unfolding rest(3) by simp
  have "take (length (c # cs)) (drop i cells') = cell' # take (length cs) (drop (i + 1) cells')"
    using i at by (simp add: Cons_nth_drop_Suc [symmetric])
  with step rest before show ?case by (simp add: add.assoc)
qed

lemma cells_ok:
  assumes "unat (rq_data_length rq) \<le> length (rq_data rq)"
  shows "i + n \<le> length cells \<Longrightarrow> decode_cells (decode rq) n i cursor cells = (RC_OK, cursor', cells') \<Longrightarrow>
    cursor \<le> unat (rq_data_length rq) \<Longrightarrow>
    drop cursor (rq_payload rq) = concat (map (\<lambda>a. bytes (view a)) (take n (drop i cells'))) @ drop cursor' (rq_payload rq)
    \<and> length cells' = length cells \<and> take i cells' = take i cells \<and> cursor \<le> cursor'
    \<and> cursor' \<le> unat (rq_data_length rq)"
proof (induction n arbitrary: i cursor cells)
  case 0
  then show ?case by auto
next
  case (Suc n)
  obtain code cursor1 cell where step: "decode rq cursor (cells ! i) = (code, cursor1, cell)" by (metis prod_cases3)
  with Suc.prems(2) have ok: "code = RC_OK"
    and rest: "decode_cells (decode rq) n (i + 1) cursor1 (cells[i := cell]) = (RC_OK, cursor', cells')"
    by (auto split: if_splits)
  from decode_ok [OF assms step [unfolded ok]]
  have one: "drop cursor (rq_payload rq) = bytes (view cell) @ drop cursor1 (rq_payload rq)" "cursor \<le> cursor1"
    "cursor1 \<le> unat (rq_data_length rq)" by simp_all
  from Suc.IH [OF _ rest one(3)] Suc.prems(1)
  have ih: "drop cursor1 (rq_payload rq)
      = concat (map (\<lambda>a. bytes (view a)) (take n (drop (i + 1) cells'))) @ drop cursor' (rq_payload rq)"
    "length cells' = length cells" "take (i + 1) cells' = take (i + 1) (cells[i := cell])" "cursor1 \<le> cursor'"
    "cursor' \<le> unat (rq_data_length rq)"
    by simp_all
  have i: "i < length cells'" using Suc.prems(1) ih(2) by simp
  have "cells' ! i = take (i + 1) cells' ! i" by simp
  then have at: "cells' ! i = cell" using i ih(2) unfolding ih(3) by simp
  have "take i cells' = take i (take (i + 1) cells')" by simp
  then have before: "take i cells' = take i cells" unfolding ih(3) by simp
  have "take (Suc n) (drop i cells') = cell # take n (drop (i + 1) cells')"
    using i at by (simp add: Cons_nth_drop_Suc [symmetric])
  with one ih before show ?case by simp
qed

end

section \<open>Operands and items are such cells\<close>

lemma length_payload [simp]:
  "unat (rq_data_length rq) \<le> length (rq_data rq) \<Longrightarrow> length (rq_payload rq) = unat (rq_data_length rq)"
  by (simp add: rq_payload_def)

lemma payload_nth:
  assumes "drop cursor (rq_payload rq) = ys" "j < length ys"
  shows "rq_data rq ! (cursor + j) = ys ! j"
proof -
  from assms have "cursor + j < length (rq_payload rq)" by auto
  then have "cursor + j < unat (rq_data_length rq)" by (simp add: rq_payload_def)
  then show ?thesis using assms by (auto simp: rq_payload_def)
qed

lemma payload_cons:
  "unat (rq_data_length rq) \<le> length (rq_data rq) \<Longrightarrow> cursor < unat (rq_data_length rq) \<Longrightarrow>
    drop cursor (rq_payload rq) = rq_data rq ! cursor # drop (cursor + 1) (rq_payload rq)"
  by (simp add: rq_payload_def Cons_nth_drop_Suc [symmetric])

lemma payload_end:
  assumes "unat (rq_data_length rq) \<le> length (rq_data rq)" "drop cursor (rq_payload rq) = ys @ rest" "ys \<noteq> []"
  shows "cursor + length ys \<le> unat (rq_data_length rq)"
proof -
  have "length (drop cursor (rq_payload rq)) = length ys + length rest" by (simp add: assms(2))
  with assms(1,3) show ?thesis by (cases ys) auto
qed

context byte_codec
begin

lemma dec_payload:
  assumes "unat (rq_data_length rq) \<le> length (rq_data rq)" "drop cursor (rq_payload rq) = xs @ enc v @ ys"
    and "n = cursor + length xs"
  shows "dec (drop n (rq_data rq)) = v"
proof -
  have "drop n (rq_payload rq) = enc v @ ys"
    using assms(2) unfolding assms(3) by (rule drop_after)
  then have "dec (drop n (rq_payload rq)) = v" by (simp add: dec_enc_append)
  moreover have "len \<le> length (drop n (rq_payload rq))" using \<open>drop n (rq_payload rq) = enc v @ ys\<close> by (simp add: length_enc)
  moreover from this have "take len (drop n (rq_payload rq)) = take len (drop n (rq_data rq))"
    using assms(1) by (simp add: rq_payload_def drop_take)
  ultimately show ?thesis
    using dec_take [of "drop n (rq_payload rq)"] dec_take [of "drop n (rq_data rq)"] assms(1) by simp
qed

lemma enc_dec_payload:
  assumes "unat (rq_data_length rq) \<le> length (rq_data rq)" "n + len \<le> unat (rq_data_length rq)"
  shows "drop n (rq_payload rq) = enc (dec (drop n (rq_data rq))) @ drop (n + len) (rq_payload rq)"
proof -
  have "take len (drop n (rq_payload rq)) = take len (drop n (rq_data rq))"
    using assms by (simp add: rq_payload_def drop_take)
  moreover have "enc (dec (drop n (rq_data rq))) = take len (drop n (rq_data rq))"
    using assms by (intro enc_dec_take) simp
  ultimately show ?thesis by (metis add.commute append_take_drop_id drop_drop)
qed

end

lemma operand_bytes_nonempty [simp]: "operand_bytes c \<noteq> []"
  by (cases c) simp_all

lemma item_bytes_nonempty [simp]: "item_bytes c \<noteq> []"
  by (cases c) simp_all

lemma decode_operand_bytes:
  assumes len: "unat (rq_data_length rq) \<le> length (rq_data rq)"
    and rest: "drop cursor (rq_payload rq) = operand_bytes c @ rest"
  shows "\<exists>opd'. decode_operand rq cursor opd = (RC_OK, cursor + length (operand_bytes c), opd')
    \<and> operand_view opd' = c"
proof -
  have fits: "cursor + length (operand_bytes c) \<le> unat (rq_data_length rq)"
    by (rule payload_end [OF len rest]) simp
  have tag: "rq_data rq ! cursor = hd (operand_bytes c)"
    using payload_nth [OF rest, of 0] by (simp add: hd_conv_nth nth_append)
  show ?thesis
  proof (cases c)
    case (ClientLiteral v)
    have "decode_float_big_endian (drop (cursor + 1) (rq_data rq)) = v"
      by (rule be_float.dec_payload [OF len, of cursor "[0]" v rest]) (use rest ClientLiteral in simp_all)
    with fits tag show ?thesis
      by (simp add: ClientLiteral decode_operand_def operand_view_def be_float.length_enc Let_def)
  next
    case (ClientRpv i)
    have "decode_16_bits_big_endian (drop (cursor + 1) (rq_data rq)) = i"
      by (rule be16.dec_payload [OF len, of cursor "[3]" i rest]) (use rest ClientRpv in simp_all)
    with fits tag show ?thesis
      by (simp add: ClientRpv decode_operand_def operand_view_def be16.length_enc Let_def)
  next
    case (ClientVar vt a)
    have "decode_address_big_endian (drop (cursor + 2) (rq_data rq)) = a"
      by (rule be_addr.dec_payload [OF len, of cursor "[1, vt]" a rest]) (use rest ClientVar in simp_all)
    moreover have "rq_data rq ! (cursor + 1) = vt"
      using payload_nth [OF rest, of 1] by (simp add: ClientVar)
    ultimately show ?thesis using fits tag
      by (simp add: ClientVar decode_operand_def operand_view_def be_addr.length_enc Let_def)
  next
    case (ClientVarBit vt a bitoffset bitsize)
    have "decode_address_big_endian (drop (cursor + 2) (rq_data rq)) = a"
      by (rule be_addr.dec_payload [OF len, of cursor "[2, vt]" a "[bitoffset, bitsize] @ rest"])
        (use rest ClientVarBit in simp_all)
    moreover have "rq_data rq ! (cursor + 1) = vt"
      using payload_nth [OF rest, of 1] by (simp add: ClientVarBit)
    moreover have "rq_data rq ! (10 + cursor) = bitoffset" "rq_data rq ! (11 + cursor) = bitsize"
      using payload_nth [OF rest, of 10] payload_nth [OF rest, of 11]
      by (simp_all add: ClientVarBit nth_append be_addr.length_enc add.commute)
    ultimately show ?thesis using fits tag
      by (simp add: ClientVarBit decode_operand_def operand_view_def be_addr.length_enc Let_def)
  qed
qed

lemma decode_operand_ok:
  assumes len: "unat (rq_data_length rq) \<le> length (rq_data rq)"
    and ok: "decode_operand rq cursor opd = (RC_OK, cursor', opd')"
  shows "drop cursor (rq_payload rq) = operand_bytes (operand_view opd') @ drop cursor' (rq_payload rq)
    \<and> cursor' = cursor + length (operand_bytes (operand_view opd')) \<and> cursor' \<le> unat (rq_data_length rq)"
proof -
  have "cursor < unat (rq_data_length rq)" using ok by (simp add: decode_operand_def Let_def split: if_splits)
  note one = payload_cons [OF len this]
  show ?thesis
    using ok one
      be_float.enc_dec_payload [OF len, of "cursor + 1"] be16.enc_dec_payload [OF len, of "cursor + 1"]
      be_addr.enc_dec_payload [OF len, of "cursor + 2"] payload_cons [OF len, of "cursor + 1"]
      payload_cons [OF len, of "10 + cursor"] payload_cons [OF len, of "11 + cursor"]
    by (auto simp: decode_operand_def operand_view_def be_float.length_enc be16.length_enc be_addr.length_enc
        Let_def split: if_splits)
qed

interpretation operand_cell: cell_codec operand_bytes operand_view decode_operand
  by unfold_locales (blast intro: decode_operand_bytes decode_operand_ok [THEN conjunct1]
      decode_operand_ok [THEN conjunct2, THEN conjunct1] decode_operand_ok [THEN conjunct2, THEN conjunct2])+

lemma decode_item_bytes:
  assumes len: "unat (rq_data_length rq) \<le> length (rq_data rq)"
    and rest: "drop cursor (rq_payload rq) = item_bytes c @ rest"
  shows "\<exists>item'. decode_item rq cursor item = (RC_OK, cursor + length (item_bytes c), item') \<and> item_view item' = c"
proof -
  have fits: "cursor + length (item_bytes c) \<le> unat (rq_data_length rq)"
    by (rule payload_end [OF len rest]) simp
  have tag: "rq_data rq ! cursor = hd (item_bytes c)"
    using payload_nth [OF rest, of 0] by (simp add: hd_conv_nth nth_append)
  show ?thesis
  proof (cases c)
    case (ClientMemory a n)
    have "decode_address_big_endian (drop (cursor + 1) (rq_data rq)) = a"
      by (rule be_addr.dec_payload [OF len, of cursor "[0]" a "[n] @ rest"]) (use rest ClientMemory in simp_all)
    moreover have "rq_data rq ! (9 + cursor) = n"
      using payload_nth [OF rest, of 9] by (simp add: ClientMemory nth_append be_addr.length_enc add.commute)
    ultimately show ?thesis using fits tag
      by (simp add: ClientMemory decode_item_def item_view_def be_addr.length_enc Let_def)
  next
    case (ClientItemRpv i)
    have "decode_16_bits_big_endian (drop (cursor + 1) (rq_data rq)) = i"
      by (rule be16.dec_payload [OF len, of cursor "[1]" i rest]) (use rest ClientItemRpv in simp_all)
    with fits tag show ?thesis
      by (simp add: ClientItemRpv decode_item_def item_view_def be16.length_enc Let_def)
  next
    case ClientTime
    with fits tag show ?thesis by (simp add: decode_item_def item_view_def Let_def)
  qed
qed

lemma decode_item_ok:
  assumes len: "unat (rq_data_length rq) \<le> length (rq_data rq)"
    and ok: "decode_item rq cursor item = (RC_OK, cursor', item')"
  shows "drop cursor (rq_payload rq) = item_bytes (item_view item') @ drop cursor' (rq_payload rq)
    \<and> cursor' = cursor + length (item_bytes (item_view item')) \<and> cursor' \<le> unat (rq_data_length rq)"
proof -
  have "cursor < unat (rq_data_length rq)" using ok by (simp add: decode_item_def Let_def split: if_splits)
  note one = payload_cons [OF len this]
  show ?thesis
    using ok one be16.enc_dec_payload [OF len, of "cursor + 1"]
      be_addr.enc_dec_payload [OF len, of "cursor + 1"] payload_cons [OF len, of "9 + cursor"]
    by (auto simp: decode_item_def item_view_def be16.length_enc be_addr.length_enc Let_def split: if_splits)
qed

interpretation item_cell: cell_codec item_bytes item_view decode_item
  by unfold_locales (blast intro: decode_item_bytes decode_item_ok [THEN conjunct1]
      decode_item_ok [THEN conjunct2, THEN conjunct1] decode_item_ok [THEN conjunct2, THEN conjunct2])+

section \<open>The whole request\<close>

text \<open>The fields of a header of 16 bytes, put back together.\<close>

lemma header_fields:
  assumes len: "unat (rq_data_length rq) \<le> length (rq_data rq)" and hdr: "16 \<le> unat (rq_data_length rq)"
  shows "rq_payload rq =
    ([rq_data rq ! 0] @ encode_16_bits_big_endian (decode_16_bits_big_endian (drop 1 (rq_data rq)))
      @ encode_16_bits_big_endian (decode_16_bits_big_endian (drop 3 (rq_data rq))) @ [rq_data rq ! 5]
      @ encode_32_bits_big_endian (decode_32_bits_big_endian (drop 6 (rq_data rq))) @ [rq_data rq ! 10]
      @ encode_32_bits_big_endian (decode_32_bits_big_endian (drop 11 (rq_data rq))) @ [rq_data rq ! 15])
    @ drop 16 (rq_payload rq)"
proof -
  have "rq_payload rq = rq_data rq ! 0 # drop 1 (rq_payload rq)" using payload_cons [OF len, of 0] hdr by simp
  also have "drop 1 (rq_payload rq) = encode_16_bits_big_endian (decode_16_bits_big_endian (drop 1 (rq_data rq))) @ drop 3 (rq_payload rq)"
    using be16.enc_dec_payload [OF len, of 1] hdr by (simp add: numeral_3_eq_3)
  also have "drop 3 (rq_payload rq) = encode_16_bits_big_endian (decode_16_bits_big_endian (drop 3 (rq_data rq))) @ drop 5 (rq_payload rq)"
    using be16.enc_dec_payload [OF len, of 3] hdr by simp
  also have "drop 5 (rq_payload rq) = rq_data rq ! 5 # drop 6 (rq_payload rq)" using payload_cons [OF len, of 5] hdr by simp
  also have "drop 6 (rq_payload rq) = encode_32_bits_big_endian (decode_32_bits_big_endian (drop 6 (rq_data rq))) @ drop 10 (rq_payload rq)"
    using be32.enc_dec_payload [OF len, of 6] hdr by simp
  also have "drop 10 (rq_payload rq) = rq_data rq ! 10 # drop 11 (rq_payload rq)" using payload_cons [OF len, of 10] hdr by simp
  also have "drop 11 (rq_payload rq) = encode_32_bits_big_endian (decode_32_bits_big_endian (drop 11 (rq_data rq))) @ drop 15 (rq_payload rq)"
    using be32.enc_dec_payload [OF len, of 11] hdr by simp
  also have "drop 15 (rq_payload rq) = rq_data rq ! 15 # drop 16 (rq_payload rq)" using payload_cons [OF len, of 15] hdr by simp
  finally show ?thesis by simp
qed

lemma length_configure_header: "length (configure_header c) = 16"
  by (simp add: configure_header_def be16.length_enc be32.length_enc)

lemma header_decoded:
  assumes len: "unat (rq_data_length rq) \<le> length (rq_data rq)" and c: "rq_payload rq = configure_header c @ rest"
  shows "16 \<le> unat (rq_data_length rq)" "rq_data rq ! 0 = cc_loop_id c"
    "decode_16_bits_big_endian (drop 1 (rq_data rq)) = cc_config_id c"
    "decode_16_bits_big_endian (drop 3 (rq_data rq)) = cc_decimation c" "rq_data rq ! 5 = cc_probe_location c"
    "decode_32_bits_big_endian (drop 6 (rq_data rq)) = cc_timeout_100ns c" "rq_data rq ! 10 = cc_condition c"
    "decode_32_bits_big_endian (drop 11 (rq_data rq)) = cc_hold_time_100ns c"
    "rq_data rq ! 15 = of_nat (length (cc_operands c))"
proof -
  from len have "length (rq_payload rq) = unat (rq_data_length rq)" by simp
  then show hdr: "16 \<le> unat (rq_data_length rq)" by (simp add: c length_configure_header)
  note header_fields [OF len hdr, unfolded c]
  then show "rq_data rq ! 0 = cc_loop_id c"
    "decode_16_bits_big_endian (drop 1 (rq_data rq)) = cc_config_id c"
    "decode_16_bits_big_endian (drop 3 (rq_data rq)) = cc_decimation c" "rq_data rq ! 5 = cc_probe_location c"
    "decode_32_bits_big_endian (drop 6 (rq_data rq)) = cc_timeout_100ns c" "rq_data rq ! 10 = cc_condition c"
    "decode_32_bits_big_endian (drop 11 (rq_data rq)) = cc_hold_time_100ns c"
    "rq_data rq ! 15 = of_nat (length (cc_operands c))"
    by (simp_all add: configure_header_def append_eq_append_conv be16.length_enc be32.length_enc be16.enc_inj be32.enc_inj)
qed

lemma decode_accepts:
  assumes len: "unat (rq_data_length rq) \<le> length (rq_data rq)" and shape: "dl_config_shape dc"
    and c: "client_ok c" "rq_payload rq = configure_payload c"
  shows "\<exists>d' dc'. decode_datalogging_configure_request rq d dc = (RC_OK, d', dc') \<and> configure_view d' dc' = c"
proof -
  let ?ops = "concat (map operand_bytes (cc_operands c))" and ?its = "concat (map item_bytes (cc_items c))"
  let ?n = "length (cc_operands c)" and ?m = "length (cc_items c)"
  have counts: "?n \<le> 3" "?m \<le> 16" using c(1) by (simp_all add: client_ok_def)
  have shapes: "length (tc_operands (dc_trigger dc)) = 3" "length (dc_items_to_log dc) = 16"
    using shape by (simp_all add: dl_config_shape_def)
  have c': "rq_payload rq = configure_header c @ (?ops @ [of_nat ?m] @ ?its)"
    using c(2) by (simp add: configure_payload_def)
  note hdr = header_decoded [OF len c']
  have "drop 16 (rq_payload rq) = ?ops @ ([of_nat ?m] @ ?its)" by (simp add: c' length_configure_header)
  from operand_cell.cells_bytes [OF len _ this, of 0 "tc_operands (dc_trigger dc)"] counts shapes obtain operands where
    ops: "decode_cells (decode_operand rq) ?n 0 16 (tc_operands (dc_trigger dc)) = (RC_OK, 16 + length ?ops, operands)"
    "length operands = 3" "map operand_view (take ?n operands) = cc_operands c" by auto
  have count: "drop (16 + length ?ops) (rq_payload rq) = of_nat ?m # ?its" by (simp add: c' length_configure_header)
  have "drop (16 + length ?ops) (rq_payload rq) = [of_nat ?m] @ ?its" using count by simp
  from payload_end [OF len this] have room: "16 + length ?ops + 1 \<le> unat (rq_data_length rq)" by simp
  have m: "rq_data rq ! (16 + length ?ops) = of_nat ?m" using payload_nth [OF count, of 0] by simp
  have "drop (16 + length ?ops + 1) (rq_payload rq) = ?its @ []" by (simp add: c' length_configure_header)
  from item_cell.cells_bytes [OF len _ this, of 0 "dc_items_to_log dc"] counts shapes obtain items where
    its: "decode_cells (decode_item rq) ?m 0 (16 + length ?ops + 1) (dc_items_to_log dc)
        = (RC_OK, 16 + length ?ops + 1 + length ?its, items)"
    "length items = 16" "map item_view (take ?m items) = cc_items c" by auto
  have total: "16 + length ?ops + 1 + length ?its = unat (rq_data_length rq)"
    using length_payload [OF len] by (simp add: c' length_configure_header)
  have un: "unat (of_nat ?n :: u8) = ?n" "unat (of_nat ?m :: u8) = ?m" using counts by simp_all
  show ?thesis
    using hdr ops its room m total counts un
    by (simp add: decode_datalogging_configure_request_def Let_def configure_view_def dc_operands_def dc_items_def)
qed

lemma decode_accepted:
  assumes len: "unat (rq_data_length rq) \<le> length (rq_data rq)" and shape: "dl_config_shape dc"
    and ok: "decode_datalogging_configure_request rq d dc = (RC_OK, d', dc')"
  shows "client_ok (configure_view d' dc')" "rq_payload rq = configure_payload (configure_view d' dc')"
proof -
  have shapes: "length (tc_operands (dc_trigger dc)) = 3" "length (dc_items_to_log dc) = 16"
    using shape by (simp_all add: dl_config_shape_def)
  let ?n = "unat (rq_data rq ! 15)"
  obtain code cursor operands where
    ops: "decode_cells (decode_operand rq) ?n 0 16 (tc_operands (dc_trigger dc)) = (code, cursor, operands)"
    by (metis prod_cases3)
  let ?m = "unat (rq_data rq ! cursor)"
  obtain code' cursor' items where
    its: "decode_cells (decode_item rq) ?m 0 (cursor + 1) (dc_items_to_log dc) = (code', cursor', items)"
    by (metis prod_cases3)
  have hdr: "16 \<le> unat (rq_data_length rq)" "?n \<le> 3" "code = RC_OK" "cursor < unat (rq_data_length rq)" "?m \<le> 16"
    "code' = RC_OK" "cursor' = unat (rq_data_length rq)"
    and d': "d' = (rq_data rq ! 0, decode_16_bits_big_endian (drop 1 (rq_data rq)))"
    and dc': "dc' = dc\<lparr>dc_decimation := decode_16_bits_big_endian (drop 3 (rq_data rq)),
        dc_probe_location := rq_data rq ! 5, dc_timeout_100ns := decode_32_bits_big_endian (drop 6 (rq_data rq)),
        dc_trigger := (dc_trigger dc)\<lparr>tc_condition := rq_data rq ! 10,
          tc_hold_time_100ns := decode_32_bits_big_endian (drop 11 (rq_data rq)),
          tc_operand_count := rq_data rq ! 15, tc_operands := operands\<rparr>,
        dc_items_count := rq_data rq ! cursor, dc_items_to_log := items\<rparr>"
    using ok ops its
    by (auto simp: decode_datalogging_configure_request_def Let_def split: if_splits)
  from operand_cell.cells_ok [OF len _ ops [unfolded hdr(3)] hdr(1)] shapes hdr(2)
  have o: "drop 16 (rq_payload rq) = concat (map (\<lambda>a. operand_bytes (operand_view a)) (take ?n operands)) @ drop cursor (rq_payload rq)"
    "length operands = 3" by simp_all
  note one = payload_cons [OF len hdr(4)]
  from item_cell.cells_ok [OF len _ its [unfolded hdr(6)]] shapes hdr(4,5)
  have i: "drop (cursor + 1) (rq_payload rq)
      = concat (map (\<lambda>a. item_bytes (item_view a)) (take ?m items)) @ drop cursor' (rq_payload rq)"
    "length items = 16" by simp_all
  have none: "drop cursor' (rq_payload rq) = []" using len by (simp add: hdr(7))
  show "client_ok (configure_view d' dc')"
    using hdr o(2) i(2) by (simp add: client_ok_def configure_view_def dc' dc_operands_def dc_items_def)
  show "rq_payload rq = configure_payload (configure_view d' dc')"
    using header_fields [OF len hdr(1)] hdr o(2) i(2)
    unfolding o(1) one i(1) none
    by (simp add: configure_payload_def configure_header_def configure_view_def d' dc' dc_operands_def dc_items_def
        min_def map_map comp_def)
qed

text \<open>
  C32: the configuration that the datalogger takes is the one the client sent. A request is accepted
  exactly when its payload is the encoding of a configuration of at most three operands and sixteen
  items, and what it fills in then reads back as that configuration, whatever was there before.
\<close>

theorem configure_request_parsed:
  assumes "unat (rq_data_length rq) \<le> length (rq_data rq)" "dl_config_shape dc"
    and "decode_datalogging_configure_request rq d dc = (code, d', dc')"
  shows "client_ok c \<and> rq_payload rq = configure_payload c \<longleftrightarrow> code = RC_OK \<and> configure_view d' dc' = c"
proof
  assume "client_ok c \<and> rq_payload rq = configure_payload c"
  with decode_accepts [OF assms(1,2), of c d] assms(3) show "code = RC_OK \<and> configure_view d' dc' = c" by auto
next
  assume "code = RC_OK \<and> configure_view d' dc' = c"
  then have code: "code = RC_OK" and view: "configure_view d' dc' = c" by blast+
  from decode_accepted [OF assms(1,2) assms(3) [unfolded code]]
  show "client_ok c \<and> rq_payload rq = configure_payload c" unfolding view by blast
qed

text \<open>One literal operand against a variable, and two logged items.\<close>

definition demo_client :: client_config where
  "demo_client = \<lparr>cc_loop_id = 1, cc_config_id = 0x1234, cc_decimation = 2, cc_probe_location = 128,
     cc_timeout_100ns = 1000, cc_condition = Condition_GreaterThan, cc_hold_time_100ns = 10,
     cc_operands = [ClientVar 1 0x1000, ClientLiteral 0x40200000], cc_items = [ClientMemory 0x2000 4, ClientTime]\<rparr>"

definition demo_blank_config :: dl_config where
  "demo_blank_config =
    \<lparr>dc_items_to_log = replicate 16 \<lparr>it_address = 0, it_size = 0, it_type = 0\<rparr>,
     dc_trigger = \<lparr>tc_operands = replicate 3 \<lparr>op_addr = 0, op_datatype = 0, op_bitoffset = 0, op_bitsize = 0,
       op_type = 0\<rparr>, tc_hold_time_100ns = 0, tc_operand_count = 0, tc_condition = 0\<rparr>,
     dc_timeout_100ns = 0, dc_decimation = 0, dc_items_count = 0, dc_probe_location = 0\<rparr>"

definition demo_configure_request :: request where
  "demo_configure_request =
    \<lparr>rq_command_id = CommandId_DataLogControl, rq_subfunction_id = DataLogControl_Configure,
     rq_data_length = of_nat (length (configure_payload demo_client)), rq_data_max_length = 128,
     rq_data = configure_payload demo_client, rq_crc = 0\<rparr>"

lemma configure_request_parsed_witness:
  "\<exists>d' dc'. decode_datalogging_configure_request demo_configure_request (0, 0) demo_blank_config = (RC_OK, d', dc')
    \<and> configure_view d' dc' = demo_client"
proof -
  obtain code d' dc' where dec:
    "decode_datalogging_configure_request demo_configure_request (0, 0) demo_blank_config = (code, d', dc')"
    by (metis prod_cases3)
  have "length (configure_payload demo_client) < 65536"
    by (simp add: configure_payload_def length_configure_header demo_client_def be_addr.length_enc be_float.length_enc)
  then have "unat (rq_data_length demo_configure_request) \<le> length (rq_data demo_configure_request)"
    "rq_payload demo_configure_request = configure_payload demo_client"
    by (simp_all add: demo_configure_request_def rq_payload_def)
  moreover have "dl_config_shape demo_blank_config" by (simp add: dl_config_shape_def demo_blank_config_def)
  moreover have "client_ok demo_client" by (simp add: client_ok_def demo_client_def)
  ultimately show ?thesis using configure_request_parsed [OF _ _ dec, of demo_client] dec by simp
qed

end
