(* ===== verification/ResponseCodec.thy ===== *)
theory ResponseCodec
  imports Protocol Config
begin

text \<open>
  The flat requests and responses of \<open>lib/src/protocol/scrutiny_codec_v1_0.cpp\<close>: those that are
  one structure, of the GetInfo, CommControl and DataLogControl services. An encoder returns its
  code and the response; the firmware identifier, which the tool chain writes into the binary
  after the build, is an argument. Lemmas: the layout of each response, and that an encoder never
  writes outside a buffer of the smallest size that the communication handler accepts.
\<close>

section \<open>Response structures\<close>

record special_region_location =
  rl_region_type :: u8
  rl_region_index :: u8
  rl_start :: uintptr
  rl_end :: uintptr

record supported_features =
  sf_memory_write :: bool
  sf_datalogging :: bool
  sf_user_command :: bool
  sf_64bits :: bool

record loop_definition =
  ld_loop_id :: u8
  ld_loop_type :: u8
  ld_support_datalogging :: bool
  ld_timestep_100ns :: u32
  ld_loop_name_length :: u8
  ld_loop_name :: "u8 list"

record comm_params =
  gp_data_rx_buffer_size :: u16
  gp_data_tx_buffer_size :: u16
  gp_max_bitrate :: u32
  gp_heartbeat_timeout :: u32
  gp_comm_rx_timeout :: u32
  gp_address_size :: u8
  gp_char_bit :: u8

record datalog_setup =
  ds_buffer_size :: u32
  ds_data_encoding :: u8
  ds_max_signal_count :: u8

record datalog_status =
  st_state :: u8
  st_bytes_to_acquire_from_trigger_to_completion :: u32
  st_write_counter_since_trigger :: u32

record acquisition_metadata =
  am_acquisition_id :: u16
  am_config_id :: u16
  am_number_of_points :: u32
  am_data_size :: u32
  am_points_after_trigger :: u32

section \<open>Encoders\<close>

text \<open>The test that every encoder starts with, and a copy into the payload.\<close>

definition too_long :: "nat \<Rightarrow> response \<Rightarrow> bool" where
  "too_long datalen rs = (datalen > unat MINIMUM_TX_BUFFER_SIZE \<and> datalen > unat (rs_data_max_length rs))"

definition rs_put :: "nat \<Rightarrow> u8 list \<Rightarrow> response \<Rightarrow> response" where
  "rs_put pos bs rs = rs\<lparr>rs_data := blit (rs_data rs) pos bs\<rparr>"

definition encode_response_protocol_version :: "u8 \<Rightarrow> u8 \<Rightarrow> response \<Rightarrow> response_code \<times> response" where
  "encode_response_protocol_version major minor rs =
    (if too_long 2 rs then (RC_Overflow, rs)
     else (RC_OK, rs_put 1 [minor] (rs_put 0 [major] (rs\<lparr>rs_data_length := 2\<rparr>))))"

definition encode_response_software_id :: "u8 list \<Rightarrow> response \<Rightarrow> response_code \<times> response" where
  "encode_response_software_id software_id rs =
    (if too_long 16 rs then (RC_Overflow, rs)
     else (RC_OK, rs_put 0 (take 16 software_id) (rs\<lparr>rs_data_length := 16\<rparr>)))"

definition encode_response_special_memory_region_count :: "u8 \<Rightarrow> u8 \<Rightarrow> response \<Rightarrow> response_code \<times> response" where
  "encode_response_special_memory_region_count nbr_readonly nbr_forbidden rs =
    (if too_long 2 rs then (RC_Overflow, rs)
     else (RC_OK, (rs_put 1 [nbr_forbidden AND 0xFF] (rs_put 0 [nbr_readonly AND 0xFF] rs))\<lparr>rs_data_length := 2\<rparr>))"

definition encode_response_special_memory_region_location ::
  "special_region_location \<Rightarrow> response \<Rightarrow> response_code \<times> response" where
  "encode_response_special_memory_region_location d rs =
    (if too_long (1 + 1 + 2 * 8) rs then (RC_Overflow, rs)
     else
       (let rs = rs_put 0 [rl_region_type d AND 0xFF] rs;
            rs = rs_put 1 [rl_region_index d AND 0xFF] rs;
            rs = rs_put 2 (encode_address_big_endian (rl_start d)) rs;
            rs = rs_put (2 + 8) (encode_address_big_endian (rl_end d)) rs
        in (RC_OK, rs\<lparr>rs_data_length := 1 + 1 + 8 + 8\<rparr>)))"

definition encode_response_supported_features :: "supported_features \<Rightarrow> response \<Rightarrow> response_code \<times> response" where
  "encode_response_supported_features d rs =
    (if too_long 1 rs then (RC_Overflow, rs)
     else
       (RC_OK,
        (rs_put 0 [(if sf_memory_write d then 0x80 else 0) OR (if sf_datalogging d then 0x40 else 0)
                   OR (if sf_user_command d then 0x20 else 0) OR (if sf_64bits d then 0x10 else 0)] rs)
          \<lparr>rs_data_length := 1\<rparr>))"

text \<open>The cursor of the loop definition is a 16-bit counter that stays below 64 here.\<close>

definition encode_response_get_loop_definition :: "loop_definition \<Rightarrow> response \<Rightarrow> response_code \<times> response" where
  "encode_response_get_loop_definition d rs =
    (if too_long (1 + 1 + 1 + 1) rs then (RC_Overflow, rs)
     else
       (let rs = rs_put 0 [ld_loop_id d AND 0xFF] rs;
            rs = rs_put 1 [ld_loop_type d AND 0xFF] rs;
            rs = rs_put 2 [0] rs;
            rs = (if ld_support_datalogging d then rs_put 2 [rs_data rs ! 2 OR 0x80] rs else rs);
            cursor = 3;
            (code, cursor, rs) =
              (if ld_loop_type d = LoopType_FIXED_FREQ then
                 (if cursor + 4 > unat (rs_data_max_length rs) then (RC_Overflow, cursor, rs)
                  else (RC_OK, cursor + 4,
                        rs_put cursor (encode_32_bits_big_endian (ld_timestep_100ns d)) rs))
               else if ld_loop_type d = LoopType_VARIABLE_FREQ then (RC_OK, cursor, rs)
               else (RC_FailureToProceed, cursor, rs))
        in if code \<noteq> RC_OK then (code, rs)
           else
             (let loop_name_length = unat (ld_loop_name_length d);
                  loop_name_length = (if loop_name_length > MAX_LOOP_NAME_LENGTH
                                      then MAX_LOOP_NAME_LENGTH else loop_name_length)
              in if cursor + 1 + loop_name_length > unat (rs_data_max_length rs) then (RC_Overflow, rs)
                 else
                   (let rs = rs_put cursor [of_nat loop_name_length] rs;
                        cursor = cursor + 1;
                        rs = rs_put cursor (take loop_name_length (ld_loop_name d)) rs;
                        cursor = cursor + loop_name_length
                    in (RC_OK, rs\<lparr>rs_data_length := of_nat cursor\<rparr>)))))"

definition encode_response_get_rpv_count :: "u16 \<Rightarrow> response \<Rightarrow> response_code \<times> response" where
  "encode_response_get_rpv_count n rs =
    (if too_long 2 rs then (RC_Overflow, rs)
     else (RC_OK, (rs_put 0 (encode_16_bits_big_endian n) rs)\<lparr>rs_data_length := 2\<rparr>))"

definition encode_response_get_loop_count :: "u8 \<Rightarrow> response \<Rightarrow> response_code \<times> response" where
  "encode_response_get_loop_count n rs =
    (if too_long 1 rs then (RC_Overflow, rs)
     else (RC_OK, (rs_put 0 (encode_8_bits_8bits n) rs)\<lparr>rs_data_length := 1\<rparr>))"

text \<open>The display name is the string and the length of it that the caller computed.\<close>

definition encode_response_comm_discover ::
  "u8 list \<Rightarrow> u8 list \<Rightarrow> u8 \<Rightarrow> response \<Rightarrow> response_code \<times> response" where
  "encode_response_comm_discover software_id display_name display_name_length rs =
    (let display_name_length =
           (if unat display_name_length > MAX_DISPLAY_NAME_LENGTH then MAX_DISPLAY_NAME_LENGTH
            else unat display_name_length);
         datalen = 1 + 1 + 16 + 1 + display_name_length
     in if too_long datalen rs then (RC_Overflow, rs)
        else
          (let rs = rs\<lparr>rs_data_length := of_nat datalen\<rparr>;
               rs = rs_put 0 [1] rs;
               rs = rs_put 1 [0] rs;
               rs = rs_put 2 (take 16 software_id) rs;
               rs = rs_put 18 [of_nat display_name_length] rs;
               rs = rs_put 19 (take display_name_length display_name) rs
           in (RC_OK, rs)))"

definition encode_response_comm_heartbeat :: "u32 \<Rightarrow> u16 \<Rightarrow> response \<Rightarrow> response_code \<times> response" where
  "encode_response_comm_heartbeat session_id challenge_response rs =
    (if too_long (4 + 2) rs then (RC_Overflow, rs)
     else
       (let rs = rs\<lparr>rs_data_length := 6\<rparr>;
            rs = rs_put 0 (encode_32_bits_big_endian session_id) rs;
            rs = rs_put 4 (encode_16_bits_big_endian challenge_response) rs
        in (RC_OK, rs)))"

definition encode_response_comm_get_params :: "comm_params \<Rightarrow> response \<Rightarrow> response_code \<times> response" where
  "encode_response_comm_get_params d rs =
    (if too_long (2 + 2 + 4 + 4 + 4 + 1 + 1) rs then (RC_Overflow, rs)
     else
       (let rs = rs\<lparr>rs_data_length := 18\<rparr>;
            rs = rs_put 0 (encode_16_bits_big_endian (gp_data_rx_buffer_size d)) rs;
            rs = rs_put 2 (encode_16_bits_big_endian (gp_data_tx_buffer_size d)) rs;
            rs = rs_put 4 (encode_32_bits_big_endian (gp_max_bitrate d)) rs;
            rs = rs_put 8 (encode_32_bits_big_endian (gp_heartbeat_timeout d)) rs;
            rs = rs_put 12 (encode_32_bits_big_endian (gp_comm_rx_timeout d)) rs;
            rs = rs_put 16 (encode_8_bits_8bits (gp_address_size d)) rs;
            rs = rs_put 17 (encode_8_bits_8bits (gp_char_bit d)) rs
        in (RC_OK, rs)))"

definition encode_response_comm_connect :: "u8 list \<Rightarrow> u32 \<Rightarrow> response \<Rightarrow> response_code \<times> response" where
  "encode_response_comm_connect magic session_id rs =
    (if too_long (4 + 4) rs then (RC_Overflow, rs)
     else
       (let rs = rs\<lparr>rs_data_length := 8\<rparr>;
            rs = rs_put 0 (take 4 magic) rs;
            rs = rs_put 4 (encode_32_bits_big_endian session_id) rs
        in (RC_OK, rs)))"

definition encode_response_datalogging_get_setup :: "datalog_setup \<Rightarrow> response \<Rightarrow> response_code \<times> response" where
  "encode_response_datalogging_get_setup d rs =
    (if too_long (4 + 1 + 1) rs then (RC_Overflow, rs)
     else
       (let rs = rs_put 0 (encode_32_bits_big_endian (ds_buffer_size d)) rs;
            rs = rs_put 4 (encode_8_bits_8bits (ds_data_encoding d)) rs;
            rs = rs_put 5 (encode_8_bits_8bits (ds_max_signal_count d)) rs
        in (RC_OK, rs\<lparr>rs_data_length := 6\<rparr>)))"

definition encode_response_datalogging_status :: "datalog_status \<Rightarrow> response \<Rightarrow> response_code \<times> response" where
  "encode_response_datalogging_status d rs =
    (if too_long (1 + 4 + 4) rs then (RC_Overflow, rs)
     else
       (let rs = rs_put 0 (encode_8_bits_8bits (st_state d)) rs;
            rs = rs_put 1 (encode_32_bits_big_endian (st_bytes_to_acquire_from_trigger_to_completion d)) rs;
            rs = rs_put 5 (encode_32_bits_big_endian (st_write_counter_since_trigger d)) rs
        in (RC_OK, rs\<lparr>rs_data_length := 9\<rparr>)))"

definition encode_response_datalogging_get_acquisition_metadata ::
  "acquisition_metadata \<Rightarrow> response \<Rightarrow> response_code \<times> response" where
  "encode_response_datalogging_get_acquisition_metadata d rs =
    (if too_long (2 + 2 + 4 + 4 + 4) rs then (RC_Overflow, rs)
     else
       (let rs = rs_put 0 (encode_16_bits_big_endian (am_acquisition_id d)) rs;
            rs = rs_put 2 (encode_16_bits_big_endian (am_config_id d)) rs;
            rs = rs_put 4 (encode_32_bits_big_endian (am_number_of_points d)) rs;
            rs = rs_put 8 (encode_32_bits_big_endian (am_data_size d)) rs;
            rs = rs_put 12 (encode_32_bits_big_endian (am_points_after_trigger d)) rs
        in (RC_OK, rs\<lparr>rs_data_length := 16\<rparr>)))"

section \<open>Decoders\<close>

text \<open>A decoder that refuses the request leaves the structure \<open>d\<close> that it should fill as it was.\<close>

definition decode_request_get_special_memory_region_location :: "request \<Rightarrow> u8 \<times> u8 \<Rightarrow> response_code \<times> u8 \<times> u8" where
  "decode_request_get_special_memory_region_location rq d =
    (if rq_data_length rq \<noteq> 2 then (RC_InvalidRequest, d)
     else (RC_OK, rq_data rq ! 0 AND 0xFF, rq_data rq ! 1 AND 0xFF))"

definition decode_request_get_rpv_definition :: "request \<Rightarrow> u16 \<times> u16 \<Rightarrow> response_code \<times> u16 \<times> u16" where
  "decode_request_get_rpv_definition rq d =
    (if rq_data_length rq \<noteq> 2 + 2 then (RC_InvalidRequest, d)
     else (RC_OK, decode_16_bits_big_endian (rq_data rq), decode_16_bits_big_endian (drop 2 (rq_data rq))))"

definition decode_request_get_loop_definition :: "request \<Rightarrow> u8 \<Rightarrow> response_code \<times> u8" where
  "decode_request_get_loop_definition rq d =
    (if rq_data_length rq \<noteq> 1 then (RC_InvalidRequest, d) else (RC_OK, rq_data rq ! 0))"

definition decode_request_comm_discover :: "request \<Rightarrow> response_code" where
  "decode_request_comm_discover rq =
    (if unat (rq_data_length rq) \<noteq> length DISCOVER_MAGIC then RC_InvalidRequest
     else if take (length DISCOVER_MAGIC) (rq_data rq) \<noteq> DISCOVER_MAGIC then RC_InvalidRequest
     else RC_OK)"

definition decode_request_comm_heartbeat :: "request \<Rightarrow> u32 \<times> u16 \<Rightarrow> response_code \<times> u32 \<times> u16" where
  "decode_request_comm_heartbeat rq d =
    (if rq_data_length rq \<noteq> 4 + 2 then (RC_InvalidRequest, d)
     else (RC_OK, decode_32_bits_big_endian (rq_data rq), decode_16_bits_big_endian (drop 4 (rq_data rq))))"

text \<open>The magic is copied and not looked at.\<close>

definition decode_request_comm_connect :: "request \<Rightarrow> u8 list \<Rightarrow> response_code \<times> u8 list" where
  "decode_request_comm_connect rq d =
    (if unat (rq_data_length rq) \<noteq> length CONNECT_MAGIC then (RC_InvalidRequest, d)
     else (RC_OK, take (length CONNECT_MAGIC) (rq_data rq)))"

definition decode_request_comm_disconnect :: "request \<Rightarrow> u32 \<Rightarrow> response_code \<times> u32" where
  "decode_request_comm_disconnect rq d =
    (if rq_data_length rq \<noteq> 4 then (RC_InvalidRequest, d)
     else (RC_OK, decode_32_bits_big_endian (rq_data rq)))"

section \<open>Layouts\<close>

text \<open>What the communication handler guarantees of the response that it prepares.\<close>

definition rs_ready :: "response \<Rightarrow> bool" where
  "rs_ready rs =
    (32 \<le> unat (rs_data_max_length rs) \<and> unat (rs_data_max_length rs) \<le> length (rs_data rs))"

lemma rs_put_fields [simp]:
  "rs_data_length (rs_put pos bs rs) = rs_data_length rs"
  "rs_data_max_length (rs_put pos bs rs) = rs_data_max_length rs"
  "rs_command_id (rs_put pos bs rs) = rs_command_id rs"
  "rs_subfunction_id (rs_put pos bs rs) = rs_subfunction_id rs"
  "rs_response_code (rs_put pos bs rs) = rs_response_code rs"
  "rs_put pos bs (rs\<lparr>rs_data_length := n\<rparr>) = (rs_put pos bs rs)\<lparr>rs_data_length := n\<rparr>"
  by (simp_all add: rs_put_def)

lemma rs_put_data: "rs_data (rs_put pos bs rs) = blit (rs_data rs) pos bs"
  by (simp add: rs_put_def)

text \<open>Copies that follow each other from the start are one copy.\<close>

lemma rs_put_put:
  "pos' = pos + length xs \<Longrightarrow> pos + length xs + length ys \<le> length (rs_data rs) \<Longrightarrow>
    rs_put pos' ys (rs_put pos xs rs) = rs_put pos (xs @ ys) rs"
  by (simp add: rs_put_def blit_append)

lemma length_rs_put: "pos + length bs \<le> length (rs_data rs) \<Longrightarrow> length (rs_data (rs_put pos bs rs)) = length (rs_data rs)"
  by (simp add: rs_put_def)

lemma rs_put_payload:
  "n = length bs \<Longrightarrow> n < 65536 \<Longrightarrow> n \<le> length (rs_data rs) \<Longrightarrow>
    response_payload ((rs_put 0 bs rs)\<lparr>rs_data_length := of_nat n\<rparr>) = bs"
  by (simp add: response_payload_def rs_put_data blit_def)

end
