(* ===== verification/DatalogControl.thy ===== *)
theory DatalogControl
  imports LoopHandler ConfigureCodec ResponseCodec
begin

text \<open>
  The main handler's side of the datalogger, in \<open>lib/src/scrutiny_main_handler.cpp\<close>: the messages
  it gets from the loop handlers (\<open>process_datalogging_loop_msg\<close>), the handing over of the ownership
  (\<open>process_datalogging_logic\<close>) and the requests of the service (\<open>process_datalog_control\<close>), with
  the response that carries a piece of an acquisition
  (\<open>encode_response_datalogging_read_acquisition\<close> of the codec).
\<close>

section \<open>State\<close>

datatype datalogging_error = NoError | UnexpectedRelease | UnexpectedClaim

text \<open>The structure \<open>m_datalogging\<close>; the first three fields after the datalogger are \<open>threadsafe_data\<close>.\<close>

record 'u datalogging =
  md_datalogger :: "'u datalogger"
  md_bytes_to_acquire_from_trigger_to_completion :: u32
  md_write_counter_since_trigger :: u32
  md_datalogger_state :: dl_state
  md_owner :: "loop_ref option"
  md_new_owner :: "loop_ref option"
  md_read_acquisition_crc :: u32
  md_read_acquisition_rolling_counter :: u8
  md_error :: datalogging_error
  md_request_arm_trigger :: bool
  md_request_ownership_release :: bool
  md_request_disarm_trigger :: bool
  md_pending_ownership_release :: bool
  md_reading_in_progress :: bool

definition on_datalogger :: "('u datalogger \<Rightarrow> 'u datalogger) \<Rightarrow> 'u datalogging \<Rightarrow> 'u datalogging" where
  "on_datalogger f d = d\<lparr>md_datalogger := f (md_datalogger d)\<rparr>"

definition datalogging_data_available :: "'u datalogging \<Rightarrow> bool" where
  "datalogging_data_available d = (md_datalogger_state d = DL_AcquisitionCompleted)"

definition datalogging_in_error :: "'u datalogging \<Rightarrow> bool" where
  "datalogging_in_error d = (md_datalogger_state d = DL_Error \<or> md_error d \<noteq> NoError)"

definition datalogging_ownership_taken :: "'u datalogging \<Rightarrow> bool" where
  "datalogging_ownership_taken d = (\<not> Option.is_none (md_owner d))"

definition datalogging_init :: "'u config \<Rightarrow> 'u datalogging \<Rightarrow> 'u datalogging" where
  "datalogging_init cf d =
    (let d = on_datalogger (dl_init cf (cf_datalogger_buffer cf) (cf_datalogger_buffer_size cf) (cf_trigger_callback cf)) d
     in d\<lparr>md_owner := None, md_new_owner := None, md_error := NoError, md_request_arm_trigger := False,
          md_request_ownership_release := False, md_pending_ownership_release := False,
          md_request_disarm_trigger := False, md_reading_in_progress := False,
          md_read_acquisition_rolling_counter := 0,
          md_datalogger_state := dl_state (md_datalogger d),
          md_bytes_to_acquire_from_trigger_to_completion := 0, md_write_counter_since_trigger := 0\<rparr>)"

section \<open>Messages and ownership\<close>

definition process_datalogging_loop_msg :: "loop_ref \<Rightarrow> loop2main_message \<Rightarrow> 'u datalogging \<Rightarrow> 'u datalogging" where
  "process_datalogging_loop_msg sender msg d =
    (case msg of
       DATALOGGER_OWNERSHIP_TAKEN \<Rightarrow>
         (if md_owner d \<noteq> None then d\<lparr>md_error := UnexpectedClaim\<rparr> else d)\<lparr>md_owner := Some sender\<rparr>
     | DATALOGGER_OWNERSHIP_RELEASED \<Rightarrow>
         (let d = (if Some sender \<noteq> md_owner d then d\<lparr>md_error := UnexpectedRelease\<rparr> else d)
          in on_datalogger dl_reset (d\<lparr>md_owner := None, md_pending_ownership_release := False\<rparr>))
     | DATALOGGER_STATUS_UPDATE state bytes counter \<Rightarrow>
         (let d = d\<lparr>md_datalogger_state := state, md_bytes_to_acquire_from_trigger_to_completion := bytes,
                md_write_counter_since_trigger := counter\<rparr>
          in if md_datalogger_state d \<noteq> DL_AcquisitionCompleted then d\<lparr>md_reading_in_progress := False\<rparr> else d)
     | DATALOGGER_DATA_ACQUIRED \<Rightarrow> d)"

definition main_send :: "loop_ref \<Rightarrow> main2loop_message \<Rightarrow> loops \<Rightarrow> loops" where
  "main_send l msg loops =
    loops(l := (loops l)\<lparr>lp_main2loop_msg := ipc_send msg (lp_main2loop_msg (loops l))\<rparr>)"

definition process_datalogging_logic :: "'u datalogging \<Rightarrow> loops \<Rightarrow> 'u datalogging \<times> loops" where
  "process_datalogging_logic d loops =
    (if md_error d \<noteq> NoError then (d, loops)
     else case md_owner d of
       None \<Rightarrow>
         (let d = d\<lparr>md_datalogger_state := dl_state (md_datalogger d)\<rparr>;
              (d, loops) =
                (case md_new_owner d of
                   None \<Rightarrow> (d, loops)
                 | Some l \<Rightarrow>
                     if \<not> ipc_has_content (lp_main2loop_msg (loops l))
                     then (d\<lparr>md_new_owner := None\<rparr>, main_send l TAKE_DATALOGGER_OWNERSHIP loops)
                     else (d, loops))
          in (d\<lparr>md_request_arm_trigger := False, md_request_disarm_trigger := False\<rparr>, loops))
     | Some l \<Rightarrow>
         if \<not> ipc_has_content (lp_main2loop_msg (loops l)) then
           (if md_request_ownership_release d
            then (d\<lparr>md_request_ownership_release := False, md_pending_ownership_release := True\<rparr>,
                  main_send l RELEASE_DATALOGGER_OWNERSHIP loops)
            else if md_request_arm_trigger d
            then (d\<lparr>md_request_arm_trigger := False\<rparr>, main_send l DATALOGGER_ARM_TRIGGER loops)
            else if md_request_disarm_trigger d
            then (d\<lparr>md_request_disarm_trigger := False\<rparr>, main_send l DATALOGGER_DISARM_TRIGGER loops)
            else (d, loops))
         else (d, loops))"

text \<open>One message of each loop, in the order of the configuration.\<close>

fun process_loops :: "loop_ref list \<Rightarrow> 'u datalogging \<Rightarrow> loops \<Rightarrow> 'u datalogging \<times> loops" where
  "process_loops [] d loops = (d, loops)"
| "process_loops (l # ls) d loops =
    (if ipc_has_content (lp_loop2main_msg (loops l)) then
       (case ipc_pop (lp_loop2main_msg (loops l)) of (msg, box) \<Rightarrow>
          process_loops ls (process_datalogging_loop_msg l msg d) (loops(l := (loops l)\<lparr>lp_loop2main_msg := box\<rparr>)))
     else process_loops ls d loops)"

section \<open>A piece of an acquisition\<close>

record read_acquisition =
  ra_acquisition_id :: u16
  ra_rolling_counter :: u8
  ra_encoder :: raw_encoder
  ra_crc :: u32

text \<open>
  The reader and the CRC behind the pointers are returned as they are left, with \<open>finished\<close>. The test
  \<open>data_length <= data_max_length - 4\<close> is made on \<open>int\<close>.
\<close>

definition encode_response_datalogging_read_acquisition ::
  "read_acquisition \<Rightarrow> response \<Rightarrow> (response_code \<times> bool \<times> read_acquisition \<times> response) option" where
  "encode_response_datalogging_read_acquisition d rs =
    (if too_long 16 rs then Some (RC_Overflow, False, d, rs)
     else
       let rs = rs_put 1 (encode_8_bits_8bits (ra_rolling_counter d)) rs;
           rs = rs_put 2 (encode_16_bits_big_endian (ra_acquisition_id d)) rs
       in case read_dilate_8bits (ucast (rs_data_max_length rs) - 4) (ra_encoder d) of
            None \<Rightarrow> None
          | Some (bs, e) \<Rightarrow>
              (let nread = of_nat (length bs) :: u32;
                   rs = (rs_put 4 bs rs)\<lparr>rs_data_length := ucast (nread + 4)\<rparr>;
                   crc = crc32 bs (ra_crc d);
                   finished = (reader_finished e
                      \<and> unat (rs_data_length rs) + 4 \<le> unat (rs_data_max_length rs));
                   rs = (if finished
                         then (rs_put (unat (rs_data_length rs)) (encode_32_bits_big_endian crc) rs)
                                \<lparr>rs_data_length := rs_data_length rs + 4\<rparr>
                         else rs);
                   rs = rs_put 0 (encode_8_bits_8bits (if finished then 1 else 0)) rs
               in Some (RC_OK, finished, d\<lparr>ra_encoder := e, ra_crc := crc\<rparr>, rs)))"

section \<open>Requests\<close>

primrec dl_state_byte :: "dl_state \<Rightarrow> u8" where
  "dl_state_byte DL_Idle = 0"
| "dl_state_byte DL_Configured = 1"
| "dl_state_byte DL_Armed = 2"
| "dl_state_byte DL_Triggered = 3"
| "dl_state_byte DL_AcquisitionCompleted = 4"
| "dl_state_byte DL_Error = 5"

text \<open>The loops over the operands and the items stop at the first that is refused.\<close>

definition rpv_usable :: "'u config \<Rightarrow> u16 \<Rightarrow> bool" where
  "rpv_usable cf i = (is_read_published_values_configured cf \<and> \<not> Option.is_none (get_rpv cf i))"

fun check_operands :: "'u config \<Rightarrow> operand list \<Rightarrow> response_code \<Rightarrow> response_code" where
  "check_operands cf [] code = code"
| "check_operands cf (opd # opds) code =
    (if op_type opd = OperandType_Var then
       (if touches_forbidden_region cf (op_addr opd) (unat (get_type_size_char (op_datatype opd)))
        then RC_Forbidden else check_operands cf opds code)
     else if op_type opd = OperandType_VarBit then
       (if touches_forbidden_region cf (op_addr opd) (unat (get_type_size_char (op_datatype opd)))
        then RC_Forbidden else check_operands cf opds code)
     else if op_type opd = OperandType_Rpv then
       (if \<not> rpv_usable cf (op_rpv_id opd) then RC_FailureToProceed else check_operands cf opds code)
     else check_operands cf opds code)"

fun check_items :: "'u config \<Rightarrow> loggable_item list \<Rightarrow> response_code \<Rightarrow> response_code" where
  "check_items cf [] code = code"
| "check_items cf (item # items) code =
    (if it_type item = LoggableType_Memory then
       (if touches_forbidden_region cf (it_address item) (unat (it_size item))
        then RC_Forbidden else check_items cf items code)
     else if it_type item = LoggableType_Rpv then
       (if \<not> rpv_usable cf (it_rpv_id item) then RC_FailureToProceed else check_items cf items code)
     else check_items cf items code)"

definition request_release :: "'u datalogging \<Rightarrow> 'u datalogging" where
  "request_release d =
    (if \<not> md_pending_ownership_release d then d\<lparr>md_request_ownership_release := True\<rparr> else d)"

text \<open>A datalogger that a loop owns is released before the configuration is written into it.\<close>

definition datalog_configure ::
  "'u config \<Rightarrow> loops \<Rightarrow> request \<Rightarrow> 'u datalogging \<Rightarrow> response_code \<times> 'u datalogging" where
  "datalog_configure cf loops rq d =
    (let d = d\<lparr>md_reading_in_progress := False\<rparr>
     in if md_owner d \<noteq> None then (RC_ProcessAgain, request_release d)
        else
          case decode_datalogging_configure_request rq (0, 0) (dl_config (md_datalogger d)) of
            (code, (loop_id, config_id), dc) \<Rightarrow>
              let d = on_datalogger (\<lambda>dl. dl\<lparr>dl_config := dc\<rparr>) d
              in if code \<noteq> RC_OK then (code, d)
                 else if loop_id \<ge> cf_loop_count cf then (RC_FailureToProceed, d)
                 else
                   let l = the (cf_loops cf) ! unat loop_id
                   in if \<not> datalogging_allowed (loops l) then (RC_Forbidden, d)
                      else
                        let code = check_items cf (dc_items dc) (check_operands cf (dc_operands dc) code)
                        in if code \<noteq> RC_OK then (code, d)
                           else
                             let d = on_datalogger (dl_configure cf (Some l) config_id) d
                             in if dl_config_valid (md_datalogger d) then (RC_OK, d\<lparr>md_new_owner := Some l\<rparr>)
                                else (RC_InvalidRequest, d))"

definition datalog_get_status :: "'u datalogging \<Rightarrow> response \<Rightarrow> response_code \<times> response" where
  "datalog_get_status d rs =
    encode_response_datalogging_status
      \<lparr>st_state = dl_state_byte (md_datalogger_state d),
       st_bytes_to_acquire_from_trigger_to_completion = md_bytes_to_acquire_from_trigger_to_completion d,
       st_write_counter_since_trigger = md_write_counter_since_trigger d\<rparr> rs"

definition datalog_get_acquisition_metadata :: "'u datalogging \<Rightarrow> response \<Rightarrow> response_code \<times> response" where
  "datalog_get_acquisition_metadata d rs =
    (if \<not> datalogging_data_available d then (RC_FailureToProceed, rs)
     else
       let dl = md_datalogger d
       in encode_response_datalogging_get_acquisition_metadata
            \<lparr>am_acquisition_id = dl_acquisition_id dl, am_config_id = dl_config_id dl,
             am_number_of_points = get_entry_count (dl_encoder dl),
             am_data_size = get_total_size_char (dl_encoder dl),
             am_points_after_trigger = dl_log_points_after_trigger dl\<rparr> rs)"

definition datalog_read_acquisition ::
  "'u datalogging \<Rightarrow> response \<Rightarrow> (response_code \<times> 'u datalogging \<times> response) option" where
  "datalog_read_acquisition d rs =
    (if md_owner d = None then Some (RC_FailureToProceed, d, rs)
     else if datalogging_data_available d then
       (let d = (if md_reading_in_progress d then d
                 else (on_datalogger (\<lambda>dl. dl\<lparr>dl_encoder := reader_reset (dl_encoder dl)\<rparr>) d)
                   \<lparr>md_reading_in_progress := True, md_read_acquisition_rolling_counter := 0,
                    md_read_acquisition_crc := 0\<rparr>)
        in case encode_response_datalogging_read_acquisition
                  \<lparr>ra_acquisition_id = dl_acquisition_id (md_datalogger d),
                   ra_rolling_counter = md_read_acquisition_rolling_counter d,
                   ra_encoder = dl_encoder (md_datalogger d), ra_crc = md_read_acquisition_crc d\<rparr> rs of
             None \<Rightarrow> None
           | Some (code, finished, ra, rs) \<Rightarrow>
               (let d = (on_datalogger (\<lambda>dl. dl\<lparr>dl_encoder := ra_encoder ra\<rparr>) d)
                      \<lparr>md_read_acquisition_crc := ra_crc ra,
                       md_read_acquisition_rolling_counter := (md_read_acquisition_rolling_counter d + 1) AND 0xFF\<rparr>
                in Some (code,
                     if code \<noteq> RC_OK \<or> finished then d\<lparr>md_reading_in_progress := False\<rparr> else d, rs)))
     else Some (RC_FailureToProceed, d\<lparr>md_reading_in_progress := False\<rparr>, rs))"

definition datalog_reset :: "'u datalogging \<Rightarrow> response_code \<times> 'u datalogging" where
  "datalog_reset d =
    (if md_owner d \<noteq> None then (RC_ProcessAgain, request_release d)
     else (RC_OK, on_datalogger dl_reset d))"

definition datalog_arm_trigger :: "'u datalogging \<Rightarrow> response_code \<times> 'u datalogging" where
  "datalog_arm_trigger d =
    (if md_owner d = None \<or> md_pending_ownership_release d then (RC_FailureToProceed, d)
     else (RC_OK, d\<lparr>md_request_arm_trigger := True\<rparr>))"

definition datalog_disarm_trigger :: "'u datalogging \<Rightarrow> response_code \<times> 'u datalogging" where
  "datalog_disarm_trigger d =
    (if md_owner d = None \<or> md_pending_ownership_release d then (RC_FailureToProceed, d)
     else (RC_OK, d\<lparr>md_request_disarm_trigger := True\<rparr>))"

abbreviation (input) EncodingType_RAW :: u8 where "EncodingType_RAW \<equiv> 0"

definition process_datalog_control ::
  "'u config \<Rightarrow> loops \<Rightarrow> request \<Rightarrow> 'u datalogging \<Rightarrow> response \<Rightarrow>
   (response_code \<times> 'u datalogging \<times> response) option" where
  "process_datalog_control cf loops rq d rs =
    (let sub = rq_subfunction_id rq
     in if \<not> is_datalogging_configured cf then Some (RC_UnsupportedFeature, d, rs)
        else if sub = DataLogControl_GetSetup then
          (case encode_response_datalogging_get_setup
                  \<lparr>ds_buffer_size = cf_datalogger_buffer_size cf, ds_data_encoding = EncodingType_RAW,
                   ds_max_signal_count = of_nat DATALOGGING_MAX_SIGNAL\<rparr> rs of (code, rs) \<Rightarrow> Some (code, d, rs))
        else if sub = DataLogControl_Configure then
          (case datalog_configure cf loops rq d of (code, d) \<Rightarrow>
             Some (code, if code \<noteq> RC_OK \<and> code \<noteq> RC_ProcessAgain then on_datalogger dl_reset d else d, rs))
        else if sub = DataLogControl_ArmTrigger then
          (case datalog_arm_trigger d of (code, d) \<Rightarrow> Some (code, d, rs))
        else if sub = DataLogControl_DisarmTrigger then
          (case datalog_disarm_trigger d of (code, d) \<Rightarrow> Some (code, d, rs))
        else if sub = DataLogControl_GetStatus then
          (case datalog_get_status d rs of (code, rs) \<Rightarrow> Some (code, d, rs))
        else if sub = DataLogControl_GetAcquisitionMetadata then
          (case datalog_get_acquisition_metadata d rs of (code, rs) \<Rightarrow> Some (code, d, rs))
        else if sub = DataLogControl_ReadAcquisition then datalog_read_acquisition d rs
        else if sub = DataLogControl_ResetDatalogger then
          (case datalog_reset d of (code, d) \<Rightarrow> Some (code, d, rs))
        else Some (RC_UnsupportedFeature, d, rs))"

end
