(* ===== verification/AcquisitionRing.thy ===== *)
theory AcquisitionRing
  imports RawEncoder
begin

text \<open>
  The ring of \<open>RawEncoder\<close> seen from outside: an acquisition format is what the download service
  relies on, a store of entries that is rewound and then read in pieces. The raw format is an
  interpretation: the ring holds the last entries that were encoded, and its reader hands out
  what lies between its cursor and the write cursor, through the end of the ring.
\<close>

section \<open>Interface: an acquisition format\<close>

text \<open>Reads of the given sizes, one after the other.\<close>

fun read_all :: "(u32 \<Rightarrow> 'e \<Rightarrow> (u8 list \<times> 'e) option) \<Rightarrow> u32 list \<Rightarrow> 'e \<Rightarrow> (u8 list \<times> 'e) option" where
  "read_all read_next [] e = Some ([], e)"
| "read_all read_next (k # ks) e = Option.bind (read_next k e)
    (\<lambda>(bs, e). map_option (\<lambda>(cs, e). (bs @ cs, e)) (read_all read_next ks e))"

locale acquisition_format =
  fixes holds :: "'e \<Rightarrow> u8 list list \<Rightarrow> bool"
    and capacity :: "'e \<Rightarrow> nat"
    and rewind :: "'e \<Rightarrow> 'e"
    and pending :: "'e \<Rightarrow> u8 list \<Rightarrow> bool"
    and read_next :: "u32 \<Rightarrow> 'e \<Rightarrow> (u8 list \<times> 'e) option"
    and at_end :: "'e \<Rightarrow> bool"
  assumes rewind_pending: "holds e hist \<Longrightarrow> hist \<noteq> [] \<Longrightarrow>
      pending (rewind e) (concat (drop (length hist - capacity e) hist))"
    and read_pending: "pending e bs \<Longrightarrow> \<exists>e'. read_next k e = Some (take (unat k) bs, e')
      \<and> pending e' (drop (unat k) bs) \<and> (0 < k \<longrightarrow> at_end e' = (length bs \<le> unat k))"
begin

lemma read_all_pending:
  "pending e bs \<Longrightarrow> \<exists>e'. read_all read_next ks e = Some (take (sum_list (map unat ks)) bs, e')
    \<and> pending e' (drop (sum_list (map unat ks)) bs)"
proof (induction ks arbitrary: e bs)
  case Nil
  then show ?case by simp
next
  case (Cons k ks)
  from read_pending [OF Cons.prems, of k] obtain e1 where
    "read_next k e = Some (take (unat k) bs, e1)" "pending e1 (drop (unat k) bs)" by blast
  with Cons.IH [of e1 "drop (unat k) bs"] show ?case
    by (auto simp: take_add add.commute)
qed

lemma acquired_is_read:
  assumes "holds e hist" "hist \<noteq> []"
  shows "\<exists>e'. read_all read_next ks (rewind e) =
    Some (take (sum_list (map unat ks)) (concat (drop (length hist - capacity e) hist)), e')"
  using read_all_pending [OF rewind_pending [OF assms]] by blast

end

section \<open>What the reader still has to hand out\<close>

text \<open>From a cursor to the write cursor, through the end of the ring when the latter is not ahead.\<close>

definition ring_rest :: "'a list \<Rightarrow> nat \<Rightarrow> nat \<Rightarrow> nat \<Rightarrow> 'a list" where
  "ring_rest buf wr en rd =
    (if wr > rd then take (wr - rd) (drop rd buf) else take (en - rd) (drop rd buf) @ take wr buf)"

lemma length_ring_rest:
  "wr < en \<Longrightarrow> rd < en \<Longrightarrow> en \<le> length buf \<Longrightarrow>
    length (ring_rest buf wr en rd) = (if wr > rd then wr - rd else en - rd + wr)"
  by (simp add: ring_rest_def)

lemma ring_turn:
  fixes buf :: "'a list"
  assumes "wr < en" "rd < en" "en \<le> length buf" "0 < m"
  defines "t \<equiv> min ((if wr > rd then wr else en) - rd) m"
  defines "rd' \<equiv> (if rd + t > wr \<and> rd + t \<ge> en then rd + t - en else rd + t)"
  shows "0 < t" "take t (drop rd buf) = take t (ring_rest buf wr en rd)"
    "rd' < en" "t \<le> length (ring_rest buf wr en rd)"
    "rd' = wr \<Longrightarrow> drop t (ring_rest buf wr en rd) = []"
    "rd' \<noteq> wr \<Longrightarrow> ring_rest buf wr en rd' = drop t (ring_rest buf wr en rd)"
proof -
  note defs = t_def rd'_def ring_rest_def
  show t0: "0 < t" using assms(1-4) by (auto simp: t_def)
  have tle: "t \<le> (if wr > rd then wr else en) - rd" by (simp add: t_def)
  show "take t (drop rd buf) = take t (ring_rest buf wr en rd)"
    using tle assms(1-3) by (auto simp: ring_rest_def min_def)
  show "rd' < en" using tle assms(1,2) by (auto simp: rd'_def split: if_splits)
  show "t \<le> length (ring_rest buf wr en rd)"
    using tle assms(1-3) by (auto simp: ring_rest_def split: if_splits)
  show "rd' = wr \<Longrightarrow> drop t (ring_rest buf wr en rd) = []"
    using tle t0 assms(1-3) by (auto simp: ring_rest_def rd'_def split: if_splits)
  show "rd' \<noteq> wr \<Longrightarrow> ring_rest buf wr en rd' = drop t (ring_rest buf wr en rd)"
    using tle t0 assms(1-3)
    by (auto simp: ring_rest_def rd'_def drop_take algebra_simps split: if_splits)
qed

text \<open>One call of the reader hands out the next part of the pending bytes and always ends.\<close>

definition reader_at :: "u8 list \<Rightarrow> u32 \<Rightarrow> u32 \<Rightarrow> raw_reader \<Rightarrow> u8 list \<Rightarrow> bool" where
  "reader_at buf wr en rd bs =
    (rr_read_cursor rd < en \<and> bs = ring_rest buf (unat wr) (unat en) (unat (rr_read_cursor rd)))"

lemma unat_add_below: "unat a + unat b \<le> unat c \<Longrightarrow> unat (a + b) = unat a + unat b"
  for a b c :: "'a::len word"
proof -
  assume "unat a + unat b \<le> unat c"
  also have "unat c < 2 ^ LENGTH('a)" by (rule unsigned_less)
  finally show ?thesis by (simp add: unat_word_ariths)
qed

lemma unat_min: "unat (min a b) = min (unat a) (unat b)" for a b :: "'a::len word"
  by (simp add: min_def word_le_nat_alt)

lemma read_loop_hands_out:
  assumes "wr < en" "unat en \<le> length buf" "oc \<le> mx" "reader_at buf wr en rd bs"
  shows "\<exists>rd'. read_loop buf wr en mx oc out rd = Some (out @ take (unat (mx - oc)) bs, rd')
    \<and> (if oc = mx then rd' = rd
       else rr_read_started rd'
         \<and> (if length bs \<le> unat (mx - oc) then rr_finished rd' \<and> rr_read_cursor rd' = wr
            else rr_finished rd' = rr_finished rd \<and> rr_read_cursor rd' \<noteq> wr
              \<and> reader_at buf wr en rd' (drop (unat (mx - oc)) bs)))"
  using assms(3,4)
proof (induction "unat (mx - oc)" arbitrary: oc out rd bs rule: less_induct)
  case less
  show ?case
  proof (cases "oc = mx")
    case True
    then show ?thesis by (subst read_loop.simps) simp
  next
    case False
    with less.prems have lt: "oc < mx" by simp
    define read where "read = rr_read_cursor rd"
    define t where "t = min ((if wr > read then wr else en) - read) (mx - oc)"
    define read1 where "read1 = read + t"
    define read2 where "read2 = (if read1 > wr \<and> read1 \<ge> en then read1 - en else read1)"
    have rd: "read < en" and bs: "bs = ring_rest buf (unat wr) (unat en) (unat read)"
      using less.prems by (simp_all add: reader_at_def read_def)
    have sub: "unat (mx - oc) = unat mx - unat oc"
      using lt by (intro unat_sub_no_wrap) simp
    have nw: "unat wr < unat en" "unat read < unat en" "unat en < 4294967296" "0 < unat (mx - oc)"
      using assms(1) rd lt sub by (simp_all add: word_less_nat_alt)
    have t: "unat t = min ((if unat wr > unat read then unat wr else unat en) - unat read) (unat (mx - oc))"
      using rd assms(1) by (auto simp: t_def unat_min unat_sub_no_wrap word_less_nat_alt word_le_nat_alt)
    have tl: "unat t \<le> unat en - unat read"
      using nw t by auto
    have r1: "unat read1 = unat read + unat t"
      unfolding read1_def by (rule unat_add_below [of _ _ en]) (use nw tl in linarith)
    have r2: "unat read2 = (if unat read + unat t > unat wr \<and> unat read + unat t \<ge> unat en
        then unat read + unat t - unat en else unat read + unat t)"
      using r1 by (simp add: read2_def word_less_nat_alt word_le_nat_alt unat_sub_no_wrap)
    have turn: "0 < unat t" "take (unat t) (drop (unat read) buf) = take (unat t) bs"
      "unat read2 < unat en" "unat t \<le> length bs"
      "unat read2 = unat wr \<Longrightarrow> drop (unat t) bs = []"
      "unat read2 \<noteq> unat wr \<Longrightarrow> ring_rest buf (unat wr) (unat en) (unat read2) = drop (unat t) bs"
      using ring_turn [OF nw(1) nw(2) assms(2) nw(4)] unfolding t [symmetric] r2 [symmetric] bs by auto
    have tm: "unat t \<le> unat (mx - oc)" using t by simp
    have tw: "t \<le> mx - oc" using tm by (simp add: word_le_nat_alt)
    have oc': "unat (mx - (oc + t)) = unat (mx - oc) - unat t"
      using unat_sub_no_wrap [OF tw] by (simp only: diff_diff_eq)
    have oct: "unat (oc + t) = unat oc + unat t"
      by (rule unat_add_below [of _ _ mx]) (use tm sub lt in \<open>simp add: word_less_nat_alt\<close>)
    have ocle: "oc + t \<le> mx"
      using tm sub lt oct by (simp add: word_le_nat_alt word_less_nat_alt)
    define rd1 where "rd1 = rd\<lparr>rr_read_cursor := read2, rr_read_started := True\<rparr>"
    have unf: "read_loop buf wr en mx oc out rd =
      (if read2 = wr then Some (out @ take (unat t) bs, rd1\<lparr>rr_finished := True\<rparr>)
       else read_loop buf wr en mx (oc + t) (out @ take (unat t) bs) rd1)"
      by (subst read_loop.simps, unfold Let_def, fold read_def, fold t_def, fold read1_def,
          fold read2_def, fold rd1_def) (use lt turn(2) in simp)
    show ?thesis
    proof (cases "read2 = wr")
      case True
      with turn(4,5) have len: "length bs = unat t" by simp
      with tm show ?thesis using True False by (simp add: unf rd1_def)
    next
      case neq: False
      then have at: "reader_at buf wr en rd1 (drop (unat t) bs)"
        using turn(3,6) by (simp add: reader_at_def rd1_def word_less_nat_alt word_unat_eq_iff)
      have "unat (mx - (oc + t)) < unat (mx - oc)"
        using oc' turn(1) nw(4) by simp
      from less.hyps [OF this ocle at, of "out @ take (unat t) bs"]
      obtain rd' where ih: "read_loop buf wr en mx (oc + t) (out @ take (unat t) bs) rd1 =
          Some ((out @ take (unat t) bs) @ take (unat (mx - (oc + t))) (drop (unat t) bs), rd')"
        and st: "if oc + t = mx then rd' = rd1
          else rr_read_started rd'
            \<and> (if length (drop (unat t) bs) \<le> unat (mx - (oc + t))
               then rr_finished rd' \<and> rr_read_cursor rd' = wr
               else rr_finished rd' = rr_finished rd1 \<and> rr_read_cursor rd' \<noteq> wr
                 \<and> reader_at buf wr en rd' (drop (unat (mx - (oc + t))) (drop (unat t) bs)))"
        by blast
      have glue: "take (unat t) bs @ take (unat (mx - oc) - unat t) (drop (unat t) bs) = take (unat (mx - oc)) bs"
        using tm by (metis le_add_diff_inverse take_add)
      have lb: "drop (unat t) bs \<noteq> []"
        using turn(3,6) neq assms nw length_ring_rest [of "unat wr" "unat en" "unat read2" buf]
        by (auto simp: word_unat_eq_iff split: if_splits)
      have full: "oc + t = mx \<longleftrightarrow> unat (mx - oc) = unat t"
        using oct sub lt tm by (auto simp: word_unat_eq_iff word_less_nat_alt)
      show ?thesis
        using st ih glue lb neq False tm at
        by (auto simp: unf oc' full rd1_def split: if_splits)
    qed
  qed
qed

section \<open>Sizes and cursors of a sound encoder\<close>

definition ring_ok :: "raw_encoder \<Rightarrow> bool" where
  "ring_ok e = (\<not> re_error e \<and> (\<exists>buf. re_buffer e = Some buf \<and> length buf = unat (re_buffer_size e))
     \<and> 0 < re_entry_size e
     \<and> unat (re_entry_size e) * unat (re_max_entries e) \<le> unat (re_buffer_size e)
     \<and> re_next_entry_write_index e < re_max_entries e)"

lemma unat_mult_below: "unat a * unat b \<le> unat c \<Longrightarrow> unat (a * b) = unat a * unat b"
  for a b c :: "'a::len word"
proof -
  assume "unat a * unat b \<le> unat c"
  also have "unat c < 2 ^ LENGTH('a)" by (rule unsigned_less)
  finally show ?thesis by (simp add: unat_word_ariths)
qed

lemma unat_ucast_u16 [simp]: "unat (ucast (s :: u16) :: u32) = unat s"
proof -
  have "unat s < 2 ^ 32" by (rule less_trans [OF unat_u16_lt]) simp
  then show ?thesis by (simp add: unsigned_ucast_eq take_bit_nat_eq_self)
qed

lemma ring_ok_sizes:
  assumes "ring_ok e"
  shows "unat (get_buffer_effective_size e) = unat (re_entry_size e) * unat (re_max_entries e)"
    "unat (get_write_cursor e) = unat (re_next_entry_write_index e) * unat (re_entry_size e)"
    "get_write_cursor e < get_buffer_effective_size e"
    "unat (re_next_entry_write_index e) * unat (re_entry_size e) + unat (re_entry_size e)
      \<le> unat (re_entry_size e) * unat (re_max_entries e)"
proof -
  let ?es = "unat (re_entry_size e)" and ?mx = "unat (re_max_entries e)"
    and ?nx = "unat (re_next_entry_write_index e)"
  have nx: "?nx < ?mx" and es: "0 < ?es" and fits: "?es * ?mx \<le> unat (re_buffer_size e)"
    using assms by (simp_all add: ring_ok_def word_less_nat_alt)
  from nx have "(?nx + 1) * ?es \<le> ?mx * ?es" by (intro mult_right_mono) simp_all
  then show last: "?nx * ?es + ?es \<le> ?es * ?mx" by (simp add: algebra_simps)
  show size: "unat (get_buffer_effective_size e) = ?es * ?mx"
    unfolding get_buffer_effective_size_def
    by (subst unat_mult_below [of _ _ "re_buffer_size e"]) (use fits in simp_all)
  show cursor: "unat (get_write_cursor e) = ?nx * ?es"
    unfolding get_write_cursor_def
    by (subst unat_mult_below [of _ _ "re_buffer_size e"]) (use fits last in simp_all)
  show "get_write_cursor e < get_buffer_effective_size e"
    unfolding word_less_nat_alt using size cursor last es by linarith
qed

lemma read_cursor_in_ring:
  assumes "ring_ok e" "unat (re_first_valid_entry_index e) \<le> unat (re_next_entry_write_index e)"
  shows "unat (get_read_cursor e) = unat (re_first_valid_entry_index e) * unat (re_entry_size e)"
    "get_read_cursor e < get_buffer_effective_size e"
proof -
  let ?es = "unat (re_entry_size e)"
  have le: "unat (re_first_valid_entry_index e) * ?es \<le> unat (re_next_entry_write_index e) * ?es"
    using assms(2) by simp
  have es: "0 < ?es" and fits: "?es * unat (re_max_entries e) \<le> unat (re_buffer_size e)"
    using assms(1) by (simp_all add: ring_ok_def word_less_nat_alt)
  note sizes = ring_ok_sizes [OF assms(1)]
  show rc: "unat (get_read_cursor e) = unat (re_first_valid_entry_index e) * ?es"
    unfolding get_read_cursor_def unat_ucast_u16 [symmetric]
    by (rule unat_mult_below [of _ _ "re_buffer_size e"])
      (unfold unat_ucast_u16, use le sizes(4) fits in linarith)
  show "get_read_cursor e < get_buffer_effective_size e"
    unfolding word_less_nat_alt using rc le sizes es by linarith
qed

definition reader_pending :: "raw_encoder \<Rightarrow> u8 list \<Rightarrow> bool" where
  "reader_pending e bs = (ring_ok e
     \<and> (if rr_read_cursor (re_reader e) = get_write_cursor e \<and> rr_read_started (re_reader e) then bs = []
        else \<not> rr_finished (re_reader e)
          \<and> reader_at (the (re_buffer e)) (get_write_cursor e) (get_buffer_effective_size e) (re_reader e) bs))"

lemma reader_only [simp]:
  "ring_ok (e\<lparr>re_reader := rd\<rparr>) = ring_ok e"
  "get_write_cursor (e\<lparr>re_reader := rd\<rparr>) = get_write_cursor e"
  "get_read_cursor (e\<lparr>re_reader := rd\<rparr>) = get_read_cursor e"
  "get_buffer_effective_size (e\<lparr>re_reader := rd\<rparr>) = get_buffer_effective_size e"
  by (simp_all add: ring_ok_def get_write_cursor_def get_buffer_effective_size_def get_read_cursor_def)

lemma read_pending_bytes:
  assumes "reader_pending e bs"
  shows "\<exists>e'. read_dilate_8bits k e = Some (take (unat k) bs, e') \<and> reader_pending e' (drop (unat k) bs)
    \<and> (0 < k \<longrightarrow> reader_finished e' = (length bs \<le> unat k))"
proof (cases "rr_read_cursor (re_reader e) = get_write_cursor e \<and> rr_read_started (re_reader e)")
  case True
  with assms show ?thesis
    by (auto simp: read_dilate_8bits_def reader_pending_def ring_ok_def reader_finished_def Let_def)
next
  case False
  have ok: "ring_ok e" using assms by (simp add: reader_pending_def)
  have at: "\<not> rr_finished (re_reader e)" "reader_at (the (re_buffer e)) (get_write_cursor e) (get_buffer_effective_size e) (re_reader e) bs"
    using assms False by (auto simp: reader_pending_def)
  have noerr: "\<not> re_error e" and buf: "unat (get_buffer_effective_size e) \<le> length (the (re_buffer e))"
    using ok ring_ok_sizes(1) [OF ok] by (auto simp: ring_ok_def)
  from read_loop_hands_out [OF ring_ok_sizes(3) [OF ok] buf word_zero_le at(2), where ?out = "[]"]
  obtain rd' where loop: "read_loop (the (re_buffer e)) (get_write_cursor e) (get_buffer_effective_size e)
      k 0 [] (re_reader e) = Some (take (unat k) bs, rd')"
    and st: "if 0 = k then rd' = re_reader e
       else rr_read_started rd'
         \<and> (if length bs \<le> unat k then rr_finished rd' \<and> rr_read_cursor rd' = get_write_cursor e
            else rr_finished rd' = rr_finished (re_reader e) \<and> rr_read_cursor rd' \<noteq> get_write_cursor e
              \<and> reader_at (the (re_buffer e)) (get_write_cursor e) (get_buffer_effective_size e) rd'
                  (drop (unat k) bs))"
    unfolding diff_zero append_Nil by blast
  show ?thesis
  proof (cases "k = 0")
    case True
    with st loop noerr False assms show ?thesis by (auto simp: read_dilate_8bits_def Let_def)
  next
    case k: False
    have "read_dilate_8bits k e = Some (take (unat k) bs, e\<lparr>re_reader := rd'\<rparr>)"
      using loop noerr False by (auto simp: read_dilate_8bits_def Let_def)
    moreover have "reader_pending (e\<lparr>re_reader := rd'\<rparr>) (drop (unat k) bs)"
      using st k ok at(1) by (auto simp: reader_pending_def split: if_splits)
    moreover have "reader_finished (e\<lparr>re_reader := rd'\<rparr>) = (length bs \<le> unat k)" 
      using st k at(1) by (simp add: reader_finished_def split: if_splits)
    ultimately show ?thesis by blast
  qed
qed

section \<open>The ring of entries\<close>

definition ring_slot :: "nat \<Rightarrow> u8 list \<Rightarrow> nat \<Rightarrow> u8 list" where
  "ring_slot es buf i = take es (drop (i * es) buf)"

definition ring_holds :: "raw_encoder \<Rightarrow> u8 list list \<Rightarrow> bool" where
  "ring_holds e hist =
    (let es = unat (re_entry_size e); mx = unat (re_max_entries e); n = length hist
     in ring_ok e \<and> (\<forall>x \<in> set hist. length x = es)
        \<and> unat (re_next_entry_write_index e) = n mod mx
        \<and> re_full e = (mx \<le> n)
        \<and> unat (re_first_valid_entry_index e) = (if n \<le> mx then 0 else n mod mx)
        \<and> (\<forall>j < n. n \<le> j + mx \<longrightarrow> ring_slot es (the (re_buffer e)) (j mod mx) = hist ! j))"

lemma concat_slots:
  assumes "a \<le> b" "b * es \<le> length buf"
  shows "take ((b - a) * es) (drop (a * es) buf) = concat (map (ring_slot es buf) [a..<b])"
  using assms
proof (induction b)
  case (Suc b)
  show ?case
  proof (cases "a = Suc b")
    case False
    with Suc.prems have ab: "a \<le> b" by simp
    have len: "(Suc b - a) * es = (b - a) * es + es" "(b - a) * es + a * es = b * es"
      using ab by (simp_all add: Suc_diff_le diff_mult_distrib)
    have "take ((Suc b - a) * es) (drop (a * es) buf) =
        take ((b - a) * es) (drop (a * es) buf) @ take es (drop (b * es) buf)"
      by (simp only: len take_add drop_drop)
    with Suc ab show ?thesis by (simp add: ring_slot_def)
  qed simp
qed simp

lemma ring_contents:
  assumes "0 < mx" "mx * es \<le> length buf" "0 < es"
    and slots: "\<And>j. j < n \<Longrightarrow> n \<le> j + mx \<Longrightarrow> ring_slot es buf (j mod mx) = hist ! j"
    and n: "n = length hist" "0 < n"
  shows "ring_rest buf (n mod mx * es) (es * mx) ((if n \<le> mx then 0 else n mod mx) * es)
    = concat (drop (n - mx) hist)"
proof (cases "n < mx")
  case True
  have "map (ring_slot es buf) [0..<n] = hist"
    using slots True n by (intro nth_equalityI) simp_all
  moreover have "n * es \<le> length buf"
    using mult_right_mono [of n mx es] True assms(2) by linarith
  ultimately show ?thesis
    using concat_slots [of 0 n es buf] True n assms(2,3) by (simp add: ring_rest_def)
next
  case False
  define c where "c = n mod mx"
  have c: "c < mx" using assms(1) by (simp add: c_def)
  have ces: "c * es \<le> length buf"
    using mult_right_mono [of c mx es] c assms(2) by linarith
  have first: "(if n \<le> mx then 0 else n mod mx) = c" using False by (auto simp: c_def)
  have list: "drop (n - mx) hist = map (ring_slot es buf) ([c..<mx] @ [0..<c])"
  proof (rule nth_equalityI)
    show "length (drop (n - mx) hist) = length (map (ring_slot es buf) ([c..<mx] @ [0..<c]))"
      using False n c by simp
    fix i assume "i < length (drop (n - mx) hist)"
    then have i: "i < mx" using False n by simp
    have "([c..<mx] @ [0..<c]) ! i = (c + i) mod mx"
    proof (cases "c + i < mx")
      case True
      moreover from True have "i < mx - c" by linarith
      ultimately show ?thesis by (simp add: nth_append)
    next
      case False
      then have "(c + i) mod mx = c + i - mx"
        using i c by (simp add: le_mod_geq)
      moreover from False have "\<not> i < mx - c" by linarith
      moreover have "i - (mx - c) < c" "i - (mx - c) = c + i - mx" using False i c by simp_all
      ultimately show ?thesis by (simp add: nth_append)
    qed
    also have "\<dots> = (n + i) mod mx" by (simp add: c_def mod_add_left_eq)
    also have "\<dots> = (n - mx + i) mod mx"
    proof -
      have "n + i = (n - mx + i) + mx" using False by simp
      then show ?thesis by (simp only: mod_add_self2)
    qed
    finally have at: "([c..<mx] @ [0..<c]) ! i = (n - mx + i) mod mx" .
    have "ring_slot es buf ((n - mx + i) mod mx) = hist ! (n - mx + i)"
      using i False n by (intro slots) simp_all
    with at show "drop (n - mx) hist ! i = map (ring_slot es buf) ([c..<mx] @ [0..<c]) ! i"
      using i False n c by (simp del: map_append)
  qed
  have "ring_rest buf (c * es) (es * mx) (c * es) =
      take ((mx - c) * es) (drop (c * es) buf) @ take ((c - 0) * es) (drop (0 * es) buf)"
    by (simp add: ring_rest_def algebra_simps diff_mult_distrib2)
  also have "\<dots> = concat (map (ring_slot es buf) [c..<mx]) @ concat (map (ring_slot es buf) [0..<c])"
    using c assms(2) ces
    by (intro arg_cong2 [where f = "(@)"] concat_slots) simp_all
  finally show ?thesis
    unfolding first list unfolding c_def [symmetric] by simp
qed

lemma ring_rewind:
  assumes "ring_holds e hist" "hist \<noteq> []"
  shows "reader_pending (reader_reset e) (concat (drop (length hist - unat (re_max_entries e)) hist))"
proof -
  let ?es = "unat (re_entry_size e)" and ?mx = "unat (re_max_entries e)"
  have ok: "ring_ok e" using assms by (simp add: ring_holds_def Let_def)
  obtain buf where buf: "re_buffer e = Some buf" "length buf = unat (re_buffer_size e)"
    using ok by (auto simp: ring_ok_def)
  have es: "0 < ?es" and mx: "0 < ?mx" and fits: "?mx * ?es \<le> length buf"
    using ok buf by (auto simp: ring_ok_def word_less_nat_alt mult.commute)
  have idx: "unat (re_next_entry_write_index e) = length hist mod ?mx"
    "unat (re_first_valid_entry_index e) = (if length hist \<le> ?mx then 0 else length hist mod ?mx)"
    "\<And>j. j < length hist \<Longrightarrow> length hist \<le> j + ?mx \<Longrightarrow> ring_slot ?es buf (j mod ?mx) = hist ! j"
    using assms buf by (simp_all add: ring_holds_def Let_def)
  have fv: "unat (re_first_valid_entry_index e) \<le> unat (re_next_entry_write_index e)"
    using idx by simp
  then have rc: "unat (get_read_cursor e) = unat (re_first_valid_entry_index e) * ?es"
    and rlt: "get_read_cursor e < get_buffer_effective_size e"
    using read_cursor_in_ring [OF ok] by simp_all
  show ?thesis
    using ring_contents [OF mx fits es idx(3) refl] assms(2) rc rlt ok ring_ok_sizes [OF ok] idx buf
    by (simp add: reader_pending_def reader_reset_def reader_at_def)
qed

interpretation raw: acquisition_format ring_holds "\<lambda>e. unat (re_max_entries e)" reader_reset reader_pending
  read_dilate_8bits reader_finished
  by unfold_locales (rule ring_rewind read_pending_bytes; assumption)+

section \<open>Writing an entry\<close>

fun entry_bytes ::
  "'u config \<Rightarrow> rpv \<times> anytype \<Rightarrow> loop_ref option \<Rightarrow> timestamp \<Rightarrow> loggable_item list \<Rightarrow> 'u world \<Rightarrow>
   u8 list \<times> 'u world" where
  "entry_bytes cf junk caller now [] w = ([], w)"
| "entry_bytes cf junk caller now (item # items) w =
    (case encode_item cf junk caller now item w of (bs, w) \<Rightarrow>
       case entry_bytes cf junk caller now items w of (cs, w) \<Rightarrow> (bs @ cs, w))"

lemma encode_items_blit:
  "unat cursor + length (fst (entry_bytes cf junk caller now items w)) \<le> length buf \<Longrightarrow>
    length buf = unat (bound :: u32) \<Longrightarrow>
    encode_items cf junk caller now items cursor buf w =
      (blit buf (unat cursor) (fst (entry_bytes cf junk caller now items w)),
       snd (entry_bytes cf junk caller now items w))"
proof (induction items arbitrary: cursor buf w)
  case (Cons item items)
  obtain bs w1 where item: "encode_item cf junk caller now item w = (bs, w1)" by fastforce
  obtain cs w2 where rest: "entry_bytes cf junk caller now items w1 = (cs, w2)" by fastforce
  have fits: "unat cursor + (length bs + length cs) \<le> unat bound"
    using Cons.prems item rest by simp
  have small: "length bs < 4294967296"
    using fits unat_u32_lt [of bound] by linarith
  have cur: "unat (cursor + of_nat (length bs)) = unat cursor + length bs"
    using unat_add_below [of cursor "of_nat (length bs)" bound] fits small by simp
  show ?case
    using Cons.IH [of "cursor + of_nat (length bs)" w1 "blit buf (unat cursor) bs"] Cons.prems(2)
      fits item rest cur by (simp add: blit_append)
qed simp

lemma length_encode_anytype_char:
  "is_supported_type vt \<Longrightarrow> length (encode_anytype_big_endian_char val vt) = unat (get_type_size_char vt)"
  using length_encode_anytype_supported [of vt val]
  by (simp add: encode_anytype_big_endian_char_def encode_anytype_big_endian_def
      encode_anytype_big_endian_sz_def get_type_size_char_def Let_def)

lemma length_encode_item:
  "rpvs_supported cf \<Longrightarrow> item_size cf item = (sz, False) \<Longrightarrow>
    length (fst (encode_item cf junk caller now item w)) = unat sz"
  by (auto simp: item_size_def encode_item_def be32.length_enc length_encode_anytype_char
      get_rpv_supported split: if_splits option.splits prod.splits)

lemma reset_sizes_error: "reset_sizes cf items (True, a) = (True, a)"
  by (cases items) simp_all

lemma reset_sizes_entry:
  assumes "rpvs_supported cf"
  shows "reset_sizes cf items (False, a) = (False, entry_size) \<Longrightarrow> unat a + 255 * length items < 65536 \<Longrightarrow>
    unat entry_size = unat a + length (fst (entry_bytes cf junk caller now items w))"
proof (induction items arbitrary: a w)
  case (Cons item items)
  obtain sz err where sz: "item_size cf item = (sz, err)" by fastforce
  from Cons.prems(1) sz have err: "\<not> err" and step: "reset_sizes cf items (False, a + ucast sz) = (False, entry_size)"
    by (cases err; auto simp: reset_sizes_error split: if_splits)+
  have szlt: "unat sz \<le> 255" using unat_u8_lt [of sz] by linarith
  have us: "unat (ucast sz :: u16) = unat sz"
    by (simp add: unsigned_ucast_eq take_bit_nat_eq_self_iff) (rule less_trans [OF unat_u8_lt], simp)
  have add: "unat (a + ucast sz) = unat a + unat sz"
    using unat_add_no_wrap_u16 [of a "ucast sz"] us szlt Cons.prems(2) by simp
  have len: "length (fst (encode_item cf junk caller now item w)) = unat sz"
    using length_encode_item [OF assms] sz err by simp
  show ?case
    using Cons.IH [OF step, of "snd (encode_item cf junk caller now item w)"] Cons.prems(2) add len szlt
    by (simp add: case_prod_beta)
qed simp

text \<open>A reset that does not end in error makes an empty ring whose entries have the size of a snapshot.\<close>

lemma re_reset_ring:
  assumes "re_buffer e = Some buf" "length buf = unat (re_buffer_size e)"
    and "\<not> re_error (re_reset cf dc e)" "rpvs_supported cf"
  shows "ring_holds (re_reset cf dc e) []"
    "length (fst (entry_bytes cf junk caller now (dc_items dc) w)) = unat (re_entry_size (re_reset cf dc e))"
    "re_timebase (re_reset cf dc e) = re_timebase e"
    "re_max_entries (re_reset cf dc e) = re_buffer_size e div ucast (re_entry_size (re_reset cf dc e))"
proof -
  obtain err es where sizes: "reset_sizes cf (dc_items dc) (False, 0) = (err, es)" by fastforce
  have nonempty: "re_buffer_size e \<noteq> 0"
    using assms(1,3) by (auto simp: re_reset_def reset_write_counter_def reader_reset_def Let_def
        reset_sizes_error split: if_splits)
  have ok: "\<not> err" "0 < es" "re_buffer_size e div ucast es \<noteq> 0"
    using assms(1,3) nonempty sizes
    by (auto simp: re_reset_def reset_write_counter_def reader_reset_def Let_def split: if_splits)
  have fields: "re_entry_size (re_reset cf dc e) = es" "re_buffer (re_reset cf dc e) = Some buf"
    "re_buffer_size (re_reset cf dc e) = re_buffer_size e"
    "re_max_entries (re_reset cf dc e) = re_buffer_size e div ucast es"
    "re_next_entry_write_index (re_reset cf dc e) = 0" "re_first_valid_entry_index (re_reset cf dc e) = 0"
    "\<not> re_full (re_reset cf dc e)" "re_timebase (re_reset cf dc e) = re_timebase e"
    using assms(1) nonempty sizes ok
    by (simp_all add: re_reset_def reset_write_counter_def reader_reset_def Let_def)
  have count: "length (dc_items dc) \<le> 255"
    using unat_u8_lt [of "dc_items_count dc"] unfolding dc_items_def length_take by linarith
  show "length (fst (entry_bytes cf junk caller now (dc_items dc) w)) = unat (re_entry_size (re_reset cf dc e))"
    using reset_sizes_entry [OF assms(4), of "dc_items dc" 0 es junk caller now w] sizes ok count fields
    by simp
  show "re_timebase (re_reset cf dc e) = re_timebase e"
    "re_max_entries (re_reset cf dc e) = re_buffer_size e div ucast (re_entry_size (re_reset cf dc e))"
    by (simp_all add: fields)
  have "unat es * unat (re_buffer_size e div ucast es) \<le> unat (re_buffer_size e)"
    by (simp add: unat_div)
  then show "ring_holds (re_reset cf dc e) []"
    using ok assms fields by (simp add: ring_holds_def ring_ok_def word_less_nat_alt word_unat_eq_iff [of _ 0])
qed

lemma re_reset_buffer: "re_buffer (re_reset cf dc e) = re_buffer e"
  by (simp add: re_reset_def reset_write_counter_def reader_reset_def Let_def case_prod_beta)

lemma next_index:
  assumes "0 < (mx :: nat)"
  shows "Suc n mod mx = (if mx \<le> Suc (n mod mx) then 0 else Suc (n mod mx))"
  using mod_less_divisor [OF assms, of n] by (simp only: mod_Suc split: if_split) linarith

lemma slots_disjoint: "a \<noteq> b \<Longrightarrow> a * es + es \<le> b * es \<or> b * es + es \<le> a * es" for a b es :: nat
proof -
  assume "a \<noteq> b"
  then have "a + 1 \<le> b \<or> b + 1 \<le> a" by linarith
  then have "(a + 1) * es \<le> b * es \<or> (b + 1) * es \<le> a * es" using mult_right_mono by blast
  then show ?thesis by (simp add: algebra_simps)
qed

lemma encode_next_entry_ring:
  assumes now: "now = get_timestamp (timebases (the (re_timebase e)))" and "ring_holds e hist"
    and len: "length (fst (entry_bytes cf junk caller now (dc_items dc) w)) = unat (re_entry_size e)"
  shows "ring_holds (fst (encode_next_entry cf dc timebases junk caller e w))
      (hist @ [fst (entry_bytes cf junk caller now (dc_items dc) w)])"
    "snd (encode_next_entry cf dc timebases junk caller e w) = snd (entry_bytes cf junk caller now (dc_items dc) w)"
    "re_timebase (fst (encode_next_entry cf dc timebases junk caller e w)) = re_timebase e"
    "re_entry_size (fst (encode_next_entry cf dc timebases junk caller e w)) = re_entry_size e"
    "re_max_entries (fst (encode_next_entry cf dc timebases junk caller e w)) = re_max_entries e"
    "re_entry_write_counter (fst (encode_next_entry cf dc timebases junk caller e w)) = re_entry_write_counter e + 1"
proof -
  let ?es = "unat (re_entry_size e)" and ?mx = "unat (re_max_entries e)" and ?n = "length hist"
  let ?bs = "fst (entry_bytes cf junk caller now (dc_items dc) w)"
  have ok: "ring_ok e" using assms(2) by (simp add: ring_holds_def Let_def)
  obtain buf where buf: "re_buffer e = Some buf" "length buf = unat (re_buffer_size e)"
    using ok by (auto simp: ring_ok_def)
  have err: "\<not> re_error e" and es: "0 < ?es" and mx: "0 < ?mx" and fits: "?mx * ?es \<le> length buf"
    using ok buf by (auto simp: ring_ok_def word_less_nat_alt mult.commute)
  have hist: "\<forall>x \<in> set hist. length x = ?es"
    and nx: "unat (re_next_entry_write_index e) = ?n mod ?mx"
    and full: "re_full e = (?mx \<le> ?n)"
    and fv: "unat (re_first_valid_entry_index e) = (if ?n \<le> ?mx then 0 else ?n mod ?mx)"
    and slots: "\<And>j. j < ?n \<Longrightarrow> ?n \<le> j + ?mx \<Longrightarrow> ring_slot ?es buf (j mod ?mx) = hist ! j"
    using assms(2) buf by (simp_all add: ring_holds_def Let_def)
  have nlt: "?n mod ?mx < ?mx" using mx by simp
  have suc: "unat (w + 1) = Suc (unat w)" if "unat w < ?mx" for w :: u32
    using unat_add_below [of w 1 "re_max_entries e"] that by simp
  have next_suc: "unat (re_next_entry_write_index e + 1) = Suc (?n mod ?mx)"
    using suc [of "re_next_entry_write_index e"] nx nlt by simp
  have pos: "unat (get_write_cursor e) = (?n mod ?mx) * ?es"
    and room: "(?n mod ?mx) * ?es + ?es \<le> length buf"
    using ring_ok_sizes [OF ok] nx fits by (simp_all add: mult.commute [of ?es ?mx])
  define buf' where "buf' = blit buf ((?n mod ?mx) * ?es) ?bs"
  have enc: "encode_items cf junk caller now (dc_items dc) (get_write_cursor e) buf w =
      (buf', snd (entry_bytes cf junk caller now (dc_items dc) w))"
    using encode_items_blit [of "get_write_cursor e" cf junk caller now "dc_items dc" w buf "re_buffer_size e"]
      pos room len buf by (simp add: buf'_def)
  define first where "first = (if re_next_entry_write_index e = re_first_valid_entry_index e \<and> re_full e
      then (if re_first_valid_entry_index e + 1 \<ge> re_max_entries e then 0
            else re_first_valid_entry_index e + 1) else re_first_valid_entry_index e)"
  define wraps where "wraps = (re_max_entries e \<le> re_next_entry_write_index e + 1)"
  have wraps: "wraps = (?mx \<le> Suc (?n mod ?mx))"
    by (simp add: wraps_def word_le_nat_alt next_suc)
  have step: "encode_next_entry cf dc timebases junk caller e w =
     (e\<lparr>re_buffer := Some buf', re_first_valid_entry_index := first,
        re_next_entry_write_index := (if wraps then 0 else re_next_entry_write_index e + 1),
        re_full := (if wraps then True else re_full e),
        re_entry_write_counter := re_entry_write_counter e + 1\<rparr>,
      snd (entry_bytes cf junk caller now (dc_items dc) w))"
    using err enc buf by (simp add: encode_next_entry_def Let_def first_def wraps_def now get_write_cursor_def)
  show "snd (encode_next_entry cf dc timebases junk caller e w) = snd (entry_bytes cf junk caller now (dc_items dc) w)"
    "re_timebase (fst (encode_next_entry cf dc timebases junk caller e w)) = re_timebase e"
    "re_entry_size (fst (encode_next_entry cf dc timebases junk caller e w)) = re_entry_size e"
    "re_max_entries (fst (encode_next_entry cf dc timebases junk caller e w)) = re_max_entries e"
    "re_entry_write_counter (fst (encode_next_entry cf dc timebases junk caller e w)) = re_entry_write_counter e + 1"
    by (simp_all add: step)
  have len': "length buf' = unat (re_buffer_size e)"
    using room len buf by (simp add: buf'_def)
  have next': "unat (if wraps then 0 else re_next_entry_write_index e + 1) = Suc ?n mod ?mx"
    using next_index [OF mx, of ?n] wraps next_suc by simp
  have full': "(if wraps then True else re_full e) = (?mx \<le> Suc ?n)"
    using mod_less_eq_dividend [of ?n ?mx] unfolding wraps full
    by (cases "?n < ?mx") auto
  have first': "unat first = (if Suc ?n \<le> ?mx then 0 else Suc ?n mod ?mx)"
  proof (cases "?mx \<le> ?n")
    case True
    with fv nx full have same: "re_next_entry_write_index e = re_first_valid_entry_index e" "re_full e"
      by (auto simp: word_unat_eq_iff)
    then have "first = (if wraps then 0 else re_next_entry_write_index e + 1)"
      by (simp add: first_def wraps_def)
    with next' True show ?thesis by simp
  next
    case False
    with fv full show ?thesis by (simp add: first_def)
  qed
  have slots': "ring_slot ?es buf' (j mod ?mx) = (hist @ [?bs]) ! j"
    if j: "j < Suc ?n" "Suc ?n \<le> j + ?mx" for j
  proof (cases "j = ?n")
    case True
    then show ?thesis
      using room len take_drop_blit_same [of "(?n mod ?mx) * ?es" ?bs buf]
      by (simp add: ring_slot_def buf'_def nth_append)
  next
    case False
    with j have jn: "j < ?n" by simp
    have "j mod ?mx \<noteq> ?n mod ?mx"
    proof
      assume "j mod ?mx = ?n mod ?mx"
      then have "?mx dvd ?n - j" using jn mod_eq_dvd_iff_nat [of j ?n ?mx] by simp
      moreover have "0 < ?n - j" "?n - j < ?mx" using j jn by simp_all
      ultimately show False using nat_dvd_not_less by blast
    qed
    then have "j mod ?mx * ?es + ?es \<le> ?n mod ?mx * ?es \<or> ?n mod ?mx * ?es + ?es \<le> j mod ?mx * ?es"
      by (rule slots_disjoint)
    then have "ring_slot ?es buf' (j mod ?mx) = ring_slot ?es buf (j mod ?mx)"
      using room len by (auto simp: ring_slot_def buf'_def intro!: take_drop_blit_other)
    with slots [OF jn] j jn show ?thesis by (simp add: nth_append)
  qed
  have fits': "?es * ?mx \<le> unat (re_buffer_size e)" using fits buf by (simp add: mult.commute)
  have nlt': "Suc ?n mod ?mx < ?mx" using mx by simp
  show "ring_holds (fst (encode_next_entry cf dc timebases junk caller e w)) (hist @ [?bs])"
    using err len' next' full' first' slots' es mx fits' nlt' hist len
    by (simp add: step ring_holds_def ring_ok_def word_less_nat_alt)
qed

section \<open>An acquisition from its start\<close>

text \<open>
  The calls of \<open>encode_next_entry\<close> of an acquisition: the program goes on between two of them, so
  each has its own clock and world. The snapshot of a call is what it logs.
\<close>

type_synonym 'u log_call = "(loop_ref \<Rightarrow> timebase) \<times> (rpv \<times> anytype) \<times> loop_ref option \<times> 'u world"

fun acquire :: "'u config \<Rightarrow> dl_config \<Rightarrow> 'u log_call list \<Rightarrow> raw_encoder \<Rightarrow> raw_encoder" where
  "acquire cf dc [] e = e"
| "acquire cf dc ((timebases, junk, caller, w) # calls) e =
    acquire cf dc calls (fst (encode_next_entry cf dc timebases junk caller e w))"

fun snapshot :: "'u config \<Rightarrow> dl_config \<Rightarrow> loop_ref option \<Rightarrow> 'u log_call \<Rightarrow> u8 list" where
  "snapshot cf dc timebase (timebases, junk, caller, w) =
    fst (entry_bytes cf junk caller (get_timestamp (timebases (the timebase))) (dc_items dc) w)"

definition kept :: "nat \<Rightarrow> 'a list \<Rightarrow> 'a list" where
  "kept n xs = drop (length xs - n) xs"

lemma acquire_ring:
  assumes "ring_holds e hist"
    and "\<And>call. length (snapshot cf dc (re_timebase e) call) = unat (re_entry_size e)"
  shows "ring_holds (acquire cf dc calls e) (hist @ map (snapshot cf dc (re_timebase e)) calls)"
    "re_max_entries (acquire cf dc calls e) = re_max_entries e"
    "re_entry_size (acquire cf dc calls e) = re_entry_size e"
proof -
  have "ring_holds (acquire cf dc calls e) (hist @ map (snapshot cf dc (re_timebase e)) calls)
    \<and> re_max_entries (acquire cf dc calls e) = re_max_entries e
    \<and> re_entry_size (acquire cf dc calls e) = re_entry_size e"
    using assms
  proof (induction calls arbitrary: e hist)
    case (Cons call calls)
    obtain timebases junk caller w where call: "call = (timebases, junk, caller, w)" by (cases call)
    let ?e = "fst (encode_next_entry cf dc timebases junk caller e w)"
    note step = encode_next_entry_ring [OF refl Cons.prems(1), of cf junk caller timebases dc w]
    have len: "length (fst (entry_bytes cf junk caller (get_timestamp (timebases (the (re_timebase e))))
        (dc_items dc) w)) = unat (re_entry_size e)"
      using Cons.prems(2) [of call] by (simp add: call)
    show ?case
      using Cons.IH [OF step(1) [OF len]] Cons.prems(2) step(3-5) [OF len] by (simp add: call)
  qed simp
  then show "ring_holds (acquire cf dc calls e) (hist @ map (snapshot cf dc (re_timebase e)) calls)"
    "re_max_entries (acquire cf dc calls e) = re_max_entries e"
    "re_entry_size (acquire cf dc calls e) = re_entry_size e" by simp_all
qed

lemma ring_total_size:
  assumes "ring_holds e hist"
  shows "unat (get_total_size_char e) = length (concat (kept (unat (re_max_entries e)) hist))"
proof -
  let ?es = "unat (re_entry_size e)" and ?mx = "unat (re_max_entries e)"
  have ok: "ring_ok e" using assms by (simp add: ring_holds_def Let_def)
  have err: "\<not> re_error e" and fits: "?es * ?mx \<le> unat (re_buffer_size e)"
    and nx: "unat (re_next_entry_write_index e) = length hist mod ?mx"
    and full: "re_full e = (?mx \<le> length hist)" and lens: "\<forall>x \<in> set hist. length x = ?es"
    using assms by (auto simp: ring_holds_def ring_ok_def Let_def)
  have count: "unat (get_entry_count e) = min (length hist) ?mx"
    using nx full by (simp add: get_entry_count_def)
  have flat: "length (concat xs) = length xs * ?es" if "\<forall>x \<in> set xs. length x = ?es" for xs :: "u8 list list"
    using that by (induction xs) simp_all
  have "\<forall>x \<in> set (kept ?mx hist). length x = ?es"
    using lens by (auto simp: kept_def dest: in_set_dropD)
  moreover have "length (kept ?mx hist) = min (length hist) ?mx"
    unfolding kept_def length_drop by linarith
  ultimately have len: "length (concat (kept ?mx hist)) = min (length hist) ?mx * ?es"
    by (simp only: flat)
  have "min (length hist) ?mx * ?es \<le> ?mx * ?es" by simp
  then have "unat (get_entry_count e) * unat (ucast (re_entry_size e) :: u32) \<le> unat (re_buffer_size e)"
    using fits mult.commute [of ?es ?mx] unfolding count unat_ucast_u16 by linarith
  from unat_mult_below [OF this] show ?thesis
    using err len count by (simp add: get_total_size_char_def)
qed

text \<open>
  C27: an acquisition is read back as it was logged. Reset the encoder for a configuration that it
  accepts, log any number of snapshots and rewind the reader: reads of any sizes give, one after
  the other, the last snapshots that the ring can keep, the oldest first and nothing else, and
  their size is the announced total.
\<close>

theorem acquisition_read_back:
  assumes "re_buffer e = Some buf" "length buf = unat (re_buffer_size e)"
    and "\<not> re_error (re_reset cf dc e)" "rpvs_supported cf" "calls \<noteq> []"
  shows "let e1 = acquire cf dc calls (re_reset cf dc e);
             logged = concat (kept (unat (re_max_entries (re_reset cf dc e)))
                               (map (snapshot cf dc (re_timebase e)) calls))
         in (\<exists>e2. read_all read_dilate_8bits sizes (reader_reset e1)
                    = Some (take (sum_list (map unat sizes)) logged, e2))
            \<and> unat (get_total_size_char e1) = length logged"
proof -
  note reset = re_reset_ring [OF assms(1-4)]
  have snap: "length (snapshot cf dc (re_timebase (re_reset cf dc e)) call)
      = unat (re_entry_size (re_reset cf dc e))" for call
    by (cases call) (simp add: reset(2))
  note acq = acquire_ring [OF reset(1) snap, of calls, unfolded reset(3), simplified]
  from raw.acquired_is_read [OF acq(1), of sizes] ring_total_size [OF acq(1)] assms(5)
  show ?thesis by (simp add: Let_def kept_def acq(2))
qed

text \<open>A configuration of one two-byte variable, in a buffer for two entries and a half.\<close>

definition demo_item :: loggable_item where
  "demo_item = \<lparr>it_address = 100, it_size = 2, it_type = LoggableType_Memory\<rparr>"

definition demo_dl_config :: dl_config where
  "demo_dl_config =
    \<lparr>dc_items_to_log = replicate 16 demo_item,
     dc_trigger = \<lparr>tc_operands = replicate 3 \<lparr>op_addr = 0, op_datatype = 0, op_bitoffset = 0, op_bitsize = 0,
       op_type = 0\<rparr>, tc_hold_time_100ns = 0, tc_operand_count = 0, tc_condition = Condition_AlwaysTrue\<rparr>,
     dc_timeout_100ns = 0, dc_decimation = 1, dc_items_count = 1, dc_probe_location = 128\<rparr>"

definition demo_encoder :: raw_encoder where
  "demo_encoder = re_new\<lparr>re_buffer := Some [0xA, 0xB, 0xC, 0xD, 0xE], re_buffer_size := 5, re_timebase := Some 0\<rparr>"

definition demo_log_call :: "u8 \<Rightarrow> unit log_call" where
  "demo_log_call b = (\<lambda>_. tb_init, (\<lparr>rpv_id = 0, rpv_type = VT_unknown\<rparr>, 0), Some 0,
     \<lparr>w_memory = (\<lambda>a. ucast a + b), w_user = ()\<rparr>)"

lemma demo_config_items: "dc_items demo_dl_config = [demo_item]"
  by (simp add: dc_items_def demo_dl_config_def)

lemma demo_snapshot:
  "snapshot (cf :: unit config) demo_dl_config tb (demo_log_call b) = [100 + b, 101 + b]"
  by (simp add: demo_log_call_def demo_config_items demo_item_def encode_item_def mem_read_def upt_rec)

lemma demo_reset:
  "re_error (re_reset (cf :: unit config) demo_dl_config demo_encoder) = False"
  "re_max_entries (re_reset cf demo_dl_config demo_encoder) = 2"
  by (simp_all add: re_reset_def demo_config_items demo_item_def item_size_def demo_encoder_def re_new_def
      reset_write_counter_def reader_reset_def)

lemma demo_supported: "rpvs_supported (config_clear :: unit config)"
  by (simp add: rpvs_supported_def config_rpvs_def array_upto_def config_clear_def)

lemma demo_encoder_fields:
  "re_buffer demo_encoder = Some [0xA, 0xB, 0xC, 0xD, 0xE]" "re_buffer_size demo_encoder = 5"
  by (simp_all add: demo_encoder_def)

lemma demo_reset_size:
  "get_buffer_effective_size (re_reset (cf :: unit config) demo_dl_config demo_encoder) = 4"
  by (simp add: re_reset_def demo_config_items demo_item_def item_size_def demo_encoder_def re_new_def
      reset_write_counter_def reader_reset_def get_buffer_effective_size_def)

lemma acquisition_read_back_witness:
  "\<exists>e2. read_all read_dilate_8bits [3, 9]
      (reader_reset (acquire (config_clear :: unit config) demo_dl_config (map demo_log_call [1, 5, 7])
        (re_reset (config_clear :: unit config) demo_dl_config demo_encoder)))
    = Some ([105, 106, 107, 108], e2)"
  using acquisition_read_back [of demo_encoder "[0xA, 0xB, 0xC, 0xD, 0xE]" "config_clear :: unit config" demo_dl_config
      "map demo_log_call [1, 5, 7]" "[3, 9]"]
  by (simp add: demo_reset demo_snapshot kept_def Let_def demo_supported demo_encoder_fields del: read_all.simps)

text \<open>
  An acquisition that ended without a single entry announces a size of 0, yet its reader hands
  out the whole ring as it was found: a reader that has not started takes the equality of the
  cursors for a full ring.
\<close>

theorem empty_acquisition_read:
  assumes "re_buffer e = Some buf" "length buf = unat (re_buffer_size e)"
    and "\<not> re_error (re_reset cf dc e)" "rpvs_supported cf"
  shows "get_total_size_char (re_reset cf dc e) = 0
    \<and> (\<exists>e2. read_dilate_8bits k (reader_reset (re_reset cf dc e))
        = Some (take (unat k) (take (unat (get_buffer_effective_size (re_reset cf dc e))) buf), e2))"
proof -
  let ?e = "re_reset cf dc e"
  have ring: "ring_holds ?e []" and buf: "re_buffer ?e = Some buf"
    using re_reset_ring [OF assms] re_reset_buffer [of cf dc e] assms(1) by simp_all
  then have ok: "ring_ok ?e" and zero: "re_next_entry_write_index ?e = 0" "re_first_valid_entry_index ?e = 0"
    and notfull: "\<not> re_full ?e"
    by (auto simp: ring_holds_def Let_def word_unat_eq_iff ring_ok_def word_less_nat_alt)
  have total: "get_total_size_char ?e = 0"
    using notfull zero by (simp add: get_total_size_char_def get_entry_count_def)
  have cursors: "get_write_cursor ?e = 0" "get_read_cursor ?e = 0"
    using zero by (simp_all add: get_write_cursor_def get_read_cursor_def)
  have pending: "reader_pending (reader_reset ?e) (take (unat (get_buffer_effective_size ?e)) buf)"
    using ok buf cursors ring_ok_sizes(3) [OF ok]
    by (simp add: reader_pending_def reader_reset_def reader_at_def ring_rest_def)
  show ?thesis using total read_pending_bytes [OF pending, of k] by blast
qed

lemma empty_acquisition_read_witness:
  "\<exists>e2. read_dilate_8bits 9 (reader_reset (re_reset (config_clear :: unit config) demo_dl_config demo_encoder))
    = Some ([0xA, 0xB, 0xC, 0xD], e2)"
  using empty_acquisition_read [of demo_encoder "[0xA, 0xB, 0xC, 0xD, 0xE]" "config_clear :: unit config"
      demo_dl_config 9] demo_reset_size
  by (simp add: demo_reset demo_supported demo_encoder_fields)

end
