(* ===== verification/AcquisitionDownload.thy ===== *)
theory AcquisitionDownload
  imports DatalogControl AcquisitionRing
begin

text \<open>
  The download of an acquisition, one ReadAcquisition request after the other: what the client has
  after the last one is the acquisition and its CRC.
\<close>

section \<open>The responses\<close>

text \<open>Writing in front of what was written.\<close>

lemma rs_put_front:
  "pos = length xs \<Longrightarrow> length xs + length ys \<le> length (rs_data rs) \<Longrightarrow>
    rs_put 0 xs (rs_put pos ys rs) = rs_put 0 (xs @ ys) rs"
  by (simp add: rs_put_def blit_def)

text \<open>A response to a piece of an acquisition: the flag of the last, the counter, the identifier, the bytes.\<close>

definition piece_header :: "bool \<Rightarrow> u8 \<Rightarrow> u16 \<Rightarrow> u8 list" where
  "piece_header last' counter acquisition_id =
    [if last' then 1 else 0, counter] @ encode_16_bits_big_endian acquisition_id"

lemma length_piece_header [simp]: "length (piece_header l c i) = 4"
  by (simp add: piece_header_def be16.length_enc)

lemma read_acquisition_piece:
  assumes ready: "rs_ready rs" and pending: "reader_pending (ra_encoder ra) rest"
    and last': "last' = (length rest + 4 \<le> unat (rs_data_max_length rs) - 4)"
  shows "\<exists>ra' rs'. encode_response_datalogging_read_acquisition ra rs = Some (RC_OK, last', ra', rs')
    \<and> reader_pending (ra_encoder ra') (drop (unat (rs_data_max_length rs) - 4) rest)
    \<and> ra_crc ra' = crc32 (take (unat (rs_data_max_length rs) - 4) rest) (ra_crc ra)
    \<and> response_payload rs' = piece_header last' (ra_rolling_counter ra) (ra_acquisition_id ra)
        @ take (unat (rs_data_max_length rs) - 4) rest
        @ (if last' then encode_32_bits_big_endian (ra_crc ra') else [])"
proof -
  let ?M = "unat (rs_data_max_length rs)"
  define k :: u32 where "k = ucast (rs_data_max_length rs) - 4"
  have M: "32 \<le> ?M" "?M \<le> length (rs_data rs)" "?M < 65536" using ready by (simp_all add: rs_ready_def)
  have k: "unat k = ?M - 4"
    using M unfolding k_def by (subst unat_sub) (simp_all add: word_le_nat_alt)
  have "0 < k" using M by (simp add: word_less_nat_alt k)
  with raw.read_pending [OF pending, of k] obtain e' where
    read: "read_dilate_8bits k (ra_encoder ra) = Some (take (?M - 4) rest, e')"
    and pend: "reader_pending e' (drop (?M - 4) rest)"
    and fin: "reader_finished e' = (length rest \<le> ?M - 4)" unfolding k by blast
  define bs where "bs = take (?M - 4) rest"
  define n where "n = length bs"
  define counter where "counter = ra_rolling_counter ra"
  define idb where "idb = encode_16_bits_big_endian (ra_acquisition_id ra)"
  define crc where "crc = crc32 bs (ra_crc ra)"
  have n: "n \<le> ?M - 4" by (simp add: n_def bs_def)
  have len: "unat (ucast (of_nat n + 4 :: u32) :: u16) = n + 4"
  proof -
    have "of_nat n + 4 = (of_nat (n + 4) :: u32)" by simp
    moreover have "unat (of_nat (n + 4) :: u32) = n + 4" by (rule unat_of_nat_u32) (use n M in linarith)
    ultimately have "unat (of_nat n + 4 :: u32) = n + 4" by (simp only:)
    moreover have "n + 4 < 65536" using n M by linarith
    then have "n + 4 < 2 ^ 16" by simp
    ultimately show ?thesis by (simp add: unsigned_ucast_eq take_bit_nat_eq_self)
  qed
  have last'': "last' \<longleftrightarrow> reader_finished e' \<and> n + 4 + 4 \<le> ?M"
    using M unfolding last' fin n_def bs_def by auto
  define rs1 where "rs1 = rs_put 1 ([counter] @ idb @ bs) rs"
  have put: "rs_put 4 bs (rs_put 2 idb (rs_put 1 (encode_8_bits_8bits counter) rs)) = rs1"
    using M n by (simp add: rs1_def idb_def n_def rs_put_put be16.length_enc encode_8_bits_8bits_def rs_put_data)
  have len1: "length (rs_data rs1) = length (rs_data rs)"
    unfolding rs1_def by (rule length_rs_put) (use M n in \<open>simp add: idb_def n_def be16.length_enc\<close>)
  define tail where "tail = (if last' then encode_32_bits_big_endian crc else [])"
  have "length tail = (if last' then 4 else 0)" by (simp add: tail_def be32.length_enc)
  then have fits: "n + 4 + length tail \<le> ?M" using n M last'' by auto
  define rs2 where "rs2 = (if last' then (rs_put (n + 4) (encode_32_bits_big_endian crc)
        (rs1\<lparr>rs_data_length := ucast (of_nat n + 4 :: u32)\<rparr>))\<lparr>rs_data_length := ucast (of_nat n + 4 :: u32) + 4\<rparr>
      else rs1\<lparr>rs_data_length := ucast (of_nat n + 4 :: u32)\<rparr>)"
  have dlen: "(if last' then ucast (of_nat n + 4 :: u32) + 4 else ucast (of_nat n + 4 :: u32)) = (of_nat (n + 4 + length tail) :: u16)"
  proof (rule word_unat_eq_iff [THEN iffD2])
    have "n + 4 + length tail < 65536" using fits M by linarith
    then show "unat (if last' then ucast (of_nat n + 4 :: u32) + 4 else ucast (of_nat n + 4 :: u32) :: u16)
        = unat (of_nat (n + 4 + length tail) :: u16)"
      using len by (auto simp: tail_def be32.length_enc unat_add_u16)
  qed
  have rs2: "rs2 = (rs_put 1 ([counter] @ idb @ bs @ tail) rs)\<lparr>rs_data_length := of_nat (n + 4 + length tail)\<rparr>"
  proof (cases last')
    case True
    have "rs_put (n + 4) (encode_32_bits_big_endian crc) rs1
        = rs_put 1 (([counter] @ idb @ bs) @ encode_32_bits_big_endian crc) rs"
      unfolding rs1_def using True fits M
      by (intro rs_put_put) (simp_all add: idb_def be16.length_enc n_def tail_def)
    with True dlen show ?thesis by (simp add: rs2_def tail_def)
  next
    case False
    with dlen show ?thesis by (simp add: rs2_def tail_def rs1_def)
  qed
  define rs' where "rs' = rs_put 0 [if last' then 1 else 0] rs2"
  have rs': "rs' = (rs_put 0 (piece_header last' counter (ra_acquisition_id ra) @ bs @ tail) rs)
      \<lparr>rs_data_length := of_nat (n + 4 + length tail)\<rparr>"
    unfolding rs'_def rs2 using fits M
    by (simp add: rs_put_front idb_def be16.length_enc n_def piece_header_def)
  have small: "n + 4 + length tail < 65536" using fits M by linarith
  have payload: "response_payload rs' = piece_header last' counter (ra_acquisition_id ra) @ bs @ tail"
    unfolding rs' by (rule rs_put_payload) (use small fits M in \<open>simp_all add: n_def\<close>)
  have "encode_response_datalogging_read_acquisition ra rs
      = Some (RC_OK, last', ra\<lparr>ra_encoder := e', ra_crc := crc\<rparr>, rs')"
    using last'' put read [unfolded k_def] len unfolding encode_response_datalogging_read_acquisition_def Let_def
      counter_def [symmetric] idb_def [symmetric] crc_def rs'_def rs2_def n_def bs_def [symmetric]
    by (cases last'; cases "reader_finished e'") (simp_all add: too_long_def encode_8_bits_8bits_def)
  with pend payload show ?thesis
    by (intro exI [of _ "ra\<lparr>ra_encoder := e', ra_crc := crc\<rparr>"] exI [of _ rs'])
      (simp add: crc_def bs_def counter_def tail_def)
qed

section \<open>The whole download\<close>

text \<open>ReadAcquisition requests one after the other, with the responses that they are given.\<close>

fun downloads :: "response list \<Rightarrow> 'u datalogging \<Rightarrow> ((response_code \<times> u8 list) list \<times> 'u datalogging) option" where
  "downloads [] d = Some ([], d)"
| "downloads (rs # rss) d =
    (case datalog_read_acquisition d rs of
       None \<Rightarrow> None
     | Some (code, d, rs) \<Rightarrow> map_option (\<lambda>(ps, d). ((code, response_payload rs) # ps, d)) (downloads rss d))"

text \<open>While a download is under way: the bytes still to come and the CRC of those already sent.\<close>

definition downloading :: "'u datalogging \<Rightarrow> nat \<Rightarrow> u8 list \<Rightarrow> u8 list \<Rightarrow> bool" where
  "downloading d i sent rest =
    (md_owner d \<noteq> None \<and> datalogging_data_available d \<and> md_reading_in_progress d
     \<and> md_read_acquisition_rolling_counter d = of_nat i \<and> md_read_acquisition_crc d = crc32 sent 0
     \<and> reader_pending (dl_encoder (md_datalogger d)) rest)"

lemma download_piece:
  assumes "downloading d i sent rest" "rs_ready rs" "chunk = unat (rs_data_max_length rs) - 4"
  shows "\<exists>d' rs'. datalog_read_acquisition d rs = Some (RC_OK, d', rs')
    \<and> dl_acquisition_id (md_datalogger d') = dl_acquisition_id (md_datalogger d)
    \<and> (if length rest + 4 \<le> chunk
       then \<not> md_reading_in_progress d'
         \<and> response_payload rs' = piece_header True (of_nat i) (dl_acquisition_id (md_datalogger d))
             @ rest @ encode_32_bits_big_endian (crc32 (sent @ rest) 0)
       else downloading d' (i + 1) (sent @ take chunk rest) (drop chunk rest)
         \<and> response_payload rs' = piece_header False (of_nat i) (dl_acquisition_id (md_datalogger d))
             @ take chunk rest)"
proof -
  let ?ra = "\<lparr>ra_acquisition_id = dl_acquisition_id (md_datalogger d),
    ra_rolling_counter = md_read_acquisition_rolling_counter d, ra_encoder = dl_encoder (md_datalogger d),
    ra_crc = md_read_acquisition_crc d\<rparr>"
  have st: "md_owner d \<noteq> None" "datalogging_data_available d" "md_reading_in_progress d"
    "md_read_acquisition_rolling_counter d = of_nat i" "md_read_acquisition_crc d = crc32 sent 0"
    "reader_pending (ra_encoder ?ra) rest"
    using assms(1) by (simp_all add: downloading_def)
  from read_acquisition_piece [OF assms(2) st(6) refl, folded assms(3)] obtain ra' rs' where
    enc: "encode_response_datalogging_read_acquisition ?ra rs = Some (RC_OK, length rest + 4 \<le> chunk, ra', rs')"
    and pend: "reader_pending (ra_encoder ra') (drop chunk rest)"
    and crc: "ra_crc ra' = crc32 (take chunk rest) (crc32 sent 0)"
    and pl: "response_payload rs' = piece_header (length rest + 4 \<le> chunk) (of_nat i) (dl_acquisition_id (md_datalogger d))
        @ take chunk rest @ (if length rest + 4 \<le> chunk then encode_32_bits_big_endian (ra_crc ra') else [])"
    using st(4,5) by auto
  have counter: "(of_nat i + 1 :: u8) AND 0xFF = of_nat (i + 1)" by simp
  show ?thesis
    using enc pend crc pl st counter
    by (auto simp: datalog_read_acquisition_def on_datalogger_def Let_def downloading_def datalogging_data_available_def
        crc32_append)
qed

lemma downloads_pieces:
  assumes "downloading d i sent rest" "\<forall>rs \<in> set rss. rs_ready rs \<and> unat (rs_data_max_length rs) = M"
    and "0 < chunk" "chunk = M - 4" "length rss = (length rest + 4 + (chunk - 1)) div chunk"
  shows "\<exists>ps d'. downloads rss d = Some (ps, d') \<and> length ps = length rss \<and> \<not> md_reading_in_progress d'
    \<and> (\<forall>j < length ps. fst (ps ! j) = RC_OK \<and> take 4 (snd (ps ! j))
          = piece_header (j = length ps - 1) (of_nat (i + j)) (dl_acquisition_id (md_datalogger d)))
    \<and> concat (map (\<lambda>p. drop 4 (snd p)) ps) = rest @ encode_32_bits_big_endian (crc32 (sent @ rest) 0)"
  using assms(1,2,5)
proof (induction rss arbitrary: d i sent rest)
  case Nil
  then have "length rest + 4 + (chunk - 1) < chunk" using assms(3) by (simp add: div_eq_0_iff)
  then show ?case by simp
next
  case (Cons rs rss)
  from Cons.prems(2) have ready: "rs_ready rs" and chunk: "chunk = unat (rs_data_max_length rs) - 4"
    using assms(4) by simp_all
  from download_piece [OF Cons.prems(1) ready chunk] obtain d1 rs1 where
    one: "datalog_read_acquisition d rs = Some (RC_OK, d1, rs1)"
    "dl_acquisition_id (md_datalogger d1) = dl_acquisition_id (md_datalogger d)"
    and res: "if length rest + 4 \<le> chunk
       then \<not> md_reading_in_progress d1
         \<and> response_payload rs1 = piece_header True (of_nat i) (dl_acquisition_id (md_datalogger d))
             @ rest @ encode_32_bits_big_endian (crc32 (sent @ rest) 0)
       else downloading d1 (i + 1) (sent @ take chunk rest) (drop chunk rest)
         \<and> response_payload rs1 = piece_header False (of_nat i) (dl_acquisition_id (md_datalogger d))
             @ take chunk rest" by blast
  show ?case
  proof (cases "length rest + 4 \<le> chunk")
    case True
    have "(length rest + 4 + (chunk - 1)) div chunk = 1"
      by (rule div_nat_eqI) (use True assms(3) in simp_all)
    with Cons.prems(3) have "rss = []" by simp
    with one res True show ?thesis by simp
  next
    case False
    then have big: "chunk < length rest + 4" by simp
    have more: "downloading d1 (i + 1) (sent @ take chunk rest) (drop chunk rest)"
      and pl: "response_payload rs1 = piece_header False (of_nat i) (dl_acquisition_id (md_datalogger d)) @ take chunk rest"
      using res False by simp_all
    have chunk4: "4 \<le> chunk" using ready by (auto simp: rs_ready_def chunk)
    have len: "length rss = (length (drop chunk rest) + 4 + (chunk - 1)) div chunk"
    proof (cases "chunk \<le> length rest")
      case True
      then have "length rest + 4 + (chunk - 1) = (length (drop chunk rest) + 4 + (chunk - 1)) + chunk" by simp
      then have "(length rest + 4 + (chunk - 1)) div chunk = (length (drop chunk rest) + 4 + (chunk - 1)) div chunk + 1"
        using assms(3) by (metis Suc_eq_plus1 add.commute div_add_self2 not_less_iff_gr_or_eq)
      with Cons.prems(3) show ?thesis by simp
    next
      case less: False
      have "(length rest + 4 + (chunk - 1)) div chunk = 2"
        by (rule div_nat_eqI) (use big less chunk4 in simp_all)
      moreover have "(length (drop chunk rest) + 4 + (chunk - 1)) div chunk = 1"
        by (rule div_nat_eqI) (use less chunk4 in simp_all)
      ultimately show ?thesis using Cons.prems(3) by simp
    qed
    have ready': "\<forall>rs \<in> set rss. rs_ready rs \<and> unat (rs_data_max_length rs) = M" using Cons.prems(2) by simp
    from Cons.IH [OF more ready' len] obtain ps d' where
      ih: "downloads rss d1 = Some (ps, d')" "length ps = length rss" "\<not> md_reading_in_progress d'"
      "\<forall>j < length ps. fst (ps ! j) = RC_OK \<and> take 4 (snd (ps ! j))
        = piece_header (j = length ps - 1) (of_nat (i + 1 + j)) (dl_acquisition_id (md_datalogger d))"
      "concat (map (\<lambda>p. drop 4 (snd p)) ps)
        = drop chunk rest @ encode_32_bits_big_endian (crc32 (sent @ rest) 0)"
      unfolding one(2) by auto
    have ne: "ps \<noteq> []"
    proof
      assume "ps = []"
      with ih(5) have "encode_32_bits_big_endian (crc32 (sent @ rest) 0) = []" by simp
      then show False using be32.length_enc [of "crc32 (sent @ rest) 0"] by simp
    qed
    let ?ps = "(RC_OK, response_payload rs1) # ps"
    have "fst (?ps ! j) = RC_OK \<and> take 4 (snd (?ps ! j))
          = piece_header (j = length ?ps - 1) (of_nat (i + j)) (dl_acquisition_id (md_datalogger d))"
      if "j < length ?ps" for j
    proof (cases j)
      case 0
      then show ?thesis using ne by (simp add: pl)
    next
      case (Suc k)
      then have k: "k < length ps" using that by simp
      have "(j = length ?ps - 1) = (k = length ps - 1)" using k Suc by auto
      then show ?thesis using ih(4) k by (simp add: Suc)
    qed
    moreover have "downloads (rs # rss) d = Some (?ps, d')" using one ih(1) by simp
    moreover have "concat (map (\<lambda>p. drop 4 (snd p)) ?ps) = rest @ encode_32_bits_big_endian (crc32 (sent @ rest) 0)"
      using ih(5) by (simp add: pl)
    moreover have "length ?ps = length (rs # rss)" using ih(2) by simp
    ultimately show ?thesis using ih(3) by blast
  qed
qed


text \<open>
  An acquisition is downloaded whole. Once it is completed, with at least one entry logged, and
  no download is under way, requests with a transmission buffer of \<open>M\<close> bytes get, in as many responses as
  the bytes and the CRC need, numbered from 0, the entries that the buffer kept, oldest first,
  followed by their CRC; the last response, and no other, says that it is the last.
\<close>

theorem acquisition_downloaded:
  assumes "ring_holds (dl_encoder (md_datalogger d)) hist" "hist \<noteq> []"
    and "md_owner d \<noteq> None" "datalogging_data_available d" "\<not> md_reading_in_progress d"
    and "\<forall>rs \<in> set rss. rs_ready rs \<and> unat (rs_data_max_length rs) = M" "4 < M"
    and "bs = concat (drop (length hist - unat (re_max_entries (dl_encoder (md_datalogger d)))) hist)"
    and "length rss = (length bs + M - 1) div (M - 4)"
  shows "\<exists>ps d'. downloads rss d = Some (ps, d') \<and> length ps = length rss \<and> \<not> md_reading_in_progress d'
    \<and> (\<forall>j < length ps. fst (ps ! j) = RC_OK \<and> take 4 (snd (ps ! j))
          = piece_header (j = length ps - 1) (of_nat j) (dl_acquisition_id (md_datalogger d)))
    \<and> concat (map (\<lambda>p. drop 4 (snd p)) ps) = bs @ encode_32_bits_big_endian (crc32 bs 0)"
proof -
  define d0 where "d0 = (on_datalogger (\<lambda>dl. dl\<lparr>dl_encoder := reader_reset (dl_encoder dl)\<rparr>) d)
      \<lparr>md_reading_in_progress := True, md_read_acquisition_rolling_counter := 0, md_read_acquisition_crc := 0\<rparr>"
  have start: "downloading d0 0 [] bs"
    using assms(3,4) raw.rewind_pending [OF assms(1,2)]
    by (simp add: downloading_def d0_def on_datalogger_def datalogging_data_available_def assms(8))
  obtain l where "md_owner d = Some l" using assms(3) by blast
  then have first: "datalog_read_acquisition d0 rs = datalog_read_acquisition d rs" for rs
    using assms(4,5)
    by (simp add: datalog_read_acquisition_def d0_def on_datalogger_def datalogging_data_available_def Let_def)
  have same: "downloads rss d0 = downloads rss d" if "rss \<noteq> []"
    using that by (cases rss) (simp_all add: first)
  have "length bs + M - 1 = length bs + 4 + ((M - 4) - 1)" using assms(7) by simp
  then have count: "length rss = (length bs + 4 + ((M - 4) - 1)) div (M - 4)" unfolding assms(9) by (rule arg_cong)
  have "0 < (length bs + 4 + ((M - 4) - 1)) div (M - 4)"
    unfolding div_greater_zero_iff using assms(7) by simp
  with count have "rss \<noteq> []" by (metis less_numeral_extra(3) list.size(3))
  moreover have "dl_acquisition_id (md_datalogger d0) = dl_acquisition_id (md_datalogger d)"
    by (simp add: d0_def on_datalogger_def)
  moreover have "0 < M - 4" using assms(7) by simp
  ultimately show ?thesis
    using downloads_pieces [OF start assms(6) _ refl count] same by simp
qed

text \<open>Two entries of two bytes, read with the smallest transmission buffer.\<close>

definition demo_piece_response :: response where
  "demo_piece_response = \<lparr>rs_command_id = CommandId_DataLogControl, rs_subfunction_id = DataLogControl_ReadAcquisition,
     rs_response_code = 0, rs_data_length = 0, rs_data_max_length = 32, rs_data = replicate 32 0, rs_crc = 0\<rparr>"

definition demo_completed :: "raw_encoder \<Rightarrow> unit datalogging" where
  "demo_completed e =
    \<lparr>md_datalogger =
       \<lparr>dl_config = demo_dl_config, dl_encoder = e, dl_buffer_size = 5, dl_trigger_callback = None, dl_owner = Some 0,
        dl_timebase = Some 0, dl_trigger_timestamp = 0, dl_trigger_cursor_location = 0,
        dl_remaining_data_to_write = 0, dl_log_points_after_trigger = 0, dl_decimation_counter = 0,
        dl_acquisition_id = 3, dl_config_id = 7, dl_manual_trigger = False, dl_config_valid = True,
        dl_state = DL_AcquisitionCompleted,
        dl_active_condition = \<lparr>ac_eval_fn = always_true_evaluate, ac_reset_fn = None, ac_operand_count = 0\<rparr>,
        dl_condition_data = \<lparr>cd_previous_val = 0, cd_initialized = False\<rparr>, dl_rising_edge_timestamp = 0,
        dl_previous_val = True, dl_ops_data = replicate 3 \<lparr>vt_val = 0, vt_valtype = VT_unknown\<rparr>\<rparr>,
     md_bytes_to_acquire_from_trigger_to_completion = 0, md_write_counter_since_trigger = 0,
     md_datalogger_state = DL_AcquisitionCompleted, md_owner = Some 0, md_new_owner = None,
     md_read_acquisition_crc = 0, md_read_acquisition_rolling_counter = 9, md_error = NoError,
     md_request_arm_trigger = False, md_request_ownership_release = False, md_request_disarm_trigger = False,
     md_pending_ownership_release = False, md_reading_in_progress = False\<rparr>"

lemma acquisition_downloaded_witness:
  "\<exists>ps d'. downloads [demo_piece_response]
      (demo_completed (acquire (config_clear :: unit config) demo_dl_config (map demo_log_call [1, 5, 7])
        (re_reset (config_clear :: unit config) demo_dl_config demo_encoder))) = Some (ps, d')
    \<and> concat (map (\<lambda>p. drop 4 (snd p)) ps)
        = [105, 106, 107, 108] @ encode_32_bits_big_endian (crc32 [105, 106, 107, 108] 0)"
proof -
  let ?start = "re_reset (config_clear :: unit config) demo_dl_config demo_encoder"
  let ?e = "acquire (config_clear :: unit config) demo_dl_config (map demo_log_call [1, 5, 7]) ?start"
  let ?hist = "map (snapshot (config_clear :: unit config) demo_dl_config (Some 0)) (map demo_log_call [1, 5, 7])"
  have ok: "\<not> re_error ?start" by (simp add: demo_reset)
  have "length [0xA, 0xB, 0xC, 0xD, 0xE :: u8] = unat (re_buffer_size demo_encoder)" by (simp add: demo_encoder_fields)
  note reset = re_reset_ring [OF demo_encoder_fields(1) this ok demo_supported]
  have snap: "length (snapshot (config_clear :: unit config) demo_dl_config (re_timebase ?start) call) = unat (re_entry_size ?start)" for call
    by (cases call) (simp add: reset(2))
  note acq = acquire_ring [OF reset(1) snap, of "map demo_log_call [1, 5, 7]"]
  have "re_timebase ?start = Some 0" using reset(3) by (simp add: demo_encoder_def)
  with acq(1) have ring: "ring_holds ?e ?hist" by simp
  have cap: "unat (re_max_entries ?e) = 2" using acq(2) by (simp add: demo_reset)
  have bs: "concat (drop (length ?hist - unat (re_max_entries ?e)) ?hist) = [105, 106, 107, 108]"
    unfolding cap by (simp add: demo_snapshot)
  have fields: "dl_encoder (md_datalogger (demo_completed ?e)) = ?e" "md_owner (demo_completed ?e) \<noteq> None"
    "datalogging_data_available (demo_completed ?e)" "\<not> md_reading_in_progress (demo_completed ?e)"
    by (simp_all add: demo_completed_def datalogging_data_available_def)
  have ready: "\<forall>rs \<in> set [demo_piece_response]. rs_ready rs \<and> unat (rs_data_max_length rs) = 32"
    by (simp add: demo_piece_response_def rs_ready_def)
  show ?thesis
    using acquisition_downloaded [of "demo_completed ?e" ?hist "[demo_piece_response]" 32 "[105, 106, 107, 108]",
        unfolded fields(1), OF ring _ fields(2-4) ready _ bs [symmetric]] by (simp del: downloads.simps) blast
qed

end
