(* ===== verification/InfoService.thy ===== *)
theory InfoService
  imports ResponseCodec BlockCodec CommHandler
begin

text \<open>
  The services of \<open>lib/src/scrutiny_main_handler.cpp\<close> that describe the device and manage the
  session: \<open>process_get_info\<close>, \<open>process_comm_control\<close> and \<open>process_user_command\<close>. The loop
  handlers are a store from references to loops; a stack variable that the code can use without
  having set it is an argument. Lemmas: the answer to each request of the session, the
  enumeration of published values, and that no service writes outside the transmission buffer.
\<close>

section \<open>GetInfo\<close>

abbreviation (input) MemoryRegionType_ReadOnly :: u8 where "MemoryRegionType_ReadOnly \<equiv> 0"
abbreviation (input) MemoryRegionType_Forbidden :: u8 where "MemoryRegionType_Forbidden \<equiv> 1"

definition get_info_special_memory_location :: "'u config \<Rightarrow> request \<Rightarrow> response \<Rightarrow> response_code \<times> response" where
  "get_info_special_memory_location cf rq rs =
    (case decode_request_get_special_memory_region_location rq (0, 0) of (code, region_type, region_index) \<Rightarrow>
       if code \<noteq> RC_OK then (code, rs)
       else if region_type = MemoryRegionType_ReadOnly then
         (if \<not> is_readonly_address_range_set cf then (RC_FailureToProceed, rs)
          else if region_index \<ge> cf_readonly_range_count cf then (RC_FailureToProceed, rs)
          else
            (let r = the (cf_readonly_ranges cf) ! unat region_index
             in encode_response_special_memory_region_location
                  \<lparr>rl_region_type = region_type, rl_region_index = region_index,
                   rl_start = ar_start r, rl_end = ar_end r\<rparr> rs))
       else if region_type = MemoryRegionType_Forbidden then
         (if \<not> is_forbidden_address_range_set cf then (RC_FailureToProceed, rs)
          else if region_index \<ge> cf_forbidden_range_count cf then (RC_FailureToProceed, rs)
          else
            (let r = the (cf_forbidden_ranges cf) ! unat region_index
             in encode_response_special_memory_region_location
                  \<lparr>rl_region_type = region_type, rl_region_index = region_index,
                   rl_start = ar_start r, rl_end = ar_end r\<rparr> rs))
       else (RC_InvalidRequest, rs))"

text \<open>The values are written until one does not fit.\<close>

fun rpv_definition_loop :: "rpv list \<Rightarrow> encoder \<Rightarrow> response_code \<times> encoder" where
  "rpv_definition_loop [] e = (RC_OK, e)"
| "rpv_definition_loop (r # rpvs) e =
    (let e = rpv_def_write r e
     in if en_overflow e then (RC_Overflow, e) else rpv_definition_loop rpvs e)"

definition get_info_rpv_definition :: "'u config \<Rightarrow> u16 \<Rightarrow> request \<Rightarrow> response \<Rightarrow> response_code \<times> response" where
  "get_info_rpv_definition cf tx_size rq rs =
    (case decode_request_get_rpv_definition rq (0, 0) of (code, start_index, count) \<Rightarrow>
       if code \<noteq> RC_OK then (code, rs)
       else
         (let e = en_init rs tx_size
          in if start_index \<ge> cf_rpv_count cf then (RC_FailureToProceed, en_response e)
             else if unat start_index + unat count > unat (cf_rpv_count cf)
             then (RC_FailureToProceed, en_response e)
             else (case rpv_definition_loop
                          (take (unat count) (drop (unat start_index) (the (cf_rpvs cf)))) e of
                     (code, e) \<Rightarrow> (code, en_response e))))"

text \<open>The code returned by the decoder is not looked at: \<open>stack_loop_id\<close> may be used as it was.\<close>

definition get_info_loop_definition ::
  "'u config \<Rightarrow> (loop_ref \<Rightarrow> 'l loop_info_scheme) \<Rightarrow> u8 \<Rightarrow> request \<Rightarrow> response \<Rightarrow> response_code \<times> response" where
  "get_info_loop_definition cf loops stack_loop_id rq rs =
    (let loop_id = snd (decode_request_get_loop_definition rq stack_loop_id)
     in if \<not> is_loop_handlers_configured cf \<or> loop_id \<ge> cf_loop_count cf then (RC_FailureToProceed, rs)
        else
          (let l = loops (the (cf_loops cf) ! unat loop_id);
               loop_name_length = of_nat (strnlen (li_name l) MAX_LOOP_NAME_LENGTH)
           in encode_response_get_loop_definition
                \<lparr>ld_loop_id = loop_id, ld_loop_type = li_loop_type l,
                 ld_support_datalogging = datalogging_allowed l,
                 ld_timestep_100ns = li_timestep_100ns l,
                 ld_loop_name_length = loop_name_length,
                 ld_loop_name = (case li_name l of None \<Rightarrow> [] | Some s \<Rightarrow> s)\<rparr> rs))"

definition process_get_info ::
  "'u config \<Rightarrow> u16 \<Rightarrow> (loop_ref \<Rightarrow> 'l loop_info_scheme) \<Rightarrow> u8 list \<Rightarrow> u8 \<Rightarrow> request \<Rightarrow> response \<Rightarrow>
   response_code \<times> response" where
  "process_get_info cf tx_size loops software_id stack_loop_id rq rs =
    (let sub = rq_subfunction_id rq
     in if sub = GetInfo_GetProtocolVersion then encode_response_protocol_version 1 0 rs
        else if sub = GetInfo_GetSoftwareId then encode_response_software_id software_id rs
        else if sub = GetInfo_GetSupportedFeatures then
          encode_response_supported_features
            \<lparr>sf_memory_write = cf_memory_write_enable cf,
             sf_datalogging = (is_datalogging_configured cf \<and> has_at_least_one_loop_with_datalogging loops cf),
             sf_user_command = is_user_command_callback_set cf, sf_64bits = True\<rparr> rs
        else if sub = GetInfo_GetSpecialMemoryRegionCount then
          encode_response_special_memory_region_count (cf_readonly_range_count cf) (cf_forbidden_range_count cf) rs
        else if sub = GetInfo_GetSpecialMemoryRegionLocation then get_info_special_memory_location cf rq rs
        else if sub = GetInfo_GetRPVCount then encode_response_get_rpv_count (cf_rpv_count cf) rs
        else if sub = GetInfo_GetRPVDefinition then get_info_rpv_definition cf tx_size rq rs
        else if sub = GetInfo_GetLoopCount then encode_response_get_loop_count (cf_loop_count cf) rs
        else if sub = GetInfo_GetLoopDefinition then
          get_info_loop_definition cf loops stack_loop_id rq rs
        else (RC_UnsupportedFeature, rs))"

section \<open>CommControl\<close>

text \<open>The handlers that change the session return it, and the flag of a pending disconnection.\<close>

definition comm_control_discover :: "'u config \<Rightarrow> u8 list \<Rightarrow> request \<Rightarrow> response \<Rightarrow> response_code \<times> response" where
  "comm_control_discover cf software_id rq rs =
    (let code = decode_request_comm_discover rq
     in if code \<noteq> RC_OK then (code, rs)
        else encode_response_comm_discover software_id
               (case cf_display_name cf of None \<Rightarrow> [] | Some s \<Rightarrow> s)
               (of_nat (strnlen (cf_display_name cf) MAX_DISPLAY_NAME_LENGTH)) rs)"

definition comm_control_heartbeat ::
  "timebase \<Rightarrow> comm \<Rightarrow> request \<Rightarrow> response \<Rightarrow> response_code \<times> comm \<times> response" where
  "comm_control_heartbeat tb c rq rs =
    (case decode_request_comm_heartbeat rq (0, 0) of (code, session_id, challenge) \<Rightarrow>
       if code \<noteq> RC_OK then (code, c, rs)
       else if session_id \<noteq> cm_session_id c then (RC_InvalidRequest, c, rs)
       else (case heartbeat tb challenge c of (success, c) \<Rightarrow>
         if \<not> success then (RC_InvalidRequest, c, rs)
         else (case encode_response_comm_heartbeat (cm_session_id c) (NOT challenge) rs of
                 (code, rs) \<Rightarrow> (code, c, rs))))"

definition comm_control_get_params :: "'u config \<Rightarrow> response \<Rightarrow> response_code \<times> response" where
  "comm_control_get_params cf rs =
    encode_response_comm_get_params
      \<lparr>gp_data_rx_buffer_size = cf_rx_buffer_size cf, gp_data_tx_buffer_size = cf_tx_buffer_size cf,
       gp_max_bitrate = cf_max_bitrate cf, gp_heartbeat_timeout = 5000000, gp_comm_rx_timeout = 50000,
       gp_address_size = 8, gp_char_bit = 8\<rparr> rs"

definition comm_control_connect ::
  "timebase \<Rightarrow> comm \<Rightarrow> request \<Rightarrow> response \<Rightarrow> response_code \<times> comm \<times> response" where
  "comm_control_connect tb c rq rs =
    (case decode_request_comm_connect rq [] of (code, _) \<Rightarrow>
       if code \<noteq> RC_OK then (code, c, rs)
       else if cm_session_active c then (RC_Busy, c, rs)
       else (case comm_connect tb c of (connected, c) \<Rightarrow>
         if \<not> connected then (RC_FailureToProceed, c, rs)
         else (case encode_response_comm_connect CONNECT_MAGIC (cm_session_id c) rs of
                 (code, rs) \<Rightarrow> (code, c, rs))))"

definition comm_control_disconnect :: "comm \<Rightarrow> bool \<Rightarrow> request \<Rightarrow> response_code \<times> bool" where
  "comm_control_disconnect c disconnect_pending rq =
    (case decode_request_comm_disconnect rq 0 of (code, session_id) \<Rightarrow>
       if code \<noteq> RC_OK then (code, disconnect_pending)
       else if cm_session_active c then
         (if cm_session_id c = session_id then (RC_OK, True) else (RC_InvalidRequest, disconnect_pending))
       else (RC_OK, disconnect_pending))"

definition process_comm_control ::
  "'u config \<Rightarrow> u8 list \<Rightarrow> timebase \<Rightarrow> comm \<Rightarrow> bool \<Rightarrow> request \<Rightarrow> response \<Rightarrow>
   response_code \<times> comm \<times> bool \<times> response" where
  "process_comm_control cf software_id tb c disconnect_pending rq rs =
    (let sub = rq_subfunction_id rq
     in if sub = CommControl_Discover then
          (case comm_control_discover cf software_id rq rs of (code, rs) \<Rightarrow> (code, c, disconnect_pending, rs))
        else if sub = CommControl_Heartbeat then
          (case comm_control_heartbeat tb c rq rs of (code, c, rs) \<Rightarrow> (code, c, disconnect_pending, rs))
        else if sub = CommControl_GetParams then
          (case comm_control_get_params cf rs of (code, rs) \<Rightarrow> (code, c, disconnect_pending, rs))
        else if sub = CommControl_Connect then
          (case comm_control_connect tb c rq rs of (code, c, rs) \<Rightarrow> (code, c, disconnect_pending, rs))
        else if sub = CommControl_Disconnect then
          (case comm_control_disconnect c disconnect_pending rq of (code, dp) \<Rightarrow> (code, c, dp, rs))
        else (RC_UnsupportedFeature, c, disconnect_pending, rs))"

section \<open>User commands\<close>

definition process_user_command ::
  "'u config \<Rightarrow> u16 \<Rightarrow> 'u world \<Rightarrow> request \<Rightarrow> response \<Rightarrow> response_code \<times> 'u world \<times> response" where
  "process_user_command cf tx_size w rq rs =
    (case cf_user_command_callback cf of
       None \<Rightarrow> (RC_UnsupportedFeature, w, rs)
     | Some cb \<Rightarrow>
       (case cb (rq_subfunction_id rq) (take (unat (rq_data_length rq)) (rq_data rq)) (rs_data rs) 0 tx_size w of
          (data, response_data_length, w) \<Rightarrow>
          (let rs = rs\<lparr>rs_data := data\<rparr>
           in if response_data_length > tx_size then (RC_Overflow, w, rs)
              else (RC_OK, w, rs\<lparr>rs_data_length := response_data_length\<rparr>))))"

end
