(* ===== verification/MemoryControl.thy ===== *)
theory MemoryControl
  imports BlockCodec
begin

text \<open>
  \<open>MainHandler::process_memory_control\<close> of \<open>lib/src/scrutiny_main_handler.cpp\<close>: the requests that
  read and write the target's memory and the published values. The memory is that of the world;
  the library's own objects are not part of it. A loop of the handler is a recursive function in
  the option monad (a request could make it run forever if a parser stopped moving): the lemmas
  show that every loop returns. The stack variables that the code leaves uninitialised are
  arguments. Lemmas: the exact response to a well-formed request, and what a request of any bytes
  can read and write.
\<close>

section \<open>Access to the target's memory\<close>

text \<open>\<open>memcpy\<close> to the memory, and the byte that a masked write stores.\<close>

definition mem_write :: "memory \<Rightarrow> uintptr \<Rightarrow> u8 list \<Rightarrow> memory" where
  "mem_write m a bs = (\<lambda>x. if unat (x - a) < length bs then bs ! unat (x - a) else m x)"

definition masked_byte :: "u8 \<Rightarrow> u8 \<Rightarrow> u8 \<Rightarrow> u8" where
  "masked_byte temp source msk =
    (let temp = temp OR (source AND msk)
     in temp AND (source OR NOT msk))"

definition masked_write :: "memory \<Rightarrow> uintptr \<Rightarrow> u8 list \<Rightarrow> u8 list \<Rightarrow> nat \<Rightarrow> memory" where
  "masked_write m a source msk n =
    fold (\<lambda>i m. m(a + of_nat i := masked_byte (m (a + of_nat i)) (source ! i) (msk ! i))) [0..<n] m"

definition touches_forbidden_block :: "'u config \<Rightarrow> mem_block \<Rightarrow> bool" where
  "touches_forbidden_block cf blk =
    touches_forbidden_region cf (mb_start_address blk) (unat (mb_length blk))"

definition touches_readonly_block :: "'u config \<Rightarrow> mem_block \<Rightarrow> bool" where
  "touches_readonly_block cf blk =
    touches_readonly_region cf (mb_start_address blk) (unat (mb_length blk))"

section \<open>The handler\<close>

text \<open>What the handler finds on its stack.\<close>

record mc_stack =
  stk_block :: mem_block
  stk_rpv :: rpv
  stk_value :: anytype
  stk_id :: u16

partial_function (option) read_loop ::
  "'u config \<Rightarrow> memory \<Rightarrow> read_parser \<Rightarrow> mem_block \<Rightarrow> encoder \<Rightarrow> (response_code \<times> encoder) option" where
  "read_loop cf m p blk e =
    (if rp_finished p then Some (RC_OK, e)
     else case rp_next p blk of (p, blk) \<Rightarrow>
       if rp_invalid p then Some (RC_InvalidRequest, e)
       else if touches_forbidden_block cf blk then Some (RC_Forbidden, e)
       else let e = read_mem_write m blk e
            in if en_overflow e then Some (RC_Overflow, e) else read_loop cf m p blk e)"

definition process_memory_read ::
  "'u config \<Rightarrow> u16 \<Rightarrow> memory \<Rightarrow> mem_block \<Rightarrow> request \<Rightarrow> response \<Rightarrow> (response_code \<times> response) option" where
  "process_memory_read cf tx_size m blk rq rs =
    (case rp_init rq blk of
       None \<Rightarrow> None
     | Some p \<Rightarrow>
       (let e = en_init rs tx_size
        in if rp_invalid p then Some (RC_InvalidRequest, en_response e)
           else if rp_required_tx_buffer_size p > tx_size then Some (RC_Overflow, en_response e)
           else map_option (\<lambda>(code, e). (code, en_response e)) (read_loop cf m p blk e)))"

partial_function (option) write_loop ::
  "'u config \<Rightarrow> bool \<Rightarrow> memory \<Rightarrow> write_parser \<Rightarrow> mem_block \<Rightarrow> encoder \<Rightarrow>
   (response_code \<times> memory \<times> encoder) option" where
  "write_loop cf masked m p blk e =
    (if wp_finished p then Some (RC_OK, m, e)
     else case wp_next p blk of (p, blk) \<Rightarrow>
       if wp_invalid p then Some (RC_InvalidRequest, m, e)
       else if touches_forbidden_block cf blk then Some (RC_Forbidden, m, e)
       else if touches_readonly_block cf blk then Some (RC_Forbidden, m, e)
       else let e = write_mem_write blk e;
                m = (if \<not> masked
                     then mem_write m (mb_start_address blk)
                            (take (unat (mb_length blk)) (mb_source_data blk))
                     else masked_write m (mb_start_address blk) (mb_source_data blk)
                            (the (mb_mask blk)) (unat (mb_length blk)))
            in write_loop cf masked m p blk e)"

definition process_memory_write ::
  "'u config \<Rightarrow> u16 \<Rightarrow> bool \<Rightarrow> memory \<Rightarrow> mem_block \<Rightarrow> request \<Rightarrow> response \<Rightarrow>
   (response_code \<times> memory \<times> response) option" where
  "process_memory_write cf tx_size masked m blk rq rs =
    (if \<not> cf_memory_write_enable cf then Some (RC_Forbidden, m, rs)
     else case wp_init rq masked blk of
       None \<Rightarrow> None
     | Some p \<Rightarrow>
       (let e = en_init rs tx_size
        in if wp_invalid p then Some (RC_InvalidRequest, m, en_response e)
           else if wp_required_tx_buffer_size p > tx_size then Some (RC_Overflow, m, en_response e)
           else map_option (\<lambda>(code, m, e). (code, m, en_response e)) (write_loop cf masked m p blk e)))"

text \<open>The value and the published value are stack variables that each turn of the loop finds again.\<close>

partial_function (option) read_rpv_loop ::
  "'u config \<Rightarrow> 'u rpv_read_callback \<Rightarrow> 'u world \<Rightarrow> rpv_parser \<Rightarrow> u16 \<Rightarrow> anytype \<Rightarrow> encoder \<Rightarrow>
   (response_code \<times> 'u world \<times> encoder) option" where
  "read_rpv_loop cf cb w p i v e =
    (if vp_finished p then Some (RC_OK, w, e)
     else case read_rpv_next p i of (ok_to_process, p, i) \<Rightarrow>
       if vp_invalid p then Some (RC_InvalidRequest, w, e)
       else if \<not> ok_to_process then read_rpv_loop cf cb w p i v e
       else case get_rpv cf i of
         None \<Rightarrow> Some (RC_FailureToProceed, w, e)
       | Some rpv \<Rightarrow>
         (case cb rpv v None w of (callback_success, v, w) \<Rightarrow>
           if \<not> callback_success then Some (RC_FailureToProceed, w, e)
           else let e = read_rpv_write rpv v e
                in if en_overflow e then Some (RC_Overflow, w, e) else read_rpv_loop cf cb w p i v e))"

definition process_read_rpv ::
  "'u config \<Rightarrow> u16 \<Rightarrow> 'u world \<Rightarrow> u16 \<Rightarrow> anytype \<Rightarrow> request \<Rightarrow> response \<Rightarrow>
   (response_code \<times> 'u world \<times> response) option" where
  "process_read_rpv cf tx_size w i v rq rs =
    (if \<not> is_read_published_values_configured cf then Some (RC_UnsupportedFeature, w, rs)
     else
       (let p = read_rpv_init rq; e = en_init rs tx_size
        in if vp_invalid p then Some (RC_InvalidRequest, w, en_response e)
           else map_option (\<lambda>(code, w, e). (code, w, en_response e))
             (read_rpv_loop cf (the (cf_rpv_read_callback cf)) w p i v e)))"

partial_function (option) write_rpv_loop ::
  "'u config \<Rightarrow> 'u rpv_write_callback \<Rightarrow> 'u world \<Rightarrow> rpv_parser \<Rightarrow> rpv \<Rightarrow> anytype \<Rightarrow> encoder \<Rightarrow>
   (response_code \<times> 'u world \<times> encoder) option" where
  "write_rpv_loop cf cb w p rpv v e =
    (if vp_finished p then Some (RC_OK, w, e)
     else case write_rpv_next (get_rpv cf) p rpv v of (ok_to_process, p, rpv, v) \<Rightarrow>
       if vp_invalid p then Some (RC_InvalidRequest, w, e)
       else if \<not> ok_to_process then write_rpv_loop cf cb w p rpv v e
       else case cb rpv v w of (write_success, w) \<Rightarrow>
         if \<not> write_success then Some (RC_FailureToProceed, w, e)
         else let e = write_rpv_write rpv e
              in if en_overflow e then Some (RC_Overflow, w, e) else write_rpv_loop cf cb w p rpv v e)"

definition process_write_rpv ::
  "'u config \<Rightarrow> u16 \<Rightarrow> 'u world \<Rightarrow> rpv \<Rightarrow> anytype \<Rightarrow> request \<Rightarrow> response \<Rightarrow>
   (response_code \<times> 'u world \<times> response) option" where
  "process_write_rpv cf tx_size w rpv v rq rs =
    (if \<not> is_write_published_values_configured cf then Some (RC_UnsupportedFeature, w, rs)
     else
       (let p = write_rpv_init rq; e = en_init rs tx_size
        in if vp_invalid p then Some (RC_InvalidRequest, w, en_response e)
           else map_option (\<lambda>(code, w, e). (code, w, en_response e))
             (write_rpv_loop cf (the (cf_rpv_write_callback cf)) w p rpv v e)))"

definition process_memory_control ::
  "'u config \<Rightarrow> u16 \<Rightarrow> 'u world \<Rightarrow> mc_stack \<Rightarrow> request \<Rightarrow> response \<Rightarrow>
   (response_code \<times> 'u world \<times> response) option" where
  "process_memory_control cf tx_size w stk rq rs =
    (let sub = rq_subfunction_id rq
     in if sub = MemoryControl_Read then
          map_option (\<lambda>(code, rs). (code, w, rs))
            (process_memory_read cf tx_size (w_memory w) (stk_block stk) rq rs)
        else if sub = MemoryControl_Write \<or> sub = MemoryControl_WriteMasked then
          map_option (\<lambda>(code, m, rs). (code, w\<lparr>w_memory := m\<rparr>, rs))
            (process_memory_write cf tx_size (sub = MemoryControl_WriteMasked) (w_memory w)
              (stk_block stk) rq rs)
        else if sub = MemoryControl_ReadRPV then
          process_read_rpv cf tx_size w (stk_id stk) (stk_value stk) rq rs
        else if sub = MemoryControl_WriteRPV then
          process_write_rpv cf tx_size w (stk_rpv stk) (stk_value stk) rq rs
        else Some (RC_UnsupportedFeature, w, rs))"

section \<open>The handler returns\<close>

lemma read_loop_total: "\<exists>r. read_loop cf m p blk e = Some r"
proof (induction "unat (rp_request_datasize p - rp_bytes_read p)" arbitrary: p blk e rule: less_induct)
  case less
  obtain p' blk' where next': "rp_next p blk = (p', blk')" by force
  show ?case
  proof (cases "rp_invalid p' \<or> rp_finished p'")
    case True
    then show ?thesis
      by (subst read_loop.simps) (auto simp: next' Let_def read_loop.simps [of cf m p'])
  next
    case False
    then have "unat (rp_request_datasize p' - rp_bytes_read p') < unat (rp_request_datasize p - rp_bytes_read p)"
      using rp_next_measure [OF next'] by blast
    from less.hyps [OF this] False show ?thesis
      by (subst read_loop.simps) (simp add: next' Let_def)
  qed
qed

lemma write_loop_total:
  "unat (wp_bytes_read p) \<le> unat (wp_size_limit p) \<Longrightarrow> \<exists>r. write_loop cf masked m p blk e = Some r"
proof (induction "unat (wp_size_limit p) - unat (wp_bytes_read p)" arbitrary: p m blk e rule: less_induct)
  case less
  obtain p' blk' where next': "wp_next p blk = (p', blk')" by force
  show ?case
  proof (cases "wp_invalid p' \<or> wp_finished p'")
    case True
    then show ?thesis
      by (subst write_loop.simps) (auto simp: next' Let_def write_loop.simps [of cf masked _ p'])
  next
    case False
    with wp_next_measure [OF next' _ _ less.prems]
    have "unat (wp_size_limit p') - unat (wp_bytes_read p') < unat (wp_size_limit p) - unat (wp_bytes_read p)"
      "unat (wp_bytes_read p') \<le> unat (wp_size_limit p')" by auto
    from less.hyps [OF this] False show ?thesis
      by (subst write_loop.simps) (simp add: next' Let_def)
  qed
qed

text \<open>A published-value parser that goes on has moved.\<close>

definition vp_left :: "rpv_parser \<Rightarrow> nat" where
  "vp_left p = unat (vp_request_len p) - unat (vp_bytes_read p)"

definition vp_inside :: "rpv_parser \<Rightarrow> bool" where
  "vp_inside p = (unat (vp_bytes_read p) \<le> unat (vp_request_len p))"

lemma vp_advance:
  assumes "vp_inside p" "n \<le> vp_left p"
  shows "unat (vp_bytes_read p + of_nat n) = unat (vp_bytes_read p) + n"
proof -
  have lt: "unat (vp_request_len p) < 65536" by simp
  have "unat (vp_bytes_read p) + n < 65536"
    using assms lt unfolding vp_inside_def vp_left_def by linarith
  then have "unat (vp_bytes_read p) + n < 65536" "n < 65536" by simp_all
  then show ?thesis by (simp add: unat_add_u16)
qed

lemma vp_left_word:
  "vp_inside p \<Longrightarrow> unat (vp_request_len p - vp_bytes_read p) = vp_left p"
  "vp_inside p \<Longrightarrow> uint (vp_request_len p) - uint (vp_bytes_read p) = int (vp_left p)"
   by (simp_all add: vp_inside_def vp_left_def unat_sub word_le_nat_alt flip: uint_nat)

lemma unat_ucast_u8_u16: "unat (ucast (b :: u8) :: u16) = unat b"
  using unat_u8_lt [of b] by (simp add: unsigned_ucast_eq take_bit_nat_eq_self del: unat_u8_lt)

lemma read_rpv_next_measure:
  assumes "read_rpv_next p i = (ok, p', i')" "vp_inside p" "\<not> vp_invalid p'" "\<not> vp_finished p'"
  shows "vp_left p' < vp_left p" "vp_inside p'"
proof -
  have run: "\<not> vp_finished p" "\<not> vp_invalid p" "2 \<le> vp_left p"
    "p' = p\<lparr>vp_bytes_read := vp_bytes_read p + 2\<rparr>"
    using assms by (auto simp: read_rpv_next_def Let_def vp_left_word split: if_splits)
  with vp_advance [OF assms(2) run(3)] assms(2)
  show "vp_left p' < vp_left p" "vp_inside p'" by (auto simp: vp_left_def vp_inside_def)
qed

lemma read_rpv_loop_total: "vp_inside p \<Longrightarrow> \<exists>r. read_rpv_loop cf cb w p i v e = Some r"
proof (induction "vp_left p" arbitrary: p i v w e rule: less_induct)
  case less
  obtain ok p' i' where next': "read_rpv_next p i = (ok, p', i')" by (cases "read_rpv_next p i") auto
  show ?case
  proof (cases "vp_invalid p' \<or> vp_finished p'")
    case True
    then show ?thesis
      by (subst read_rpv_loop.simps)
        (auto simp: next' Let_def read_rpv_loop.simps [of cf cb _ p'] split: option.split prod.split)
  next
    case False
    then have m: "vp_left p' < vp_left p" "vp_inside p'"
      using read_rpv_next_measure [OF next' less.prems] by blast+
    have go: "\<exists>a b c. read_rpv_loop cf cb w p' i' v e = Some (a, b, c)" for w v e
      using less.hyps [OF m, of w i' v e] by (metis prod_cases3)
    show ?thesis
      using False by (subst read_rpv_loop.simps)
        (auto simp: next' Let_def go split: option.split prod.split)
  qed
qed

lemma write_rpv_next_measure:
  assumes "write_rpv_next lookup p r v = (ok, p', r', v')" "vp_inside p" "\<not> vp_invalid p'" "\<not> vp_finished p'"
  shows "vp_left p' < vp_left p" "vp_inside p'"
proof -
  define i where "i = decode_16_bits_big_endian (drop (unat (vp_bytes_read p)) (vp_buffer p))"
  define q where "q = p\<lparr>vp_bytes_read := vp_bytes_read p + 2\<rparr>"
  have run: "\<not> vp_finished p" "\<not> vp_invalid p" "2 \<le> vp_left p"
    using assms by (auto simp: write_rpv_next_def Let_def word_less_nat_alt vp_left_word split: if_splits)
  have q: "unat (vp_bytes_read q) = unat (vp_bytes_read p) + 2" "vp_inside q"
    using vp_advance [OF assms(2) run(3)] run(3) assms(2) by (auto simp: q_def vp_left_def vp_inside_def)
  have lens: "vp_request_len q = vp_request_len p" by (simp add: q_def)
  obtain rv where rv: "lookup i = Some rv"
    using assms(1,3) run by (auto simp: write_rpv_next_def Let_def i_def split: if_splits option.splits)
  define n where "n = get_type_size_8bits (rpv_type rv)"
  have fits: "\<not> ucast n > vp_request_len q - vp_bytes_read q"
    using assms(1,3) run rv
    by (auto simp: write_rpv_next_def Let_def i_def [symmetric] q_def n_def vp_left_word word_less_nat_alt
        split: if_splits)
  then have n: "unat n \<le> vp_left q"
    using q(2) by (simp add: word_less_nat_alt vp_left_word unat_ucast_u8_u16)
  have p': "p' = q\<lparr>vp_bytes_read := vp_bytes_read q + ucast n\<rparr>"
    using assms(1,3,4) run rv fits
    by (auto simp: write_rpv_next_def Let_def i_def [symmetric] q_def n_def [symmetric] vp_left_word
        word_less_nat_alt split: if_splits prod.splits)
  have "unat (vp_bytes_read q + ucast n) = unat (vp_bytes_read q) + unat n"
    using vp_advance [OF q(2) n] by simp
  then show "vp_left p' < vp_left p" "vp_inside p'"
    using n run(3) q by (auto simp: p' vp_left_def vp_inside_def lens)
qed

lemma write_rpv_loop_total: "vp_inside p \<Longrightarrow> \<exists>r. write_rpv_loop cf cb w p rv v e = Some r"
proof (induction "vp_left p" arbitrary: p rv v w e rule: less_induct)
  case less
  obtain ok p' rv' v' where next': "write_rpv_next (get_rpv cf) p rv v = (ok, p', rv', v')"
    by (cases "write_rpv_next (get_rpv cf) p rv v") auto
  show ?case
  proof (cases "vp_invalid p' \<or> vp_finished p'")
    case True
    then show ?thesis
      by (subst write_rpv_loop.simps)
        (auto simp: next' Let_def write_rpv_loop.simps [of cf cb _ p'] split: prod.split)
  next
    case False
    then have m: "vp_left p' < vp_left p" "vp_inside p'"
      using write_rpv_next_measure [OF next' less.prems] by blast+
    have go: "\<exists>a b c. write_rpv_loop cf cb w p' rv' v' e = Some (a, b, c)" for w e
      using less.hyps [OF m, of w rv' v' e] by (metis prod_cases3)
    show ?thesis
      using False by (subst write_rpv_loop.simps)
        (auto simp: next' Let_def go split: prod.split)
  qed
qed

section \<open>What the stores change\<close>

text \<open>A masked byte keeps the bits outside the mask and takes the others from the data.\<close>

lemma masked_byte_bits: "masked_byte t s k = (t AND NOT k) OR (s AND k)"
  by (rule bit_word_eqI) (auto simp: masked_byte_def bit_simps)

definition masked_bytes :: "memory \<Rightarrow> uintptr \<Rightarrow> u8 list \<Rightarrow> u8 list \<Rightarrow> u8 list" where
  "masked_bytes m a ds ms =
    map (\<lambda>i. (m (a + of_nat i) AND NOT (ms ! i)) OR (ds ! i AND ms ! i)) [0..<length ds]"

lemma address_offset: "n < 65536 \<Longrightarrow> unat (of_nat n :: uintptr) = n"
  by (simp add: unat_of_nat take_bit_eq_mod)

lemma address_cancel: "a + of_nat (unat (x - a)) = (x :: uintptr)"
  by simp

lemma mem_write_other: "unat (x - a) \<ge> length bs \<Longrightarrow> mem_write m a bs x = m x"
  by (simp add: mem_write_def)

lemma mem_write_same: "i < length bs \<Longrightarrow> length bs < 65536 \<Longrightarrow> mem_write m a bs (a + of_nat i) = bs ! i"
  by (simp add: mem_write_def address_offset)

lemma mem_write_snoc:
  assumes "length bs < 65535"
  shows "(mem_write m a bs)(a + of_nat (length bs) := b) = mem_write m a (bs @ [b])"
proof
  fix x
  show "((mem_write m a bs)(a + of_nat (length bs) := b)) x = mem_write m a (bs @ [b]) x"
  proof (cases "x = a + of_nat (length bs)")
    case True
    then show ?thesis using assms by (simp add: mem_write_def address_offset)
  next
    case False
    have "unat (x - a) \<noteq> length bs" using False address_cancel [of a x] by metis
    with False show ?thesis by (simp add: mem_write_def nth_append)
  qed
qed

lemma masked_write_bytes:
  assumes "n = length ds" "n < 65536"
  shows "masked_write m a ds ms n = mem_write m a (masked_bytes m a ds ms)"
proof -
  have "masked_write m a ds ms k =
      mem_write m a (map (\<lambda>i. (m (a + of_nat i) AND NOT (ms ! i)) OR (ds ! i AND ms ! i)) [0..<k])"
    if "k \<le> n" for k
    using that
  proof (induction k)
    case 0
    show ?case by (simp add: masked_write_def mem_write_def)
  next
    case (Suc k)
    let ?bs = "map (\<lambda>i. (m (a + of_nat i) AND NOT (ms ! i)) OR (ds ! i AND ms ! i)) [0..<k]"
    have keep: "mem_write m a ?bs (a + of_nat k) = m (a + of_nat k)"
      using Suc.prems assms(2) by (simp add: mem_write_def address_offset)
    have "masked_write m a ds ms (Suc k) = (mem_write m a ?bs)(a + of_nat k :=
        masked_byte (mem_write m a ?bs (a + of_nat k)) (ds ! k) (ms ! k))"
      using Suc by (simp add: masked_write_def)
    with Suc.prems assms(2) mem_write_snoc [of ?bs m a] keep show ?case
      by (simp add: masked_byte_bits)
  qed
  from this [of n] assms(1) show ?thesis by (simp add: masked_bytes_def)
qed

text \<open>The store of one block of a write request, and of all of them in their order.\<close>

definition store_block :: "bool \<Rightarrow> write_block \<Rightarrow> memory \<Rightarrow> memory" where
  "store_block masked b m = (case b of (a, ds, ms) \<Rightarrow>
     mem_write m a (if masked then masked_bytes m a ds ms else ds))"

definition store_blocks :: "bool \<Rightarrow> write_block list \<Rightarrow> memory \<Rightarrow> memory" where
  "store_blocks masked bs = fold (store_block masked) bs"

section \<open>Well-formed requests\<close>

text \<open>The blocks of a request do not touch what the configuration protects.\<close>

definition read_allowed :: "'u config \<Rightarrow> uintptr \<times> u16 \<Rightarrow> bool" where
  "read_allowed cf b = (\<not> touches_forbidden_region cf (fst b) (unat (snd b)))"

definition write_allowed :: "'u config \<Rightarrow> write_block \<Rightarrow> bool" where
  "write_allowed cf b = (case b of (a, ds, ms) \<Rightarrow>
     \<not> touches_forbidden_region cf a (length ds) \<and> \<not> touches_readonly_region cf a (length ds))"

definition read_response :: "memory \<Rightarrow> (uintptr \<times> u16) list \<Rightarrow> u8 list" where
  "read_response m bs = concat (map (\<lambda>(a, l). read_item m a l) bs)"

definition write_response :: "write_block list \<Rightarrow> u8 list" where
  "write_response bs = concat (map (\<lambda>(a, ds, ms). ack_item a (of_nat (length ds))) bs)"

definition response_size :: "(uintptr \<times> u16) list \<Rightarrow> nat" where
  "response_size bs = sum_list (map block_need bs)"

lemma read_response_simps [simp]:
  "read_response m [] = []" "read_response m ((a, l) # bs) = read_item m a l @ read_response m bs"
  by (simp_all add: read_response_def)

lemma write_response_simps [simp]:
  "write_response [] = []"
  "write_response ((a, ds, ms) # bs) = ack_item a (of_nat (length ds)) @ write_response bs"
  by (simp_all add: write_response_def)

lemma response_size_simps [simp]:
  "response_size [] = 0" "response_size (b # bs) = block_need b + response_size bs"
  by (simp_all add: response_size_def)

lemma length_read_response: "length (read_response m bs) = response_size bs"
  by (induction bs) (auto simp: length_read_item block_need_def)

lemma length_write_response: "length (write_response bs) = 10 * length bs"
  by (induction bs) (auto simp: length_ack_item)

lemma appends_trans: "appends xs e e' \<Longrightarrow> appends ys e' e'' \<Longrightarrow> appends (xs @ ys) e e''"
  by (simp add: appends_def)

lemma appends_remaining:
  assumes "appends xs e e'" "en_inv e"
  shows "en_remaining e = length xs + en_remaining e'"
proof -
  have "en_inv e'" using assms(1) by (simp add: appends_def)
  with en_remaining_nat [of e'] en_remaining_nat [of e] assms show ?thesis
    by (auto simp: appends_def en_inv_def)
qed

lemma appends_nil: "en_inv e \<Longrightarrow> appends [] e e"
  by (simp add: appends_def)

text \<open>The second traversal, from a parser that the validation has accepted.\<close>

lemma read_loop_blocks:
  assumes "rp_suffix p bs" "bs \<noteq> []" "\<forall>b\<in>set bs. block_need b \<le> tx_room (rp_required_tx_buffer_size p)"
    "\<forall>b\<in>set bs. read_allowed cf b" "en_inv e" "\<not> en_overflow e" "unat (en_size_limit e) \<le> 65519"
    "response_size bs \<le> en_remaining e"
  shows "\<exists>e'. read_loop cf m p blk e = Some (RC_OK, e') \<and> appends (read_response m bs) e e'"
  using assms
proof (induction bs arbitrary: p blk e)
  case Nil
  then show ?case by simp
next
  case (Cons b bs)
  obtain a l where b: "b = (a, l)" by force
  let ?p = "p\<lparr>rp_bytes_read := rp_bytes_read p + 10, rp_finished := (bs = [])\<rparr>"
  let ?blk = "blk\<lparr>mb_start_address := a, mb_length := l\<rparr>"
  let ?e = "read_mem_write m ?blk e"
  note suf = Cons.prems(1) [unfolded b]
  have need: "block_need (a, l) \<le> tx_room (rp_required_tx_buffer_size p)"
    using Cons.prems(3) b by simp
  note step = rp_next_suffix [OF suf need]
  have app: "appends (read_item m a l) e ?e"
    using read_mem_write_fits [OF Cons.prems(5), of ?blk m] Cons.prems(7,8) b
    by (simp add: block_need_def)
  have run: "\<not> rp_finished p" "\<not> rp_invalid p" using suf by (simp_all add: rp_suffix_def)
  have ok: "\<not> touches_forbidden_block cf ?blk"
    using Cons.prems(4) b by (simp add: touches_forbidden_block_def read_allowed_def)
  have e: "en_inv ?e" "\<not> en_overflow ?e" "en_size_limit ?e = en_size_limit e"
    using app Cons.prems(6) by (simp_all add: appends_def)
  have room: "response_size bs \<le> en_remaining ?e"
    using appends_remaining [OF app Cons.prems(5)] Cons.prems(8) b by (simp add: length_read_item block_need_def)
  have loop: "read_loop cf m p blk e = read_loop cf m ?p ?blk ?e"
    using step(1) [of blk] run ok e(2) by (subst read_loop.simps) (simp add: Let_def)
  show ?case
  proof (cases "bs = []")
    case True
    then have "read_loop cf m ?p ?blk ?e = Some (RC_OK, ?e)" by (subst read_loop.simps) simp
    with loop app True b show ?thesis by simp
  next
    case False
    have reqs: "\<forall>b\<in>set bs. block_need b \<le> tx_room (rp_required_tx_buffer_size ?p)"
      "\<forall>b\<in>set bs. read_allowed cf b" "unat (en_size_limit ?e) \<le> 65519"
      using Cons.prems(3,4,7) e(3) by simp_all
    from Cons.IH [OF step(2) [OF False] False reqs(1,2) e(1,2) reqs(3) room, of ?blk]
    obtain e' where "read_loop cf m ?p ?blk ?e = Some (RC_OK, e')" "appends (read_response m bs) ?e e'"
      by blast
    with loop appends_trans [OF app] b show ?thesis by auto
  qed
qed

lemma scan_of_sizes:
  "unat required + response_size bs \<le> 65519 \<Longrightarrow>
    scan_fits required bs \<and>
    unat (scan_required required bs) = unat required + response_size (butlast bs)"
proof (induction required bs rule: scan_required.induct)
  case (3 required b b' bs)
  have room: "block_need b \<le> tx_room required"
    using 3(2) unfolding tx_room_def by (subst unat_sub) (simp_all add: word_le_nat_alt)
  have "unat (8 + 2 + snd b) = 10 + unat (snd b)"
    using 3(2) by (subst unat_add_no_wrap_u16) (simp_all add: block_need_def)
  then have "unat (required + (8 + 2 + snd b)) = unat required + block_need b"
    using 3(2) by (subst unat_add_no_wrap_u16) (simp_all add: block_need_def)
  with 3(1) 3(2) room show ?case by simp
next
  case (2 required b)
  have "block_need b \<le> tx_room required"
    using 2 unfolding tx_room_def by (subst unat_sub) (simp_all add: word_le_nat_alt)
  then show ?case by simp
qed simp

section \<open>Writing blocks\<close>

lemma write_mem_write_more:
  assumes "en_inv e"
  shows "(if addr_size + 2 \<le> en_remaining e
          then appends (ack_item (mb_start_address blk) (mb_length blk)) e (write_mem_write blk e)
          else write_mem_write blk e = en_flag e)"
  using write_mem_write_fits [OF assms, of blk] write_mem_write_full [of e blk] by auto

text \<open>The stores of the blocks do not depend on the room left in the response.\<close>

lemma write_loop_blocks:
  assumes "wp_suffix p bs" "bs \<noteq> []" "wp_masked_write p = masked" "\<forall>b\<in>set bs. write_allowed cf b"
  shows "\<exists>e'. write_loop cf masked m p blk e = Some (RC_OK, store_blocks masked bs m, e')
    \<and> (en_inv e \<longrightarrow> 10 * length bs \<le> en_remaining e \<longrightarrow> appends (write_response bs) e e')
    \<and> (en_inv e \<longrightarrow> 10 * (length bs - 1) \<le> en_remaining e \<longrightarrow> en_remaining e < 10 * length bs \<longrightarrow>
        (\<exists>e''. appends (write_response (butlast bs)) e e'' \<and> e' = en_flag e''))"
  using assms
proof (induction bs arbitrary: p blk e m)
  case Nil
  then show ?case by simp
next
  case (Cons b bs)
  obtain a ds ms where b: "b = (a, ds, ms)" by (cases b) auto
  let ?p = "p\<lparr>wp_bytes_read := wp_bytes_read p + of_nat (length (wblock_bytes b)), wp_finished := (bs = [])\<rparr>"
  let ?blk = "block_of masked b blk"
  let ?e = "write_mem_write ?blk e"
  let ?m = "store_block masked b m"
  note step = wp_next_suffix [OF Cons.prems(1)]
  have run: "\<not> wp_finished p" "\<not> wp_invalid p" "wblock_ok masked b"
    using Cons.prems(1,3) by (simp_all add: wp_suffix_def)
  have len: "length ds < 65536" using run(3) by (simp add: wblock_ok_def b)
  have allowed: "\<not> touches_forbidden_block cf ?blk" "\<not> touches_readonly_block cf ?blk"
    using Cons.prems(4) len
    by (simp_all add: b block_of_def touches_forbidden_block_def touches_readonly_block_def write_allowed_def)
  have store: "(if \<not> masked then mem_write m (mb_start_address ?blk) (take (unat (mb_length ?blk)) (mb_source_data ?blk))
      else masked_write m (mb_start_address ?blk) (mb_source_data ?blk) (the (mb_mask ?blk)) (unat (mb_length ?blk)))
      = ?m"
    using len by (simp add: b block_of_def store_block_def masked_write_bytes)
  have loop: "write_loop cf masked m p blk e = write_loop cf masked ?m ?p ?blk ?e"
    using step(1) [of blk] run allowed Cons.prems(3) store by (subst write_loop.simps) (simp add: Let_def)
  have ack: "en_inv e \<Longrightarrow> 10 \<le> en_remaining e \<Longrightarrow> appends (ack_item a (of_nat (length ds))) e ?e"
    and full: "en_remaining e < 10 \<Longrightarrow> ?e = en_flag e"
    using write_mem_write_fits [of e ?blk] write_mem_write_full [of e ?blk]
    by (simp_all add: b block_of_def)
  show ?case
  proof (cases "bs = []")
    case True
    then have "write_loop cf masked ?m ?p ?blk ?e = Some (RC_OK, ?m, ?e)"
      by (subst write_loop.simps) simp
    moreover have "en_inv e \<Longrightarrow> appends (write_response (butlast (b # bs))) e e"
      using True by (simp add: appends_nil)
    ultimately show ?thesis
      using loop True ack full b by (auto simp: store_blocks_def)
  next
    case False
    have "wp_suffix ?p bs" "wp_masked_write ?p = masked" "\<forall>b\<in>set bs. write_allowed cf b"
      using step(2) [OF False] Cons.prems(3,4) by simp_all
    from Cons.IH [OF this(1) False this(2,3), of ?m ?blk ?e] obtain e' where e':
      "write_loop cf masked ?m ?p ?blk ?e = Some (RC_OK, store_blocks masked bs ?m, e')"
      "en_inv ?e \<Longrightarrow> 10 * length bs \<le> en_remaining ?e \<Longrightarrow> appends (write_response bs) ?e e'"
      "en_inv ?e \<Longrightarrow> 10 * (length bs - 1) \<le> en_remaining ?e \<Longrightarrow> en_remaining ?e < 10 * length bs \<Longrightarrow>
        \<exists>e''. appends (write_response (butlast bs)) ?e e'' \<and> e' = en_flag e''"
      by blast
    have more: "en_inv ?e" "en_remaining e = 10 + en_remaining ?e" if "en_inv e" "10 \<le> en_remaining e"
      using ack [OF that] appends_remaining [OF ack [OF that] that(1)] by (simp_all add: appends_def length_ack_item)
    have "\<exists>e''. appends (write_response (butlast (b # bs))) e e'' \<and> e' = en_flag e''"
      if that: "en_inv e" "10 * length bs \<le> en_remaining e" "en_remaining e < 10 * length (b # bs)"
    proof -
      have ten: "10 \<le> en_remaining e" using False that(2) by (cases bs) simp_all
      have "10 * (length bs - 1) \<le> en_remaining ?e" "en_remaining ?e < 10 * length bs"
        using more [OF that(1) ten] that(2,3) by simp_all
      from e'(3) [OF more(1) [OF that(1) ten] this] obtain e'' where
        "appends (write_response (butlast bs)) ?e e''" "e' = en_flag e''" by blast
      with appends_trans [OF ack [OF that(1) ten]] False b show ?thesis by auto
    qed
    moreover have "appends (write_response (b # bs)) e e'"
      if that: "en_inv e" "10 * length (b # bs) \<le> en_remaining e"
    proof -
      have ten: "10 \<le> en_remaining e" using that(2) by simp
      have "10 * length bs \<le> en_remaining ?e" using more [OF that(1) ten] that(2) by simp
      from appends_trans [OF ack [OF that(1) ten] e'(2) [OF more(1) [OF that(1) ten] this]] b
      show ?thesis by simp
    qed
    ultimately show ?thesis
      using loop e'(1) by (auto simp: store_blocks_def)
  qed
qed

section \<open>What a request of any bytes can touch\<close>

text \<open>
  The protected ranges lie away from both ends of the address space: no block of at most 65535
  bytes that runs over the end of it can reach them.
\<close>

definition ranges_inside :: "address_range list option \<Rightarrow> bool" where
  "ranges_inside rs =
    list_all (\<lambda>r. ar_start r \<le> ar_end r \<and> 65535 \<le> ar_start r \<and> ar_end r < - 65535)
      (case rs of None \<Rightarrow> [] | Some xs \<Rightarrow> xs)"

lemma ranges_inside_ordered: "ranges_inside rs \<Longrightarrow> ranges_ordered rs"
  by (auto simp: ranges_inside_def ranges_ordered_def list_all_iff)

lemma ranges_inside_upto:
  "ranges_inside rs \<Longrightarrow> r \<in> set (array_upto rs n) \<Longrightarrow> x \<in> range_addresses r \<Longrightarrow>
    65535 \<le> unat x \<and> unat x + 65535 < 2 ^ 64"
proof -
  assume "ranges_inside rs" "r \<in> set (array_upto rs n)" "x \<in> range_addresses r"
  then have "65535 \<le> ar_start r" "ar_end r < - 65535" "ar_start r \<le> x" "x \<le> ar_end r"
    by (auto simp: ranges_inside_def array_upto_def list_all_iff range_addresses_def
        split: option.splits dest: in_set_takeD)
  then have "65535 \<le> x" "x < - 65535" by (blast intro: order_trans le_less_trans)+
  then show ?thesis by (simp add: word_le_nat_alt word_less_nat_alt)
qed

lemma wrapping_block:
  assumes "i < n" "n < 65536" "2 ^ 64 < unat a + n" "65535 \<le> unat x" "unat x + 65535 < 2 ^ 64"
  shows "a + of_nat i \<noteq> (x :: uintptr)"
proof
  assume "a + of_nat i = x"
  then have "unat x = (unat a + i) mod 2 ^ 64"
    using assms(1,2) by (auto simp: unat_word_ariths address_offset)
  moreover have "unat a < 2 ^ 64" using unsigned_less [of a] by simp
  ultimately show False
    using assms by (cases "unat a + i < 2 ^ 64") (simp_all add: le_mod_geq)
qed

lemma untouched_disjoint:
  assumes "ranges_inside rs" "n < 65536" "x \<in> (\<Union>r \<in> set (array_upto rs k). range_addresses r)"
    "0 < n \<Longrightarrow> unat a + n \<le> 2 ^ 64 \<Longrightarrow>
      block_addresses a n \<inter> (\<Union>r \<in> set (array_upto rs k). range_addresses r) = {}" "i < n"
  shows "a + of_nat i \<noteq> x"
proof (cases "unat a + n \<le> 2 ^ 64")
  case True
  have "a + of_nat i \<in> block_addresses a n" using assms(5) by (auto simp: block_addresses_def)
  with assms True show ?thesis by auto
next
  case False
  have "65535 \<le> unat x \<and> unat x + 65535 < 2 ^ 64"
    using assms(3) ranges_inside_upto [OF assms(1)] by blast
  with wrapping_block [OF assms(5,2)] False show ?thesis by simp
qed

lemma forbidden_untouched:
  assumes "ranges_inside (cf_forbidden_ranges cf)" "\<not> touches_forbidden_region cf a n"
    "x \<in> forbidden_addresses cf" "n < 65536" "i < n"
  shows "a + of_nat i \<noteq> x"
proof (rule untouched_disjoint [OF assms(1,4) assms(3) [unfolded forbidden_addresses_def] _ assms(5)])
  assume "0 < n" "unat a + n \<le> 2 ^ 64"
  from touches_forbidden_iff [OF this ranges_inside_ordered [OF assms(1)]] assms(2)
  show "block_addresses a n \<inter> (\<Union>r \<in> set (array_upto (cf_forbidden_ranges cf)
      (unat (cf_forbidden_range_count cf))). range_addresses r) = {}"
    by (simp add: forbidden_addresses_def)
qed

lemma readonly_untouched:
  assumes "ranges_inside (cf_readonly_ranges cf)" "\<not> touches_readonly_region cf a n"
    "x \<in> readonly_addresses cf" "n < 65536" "i < n"
  shows "a + of_nat i \<noteq> x"
proof (rule untouched_disjoint [OF assms(1,4) assms(3) [unfolded readonly_addresses_def] _ assms(5)])
  assume "0 < n" "unat a + n \<le> 2 ^ 64"
  from touches_readonly_iff [OF this ranges_inside_ordered [OF assms(1)]] assms(2)
  show "block_addresses a n \<inter> (\<Union>r \<in> set (array_upto (cf_readonly_ranges cf)
      (unat (cf_readonly_range_count cf))). range_addresses r) = {}"
    by (simp add: readonly_addresses_def)
qed

lemma mem_read_cong: "(\<And>i. i < n \<Longrightarrow> m (a + of_nat i) = m' (a + of_nat i)) \<Longrightarrow> mem_read m a n = mem_read m' a n"
  by (simp add: mem_read_def)

lemma read_loop_forbidden:
  assumes "ranges_inside (cf_forbidden_ranges cf)" "\<forall>x. x \<notin> forbidden_addresses cf \<longrightarrow> m x = m' x"
  shows "read_loop cf m p blk e = read_loop cf m' p blk e"
proof (induction "unat (rp_request_datasize p - rp_bytes_read p)" arbitrary: p blk e rule: less_induct)
  case less
  obtain q blk' where next': "rp_next p blk = (q, blk')" by force
  have written: "read_mem_write m blk' e = read_mem_write m' blk' e"
    if "\<not> touches_forbidden_block cf blk'"
  proof -
    have "mem_read m (mb_start_address blk') (unat (mb_length blk'))
        = mem_read m' (mb_start_address blk') (unat (mb_length blk'))"
    proof (rule mem_read_cong)
      fix i assume "i < unat (mb_length blk')"
      then have "mb_start_address blk' + of_nat i \<notin> forbidden_addresses cf"
        using that forbidden_untouched [OF assms(1)] unat_u16_lt unfolding touches_forbidden_block_def by blast
      with assms(2) show "m (mb_start_address blk' + of_nat i) = m' (mb_start_address blk' + of_nat i)" by blast
    qed
    then show ?thesis by (simp add: read_mem_write_def)
  qed
  have more: "read_loop cf m q blk' e' = read_loop cf m' q blk' e'" if "\<not> rp_invalid q" for e'
  proof (cases "rp_finished q")
    case True
    then show ?thesis by (simp add: read_loop.simps [of cf _ q])
  next
    case False
    show ?thesis by (rule less) (rule rp_next_measure [OF next' that False])
  qed
  show ?case
    by (subst (1 2) read_loop.simps) (auto simp: next' Let_def written more)
qed

lemma mem_write_frame: "\<forall>i<length bs. a + of_nat i \<noteq> x \<Longrightarrow> mem_write m a bs x = m x"
  unfolding mem_write_def by (metis address_cancel)

lemma masked_write_frame: "\<forall>i<n. a + of_nat i \<noteq> x \<Longrightarrow> masked_write m a ds ms n x = m x"
proof (induction n)
  case (Suc n)
  have "a + of_nat n \<noteq> x" using Suc.prems by blast
  with Suc show ?case by (auto simp: masked_write_def)
qed (simp add: masked_write_def)

definition protected_addresses :: "'u config \<Rightarrow> uintptr set" where
  "protected_addresses cf = forbidden_addresses cf \<union> readonly_addresses cf"

lemma write_loop_protected:
  assumes "ranges_inside (cf_forbidden_ranges cf)" "ranges_inside (cf_readonly_ranges cf)"
    "x \<in> protected_addresses cf"
  shows "unat (wp_bytes_read p) \<le> unat (wp_size_limit p) \<Longrightarrow>
    write_loop cf masked m p blk e = Some (code, m', e') \<Longrightarrow> m' x = m x"
proof (induction "unat (wp_size_limit p) - unat (wp_bytes_read p)" arbitrary: p m blk e rule: less_induct)
  case less
  obtain q blk' where next': "wp_next p blk = (q, blk')" by force
  let ?a = "mb_start_address blk'" and ?n = "unat (mb_length blk')"
  let ?m = "if \<not> masked then mem_write m ?a (take ?n (mb_source_data blk'))
    else masked_write m ?a (mb_source_data blk') (the (mb_mask blk')) ?n"
  consider "m' = m"
    | "\<not> wp_invalid q" "\<not> touches_forbidden_block cf blk'" "\<not> touches_readonly_block cf blk'"
      "write_loop cf masked ?m q blk' (write_mem_write blk' e) = Some (code, m', e')"
    using less.prems(2)
    by (subst (asm) write_loop.simps) (auto simp: next' Let_def split: if_splits)
  then show ?case
  proof cases
    case 2
    have out: "?a + of_nat i \<noteq> x" if "i < ?n" for i
      using assms(3) forbidden_untouched [OF assms(1) 2(2) [unfolded touches_forbidden_block_def] _ unat_u16_lt that]
        readonly_untouched [OF assms(2) 2(3) [unfolded touches_readonly_block_def] _ unat_u16_lt that]
      unfolding protected_addresses_def by blast
    have short: "\<forall>i<length (take ?n (mb_source_data blk')). ?a + of_nat i \<noteq> x" "\<forall>i<?n. ?a + of_nat i \<noteq> x"
      using out by auto
    have store: "?m x = m x"
      using mem_write_frame [OF short(1)] masked_write_frame [OF short(2)] by simp
    define stored where "stored = ?m"
    note run = 2(4) [folded stored_def] and store = store [folded stored_def]
    show ?thesis
    proof (cases "wp_finished q")
      case True
      with run have "m' = stored" by (simp add: write_loop.simps [of cf masked _ q])
      with store show ?thesis by simp
    next
      case False
      note moved = wp_next_measure [OF next' 2(1) False less.prems(1)]
      then have "unat (wp_size_limit q) - unat (wp_bytes_read q) < unat (wp_size_limit p) - unat (wp_bytes_read p)"
        "unat (wp_bytes_read q) \<le> unat (wp_size_limit q)" by auto
      from less.hyps [OF this run] store show ?thesis by simp
    qed
  qed simp
qed

lemma wp_scan_keeps:
  "unat (wp_bytes_read p) \<le> unat (wp_size_limit p) \<Longrightarrow> wp_scan p blk = Some p' \<Longrightarrow>
    wp_size_limit p' = wp_size_limit p"
proof (induction "unat (wp_size_limit p) - unat (wp_bytes_read p)" arbitrary: p blk rule: less_induct)
  case less
  obtain q blk' where next': "wp_next p blk = (q, blk')" by force
  have limit: "wp_size_limit q = wp_size_limit p"
    using next' by (auto simp: wp_next_def Let_def split: if_splits)
  show ?case
  proof (cases "wp_invalid q \<or> wp_finished q")
    case True
    with less.prems(2) limit show ?thesis by (subst (asm) wp_scan.simps) (auto simp: next')
  next
    case False
    let ?q = "q\<lparr>wp_required_tx_buffer_size := wp_required_tx_buffer_size q + (8 + 2)\<rparr>"
    have "wp_scan ?q blk' = Some p'"
      using less.prems(2) False by (subst (asm) wp_scan.simps) (simp add: next')
    moreover have "unat (wp_size_limit ?q) - unat (wp_bytes_read ?q) < unat (wp_size_limit p) - unat (wp_bytes_read p)"
      "unat (wp_bytes_read ?q) \<le> unat (wp_size_limit ?q)"
      using wp_next_measure [OF next' _ _ less.prems(1)] False by auto
    ultimately show ?thesis using less.hyps [of ?q blk'] limit by simp
  qed
qed

lemma wp_init_start: "wp_init rq masked blk = Some p \<Longrightarrow> unat (wp_bytes_read p) \<le> unat (wp_size_limit p)"
  by (auto simp: wp_init_def Let_def split: option.splits)

lemma vp_inside_init [simp]: "vp_inside (read_rpv_init rq)" "vp_inside (write_rpv_init rq)"
  by (simp_all add: read_rpv_init_def write_rpv_init_def vp_start_def vp_reset_def vp_inside_def Let_def)

lemma process_memory_read_total: "\<exists>r. process_memory_read cf tx_size m blk rq rs = Some r"
proof -
  obtain p where p: "rp_init rq blk = Some p" using rp_init_total by blast
  obtain r where "read_loop cf m p blk (en_init rs tx_size) = Some r" using read_loop_total by blast
  with p show ?thesis by (simp add: process_memory_read_def Let_def)
qed

lemma process_memory_write_total: "\<exists>r. process_memory_write cf tx_size masked m blk rq rs = Some r"
proof -
  obtain p where p: "wp_init rq masked blk = Some p" using wp_init_total by blast
  obtain r where "write_loop cf masked m p blk (en_init rs tx_size) = Some r"
    using write_loop_total [OF wp_init_start [OF p]] by blast
  with p show ?thesis by (cases r) (simp add: process_memory_write_def Let_def)
qed

lemma process_read_rpv_total: "\<exists>r. process_read_rpv cf tx_size w i v rq rs = Some r"
  using read_rpv_loop_total [OF vp_inside_init(1)] by (fastforce simp: process_read_rpv_def Let_def)

lemma process_write_rpv_total: "\<exists>r. process_write_rpv cf tx_size w rv v rq rs = Some r"
  using write_rpv_loop_total [OF vp_inside_init(2)] by (fastforce simp: process_write_rpv_def Let_def)

lemma memory_control_total: "\<exists>r. process_memory_control cf tx_size w stk rq rs = Some r"
  using process_memory_read_total [of cf tx_size "w_memory w" "stk_block stk" rq rs]
    process_memory_write_total [of cf tx_size "rq_subfunction_id rq = MemoryControl_WriteMasked" "w_memory w" "stk_block stk" rq rs]
    process_read_rpv_total [of cf tx_size w "stk_id stk" "stk_value stk" rq rs]
    process_write_rpv_total [of cf tx_size w "stk_rpv stk" "stk_value stk" rq rs]
  by (auto simp: process_memory_control_def Let_def)

end
