(* ===== verification/MemoryService.thy ===== *)
theory MemoryService
  imports MemoryControl
begin

text \<open>
  The memory service, request by request: what \<open>MainHandler::process_memory_control\<close> answers to
  a well-formed request, what it refuses, and what no request can make it read or write. The
  published values of a request are read by the parsers of \<open>BlockCodec\<close> in the same way as the
  blocks of memory.
\<close>

unbundle bit_operations_syntax

section \<open>Published values in a well-formed request\<close>

definition vp_suffix :: "rpv_parser \<Rightarrow> u8 list \<Rightarrow> bool" where
  "vp_suffix p bs =
    (\<not> vp_finished p \<and> \<not> vp_invalid p
     \<and> (\<exists>junk. drop (unat (vp_bytes_read p)) (vp_buffer p) = bs @ junk)
     \<and> unat (vp_request_len p) = unat (vp_bytes_read p) + length bs)"

lemma vp_suffix_left: "vp_suffix p bs \<Longrightarrow> vp_inside p \<and> vp_left p = length bs"
  by (auto simp: vp_suffix_def vp_inside_def vp_left_def)

text \<open>The parser after the first bytes of what it still has to read.\<close>

definition vp_after :: "nat \<Rightarrow> u8 list \<Rightarrow> rpv_parser \<Rightarrow> rpv_parser" where
  "vp_after n bs p = p\<lparr>vp_bytes_read := vp_bytes_read p + of_nat n, vp_finished := (bs = [])\<rparr>"

lemma vp_suffix_after:
  assumes "vp_suffix p (xs @ bs)"
  shows "bs \<noteq> [] \<Longrightarrow> vp_suffix (vp_after (length xs) bs p) bs"
    "vp_bytes_read p + of_nat (length xs) = vp_request_len p \<longleftrightarrow> bs = []"
    "unat (vp_bytes_read p + of_nat (length xs)) = unat (vp_bytes_read p) + length xs"
    "\<exists>junk. drop (unat (vp_bytes_read p + of_nat (length xs))) (vp_buffer p) = bs @ junk"
proof -
  obtain junk where buf: "drop (unat (vp_bytes_read p)) (vp_buffer p) = xs @ bs @ junk"
    using assms by (auto simp: vp_suffix_def)
  show pos: "unat (vp_bytes_read p + of_nat (length xs)) = unat (vp_bytes_read p) + length xs"
    using vp_suffix_left [OF assms] by (intro vp_advance) auto
  have rest: "drop (unat (vp_bytes_read p + of_nat (length xs))) (vp_buffer p) = bs @ junk"
    using arg_cong [OF buf, of "drop (length xs)"] by (simp add: pos add.commute)
  then show "\<exists>junk. drop (unat (vp_bytes_read p + of_nat (length xs))) (vp_buffer p) = bs @ junk" by blast
  show "vp_bytes_read p + of_nat (length xs) = vp_request_len p \<longleftrightarrow> bs = []"
    using assms pos by (auto simp: vp_suffix_def word_unat_eq_iff)
  show "vp_suffix (vp_after (length xs) bs p) bs" if "bs \<noteq> []"
    using that assms pos rest by (auto simp: vp_suffix_def vp_after_def)
qed

lemma vp_suffix_head_16:
  assumes "vp_suffix p (encode_16_bits_big_endian i @ bs)"
  shows "\<not> vp_finished p" "\<not> vp_invalid p" "2 \<le> vp_left p" "vp_inside p"
    "decode_16_bits_big_endian (drop (unat (vp_bytes_read p)) (vp_buffer p)) = i"
proof -
  obtain junk where "drop (unat (vp_bytes_read p)) (vp_buffer p) = encode_16_bits_big_endian i @ bs @ junk"
    using assms by (auto simp: vp_suffix_def)
  then show "decode_16_bits_big_endian (drop (unat (vp_bytes_read p)) (vp_buffer p)) = i"
    by (simp add: be16.dec_enc_append)
  show "\<not> vp_finished p" "\<not> vp_invalid p" using assms by (simp_all add: vp_suffix_def)
  show "2 \<le> vp_left p" "vp_inside p" using vp_suffix_left [OF assms] by (simp_all add: be16.length_enc)
qed

lemma read_rpv_next_suffix:
  assumes "vp_suffix p (encode_16_bits_big_endian i @ bs)"
  shows "read_rpv_next p x = (True, vp_after 2 bs p, i)"
    "bs \<noteq> [] \<Longrightarrow> vp_suffix (vp_after 2 bs p) bs"
proof -
  note h = vp_suffix_head_16 [OF assms] and a = vp_suffix_after [OF assms, simplified be16.length_enc]
  have fin: "vp_bytes_read p + 2 = vp_request_len p \<longleftrightarrow> bs = []" using a(2) by simp
  show "read_rpv_next p x = (True, vp_after 2 bs p, i)"
    using h fin by (cases "bs = []") (simp_all add: read_rpv_next_def Let_def vp_left_word vp_after_def)
  show "bs \<noteq> [] \<Longrightarrow> vp_suffix (vp_after 2 bs p) bs" by (rule a(1))
qed

text \<open>The member of the union that a type of each size assigns.\<close>

definition set_value :: "u8 \<Rightarrow> anytype \<Rightarrow> anytype \<Rightarrow> anytype" where
  "set_value typesize x v =
    (if typesize = 1 then set_uint8 (ucast x) v
     else if typesize = 2 then set_uint16 (ucast x) v
     else if typesize = 4 then set_uint32 (ucast x) v
     else x)"

lemma write_rpv_next_suffix:
  assumes suf: "vp_suffix p (rpv_item r x @ bs)" and "lookup (rpv_id r) = Some r" "is_supported_type (rpv_type r)"
  shows "write_rpv_next lookup p rv v =
      (True, vp_after (length (rpv_item r x)) bs p, r, set_value (get_type_size_8bits (rpv_type r)) x v)"
proof -
  let ?enc = "encode_anytype_big_endian x (rpv_type r)"
  define n where "n = get_type_size_8bits (rpv_type r)"
  define q where "q = p\<lparr>vp_bytes_read := vp_bytes_read p + 2\<rparr>"
  have len: "length ?enc = unat n" using assms(3) by (simp add: n_def length_encode_anytype_supported)
  have suf2: "vp_suffix p (encode_16_bits_big_endian (rpv_id r) @ ?enc @ bs)"
    using suf by (simp add: rpv_item_def)
  note h = vp_suffix_head_16 [OF suf2] and a = vp_suffix_after [OF suf2, simplified be16.length_enc]
  have n: "n \<in> {1, 2, 4, 8}" using supported_type_size [OF assms(3)] by (simp add: n_def)
  have nonempty: "?enc @ bs \<noteq> []" using len n by auto
  have "vp_after 2 (?enc @ bs) p = q"
    unfolding vp_after_def q_def using nonempty h(1) by (simp del: append_is_Nil_conv)
  then have q: "vp_suffix q (?enc @ bs)" using a(1) [OF nonempty] by simp
  obtain junk where buf: "drop (unat (vp_bytes_read q)) (vp_buffer q) = ?enc @ bs @ junk"
    using q by (auto simp: vp_suffix_def)
  have fits: "\<not> ucast n > vp_request_len q - vp_bytes_read q"
    using vp_suffix_left [OF q] len by (simp add: word_less_nat_alt vp_left_word unat_ucast_u8_u16)
  note b = vp_suffix_after [OF q, unfolded len]
  have n16: "of_nat (unat n) = (ucast n :: u16)" by simp
  have fin: "vp_bytes_read q + ucast n = vp_request_len q \<longleftrightarrow> bs = []" using b(2) by (simp only: n16)
  have p': "vp_after (length (rpv_item r x)) bs p
      = q\<lparr>vp_bytes_read := vp_bytes_read q + ucast n, vp_finished := (bs = [])\<rparr>"
    using len by (simp add: vp_after_def q_def rpv_item_def be16.length_enc ac_simps)
  have enc: "?enc = encode_anytype_big_endian_sz x n" by (simp add: n_def encode_anytype_big_endian_def)
  define rest where "rest = drop (unat (vp_bytes_read q)) (vp_buffer q)"
  have val: "n = 1 \<Longrightarrow> set_uint8 (rest ! 0) v = set_value n x v"
    "n = 2 \<Longrightarrow> set_uint16 (decode_16_bits_big_endian rest) v = set_value n x v"
    "n = 4 \<Longrightarrow> set_uint32 (decode_32_bits_big_endian rest) v = set_value n x v"
    "n = 8 \<Longrightarrow> decode_64_bits_big_endian rest = set_value n x v"
    unfolding rest_def buf enc
    by (simp_all add: encode_anytype_big_endian_sz_def set_value_def be16.dec_enc_append be32.dec_enc_append
        be64.dec_enc_append)
  have q_fields: "vp_finished q = vp_finished p" "vp_invalid q = vp_invalid p" by (simp_all add: q_def)
  have stay: "q\<lparr>vp_bytes_read := y, vp_finished := False\<rparr> = q\<lparr>vp_bytes_read := y\<rparr>" for y
    using h(1) by (simp add: q_def)
  have "write_rpv_next lookup p rv v =
     (let (ok, v) = (True, set_value n x v);
          p = q\<lparr>vp_bytes_read := vp_bytes_read q + ucast n\<rparr>;
          p = (if vp_bytes_read p = vp_request_len p then p\<lparr>vp_finished := True\<rparr> else p)
      in (ok, p, r, v))"
    unfolding write_rpv_next_def Let_def
    using h assms(2) fits val n
    by (auto simp: vp_left_word word_less_nat_alt q_def [symmetric] n_def [symmetric] rest_def [symmetric])
  then show ?thesis
    unfolding p' n_def [symmetric] using fin stay by (cases "bs = []") (simp_all add: Let_def)
qed

text \<open>What the callbacks are asked, and what they answer.\<close>

fun read_values ::
  "'u config \<Rightarrow> 'u rpv_read_callback \<Rightarrow> 'u world \<Rightarrow> anytype \<Rightarrow> u16 list \<Rightarrow>
   ((rpv \<times> anytype) list \<times> 'u world) option" where
  "read_values cf cb w v [] = Some ([], w)"
| "read_values cf cb w v (i # ids) =
    (case get_rpv cf i of
       None \<Rightarrow> None
     | Some r \<Rightarrow>
       (case cb r v None w of (ok, v', w') \<Rightarrow>
         if ok then map_option (\<lambda>(vs, w''). ((r, v') # vs, w'')) (read_values cf cb w' v' ids) else None))"

fun write_values ::
  "'u rpv_write_callback \<Rightarrow> 'u world \<Rightarrow> anytype \<Rightarrow> (rpv \<times> anytype) list \<Rightarrow> 'u world option" where
  "write_values cb w v [] = Some w"
| "write_values cb w v ((r, x) # vs) =
    (let v' = set_value (get_type_size_8bits (rpv_type r)) x v
     in case cb r v' w of (ok, w') \<Rightarrow> if ok then write_values cb w' v' vs else None)"

definition rpv_items :: "(rpv \<times> anytype) list \<Rightarrow> u8 list" where
  "rpv_items vs = concat (map (\<lambda>(r, v). rpv_item r v) vs)"

definition rpv_ids :: "u16 list \<Rightarrow> u8 list" where
  "rpv_ids ids = concat (map encode_16_bits_big_endian ids)"

definition rpv_acks :: "(rpv \<times> anytype) list \<Rightarrow> u8 list" where
  "rpv_acks vs = concat (map (\<lambda>(r, v). rpv_ack_item r) vs)"

lemma rpv_list_simps [simp]:
  "rpv_items [] = []" "rpv_items ((r, v) # vs) = rpv_item r v @ rpv_items vs"
  "rpv_ids [] = []" "rpv_ids (i # ids) = encode_16_bits_big_endian i @ rpv_ids ids"
  "rpv_acks [] = []" "rpv_acks ((r, v) # vs) = rpv_ack_item r @ rpv_acks vs"
  by (simp_all add: rpv_items_def rpv_ids_def rpv_acks_def)

lemma encode_16_not_Nil [simp]: "encode_16_bits_big_endian x \<noteq> []"
  by (simp add: encode_16_bits_big_endian_def)

lemma length_rpv_ids: "length (rpv_ids ids) = 2 * length ids"
  by (induction ids) (simp_all add: be16.length_enc)

lemma length_rpv_acks: "length (rpv_acks vs) = 3 * length vs"
  by (induction vs) auto

lemma read_rpv_loop_values:
  assumes "vp_suffix p (rpv_ids ids)" "ids \<noteq> []" "rpvs_supported cf" "read_values cf cb w v ids = Some (vs, w')"
    "en_inv e" "\<not> en_overflow e" "length (rpv_items vs) \<le> en_remaining e"
  shows "\<exists>e'. read_rpv_loop cf cb w p i v e = Some (RC_OK, w', e') \<and> appends (rpv_items vs) e e'"
  using assms
proof (induction ids arbitrary: p w v i e vs)
  case Nil
  then show ?case by simp
next
  case (Cons j ids)
  obtain r v' w1 vs' where r: "get_rpv cf j = Some r" "cb r v None w = (True, v', w1)"
    and rest: "read_values cf cb w1 v' ids = Some (vs', w')" and vs: "vs = (r, v') # vs'"
    using Cons.prems(4) by (auto split: option.splits prod.splits if_splits)
  let ?e = "read_rpv_write r v' e"
  let ?p = "vp_after 2 (rpv_ids ids) p"
  have suf: "vp_suffix p (encode_16_bits_big_endian j @ rpv_ids ids)" using Cons.prems(1) by simp
  note step = read_rpv_next_suffix [OF suf]
  note sup = get_rpv_supported [OF Cons.prems(3) r(1)]
  have app: "appends (rpv_item r v') e ?e"
    using Cons.prems(7) vs sup by (intro read_rpv_write_fits [OF Cons.prems(5)]) auto
  have e: "en_inv ?e" "\<not> en_overflow ?e" using app Cons.prems(6) by (simp_all add: appends_def)
  have room: "length (rpv_items vs') \<le> en_remaining ?e"
    using appends_remaining [OF app Cons.prems(5)] Cons.prems(7) vs by simp
  have loop: "read_rpv_loop cf cb w p i v e = read_rpv_loop cf cb w1 ?p j v' ?e"
    using step(1) [of i] r e(2) vp_suffix_head_16(1,2) [OF suf]
    by (subst read_rpv_loop.simps) (simp add: Let_def vp_after_def)
  show ?case
  proof (cases "ids = []")
    case True
    then have "read_rpv_loop cf cb w1 ?p j v' ?e = Some (RC_OK, w1, ?e)"
      by (subst read_rpv_loop.simps) (simp add: vp_after_def)
    with loop app vs rest True show ?thesis by simp
  next
    case False
    then have "rpv_ids ids \<noteq> []" by (cases ids) auto
    from Cons.IH [OF step(2) [OF this] False Cons.prems(3) rest e room, of j]
    obtain e' where e': "read_rpv_loop cf cb w1 ?p j v' ?e = Some (RC_OK, w', e')"
      "appends (rpv_items vs') ?e e'" by blast
    from appends_trans [OF app e'(2)] loop e'(1) vs show ?thesis by simp
  qed
qed

lemma write_rpv_loop_values:
  assumes "vp_suffix p (rpv_items vs)" "vs \<noteq> []" "rpvs_supported cf" "\<forall>(r, x)\<in>set vs. get_rpv cf (rpv_id r) = Some r"
    "write_values cb w v vs = Some w'" "en_inv e" "\<not> en_overflow e" "3 * length vs \<le> en_remaining e"
  shows "\<exists>e'. write_rpv_loop cf cb w p rv v e = Some (RC_OK, w', e') \<and> appends (rpv_acks vs) e e'"
  using assms
proof (induction vs arbitrary: p w v rv e)
  case Nil
  then show ?case by simp
next
  case (Cons b vs)
  obtain r x where b: "b = (r, x)" by force
  let ?v = "set_value (get_type_size_8bits (rpv_type r)) x v"
  obtain w1 where w1: "cb r ?v w = (True, w1)" and rest: "write_values cb w1 ?v vs = Some w'"
    using Cons.prems(5) b by (auto simp: Let_def split: prod.splits if_splits)
  let ?e = "write_rpv_write r e"
  let ?p = "vp_after (length (rpv_item r x)) (rpv_items vs) p"
  have suf: "vp_suffix p (rpv_item r x @ rpv_items vs)" using Cons.prems(1) b by simp
  have look: "get_rpv cf (rpv_id r) = Some r" using Cons.prems(4) b by auto
  have sup: "is_supported_type (rpv_type r)" using get_rpv_supported [OF Cons.prems(3) look] by simp
  have run: "\<not> vp_finished p" "\<not> vp_invalid p" using suf by (simp_all add: vp_suffix_def)
  have app: "appends (rpv_ack_item r) e ?e"
    using Cons.prems(8) by (intro write_rpv_write_fits [OF Cons.prems(6)]) simp
  have e: "en_inv ?e" "\<not> en_overflow ?e" using app Cons.prems(7) by (simp_all add: appends_def)
  have room: "3 * length vs \<le> en_remaining ?e"
    using appends_remaining [OF app Cons.prems(6)] Cons.prems(8) by simp
  have loop: "write_rpv_loop cf cb w p rv v e = write_rpv_loop cf cb w1 ?p r ?v ?e"
    using write_rpv_next_suffix [where lookup = "get_rpv cf" and rv = rv and v = v, OF suf look sup] w1 e(2) run
    by (subst write_rpv_loop.simps) (simp add: Let_def vp_after_def)
  show ?case
  proof (cases "vs = []")
    case True
    then have "write_rpv_loop cf cb w1 ?p r ?v ?e = Some (RC_OK, w1, ?e)"
      by (subst write_rpv_loop.simps) (simp add: vp_after_def)
    with loop app rest True b show ?thesis by simp
  next
    case False
    then have "rpv_items vs \<noteq> []" by (cases vs) (auto simp: rpv_item_def)
    then have sufs: "vp_suffix ?p (rpv_items vs)" by (rule vp_suffix_after(1) [OF suf])
    have known: "\<forall>(r, x)\<in>set vs. get_rpv cf (rpv_id r) = Some r" using Cons.prems(4) by simp
    from Cons.IH [OF sufs False Cons.prems(3) known rest e room, of r]
    obtain e' where e': "write_rpv_loop cf cb w1 ?p r ?v ?e = Some (RC_OK, w', e')"
      "appends (rpv_acks vs) ?e e'" by blast
    from appends_trans [OF app e'(2)] loop e'(1) b show ?thesis by simp
  qed
qed

section \<open>What the write parser accepts\<close>

lemma take_drop_three:
  "take (i + j + k) (drop n xs) = take i (drop n xs) @ take j (drop (n + i) xs) @ take k (drop (n + i + j) xs)"
  unfolding take_add drop_drop by (simp add: ac_simps)

text \<open>One block is read off the request, whatever bytes it holds.\<close>

lemma wp_next_sound:
  assumes next': "wp_next p blk = (r, blk')" and "\<not> wp_invalid r" "\<not> wp_finished p" "\<not> wp_invalid p"
    and inside: "unat (wp_bytes_read p) \<le> unat (wp_size_limit p)" "unat (wp_size_limit p) \<le> length (wp_buffer p)"
  shows "\<exists>b. wblock_ok (wp_masked_write p) b
    \<and> drop (unat (wp_bytes_read p)) (wp_buffer p) = wblock_bytes b @ drop (unat (wp_bytes_read r)) (wp_buffer p)
    \<and> unat (wp_bytes_read r) = unat (wp_bytes_read p) + length (wblock_bytes b)
    \<and> unat (wp_bytes_read r) \<le> unat (wp_size_limit p)
    \<and> r = p\<lparr>wp_bytes_read := wp_bytes_read r, wp_finished := (wp_bytes_read r = wp_size_limit p)\<rparr>"
proof -
  let ?n = "wp_bytes_read p" and ?lim = "wp_size_limit p" and ?buf = "wp_buffer p"
  define n10 where "n10 = ?n + 10"
  define l where "l = decode_16_bits_big_endian (drop (unat (?n + 8)) ?buf)"
  define nm where "nm = (if wp_masked_write p then n10 + l + l else n10 + l)"
  have ten: "?n + 8 + 2 = n10" by (simp add: n10_def)
  have lt: "unat ?lim < 65536" by simp
  have run: "10 \<le> unat (?lim - ?n)"
    using assms(1-4) by (auto simp: wp_next_def split: if_splits)
  have n10: "unat ?n + 10 \<le> unat ?lim"
    using run inside(1) by (subst (asm) unat_sub) (simp_all add: word_le_nat_alt)
  have pos: "unat n10 = unat ?n + 10" "unat (?n + 8) = unat ?n + 8"
  proof -
    have "unat ?n + 10 < 65536" using n10 lt by linarith
    then show "unat n10 = unat ?n + 10" "unat (?n + 8) = unat ?n + 8"
      unfolding n10_def by (simp_all add: unat_add_u16)
  qed
  have rest: "unat (?lim - n10) = unat ?lim - unat n10"
    using n10 pos by (subst unat_sub) (simp_all add: word_le_nat_alt)
  have ok: "\<not> l > ?lim - n10" "\<not> (wp_masked_write p \<and> l > half_remaining ?lim n10)"
    using assms(1-4) run by (auto simp: wp_next_def Let_def ten l_def [symmetric] split: if_splits)
  have l: "unat n10 + unat l \<le> unat ?lim"
    "wp_masked_write p \<Longrightarrow> unat n10 + unat l + unat l \<le> unat ?lim"
    using ok rest n10 pos by (auto simp: word_less_nat_alt half_remaining_nat)
  have pos1: "unat (n10 + l) = unat n10 + unat l"
    by (rule unat_add_no_wrap_u16) (use l(1) lt in linarith)
  have pos2: "unat (n10 + l + l) = unat n10 + unat l + unat l" if "wp_masked_write p"
    unfolding pos1 [symmetric] by (rule unat_add_no_wrap_u16) (use l(2) [OF that] lt pos1 in linarith)
  have "\<not> ?lim < n10 + l" using pos1 l(1) by (simp add: word_less_nat_alt)
  then have r: "r = p\<lparr>wp_bytes_read := nm, wp_finished := (nm = ?lim)\<rparr>"
    using assms(1-4) run ok
    by (auto simp: wp_next_def Let_def ten l_def [symmetric] nm_def split: if_splits)
  define ds where "ds = take (unat l) (drop (unat n10) ?buf)"
  define ms where "ms = (if wp_masked_write p then take (unat l) (drop (unat (n10 + l)) ?buf) else [])"
  let ?b = "(decode_address_big_endian (drop (unat ?n) ?buf), ds, ms)"
  have len: "length ds = unat l" "length ms = (if wp_masked_write p then unat l else 0)"
    using l pos1 inside(2) by (auto simp: ds_def ms_def)
  have "encode_address_big_endian (decode_address_big_endian (drop (unat ?n) ?buf)) = take 8 (drop (unat ?n) ?buf)"
    "encode_16_bits_big_endian l = take 2 (drop (unat ?n + 8) ?buf)"
    unfolding l_def pos(2) using n10 inside(2)
    by (simp_all add: be_addr.enc_dec_take be16.enc_dec_take)
  then have head: "ack_item (decode_address_big_endian (drop (unat ?n) ?buf)) l
      = take 10 (drop (unat ?n) ?buf)"
    using take_add [of 8 2 "drop (unat ?n) ?buf"] by (simp add: ack_item_def add.commute)
  have bytes: "wblock_bytes ?b = take 10 (drop (unat ?n) ?buf) @ ds @ ms"
    by (simp add: wblock_bytes_def len head)
  have nm: "unat nm = unat ?n + 10 + length ds + length ms" "unat nm \<le> unat ?lim"
    using l pos pos1 pos2 len by (auto simp: nm_def)
  have joined: "take 10 (drop (unat ?n) ?buf) @ ds @ ms
      = take (10 + length ds + length ms) (drop (unat ?n) ?buf)"
    unfolding take_drop_three unfolding len unfolding ds_def ms_def pos1 pos by simp
  have at_nm: "drop (unat nm) ?buf = drop (10 + length ds + length ms) (drop (unat ?n) ?buf)"
    unfolding nm(1) drop_drop by (simp add: ac_simps)
  have split: "drop (unat ?n) ?buf = wblock_bytes ?b @ drop (unat nm) ?buf"
    unfolding bytes joined at_nm by (rule append_take_drop_id [symmetric])
  have "length (wblock_bytes ?b) = 10 + length ds + length ms"
    using n10 inside(2) by (simp add: bytes)
  moreover have "wblock_ok (wp_masked_write p) ?b"
    using len lt by (auto simp: wblock_ok_def)
  ultimately show ?thesis
    using split nm r by (intro exI [of _ ?b]) simp
qed

lemma wp_scan_sound:
  "\<not> wp_finished p \<Longrightarrow> \<not> wp_invalid p \<Longrightarrow> unat (wp_bytes_read p) \<le> unat (wp_size_limit p) \<Longrightarrow>
    unat (wp_size_limit p) \<le> length (wp_buffer p) \<Longrightarrow> wp_scan p blk = Some q \<Longrightarrow> \<not> wp_invalid q \<Longrightarrow>
    \<exists>bs. bs \<noteq> [] \<and> wp_suffix p bs"
proof (induction "unat (wp_size_limit p) - unat (wp_bytes_read p)" arbitrary: p blk rule: less_induct)
  case less
  obtain r blk' where next': "wp_next p blk = (r, blk')" by force
  have valid: "\<not> wp_invalid r"
    using less.prems(5,6) by (subst (asm) wp_scan.simps) (auto simp: next')
  from wp_next_sound [OF next' valid less.prems(1-4)] obtain b where
    b: "wblock_ok (wp_masked_write p) b"
      "drop (unat (wp_bytes_read p)) (wp_buffer p) = wblock_bytes b @ drop (unat (wp_bytes_read r)) (wp_buffer p)"
      "unat (wp_bytes_read r) = unat (wp_bytes_read p) + length (wblock_bytes b)"
      "unat (wp_bytes_read r) \<le> unat (wp_size_limit p)"
    and r: "r = p\<lparr>wp_bytes_read := wp_bytes_read r, wp_finished := (wp_bytes_read r = wp_size_limit p)\<rparr>"
    by blast
  have same: "wp_size_limit r = wp_size_limit p" "wp_buffer r = wp_buffer p"
    "wp_masked_write r = wp_masked_write p" "wp_finished r = (wp_bytes_read r = wp_size_limit p)"
    by (subst r; simp)+
  show ?case
  proof (cases "wp_finished r")
    case True
    then have "wp_suffix p [b]" using b less.prems(1,2) same(4) by (auto simp: wp_suffix_def)
    then show ?thesis by blast
  next
    case False
    let ?q = "r\<lparr>wp_required_tx_buffer_size := wp_required_tx_buffer_size r + (8 + 2)\<rparr>"
    have moved: "unat (wp_bytes_read p) < unat (wp_bytes_read r)"
      using wp_next_measure(2) [OF next' valid False less.prems(3)] .
    have "wp_scan ?q blk' = Some q"
      using less.prems(5) valid False by (subst (asm) wp_scan.simps) (simp add: next')
    moreover have "unat (wp_size_limit ?q) - unat (wp_bytes_read ?q) < unat (wp_size_limit p) - unat (wp_bytes_read p)"
      using moved b(4) same by simp
    ultimately obtain bs where bs: "wp_suffix ?q bs"
      using less.hyps [of ?q blk'] False valid b(4) less.prems(4,6) same by auto
    then obtain junk where "drop (unat (wp_bytes_read r)) (wp_buffer p) = write_request bs @ junk"
      by (auto simp: wp_suffix_def same)
    then have "wp_suffix p (b # bs)"
      using bs b less.prems(1,2) same by (auto simp: wp_suffix_def)
    then show ?thesis by blast
  qed
qed

text \<open>The request is a list of blocks, or the parser says that it is not.\<close>

lemma wp_init_sound:
  assumes "wp_init rq masked blk = Some p" "\<not> wp_invalid p" "unat (rq_data_length rq) \<le> length (rq_data rq)"
  shows "\<exists>bs. bs \<noteq> [] \<and> list_all (wblock_ok masked) bs \<and> has_payload rq (write_request bs)"
proof -
  let ?p = "wp_reset \<lparr>wp_buffer = rq_data rq, wp_bytes_read = 0, wp_size_limit = rq_data_length rq,
    wp_required_tx_buffer_size = 0, wp_finished = False, wp_invalid = False, wp_masked_write = masked\<rparr>"
  obtain q where q: "wp_scan ?p blk = Some q" "\<not> wp_invalid q"
    using assms(1,2) by (auto simp: wp_init_def Let_def split: option.splits)
  obtain bs where "bs \<noteq> []" "wp_suffix ?p bs"
    using wp_scan_sound [OF _ _ _ _ q] assms(3) by (auto simp: wp_reset_def)
  then show ?thesis
    by (intro exI [of _ bs]) (auto simp: wp_suffix_def wp_reset_def has_payload_def)
qed

lemma write_loop_forbidden:
  assumes "wp_suffix p (bs @ b # bs')" "wp_masked_write p = masked" "\<forall>b\<in>set bs. write_allowed cf b"
    "\<not> write_allowed cf b"
  shows "\<exists>e'. write_loop cf masked m p blk e = Some (RC_Forbidden, store_blocks masked bs m, e')"
  using assms
proof (induction bs arbitrary: p blk e m)
  case Nil
  obtain a ds ms where b: "b = (a, ds, ms)" by (cases b) auto
  note step = wp_next_suffix(1) [OF Nil.prems(1) [simplified], of blk]
  have run: "\<not> wp_finished p" "\<not> wp_invalid p" "length ds < 65536"
    using Nil.prems(1) by (simp_all add: wp_suffix_def wblock_ok_def b)
  show ?case
    using step run Nil.prems(2,4)
    by (subst write_loop.simps)
      (auto simp: b block_of_def touches_forbidden_block_def touches_readonly_block_def write_allowed_def
        store_blocks_def)
next
  case (Cons c bs)
  obtain a ds ms where c: "c = (a, ds, ms)" by (cases c) auto
  let ?p = "p\<lparr>wp_bytes_read := wp_bytes_read p + of_nat (length (wblock_bytes c)), wp_finished := False\<rparr>"
  let ?blk = "block_of masked c blk"
  note step = wp_next_suffix [OF Cons.prems(1) [simplified]]
  have run: "\<not> wp_finished p" "\<not> wp_invalid p" "length ds < 65536"
    using Cons.prems(1) by (simp_all add: wp_suffix_def wblock_ok_def c)
  have allowed: "\<not> touches_forbidden_block cf ?blk" "\<not> touches_readonly_block cf ?blk"
    using Cons.prems(3) run(3)
    by (simp_all add: c block_of_def touches_forbidden_block_def touches_readonly_block_def write_allowed_def)
  have store: "(if \<not> masked then mem_write m (mb_start_address ?blk) (take (unat (mb_length ?blk)) (mb_source_data ?blk))
      else masked_write m (mb_start_address ?blk) (mb_source_data ?blk) (the (mb_mask ?blk)) (unat (mb_length ?blk)))
      = store_block masked c m"
    using run(3) by (simp add: c block_of_def store_block_def masked_write_bytes)
  have loop: "write_loop cf masked m p blk e =
      write_loop cf masked (store_block masked c m) ?p ?blk (write_mem_write ?blk e)"
    using step(1) [of blk] run allowed Cons.prems(2) store by (subst write_loop.simps) (simp add: Let_def)
  have "wp_suffix ?p (bs @ b # bs')" "wp_masked_write ?p = masked" "\<forall>b\<in>set bs. write_allowed cf b"
    using step(2) Cons.prems(2,3) by simp_all
  from Cons.IH [OF this Cons.prems(4), of "store_block masked c m" ?blk "write_mem_write ?blk e"] loop
  show ?case by (auto simp: store_blocks_def)
qed

section \<open>The requests through the handler\<close>

lemma payload_of_appends:
  assumes "appends bs (en_init rs tx_size) e"
  shows "response_payload (en_response e) = bs"
  using assms by (auto simp: appends_def en_inv_def en_payload_def response_payload_def en_init_def)

lemma en_remaining_init [simp]: "en_remaining (en_init rs tx_size) = unat tx_size"
  by (simp add: en_remaining_def en_init_def)

lemma en_init_fields [simp]: "en_overflow (en_init rs tx_size) = False" "en_size_limit (en_init rs tx_size) = tx_size"
  by (simp_all add: en_init_def)

lemma response_size_butlast: "response_size (butlast bs) \<le> response_size bs"
  by (induction bs) auto

lemma tx_room_nat: "unat required \<le> 65519 \<Longrightarrow> tx_room required = 65519 - unat required"
  unfolding tx_room_def by (subst unat_sub) (simp_all add: word_le_nat_alt)

text \<open>The write handler past its checks.\<close>

lemma process_write_loop:
  assumes "has_payload rq (write_request bs)" "bs \<noteq> []" "list_all (wblock_ok masked) bs"
    "cf_memory_write_enable cf" "10 * (length bs - 1) \<le> unat tx_size"
  shows "\<exists>p. wp_suffix p bs \<and> wp_masked_write p = masked \<and>
    process_memory_write cf tx_size masked m blk rq rs =
      map_option (\<lambda>(code, m, e). (code, m, en_response e)) (write_loop cf masked m p blk (en_init rs tx_size))"
proof -
  obtain p where p: "wp_init rq masked blk = Some p" "wp_suffix p bs" "wp_masked_write p = masked"
    "wp_required_tx_buffer_size p = of_nat (10 * (length bs - 1))"
    using wp_init_valid [OF assms(1-3)] by blast
  have "10 * (length bs - 1) < 65536" using assms(5) unat_u16_lt [of tx_size] by linarith
  then have "unat (wp_required_tx_buffer_size p) = 10 * (length bs - 1)"
    unfolding p(4) by (rule unat_of_nat_u16)
  then have "\<not> wp_required_tx_buffer_size p > tx_size" using assms(5) by (simp add: word_less_nat_alt)
  moreover have "\<not> wp_invalid p" using p(2) by (simp add: wp_suffix_def)
  ultimately have "process_memory_write cf tx_size masked m blk rq rs =
      map_option (\<lambda>(code, m, e). (code, m, en_response e)) (write_loop cf masked m p blk (en_init rs tx_size))"
    using p(1) assms(4) by (simp add: process_memory_write_def Let_def)
  with p show ?thesis by blast
qed

definition write_subfunction :: "bool \<Rightarrow> u8" where
  "write_subfunction masked = (if masked then MemoryControl_WriteMasked else MemoryControl_Write)"

lemma memory_control_write:
  "rq_subfunction_id rq = write_subfunction masked \<Longrightarrow>
    process_memory_control cf tx_size w stk rq rs =
      map_option (\<lambda>(code, m, rs). (code, w\<lparr>w_memory := m\<rparr>, rs))
        (process_memory_write cf tx_size masked (w_memory w) (stk_block stk) rq rs)"
  by (cases masked) (simp_all add: process_memory_control_def write_subfunction_def)

text \<open>A small target for the examples: a readable memory, one protected range, two published values.\<close>

definition demo_read_callback :: "unit rpv_read_callback" where
  "demo_read_callback r v caller w = (True, ucast (rpv_id r), w)"

definition demo_write_callback :: "unit rpv_write_callback" where
  "demo_write_callback r v w = (True, w\<lparr>w_memory := (w_memory w)(0x100 := ucast v)\<rparr>)"

definition demo_target :: "unit config" where
  "demo_target = config_clear\<lparr>
     cf_forbidden_ranges := Some [\<lparr>ar_start = 0x20000, ar_end = 0x2FFFF\<rparr>], cf_forbidden_range_count := 1,
     cf_rpvs := Some [\<lparr>rpv_id = 0x1122, rpv_type = VT_uint16\<rparr>, \<lparr>rpv_id = 0x3344, rpv_type = VT_uint8\<rparr>],
     cf_rpv_count := 2,
     cf_rpv_read_callback := Some demo_read_callback,
     cf_rpv_write_callback := Some demo_write_callback\<rparr>"

definition demo_world :: "unit world" where
  "demo_world = \<lparr>w_memory = (\<lambda>_. 0x5A), w_user = ()\<rparr>"

definition demo_stack :: mc_stack where
  "demo_stack = \<lparr>stk_block = \<lparr>mb_start_address = 0, mb_length = 0, mb_source_data = [], mb_mask = None\<rparr>,
     stk_rpv = \<lparr>rpv_id = 0, rpv_type = 0\<rparr>, stk_value = 0, stk_id = 0\<rparr>"

definition demo_request :: "u8 \<Rightarrow> u8 \<Rightarrow> u8 list \<Rightarrow> request" where
  "demo_request cmd sub payload =
    \<lparr>rq_command_id = cmd, rq_subfunction_id = sub, rq_data_length = of_nat (length payload),
     rq_data_max_length = 64, rq_data = payload, rq_crc = 0\<rparr>"

definition demo_blank_response :: response where
  "demo_blank_response = \<lparr>rs_command_id = 0, rs_subfunction_id = 0, rs_response_code = 0,
     rs_data_length = 0, rs_data_max_length = 64, rs_data = replicate 64 0, rs_crc = 0\<rparr>"

lemma demo_request_payload: "length payload < 65536 \<Longrightarrow> has_payload (demo_request cmd sub payload) payload"
  by (simp add: has_payload_def demo_request_def)

lemma demo_request_subfunction [simp]: "rq_subfunction_id (demo_request cmd sub payload) = sub"
  by (simp add: demo_request_def)

lemmas demo_simps = demo_target_def demo_world_def demo_stack_def demo_blank_response_def
  config_clear_def

lemma memory_control_read:
  assumes "rq_subfunction_id rq = MemoryControl_Read" "has_payload rq (read_request bs)" "bs \<noteq> []"
    "response_size bs \<le> unat tx_size" "unat tx_size \<le> 65519" "unat tx_size \<le> length (rs_data rs)"
    "\<forall>b\<in>set bs. response_size (butlast bs) + block_need b \<le> 65519"
    "\<forall>b\<in>set bs. read_allowed cf b"
  shows "\<exists>e. process_memory_control cf tx_size w stk rq rs = Some (RC_OK, w, en_response e)
    \<and> appends (read_response (w_memory w) bs) (en_init rs tx_size) e"
proof -
  have scan: "scan_fits 0 bs" "unat (scan_required 0 bs) = response_size (butlast bs)"
    using scan_of_sizes [of 0 bs] assms(4,5) by simp_all
  obtain p where p: "rp_init rq (stk_block stk) = Some p" "rp_suffix p bs"
    "rp_required_tx_buffer_size p = scan_required 0 bs"
    using rp_init_valid [OF assms(2,3) scan(1)] by blast
  have small: "unat (scan_required 0 bs) \<le> 65519" "\<not> scan_required 0 bs > tx_size"
    using scan(2) response_size_butlast [of bs] assms(4,5) by (simp_all add: word_less_nat_alt)
  have need: "\<forall>b\<in>set bs. block_need b \<le> tx_room (rp_required_tx_buffer_size p)"
    using assms(7) unfolding p(3) tx_room_nat [OF small(1)] scan(2) by auto
  obtain e' where "read_loop cf (w_memory w) p (stk_block stk) (en_init rs tx_size) = Some (RC_OK, e')"
    "appends (read_response (w_memory w) bs) (en_init rs tx_size) e'"
    using read_loop_blocks [OF p(2) assms(3) need assms(8) en_inv_init [OF assms(6)]] assms(4,5) by auto
  moreover have "\<not> rp_invalid p" using p(2) by (simp add: rp_suffix_def)
  ultimately show ?thesis
    using p small(2) assms(1)
    by (auto simp: process_memory_control_def process_memory_read_def Let_def)
qed

section \<open>Properties\<close>

text \<open>C13: A well-formed request to read blocks of memory is answered with exactly the address, the
  length and the bytes of each block, in the order of the request, and changes nothing, whenever
  the blocks are outside the forbidden ranges and their items fit the transmission buffer (each
  block also fitting beside the ones before the last, which is what the parser tests).\<close>

theorem read_request_served:
  assumes "rq_subfunction_id rq = MemoryControl_Read" "has_payload rq (read_request bs)" "bs \<noteq> []"
    "response_size bs \<le> unat tx_size" "unat tx_size \<le> 65519" "unat tx_size \<le> length (rs_data rs)"
    "\<forall>b\<in>set bs. response_size (butlast bs) + block_need b \<le> 65519"
    "\<forall>b\<in>set bs. read_allowed cf b"
  shows "\<exists>rs'. process_memory_control cf tx_size w stk rq rs = Some (RC_OK, w, rs')
    \<and> response_payload rs' = read_response (w_memory w) bs"
  using memory_control_read [OF assms] payload_of_appends by blast

theorem read_request_served_witness:
  "\<exists>rs'. process_memory_control demo_target 64 demo_world demo_stack
      (demo_request 3 MemoryControl_Read (read_request [(0x1000, 2), (0x30000, 1)])) demo_blank_response
      = Some (RC_OK, demo_world, rs')
    \<and> response_payload rs' = read_response (w_memory demo_world) [(0x1000, 2), (0x30000, 1)]"
  by (rule read_request_served)
    (simp_all add: demo_request_payload length_ack_item demo_simps block_need_def read_allowed_def
      touches_forbidden_region_def is_forbidden_address_range_set_def array_upto_def touches_def)

text \<open>C14: Reading cannot reveal forbidden memory. Whatever the bytes of a read request, two memories
  that differ only inside the forbidden ranges give the same response, when the ranges keep 65535
  bytes away from both ends of the address space.\<close>

theorem forbidden_memory_not_read:
  assumes "rq_subfunction_id rq = MemoryControl_Read" "ranges_inside (cf_forbidden_ranges cf)"
    "\<forall>x. x \<notin> forbidden_addresses cf \<longrightarrow> m' x = w_memory w x"
  shows "\<exists>code rs'. process_memory_control cf tx_size w stk rq rs = Some (code, w, rs')
    \<and> process_memory_control cf tx_size (w\<lparr>w_memory := m'\<rparr>) stk rq rs = Some (code, w\<lparr>w_memory := m'\<rparr>, rs')"
proof -
  have "read_loop cf (w_memory w) p blk e = read_loop cf m' p blk e" for p blk e
    using read_loop_forbidden [OF assms(2)] assms(3) by metis
  then have same: "process_memory_read cf tx_size (w_memory w) blk rq rs = process_memory_read cf tx_size m' blk rq rs" for blk
    by (simp add: process_memory_read_def Let_def split: option.split)
  obtain r where "process_memory_read cf tx_size m' (stk_block stk) rq rs = Some r"
    using process_memory_read_total by blast
  with same assms(1) show ?thesis by (cases r) (simp add: process_memory_control_def)
qed

theorem forbidden_memory_not_read_witness:
  "\<exists>code rs'. process_memory_control demo_target 64 demo_world demo_stack
      (demo_request 3 MemoryControl_Read [0, 0, 0, 0, 0, 2, 0, 0, 0, 4]) demo_blank_response
      = Some (code, demo_world, rs')
    \<and> process_memory_control demo_target 64 (demo_world\<lparr>w_memory := (w_memory demo_world)(0x20002 := 7)\<rparr>) demo_stack
      (demo_request 3 MemoryControl_Read [0, 0, 0, 0, 0, 2, 0, 0, 0, 4]) demo_blank_response
      = Some (code, demo_world\<lparr>w_memory := (w_memory demo_world)(0x20002 := 7)\<rparr>, rs')"
  by (rule forbidden_memory_not_read)
    (auto simp: demo_simps ranges_inside_def forbidden_addresses_def array_upto_def range_addresses_def)

text \<open>C15: A well-formed write request, masked or not, to blocks that the configuration does not
  protect stores exactly the data of its blocks, in their order, and is acknowledged by the address
  and length of each block, when the acknowledgements fit the transmission buffer.\<close>

theorem write_request_served:
  assumes "rq_subfunction_id rq = write_subfunction masked" "has_payload rq (write_request bs)" "bs \<noteq> []"
    "list_all (wblock_ok masked) bs" "cf_memory_write_enable cf" "\<forall>b\<in>set bs. write_allowed cf b"
    "10 * length bs \<le> unat tx_size" "unat tx_size \<le> length (rs_data rs)"
  shows "\<exists>rs'. process_memory_control cf tx_size w stk rq rs
      = Some (RC_OK, w\<lparr>w_memory := store_blocks masked bs (w_memory w)\<rparr>, rs')
    \<and> response_payload rs' = write_response bs"
proof -
  have "10 * (length bs - 1) \<le> unat tx_size" using assms(7) by (simp add: diff_mult_distrib2)
  from process_write_loop [OF assms(2-5) this] obtain p where p: "wp_suffix p bs" "wp_masked_write p = masked"
    "process_memory_write cf tx_size masked (w_memory w) (stk_block stk) rq rs =
      map_option (\<lambda>(code, m, e). (code, m, en_response e))
        (write_loop cf masked (w_memory w) p (stk_block stk) (en_init rs tx_size))"
    by blast
  from write_loop_blocks [OF p(1) assms(3) p(2) assms(6)] en_inv_init [OF assms(8)] assms(7)
  obtain e' where "write_loop cf masked (w_memory w) p (stk_block stk) (en_init rs tx_size)
      = Some (RC_OK, store_blocks masked bs (w_memory w), e')"
    "appends (write_response bs) (en_init rs tx_size) e'" by (metis en_remaining_init)
  with p(3) payload_of_appends show ?thesis by (simp add: memory_control_write [OF assms(1)])
qed

theorem write_request_served_witness:
  "\<exists>rs'. process_memory_control demo_target 64 demo_world demo_stack
      (demo_request 3 (write_subfunction True) (write_request [(0x1000, [1, 2], [0xFF, 0x0F])])) demo_blank_response
      = Some (RC_OK, demo_world\<lparr>w_memory := store_blocks True [(0x1000, [1, 2], [0xFF, 0x0F])] (w_memory demo_world)\<rparr>, rs')
    \<and> response_payload rs' = write_response [(0x1000, [1, 2], [0xFF, 0x0F])]"
  by (rule write_request_served)
    (simp_all add: demo_request_payload wblock_bytes_def length_ack_item demo_simps wblock_ok_def write_allowed_def
      touches_forbidden_region_def touches_readonly_region_def is_forbidden_address_range_set_def
      is_readonly_address_range_set_def array_upto_def touches_def)

text \<open>C16: No write request, whatever its bytes and whatever its response code, changes a byte of the
  forbidden or of the read-only ranges (when the ranges keep 65535 bytes away from both ends of the
  address space), and none changes any byte when writing is disabled.\<close>

theorem protected_memory_not_written:
  assumes "rq_subfunction_id rq = write_subfunction masked"
    "ranges_inside (cf_forbidden_ranges cf)" "ranges_inside (cf_readonly_ranges cf)"
    "process_memory_control cf tx_size w stk rq rs = Some (code, w', rs')"
    "x \<in> protected_addresses cf \<or> \<not> cf_memory_write_enable cf"
  shows "w_memory w' x = w_memory w x"
proof -
  obtain m' where m': "process_memory_write cf tx_size masked (w_memory w) (stk_block stk) rq rs = Some (code, m', rs')"
    "w' = w\<lparr>w_memory := m'\<rparr>"
    using assms(4) by (auto simp: memory_control_write [OF assms(1)])
  show ?thesis
  proof (cases "cf_memory_write_enable cf")
    case True
    then obtain p where p: "wp_init rq masked (stk_block stk) = Some p"
      and "m' = w_memory w \<or> (\<exists>e'. write_loop cf masked (w_memory w) p (stk_block stk) (en_init rs tx_size)
        = Some (code, m', e'))"
      using m'(1) by (auto simp: process_memory_write_def Let_def split: option.splits if_splits)
    then show ?thesis
      using write_loop_protected [OF assms(2,3) _ wp_init_start [OF p]] assms(5) True m'(2) by auto
  next
    case False
    with m' show ?thesis by (simp add: process_memory_write_def)
  qed
qed

theorem protected_memory_not_written_witness:
  "\<exists>code w' rs'. process_memory_control demo_target 64 demo_world demo_stack
      (demo_request 3 (write_subfunction False) [0, 0, 0, 0, 0, 1, 0xFF, 0xFF, 0, 2, 1, 1]) demo_blank_response
      = Some (code, w', rs') \<and> w_memory w' 0x20000 = w_memory demo_world 0x20000"
proof -
  let ?rq = "demo_request 3 (write_subfunction False) [0, 0, 0, 0, 0, 1, 0xFF, 0xFF, 0, 2, 1, 1]"
  obtain code w' rs' where run: "process_memory_control demo_target 64 demo_world demo_stack ?rq demo_blank_response
      = Some (code, w', rs')"
    using memory_control_total by (metis prod_cases3)
  have "w_memory w' 0x20000 = w_memory demo_world 0x20000"
    by (rule protected_memory_not_written [OF _ _ _ run, of False])
      (simp_all add: demo_simps ranges_inside_def protected_addresses_def forbidden_addresses_def
        array_upto_def range_addresses_def)
  with run show ?thesis by blast
qed

text \<open>C17: A write request is either a list of blocks, or it is answered InvalidRequest before
  anything is written: the validation traversal accepts exactly the payloads that are the encoding
  of some list of blocks.\<close>

theorem write_request_decided:
  assumes "rq_subfunction_id rq = write_subfunction masked" "cf_memory_write_enable cf"
    "unat (rq_data_length rq) \<le> length (rq_data rq)"
  shows "(\<exists>rs'. process_memory_control cf tx_size w stk rq rs = Some (RC_InvalidRequest, w, rs'))
    \<longleftrightarrow> \<not> (\<exists>bs. bs \<noteq> [] \<and> list_all (wblock_ok masked) bs \<and> has_payload rq (write_request bs))"
proof
  assume invalid: "\<exists>rs'. process_memory_control cf tx_size w stk rq rs = Some (RC_InvalidRequest, w, rs')"
  show "\<not> (\<exists>bs. bs \<noteq> [] \<and> list_all (wblock_ok masked) bs \<and> has_payload rq (write_request bs))"
  proof
    assume "\<exists>bs. bs \<noteq> [] \<and> list_all (wblock_ok masked) bs \<and> has_payload rq (write_request bs)"
    then obtain bs where bs: "has_payload rq (write_request bs)" "bs \<noteq> []" "list_all (wblock_ok masked) bs"
      by blast
    from wp_init_valid [OF this] obtain p where p: "wp_init rq masked (stk_block stk) = Some p"
      "wp_suffix p bs" "wp_masked_write p = masked" by blast
    have "write_loop cf masked m p blk e \<noteq> Some (RC_InvalidRequest, m', e')" for m blk e m' e'
    proof (cases "\<forall>b\<in>set bs. write_allowed cf b")
      case True
      from write_loop_blocks [OF p(2) bs(2) p(3) this, of m blk e] show ?thesis by auto
    next
      case False
      then obtain xs b ys where "bs = xs @ b # ys" "\<not> write_allowed cf b" "\<forall>b\<in>set xs. write_allowed cf b"
        using split_list_first_prop [of bs "\<lambda>b. \<not> write_allowed cf b"] by auto
      with write_loop_forbidden [OF _ p(3), of xs b ys cf m blk e] p(2) show ?thesis by auto
    qed
    with invalid p show False
      by (auto simp: memory_control_write [OF assms(1)] process_memory_write_def Let_def assms(2)
          wp_suffix_def split: if_splits)
  qed
next
  assume none: "\<not> (\<exists>bs. bs \<noteq> [] \<and> list_all (wblock_ok masked) bs \<and> has_payload rq (write_request bs))"
  obtain p where p: "wp_init rq masked (stk_block stk) = Some p" using wp_init_total by blast
  with none wp_init_sound [OF p _ assms(3)] have "wp_invalid p" by blast
  with p show "\<exists>rs'. process_memory_control cf tx_size w stk rq rs = Some (RC_InvalidRequest, w, rs')"
    by (simp add: memory_control_write [OF assms(1)] process_memory_write_def Let_def assms(2))
qed

theorem write_request_decided_witness:
  "(\<exists>rs'. process_memory_control demo_target 64 demo_world demo_stack
      (demo_request 3 (write_subfunction False) [1, 2, 3]) demo_blank_response = Some (RC_InvalidRequest, demo_world, rs'))
    \<longleftrightarrow> \<not> (\<exists>bs. bs \<noteq> [] \<and> list_all (wblock_ok False) bs
          \<and> has_payload (demo_request 3 (write_subfunction False) [1, 2, 3]) (write_request bs))"
  by (rule write_request_decided) (simp_all add: demo_simps demo_request_def)

text \<open>A write request stops at its first block that is not allowed, and answers Forbidden, but
  the blocks before it have already been written: the request is not atomic.\<close>

theorem write_stops_at_forbidden:
  assumes "rq_subfunction_id rq = write_subfunction masked" "has_payload rq (write_request (bs @ b # bs'))"
    "list_all (wblock_ok masked) (bs @ b # bs')" "cf_memory_write_enable cf"
    "\<forall>b\<in>set bs. write_allowed cf b" "\<not> write_allowed cf b" "10 * length (bs @ bs') \<le> unat tx_size"
  shows "\<exists>rs'. process_memory_control cf tx_size w stk rq rs
      = Some (RC_Forbidden, w\<lparr>w_memory := store_blocks masked bs (w_memory w)\<rparr>, rs')"
proof -
  have "10 * (length (bs @ b # bs') - 1) \<le> unat tx_size" "bs @ b # bs' \<noteq> []" using assms(7) by simp_all
  from process_write_loop [OF assms(2) this(2) assms(3,4) this(1)] obtain p where
    p: "wp_suffix p (bs @ b # bs')" "wp_masked_write p = masked"
    "process_memory_write cf tx_size masked (w_memory w) (stk_block stk) rq rs =
      map_option (\<lambda>(code, m, e). (code, m, en_response e))
        (write_loop cf masked (w_memory w) p (stk_block stk) (en_init rs tx_size))"
    by blast
  obtain e' where "write_loop cf masked (w_memory w) p (stk_block stk) (en_init rs tx_size)
      = Some (RC_Forbidden, store_blocks masked bs (w_memory w), e')"
    using write_loop_forbidden [OF p(1,2) assms(5,6)] by blast
  with p(3) show ?thesis by (simp add: memory_control_write [OF assms(1)])
qed

theorem write_stops_at_forbidden_witness:
  "\<exists>rs'. process_memory_control demo_target 64 demo_world demo_stack
      (demo_request 3 (write_subfunction False) (write_request ([(0x1000, [1], [])] @ (0x20000, [2], []) # [])))
      demo_blank_response
      = Some (RC_Forbidden, demo_world\<lparr>w_memory := store_blocks False [(0x1000, [1], [])] (w_memory demo_world)\<rparr>, rs')"
  by (rule write_stops_at_forbidden [where b = "(0x20000, [2], [])" and bs' = "[]"])
    (simp_all add: demo_request_payload wblock_bytes_def length_ack_item demo_simps wblock_ok_def write_allowed_def
      touches_forbidden_region_def touches_readonly_region_def is_forbidden_address_range_set_def
      is_readonly_address_range_set_def array_upto_def touches_def)

text \<open>C18: The acknowledgement of the last block is not counted by the validation, on which the
  handler relies: when the transmission buffer has room for all of them but the last, every block
  is written, the response code is OK, and the last acknowledgement is missing.\<close>

theorem write_last_ack_missing:
  assumes "rq_subfunction_id rq = write_subfunction masked" "has_payload rq (write_request bs)" "bs \<noteq> []"
    "list_all (wblock_ok masked) bs" "cf_memory_write_enable cf" "\<forall>b\<in>set bs. write_allowed cf b"
    "10 * (length bs - 1) \<le> unat tx_size" "unat tx_size < 10 * length bs" "unat tx_size \<le> length (rs_data rs)"
  shows "\<exists>rs'. process_memory_control cf tx_size w stk rq rs
      = Some (RC_OK, w\<lparr>w_memory := store_blocks masked bs (w_memory w)\<rparr>, rs')
    \<and> response_payload rs' = write_response (butlast bs)"
proof -
  from process_write_loop [OF assms(2-5) assms(7)] obtain p where p: "wp_suffix p bs" "wp_masked_write p = masked"
    "process_memory_write cf tx_size masked (w_memory w) (stk_block stk) rq rs =
      map_option (\<lambda>(code, m, e). (code, m, en_response e))
        (write_loop cf masked (w_memory w) p (stk_block stk) (en_init rs tx_size))"
    by blast
  from write_loop_blocks [OF p(1) assms(3) p(2) assms(6)] en_inv_init [OF assms(9)] assms(7,8)
  obtain e' e'' where "write_loop cf masked (w_memory w) p (stk_block stk) (en_init rs tx_size)
      = Some (RC_OK, store_blocks masked bs (w_memory w), e')"
    "appends (write_response (butlast bs)) (en_init rs tx_size) e''" "e' = en_flag e''"
    by (metis en_remaining_init)
  with p(3) payload_of_appends show ?thesis by (simp add: memory_control_write [OF assms(1)])
qed

theorem write_last_ack_missing_witness:
  "\<exists>rs'. process_memory_control demo_target 32 demo_world demo_stack
      (demo_request 3 (write_subfunction False)
        (write_request [(0x1000, [1], []), (0x1001, [2], []), (0x1002, [3], []), (0x1003, [4], [])])) demo_blank_response
      = Some (RC_OK, demo_world\<lparr>w_memory := store_blocks False
          [(0x1000, [1], []), (0x1001, [2], []), (0x1002, [3], []), (0x1003, [4], [])] (w_memory demo_world)\<rparr>, rs')
    \<and> response_payload rs'
      = write_response (butlast [(0x1000, [1], []), (0x1001, [2], []), (0x1002, [3], []), (0x1003, [4], [])])"
  by (rule write_last_ack_missing)
    (simp_all add: demo_request_payload wblock_bytes_def length_ack_item demo_simps wblock_ok_def write_allowed_def
      touches_forbidden_region_def touches_readonly_region_def is_forbidden_address_range_set_def
      is_readonly_address_range_set_def array_upto_def touches_def)

text \<open>The second traversal of a read request still counts the blocks of the first: a request for
  two blocks whose response fits the transmission buffer is refused as invalid when the first
  block alone is larger than half of what the protocol allows.\<close>

theorem read_large_block_rejected:
  assumes "rq_subfunction_id rq = MemoryControl_Read" "has_payload rq (read_request [(a, l), b])"
    "response_size [(a, l), b] \<le> unat tx_size" "unat tx_size \<le> 65519"
    "65519 < 2 * block_need (a, l)"
  shows "\<exists>rs'. process_memory_control cf tx_size w stk rq rs = Some (RC_InvalidRequest, w, rs')"
proof -
  have scan: "scan_fits 0 [(a, l), b]" "unat (scan_required 0 [(a, l), b]) = block_need (a, l)"
    using scan_of_sizes [of 0 "[(a, l), b]"] assms(3,4) by simp_all
  obtain p where p: "rp_init rq (stk_block stk) = Some p" "rp_suffix p [(a, l), b]"
    "rp_required_tx_buffer_size p = scan_required 0 [(a, l), b]"
    using rp_init_valid [OF assms(2) _ scan(1)] by blast
  have small: "unat (scan_required 0 [(a, l), b]) \<le> 65519" "\<not> scan_required 0 [(a, l), b] > tx_size"
    using scan(2) assms(3,4) by (simp_all add: word_less_nat_alt)
  have "\<not> block_need (a, l) \<le> tx_room (rp_required_tx_buffer_size p)"
    using assms(5) unfolding p(3) tx_room_nat [OF small(1)] scan(2) by simp
  then obtain q blk where "rp_next p (stk_block stk) = (q, blk)" "rp_invalid q"
    using rp_next_too_big [OF p(2), of "stk_block stk"] by (cases "rp_next p (stk_block stk)") auto
  then have "read_loop cf (w_memory w) p (stk_block stk) e = Some (RC_InvalidRequest, e)" for e
    using p(2) by (subst read_loop.simps) (simp add: rp_suffix_def)
  moreover have "\<not> rp_invalid p" using p(2) by (simp add: rp_suffix_def)
  ultimately show ?thesis
    using p(1,3) small(2) assms(1)
    by (simp add: process_memory_control_def process_memory_read_def Let_def)
qed

theorem read_large_block_rejected_witness:
  "\<exists>rs'. process_memory_control demo_target 65000 demo_world demo_stack
      (demo_request 3 MemoryControl_Read (read_request [(0x100000, 40000), (0x1000, 4)])) demo_blank_response
      = Some (RC_InvalidRequest, demo_world, rs')"
  by (rule read_large_block_rejected [where a = "0x100000" and l = 40000 and b = "(0x1000, 4)"])
    (simp_all add: demo_request_payload length_ack_item block_need_def)

text \<open>C19: A block that runs over the end of the address space escapes the check: when all the
  protected ranges lie below its start, it is accepted although it reaches them, and the write
  request that holds it stores its bytes into the protected range it wraps into.\<close>

theorem wrapping_write_reaches_protected:
  assumes "rq_subfunction_id rq = write_subfunction False" "has_payload rq (write_request [(a, ds, [])])"
    "length ds < 65536" "cf_memory_write_enable cf" "10 \<le> unat tx_size" "unat tx_size \<le> length (rs_data rs)"
    "\<forall>r \<in> set (array_upto (cf_forbidden_ranges cf) (unat (cf_forbidden_range_count cf))) \<union>
         set (array_upto (cf_readonly_ranges cf) (unat (cf_readonly_range_count cf))). ar_end r < a"
    "x \<in> protected_addresses cf" "unat x < unat a + length ds - 2 ^ 64"
  shows "\<exists>rs'. process_memory_control cf tx_size w stk rq rs
      = Some (RC_OK, w\<lparr>w_memory := mem_write (w_memory w) a ds\<rparr>, rs')
    \<and> mem_write (w_memory w) a ds x = ds ! (2 ^ 64 - unat a + unat x)"
proof -
  have allowed: "write_allowed cf (a, ds, [])"
    using assms(7) by (auto simp: write_allowed_def touches_forbidden_region_def touches_readonly_region_def
        touches_def list_ex_iff Let_def not_le)
  have need: "10 * (length [(a, ds, [] :: u8 list)] - 1) \<le> unat tx_size" by simp
  have blocks: "list_all (wblock_ok False) [(a, ds, [])]" using assms(3) by (simp add: wblock_ok_def)
  from process_write_loop [OF assms(2) _ blocks assms(4) need] obtain p where
    p: "wp_suffix p [(a, ds, [])]" "wp_masked_write p = False"
    "process_memory_write cf tx_size False (w_memory w) (stk_block stk) rq rs =
      map_option (\<lambda>(code, m, e). (code, m, en_response e))
        (write_loop cf False (w_memory w) p (stk_block stk) (en_init rs tx_size))"
    by blast
  from write_loop_blocks [OF p(1) _ p(2)] allowed
  obtain e' where "write_loop cf False (w_memory w) p (stk_block stk) (en_init rs tx_size)
      = Some (RC_OK, store_blocks False [(a, ds, [])] (w_memory w), e')" by fastforce
  moreover have "mem_write (w_memory w) a ds x = ds ! (2 ^ 64 - unat a + unat x)"
  proof -
    have a: "unat a < 2 ^ 64" using unsigned_less [of a] by simp
    have "2 ^ 64 - unat a + unat x < length ds" using assms(9) a by linarith
    moreover have "unat (x - a) = 2 ^ 64 - unat a + unat x"
    proof -
      have "2 ^ 64 - unat a + unat x < 65536" using calculation assms(3) by linarith
      then have "unat (word_of_nat (2 ^ 64 - unat a + unat x) :: uintptr) = 2 ^ 64 - unat a + unat x"
        by (rule address_offset)
      moreover have "word_of_nat (2 ^ 64 - unat a + unat x) = x - a"
        using a by (simp add: of_nat_diff)
      ultimately show ?thesis by simp
    qed
    ultimately show ?thesis by (simp add: mem_write_def)
  qed
  ultimately show ?thesis
    using p(3) by (simp add: memory_control_write [OF assms(1)] store_blocks_def store_block_def)
qed

theorem wrapping_write_reaches_protected_witness:
  "\<exists>rs'. process_memory_control (demo_target\<lparr>cf_forbidden_ranges := Some [\<lparr>ar_start = 0, ar_end = 0xFF\<rparr>]\<rparr>)
      64 demo_world demo_stack
      (demo_request 3 (write_subfunction False) (write_request [(0xFFFFFFFFFFFFFFFF, [1, 2, 3], [])])) demo_blank_response
      = Some (RC_OK, demo_world\<lparr>w_memory := mem_write (w_memory demo_world) 0xFFFFFFFFFFFFFFFF [1, 2, 3]\<rparr>, rs')
    \<and> mem_write (w_memory demo_world) 0xFFFFFFFFFFFFFFFF [1, 2, 3] 1
      = [1, 2, 3 :: u8] ! (2 ^ 64 - unat (0xFFFFFFFFFFFFFFFF :: uintptr) + unat (1 :: uintptr))"
  by (rule wrapping_write_reaches_protected)
    (simp_all add: demo_request_payload wblock_bytes_def length_ack_item demo_simps array_upto_def
      protected_addresses_def forbidden_addresses_def range_addresses_def word_less_nat_alt)

text \<open>C20: Every memory request, whatever its bytes, is answered: none of the loops over a request
  runs forever.\<close>

theorem memory_control_returns:
  "\<exists>code w' rs'. process_memory_control cf tx_size w stk rq rs = Some (code, w', rs')"
  using process_memory_read_total [of cf tx_size "w_memory w" "stk_block stk" rq rs]
    process_memory_write_total [of cf tx_size "rq_subfunction_id rq = MemoryControl_WriteMasked" "w_memory w" "stk_block stk" rq rs]
    process_read_rpv_total [of cf tx_size w "stk_id stk" "stk_value stk" rq rs]
    process_write_rpv_total [of cf tx_size w "stk_rpv stk" "stk_value stk" rq rs]
  by (auto simp: process_memory_control_def Let_def)

lemma process_read_rpv_values:
  assumes "cf_rpv_read_callback cf = Some cb" "is_read_published_values_configured cf" "rpvs_supported cf"
    "has_payload rq (rpv_ids ids)" "ids \<noteq> []" "read_values cf cb w v ids = Some (vs, w')"
    "length (rpv_items vs) \<le> unat tx_size" "unat tx_size \<le> length (rs_data rs)"
  shows "\<exists>rs'. process_read_rpv cf tx_size w i v rq rs = Some (RC_OK, w', rs') \<and> response_payload rs' = rpv_items vs"
proof -
  have even: "\<not> rq_data_length rq AND 1 \<noteq> 0"
    using assms(4) by (simp add: has_payload_def length_rpv_ids and_one_eq word_unat_eq_iff unat_mod)
  have suf: "vp_suffix (read_rpv_init rq) (rpv_ids ids)"
    using assms(4) even has_payload_split [OF assms(4)]
    by (auto simp: vp_suffix_def read_rpv_init_def vp_start_def vp_reset_def has_payload_def)
  obtain e' where "read_rpv_loop cf cb w (read_rpv_init rq) i v (en_init rs tx_size)
      = Some (RC_OK, w', e')" "appends (rpv_items vs) (en_init rs tx_size) e'"
    using read_rpv_loop_values [OF suf assms(5,3,6) en_inv_init [OF assms(8)]] assms(7) by auto
  moreover have "\<not> vp_invalid (read_rpv_init rq)" using suf by (simp add: vp_suffix_def)
  ultimately show ?thesis
    using assms(1,2) payload_of_appends by (simp add: process_read_rpv_def Let_def)
qed

lemma process_write_rpv_values:
  assumes "cf_rpv_write_callback cf = Some cb" "is_write_published_values_configured cf" "rpvs_supported cf"
    "has_payload rq (rpv_items vs)" "vs \<noteq> []" "\<forall>(r, x)\<in>set vs. get_rpv cf (rpv_id r) = Some r"
    "write_values cb w v vs = Some w'" "3 * length vs \<le> unat tx_size" "unat tx_size \<le> length (rs_data rs)"
  shows "\<exists>rs'. process_write_rpv cf tx_size w rv v rq rs = Some (RC_OK, w', rs') \<and> response_payload rs' = rpv_acks vs"
proof -
  have suf: "vp_suffix (write_rpv_init rq) (rpv_items vs)"
    using assms(4) has_payload_split [OF assms(4)]
    by (auto simp: vp_suffix_def write_rpv_init_def vp_start_def vp_reset_def has_payload_def)
  obtain e' where "write_rpv_loop cf cb w (write_rpv_init rq) rv v (en_init rs tx_size)
      = Some (RC_OK, w', e')" "appends (rpv_acks vs) (en_init rs tx_size) e'"
    using write_rpv_loop_values [OF suf assms(5,3,6,7) en_inv_init [OF assms(9)]] assms(8) by auto
  moreover have "\<not> vp_invalid (write_rpv_init rq)" using suf by (simp add: vp_suffix_def)
  ultimately show ?thesis
    using assms(1,2) payload_of_appends by (simp add: process_write_rpv_def Let_def)
qed

text \<open>C21: A request for published values calls the read callback once for each identifier, in the
  order of the request, and answers with each identifier and the value the callback gave, in the
  size of its type.\<close>

theorem read_rpv_served:
  assumes "rq_subfunction_id rq = MemoryControl_ReadRPV" "cf_rpv_read_callback cf = Some cb"
    "is_read_published_values_configured cf" "rpvs_supported cf" "has_payload rq (rpv_ids ids)" "ids \<noteq> []"
    "read_values cf cb w (stk_value stk) ids = Some (vs, w')"
    "length (rpv_items vs) \<le> unat tx_size" "unat tx_size \<le> length (rs_data rs)"
  shows "\<exists>rs'. process_memory_control cf tx_size w stk rq rs = Some (RC_OK, w', rs')
    \<and> response_payload rs' = rpv_items vs"
  using process_read_rpv_values [OF assms(2-9)] assms(1) by (simp add: process_memory_control_def)

theorem read_rpv_served_witness:
  "\<exists>rs'. process_memory_control demo_target 64 demo_world demo_stack
      (demo_request 3 MemoryControl_ReadRPV (rpv_ids [0x3344, 0x1122])) demo_blank_response
      = Some (RC_OK, demo_world, rs')
    \<and> response_payload rs' = rpv_items [(\<lparr>rpv_id = 0x3344, rpv_type = VT_uint8\<rparr>, 0x3344),
                                        (\<lparr>rpv_id = 0x1122, rpv_type = VT_uint16\<rparr>, 0x1122)]"
  by (rule read_rpv_served [where ids = "[0x3344, 0x1122]"])
    ((simp_all add: demo_request_payload be16.length_enc demo_simps is_read_published_values_configured_def
      rpvs_supported_def config_rpvs_def array_upto_def get_rpv_def is_supported_type_iff rpv_item_def
      length_encode_anytype encode_anytype_big_endian_def get_type_size_8bits_def demo_read_callback_def)+)

text \<open>C22: A request to write published values calls the write callback once for each of its items,
  in their order, with the value of the item in the member of the union that the type selects, and
  acknowledges each with the identifier and the size of its type.\<close>

theorem write_rpv_served:
  assumes "rq_subfunction_id rq = MemoryControl_WriteRPV" "cf_rpv_write_callback cf = Some cb"
    "is_write_published_values_configured cf" "rpvs_supported cf" "has_payload rq (rpv_items vs)" "vs \<noteq> []"
    "\<forall>(r, x)\<in>set vs. get_rpv cf (rpv_id r) = Some r"
    "write_values cb w (stk_value stk) vs = Some w'"
    "3 * length vs \<le> unat tx_size" "unat tx_size \<le> length (rs_data rs)"
  shows "\<exists>rs'. process_memory_control cf tx_size w stk rq rs = Some (RC_OK, w', rs')
    \<and> response_payload rs' = rpv_acks vs"
  using process_write_rpv_values [OF assms(2-10)] assms(1) by (simp add: process_memory_control_def)

theorem write_rpv_served_witness:
  "\<exists>rs'. process_memory_control demo_target 64 demo_world demo_stack
      (demo_request 3 MemoryControl_WriteRPV (rpv_items [(\<lparr>rpv_id = 0x3344, rpv_type = VT_uint8\<rparr>, 9)])) demo_blank_response
      = Some (RC_OK, demo_world\<lparr>w_memory := (w_memory demo_world)(0x100 := 9)\<rparr>, rs')
    \<and> response_payload rs' = rpv_acks [(\<lparr>rpv_id = 0x3344, rpv_type = VT_uint8\<rparr>, 9)]"
  by (rule write_rpv_served)
    ((simp_all add: demo_request_payload be16.length_enc demo_simps is_write_published_values_configured_def
      rpvs_supported_def config_rpvs_def array_upto_def get_rpv_def is_supported_type_iff rpv_item_def
      length_encode_anytype encode_anytype_big_endian_def get_type_size_8bits_def set_value_def set_uint8_def demo_write_callback_def Let_def)+)

end
