(* ===== verification/MainHandler.thy ===== *)
theory MainHandler
  imports AcquisitionDownload InfoService MemoryService CommTransmit
begin

text \<open>
  The main handler, which ties the components together: \<open>lib/src/scrutiny_main_handler.cpp\<close> and its
  header. Its state holds the configuration, the communication handler, its time base and the
  datalogging structure; the loop handlers and the target's memory are beside it. One call of
  \<open>process\<close> takes the messages of the loops, answers the request that was received, if any, and lets
  the next one come once the answer has left.
\<close>

section \<open>State\<close>

record 'u main_handler =
  mh_timebase :: timebase
  mh_comm :: comm
  mh_processing_request :: bool
  mh_disconnect_pending :: bool
  mh_config :: "'u config"
  mh_process_again_timestamp :: timestamp
  mh_enabled :: bool
  mh_process_again_timestamp_taken :: bool
  mh_datalogging :: "'u datalogging"

text \<open>What the handlers of the requests find on their stack, and may use as it was.\<close>

record mh_stack =
  ms_memory :: mc_stack
  ms_loop_id :: u8

section \<open>Initialisation\<close>

text \<open>The first result tells \<open>Status::SUCCESS\<close> from \<open>Status::ERROR\<close>.\<close>

definition check_config :: "'u main_handler \<Rightarrow> bool \<times> 'u main_handler" where
  "check_config h =
    (let cf = mh_config h;
         h = h\<lparr>mh_enabled := True\<rparr>;
         h = (if Option.is_none (cf_rx_buffer cf) \<or> cf_rx_buffer_size cf < MINIMUM_RX_BUFFER_SIZE
                \<or> cf_rx_buffer_size cf > MAXIMUM_RX_BUFFER_SIZE then h\<lparr>mh_enabled := False\<rparr> else h);
         h = (if Option.is_none (cf_tx_buffer cf) \<or> cf_tx_buffer_size cf < MINIMUM_TX_BUFFER_SIZE
                \<or> cf_tx_buffer_size cf > MAXIMUM_TX_BUFFER_SIZE then h\<lparr>mh_enabled := False\<rparr> else h);
         h = fold (\<lambda>r h. if \<not> is_supported_type (rpv_type r) then h\<lparr>mh_enabled := False\<rparr> else h)
               (take (unat (cf_rpv_count cf)) (the (cf_rpvs cf))) h
     in (mh_enabled h, h))"

text \<open>A null buffer is only stored by the communication handler, which the check then disables.\<close>

definition buffer_of :: "u8 list option \<Rightarrow> u8 list" where
  "buffer_of b = (case b of None \<Rightarrow> [] | Some bs \<Rightarrow> bs)"

definition mh_init :: "'u config \<Rightarrow> 'u main_handler \<Rightarrow> loops \<Rightarrow> bool \<times> 'u main_handler \<times> loops" where
  "mh_init config h loops =
    (let h = h\<lparr>mh_processing_request := False, mh_disconnect_pending := False,
               mh_process_again_timestamp_taken := False, mh_config := config\<rparr>;
         cf = mh_config h;
         h = h\<lparr>mh_comm := comm_init (buffer_of (cf_rx_buffer cf)) (cf_rx_buffer_size cf)
                 (buffer_of (cf_tx_buffer cf)) (cf_tx_buffer_size cf) (mh_timebase h)
                 (cf_session_counter_seed cf) (mh_comm h)\<rparr>
     in case check_config h of (success, h) \<Rightarrow>
          if \<not> success then (False, h\<lparr>mh_comm := comm_disable (mh_timebase h) (mh_comm h)\<rparr>, loops)
          else if \<not> cm_enabled (mh_comm h) then (False, h\<lparr>mh_enabled := False\<rparr>, loops)
          else (True, h\<lparr>mh_datalogging := datalogging_init cf (mh_datalogging h)\<rparr>,
                fold (\<lambda>l loops. loops(l := loop_init (loops l))) (config_loops cf) loops))"

section \<open>Requests\<close>

text \<open>The answer is written into \<open>rs\<close>, the response of the communication handler.\<close>

definition process_request ::
  "u8 list \<Rightarrow> mh_stack \<Rightarrow> request \<Rightarrow> response \<Rightarrow> 'u main_handler \<Rightarrow> loops \<Rightarrow> 'u world \<Rightarrow>
   ('u main_handler \<times> 'u world \<times> response) option" where
  "process_request software_id stk rq rs h loops w =
    (let cf = mh_config h; tx_size = cm_tx_buffer_size (mh_comm h);
         rs = (rs_reset rs)\<lparr>rs_command_id := rq_command_id rq, rs_subfunction_id := rq_subfunction_id rq\<rparr>;
         cmd = rq_command_id rq
     in case (if cmd = CommandId_GetInfo then
                (case process_get_info cf tx_size loops software_id (ms_loop_id stk) rq rs of
                   (code, rs) \<Rightarrow> Some (code, h, w, rs))
              else if cmd = CommandId_CommControl then
                (case process_comm_control cf software_id (mh_timebase h) (mh_comm h)
                        (mh_disconnect_pending h) rq rs of
                   (code, c, dp, rs) \<Rightarrow> Some (code, h\<lparr>mh_comm := c, mh_disconnect_pending := dp\<rparr>, w, rs))
              else if cmd = CommandId_MemoryControl then
                map_option (\<lambda>(code, w, rs). (code, h, w, rs))
                  (process_memory_control cf tx_size w (ms_memory stk) rq rs)
              else if cmd = CommandId_DataLogControl then
                map_option (\<lambda>(code, d, rs). (code, h\<lparr>mh_datalogging := d\<rparr>, w, rs))
                  (process_datalog_control cf loops rq (mh_datalogging h) rs)
              else if cmd = CommandId_UserCommand then
                (case process_user_command cf tx_size w rq rs of (code, w, rs) \<Rightarrow> Some (code, h, w, rs))
              else Some (RC_UnsupportedFeature, h, w, rs)) of
          None \<Rightarrow> None
        | Some (code, h, w, rs) \<Rightarrow>
            (let rs = rs\<lparr>rs_response_code := response_code_byte code\<rparr>;
                 rs = (if code \<noteq> RC_OK then rs\<lparr>rs_data_length := 0\<rparr> else rs)
             in Some (h, w, rs)))"

section \<open>process\<close>

definition on_comm :: "(comm \<Rightarrow> comm) \<Rightarrow> 'u main_handler \<Rightarrow> 'u main_handler" where
  "on_comm f h = h\<lparr>mh_comm := f (mh_comm h)\<rparr>"

definition check_finished_sending :: "'u main_handler \<Rightarrow> 'u main_handler" where
  "check_finished_sending h =
    (if mh_processing_request h \<and> cm_state (mh_comm h) \<noteq> Comm_Transmitting then
       (let h = (on_comm (wait_next_request (mh_timebase h)) h)
              \<lparr>mh_processing_request := False, mh_process_again_timestamp_taken := False\<rparr>
        in if mh_disconnect_pending h
           then (on_comm (comm_disconnect (mh_timebase h)) h)\<lparr>mh_disconnect_pending := False\<rparr>
           else h)
     else h)"

definition REQUEST_MAX_PROCESS_TIME_US :: timediff where
  "REQUEST_MAX_PROCESS_TIME_US = 100000"

text \<open>The decision that \<open>process\<close> takes on the response of a request.\<close>

definition conclude_request :: "response \<Rightarrow> 'u main_handler \<Rightarrow> 'u main_handler" where
  "conclude_request rs h =
    (let h = on_comm (\<lambda>c. c\<lparr>cm_active_response := rs\<rparr>) h
     in if rs_response_code rs = response_code_byte RC_ProcessAgain then
          (let h = h\<lparr>mh_processing_request := False\<rparr>
           in if \<not> mh_process_again_timestamp_taken h
              then h\<lparr>mh_process_again_timestamp := get_timestamp (mh_timebase h),
                     mh_process_again_timestamp_taken := True\<rparr>
              else if has_expired (mh_timebase h) (mh_process_again_timestamp h) (REQUEST_MAX_PROCESS_TIME_US * 10)
              then (let rs = rs\<lparr>rs_response_code := response_code_byte RC_FailureToProceed\<rparr>;
                        h = on_comm (\<lambda>c. c\<lparr>cm_active_response := rs\<rparr>) h
                    in (on_comm (\<lambda>c. snd (send_response rs c)) h)\<lparr>mh_processing_request := True\<rparr>)
              else h)
        else if rs_response_code rs = response_code_byte RC_NoResponseToSend
        then h\<lparr>mh_processing_request := True\<rparr>
        else on_comm (\<lambda>c. snd (send_response rs c)) (h\<lparr>mh_processing_request := True\<rparr>))"

definition handle_request ::
  "u8 list \<Rightarrow> mh_stack \<Rightarrow> 'u main_handler \<Rightarrow> loops \<Rightarrow> 'u world \<Rightarrow> ('u main_handler \<times> 'u world) option" where
  "handle_request software_id stk h loops w =
    (if cm_request_received (mh_comm h) \<and> \<not> mh_processing_request h then
       (let h = on_comm prepare_response h
        in case process_request software_id stk (cm_active_request (mh_comm h))
                  (cm_active_response (mh_comm h)) h loops w of
             None \<Rightarrow> None
           | Some (h, w, rs) \<Rightarrow> Some (conclude_request rs h, w))
     else Some (h, w))"

text \<open>The messages of the loops, then those to the loops.\<close>

definition mh_loops :: "'u main_handler \<Rightarrow> loops \<Rightarrow> 'u main_handler \<times> loops" where
  "mh_loops h loops =
    (case process_loops (config_loops (mh_config h)) (mh_datalogging h) loops of (d, loops) \<Rightarrow>
     case process_datalogging_logic d loops of (d, loops) \<Rightarrow> (h\<lparr>mh_datalogging := d\<rparr>, loops))"

definition mh_process ::
  "u8 list \<Rightarrow> mh_stack \<Rightarrow> timediff \<Rightarrow> 'u main_handler \<Rightarrow> loops \<Rightarrow> 'u world \<Rightarrow>
   ('u main_handler \<times> loops \<times> 'u world) option" where
  "mh_process software_id stk timestep_100ns h loops w =
    (if \<not> mh_enabled h then
       (let h = h\<lparr>mh_processing_request := False, mh_disconnect_pending := False\<rparr>;
            h = on_comm (comm_reset (mh_timebase h)) h
        in Some (h\<lparr>mh_datalogging := on_datalogger dl_reset (mh_datalogging h)\<rparr>, loops, w))
     else
       (let h = h\<lparr>mh_timebase := tb_step timestep_100ns (mh_timebase h)\<rparr>;
            h = on_comm (comm_process (mh_timebase h)) h
        in case mh_loops h loops of (h, loops) \<Rightarrow>
           case handle_request software_id stk h loops w of
             None \<Rightarrow> None
           | Some (h, w) \<Rightarrow>
              (case mh_loops (check_finished_sending h) loops of (h, loops) \<Rightarrow> Some (h, loops, w))))"

definition mh_receive_data :: "u8 list \<Rightarrow> 'u main_handler \<Rightarrow> 'u main_handler option" where
  "mh_receive_data data h =
    map_option (\<lambda>c. h\<lparr>mh_comm := c\<rparr>) (receive_data (mh_timebase h) data (mh_comm h))"

definition mh_pop_data :: "u16 \<Rightarrow> 'u main_handler \<Rightarrow> u8 list \<times> 'u main_handler" where
  "mh_pop_data len h =
    (case pop_data (mh_timebase h) len (mh_comm h) of (bs, c) \<Rightarrow> (bs, check_finished_sending (h\<lparr>mh_comm := c\<rparr>)))"

definition mh_data_to_send :: "'u main_handler \<Rightarrow> u16" where
  "mh_data_to_send h = data_to_send (mh_comm h)"

end
