(* ===== verification/MainSession.thy ===== *)
theory MainSession
  imports MainHandler CommSession
begin

text \<open>
  The main handler as the application runs it: it passes the bytes that came in, calls \<open>process\<close>
  and takes the bytes to send, again and again. A request then goes through the reception, the
  handler of its command and the transmission; the property follows one from the first byte of its
  frame to the last byte of the answer.
\<close>

section \<open>The main loop\<close>

text \<open>An iteration: the time since the last one, the bytes received, the room for bytes to send.\<close>

type_synonym iteration = "timediff \<times> u8 list \<times> u16"

definition main_iteration ::
  "u8 list \<Rightarrow> mh_stack \<Rightarrow> iteration \<Rightarrow> 'u main_handler \<Rightarrow> loops \<Rightarrow> 'u world \<Rightarrow>
   (u8 list \<times> 'u main_handler \<times> loops \<times> 'u world) option" where
  "main_iteration software_id stk it h loops w =
    (case it of (timestep, data, room) \<Rightarrow>
     case mh_receive_data data h of None \<Rightarrow> None | Some h \<Rightarrow>
     case mh_process software_id stk timestep h loops w of None \<Rightarrow> None | Some (h, loops, w) \<Rightarrow>
     case mh_pop_data room h of (bs, h) \<Rightarrow> Some (bs, h, loops, w))"

fun main_run ::
  "u8 list \<Rightarrow> mh_stack \<Rightarrow> iteration list \<Rightarrow> 'u main_handler \<Rightarrow> loops \<Rightarrow> 'u world \<Rightarrow>
   (u8 list \<times> 'u main_handler \<times> loops \<times> 'u world) option" where
  "main_run software_id stk [] h loops w = Some ([], h, loops, w)"
| "main_run software_id stk (it # its) h loops w =
    (case main_iteration software_id stk it h loops w of
       None \<Rightarrow> None
     | Some (bs, h, loops, w) \<Rightarrow>
         (case main_run software_id stk its h loops w of None \<Rightarrow> None | Some (bs', r) \<Rightarrow> Some (bs @ bs', r)))"

text \<open>The chunks that the iterations receive, each with the time at which it does.\<close>

fun arrivals :: "timebase \<Rightarrow> iteration list \<Rightarrow> (timebase \<times> u8 list) list" where
  "arrivals tb [] = []"
| "arrivals tb ((timestep, data, room) # its) = (tb, data) # arrivals (tb_step timestep tb) its"

definition room_of :: "iteration list \<Rightarrow> nat" where
  "room_of its = (\<Sum>it\<leftarrow>its. unat (snd (snd it)))"

definition duration :: "iteration list \<Rightarrow> nat" where
  "duration its = total_time (map fst its)"

lemma room_of_simps [simp]:
  "room_of [] = 0" "room_of ((t, d, n) # its) = unat n + room_of its"
  by (simp_all add: room_of_def)

lemma duration_simps [simp]:
  "duration [] = 0" "duration ((t, d, n) # its) = unat t + duration its"
  by (simp_all add: duration_def total_time_def)

lemma duration_append [simp]: "duration (xs @ ys) = duration xs + duration ys"
  by (simp add: duration_def total_time_def)

lemma main_run_append:
  "main_run sid stk (xs @ ys) h loops w =
    (case main_run sid stk xs h loops w of None \<Rightarrow> None
     | Some (bs, h, loops, w) \<Rightarrow>
         (case main_run sid stk ys h loops w of None \<Rightarrow> None | Some (bs', r) \<Rightarrow> Some (bs @ bs', r)))"
  by (induction xs arbitrary: h loops w) (auto split: option.split)

section \<open>What the reception leaves alone\<close>

definition link :: "comm \<Rightarrow> bool \<times> bool \<times> timestamp \<times> u16 \<times> u16 \<times> response \<times> u16" where
  "link c = (cm_enabled c, cm_session_active c, cm_heartbeat_timestamp c, cm_tx_buffer_size c,
     cm_rx_buffer_size c, cm_active_response c, cm_nbytes_sent c)"

lemma link_simps [comm_simps]:
  "link (set_small_bytes_received v c) = link c" "link (set_data_bytes_received v' c) = link c"
  "link (c\<lparr>cm_crc := k\<rparr>) = link c" "link (c\<lparr>cm_rx_state := s\<rparr>) = link c"
  "link (c\<lparr>cm_active_request := r\<rparr>) = link c" "link (c\<lparr>cm_rx_error := x\<rparr>) = link c"
  "link (c\<lparr>cm_request_received := b\<rparr>) = link c" "link (c\<lparr>cm_state := t\<rparr>) = link c"
  "link (c\<lparr>cm_last_rx_timestamp := u\<rparr>) = link c"
  by (simp_all add: link_def comm_simps set_small_bytes_received_def set_data_bytes_received_def)

definition keeps_link :: "comm \<Rightarrow> comm \<Rightarrow> bool" where
  "keeps_link c c' = (link c' = link c \<and> (cm_state c \<noteq> Comm_Transmitting \<longrightarrow> cm_state c' \<noteq> Comm_Transmitting))"

lemma keeps_link_updates:
  "keeps_link c d \<Longrightarrow> keeps_link c (set_small_bytes_received v d)"
  "keeps_link c d \<Longrightarrow> keeps_link c (d\<lparr>cm_active_request := r\<rparr>)"
  "keeps_link c d \<Longrightarrow> keeps_link c (d\<lparr>cm_state := Comm_Idle\<rparr>)" "keeps_link c c"
  by (simp_all add: keeps_link_def comm_simps)

lemma keeps_link_reset: "keeps_link c d \<Longrightarrow> keeps_link c (reset_rx tb d)"
  by (simp add: keeps_link_def reset_rx_def Let_def link_def)

lemma keeps_link_process: "keeps_link c d \<Longrightarrow> keeps_link c (process_active_request tb d)"
  by (simp add: process_active_request_def Let_def keeps_link_reset) (simp add: keeps_link_def comm_simps)

lemma rx_step_link: "keeps_link c (snd (rx_step tb data c))"
proof (cases "cm_rx_state c")
  case WaitForCommand
  then show ?thesis by (simp add: rx_step_def rx_wait_for_command_def keeps_link_def comm_simps Let_def)
next
  case WaitForSubfunction
  then show ?thesis by (simp add: rx_step_def rx_wait_for_subfunction_def keeps_link_def comm_simps Let_def)
next
  case WaitForLength
  then show ?thesis
    by (simp add: rx_step_def rx_wait_for_length_def rx_length_complete_def keeps_link_def comm_simps Let_def)
next
  case WaitForData
  then show ?thesis by (simp add: rx_step_def rx_wait_for_data_def keeps_link_def comm_simps Let_def)
next
  case WaitForCRC
  then show ?thesis
    by (simp add: rx_step_def rx_wait_for_crc_def Let_def keeps_link_reset keeps_link_process keeps_link_updates)
qed (simp_all add: rx_step_def keeps_link_def)

lemma rx_loop_link:
  assumes ret: "rx_loop tb data c = Some c'"
  shows "keeps_link c c'"
proof (rule rx_loop.raw_induct [where P = "\<lambda>tb data c c'. keeps_link c c'", OF _ ret])
  fix f tb data c c'
  assume IH: "\<And>tb data c c'. f tb data c = Some c' \<Longrightarrow> keeps_link c c'"
    and eq: "(if data \<noteq> [] \<and> \<not> cm_request_received c \<and> cm_rx_state c \<noteq> RxFSM_Error
      then (case rx_step tb data c of (data', c') \<Rightarrow> f tb data' c') else Some c) = Some c'"
  show "keeps_link c c'"
    using eq IH [where tb = tb and data = "fst (rx_step tb data c)" and c = "snd (rx_step tb data c)" and c' = c']
      rx_step_link [of c tb data]
    by (auto simp: case_prod_beta keeps_link_def split: if_splits)
qed

lemma receive_data_link:
  assumes "receive_data tb data c = Some c'"
  shows "link c' = link c" "cm_state c \<noteq> Comm_Transmitting \<Longrightarrow> cm_state c' \<noteq> Comm_Transmitting"
proof -
  have "keeps_link c (rx_start_chunk tb data c)"
    by (simp add: rx_start_chunk_def link_def reset_rx_def Let_def keeps_link_def)
  with assms rx_loop_link [of tb data "rx_start_chunk tb data c" c']
  show "link c' = link c" "cm_state c \<noteq> Comm_Transmitting \<Longrightarrow> cm_state c' \<noteq> Comm_Transmitting"
    by (auto simp: receive_data_def link_def keeps_link_def split: if_splits)
qed

text \<open>A request that was received stays so, and a byte too many leaves the receiving state behind it.\<close>

lemma receive_after_request:
  assumes "receive_data tb data c = Some c'" "cm_request_received c" "cm_enabled c" "cm_state c \<noteq> Comm_Transmitting"
    "data = [] \<or> \<not> has_expired tb (cm_last_rx_timestamp c) RX_TIMEOUT_100NS"
  shows "cm_request_received c'" "data \<noteq> [] \<Longrightarrow> cm_state c' = Comm_Receiving"
  using assms by (auto simp: receive_data_def rx_start_chunk_def Let_def rx_loop_done split: if_splits)
    (cases "cm_state c"; simp)

lemma reset_rx_time [simp]: "cm_last_rx_timestamp (reset_rx tb c) = get_timestamp tb"
  by (simp add: reset_rx_def Let_def)

lemma rx_step_time:
  "cm_last_rx_timestamp c = get_timestamp tb \<Longrightarrow> cm_last_rx_timestamp (snd (rx_step tb data c)) = get_timestamp tb"
  by (simp add: rx_step_def rx_wait_for_command_def rx_wait_for_subfunction_def rx_wait_for_length_def
      rx_length_complete_def rx_wait_for_data_def rx_wait_for_crc_def process_active_request_def
      set_small_bytes_received_def set_data_bytes_received_def Let_def split: rx_fsm_state.split)

lemma rx_loop_time:
  assumes ret: "rx_loop tb data c = Some c'" and now: "cm_last_rx_timestamp c = get_timestamp tb"
  shows "cm_last_rx_timestamp c' = get_timestamp tb"
proof (rule rx_loop.raw_induct [where P = "\<lambda>tb data c c'. cm_last_rx_timestamp c = get_timestamp tb \<longrightarrow>
    cm_last_rx_timestamp c' = get_timestamp tb", OF _ ret, THEN mp, OF _ now])
  fix f tb data c c'
  assume IH: "\<And>tb data c c'. f tb data c = Some c' \<Longrightarrow> cm_last_rx_timestamp c = get_timestamp tb \<longrightarrow>
      cm_last_rx_timestamp c' = get_timestamp tb"
    and eq: "(if data \<noteq> [] \<and> \<not> cm_request_received c \<and> cm_rx_state c \<noteq> RxFSM_Error
      then (case rx_step tb data c of (data', c') \<Rightarrow> f tb data' c') else Some c) = Some c'"
  show "cm_last_rx_timestamp c = get_timestamp tb \<longrightarrow> cm_last_rx_timestamp c' = get_timestamp tb"
    using eq IH [where tb = tb and data = "fst (rx_step tb data c)" and c = "snd (rx_step tb data c)" and c' = c']
      rx_step_time [of c tb data]
    by (auto simp: case_prod_beta split: if_splits)
qed

lemma receive_data_time:
  assumes "receive_data tb data c = Some c'" "cm_enabled c" "cm_state c \<noteq> Comm_Transmitting" "data \<noteq> []"
  shows "cm_last_rx_timestamp c' = get_timestamp tb"
  using assms by (auto simp: receive_data_def rx_start_chunk_def Let_def intro: rx_loop_time)

lemma receive_chunks_append:
  "receive_chunks (xs @ ys) c = (case receive_chunks xs c of None \<Rightarrow> None | Some c \<Rightarrow> receive_chunks ys c)"
  by (induction xs arbitrary: c) (auto split: option.split)

lemma arrivals_append: "arrivals tb (xs @ ys) = arrivals tb xs @ arrivals (fold tb_step (map fst xs) tb) ys"
  by (induction xs arbitrary: tb) auto

lemma receive_chunks_link:
  "receive_chunks cs c = Some c' \<Longrightarrow> cm_state c \<noteq> Comm_Transmitting \<Longrightarrow> link c' = link c \<and> cm_state c' \<noteq> Comm_Transmitting"
  using receive_data_link by (induction cs arbitrary: c) (fastforce split: option.splits)+

lemma link_fields:
  assumes "link c' = link c"
  shows "cm_enabled c' = cm_enabled c" "cm_session_active c' = cm_session_active c"
    "cm_heartbeat_timestamp c' = cm_heartbeat_timestamp c" "cm_tx_buffer_size c' = cm_tx_buffer_size c"
    "cm_rx_buffer_size c' = cm_rx_buffer_size c"
  using assms by (simp_all add: link_def)

lemma chunks_after_request:
  assumes "receive_chunks cs c = Some c'" "in_time (cm_last_rx_timestamp c) cs"
    "cm_request_received c" "cm_enabled c" "cm_state c \<noteq> Comm_Transmitting"
  shows "cm_request_received c' \<and> (cm_state c = Comm_Receiving \<or> chunk_bytes cs \<noteq> [] \<longrightarrow> cm_state c' = Comm_Receiving)"
  using assms
proof (induction cs arbitrary: c)
  case (Cons a cs)
  obtain tb data where a: "a = (tb, data)" by force
  show ?case
  proof (cases "data = []")
    case True
    with Cons a show ?thesis by (auto simp: receive_nothing)
  next
    case False
    with Cons.prems a obtain c1 where c1: "receive_data tb data c = Some c1" "receive_chunks cs c1 = Some c'"
      "\<not> has_expired tb (cm_last_rx_timestamp c) RX_TIMEOUT_100NS" "in_time (get_timestamp tb) cs"
      by (auto split: option.splits)
    from receive_after_request [OF c1(1) Cons.prems(3-5)] c1(3) False
    have "cm_request_received c1" "cm_state c1 = Comm_Receiving" by auto
    moreover have "cm_enabled c1" using link_fields(1) [OF receive_data_link(1) [OF c1(1)]] Cons.prems(4) by simp
    moreover have "cm_last_rx_timestamp c1 = get_timestamp tb"
      using receive_data_time [OF c1(1) Cons.prems(4,5) False] .
    ultimately show ?thesis using Cons.IH [of c1] c1(2,4) by simp
  qed
qed simp

section \<open>What the main handler leaves alone\<close>

lemma mh_loops_frame:
  "\<exists>d. fst (mh_loops h loops) = h\<lparr>mh_datalogging := d\<rparr>"
  by (auto simp: mh_loops_def split: prod.split)

definition heartbeat_left :: "'u main_handler \<Rightarrow> nat \<Rightarrow> bool" where
  "heartbeat_left h n =
    (unat (elapsed_since (mh_timebase h) (cm_heartbeat_timestamp (mh_comm h))) + n < 50000000)"

lemma heartbeat_left_step:
  assumes "heartbeat_left h (unat t + n)" "mh_timebase h' = tb_step t (mh_timebase h)"
    "cm_heartbeat_timestamp (mh_comm h') = cm_heartbeat_timestamp (mh_comm h)"
  shows "heartbeat_left h' n" "comm_process (mh_timebase h') c = c \<or> cm_heartbeat_timestamp c \<noteq> cm_heartbeat_timestamp (mh_comm h)"
proof -
  let ?e = "elapsed_since (mh_timebase h) (cm_heartbeat_timestamp (mh_comm h))"
  have e: "elapsed_since (mh_timebase h') (cm_heartbeat_timestamp (mh_comm h)) = ?e + t"
    by (simp add: assms(2) elapsed_since_def tb_step_def)
  have "unat ?e + unat t < 2 ^ 32" using assms(1) by (simp add: heartbeat_left_def)
  then have u: "unat (?e + t) = unat ?e + unat t" by (simp add: unat_add_lem [THEN iffD1])
  then show "heartbeat_left h' n" using assms(1,3) e by (simp add: heartbeat_left_def)
  show "comm_process (mh_timebase h') c = c \<or> cm_heartbeat_timestamp c \<noteq> cm_heartbeat_timestamp (mh_comm h)"
    using assms(1) e u by (auto simp: comm_process_def has_expired_def word_le_nat_alt heartbeat_left_def)
qed

lemma process_quiet:
  assumes "mh_enabled h" "heartbeat_left h (unat t + n)"
    "if mh_processing_request h then cm_state (mh_comm h) = Comm_Transmitting else \<not> cm_request_received (mh_comm h)"
  shows "\<exists>d loops'. mh_process sid stk t h loops w
    = Some (h\<lparr>mh_timebase := tb_step t (mh_timebase h), mh_datalogging := d\<rparr>, loops', w)"
proof -
  let ?h = "h\<lparr>mh_timebase := tb_step t (mh_timebase h)\<rparr>"
  have beat: "comm_process (mh_timebase ?h) (mh_comm h) = mh_comm h"
    using heartbeat_left_step(2) [OF assms(2), of ?h "mh_comm h"] by simp
  then have h: "on_comm (comm_process (mh_timebase ?h)) ?h = ?h" by (simp add: on_comm_def)
  obtain d l1 where l1: "mh_loops ?h loops = (?h\<lparr>mh_datalogging := d\<rparr>, l1)"
    using mh_loops_frame [of ?h loops] by (cases "mh_loops ?h loops") auto
  obtain d2 l2 where l2: "mh_loops (?h\<lparr>mh_datalogging := d\<rparr>) l1 = (?h\<lparr>mh_datalogging := d2\<rparr>, l2)"
    using mh_loops_frame [of "?h\<lparr>mh_datalogging := d\<rparr>" l1] by (cases "mh_loops (?h\<lparr>mh_datalogging := d\<rparr>) l1") auto
  have "handle_request sid stk (?h\<lparr>mh_datalogging := d\<rparr>) l1 w = Some (?h\<lparr>mh_datalogging := d\<rparr>, w)"
    using assms(3) by (simp add: handle_request_def split: if_splits)
  moreover have "check_finished_sending (?h\<lparr>mh_datalogging := d\<rparr>) = ?h\<lparr>mh_datalogging := d\<rparr>"
    using assms(3) by (simp add: check_finished_sending_def split: if_splits)
  ultimately show ?thesis
    using assms(1) h l1 l2 by (intro exI [of _ d2] exI [of _ l2]) (simp add: mh_process_def Let_def)
qed

section \<open>While the request arrives\<close>

lemma iteration_waiting:
  assumes "mh_enabled h" "\<not> mh_processing_request h" "heartbeat_left h (unat t + n)"
    "receive_data (mh_timebase h) data (mh_comm h) = Some c'" "\<not> cm_request_received c'"
    "cm_state (mh_comm h) \<noteq> Comm_Transmitting"
  shows "\<exists>d loops'. main_iteration sid stk (t, data, room) h loops w
    = Some ([], h\<lparr>mh_timebase := tb_step t (mh_timebase h), mh_comm := c', mh_datalogging := d\<rparr>, loops', w)"
proof -
  let ?h = "h\<lparr>mh_comm := c'\<rparr>"
  have lk: "link c' = link (mh_comm h)" "cm_state c' \<noteq> Comm_Transmitting"
    using receive_data_link [OF assms(4)] assms(6) by auto
  then have "heartbeat_left ?h (unat t + n)"
    using assms(3) link_fields(3) [OF lk(1)] by (simp add: heartbeat_left_def)
  with assms(1,2,5) obtain d loops' where step: "mh_process sid stk t ?h loops w
      = Some (?h\<lparr>mh_timebase := tb_step t (mh_timebase h), mh_datalogging := d\<rparr>, loops', w)"
    using process_quiet [of ?h t n sid stk loops w] by auto
  show ?thesis
    using step lk(2) assms(2,4)
    by (simp add: main_iteration_def mh_receive_data_def mh_pop_data_def pop_data_def check_finished_sending_def)
      (auto intro!: exI [of _ d])
qed

lemma run_waiting:
  assumes "receive_chunks (arrivals (mh_timebase h) its) (mh_comm h) = Some c'" "\<not> cm_request_received c'"
    "in_time (cm_last_rx_timestamp (mh_comm h)) (arrivals (mh_timebase h) its)"
    "mh_enabled h" "\<not> mh_processing_request h" "heartbeat_left h (duration its + n)"
    "cm_enabled (mh_comm h)" "cm_state (mh_comm h) \<noteq> Comm_Transmitting"
  shows "\<exists>d loops'. main_run sid stk its h loops w
    = Some ([], h\<lparr>mh_timebase := fold tb_step (map fst its) (mh_timebase h), mh_comm := c', mh_datalogging := d\<rparr>, loops', w)"
  using assms
proof (induction its arbitrary: h loops)
  case Nil
  then show ?case by (auto intro!: exI [of _ "mh_datalogging h"])
next
  case (Cons it its)
  obtain t data room where it: "it = (t, data, room)" by (cases it)
  let ?tb = "mh_timebase h" and ?c = "mh_comm h"
  obtain c1 where c1: "receive_data ?tb data ?c = Some c1"
    and cs: "receive_chunks (arrivals (tb_step t ?tb) its) c1 = Some c'"
    using Cons.prems(1) it by (auto split: option.splits)
  have lk: "link c1 = link ?c" "cm_state c1 \<noteq> Comm_Transmitting"
    using receive_data_link [OF c1] Cons.prems(8) by auto
  have en: "cm_enabled c1" using link_fields(1) [OF lk(1)] Cons.prems(7) by simp
  have time: "in_time (cm_last_rx_timestamp c1) (arrivals (tb_step t ?tb) its)"
  proof (cases "data = []")
    case True
    then have "c1 = ?c" using c1 receive_nothing [OF Cons.prems(7)] by simp
    then show ?thesis using Cons.prems(3) it True by simp
  next
    case False
    then show ?thesis using Cons.prems(3) it receive_data_time [OF c1 Cons.prems(7,8)] by simp
  qed
  have "\<not> cm_request_received c1"
    using chunks_after_request [OF cs time _ en lk(2)] Cons.prems(2) by blast
  moreover have left: "heartbeat_left h (unat t + (duration its + n))" using Cons.prems(6) it by (simp add: add.assoc)
  ultimately obtain d l1 where step: "main_iteration sid stk (t, data, room) h loops w
      = Some ([], h\<lparr>mh_timebase := tb_step t ?tb, mh_comm := c1, mh_datalogging := d\<rparr>, l1, w)"
    using iteration_waiting [OF Cons.prems(4,5) left c1 _ Cons.prems(8)] by blast
  let ?h = "h\<lparr>mh_timebase := tb_step t ?tb, mh_comm := c1, mh_datalogging := d\<rparr>"
  have "heartbeat_left ?h (duration its + n)"
    using heartbeat_left_step(1) [OF left, of ?h] link_fields(3) [OF lk(1)] by simp
  from Cons.IH [of ?h l1, OF _ _ _ _ _ this] cs time en lk(2) Cons.prems(2,4,5)
  show ?case by (auto simp: it step)
qed

section \<open>While the answer leaves\<close>

definition answering :: "'u main_handler \<Rightarrow> u8 list \<Rightarrow> bool" where
  "answering h bs =
    (mh_enabled h \<and> comm_inv (mh_comm h) \<and> cm_enabled (mh_comm h) \<and> \<not> mh_disconnect_pending h
     \<and> tx_pending (mh_comm h) = bs
     \<and> (if bs = [] then \<not> mh_processing_request h \<and> rx_ready (mh_comm h)
        else mh_processing_request h \<and> cm_state (mh_comm h) = Comm_Transmitting))"

lemma pending_transmitting: "tx_pending c \<noteq> [] \<Longrightarrow> cm_state c = Comm_Transmitting"
  by (auto simp: tx_pending_def split: if_splits)

lemma reset_ready:
  assumes "comm_inv c" "cm_enabled c" "cm_state c \<noteq> Comm_Transmitting"
  shows "rx_ready (reset_rx tb c)"
  using assms by (auto simp: rx_ready_def reset_rx_def Let_def comm_inv_def rx_inv_def rq_reset_def)

lemma pop_answering:
  assumes "answering h bs"
  shows "\<exists>h'. mh_pop_data n h = (take (unat n) bs, h') \<and> answering h' (drop (unat n) bs)
    \<and> cm_heartbeat_timestamp (mh_comm h') = cm_heartbeat_timestamp (mh_comm h) \<and> mh_timebase h' = mh_timebase h"
proof (cases "bs = []")
  case True
  then have "cm_state (mh_comm h) \<noteq> Comm_Transmitting" using assms by (simp add: answering_def rx_ready_def)
  then show ?thesis
    using assms True by (simp add: mh_pop_data_def pop_data_def check_finished_sending_def answering_def)
next
  case False
  let ?c = "mh_comm h" and ?tb = "mh_timebase h"
  let ?n = "min (unat n) (length (tx_pending ?c))"
  let ?c1 = "?c\<lparr>cm_nbytes_sent := cm_nbytes_sent ?c + of_nat ?n\<rparr>"
  have a: "mh_enabled h" "comm_inv ?c" "cm_enabled ?c" "\<not> mh_disconnect_pending h" "tx_pending ?c = bs"
    "mh_processing_request h" "cm_state ?c = Comm_Transmitting"
    using assms False by (simp_all add: answering_def)
  have tx: "tx_inv ?c" using a(2) by (simp add: comm_inv_def)
  obtain bs' c' where pop: "pop_data ?tb n ?c = (bs', c')" by force
  have c': "bs' = take (unat n) bs" "tx_pending c' = drop (unat n) bs" "comm_inv c'"
    using pop_data_prefix [OF tx, of ?tb n] comm_inv_pop_data [OF a(2), of ?tb n] pop a(5) by simp_all
  have form: "c' = (if ?n = length (tx_pending ?c) then reset_rx ?tb (reset_tx ?c1) else ?c1)"
    using pop_data_spec(1) [OF tx a(7), of ?tb n] pop by simp
  show ?thesis
  proof (cases "drop (unat n) bs = []")
    case all: True
    then have "?n = length (tx_pending ?c)" by (simp add: a(5))
    with form have "c' = reset_rx ?tb (reset_tx ?c1)" by simp
    then have idle: "cm_state c' \<noteq> Comm_Transmitting" "cm_enabled c'"
      "cm_heartbeat_timestamp c' = cm_heartbeat_timestamp ?c"
      using a(3,7) by (simp_all add: reset_rx_def reset_tx_def Let_def)
    let ?d = "reset_rx ?tb c'"
    have d: "comm_inv ?d" "cm_enabled ?d" "rx_ready ?d" "tx_pending ?d = []"
      "cm_heartbeat_timestamp ?d = cm_heartbeat_timestamp ?c"
      using comm_inv_reset_rx [OF c'(3)] reset_ready [OF c'(3) idle(2,1)] idle
      by (auto simp: reset_rx_def Let_def tx_pending_def)
    show ?thesis
      unfolding all
      using a(1,4,6) idle(1) d c'(1) all
      by (simp add: mh_pop_data_def pop check_finished_sending_def on_comm_def wait_next_request_def answering_def
          Let_def)
  next
    case False
    then have "?n \<noteq> length (tx_pending ?c)" by (simp add: a(5))
    with form have "c' = ?c1" by simp
    then have "cm_state c' = Comm_Transmitting" "cm_enabled c'"
      "cm_heartbeat_timestamp c' = cm_heartbeat_timestamp ?c"
      using a(3,7) by simp_all
    then show ?thesis
      using a(1,4,6) c' False by (simp add: mh_pop_data_def pop check_finished_sending_def answering_def)
  qed
qed

lemma iteration_answering:
  assumes "answering h bs" "heartbeat_left h (unat t + n)"
  shows "\<exists>h' loops'. main_iteration sid stk (t, [], room) h loops w = Some (take (unat room) bs, h', loops', w)
    \<and> answering h' (drop (unat room) bs) \<and> heartbeat_left h' n"
proof -
  have en: "mh_enabled h" "cm_enabled (mh_comm h)" using assms(1) by (simp_all add: answering_def)
  have "mh_receive_data [] h = Some h"
    using en by (simp add: mh_receive_data_def receive_nothing)
  moreover obtain d l1 where step: "mh_process sid stk t h loops w
      = Some (h\<lparr>mh_timebase := tb_step t (mh_timebase h), mh_datalogging := d\<rparr>, l1, w)"
    using process_quiet [OF en(1) assms(2), of sid stk loops w] assms(1)
    by (auto simp: answering_def rx_ready_def split: if_splits)
  let ?h = "h\<lparr>mh_timebase := tb_step t (mh_timebase h), mh_datalogging := d\<rparr>"
  have "answering ?h bs" using assms(1) by (simp add: answering_def)
  from pop_answering [OF this, of room] obtain h' where h': "mh_pop_data room ?h = (take (unat room) bs, h')"
    "answering h' (drop (unat room) bs)"
    "cm_heartbeat_timestamp (mh_comm h') = cm_heartbeat_timestamp (mh_comm h)" "mh_timebase h' = tb_step t (mh_timebase h)"
    by auto
  ultimately show ?thesis
    using heartbeat_left_step(1) [OF assms(2) h'(4,3)] step by (simp add: main_iteration_def)
qed

lemma run_answering:
  assumes "answering h bs" "heartbeat_left h (duration its)" "\<forall>it \<in> set its. fst (snd it) = []"
  shows "\<exists>h' loops'. main_run sid stk its h loops w = Some (take (room_of its) bs, h', loops', w)
    \<and> answering h' (drop (room_of its) bs)"
  using assms
proof (induction its arbitrary: h loops bs)
  case (Cons it its)
  obtain t room where it: "it = (t, [], room)" using Cons.prems(3) by (cases it) auto
  from iteration_answering [OF Cons.prems(1), of t "duration its" sid stk room loops w] Cons.prems(2) it
  obtain h1 l1 where h1: "main_iteration sid stk it h loops w = Some (take (unat room) bs, h1, l1, w)"
    "answering h1 (drop (unat room) bs)" "heartbeat_left h1 (duration its)" by auto
  from Cons.IH [OF h1(2,3), of l1] Cons.prems(3)
  obtain h' l' where "main_run sid stk its h1 l1 w = Some (take (room_of its) (drop (unat room) bs), h', l', w)"
    "answering h' (drop (room_of its) (drop (unat room) bs))" by auto
  moreover have "take (room_of (it # its)) bs = take (unat room) bs @ take (room_of its) (drop (unat room) bs)"
    "drop (room_of (it # its)) bs = drop (room_of its) (drop (unat room) bs)"
    using take_add [of "unat room" "room_of its" bs] by (simp_all add: it add.commute [of "room_of its"])
  ultimately show ?case using h1(1) by (simp del: room_of_simps drop_drop)
qed auto

section \<open>When the request is served\<close>

text \<open>A handler that answers at once, without changing anything, and without closing the session.\<close>

definition answers ::
  "u8 list \<Rightarrow> mh_stack \<Rightarrow> 'u config \<Rightarrow> comm \<Rightarrow> 'u world \<Rightarrow> response \<Rightarrow> bool" where
  "answers sid stk cf c w rs =
    (\<forall>h loops. mh_config h = cf \<longrightarrow> mh_comm h = prepare_response c \<longrightarrow>
       process_request sid stk (cm_active_request c) (rs_reset (cm_active_response c)) h loops w = Some (h, w, rs))"

lemma wire_response_not_Nil [simp]: "wire_response rs \<noteq> []"
  by (simp add: wire_response_def response_body_def)

lemma conclude_sends:
  assumes "comm_inv (mh_comm h)" "cm_enabled (mh_comm h)" "cm_state (mh_comm h) = Comm_Idle" "mh_enabled h"
    "\<not> mh_disconnect_pending h" "rs_response_code rs \<notin> {0xFF, 0xFE}"
    "rs_data_length rs \<le> cm_tx_buffer_size (mh_comm h)" "length (rs_data rs) = unat (cm_tx_buffer_size (mh_comm h))"
  shows "answering (conclude_request rs h) (wire_response rs)"
    "cm_heartbeat_timestamp (mh_comm (conclude_request rs h)) = cm_heartbeat_timestamp (mh_comm h)"
    "mh_timebase (conclude_request rs h) = mh_timebase h" "mh_config (conclude_request rs h) = mh_config h"
proof -
  let ?c = "(mh_comm h)\<lparr>cm_active_response := rs\<rparr>"
  have inv: "comm_inv ?c" using assms(1,3,8) by (simp add: comm_inv_def comm_simps tx_inv_def Let_def)
  have sent: "cm_nbytes_sent ?c = 0" using assms(1,3) by (simp add: comm_inv_def tx_inv_def Let_def)
  have eq: "conclude_request rs h = h\<lparr>mh_comm := snd (send_response rs ?c), mh_processing_request := True\<rparr>"
    using assms(6) by (simp add: conclude_request_def on_comm_def)
  have pend: "tx_pending (snd (send_response rs ?c)) = wire_response rs"
    using send_response_pending(2) [of ?c rs] assms(2,3,7) sent by simp
  then have "cm_state (snd (send_response rs ?c)) = Comm_Transmitting" by (intro pending_transmitting) simp
  moreover have "comm_inv (snd (send_response rs ?c))" using comm_inv_send_response [OF inv] assms(8) by simp
  moreover have "cm_enabled (snd (send_response rs ?c))"
    "cm_heartbeat_timestamp (snd (send_response rs ?c)) = cm_heartbeat_timestamp (mh_comm h)"
    using assms(2) by (simp_all add: send_response_def reset_tx_def Let_def)
  ultimately show "answering (conclude_request rs h) (wire_response rs)"
    "cm_heartbeat_timestamp (mh_comm (conclude_request rs h)) = cm_heartbeat_timestamp (mh_comm h)"
    "mh_timebase (conclude_request rs h) = mh_timebase h" "mh_config (conclude_request rs h) = mh_config h"
    using pend assms(4,5) by (simp_all add: eq answering_def)
qed

lemma process_serving:
  assumes "mh_enabled h" "\<not> mh_processing_request h" "\<not> mh_disconnect_pending h" "heartbeat_left h (unat t + n)"
    "comm_inv (mh_comm h)" "cm_enabled (mh_comm h)" "cm_state (mh_comm h) = Comm_Idle" "cm_request_received (mh_comm h)"
    and answer: "answers sid stk (mh_config h) (mh_comm h) w rs" "rs_response_code rs \<notin> {0xFF, 0xFE}"
      "rs_data_length rs \<le> cm_tx_buffer_size (mh_comm h)" "length (rs_data rs) = unat (cm_tx_buffer_size (mh_comm h))"
  shows "\<exists>h' loops'. mh_process sid stk t h loops w = Some (h', loops', w) \<and> answering h' (wire_response rs)
    \<and> heartbeat_left h' n"
proof -
  let ?h = "h\<lparr>mh_timebase := tb_step t (mh_timebase h)\<rparr>"
  have "comm_process (mh_timebase ?h) (mh_comm h) = mh_comm h"
    using heartbeat_left_step(2) [OF assms(4), of ?h "mh_comm h"] by simp
  then have h: "on_comm (comm_process (mh_timebase ?h)) ?h = ?h" by (simp add: on_comm_def)
  obtain d l1 where l1: "mh_loops ?h loops = (?h\<lparr>mh_datalogging := d\<rparr>, l1)"
    using mh_loops_frame [of ?h loops] by (cases "mh_loops ?h loops") auto
  let ?h1 = "?h\<lparr>mh_datalogging := d\<rparr>"
  let ?h2 = "on_comm prepare_response ?h1"
  let ?h3 = "conclude_request rs ?h2"
  have "process_request sid stk (cm_active_request (mh_comm h)) (rs_reset (cm_active_response (mh_comm h))) ?h2 l1 w
      = Some (?h2, w, rs)"
    using answer(1) unfolding answers_def by (simp add: on_comm_def)
  then have served: "handle_request sid stk ?h1 l1 w = Some (?h3, w)"
    using assms(2,8) by (simp add: handle_request_def Let_def on_comm_def prepare_response_def)
  have "comm_inv (mh_comm ?h2)" using comm_inv_prepare [OF assms(5)] assms(7) by (simp add: on_comm_def)
  from conclude_sends [of ?h2 rs, OF this] assms(1,3,6,7) answer(2-4)
  have h3: "answering ?h3 (wire_response rs)"
    "cm_heartbeat_timestamp (mh_comm ?h3) = cm_heartbeat_timestamp (mh_comm h)"
    "mh_timebase ?h3 = tb_step t (mh_timebase h)"
    by (simp_all add: on_comm_def prepare_response_def)
  have "check_finished_sending ?h3 = ?h3"
    using h3(1) by (simp add: answering_def check_finished_sending_def)
  moreover obtain d2 l2 where l2: "mh_loops ?h3 l1 = (?h3\<lparr>mh_datalogging := d2\<rparr>, l2)"
    using mh_loops_frame [of ?h3 l1] by (cases "mh_loops ?h3 l1") auto
  ultimately have "mh_process sid stk t h loops w = Some (?h3\<lparr>mh_datalogging := d2\<rparr>, l2, w)"
    using assms(1) h l1 served by (simp add: mh_process_def Let_def)
  moreover have "answering (?h3\<lparr>mh_datalogging := d2\<rparr>) (wire_response rs)" using h3(1) by (simp add: answering_def)
  moreover have "heartbeat_left (?h3\<lparr>mh_datalogging := d2\<rparr>) n"
    using heartbeat_left_step(1) [OF assms(4), of "?h3\<lparr>mh_datalogging := d2\<rparr>"] h3(2,3) by simp
  ultimately show ?thesis by blast
qed

lemma receive_chunks_inv:
  "receive_chunks cs c = Some c' \<Longrightarrow> comm_inv c \<Longrightarrow> length (chunk_bytes cs) < 65536 \<Longrightarrow> comm_inv c'"
proof (induction cs arbitrary: c)
  case (Cons a cs)
  obtain tb data where a: "a = (tb, data)" by force
  with Cons.prems receive_data_inv [of c data tb] obtain c1 where
    "receive_data tb data c = Some c1" "comm_inv c1" "receive_chunks cs c1 = Some c'" by auto
  with Cons.IH [of c1] Cons.prems(3) a show ?case by simp
qed simp

lemma heartbeat_left_run:
  "heartbeat_left h (duration its + n) \<Longrightarrow> mh_timebase h' = fold tb_step (map fst its) (mh_timebase h) \<Longrightarrow>
    cm_heartbeat_timestamp (mh_comm h') = cm_heartbeat_timestamp (mh_comm h) \<Longrightarrow> heartbeat_left h' n"
proof (induction its arbitrary: h)
  case Nil
  then show ?case by (simp add: heartbeat_left_def)
next
  case (Cons it its)
  obtain t data room where it: "it = (t, data, room)" by (cases it)
  let ?h = "h\<lparr>mh_timebase := tb_step t (mh_timebase h)\<rparr>"
  have "heartbeat_left ?h (duration its + n)"
    using heartbeat_left_step(1) [of h t "duration its + n" ?h] Cons.prems(1) by (simp add: it add.assoc)
  from Cons.IH [OF this] Cons.prems(2,3) show ?case by (simp add: it)
qed

lemma in_time_split:
  "receive_chunks cs c = Some c1 \<Longrightarrow> cm_enabled c \<Longrightarrow> cm_state c \<noteq> Comm_Transmitting \<Longrightarrow>
    in_time (cm_last_rx_timestamp c) (cs @ [(tb, data)]) \<Longrightarrow>
    in_time (cm_last_rx_timestamp c) cs \<and> (data = [] \<or> \<not> has_expired tb (cm_last_rx_timestamp c1) RX_TIMEOUT_100NS)"
proof (induction cs arbitrary: c)
  case (Cons a cs)
  obtain tb' d where a: "a = (tb', d)" by force
  with Cons.prems(1) obtain c2 where c2: "receive_data tb' d c = Some c2" "receive_chunks cs c2 = Some c1"
    by (auto split: option.splits)
  have "cm_enabled c2" "cm_state c2 \<noteq> Comm_Transmitting"
    using receive_data_link(2) [OF c2(1) Cons.prems(3)] link_fields(1) [OF receive_data_link(1) [OF c2(1)]]
      Cons.prems(2) by simp_all
  note IH = Cons.IH [OF c2(2) this]
  show ?case
  proof (cases "d = []")
    case True
    then have "c2 = c" using c2(1) receive_nothing [OF Cons.prems(2)] by simp
    then show ?thesis using IH Cons.prems(4) a True by simp
  next
    case False
    then show ?thesis using IH Cons.prems(4) a receive_data_time [OF c2(1) Cons.prems(2,3)] by simp
  qed
qed auto

section \<open>From the first byte of a request to the last byte of its answer\<close>

lemma request_answered:
  assumes state: "mh_enabled h" "\<not> mh_processing_request h" "\<not> mh_disconnect_pending h" "comm_inv (mh_comm h)"
      "rx_ready (mh_comm h)"
    and request: "cmd AND 0x80 = 0" "length payload \<le> unat (cm_rx_buffer_size (mh_comm h))"
      "cm_session_active (mh_comm h) \<or> opens_session cmd subfn payload"
    and arrival: "chunk_bytes (arrivals (mh_timebase h) (its @ [(t, data, room)])) = request_frame cmd subfn payload"
      "data \<noteq> []" "in_time (cm_last_rx_timestamp (mh_comm h)) (arrivals (mh_timebase h) (its @ [(t, data, room)]))"
    and after: "\<forall>it \<in> set its2. fst (snd it) = []" "heartbeat_left h (duration (its @ (t, data, room) # its2))"
    and answer: "\<And>c. delivers cmd subfn payload c \<Longrightarrow> comm_inv c \<Longrightarrow> link c = link (mh_comm h) \<Longrightarrow>
      answers sid stk (mh_config h) c w (R c) \<and> rs_response_code (R c) \<notin> {0xFF, 0xFE}
      \<and> rs_data_length (R c) \<le> cm_tx_buffer_size c \<and> length (rs_data (R c)) = unat (cm_tx_buffer_size c)"
  shows "\<exists>c h' loops'. delivers cmd subfn payload c \<and> comm_inv c \<and> link c = link (mh_comm h)
    \<and> main_run sid stk (its @ (t, data, room) # its2) h loops w
      = Some (take (unat room + room_of its2) (wire_response (R c)), h', loops', w)
    \<and> answering h' (drop (unat room + room_of its2) (wire_response (R c)))"
proof -
  let ?cs = "arrivals (mh_timebase h) (its @ [(t, data, room)])"
  let ?tb = "fold tb_step (map fst its) (mh_timebase h)"
  obtain c where c: "receive_chunks ?cs (mh_comm h) = Some c" "delivers cmd subfn payload c"
    using valid_frame_delivered [OF state(5) arrival(3) request(1,2) arrival(1) request(3)] by blast
  obtain c1 where c1: "receive_chunks (arrivals (mh_timebase h) its) (mh_comm h) = Some c1"
    "receive_data ?tb data c1 = Some c"
    using c(1) by (auto simp: arrivals_append receive_chunks_append split: option.splits)
  have ready: "cm_enabled (mh_comm h)" "cm_state (mh_comm h) \<noteq> Comm_Transmitting"
    using state(5) by (simp_all add: rx_ready_def)
  have lk1: "link c1 = link (mh_comm h)" "cm_state c1 \<noteq> Comm_Transmitting"
    using receive_chunks_link [OF c1(1) ready(2)] by auto
  have lk: "link c = link (mh_comm h)" using receive_data_link(1) [OF c1(2)] lk1(1) by simp
  have "length (request_frame cmd subfn payload) < 65536"
    using request(2) state(5) by (simp add: length_request_frame rx_ready_def word_le_nat_alt)
  then have inv: "comm_inv c" using receive_chunks_inv [OF c(1) state(4)] arrival(1) by simp
  have time: "in_time (cm_last_rx_timestamp (mh_comm h)) (arrivals (mh_timebase h) its)"
    "data = [] \<or> \<not> has_expired ?tb (cm_last_rx_timestamp c1) RX_TIMEOUT_100NS"
    using in_time_split [OF c1(1) ready, of ?tb data] arrival(3) by (auto simp: arrivals_append)
  have "\<not> cm_request_received c1"
  proof
    assume "cm_request_received c1"
    from receive_after_request(2) [OF c1(2) this _ lk1(2) time(2) arrival(2)] link_fields(1) [OF lk1(1)] ready(1)
    have "cm_state c = Comm_Receiving" by simp
    with c(2) show False by (simp add: delivers_def Let_def)
  qed
  moreover have left: "heartbeat_left h (duration its + (unat t + duration its2))" using after(2) by simp
  ultimately obtain d l1 where wait: "main_run sid stk its h loops w
      = Some ([], h\<lparr>mh_timebase := ?tb, mh_comm := c1, mh_datalogging := d\<rparr>, l1, w)"
    using run_waiting [OF c1(1) _ time(1) state(1,2) left ready] by blast
  let ?h1 = "h\<lparr>mh_timebase := ?tb, mh_datalogging := d, mh_comm := c\<rparr>"
  have "heartbeat_left ?h1 (unat t + duration its2)"
    using heartbeat_left_run [OF left, of ?h1] link_fields(3) [OF lk] by simp
  moreover have "cm_enabled c" "cm_state c = Comm_Idle" "cm_request_received c"
    using c(2) link_fields(1) [OF lk] ready(1) by (simp_all add: delivers_def Let_def)
  ultimately obtain h2 l2 where serve: "mh_process sid stk t ?h1 l1 w = Some (h2, l2, w)"
    "answering h2 (wire_response (R c))" "heartbeat_left h2 (duration its2)"
    using process_serving [of ?h1 t "duration its2" sid stk w "R c" l1] state(1-3) inv answer [OF c(2) inv lk] by auto
  obtain h3 where pop: "mh_pop_data room h2 = (take (unat room) (wire_response (R c)), h3)"
    "answering h3 (drop (unat room) (wire_response (R c)))"
    "cm_heartbeat_timestamp (mh_comm h3) = cm_heartbeat_timestamp (mh_comm h2)" "mh_timebase h3 = mh_timebase h2"
    using pop_answering [OF serve(2), of room] by blast
  have "heartbeat_left h3 (duration its2)" using serve(3) pop(3,4) by (simp add: heartbeat_left_def)
  from run_answering [OF pop(2) this after(1), of sid stk l2 w]
  obtain h' l' where rest: "main_run sid stk its2 h3 l2 w
      = Some (take (room_of its2) (drop (unat room) (wire_response (R c))), h', l', w)"
    "answering h' (drop (room_of its2) (drop (unat room) (wire_response (R c))))" by blast
  have "main_iteration sid stk (t, data, room) (h\<lparr>mh_timebase := ?tb, mh_comm := c1, mh_datalogging := d\<rparr>) l1 w
      = Some (take (unat room) (wire_response (R c)), h3, l2, w)"
    using c1(2) serve(1) pop(1) by (simp add: main_iteration_def mh_receive_data_def)
  with wait rest have "main_run sid stk (its @ (t, data, room) # its2) h loops w
      = Some (take (unat room + room_of its2) (wire_response (R c)), h', l', w)"
    by (simp add: main_run_append take_add)
  with c(2) inv lk rest(2) show ?thesis by (auto simp: add.commute)
qed

section \<open>A read of memory\<close>

text \<open>The frame that answers a command with a code and a payload.\<close>

definition answer_frame :: "u8 \<Rightarrow> u8 \<Rightarrow> response_code \<Rightarrow> u8 list \<Rightarrow> u8 list" where
  "answer_frame cmd subfn code bytes =
    (let body = [cmd OR 0x80, subfn, response_code_byte code] @ encode_16_bits_big_endian (of_nat (length bytes)) @ bytes
     in body @ encode_32_bits_big_endian (crc32 body 0))"

lemma wire_response_answer:
  assumes "unat (rs_data_length rs) \<le> length (rs_data rs)"
  shows "wire_response rs =
    (let body = [rs_command_id rs OR 0x80, rs_subfunction_id rs, rs_response_code rs]
        @ encode_16_bits_big_endian (of_nat (length (response_payload rs))) @ response_payload rs
     in body @ encode_32_bits_big_endian (crc32 body 0))"
  using assms by (simp add: wire_response_def response_body_def response_payload_def Let_def)

definition read_answer :: "'u main_handler \<Rightarrow> mh_stack \<Rightarrow> comm \<Rightarrow> 'u world \<Rightarrow> response" where
  "read_answer h stk c w =
    (case process_memory_control (mh_config h) (cm_tx_buffer_size c) w (ms_memory stk) (cm_active_request c)
            ((rs_reset (rs_reset (cm_active_response c)))\<lparr>rs_command_id := CommandId_MemoryControl,
               rs_subfunction_id := MemoryControl_Read\<rparr>) of
       None \<Rightarrow> cm_active_response c | Some (code, w, rs) \<Rightarrow> rs\<lparr>rs_response_code := 0\<rparr>)"

lemma read_answers:
  fixes stk :: mh_stack and w :: "'u world"
  assumes "delivers CommandId_MemoryControl MemoryControl_Read (read_request bs) c" "comm_inv c" "bs \<noteq> []"
    "response_size bs \<le> unat (cm_tx_buffer_size c)"
    "\<forall>b\<in>set bs. response_size (butlast bs) + block_need b \<le> 65519" "\<forall>b\<in>set bs. read_allowed (mh_config h) b"
  defines "R \<equiv> read_answer h stk c w"
  shows "answers sid stk (mh_config h) c w R" "rs_response_code R = 0" "rs_data_length R \<le> cm_tx_buffer_size c"
    "length (rs_data R) = unat (cm_tx_buffer_size c)"
    "wire_response R = answer_frame CommandId_MemoryControl MemoryControl_Read RC_OK (read_response (w_memory w) bs)"
proof -
  let ?rq = "cm_active_request c" and ?tx = "cm_tx_buffer_size c"
  let ?rs = "(rs_reset (rs_reset (cm_active_response c)))\<lparr>rs_command_id := CommandId_MemoryControl,
      rs_subfunction_id := MemoryControl_Read\<rparr>"
  have rq: "rq_command_id ?rq = CommandId_MemoryControl" "rq_subfunction_id ?rq = MemoryControl_Read"
    "has_payload ?rq (read_request bs)"
    using assms(1) by (simp_all add: delivers_def Let_def has_payload_def)
  have tx: "unat ?tx \<le> 65519" "length (rs_data ?rs) = unat ?tx"
    using assms(2) by (simp_all add: comm_inv_def tx_inv_def Let_def word_le_nat_alt rs_reset_def)
  obtain e where e: "process_memory_control (mh_config h) ?tx w (ms_memory stk) ?rq ?rs = Some (RC_OK, w, en_response e)"
    "appends (read_response (w_memory w) bs) (en_init ?rs ?tx) e"
    using memory_control_read [OF rq(2,3) assms(3,4) tx(1) _ assms(5,6), of ?rs w "ms_memory stk"] tx(2) by auto
  have R: "R = (en_response e)\<lparr>rs_response_code := 0\<rparr>" by (simp add: R_def read_answer_def e(1))
  have fields: "rs_command_id R = CommandId_MemoryControl" "rs_subfunction_id R = MemoryControl_Read"
    "unat (rs_data_length R) \<le> unat ?tx" "length (rs_data R) = unat ?tx"
    "response_payload R = read_response (w_memory w) bs"
    using e(2) tx(2) payload_of_appends [OF e(2)]
    by (auto simp: R appends_def en_inv_def en_init_def response_payload_def)
  show "rs_response_code R = 0" by (simp add: R)
  show "rs_data_length R \<le> ?tx" "length (rs_data R) = unat ?tx" using fields(3,4) by (simp_all add: word_le_nat_alt)
  show "wire_response R = answer_frame CommandId_MemoryControl MemoryControl_Read RC_OK (read_response (w_memory w) bs)"
    using wire_response_answer [of R] fields by (simp add: answer_frame_def R Let_def)
  show "answers sid stk (mh_config h) c w R"
    using e(1) rq by (simp add: answers_def process_request_def Let_def prepare_response_def R)
qed

text \<open>
  C1: a request to read memory, from the first byte of its frame to the last byte of its answer. The
  application gives the frame to the main handler in pieces, without a pause longer than the
  reception timeout, and goes on calling \<open>process\<close> and taking bytes: what it gets to send is, byte for
  byte, the frame that answers with the contents of the blocks, and nothing else; once that frame is
  out the handler is ready for the next request. This holds whatever the datalogger, the loops and
  their messages are, provided that the session does not run out of heartbeats meanwhile.
\<close>

theorem memory_read_end_to_end:
  assumes "mh_enabled h" "\<not> mh_processing_request h" "\<not> mh_disconnect_pending h" "comm_inv (mh_comm h)"
      "rx_ready (mh_comm h)" "cm_session_active (mh_comm h)"
    and "bs \<noteq> []" "10 * length bs \<le> unat (cm_rx_buffer_size (mh_comm h))"
      "response_size bs \<le> unat (cm_tx_buffer_size (mh_comm h))"
      "\<forall>b\<in>set bs. response_size (butlast bs) + block_need b \<le> 65519" "\<forall>b\<in>set bs. read_allowed (mh_config h) b"
    and "chunk_bytes (arrivals (mh_timebase h) (its @ [(t, data, room)]))
      = request_frame CommandId_MemoryControl MemoryControl_Read (read_request bs)"
      "data \<noteq> []" "in_time (cm_last_rx_timestamp (mh_comm h)) (arrivals (mh_timebase h) (its @ [(t, data, room)]))"
    and "\<forall>it \<in> set its2. fst (snd it) = []" "heartbeat_left h (duration (its @ (t, data, room) # its2))"
    and "n = unat room + room_of its2"
    and "F = answer_frame CommandId_MemoryControl MemoryControl_Read RC_OK (read_response (w_memory w) bs)"
  shows "\<exists>h' loops'. main_run sid stk (its @ (t, data, room) # its2) h loops w = Some (take n F, h', loops', w)
    \<and> tx_pending (mh_comm h') = drop n F
    \<and> (length F \<le> n \<longrightarrow> rx_ready (mh_comm h') \<and> \<not> mh_processing_request h')"
proof -
  have len: "length (read_request bs) \<le> unat (cm_rx_buffer_size (mh_comm h))"
    using assms(8) by (simp add: length_read_request)
  have answer: "answers sid stk (mh_config h) c w (read_answer h stk c w)
      \<and> rs_response_code (read_answer h stk c w) \<notin> {0xFF, 0xFE}
      \<and> rs_data_length (read_answer h stk c w) \<le> cm_tx_buffer_size c
      \<and> length (rs_data (read_answer h stk c w)) = unat (cm_tx_buffer_size c)"
    and frame: "wire_response (read_answer h stk c w) = F"
    if "delivers CommandId_MemoryControl MemoryControl_Read (read_request bs) c" "comm_inv c" "link c = link (mh_comm h)" for c
    using read_answers [OF that(1,2) assms(7) _ assms(10,11), where stk = stk and w = w] assms(9,18) link_fields(4) [OF that(3)]
    by simp_all
  from request_answered [OF assms(1-5) _ len _ assms(12-16) answer] assms(6)
  obtain c h' loops' where "main_run sid stk (its @ (t, data, room) # its2) h loops w
      = Some (take n F, h', loops', w)" "answering h' (drop n F)"
    using frame assms(17) by fastforce
  then show ?thesis by (auto simp: answering_def split: if_splits)
qed

text \<open>Two bytes read over a session that has just opened, the frame coming in two pieces.\<close>

definition demo_main :: "unit main_handler" where
  "demo_main =
    \<lparr>mh_timebase = tb_init, mh_comm = snd (comm_connect tb_init demo_comm), mh_processing_request = False,
     mh_disconnect_pending = False, mh_config = demo_target, mh_process_again_timestamp = 0, mh_enabled = True,
     mh_process_again_timestamp_taken = False, mh_datalogging = demo_completed demo_encoder\<rparr>"

definition demo_loops :: loops where
  "demo_loops l =
    \<lparr>li_loop_type = LoopType_VARIABLE_FREQ, li_timestep_100ns = 0, li_name = None, li_support_datalogging = True,
     lp_timebase = tb_init, lp_main2loop_msg = ipc_new DATALOGGER_ARM_TRIGGER,
     lp_loop2main_msg = ipc_new DATALOGGER_DATA_ACQUIRED, lp_datalogger_data_acquired = False\<rparr>"

lemma demo_connected_comm:
  "comm_inv (snd (comm_connect tb_init demo_comm))" "rx_ready (snd (comm_connect tb_init demo_comm))"
  "cm_session_active (snd (comm_connect tb_init demo_comm))"
  "cm_last_rx_timestamp (snd (comm_connect tb_init demo_comm)) = 0"
  "cm_heartbeat_timestamp (snd (comm_connect tb_init demo_comm)) = 0"
  "cm_rx_buffer_size (snd (comm_connect tb_init demo_comm)) = 32"
  "cm_tx_buffer_size (snd (comm_connect tb_init demo_comm)) = 32"
  using demo_comm_inv demo_comm_ready comm_inv_connect [OF demo_comm_inv(1), of tb_init]
  by (auto simp: comm_connect_def reset_rx_def Let_def rx_ready_def get_timestamp_def tb_init_def rq_reset_def)

theorem memory_read_end_to_end_witness:
  "\<exists>h' loops'. main_run [] \<lparr>ms_memory = demo_stack, ms_loop_id = 0\<rparr>
      ([(100, take 5 (request_frame 3 1 (read_request [(0x1000, 2)])), 8)]
       @ (100, drop 5 (request_frame 3 1 (read_request [(0x1000, 2)])), 8) # [(50, [], 100)])
      demo_main demo_loops demo_world
    = Some (answer_frame 3 1 RC_OK (read_response (w_memory demo_world) [(0x1000, 2)]), h', loops', demo_world)"
proof -
  let ?f = "request_frame 3 1 (read_request [(0x1000, 2)])"
  let ?F = "answer_frame 3 1 RC_OK (read_response (w_memory demo_world) [(0x1000, 2)])"
  have tb0: "tb_time_100ns tb_init = 0" by (simp add: tb_init_def)
  define f where "f = ?f"
  have len: "length ?F = 21"
    by (simp add: answer_frame_def Let_def be16.length_enc be32.length_enc length_read_item length_ack_item read_response_def)
  have f: "length f = 18" by (simp add: f_def length_request_frame length_ack_item)
  then have parts: "take 5 f \<noteq> []" "drop 5 f \<noteq> []" by auto
  have "\<exists>h' loops'. main_run [] \<lparr>ms_memory = demo_stack, ms_loop_id = 0\<rparr>
      ([(100, take 5 f, 8)] @ (100, drop 5 f, 8) # [(50, [], 100)]) demo_main demo_loops demo_world
      = Some (take 108 ?F, h', loops', demo_world)
    \<and> tx_pending (mh_comm h') = drop 108 ?F
    \<and> (length ?F \<le> 108 \<longrightarrow> rx_ready (mh_comm h') \<and> \<not> mh_processing_request h')"
  proof (rule memory_read_end_to_end [where bs = "[(0x1000, 2)]"])
    show "chunk_bytes (arrivals (mh_timebase demo_main) ([(100, take 5 f, 8)] @ [(100, drop 5 f, 8)]))
        = request_frame CommandId_MemoryControl MemoryControl_Read (read_request [(0x1000, 2)])"
      by (simp add: f_def)
    show "in_time (cm_last_rx_timestamp (mh_comm demo_main))
        (arrivals (mh_timebase demo_main) ([(100, take 5 f, 8)] @ [(100, drop 5 f, 8)]))"
      using parts by (simp add: demo_main_def demo_connected_comm has_expired_def elapsed_since_def tb0
          tb_step_def get_timestamp_def word_le_nat_alt)
    show "heartbeat_left demo_main (duration ([(100, take 5 f, 8)] @ (100, drop 5 f, 8) # [(50, [], 100)]))"
      by (simp add: heartbeat_left_def demo_main_def demo_connected_comm elapsed_since_def tb0)
  qed (use parts in \<open>simp_all add: demo_main_def demo_connected_comm response_size_def block_need_def
      read_allowed_def demo_target_def config_clear_def touches_forbidden_region_def
      is_forbidden_address_range_set_def array_upto_def touches_def\<close>)
  then show ?thesis unfolding f_def using len by auto
qed

end
