(* ===== verification/SessionService.thy ===== *)
theory SessionService
  imports InfoService MemoryService CommReceive
begin

text \<open>
  What a server can rely on when it looks for a device, opens a session and asks what the device
  has: the layout of the answers of \<open>InfoService\<close>, the exclusivity of the session, and that the
  services stay inside the transmission buffer.
\<close>

unbundle bit_operations_syntax

section \<open>Layouts of the flat responses\<close>

text \<open>An encoder that has room makes one copy of its fields at the start of the payload.\<close>

lemmas flat_encoders = encode_response_protocol_version_def encode_response_software_id_def
  encode_response_special_memory_region_count_def encode_response_special_memory_region_location_def
  encode_response_supported_features_def encode_response_get_rpv_count_def
  encode_response_get_loop_count_def encode_response_comm_heartbeat_def
  encode_response_comm_get_params_def encode_response_comm_connect_def

lemmas field_lengths = be16.length_enc be32.length_enc be64.length_enc be_addr.length_enc

definition rs_in_bounds :: "response \<Rightarrow> response_code \<times> response \<Rightarrow> bool" where
  "rs_in_bounds rs r =
    (length (rs_data (snd r)) = length (rs_data rs)
     \<and> rs_data_max_length (snd r) = rs_data_max_length rs
     \<and> (fst r = RC_OK \<longrightarrow> rs_data_length (snd r) \<le> rs_data_max_length rs))"

lemma flat_in_bounds:
  assumes "rs_ready rs" "length software_id = 16"
  shows "rs_in_bounds rs (encode_response_protocol_version a b rs)"
    "rs_in_bounds rs (encode_response_software_id software_id rs)"
    "rs_in_bounds rs (encode_response_special_memory_region_count a b rs)"
    "rs_in_bounds rs (encode_response_special_memory_region_location loc rs)"
    "rs_in_bounds rs (encode_response_supported_features sf rs)"
    "rs_in_bounds rs (encode_response_get_rpv_count n rs)"
    "rs_in_bounds rs (encode_response_get_loop_count a rs)"
    "rs_in_bounds rs (encode_response_comm_heartbeat s n rs)"
    "rs_in_bounds rs (encode_response_comm_get_params gp rs)"
    "rs_in_bounds rs (encode_response_comm_connect CONNECT_MAGIC s rs)"
  using assms
  by (simp_all add: rs_in_bounds_def flat_encoders too_long_def rs_ready_def Let_def length_rs_put
      field_lengths word_le_nat_alt rs_put_data CONNECT_MAGIC_def)


lemma discover_in_bounds:
  assumes "rs_ready rs" "length software_id = 16" "min (unat n) 64 \<le> length name"
  shows "rs_in_bounds rs (encode_response_comm_discover software_id name n rs)"
proof -
  define k where "k = (if unat n > 64 then 64 else unat n)"
  have k: "k \<le> 64" "length (take k name) = k" using assms(3) by (auto simp: k_def)
  have len: "1 + 1 + 16 + 1 + k = 19 + k" by simp
  show ?thesis
    unfolding encode_response_comm_discover_def k_def [symmetric] Let_def len
    using assms(1,2) k
    by (auto simp: rs_in_bounds_def too_long_def rs_ready_def rs_put_data word_le_nat_alt
        simp del: of_nat_add)
qed

lemma loop_definition_in_bounds:
  assumes "rs_ready rs" "min (unat (ld_loop_name_length d)) 32 \<le> length (ld_loop_name d)"
  shows "rs_in_bounds rs (encode_response_get_loop_definition d rs)"
proof -
  define k where "k = (if unat (ld_loop_name_length d) > 32 then 32 else unat (ld_loop_name_length d))"
  have k: "k \<le> 32" "length (take k (ld_loop_name d)) = k" using assms(2) by (auto simp: k_def)
  show ?thesis
    unfolding encode_response_get_loop_definition_def k_def [symmetric] Let_def
    using assms(1) k
    by (auto simp: rs_in_bounds_def too_long_def rs_ready_def rs_put_data word_le_nat_alt field_lengths
        split: prod.splits if_splits simp del: of_nat_add)
qed

section \<open>The definitions of published values\<close>

definition rpv_definitions :: "rpv list \<Rightarrow> u8 list" where
  "rpv_definitions rpvs = concat (map rpv_def_item rpvs)"

lemma rpv_definition_loop_appends:
  "en_inv e \<Longrightarrow> \<not> en_overflow e \<Longrightarrow>
    (case rpv_definition_loop rpvs e of (code, e') \<Rightarrow>
       if 3 * length rpvs \<le> en_remaining e
       then code = RC_OK \<and> appends (rpv_definitions rpvs) e e'
       else code = RC_Overflow)
    \<and> (\<exists>bs e''. appends bs e e'' \<and> en_response (snd (rpv_definition_loop rpvs e)) = en_response e'')"
proof (induction rpvs arbitrary: e)
  case Nil
  then show ?case by (auto simp: rpv_definitions_def appends_def intro!: exI [of _ "[]"])
next
  case (Cons r rpvs)
  show ?case
  proof (cases "3 \<le> en_remaining e")
    case True
    let ?e = "rpv_def_write r e"
    have app: "appends (rpv_def_item r) e ?e" by (rule rpv_def_write_fits [OF Cons.prems(1) True])
    have e: "en_inv ?e" "\<not> en_overflow ?e" using app Cons.prems(2) by (simp_all add: appends_def)
    have room: "en_remaining e = 3 + en_remaining ?e"
      using appends_remaining [OF app Cons.prems(1)] by simp
    obtain code e' where run: "rpv_definition_loop rpvs ?e = (code, e')" by force
    from Cons.IH [OF e] run obtain bs e'' where
      "if 3 * length rpvs \<le> en_remaining ?e then code = RC_OK \<and> appends (rpv_definitions rpvs) ?e e'
       else code = RC_Overflow" "appends bs ?e e''" "en_response e' = en_response e''" by auto
    with appends_trans [OF app] run room e(2) show ?thesis
      by (auto simp: Let_def rpv_definitions_def)
  next
    case False
    then have "rpv_def_write r e = en_flag e" by (intro rpv_def_write_full) simp
    with False show ?thesis
      by (auto simp: Let_def en_flag_def appends_nil [OF Cons.prems(1)] intro!: exI [of _ "[]"] exI [of _ e])
  qed
qed

text \<open>An item list appended to an empty response stays in the buffer.\<close>

lemma appends_in_bounds:
  assumes "appends bs (en_init rs tx_size) e" "tx_size = rs_data_max_length rs"
  shows "rs_in_bounds rs (code, en_response e)"
  using assms by (auto simp: rs_in_bounds_def appends_def en_inv_def en_init_def word_le_nat_alt)

section \<open>Properties\<close>

text \<open>The string that a possibly null pointer leads to, and its length as the code computes it.\<close>

lemma strnlen_of_string:
  "strnlen s n \<le> n" "strnlen s n \<le> length (case s of None \<Rightarrow> [] | Some bs \<Rightarrow> bs)"
  using strnlen_bounds strnlen_in_string by (auto simp: strnlen_def split: option.splits)

text \<open>A Discover request is refused unless its payload is exactly the magic number; the answer
  to it is the protocol version, the identifier of the firmware, and the display name cut at 64
  characters with its length, when the transmission buffer has room for it.\<close>

theorem discover_answered:
  assumes "rq_subfunction_id rq = CommControl_Discover" "rs_ready rs" "length software_id = 16"
    "19 + strnlen (cf_display_name cf) 64 \<le> unat (rs_data_max_length rs)"
  shows "if has_payload rq DISCOVER_MAGIC
    then \<exists>rs'. process_comm_control cf software_id tb c dp rq rs = (RC_OK, c, dp, rs')
      \<and> response_payload rs' = [1, 0] @ software_id @ [of_nat (strnlen (cf_display_name cf) 64)]
          @ take (strnlen (cf_display_name cf) 64) (case cf_display_name cf of None \<Rightarrow> [] | Some s \<Rightarrow> s)
    else process_comm_control cf software_id tb c dp rq rs = (RC_InvalidRequest, c, dp, rs)"
proof (cases "has_payload rq DISCOVER_MAGIC")
  case False
  then have "decode_request_comm_discover rq = RC_InvalidRequest"
    by (auto simp: decode_request_comm_discover_def has_payload_def)
  with False assms(1) show ?thesis by (simp add: process_comm_control_def comm_control_discover_def)
next
  case True
  then have ok: "decode_request_comm_discover rq = RC_OK"
    by (simp add: decode_request_comm_discover_def has_payload_def)
  define n where "n = strnlen (cf_display_name cf) 64"
  define name where "name = (case cf_display_name cf of None \<Rightarrow> [] | Some s \<Rightarrow> s)"
  let ?bs = "[1, 0] @ software_id @ [of_nat n] @ take n name"
  have n: "n \<le> 64" "n \<le> length name" "unat (of_nat n :: u8) = n"
    using strnlen_of_string [where s = "cf_display_name cf" and n = 64] by (simp_all add: n_def name_def)
  have room: "19 + n \<le> length (rs_data rs)" "\<not> too_long (19 + n) rs"
    using assms(2,4) by (simp_all add: rs_ready_def too_long_def n_def)
  have "encode_response_comm_discover software_id name (of_nat n) rs
      = (RC_OK, (rs_put 0 ?bs rs)\<lparr>rs_data_length := of_nat (19 + n)\<rparr>)"
    using n room assms(3)
    by (simp add: encode_response_comm_discover_def Let_def rs_put_put)
  moreover have "response_payload ((rs_put 0 ?bs rs)\<lparr>rs_data_length := of_nat (19 + n)\<rparr>) = ?bs"
    using n room assms(3) by (intro rs_put_payload) simp_all
  ultimately show ?thesis
    using True ok assms(1)
    by (simp add: process_comm_control_def comm_control_discover_def n_def [symmetric] name_def [symmetric])
qed

definition demo_software_id :: "u8 list" where
  "demo_software_id = [0xA9, 0xDC, 0xC0, 0x65, 0x28, 0xFD, 0x41, 0xFA, 0x7C, 0xE8, 0x63, 0xD6, 0xAA, 0x94, 0xA7, 0x08]"

lemma demo_blank_ready: "rs_ready demo_blank_response"
  by (simp add: rs_ready_def demo_blank_response_def)

lemma discover_answered_witness:
  "\<exists>rs'. process_comm_control demo_target demo_software_id tb_init demo_comm False
      (demo_request 2 CommControl_Discover DISCOVER_MAGIC) demo_blank_response = (RC_OK, demo_comm, False, rs')
    \<and> response_payload rs' = [1, 0] @ demo_software_id @ [of_nat (strnlen (cf_display_name demo_target) 64)]
          @ take (strnlen (cf_display_name demo_target) 64)
              (case cf_display_name demo_target of None \<Rightarrow> [] | Some s \<Rightarrow> s)"
  using discover_answered [where cf = demo_target and software_id = demo_software_id and c = demo_comm
      and tb = tb_init and dp = False and rq = "demo_request 2 CommControl_Discover DISCOVER_MAGIC" and rs = demo_blank_response]
  by (simp add: demo_blank_ready demo_request_payload DISCOVER_MAGIC_def demo_software_id_def)
    (simp add: demo_target_def config_clear_def strnlen_def strnlen_loop.simps demo_blank_response_def)

text \<open>C23: A Connect request of the right size, whatever its magic number, opens the session when none
  is active: the answer holds the magic number and the identifier of the new session, which is the
  next value of the session counter.\<close>

theorem connect_opens_session:
  assumes "rq_subfunction_id rq = CommControl_Connect" "rq_data_length rq = 4" "rs_ready rs"
    "cm_enabled c" "\<not> cm_session_active c"
  shows "\<exists>c' rs'. process_comm_control cf software_id tb c dp rq rs = (RC_OK, c', dp, rs')
    \<and> cm_session_active c' \<and> cm_session_id c' = cm_session_counter c
    \<and> cm_session_counter c' = cm_session_counter c + 1
    \<and> response_payload rs' = CONNECT_MAGIC @ encode_32_bits_big_endian (cm_session_counter c)"
proof -
  let ?bs = "CONNECT_MAGIC @ encode_32_bits_big_endian (cm_session_counter c)"
  obtain c' where c': "comm_connect tb c = (True, c')" "cm_session_active c'"
    "cm_session_id c' = cm_session_counter c" "cm_session_counter c' = cm_session_counter c + 1"
    using assms(4,5) by (simp add: comm_connect_def reset_rx_def Let_def)
  have room: "8 \<le> length (rs_data rs)" "\<not> too_long 8 rs"
    using assms(3) by (simp_all add: rs_ready_def too_long_def)
  have "encode_response_comm_connect CONNECT_MAGIC (cm_session_counter c) rs
      = (RC_OK, (rs_put 0 ?bs rs)\<lparr>rs_data_length := of_nat 8\<rparr>)"
    using room by (simp add: encode_response_comm_connect_def Let_def rs_put_put CONNECT_MAGIC_def be32.length_enc)
  moreover have "response_payload ((rs_put 0 ?bs rs)\<lparr>rs_data_length := of_nat 8\<rparr>) = ?bs"
    using room by (intro rs_put_payload) (simp_all add: CONNECT_MAGIC_def be32.length_enc)
  moreover have "decode_request_comm_connect rq [] = (RC_OK, take 4 (rq_data rq))"
  proof -
    have "length CONNECT_MAGIC = 4" by (simp add: CONNECT_MAGIC_def)
    with assms(2) show ?thesis by (simp add: decode_request_comm_connect_def)
  qed
  ultimately show ?thesis
    using c' assms(1,5) by (simp add: process_comm_control_def comm_control_connect_def)
qed

lemma connect_opens_session_witness:
  "\<exists>c' rs'. process_comm_control demo_target demo_software_id tb_init demo_comm False
      (demo_request 2 CommControl_Connect [0, 0, 0, 0]) demo_blank_response = (RC_OK, c', False, rs')
    \<and> cm_session_active c' \<and> cm_session_id c' = cm_session_counter demo_comm
    \<and> cm_session_counter c' = cm_session_counter demo_comm + 1
    \<and> response_payload rs'
      = CONNECT_MAGIC @ encode_32_bits_big_endian (cm_session_counter demo_comm)"
  by (rule connect_opens_session)
    (use demo_comm_ready in \<open>simp_all add: demo_blank_ready demo_request_def rx_ready_def\<close>)

text \<open>C24: The session is exclusive: while one is active, a Connect request is answered Busy, and no
  Heartbeat or Disconnect request that names another session is accepted; none of them changes
  the communication handler nor asks for a disconnection.\<close>

theorem session_exclusive:
  assumes "cm_session_active c" "unat (rq_data_length rq) \<le> length (rq_data rq)"
    "rq_subfunction_id rq = CommControl_Connect
     \<or> rq_subfunction_id rq \<in> {CommControl_Heartbeat, CommControl_Disconnect}
       \<and> take 4 (rq_data rq) \<noteq> encode_32_bits_big_endian (cm_session_id c)"
  shows "\<exists>code. process_comm_control cf software_id tb c dp rq rs = (code, c, dp, rs)
    \<and> code \<in> {RC_Busy, RC_InvalidRequest}"
proof -
  have other: "decode_32_bits_big_endian (rq_data rq) \<noteq> cm_session_id c"
    if "4 \<le> length (rq_data rq)" "take 4 (rq_data rq) \<noteq> encode_32_bits_big_endian (cm_session_id c)"
    using that be32.enc_dec_take by metis
  have long: "rq_data_length rq = 6 \<Longrightarrow> 4 \<le> length (rq_data rq)"
    "rq_data_length rq = 4 \<Longrightarrow> 4 \<le> length (rq_data rq)"
    using assms(2) by auto
  consider "rq_subfunction_id rq = CommControl_Connect"
    | "rq_subfunction_id rq = CommControl_Heartbeat"
      "rq_data_length rq = 6 \<Longrightarrow> decode_32_bits_big_endian (rq_data rq) \<noteq> cm_session_id c"
    | "rq_subfunction_id rq = CommControl_Disconnect"
      "rq_data_length rq = 4 \<Longrightarrow> decode_32_bits_big_endian (rq_data rq) \<noteq> cm_session_id c"
    using assms(3) other long by blast
  then show ?thesis
  proof cases
    case 1
    then show ?thesis
      using assms(1) by (auto simp: process_comm_control_def comm_control_connect_def decode_request_comm_connect_def)
  next
    case 2
    then show ?thesis
      by (auto simp: process_comm_control_def comm_control_heartbeat_def decode_request_comm_heartbeat_def)
  next
    case 3
    then show ?thesis
      using assms(1)
      by (auto simp: process_comm_control_def comm_control_disconnect_def decode_request_comm_disconnect_def)
  qed
qed

lemma session_exclusive_witness:
  "\<exists>code. process_comm_control demo_target demo_software_id tb_init
      (demo_comm\<lparr>cm_session_active := True, cm_session_id := 7\<rparr>) False
      (demo_request 2 CommControl_Disconnect [0, 0, 0, 8]) demo_blank_response
    = (code, demo_comm\<lparr>cm_session_active := True, cm_session_id := 7\<rparr>, False, demo_blank_response)
    \<and> code \<in> {RC_Busy, RC_InvalidRequest}"
  by (rule session_exclusive)
    (simp_all add: demo_request_def encode_32_bits_big_endian_def)

text \<open>C25: A request for the definitions of published values is answered with the identifier and the
  type of each value of the range, in order, when the range exists; it is answered Overflow when
  the definitions do not fit the transmission buffer, and fails when the range does not exist.\<close>

theorem rpv_definitions_served:
  assumes "rq_subfunction_id rq = GetInfo_GetRPVDefinition" "cf_rpvs cf = Some rpvs"
    "length rpvs = unat (cf_rpv_count cf)"
    "has_payload rq (encode_16_bits_big_endian start @ encode_16_bits_big_endian n)"
    "unat tx_size \<le> length (rs_data rs)"
  shows "case process_get_info cf tx_size loops software_id g rq rs of (code, rs') \<Rightarrow>
    if start < cf_rpv_count cf \<and> unat start + unat n \<le> length rpvs
    then if 3 * unat n \<le> unat tx_size
         then code = RC_OK \<and> response_payload rs' = rpv_definitions (take (unat n) (drop (unat start) rpvs))
         else code = RC_Overflow
    else code = RC_FailureToProceed"
proof -
  let ?rs = "take (unat n) (drop (unat start) rpvs)"
  obtain junk where data: "rq_data rq = encode_16_bits_big_endian start @ encode_16_bits_big_endian n @ junk"
    using has_payload_split [OF assms(4)] by auto
  have len: "rq_data_length rq = 4"
    using assms(4) by (simp add: has_payload_def be16.length_enc word_unat_eq_iff)
  have dec: "decode_request_get_rpv_definition rq d = (RC_OK, start, n)" for d
    unfolding decode_request_get_rpv_definition_def data
    by (simp add: len be16.dec_enc_append be16.length_enc)
  obtain code e' where run: "rpv_definition_loop ?rs (en_init rs tx_size) = (code, e')" by force
  have "en_inv (en_init rs tx_size)" by (rule en_inv_init [OF assms(5)])
  with rpv_definition_loop_appends [of "en_init rs tx_size" ?rs] run
  have "if 3 * length ?rs \<le> unat tx_size
    then code = RC_OK \<and> response_payload (en_response e') = rpv_definitions ?rs else code = RC_Overflow"
    using payload_of_appends by (auto split: if_splits)
  moreover have "length ?rs = unat n" if "unat start + unat n \<le> length rpvs" using that by simp
  ultimately show ?thesis
    using assms(1-3) run
    by (auto simp del: length_take length_drop simp: process_get_info_def get_info_rpv_definition_def dec Let_def word_le_nat_alt
        word_less_nat_alt)
qed

lemma rpv_definitions_served_witness:
  "case process_get_info demo_target 64 (\<lambda>_. fixed_frequency_loop 10000 None) demo_software_id 0
      (demo_request 1 GetInfo_GetRPVDefinition (encode_16_bits_big_endian 0 @ encode_16_bits_big_endian 2))
      demo_blank_response of (code, rs') \<Rightarrow>
    if 0 < cf_rpv_count demo_target \<and> unat (0 :: u16) + unat (2 :: u16) \<le> length (the (cf_rpvs demo_target))
    then if 3 * unat (2 :: u16) \<le> unat (64 :: u16)
         then code = RC_OK \<and> response_payload rs' = rpv_definitions
           (take (unat (2 :: u16)) (drop (unat (0 :: u16)) (the (cf_rpvs demo_target))))
         else code = RC_Overflow
    else code = RC_FailureToProceed"
  by (rule rpv_definitions_served)
    (simp_all add: demo_request_payload be16.length_enc demo_target_def demo_blank_response_def)

text \<open>The length of a request for the definition of a loop is not checked: a request of any other
  size than one byte is answered as if it had asked for the loop whose number happens to be in the
  handler's uninitialised variable.\<close>

theorem malformed_loop_definition:
  assumes "rq_subfunction_id rq = GetInfo_GetLoopDefinition" "rq_data_length rq \<noteq> 1"
  shows "process_get_info cf tx_size loops software_id g rq rs
    = process_get_info cf tx_size loops software_id g' (rq\<lparr>rq_data_length := 1, rq_data := [g]\<rparr>) rs"
  using assms by (simp add: process_get_info_def get_info_loop_definition_def decode_request_get_loop_definition_def)

lemma malformed_loop_definition_witness:
  "process_get_info demo_target 64 (\<lambda>_. fixed_frequency_loop 10000 None) demo_software_id 3
      (demo_request 1 GetInfo_GetLoopDefinition []) demo_blank_response
    = process_get_info demo_target 64 (\<lambda>_. fixed_frequency_loop 10000 None) demo_software_id 0
      ((demo_request 1 GetInfo_GetLoopDefinition [])\<lparr>rq_data_length := 1, rq_data := [3]\<rparr>) demo_blank_response"
  by (rule malformed_loop_definition) (simp_all add: demo_request_def)

text \<open>C26: No GetInfo or CommControl request, whatever its bytes, makes the device write outside the
  transmission buffer, and the length of an accepted answer is at most the size of the buffer.\<close>

theorem info_in_bounds:
  assumes "rs_ready rs" "rs_data_length rs = 0" "tx_size = rs_data_max_length rs" "length software_id = 16"
  shows "rs_in_bounds rs (process_get_info cf tx_size loops software_id g rq rs)
    \<and> (case process_comm_control cf software_id tb c dp rq rs of (code, _, _, rs') \<Rightarrow> rs_in_bounds rs (code, rs'))"
proof
  note flat = flat_in_bounds [OF assms(1,4)]
  have same: "rs_in_bounds rs (code, rs)" for code using assms(2) by (simp add: rs_in_bounds_def)
  have loc: "rs_in_bounds rs (get_info_special_memory_location cf rq rs)"
    using flat(4) same by (auto simp: get_info_special_memory_location_def Let_def split: prod.split)
  have "en_inv (en_init rs tx_size)" using assms(1,3) by (intro en_inv_init) (simp add: rs_ready_def)
  then have rpvs: "rs_in_bounds rs (code, en_response (snd (rpv_definition_loop rs' (en_init rs tx_size))))" for code rs'
    using rpv_definition_loop_appends [of "en_init rs tx_size" rs'] appends_in_bounds [OF _ assms(3)] by auto
  have init: "rs_in_bounds rs (code, en_response (en_init rs tx_size))" for code
    by (simp add: rs_in_bounds_def en_init_def)
  have def: "rs_in_bounds rs (get_info_rpv_definition cf tx_size rq rs)"
    by (simp add: get_info_rpv_definition_def Let_def case_prod_beta rpvs init same)
  have name: "min (unat (of_nat (strnlen s k) :: u8)) k \<le> length (case s of None \<Rightarrow> [] | Some bs \<Rightarrow> bs)"
    if "k < 256" for s k
    using strnlen_of_string(2) [of s k] strnlen_of_string(1) [of s k] that by simp
  have loop: "rs_in_bounds rs (get_info_loop_definition cf loops g rq rs)"
    unfolding get_info_loop_definition_def Let_def
    using same name [of 32] by (auto intro!: loop_definition_in_bounds [OF assms(1)])
  show "rs_in_bounds rs (process_get_info cf tx_size loops software_id g rq rs)"
    by (simp add: process_get_info_def Let_def flat loc def loop same)
  have disc: "rs_in_bounds rs (comm_control_discover cf software_id rq rs)"
    unfolding comm_control_discover_def Let_def
    using same name [of 64] by (auto intro!: discover_in_bounds [OF assms(1,4)])
  show "case process_comm_control cf software_id tb c dp rq rs of (code, _, _, rs') \<Rightarrow> rs_in_bounds rs (code, rs')"
    by (simp add: process_comm_control_def comm_control_heartbeat_def comm_control_get_params_def
        comm_control_connect_def Let_def case_prod_beta disc flat same)
qed

lemma info_in_bounds_witness:
  "rs_in_bounds demo_blank_response (process_get_info demo_target 64 (\<lambda>_. fixed_frequency_loop 10000 None)
      demo_software_id 0 (demo_request 1 GetInfo_GetSoftwareId []) demo_blank_response)
    \<and> (case process_comm_control demo_target demo_software_id tb_init demo_comm False
         (demo_request 1 GetInfo_GetSoftwareId []) demo_blank_response of
         (code, _, _, rs') \<Rightarrow> rs_in_bounds demo_blank_response (code, rs'))"
  by (rule info_in_bounds) (simp_all add: rs_ready_def demo_software_id_def demo_blank_response_def)

end
