(* ===== verification/MainInvariant.thy ===== *)
theory MainInvariant
  imports MainSession SessionService
begin

text \<open>
  The main handler as a state machine: whatever the application does with it, in whatever order, the
  communication handler keeps its invariant. Two facts carry it: no service, whatever its request,
  writes outside the response's buffer, and no response is prepared while another one is being sent.
\<close>

section \<open>The buffer of the response\<close>

definition same_buffer :: "response \<Rightarrow> response \<Rightarrow> bool" where
  "same_buffer rs rs' = (length (rs_data rs') = length (rs_data rs) \<and> rs_data_max_length rs' = rs_data_max_length rs)"

lemma same_buffer_refl [simp]: "same_buffer rs rs" "same_buffer rs (rs\<lparr>rs_data_length := n\<rparr>)"
  by (simp_all add: same_buffer_def)

lemma in_bounds_same: "rs_in_bounds rs r \<Longrightarrow> same_buffer rs (snd r)"
  by (simp add: rs_in_bounds_def same_buffer_def)

lemma same_buffer_put: "same_buffer rs d \<Longrightarrow> pos + length bs \<le> length (rs_data rs) \<Longrightarrow> same_buffer rs (rs_put pos bs d)"
  by (simp add: same_buffer_def length_rs_put)

lemma same_buffer_fields [simp]:
  "same_buffer rs (d\<lparr>rs_data_length := n\<rparr>) = same_buffer rs d" "same_buffer rs (d\<lparr>rs_response_code := b\<rparr>) = same_buffer rs d"
  by (simp_all add: same_buffer_def)

subsection \<open>Encoders of lists\<close>

definition en_keeps :: "response \<Rightarrow> encoder \<Rightarrow> bool" where
  "en_keeps rs e = (en_inv e \<and> unat (en_size_limit e) \<le> 65519 \<and> same_buffer rs (en_response e))"

lemma en_keeps_appends: "appends bs e e' \<Longrightarrow> en_keeps rs e \<Longrightarrow> en_keeps rs e'"
  by (simp add: en_keeps_def appends_def same_buffer_def)

lemma en_keeps_flag [simp]: "en_keeps rs (en_flag e) = en_keeps rs e"
  by (simp add: en_keeps_def) (simp add: en_flag_def)

lemma en_keeps_init: "unat tx_size \<le> length (rs_data rs) \<Longrightarrow> unat tx_size \<le> 65519 \<Longrightarrow> en_keeps rs (en_init rs tx_size)"
  by (simp add: en_keeps_def en_inv_init) (simp add: en_init_def)

lemma en_keeps_writes:
  assumes "en_keeps rs e"
  shows "en_keeps rs (read_mem_write m blk e)" "en_keeps rs (write_mem_write blk e)"
    "en_keeps rs (read_rpv_write r v e)" "en_keeps rs (write_rpv_write r e)"
proof -
  have e: "en_inv e" "unat (en_size_limit e) \<le> 65519" using assms by (simp_all add: en_keeps_def)
  show "en_keeps rs (read_mem_write m blk e)"
    using read_mem_write_fits [OF e(1) _ e(2), of blk m] read_mem_write_full [of e blk m] en_keeps_appends assms
    by (cases "addr_size + 2 + unat (mb_length blk) \<le> en_remaining e") auto
  show "en_keeps rs (write_mem_write blk e)"
    using write_mem_write_fits [OF e(1), of blk] write_mem_write_full [of e blk] en_keeps_appends assms
    by (cases "addr_size + 2 \<le> en_remaining e") auto
  show "en_keeps rs (write_rpv_write r e)"
    using write_rpv_write_fits [OF e(1), of r] write_rpv_write_full [of e r] en_keeps_appends assms
    by (cases "3 \<le> en_remaining e") auto
  have len: "length (encode_anytype_big_endian_sz v (get_type_size_8bits (rpv_type r))) = unat (get_type_size_8bits (rpv_type r))"
    if "get_type_size_8bits (rpv_type r) \<in> {1, 2, 4, 8}"
    using that length_encode_anytype by simp
  show "en_keeps rs (read_rpv_write r v e)"
    using two_puts [OF e(1), of "encode_16_bits_big_endian (rpv_id r)" "encode_anytype_big_endian_sz v (get_type_size_8bits (rpv_type r))"]
      len en_keeps_appends [where e = e and rs = rs] assms en_keeps_flag [of rs e]
    by (auto simp: read_rpv_write_def Let_def be16.length_enc en_flag_def)
qed

subsection \<open>The memory services\<close>

lemma read_loop_keeps: "MemoryControl.read_loop cf m p blk e = Some r \<Longrightarrow> en_keeps rs e \<longrightarrow> en_keeps rs (snd r)"
  by (erule MemoryControl.read_loop.raw_induct [where P = "\<lambda>cf m p blk e r. en_keeps rs e \<longrightarrow> en_keeps rs (snd r)", rotated])
    (auto simp: Let_def en_keeps_writes split: if_splits prod.splits)

lemma write_loop_keeps: "write_loop cf masked m p blk e = Some r \<Longrightarrow> en_keeps rs e \<longrightarrow> en_keeps rs (snd (snd r))"
  by (erule write_loop.raw_induct [where P = "\<lambda>cf masked m p blk e r. en_keeps rs e \<longrightarrow> en_keeps rs (snd (snd r))", rotated])
    (auto simp: Let_def en_keeps_writes split: if_splits prod.splits)

lemma read_rpv_loop_keeps: "read_rpv_loop cf cb w p i v e = Some r \<Longrightarrow> en_keeps rs e \<longrightarrow> en_keeps rs (snd (snd r))"
  by (erule read_rpv_loop.raw_induct [where P = "\<lambda>cf cb w p i v e r. en_keeps rs e \<longrightarrow> en_keeps rs (snd (snd r))", rotated])
    (auto simp: Let_def en_keeps_writes split: if_splits prod.splits option.splits)

lemma write_rpv_loop_keeps: "write_rpv_loop cf cb w p rv v e = Some r \<Longrightarrow> en_keeps rs e \<longrightarrow> en_keeps rs (snd (snd r))"
  by (erule write_rpv_loop.raw_induct [where P = "\<lambda>cf cb w p rv v e r. en_keeps rs e \<longrightarrow> en_keeps rs (snd (snd r))", rotated])
    (auto simp: Let_def en_keeps_writes split: if_splits prod.splits)

lemma memory_control_same:
  assumes "process_memory_control cf tx_size w stk rq rs = Some (code, w', rs')"
    "unat tx_size \<le> length (rs_data rs)" "unat tx_size \<le> 65519"
  shows "same_buffer rs rs'"
proof -
  have init: "en_keeps rs (en_init rs tx_size)" using assms(2,3) by (rule en_keeps_init)
  then have same: "same_buffer rs (en_response (en_init rs tx_size))" by (simp add: en_keeps_def)
  have run: "same_buffer rs (en_response e)" if "en_keeps rs e" for e using that by (simp add: en_keeps_def)
  show ?thesis
    using assms(1) same init run
    by (auto simp: process_memory_control_def process_memory_read_def process_memory_write_def process_read_rpv_def
        process_write_rpv_def Let_def split: if_splits option.splits
        dest!: read_loop_keeps [where rs = rs] write_loop_keeps [where rs = rs] read_rpv_loop_keeps [where rs = rs]
          write_rpv_loop_keeps [where rs = rs])
qed

subsection \<open>The datalogging service\<close>

text \<open>Whatever the state of the ring, the reader copies no more bytes than it was asked for.\<close>

lemma ring_read_length:
  "RawEncoder.read_loop buf write_cursor buffer_end max_size output_cursor out rd = Some r \<Longrightarrow>
    length out \<le> unat output_cursor \<and> output_cursor \<le> max_size \<longrightarrow> length (fst r) \<le> unat max_size"
proof (erule RawEncoder.read_loop.raw_induct [where P = "\<lambda>buf write_cursor buffer_end max_size output_cursor out rd r.
    length out \<le> unat output_cursor \<and> output_cursor \<le> max_size \<longrightarrow> length (fst r) \<le> unat max_size", rotated])
  fix f buf rd out r and write_cursor buffer_end max_size output_cursor :: u32
  assume IH: "\<And>buf write_cursor buffer_end max_size output_cursor out rd r. f buf write_cursor buffer_end max_size output_cursor out rd = Some r \<Longrightarrow>
      length out \<le> unat output_cursor \<and> output_cursor \<le> max_size \<longrightarrow> length (fst r) \<le> unat max_size"
    and eq: "(if \<not> output_cursor < max_size then Some (out, rd)
     else
       let new_max = max_size - output_cursor;
           read = rr_read_cursor rd;
           right_hand_start_point = (if write_cursor > read then write_cursor else buffer_end);
           transfer_size = min (right_hand_start_point - read) new_max;
           out = out @ take (unat transfer_size) (drop (unat read) buf);
           read = read + transfer_size;
           output_cursor = output_cursor + transfer_size;
           read = (if read > write_cursor \<and> read \<ge> buffer_end then read - buffer_end else read);
           rd = rd\<lparr>rr_read_cursor := read, rr_read_started := True\<rparr>
       in if read = write_cursor then Some (out, rd\<lparr>rr_finished := True\<rparr>)
          else f buf write_cursor buffer_end max_size output_cursor out rd) = Some r"
  show "length out \<le> unat output_cursor \<and> output_cursor \<le> max_size \<longrightarrow> length (fst r) \<le> unat max_size"
  proof
    assume out: "length out \<le> unat output_cursor \<and> output_cursor \<le> max_size"
    define n where "n = min ((if write_cursor > rr_read_cursor rd then write_cursor else buffer_end) - rr_read_cursor rd) (max_size - output_cursor)"
    have "n \<le> max_size - output_cursor" by (simp add: n_def)
    moreover have "unat (max_size - output_cursor) = unat max_size - unat output_cursor"
      using out by (intro unat_sub) simp
    ultimately have sum: "unat output_cursor + unat n \<le> unat max_size" using out by (auto simp: word_le_nat_alt)
    have "unat (output_cursor + n) = unat output_cursor + unat n"
    proof (rule unat_add_lem [THEN iffD1])
      show "unat output_cursor + unat n < 2 ^ LENGTH(32)" using le_less_trans [OF sum unat_u32_lt] by simp
    qed
    with sum out have next': "length (out @ take (unat n) (drop (unat (rr_read_cursor rd)) buf)) \<le> unat (output_cursor + n)"
      "output_cursor + n \<le> max_size" "length (out @ take (unat n) (drop (unat (rr_read_cursor rd)) buf)) \<le> unat max_size"
      by (auto simp: word_le_nat_alt)
    from eq show "length (fst r) \<le> unat max_size"
      using IH next' out unfolding Let_def n_def [symmetric] by (auto simp: word_le_nat_alt split: if_splits)
  qed
qed

lemma read_dilate_length: "read_dilate_8bits max_size e = Some (bs, e') \<Longrightarrow> length bs \<le> unat max_size"
  by (auto simp: read_dilate_8bits_def Let_def dest!: ring_read_length split: if_splits)

lemma read_acquisition_same:
  assumes "encode_response_datalogging_read_acquisition ra rs = Some (code, finished, ra', rs')" "rs_ready rs"
  shows "same_buffer rs rs'"
proof -
  let ?M = "unat (rs_data_max_length rs)"
  have M: "32 \<le> ?M" "?M \<le> length (rs_data rs)" "?M < 65536" using assms(2) by (simp_all add: rs_ready_def)
  define k :: u32 where "k = ucast (rs_data_max_length rs) - 4"
  have k: "unat k = ?M - 4" using M unfolding k_def by (subst unat_sub) (simp_all add: word_le_nat_alt)
  show ?thesis
  proof (cases "too_long 16 rs")
    case True
    with assms(1) show ?thesis by (simp add: encode_response_datalogging_read_acquisition_def)
  next
    case False
    then obtain bs e where read: "read_dilate_8bits k (ra_encoder ra) = Some (bs, e)"
      using assms(1) by (auto simp: encode_response_datalogging_read_acquisition_def Let_def k_def split: option.splits)
    have n: "length bs + 4 \<le> ?M" using read_dilate_length [OF read] k M by linarith
    have "of_nat (length bs) + 4 = (of_nat (length bs + 4) :: u32)" by simp
    moreover have "unat (of_nat (length bs + 4) :: u32) = length bs + 4" by (rule unat_of_nat_u32) (use n M in linarith)
    ultimately have "unat (of_nat (length bs) + 4 :: u32) = length bs + 4" by (simp only:)
    moreover have "length bs + 4 < 2 ^ 16" using le_less_trans [OF n M(3)] by simp
    ultimately have len: "unat (ucast (of_nat (length bs) + 4 :: u32) :: u16) = length bs + 4"
      by (simp add: unsigned_ucast_eq take_bit_nat_eq_self)
    show ?thesis
      using assms(1) False read [unfolded k_def] n M len
      by (auto simp: encode_response_datalogging_read_acquisition_def Let_def be16.length_enc be32.length_enc encode_8_bits_8bits_def
          intro!: same_buffer_put split: if_splits)
  qed
qed

lemma datalog_flat_same:
  assumes "rs_ready rs"
  shows "same_buffer rs (snd (encode_response_datalogging_get_setup a rs))"
    "same_buffer rs (snd (encode_response_datalogging_status b rs))"
    "same_buffer rs (snd (encode_response_datalogging_get_acquisition_metadata c rs))"
  using assms
  by (simp_all add: same_buffer_def rs_ready_def encode_response_datalogging_get_setup_def encode_response_datalogging_status_def
      encode_response_datalogging_get_acquisition_metadata_def Let_def rs_put_data field_lengths encode_8_bits_8bits_def)

lemma datalog_control_same:
  assumes "process_datalog_control cf loops rq d rs = Some (code, d', rs')" "rs_ready rs"
  shows "same_buffer rs rs'"
  using assms(1) datalog_flat_same [OF assms(2)] read_acquisition_same [OF _ assms(2)]
  by (auto simp: process_datalog_control_def datalog_get_status_def datalog_get_acquisition_metadata_def
      datalog_read_acquisition_def Let_def case_prod_beta split: if_splits option.splits)

subsection \<open>All services\<close>

text \<open>A user command stays in the buffer that it is given.\<close>

definition command_in_buffer :: "'u config \<Rightarrow> bool" where
  "command_in_buffer cf =
    (case cf_user_command_callback cf of None \<Rightarrow> True
     | Some cb \<Rightarrow> \<forall>sub data buf len max_len w. length (fst (cb sub data buf len max_len w)) = length buf)"

lemma user_command_same:
  assumes "process_user_command cf tx_size w rq rs = (code, w', rs')" "command_in_buffer cf"
  shows "same_buffer rs rs'"
proof (cases "cf_user_command_callback cf")
  case None
  with assms(1) show ?thesis by (simp add: process_user_command_def)
next
  case (Some cb)
  let ?r = "cb (rq_subfunction_id rq) (take (unat (rq_data_length rq)) (rq_data rq)) (rs_data rs) 0 tx_size w"
  have "length (fst ?r) = length (rs_data rs)" using assms(2) Some by (simp add: command_in_buffer_def)
  with assms(1) Some show ?thesis
    by (auto simp: process_user_command_def same_buffer_def Let_def case_prod_beta split: if_splits)
qed

lemma comm_control_kept:
  assumes "process_comm_control cf software_id tb c dp rq rs = (code, c', dp', rs')" "comm_inv c"
  shows "comm_inv c'" "cm_active_response c' = cm_active_response c" "cm_tx_buffer_size c' = cm_tx_buffer_size c"
    "cm_state c \<noteq> Comm_Transmitting \<Longrightarrow> cm_state c' \<noteq> Comm_Transmitting"
proof -
  have "c' = c \<or> (\<exists>ch. c' = snd (heartbeat tb ch c)) \<or> c' = snd (comm_connect tb c)"
    using assms(1) by (auto simp: process_comm_control_def comm_control_heartbeat_def comm_control_connect_def Let_def case_prod_beta
        split: if_splits)
  then consider "c' = c" | ch where "c' = snd (heartbeat tb ch c)" | "c' = snd (comm_connect tb c)" by blast
  then have "comm_inv c' \<and> cm_active_response c' = cm_active_response c \<and> cm_tx_buffer_size c' = cm_tx_buffer_size c
    \<and> (cm_state c \<noteq> Comm_Transmitting \<longrightarrow> cm_state c' \<noteq> Comm_Transmitting)"
  proof cases
    case 1
    with assms(2) show ?thesis by simp
  next
    case 2
    with comm_inv_heartbeat [OF assms(2)] show ?thesis by (simp add: heartbeat_def)
  next
    case 3
    with comm_inv_connect [OF assms(2)] show ?thesis by (simp add: comm_connect_def reset_rx_def Let_def)
  qed
  then show "comm_inv c'" "cm_active_response c' = cm_active_response c" "cm_tx_buffer_size c' = cm_tx_buffer_size c"
    "cm_state c \<noteq> Comm_Transmitting \<Longrightarrow> cm_state c' \<noteq> Comm_Transmitting" by simp_all
qed

section \<open>The invariant of the main handler\<close>

text \<open>While a response is being sent, the request that it answers is still being processed.\<close>

definition main_inv :: "'u main_handler \<Rightarrow> bool" where
  "main_inv h =
    (let c = mh_comm h
     in comm_inv c \<and> rs_data_max_length (cm_active_response c) = cm_tx_buffer_size c
       \<and> (cm_state c = Comm_Transmitting \<longrightarrow> mh_processing_request h) \<and> command_in_buffer (mh_config h))"

lemma inv_ready:
  "comm_inv c \<Longrightarrow> rs_data_max_length (cm_active_response c) = cm_tx_buffer_size c \<Longrightarrow> rs_ready (cm_active_response c)"
  "comm_inv c \<Longrightarrow> unat (cm_tx_buffer_size c) = length (rs_data (cm_active_response c))"
  "comm_inv c \<Longrightarrow> unat (cm_tx_buffer_size c) \<le> 65519"
  by (simp_all add: comm_inv_def tx_inv_def rs_ready_def Let_def word_le_nat_alt)

lemma process_request_same:
  assumes run: "process_request sid stk rq rs h loops w = Some (h', w', rs')"
    and rs: "rs_ready rs" "rs_data_max_length rs = cm_tx_buffer_size (mh_comm h)" "unat (cm_tx_buffer_size (mh_comm h)) \<le> 65519"
      "length sid = 16" "command_in_buffer (mh_config h)" "comm_inv (mh_comm h)"
  shows "same_buffer rs rs' \<and> comm_inv (mh_comm h') \<and> cm_active_response (mh_comm h') = cm_active_response (mh_comm h)
    \<and> cm_tx_buffer_size (mh_comm h') = cm_tx_buffer_size (mh_comm h)
    \<and> (cm_state (mh_comm h) \<noteq> Comm_Transmitting \<longrightarrow> cm_state (mh_comm h') \<noteq> Comm_Transmitting)
    \<and> mh_config h' = mh_config h \<and> mh_processing_request h' = mh_processing_request h"
proof -
  define r where "r = (rs_reset rs)\<lparr>rs_command_id := rq_command_id rq, rs_subfunction_id := rq_subfunction_id rq\<rparr>"
  have r: "rs_ready r" "rs_data_length r = 0" "rs_data_max_length r = cm_tx_buffer_size (mh_comm h)"
    "unat (cm_tx_buffer_size (mh_comm h)) \<le> length (rs_data r)"
    using rs by (simp_all add: r_def rs_ready_def)
  note info = info_in_bounds [OF r(1,2) r(3) [symmetric] rs(4)]
  have info': "same_buffer r (snd (process_get_info (mh_config h) (cm_tx_buffer_size (mh_comm h)) loops sid g rq r))" for g
    by (rule in_bounds_same) (use info in blast)
  have comm': "same_buffer r (snd (snd (snd (process_comm_control (mh_config h) sid tb c dp rq r))))" for tb c dp
    using info by (force dest!: in_bounds_same simp: case_prod_beta)
  have response: "same_buffer rs x = same_buffer r x" for x by (simp add: r_def same_buffer_def)
  define concluded where "concluded code x = (if code \<noteq> RC_OK then (x\<lparr>rs_response_code := response_code_byte code\<rparr>)\<lparr>rs_data_length := 0\<rparr>
      else x\<lparr>rs_response_code := response_code_byte code\<rparr>)" for code and x :: response
  have concluded: "same_buffer rs (concluded code x) = same_buffer r x" for code x
    by (simp add: concluded_def response)
  note run' = run [unfolded process_request_def Let_def, folded r_def concluded_def]
  consider "rq_command_id rq = CommandId_GetInfo" | "rq_command_id rq = CommandId_CommControl"
    | "rq_command_id rq = CommandId_MemoryControl" | "rq_command_id rq = CommandId_DataLogControl"
    | "rq_command_id rq = CommandId_UserCommand"
    | "rq_command_id rq \<notin> {CommandId_GetInfo, CommandId_CommControl, CommandId_MemoryControl, CommandId_DataLogControl, CommandId_UserCommand}"
    by auto
  then show ?thesis
  proof cases
    case 1
    obtain code x where gi: "process_get_info (mh_config h) (cm_tx_buffer_size (mh_comm h)) loops sid (ms_loop_id stk) rq r = (code, x)"
      by (metis prod.exhaust)
    have "h' = h \<and> rs' = concluded code x" using 1 run' gi by simp
    with info' [of "ms_loop_id stk"] gi concluded rs(6) show ?thesis by simp
  next
    case 2
    obtain code c dp x where cc: "process_comm_control (mh_config h) sid (mh_timebase h) (mh_comm h) (mh_disconnect_pending h) rq r
        = (code, c, dp, x)" by (metis prod_cases4)
    have "same_buffer r x" using comm' [of "mh_timebase h" "mh_comm h" "mh_disconnect_pending h"] cc by simp
    moreover have "h' = h\<lparr>mh_comm := c, mh_disconnect_pending := dp\<rparr> \<and> rs' = concluded code x" using 2 run' cc by simp
    ultimately show ?thesis using concluded comm_control_kept [OF cc rs(6)] by simp
  next
    case 3
    then obtain code w1 x where mc: "process_memory_control (mh_config h) (cm_tx_buffer_size (mh_comm h)) w (ms_memory stk) rq r
        = Some (code, w1, x)" using run' by (auto split: option.splits)
    have "h' = h \<and> rs' = concluded code x" using 3 run' mc by simp
    with memory_control_same [OF mc r(4) rs(3)] concluded rs(6) show ?thesis by simp
  next
    case 4
    then obtain code d x where dc: "process_datalog_control (mh_config h) loops rq (mh_datalogging h) r = Some (code, d, x)"
      using run' by (auto split: option.splits)
    have "h' = h\<lparr>mh_datalogging := d\<rparr> \<and> rs' = concluded code x" using 4 run' dc by simp
    with datalog_control_same [OF dc r(1)] concluded rs(6) show ?thesis by simp
  next
    case 5
    obtain code w1 x where uc: "process_user_command (mh_config h) (cm_tx_buffer_size (mh_comm h)) w rq r = (code, w1, x)"
      by (metis prod_cases3)
    have "h' = h \<and> rs' = concluded code x" using 5 run' uc by simp
    with user_command_same [OF uc rs(5)] concluded rs(6) show ?thesis by simp
  next
    case 6
    then have "h' = h \<and> rs' = concluded RC_UnsupportedFeature r" using run' by simp
    with concluded rs(6) show ?thesis by simp
  qed
qed

lemma conclude_request_inv:
  assumes "comm_inv (mh_comm h)" "cm_state (mh_comm h) \<noteq> Comm_Transmitting" "same_buffer (cm_active_response (mh_comm h)) rs"
    "rs_data_max_length (cm_active_response (mh_comm h)) = cm_tx_buffer_size (mh_comm h)" "command_in_buffer (mh_config h)"
  shows "main_inv (conclude_request rs h)"
proof -
  have stored: "comm_inv (c\<lparr>cm_active_response := x\<rparr>)" if "comm_inv c" "cm_state c \<noteq> Comm_Transmitting"
    "same_buffer (cm_active_response c) x" for c x
    using that by (simp add: comm_inv_def comm_simps tx_inv_def same_buffer_def Let_def)
  have sent: "comm_inv (snd (send_response x (c\<lparr>cm_active_response := x\<rparr>)))
      \<and> rs_data_max_length (cm_active_response (snd (send_response x (c\<lparr>cm_active_response := x\<rparr>))))
        = cm_tx_buffer_size (snd (send_response x (c\<lparr>cm_active_response := x\<rparr>)))"
    if "comm_inv c" "cm_state c \<noteq> Comm_Transmitting" "same_buffer (cm_active_response c) x"
      "rs_data_max_length (cm_active_response c) = cm_tx_buffer_size c" for c x
  proof
    have len: "length (rs_data x) = unat (cm_tx_buffer_size c)"
      using that(1,3) inv_ready(2) [of c] by (simp add: same_buffer_def)
    show "comm_inv (snd (send_response x (c\<lparr>cm_active_response := x\<rparr>)))"
      by (rule comm_inv_send_response [OF stored [OF that(1-3)]]) (simp add: len)
    show "rs_data_max_length (cm_active_response (snd (send_response x (c\<lparr>cm_active_response := x\<rparr>))))
        = cm_tx_buffer_size (snd (send_response x (c\<lparr>cm_active_response := x\<rparr>)))"
      using that(3,4) by (simp add: send_response_def add_crc_def reset_tx_def same_buffer_def Let_def)
  qed
  define rs2 where "rs2 = rs\<lparr>rs_response_code := response_code_byte RC_FailureToProceed\<rparr>"
  have rs2: "same_buffer (cm_active_response (mh_comm h)) rs2" using assms(3) by (simp add: rs2_def same_buffer_def)
  show ?thesis
    using stored [OF assms(1-3)] sent [OF assms(1-4)] sent [OF assms(1,2) rs2 assms(4)] assms
    unfolding conclude_request_def Let_def rs2_def [symmetric]
    by (simp add: main_inv_def on_comm_def same_buffer_def Let_def)
qed

section \<open>Every operation keeps it\<close>

lemma main_inv_datalogging [simp]: "main_inv (h\<lparr>mh_datalogging := d\<rparr>) = main_inv h"
  by (simp add: main_inv_def)

lemma main_inv_loops: "main_inv h \<Longrightarrow> main_inv (fst (mh_loops h loops))"
  using mh_loops_frame [of h loops] by auto

lemma main_inv_comm:
  assumes "main_inv h" "comm_inv c" "cm_state c = Comm_Transmitting \<longrightarrow> cm_state (mh_comm h) = Comm_Transmitting"
    "rs_data_max_length (cm_active_response c) = rs_data_max_length (cm_active_response (mh_comm h))"
    "cm_tx_buffer_size c = cm_tx_buffer_size (mh_comm h)"
  shows "main_inv (h\<lparr>mh_comm := c\<rparr>)"
  using assms by (simp add: main_inv_def Let_def)

lemmas comm_ops = comm_reset_def reset_rx_def reset_tx_def wait_next_request_def comm_disconnect_def

lemma main_inv_receive: "mh_receive_data data h = Some h' \<Longrightarrow> length data < 65536 \<Longrightarrow> main_inv h \<Longrightarrow> main_inv h'"
proof -
  assume run: "mh_receive_data data h = Some h'" and len: "length data < 65536" and inv: "main_inv h"
  from run obtain c where c: "receive_data (mh_timebase h) data (mh_comm h) = Some c" "h' = h\<lparr>mh_comm := c\<rparr>"
    by (auto simp: mh_receive_data_def)
  have "comm_inv c" using receive_data_inv [of "mh_comm h" data "mh_timebase h"] c(1) inv len by (auto simp: main_inv_def Let_def)
  with receive_data_link [OF c(1)] inv show ?thesis unfolding c(2) by (intro main_inv_comm) (auto simp: link_def)
qed

lemma main_inv_finished: "main_inv h \<Longrightarrow> main_inv (check_finished_sending h)"
proof (cases "mh_processing_request h \<and> cm_state (mh_comm h) \<noteq> Comm_Transmitting")
  case True
  let ?c = "wait_next_request (mh_timebase h) (mh_comm h)"
  assume inv: "main_inv h"
  have c: "comm_inv ?c" using inv comm_inv_reset_rx by (simp add: main_inv_def Let_def wait_next_request_def)
  with inv True comm_inv_disconnect [OF c, of "mh_timebase h"] show ?thesis
    by (simp add: check_finished_sending_def on_comm_def main_inv_def Let_def) (simp add: comm_ops Let_def)
qed (auto simp: check_finished_sending_def)

lemma pop_frame_fields:
  "cm_state (snd (pop_data tb len c)) = Comm_Transmitting \<Longrightarrow> cm_state c = Comm_Transmitting"
  by (cases "cm_state c = Comm_Transmitting") (simp_all add: pop_data_def)

lemma main_inv_pop: "main_inv h \<Longrightarrow> main_inv (snd (mh_pop_data len h))"
proof -
  assume inv: "main_inv h"
  let ?c = "snd (pop_data (mh_timebase h) len (mh_comm h))"
  have tx: "tx_inv (mh_comm h)" "comm_inv (mh_comm h)" using inv by (simp_all add: main_inv_def comm_inv_def Let_def)
  have same: "rs_data_max_length (cm_active_response ?c) = rs_data_max_length (cm_active_response (mh_comm h))
      \<and> cm_tx_buffer_size ?c = cm_tx_buffer_size (mh_comm h)"
  proof (cases "cm_state (mh_comm h) = Comm_Transmitting")
    case True
    show ?thesis unfolding pop_data_spec(1) [OF tx(1) True] by (simp add: comm_ops Let_def)
  qed (simp add: pop_data_def)
  have "main_inv (h\<lparr>mh_comm := ?c\<rparr>)"
    using inv comm_inv_pop_data [OF tx(2)] pop_frame_fields [of "mh_timebase h" len "mh_comm h"] same by (intro main_inv_comm) auto
  then show ?thesis using main_inv_finished by (simp add: mh_pop_data_def case_prod_beta)
qed

lemma main_inv_handle:
  assumes "handle_request sid stk h loops w = Some (h', w')" "main_inv h" "length sid = 16"
  shows "main_inv h'"
proof (cases "cm_request_received (mh_comm h) \<and> \<not> mh_processing_request h")
  case False
  with assms(1,2) show ?thesis by (auto simp: handle_request_def)
next
  case True
  let ?h = "on_comm prepare_response h"
  have idle: "cm_state (mh_comm h) \<noteq> Comm_Transmitting" using True assms(2) by (auto simp: main_inv_def Let_def)
  have c: "comm_inv (mh_comm ?h)" "rs_data_max_length (cm_active_response (mh_comm ?h)) = cm_tx_buffer_size (mh_comm ?h)"
    "cm_state (mh_comm ?h) \<noteq> Comm_Transmitting" "command_in_buffer (mh_config ?h)"
    using assms(2) idle comm_inv_prepare [of "mh_comm h"] by (simp_all add: on_comm_def main_inv_def Let_def) (simp_all add: prepare_response_def)
  from assms(1) True obtain h1 rs where
    run: "process_request sid stk (cm_active_request (mh_comm ?h)) (cm_active_response (mh_comm ?h)) ?h loops w = Some (h1, w', rs)"
    and h': "h' = conclude_request rs h1"
    by (auto simp: handle_request_def Let_def split: option.splits)
  from process_request_same [OF run inv_ready(1) [OF c(1,2)] c(2) inv_ready(3) [OF c(1)] assms(3) c(4,1)] c
  show ?thesis unfolding h' by (intro conclude_request_inv) simp_all
qed

lemma main_inv_process:
  assumes "mh_process sid stk t h loops w = Some (h', loops', w')" "main_inv h" "length sid = 16"
  shows "main_inv h'"
proof (cases "mh_enabled h")
  case False
  have "main_inv (on_comm (comm_reset (mh_timebase h)) (h\<lparr>mh_processing_request := False, mh_disconnect_pending := False\<rparr>))"
    using assms(2) comm_inv_reset by (simp add: main_inv_def on_comm_def Let_def) (simp add: comm_ops Let_def)
  with assms(1) False show ?thesis by (auto simp: mh_process_def Let_def)
next
  case True
  let ?h = "h\<lparr>mh_timebase := tb_step t (mh_timebase h)\<rparr>"
  let ?h1 = "on_comm (comm_process (mh_timebase ?h)) ?h"
  have "main_inv ?h1"
    using assms(2) comm_inv_process by (simp add: main_inv_def on_comm_def Let_def) (simp add: comm_process_def comm_ops Let_def)
  then have h2: "main_inv (fst (mh_loops ?h1 loops))" by (rule main_inv_loops)
  obtain h2 l2 where l2: "mh_loops ?h1 loops = (h2, l2)" by force
  with assms(1) True obtain h3 w3 where h3: "handle_request sid stk h2 l2 w = Some (h3, w3)"
    "h' = fst (mh_loops (check_finished_sending h3) l2)"
    by (auto simp: mh_process_def Let_def split: option.splits prod.splits)
  have "main_inv h3" using main_inv_handle [OF h3(1) _ assms(3)] h2 l2 by simp
  then show ?thesis unfolding h3(2) by (intro main_inv_loops main_inv_finished)
qed

section \<open>Initialisation\<close>

text \<open>The buffers of a configuration have the sizes that it says, and its user command stays in its buffer.\<close>

definition config_sound :: "'u config \<Rightarrow> bool" where
  "config_sound cf =
    (length (buffer_of (cf_rx_buffer cf)) = unat (cf_rx_buffer_size cf)
     \<and> length (buffer_of (cf_tx_buffer cf)) = unat (cf_tx_buffer_size cf) \<and> command_in_buffer cf)"

lemma check_config_frame: "snd (check_config h) = h\<lparr>mh_enabled := mh_enabled (snd (check_config h))\<rparr>"
proof -
  have loop: "fold (\<lambda>r h. if \<not> is_supported_type (rpv_type r) then h\<lparr>mh_enabled := False\<rparr> else h) rs (h\<lparr>mh_enabled := b\<rparr>)
      = h\<lparr>mh_enabled := b \<and> (\<forall>r\<in>set rs. is_supported_type (rpv_type r))\<rparr>" for rs b and h :: "'a main_handler"
    by (induction rs arbitrary: b) auto
  show ?thesis by (simp add: check_config_def Let_def loop)
qed

lemma comm_init_enabled:
  "cm_enabled (comm_init rx rx_size tx tx_size tb seed c) \<Longrightarrow> MINIMUM_RX_BUFFER_SIZE \<le> rx_size \<and> rx_size \<le> MAXIMUM_RX_BUFFER_SIZE
    \<and> MINIMUM_TX_BUFFER_SIZE \<le> tx_size \<and> tx_size \<le> MAXIMUM_TX_BUFFER_SIZE"
  by (simp add: comm_init_def comm_ops Let_def not_less split: if_splits)

lemma main_inv_init:
  assumes "mh_init config h loops = (True, h', loops')" "config_sound config"
  shows "main_inv h'"
proof -
  let ?c = "comm_init (buffer_of (cf_rx_buffer config)) (cf_rx_buffer_size config) (buffer_of (cf_tx_buffer config))
    (cf_tx_buffer_size config) (mh_timebase h) (cf_session_counter_seed config) (mh_comm h)"
  let ?h = "h\<lparr>mh_processing_request := False, mh_disconnect_pending := False, mh_process_again_timestamp_taken := False,
    mh_config := config, mh_comm := ?c\<rparr>"
  obtain e where check: "snd (check_config ?h) = ?h\<lparr>mh_enabled := e\<rparr>" using check_config_frame by blast
  have h': "cm_enabled ?c" "mh_comm h' = ?c" "mh_config h' = config"
    using assms(1) check by (auto simp: mh_init_def Let_def case_prod_beta split: if_splits)
  have "comm_inv ?c"
    using comm_init_enabled [OF h'(1)] assms(2) by (intro comm_inv_init) (simp_all add: config_sound_def)
  moreover have "rs_data_max_length (cm_active_response ?c) = cm_tx_buffer_size ?c" "cm_state ?c \<noteq> Comm_Transmitting"
    by (simp_all add: comm_init_def comm_ops Let_def)
  ultimately show ?thesis using h' assms(2) by (simp add: main_inv_def config_sound_def Let_def)
qed

section \<open>The state machine\<close>

text \<open>
  The public operations of the main handler that change it, in any order: bytes received, a call of
  \<open>process\<close> with whatever its stack held, bytes popped, another initialisation, a change of the
  configuration through \<open>get_config\<close>. In between, the other tasks do what they like to the loops, to the
  memory and to the datalogger. Nothing is asked of the state in which an operation is called. The pointer
  that \<open>comm()\<close> returns is not used: neither the library nor the applications call it.
\<close>

type_synonym 'u system = "'u main_handler \<times> loops \<times> 'u world"

inductive main_step :: "u8 list \<Rightarrow> 'u system \<Rightarrow> 'u system \<Rightarrow> bool" for sid where
  receive: "mh_receive_data data h = Some h' \<Longrightarrow> length data < 65536 \<Longrightarrow> main_step sid (h, loops, w) (h', loops, w)"
| process: "mh_process sid stk timestep h loops w = Some (h', loops', w') \<Longrightarrow> main_step sid (h, loops, w) (h', loops', w')"
| pop: "main_step sid (h, loops, w) (snd (mh_pop_data len h), loops, w)"
| init_again: "mh_init config h loops = (True, h', loops') \<Longrightarrow> config_sound config \<Longrightarrow> main_step sid (h, loops, w) (h', loops', w)"
| reconfigure: "command_in_buffer config \<Longrightarrow> main_step sid (h, loops, w) (h\<lparr>mh_config := config\<rparr>, loops, w)"
| other_tasks: "main_step sid (h, loops, w) (h\<lparr>mh_datalogging := d\<rparr>, loops', w')"

inductive main_reach :: "u8 list \<Rightarrow> 'u system \<Rightarrow> bool" for sid where
  start: "mh_init config h0 loops0 = (True, h, loops) \<Longrightarrow> config_sound config \<Longrightarrow> main_reach sid (h, loops, w)"
| next_step: "main_reach sid s \<Longrightarrow> main_step sid s s' \<Longrightarrow> main_reach sid s'"

lemma main_step_inv: "main_step sid s s' \<Longrightarrow> length sid = 16 \<Longrightarrow> main_inv (fst s) \<Longrightarrow> main_inv (fst s')"
proof (induction rule: main_step.induct)
  case (reconfigure config h loops w)
  then show ?case by (simp add: main_inv_def Let_def)
qed (auto intro: main_inv_receive main_inv_process main_inv_pop main_inv_init)

text \<open>
  C7: whatever the application does with the main handler, in whatever order, and whatever bytes come in,
  the communication handler keeps its invariant: the payload received and the payload sent stay inside
  their buffers, which keep their size, the reception counters stay in range, a transmission never sends
  past its frame, and a frame that is being sent is the whole one that was announced. A response is being
  sent only while its request is being processed, so \<open>process\<close> never prepares another one meanwhile, the
  one call that would break the invariant (\<open>prepare_breaks_transmission\<close>). The conditions are those of the
  steps: the run starts with a successful initialisation and those that follow succeed too, with buffers of
  the sizes that the configuration says; the firmware identifier has its 16 bytes, and a user command
  keeps to the buffer that it is given.
\<close>

theorem main_reachable_inv:
  assumes "main_reach sid (h, loops, w)" "length sid = 16"
  shows "comm_inv (mh_comm h) \<and> (cm_state (mh_comm h) = Comm_Transmitting \<longrightarrow> mh_processing_request h)"
proof -
  have "main_inv (fst s)" if "main_reach sid s" for s :: "'a system"
    using that by induction (auto intro: main_inv_init main_step_inv [OF _ assms(2)])
  from this [OF assms(1)] show ?thesis by (simp add: main_inv_def Let_def)
qed

text \<open>A target that was never initialised, initialised, given a byte of a request, and asked for bytes.\<close>

definition demo_buffers :: "unit config" where
  "demo_buffers = demo_target\<lparr>cf_rx_buffer := Some (replicate 32 0), cf_rx_buffer_size := 32,
     cf_tx_buffer := Some (replicate 32 0), cf_tx_buffer_size := 32\<rparr>"

lemma demo_buffers_sound: "config_sound demo_buffers"
  by (simp add: config_sound_def demo_buffers_def demo_target_def config_clear_def buffer_of_def command_in_buffer_def)

lemma demo_init: "\<exists>h loops. mh_init demo_buffers demo_main demo_loops = (True, h, loops)"
proof -
  have comm: "cm_enabled (comm_init (buffer_of (cf_rx_buffer demo_buffers)) (cf_rx_buffer_size demo_buffers)
      (buffer_of (cf_tx_buffer demo_buffers)) (cf_tx_buffer_size demo_buffers) tb seed c)" for tb seed c
    by (simp add: demo_buffers_def comm_init_def comm_ops Let_def)
  have types: "is_supported_type VT_uint16" "is_supported_type VT_uint8" by code_simp+
  have check: "fst (check_config h)" "mh_comm (snd (check_config h)) = mh_comm h" if "mh_config h = demo_buffers"
    for h :: "unit main_handler"
    using that by (simp_all add: check_config_def demo_buffers_def demo_target_def Let_def types)
  show ?thesis using check comm by (simp add: mh_init_def case_prod_beta Let_def)
qed

theorem main_reachable_inv_witness:
  "\<exists>h0 loops h. mh_init demo_buffers demo_main demo_loops = (True, h0, loops)
    \<and> mh_receive_data [CommandId_MemoryControl] h0 = Some h \<and> comm_inv (mh_comm (snd (mh_pop_data 8 h)))"
proof -
  obtain h0 loops where init: "mh_init demo_buffers demo_main demo_loops = (True, h0, loops)" using demo_init by blast
  have "comm_inv (mh_comm h0)" using main_inv_init [OF init demo_buffers_sound] by (simp add: main_inv_def Let_def)
  then obtain h where rec: "mh_receive_data [CommandId_MemoryControl] h0 = Some h"
    using receive_data_inv [of "mh_comm h0" "[CommandId_MemoryControl]" "mh_timebase h0"] by (auto simp: mh_receive_data_def)
  have "main_reach demo_software_id (h0, loops, demo_world)" by (rule start [OF init demo_buffers_sound])
  then have "main_reach demo_software_id (h, loops, demo_world)" using receive [OF rec] by (auto intro: next_step)
  then have "main_reach demo_software_id (snd (mh_pop_data 8 h), loops, demo_world)" using pop by (rule next_step)
  from main_reachable_inv [OF this] init rec show ?thesis by (auto simp: demo_software_id_def)
qed

end
