(* ===== verification/DatalogRun.thy ===== *)
theory DatalogRun
  imports DataLogger AcquisitionRing
begin

text \<open>
  The datalogger as a state machine: its reachable states, the invariant that the sizes of the
  configuration, of the ring and of the counters agree, and what it gives: a triggered acquisition
  always ends, and a trigger fires when its condition has held long enough.
\<close>

section \<open>Reachable states\<close>

text \<open>
  The main handler writes a new configuration only into a datalogger that it owns and then calls
  \<open>configure\<close>, or resets it. The buffer leaves room for an entry below 4 GiB.
\<close>

inductive dl_reachable :: "'u config \<Rightarrow> 'u datalogger \<Rightarrow> bool" for cf :: "'u config" where
  reach_init: "length buf = unat size' \<Longrightarrow> size' \<le> 0xFFFF0000 \<Longrightarrow> dl_reachable cf (dl_init cf (Some buf) size' callback dl)"
| reach_configure: "dl_reachable cf dl \<Longrightarrow> dl_reachable cf (dl_configure cf (Some l) config_id (dl\<lparr>dl_config := dc\<rparr>))"
| reach_reset: "dl_reachable cf dl \<Longrightarrow> dl_reachable cf (dl_reset (dl\<lparr>dl_config := dc\<rparr>))"
| reach_owner: "dl_reachable cf dl \<Longrightarrow> dl_reachable cf (set_owner owner dl)"
| reach_arm: "dl_reachable cf dl \<Longrightarrow> dl_reachable cf (arm_trigger dl)"
| reach_disarm: "dl_reachable cf dl \<Longrightarrow> dl_reachable cf (disarm_trigger dl)"
| reach_force: "dl_reachable cf dl \<Longrightarrow> dl_reachable cf (force_trigger dl)"
| reach_process: "dl_reachable cf dl \<Longrightarrow> dl_reachable cf (fst (dl_process cf timebases junk dl w))"

definition dl_active :: "dl_state \<Rightarrow> bool" where
  "dl_active s = (s = DL_Configured \<or> s = DL_Armed \<or> s = DL_Triggered \<or> s = DL_AcquisitionCompleted)"

definition dl_ring :: "'u config \<Rightarrow> 'u datalogger \<Rightarrow> bool" where
  "dl_ring cf dl =
    ((\<exists>hist. ring_holds (dl_encoder dl) hist)
     \<and> (\<forall>junk caller now w. length (fst (entry_bytes cf junk caller now (dc_items (dl_config dl)) w))
          = unat (re_entry_size (dl_encoder dl)))
     \<and> dl_decimation_counter dl < dc_decimation (dl_config dl))"

definition dl_acquiring :: "'u datalogger \<Rightarrow> bool" where
  "dl_acquiring dl = (dl_state dl = DL_Triggered \<longrightarrow>
     dl_remaining_data_to_write dl \<le> dl_buffer_size dl
     \<and> unat (re_entry_write_counter (dl_encoder dl)) * unat (re_entry_size (dl_encoder dl))
         < unat (dl_remaining_data_to_write dl))"

definition dl_inv :: "'u config \<Rightarrow> 'u datalogger \<Rightarrow> bool" where
  "dl_inv cf dl =
    ((\<exists>buf. re_buffer (dl_encoder dl) = Some buf \<and> length buf = unat (dl_buffer_size dl))
     \<and> re_buffer_size (dl_encoder dl) = dl_buffer_size dl \<and> dl_buffer_size dl \<le> 0xFFFF0000
     \<and> (dl_active (dl_state dl) \<longrightarrow> configure_checks cf (dl_active_condition dl) (dl_config dl)
          \<and> dl_timebase dl \<noteq> None)
     \<and> (dl_state dl = DL_Triggered \<longrightarrow> \<not> re_error (dl_encoder dl))
     \<and> (dl_active (dl_state dl) \<longrightarrow> \<not> re_error (dl_encoder dl) \<longrightarrow> dl_ring cf dl \<and> dl_acquiring dl))"

lemma re_reset_fields:
  "re_buffer (re_reset cf dc e) = re_buffer e" "re_buffer_size (re_reset cf dc e) = re_buffer_size e"
  by (simp_all add: re_reset_def reset_write_counter_def reader_reset_def Let_def case_prod_beta)

lemma write_counter_ring [simp]:
  "ring_holds (e\<lparr>re_entry_write_counter := n\<rparr>) = ring_holds e"
  by (rule ext) (simp add: ring_holds_def ring_ok_def)

lemma inv_init: "length buf = unat size' \<Longrightarrow> size' \<le> 0xFFFF0000 \<Longrightarrow> dl_inv cf (dl_init cf (Some buf) size' callback dl)"
  by (simp add: dl_inv_def dl_init_def dl_reset_def re_init_def re_reset_fields dl_active_def)

lemma inv_reset: "dl_inv cf dl \<Longrightarrow> dl_inv cf (dl_reset (dl\<lparr>dl_config := dc\<rparr>))"
proof -
  assume inv: "dl_inv cf dl"
  then obtain buf where "re_buffer (dl_encoder dl) = Some buf" "length buf = unat (dl_buffer_size dl)"
    unfolding dl_inv_def by blast
  moreover from inv have "re_buffer_size (dl_encoder dl) = dl_buffer_size dl" "dl_buffer_size dl \<le> 0xFFFF0000"
    unfolding dl_inv_def by blast+
  ultimately show ?thesis by (simp add: dl_inv_def dl_reset_def dl_active_def)
qed

lemma inv_configure:
  assumes "dl_inv cf dl" "rpvs_supported cf"
  shows "dl_inv cf (dl_configure cf (Some l) config_id (dl\<lparr>dl_config := dc\<rparr>))"
proof -
  obtain buf where buf: "re_buffer (dl_encoder dl) = Some buf" "length buf = unat (dl_buffer_size dl)"
    "re_buffer_size (dl_encoder dl) = dl_buffer_size dl" "dl_buffer_size dl \<le> 0xFFFF0000"
    using assms(1) unfolding dl_inv_def by blast
  let ?e = "set_timebase (Some l) (dl_encoder dl)"
  have e: "re_buffer ?e = Some buf" "length buf = unat (re_buffer_size ?e)"
    using buf by (simp_all add: set_timebase_def)
  have log: "(\<exists>hist. ring_holds (re_reset cf dc ?e) hist) \<and>
      (\<forall>junk caller now w. length (fst (entry_bytes cf junk caller now (dc_items dc) w))
          = unat (re_entry_size (re_reset cf dc ?e)))" if "\<not> re_error (re_reset cf dc ?e)"
    using re_reset_ring(1,2) [OF e that assms(2)] by blast
  have dec: "0 < dc_decimation dc" if "configure_checks cf active dc" for active
    using that by (simp add: configure_checks_def Let_def word_neq_0_conv)
  show ?thesis
    using buf log dec
    by (auto simp: dl_inv_def dl_configure_def dl_reset_def re_reset_fields set_timebase_def dl_active_def
        dl_ring_def dl_acquiring_def Let_def)
qed

section \<open>One call of process\<close>

text \<open>What \<open>process_acquisition\<close> and \<open>check_trigger\<close> leave alone.\<close>

lemma encode_buffer_size [simp]:
  "re_buffer_size (fst (encode_next_entry cf dc timebases junk caller e w)) = re_buffer_size e"
  by (simp add: encode_next_entry_def Let_def case_prod_beta)

lemma process_acquisition_frame [simp]:
  "dl_state (fst (process_acquisition cf timebases junk dl w)) = dl_state dl"
  "dl_config (fst (process_acquisition cf timebases junk dl w)) = dl_config dl"
  "dl_buffer_size (fst (process_acquisition cf timebases junk dl w)) = dl_buffer_size dl"
  "dl_timebase (fst (process_acquisition cf timebases junk dl w)) = dl_timebase dl"
  "dl_active_condition (fst (process_acquisition cf timebases junk dl w)) = dl_active_condition dl"
  "dl_remaining_data_to_write (fst (process_acquisition cf timebases junk dl w)) = dl_remaining_data_to_write dl"
  "re_buffer_size (dl_encoder (fst (process_acquisition cf timebases junk dl w))) = re_buffer_size (dl_encoder dl)"
  "dl_owner (fst (process_acquisition cf timebases junk dl w)) = dl_owner dl"
  "dl_ops_data (fst (process_acquisition cf timebases junk dl w)) = dl_ops_data dl"
  "dl_manual_trigger (fst (process_acquisition cf timebases junk dl w)) = dl_manual_trigger dl"
  "dl_condition_data (fst (process_acquisition cf timebases junk dl w)) = dl_condition_data dl"
  "dl_previous_val (fst (process_acquisition cf timebases junk dl w)) = dl_previous_val dl"
  "dl_rising_edge_timestamp (fst (process_acquisition cf timebases junk dl w)) = dl_rising_edge_timestamp dl"
  by (simp_all add: process_acquisition_def Let_def case_prod_beta)

lemma check_trigger_frame [simp]:
  "dl_state (fst (snd (check_trigger cf timebases junk dl w))) = dl_state dl"
  "dl_config (fst (snd (check_trigger cf timebases junk dl w))) = dl_config dl"
  "dl_buffer_size (fst (snd (check_trigger cf timebases junk dl w))) = dl_buffer_size dl"
  "dl_timebase (fst (snd (check_trigger cf timebases junk dl w))) = dl_timebase dl"
  "dl_active_condition (fst (snd (check_trigger cf timebases junk dl w))) = dl_active_condition dl"
  "dl_remaining_data_to_write (fst (snd (check_trigger cf timebases junk dl w))) = dl_remaining_data_to_write dl"
  "dl_decimation_counter (fst (snd (check_trigger cf timebases junk dl w))) = dl_decimation_counter dl"
  "dl_encoder (fst (snd (check_trigger cf timebases junk dl w))) = dl_encoder dl"
  by (simp_all add: check_trigger_def Let_def case_prod_beta)

lemma stamp_trigger_point_frame [simp]:
  "dl_config (stamp_trigger_point timebases dl) = dl_config dl"
  "dl_buffer_size (stamp_trigger_point timebases dl) = dl_buffer_size dl"
  "dl_timebase (stamp_trigger_point timebases dl) = dl_timebase dl"
  "dl_active_condition (stamp_trigger_point timebases dl) = dl_active_condition dl"
  "dl_decimation_counter (stamp_trigger_point timebases dl) = dl_decimation_counter dl"
  "dl_encoder (stamp_trigger_point timebases dl) = reset_write_counter (dl_encoder dl)"
  by (simp_all add: stamp_trigger_point_def Let_def)

lemma stamp_remaining: "dl_remaining_data_to_write (stamp_trigger_point timebases dl) \<le> dl_buffer_size dl"
  by (auto simp: stamp_trigger_point_def Let_def not_less)

text \<open>A call of \<open>process_acquisition\<close> keeps the ring, and logs an entry or advances the decimation.\<close>

lemma process_acquisition_ring:
  assumes "dl_ring cf dl"
  shows "dl_ring cf (fst (process_acquisition cf timebases junk dl w))"
    "re_entry_size (dl_encoder (fst (process_acquisition cf timebases junk dl w))) = re_entry_size (dl_encoder dl)"
    "if dl_decimation_counter dl + 1 < dc_decimation (dl_config dl)
     then dl_encoder (fst (process_acquisition cf timebases junk dl w)) = dl_encoder dl
       \<and> dl_decimation_counter (fst (process_acquisition cf timebases junk dl w)) = dl_decimation_counter dl + 1
     else re_entry_write_counter (dl_encoder (fst (process_acquisition cf timebases junk dl w)))
           = re_entry_write_counter (dl_encoder dl) + 1
       \<and> dl_decimation_counter (fst (process_acquisition cf timebases junk dl w)) = 0"
proof -
  obtain hist where hist: "ring_holds (dl_encoder dl) hist" using assms by (auto simp: dl_ring_def)
  have len: "length (fst (entry_bytes cf junk caller now (dc_items (dl_config dl)) w))
      = unat (re_entry_size (dl_encoder dl))" for junk caller now w
    using assms unfolding dl_ring_def by blast
  note step = encode_next_entry_ring [OF refl hist len]
  have pos: "0 < dc_decimation (dl_config dl)"
    using assms by (auto simp: dl_ring_def word_less_nat_alt)
  show "dl_ring cf (fst (process_acquisition cf timebases junk dl w))"
  proof (cases "dl_decimation_counter dl + 1 < dc_decimation (dl_config dl)")
    case True
    then have "fst (process_acquisition cf timebases junk dl w) = dl\<lparr>dl_decimation_counter := dl_decimation_counter dl + 1\<rparr>"
      by (simp add: process_acquisition_def Let_def)
    with True hist len show ?thesis unfolding dl_ring_def by (auto simp del: split_paired_All)
  next
    case False
    then have "fst (process_acquisition cf timebases junk dl w) = dl\<lparr>dl_decimation_counter := 0, dl_encoder :=
        fst (encode_next_entry cf (dl_config dl) timebases junk (dl_owner dl) (dl_encoder dl) w)\<rparr>"
      by (simp add: process_acquisition_def Let_def case_prod_beta not_less)
    moreover have "\<exists>h. ring_holds (fst (encode_next_entry cf (dl_config dl) timebases junk (dl_owner dl)
        (dl_encoder dl) w)) h"
      using step(1) by blast
    ultimately show ?thesis using pos len step(4) unfolding dl_ring_def by (simp del: split_paired_All)
  qed
  show "re_entry_size (dl_encoder (fst (process_acquisition cf timebases junk dl w))) = re_entry_size (dl_encoder dl)"
    using step(4) by (simp add: process_acquisition_def Let_def case_prod_beta)
  show "if dl_decimation_counter dl + 1 < dc_decimation (dl_config dl)
     then dl_encoder (fst (process_acquisition cf timebases junk dl w)) = dl_encoder dl
       \<and> dl_decimation_counter (fst (process_acquisition cf timebases junk dl w)) = dl_decimation_counter dl + 1
     else re_entry_write_counter (dl_encoder (fst (process_acquisition cf timebases junk dl w)))
           = re_entry_write_counter (dl_encoder dl) + 1
       \<and> dl_decimation_counter (fst (process_acquisition cf timebases junk dl w)) = 0"
    using step(6) by (cases "dl_decimation_counter dl + 1 < dc_decimation (dl_config dl)")
      (auto simp: process_acquisition_def Let_def case_prod_beta not_less dest: leD)
qed

lemma ring_ok_of: "dl_ring cf dl \<Longrightarrow> ring_ok (dl_encoder dl)"
  unfolding dl_ring_def ring_holds_def Let_def by blast

lemma ring_error [simp]: "dl_ring cf dl \<Longrightarrow> \<not> re_error (dl_encoder dl)"
  by (drule ring_ok_of) (simp add: ring_ok_def)

lemma ring_buffer: "dl_ring cf dl \<Longrightarrow>
    \<exists>buf. re_buffer (dl_encoder dl) = Some buf \<and> length buf = unat (re_buffer_size (dl_encoder dl))"
  by (drule ring_ok_of) (simp add: ring_ok_def)

lemma ring_cong:
  "dl_encoder dl' = dl_encoder dl \<or> dl_encoder dl' = reset_write_counter (dl_encoder dl) \<Longrightarrow>
    dl_config dl' = dl_config dl \<Longrightarrow> dl_decimation_counter dl' = dl_decimation_counter dl \<Longrightarrow>
    dl_ring cf dl' = dl_ring cf dl"
  unfolding dl_ring_def reset_write_counter_def by (elim disjE) simp_all

text \<open>The number of bytes logged since the trigger, as the 32-bit product that the code compares.\<close>

lemma data_counter_exact:
  assumes "unat (re_entry_write_counter e) * unat (re_entry_size e) \<le> 0xFFFFFFFF"
  shows "unat (get_data_write_counter e) = unat (re_entry_write_counter e) * unat (re_entry_size e)"
  unfolding get_data_write_counter_def
  by (subst unat_mult_below [of _ _ "0xFFFFFFFF"]) (use assms in simp_all)

lemma acquiring_step:
  assumes "dl_ring cf dl" "dl_acquiring dl" "dl_state dl = DL_Triggered" "dl_buffer_size dl \<le> 0xFFFF0000"
  shows "unat (get_data_write_counter (dl_encoder (fst (process_acquisition cf timebases junk dl w))))
      = unat (re_entry_write_counter (dl_encoder (fst (process_acquisition cf timebases junk dl w))))
        * unat (re_entry_size (dl_encoder dl))"
    "dl_decimation_counter dl + 1 \<ge> dc_decimation (dl_config dl) \<Longrightarrow>
      unat (re_entry_write_counter (dl_encoder (fst (process_acquisition cf timebases junk dl w))))
        = unat (re_entry_write_counter (dl_encoder dl)) + 1"
proof -
  let ?e = "dl_encoder dl" and ?e' = "dl_encoder (fst (process_acquisition cf timebases junk dl w))"
  let ?es = "unat (re_entry_size ?e)" and ?c = "unat (re_entry_write_counter ?e)"
  have bound: "?c * ?es < unat (dl_remaining_data_to_write dl)" "unat (dl_remaining_data_to_write dl) \<le> 0xFFFF0000"
    using assms(2-4) by (auto simp: dl_acquiring_def word_le_nat_alt)
  have es: "0 < ?es" "?es < 65536"
    using ring_ok_of [OF assms(1)] by (simp_all add: ring_ok_def word_less_nat_alt)
  have "?c \<le> ?c * ?es" using es(1) by simp
  then have c: "?c + 1 < 4294967296" using bound by linarith
  then have suc: "unat (re_entry_write_counter ?e + 1) = ?c + 1"
    using unat_add_below [of "re_entry_write_counter ?e" 1 "0xFFFFFFFF"] by simp
  have below: "(?c + 1) * ?es \<le> 0xFFFFFFFF" "?c * ?es \<le> 0xFFFFFFFF"
    using bound es distrib_right [of ?c 1 ?es] by linarith+
  note step = process_acquisition_ring [OF assms(1), of timebases junk w]
  have counter: "unat (re_entry_write_counter ?e') = ?c \<or> unat (re_entry_write_counter ?e') = ?c + 1"
    using step(3) suc by (auto split: if_splits)
  then have "unat (re_entry_write_counter ?e') * unat (re_entry_size ?e') \<le> 0xFFFFFFFF"
    using below by (auto simp: step(2))
  from data_counter_exact [OF this] show "unat (get_data_write_counter ?e')
      = unat (re_entry_write_counter ?e') * ?es" by (simp add: step(2))
  show "unat (re_entry_write_counter ?e') = ?c + 1"
    if "dl_decimation_counter dl + 1 \<ge> dc_decimation (dl_config dl)"
    using step(3) suc that by (auto dest: leD)
qed

text \<open>After \<open>process_completion\<close> a triggered acquisition still lacks data.\<close>

lemma completion_acquiring:
  assumes "dl_state dl = DL_Triggered \<Longrightarrow> unat (get_data_write_counter (dl_encoder dl))
      = unat (re_entry_write_counter (dl_encoder dl)) * unat (re_entry_size (dl_encoder dl))"
    and "dl_remaining_data_to_write dl \<le> dl_buffer_size dl \<or> dl_state dl \<noteq> DL_Triggered"
  shows "dl_acquiring (process_completion timebases dl)"
  using assms
  by (auto simp: dl_acquiring_def process_completion_def acquisition_completed_def word_le_nat_alt not_le
      split: if_splits)

lemma process_trigger_frame [simp]:
  "dl_config (fst (process_trigger cf timebases junk dl w)) = dl_config dl"
  "dl_buffer_size (fst (process_trigger cf timebases junk dl w)) = dl_buffer_size dl"
  "dl_timebase (fst (process_trigger cf timebases junk dl w)) = dl_timebase dl"
  "dl_active_condition (fst (process_trigger cf timebases junk dl w)) = dl_active_condition dl"
  "dl_decimation_counter (fst (process_trigger cf timebases junk dl w)) = dl_decimation_counter dl"
  by (simp_all add: process_trigger_def case_prod_beta)

lemma process_trigger_cases:
  "dl_state (fst (process_trigger cf timebases junk dl w)) = dl_state dl
     \<and> dl_encoder (fst (process_trigger cf timebases junk dl w)) = dl_encoder dl
     \<and> dl_remaining_data_to_write (fst (process_trigger cf timebases junk dl w)) = dl_remaining_data_to_write dl
   \<or> dl_state dl = DL_Armed \<and> dl_state (fst (process_trigger cf timebases junk dl w)) = DL_Triggered
     \<and> dl_encoder (fst (process_trigger cf timebases junk dl w)) = reset_write_counter (dl_encoder dl)
     \<and> dl_remaining_data_to_write (fst (process_trigger cf timebases junk dl w)) \<le> dl_buffer_size dl"
  using stamp_remaining [of timebases "fst (snd (check_trigger cf timebases junk dl w))"]
  by (simp add: process_trigger_def case_prod_beta)

lemma process_completion_frame [simp]:
  "dl_config (process_completion timebases dl) = dl_config dl"
  "dl_buffer_size (process_completion timebases dl) = dl_buffer_size dl"
  "dl_timebase (process_completion timebases dl) = dl_timebase dl"
  "dl_active_condition (process_completion timebases dl) = dl_active_condition dl"
  "dl_decimation_counter (process_completion timebases dl) = dl_decimation_counter dl"
  "dl_encoder (process_completion timebases dl) = dl_encoder dl"
  by (simp_all add: process_completion_def)

lemma inv_cong:
  assumes "dl_inv cf dl" "dl_encoder dl' = dl_encoder dl" "dl_config dl' = dl_config dl"
    and "dl_decimation_counter dl' = dl_decimation_counter dl" "dl_buffer_size dl' = dl_buffer_size dl"
    and "dl_timebase dl' = dl_timebase dl" "dl_active_condition dl' = dl_active_condition dl"
    and "dl_remaining_data_to_write dl' = dl_remaining_data_to_write dl"
    and "dl_active (dl_state dl') \<Longrightarrow> dl_active (dl_state dl)"
    and "dl_state dl' = DL_Triggered \<Longrightarrow> dl_state dl = DL_Triggered"
  shows "dl_inv cf dl'"
  using assms ring_cong [of dl' dl cf] unfolding dl_inv_def dl_acquiring_def by auto

lemma inv_process:
  assumes "dl_inv cf dl"
  shows "dl_inv cf (fst (dl_process cf timebases junk dl w))"
proof (cases "dl_active (dl_state dl) \<and> dl_state dl \<noteq> DL_AcquisitionCompleted \<and> \<not> re_error (dl_encoder dl)")
  case False
  then have "fst (dl_process cf timebases junk dl w) = dl \<or> fst (dl_process cf timebases junk dl w) = dl\<lparr>dl_state := DL_Error\<rparr>"
    by (auto simp: dl_process_def dl_active_def)
  moreover have "dl_inv cf (dl\<lparr>dl_state := DL_Error\<rparr>)"
    by (rule inv_cong [OF assms]) (simp_all add: dl_active_def)
  ultimately show ?thesis using assms by metis
next
  case True
  have act: "dl_active (dl_state dl)" and ring: "dl_ring cf dl" and acq: "dl_acquiring dl"
    and checks: "configure_checks cf (dl_active_condition dl) (dl_config dl)" "dl_timebase dl \<noteq> None"
    and size: "re_buffer_size (dl_encoder dl) = dl_buffer_size dl" "dl_buffer_size dl \<le> 0xFFFF0000"
    using assms True unfolding dl_inv_def by blast+
  define dl1 where "dl1 = fst (process_acquisition cf timebases junk dl w)"
  define w1 where "w1 = snd (process_acquisition cf timebases junk dl w)"
  define dl2 where "dl2 = fst (process_trigger cf timebases junk dl1 w1)"
  have result: "fst (dl_process cf timebases junk dl w) = process_completion timebases dl2"
    using True by (auto simp: dl_process_def dl_active_def case_prod_beta dl1_def w1_def dl2_def)
  have ring1: "dl_ring cf dl1" unfolding dl1_def by (rule process_acquisition_ring(1) [OF ring])
  have state1: "dl_state dl1 = dl_state dl" and fields1: "dl_config dl1 = dl_config dl"
    "dl_buffer_size dl1 = dl_buffer_size dl" "dl_timebase dl1 = dl_timebase dl"
    "dl_active_condition dl1 = dl_active_condition dl"
    "re_buffer_size (dl_encoder dl1) = re_buffer_size (dl_encoder dl)"
    "dl_remaining_data_to_write dl1 = dl_remaining_data_to_write dl"
    by (simp_all add: dl1_def)
  note cases2 = process_trigger_cases [of cf timebases junk dl1 w1, folded dl2_def]
  have fields2: "dl_config dl2 = dl_config dl" "dl_buffer_size dl2 = dl_buffer_size dl"
    "dl_timebase dl2 = dl_timebase dl" "dl_active_condition dl2 = dl_active_condition dl"
    "dl_decimation_counter dl2 = dl_decimation_counter dl1"
    by (simp_all add: dl2_def fields1)
  have ring2: "dl_ring cf dl2"
    using ring1 ring_cong [of dl2 dl1 cf] cases2 fields2 fields1 by auto
  have exact: "unat (get_data_write_counter (dl_encoder dl2))
      = unat (re_entry_write_counter (dl_encoder dl2)) * unat (re_entry_size (dl_encoder dl2))"
    "dl_remaining_data_to_write dl2 \<le> dl_buffer_size dl2" if trig: "dl_state dl2 = DL_Triggered"
  proof -
    have "unat (get_data_write_counter (dl_encoder dl2))
        = unat (re_entry_write_counter (dl_encoder dl2)) * unat (re_entry_size (dl_encoder dl2))
      \<and> dl_remaining_data_to_write dl2 \<le> dl_buffer_size dl2"
      using cases2
    proof
      assume same: "dl_state dl2 = dl_state dl1 \<and> dl_encoder dl2 = dl_encoder dl1
        \<and> dl_remaining_data_to_write dl2 = dl_remaining_data_to_write dl1"
      with trig state1 have "dl_state dl = DL_Triggered" by simp
      with acquiring_step(1) [OF ring acq this size(2), of timebases junk w]
        process_acquisition_ring(2) [OF ring, of timebases junk w] acq same fields1 fields2
      show ?thesis by (simp add: dl1_def dl_acquiring_def)
    next
      assume "dl_state dl1 = DL_Armed \<and> dl_state dl2 = DL_Triggered
        \<and> dl_encoder dl2 = reset_write_counter (dl_encoder dl1)
        \<and> dl_remaining_data_to_write dl2 \<le> dl_buffer_size dl1"
      then show ?thesis
        using fields1 fields2 by (simp add: get_data_write_counter_def reset_write_counter_def)
    qed
    then show "unat (get_data_write_counter (dl_encoder dl2))
        = unat (re_entry_write_counter (dl_encoder dl2)) * unat (re_entry_size (dl_encoder dl2))"
      "dl_remaining_data_to_write dl2 \<le> dl_buffer_size dl2" by blast+
  qed
  have acq3: "dl_acquiring (process_completion timebases dl2)"
    using exact by (intro completion_acquiring) blast+
  have ring3: "dl_ring cf (process_completion timebases dl2)"
    using ring2 ring_cong [of "process_completion timebases dl2" dl2 cf] by simp
  have size2: "re_buffer_size (dl_encoder dl2) = dl_buffer_size dl"
    using cases2 fields1 size by (auto simp: reset_write_counter_def)
  show ?thesis
    unfolding result dl_inv_def
    using ring_buffer [OF ring2] ring_error [OF ring2] ring3 acq3 size2 size fields2 checks by simp
qed

lemma inv_arm: "dl_inv cf dl \<Longrightarrow> dl_inv cf (arm_trigger dl)"
  and inv_disarm: "dl_inv cf dl \<Longrightarrow> dl_inv cf (disarm_trigger dl)"
  and inv_force: "dl_inv cf dl \<Longrightarrow> dl_inv cf (force_trigger dl)"
  and inv_owner: "dl_inv cf dl \<Longrightarrow> dl_inv cf (set_owner owner dl)"
  by (rule inv_cong, assumption; auto simp: arm_trigger_def disarm_trigger_def force_trigger_def set_owner_def
      dl_active_def split: if_splits)+

theorem dl_reachable_inv:
  assumes "dl_reachable cf dl" "rpvs_supported cf"
  shows "dl_inv cf dl"
  using assms(1)
proof (induction rule: dl_reachable.induct)
  case reach_configure
  then show ?case using inv_configure assms(2) by blast
qed (blast intro: inv_init inv_reset inv_arm inv_disarm inv_force inv_owner inv_process)+

section \<open>A triggered acquisition ends\<close>

type_synonym 'u process_call = "(loop_ref \<Rightarrow> timebase) \<times> junk \<times> 'u world"

fun dl_run :: "'u config \<Rightarrow> 'u process_call list \<Rightarrow> 'u datalogger \<Rightarrow> 'u datalogger" where
  "dl_run cf [] dl = dl"
| "dl_run cf ((timebases, junk, w) # calls) dl = dl_run cf calls (fst (dl_process cf timebases junk dl w))"

text \<open>The entries that a triggered datalogger still has to log, rounded up.\<close>

definition entries_left :: "'u datalogger \<Rightarrow> nat" where
  "entries_left dl =
    (let es = unat (re_entry_size (dl_encoder dl))
     in (unat (dl_remaining_data_to_write dl) - unat (get_data_write_counter (dl_encoder dl)) + es - 1) div es)"

definition calls_left :: "'u datalogger \<Rightarrow> nat" where
  "calls_left dl = entries_left dl * unat (dc_decimation (dl_config dl)) - unat (dl_decimation_counter dl)"

lemma completed_stays:
  "dl_state dl = DL_AcquisitionCompleted \<Longrightarrow> dl_run cf calls dl = dl"
  by (induction calls rule: list.induct) (auto simp: dl_process_def)

lemma entries_less: "0 < (es :: nat) \<Longrightarrow> (a + es - 1) div es = (if a = 0 then 0 else (a - 1) div es + 1)"
  by (cases a) (simp_all add: div_add_self2)

lemma triggered_left:
  assumes "dl_inv cf dl" "dl_state dl = DL_Triggered"
  shows "entries_left dl = (unat (dl_remaining_data_to_write dl) - unat (re_entry_write_counter (dl_encoder dl))
      * unat (re_entry_size (dl_encoder dl)) - 1) div unat (re_entry_size (dl_encoder dl)) + 1"
    "unat (dl_decimation_counter dl) < unat (dc_decimation (dl_config dl))" "0 < calls_left dl"
proof -
  have ring: "dl_ring cf dl" and acq: "dl_acquiring dl"
    using assms unfolding dl_inv_def dl_active_def by blast+
  let ?es = "unat (re_entry_size (dl_encoder dl))" and ?c = "unat (re_entry_write_counter (dl_encoder dl))"
    and ?R = "unat (dl_remaining_data_to_write dl)"
  have es: "0 < ?es" using ring_ok_of [OF ring] by (simp add: ring_ok_def word_less_nat_alt)
  have lack: "?c * ?es < ?R" using acq assms(2) by (simp add: dl_acquiring_def)
  have now: "unat (get_data_write_counter (dl_encoder dl)) = ?c * ?es"
    using lack unat_u32_lt [of "dl_remaining_data_to_write dl"] by (intro data_counter_exact) linarith
  show left: "entries_left dl = (?R - ?c * ?es - 1) div ?es + 1"
    unfolding entries_left_def Let_def now by (subst entries_less) (use es lack in simp_all)
  show kd: "unat (dl_decimation_counter dl) < unat (dc_decimation (dl_config dl))"
    using ring by (simp add: dl_ring_def word_less_nat_alt)
  show "0 < calls_left dl" using kd by (simp add: calls_left_def left)
qed

lemma process_triggered:
  assumes "dl_inv cf dl" "dl_state dl = DL_Triggered"
    and dl'_def: "dl' = fst (dl_process cf timebases junk dl w)"
  shows "dl_state dl' = DL_AcquisitionCompleted \<and> dl_acquisition_id dl' = dl_acquisition_id dl + 1
   \<or> dl_state dl' = DL_Triggered \<and> dl_acquisition_id dl' = dl_acquisition_id dl \<and> calls_left dl' < calls_left dl"
proof -
  have ring: "dl_ring cf dl" and acq: "dl_acquiring dl" and noerr: "\<not> re_error (dl_encoder dl)"
    and size: "dl_buffer_size dl \<le> 0xFFFF0000"
    using assms(1,2) unfolding dl_inv_def dl_active_def by blast+
  define dl1 where "dl1 = fst (process_acquisition cf timebases junk dl w)"
  have st1: "dl_state dl1 = DL_Triggered" and id1: "dl_acquisition_id dl1 = dl_acquisition_id dl"
    using assms(2) by (simp_all add: dl1_def process_acquisition_def Let_def case_prod_beta)
  have res: "dl' = process_completion timebases dl1"
    using assms(2) noerr st1 by (simp add: dl'_def dl_process_def case_prod_beta process_trigger_def dl1_def)
  let ?es = "unat (re_entry_size (dl_encoder dl))" and ?c = "unat (re_entry_write_counter (dl_encoder dl))"
    and ?d = "unat (dc_decimation (dl_config dl))" and ?k = "unat (dl_decimation_counter dl)"
    and ?R = "unat (dl_remaining_data_to_write dl)"
  note step = process_acquisition_ring [OF ring, of timebases junk w, folded dl1_def]
  note exact = acquiring_step [OF ring acq assms(2) size, of timebases junk w, folded dl1_def]
  have es: "0 < ?es" using ring_ok_of [OF ring] by (simp add: ring_ok_def word_less_nat_alt)
  note left = triggered_left(1) [OF assms(1,2)] and kd = triggered_left(2) [OF assms(1,2)]
  show ?thesis
  proof (cases "acquisition_completed timebases dl1")
    case True
    with st1 id1 show ?thesis by (simp add: res process_completion_def)
  next
    case False
    with st1 have same: "dl' = dl1" by (simp add: res process_completion_def)
    have more: "unat (get_data_write_counter (dl_encoder dl1)) < ?R"
      using False st1 by (auto simp: acquisition_completed_def word_le_nat_alt not_le dl1_def split: if_splits)
    have rem: "dl_remaining_data_to_write dl1 = dl_remaining_data_to_write dl"
      "dl_config dl1 = dl_config dl" "re_entry_size (dl_encoder dl1) = re_entry_size (dl_encoder dl)"
      using step(2) by (simp_all add: dl1_def)
    have "calls_left dl1 < calls_left dl"
    proof (cases "dl_decimation_counter dl + 1 < dc_decimation (dl_config dl)")
      case True
      with step(3) have enc: "dl_encoder dl1 = dl_encoder dl"
        and dec: "dl_decimation_counter dl1 = dl_decimation_counter dl + 1" by simp_all
      have "unat (dl_decimation_counter dl1) = ?k + 1"
        using kd unat_add_below [of "dl_decimation_counter dl" 1 "dc_decimation (dl_config dl)"] by (simp add: dec)
      moreover have "entries_left dl1 = entries_left dl"
        by (simp add: entries_left_def enc rem)
      moreover have "?k < entries_left dl * ?d" using kd left by simp
      ultimately show ?thesis by (simp add: calls_left_def rem)
    next
      case fire: False
      then have c1: "unat (re_entry_write_counter (dl_encoder dl1)) = ?c + 1"
        and k1: "dl_decimation_counter dl1 = 0"
        using exact(2) step(3) by (simp_all add: not_less)
      have now1: "unat (get_data_write_counter (dl_encoder dl1)) = (?c + 1) * ?es"
        using exact(1) c1 by simp
      have left1: "entries_left dl1 = (?R - (?c + 1) * ?es - 1) div ?es + 1"
        unfolding entries_left_def Let_def rem now1 by (subst entries_less) (use es more now1 in simp_all)
      have eq: "?R - ?c * ?es - 1 = (?R - (?c + 1) * ?es - 1) + ?es"
        using more now1 distrib_right [of ?c 1 ?es] by linarith
      have one: "entries_left dl = entries_left dl1 + 1"
        unfolding left left1 eq using es by (simp only: div_add_self2 neq0_conv)
      have "\<not> ?k + 1 < ?d"
      proof
        assume kd1: "?k + 1 < ?d"
        then have "unat (dl_decimation_counter dl + 1) = ?k + 1"
          using unat_add_below [of "dl_decimation_counter dl" 1 "dc_decimation (dl_config dl)"] by simp
        with kd1 fire show False by (simp add: word_less_nat_alt)
      qed
      with kd have "?k = ?d - 1" by simp
      with kd one k1 show ?thesis by (simp add: calls_left_def rem)
    qed
    with same st1 id1 show ?thesis by simp
  qed
qed

lemma run_triggered:
  assumes "dl_inv cf dl" "dl_state dl = DL_Triggered" "calls_left dl \<le> length calls"
  shows "dl_state (dl_run cf calls dl) = DL_AcquisitionCompleted
    \<and> dl_acquisition_id (dl_run cf calls dl) = dl_acquisition_id dl + 1"
  using assms
proof (induction calls arbitrary: dl)
  case Nil
  with triggered_left(3) [OF Nil(1,2)] show ?case by simp
next
  case (Cons call calls)
  obtain timebases junk w where call: "call = (timebases, junk, w)" by (cases call)
  let ?dl = "fst (dl_process cf timebases junk dl w)"
  have inv: "dl_inv cf ?dl" by (rule inv_process [OF Cons.prems(1)])
  from process_triggered [OF Cons.prems(1,2) refl, of timebases junk w] show ?case
  proof
    assume "dl_state ?dl = DL_AcquisitionCompleted \<and> dl_acquisition_id ?dl = dl_acquisition_id dl + 1"
    then show ?thesis by (simp add: call completed_stays)
  next
    assume "dl_state ?dl = DL_Triggered \<and> dl_acquisition_id ?dl = dl_acquisition_id dl
      \<and> calls_left ?dl < calls_left dl"
    with Cons.IH [OF inv] Cons.prems(3) show ?thesis by (simp add: call)
  qed
qed

text \<open>
  C29: a triggered acquisition always ends. In every reachable state that is triggered, as many
  calls of \<open>process\<close> as entries are left, times the decimation, complete the acquisition, whatever
  the program does between them; it is given the next acquisition number.
\<close>

theorem acquisition_completes:
  assumes "dl_reachable cf dl" "rpvs_supported cf" "dl_state dl = DL_Triggered"
    and "entries_left dl * unat (dc_decimation (dl_config dl)) \<le> length calls"
  shows "dl_state (dl_run cf calls dl) = DL_AcquisitionCompleted
    \<and> dl_acquisition_id (dl_run cf calls dl) = dl_acquisition_id dl + 1"
  using run_triggered [OF dl_reachable_inv [OF assms(1,2)] assms(3), of calls] assms(4)
  by (simp add: calls_left_def)

text \<open>A datalogger of the demonstration configuration, armed and triggered at once.\<close>

definition demo_new_datalogger :: "unit datalogger" where
  "demo_new_datalogger =
    \<lparr>dl_config = demo_dl_config, dl_encoder = re_new, dl_buffer_size = 0, dl_trigger_callback = None,
     dl_owner = None, dl_timebase = None, dl_trigger_timestamp = 0, dl_trigger_cursor_location = 0,
     dl_remaining_data_to_write = 0, dl_log_points_after_trigger = 0, dl_decimation_counter = 0,
     dl_acquisition_id = 0, dl_config_id = 0, dl_manual_trigger = False, dl_config_valid = False,
     dl_state = DL_Idle,
     dl_active_condition = \<lparr>ac_eval_fn = always_true_evaluate, ac_reset_fn = None, ac_operand_count = 0\<rparr>,
     dl_condition_data = \<lparr>cd_previous_val = 0, cd_initialized = False\<rparr>,
     dl_rising_edge_timestamp = 0, dl_previous_val = False,
     dl_ops_data = replicate 3 \<lparr>vt_val = 0, vt_valtype = 0\<rparr>\<rparr>"

definition demo_initialised :: "unit datalogger" where
  "demo_initialised = dl_init config_clear (Some [0xA, 0xB, 0xC, 0xD, 0xE]) 5 None demo_new_datalogger"

definition demo_configured :: "unit datalogger" where
  "demo_configured = dl_configure config_clear (Some 0) 7 (demo_initialised\<lparr>dl_config := demo_dl_config\<rparr>)"

definition demo_process_call :: "u8 \<Rightarrow> unit process_call" where
  "demo_process_call b = (\<lambda>_. tb_init, (\<lparr>rpv_id = 0, rpv_type = VT_unknown\<rparr>, 0),
     \<lparr>w_memory = (\<lambda>a. ucast a + b), w_user = ()\<rparr>)"

definition demo_triggered :: "unit datalogger" where
  "demo_triggered = dl_run config_clear [demo_process_call 1] (arm_trigger demo_configured)"

lemmas demo_encoder_defs = re_init_def re_reset_def demo_config_items demo_item_def item_size_def re_new_def
  reset_write_counter_def reader_reset_def get_read_cursor_def set_timebase_def

lemma demo_dl_fields:
  "dc_items_count demo_dl_config = 1" "dc_decimation demo_dl_config = 1" "dc_timeout_100ns demo_dl_config = 0"
  "dc_probe_location demo_dl_config = 128" "tc_operand_count (dc_trigger demo_dl_config) = 0"
  "tc_condition (dc_trigger demo_dl_config) = Condition_AlwaysTrue" "tc_hold_time_100ns (dc_trigger demo_dl_config) = 0"
  by (simp_all add: demo_dl_config_def)

lemma demo_initialised_eq:
  "demo_initialised = demo_new_datalogger\<lparr>dl_buffer_size := 5, dl_encoder :=
     \<lparr>re_buffer = Some [0xA, 0xB, 0xC, 0xD, 0xE], re_buffer_size = 5,
      re_reader = \<lparr>rr_read_cursor = 0, rr_finished = False, rr_read_started = False\<rparr>, re_timebase = None,
      re_max_entries = 2, re_next_entry_write_index = 0, re_first_valid_entry_index = 0,
      re_entry_write_counter = 0, re_entry_size = 2, re_full = False, re_error = False\<rparr>\<rparr>"
  by (simp add: demo_initialised_def dl_init_def dl_reset_def demo_new_datalogger_def demo_encoder_defs)

lemma demo_configured_eq:
  "demo_configured = demo_initialised\<lparr>dl_timebase := Some 0, dl_config_id := 7, dl_config_valid := True,
     dl_state := DL_Configured, dl_encoder := (dl_encoder demo_initialised)\<lparr>re_timebase := Some 0\<rparr>\<rparr>"
  by (simp add: demo_configured_def dl_configure_def dl_reset_def demo_initialised_eq demo_new_datalogger_def
      configure_checks_def dc_operands_def item_valid_def condition_config_lut_def demo_encoder_defs
      demo_dl_fields Let_def)

lemma demo_triggered_eq:
  "dl_state demo_triggered = DL_Triggered \<and> entries_left demo_triggered = 1
    \<and> dc_decimation (dl_config demo_triggered) = 1 \<and> dl_acquisition_id demo_triggered = 0"
  by (simp add: demo_triggered_def demo_process_call_def arm_trigger_def demo_configured_eq demo_initialised_eq
      demo_new_datalogger_def dl_process_def process_acquisition_def encode_next_entry_def demo_config_items
      demo_item_def encode_item_def mem_read_def upt_rec blit_def process_trigger_def check_trigger_def
      always_true_evaluate_def has_expired_def stamp_trigger_point_def remaining_bytes_to_full_def
      get_buffer_effective_size_def get_write_cursor_def reset_write_counter_def process_completion_def
      acquisition_completed_def get_data_write_counter_def entries_left_def demo_dl_fields Let_def)

lemma acquisition_completes_witness:
  "dl_state (dl_run config_clear [demo_process_call 2] demo_triggered) = DL_AcquisitionCompleted
    \<and> dl_acquisition_id (dl_run config_clear [demo_process_call 2] demo_triggered) = 1"
proof -
  have "dl_reachable config_clear demo_triggered"
    unfolding demo_triggered_def demo_process_call_def dl_run.simps demo_configured_def demo_initialised_def
    by (intro reach_process reach_arm reach_configure reach_init) simp_all
  then show ?thesis
    using acquisition_completes [of config_clear demo_triggered "[demo_process_call 2]"]
    by (simp add: demo_triggered_eq demo_supported)
qed

section \<open>The hold time of a trigger\<close>

text \<open>What a call of \<open>process\<close> sees of the condition: nothing when an operand cannot be fetched.\<close>

fun condition_outcome :: "'u config \<Rightarrow> 'u process_call \<Rightarrow> 'u datalogger \<Rightarrow> bool option" where
  "condition_outcome cf (timebases, junk, w) dl =
    (case process_acquisition cf timebases junk dl w of (dl, w) \<Rightarrow>
       case fetch_operands cf (fst junk) (dl_owner dl)
              (take (unat (ac_operand_count (dl_active_condition dl))) (tc_operands (dc_trigger (dl_config dl))))
              0 (dl_ops_data dl) w of (success, ops, _) \<Rightarrow>
         if success then Some (fst (ac_eval_fn (dl_active_condition dl) (dl_condition_data dl) ops)) else None)"

fun call_time :: "'u process_call \<Rightarrow> 'u datalogger \<Rightarrow> timestamp" where
  "call_time (timebases, junk, w) dl = get_timestamp (timebases (the (dl_timebase dl)))"

fun observe :: "'u config \<Rightarrow> 'u process_call list \<Rightarrow> 'u datalogger \<Rightarrow> (timestamp \<times> bool option) list" where
  "observe cf [] dl = []"
| "observe cf (c # calls) dl = (call_time c dl, condition_outcome cf c dl) # observe cf calls (dl_run cf [c] dl)"

text \<open>The condition has been true, whenever it was seen, since the time of this observation.\<close>

definition true_since :: "(timestamp \<times> bool option) list \<Rightarrow> timestamp option" where
  "true_since obs =
    (let streak = takeWhile (\<lambda>(_, c). c = Some True) (rev (filter (\<lambda>(_, c). \<not> Option.is_none c) obs))
     in if streak = [] then None else Some (fst (last streak)))"

definition held_for :: "timediff \<Rightarrow> (timestamp \<times> bool option) list \<Rightarrow> bool" where
  "held_for hold obs =
    (obs \<noteq> [] \<and> snd (last obs) = Some True
     \<and> (case true_since obs of None \<Rightarrow> False | Some start \<Rightarrow> hold \<le> fst (last obs) - start))"

lemma true_since_snoc [simp]:
  "true_since [] = None"
  "true_since (obs @ [(t, None)]) = true_since obs"
  "true_since (obs @ [(t, Some False)]) = None"
  "true_since (obs @ [(t, Some True)]) = Some (case true_since obs of None \<Rightarrow> t | Some start \<Rightarrow> start)"
  by (simp_all add: true_since_def Let_def)

lemma completion_state:
  "dl_state (process_completion timebases (dl\<lparr>dl_state := DL_Triggered\<rparr>)) = DL_Triggered
    \<or> dl_state (process_completion timebases (dl\<lparr>dl_state := DL_Triggered\<rparr>)) = DL_AcquisitionCompleted"
  by (simp add: process_completion_def)

lemma armed_step:
  assumes "dl_inv cf dl" "dl_state dl = DL_Armed" "\<not> dl_manual_trigger dl" "\<not> re_error (dl_encoder dl)"
    and start: "start = (if dl_previous_val dl then dl_rising_edge_timestamp dl else call_time c dl)"
  shows "case condition_outcome cf c dl of
      None \<Rightarrow> dl_state (dl_run cf [c] dl) = DL_Armed \<and> dl_previous_val (dl_run cf [c] dl) = dl_previous_val dl
        \<and> dl_rising_edge_timestamp (dl_run cf [c] dl) = dl_rising_edge_timestamp dl
    | Some False \<Rightarrow> dl_state (dl_run cf [c] dl) = DL_Armed \<and> \<not> dl_previous_val (dl_run cf [c] dl)
    | Some True \<Rightarrow>
        if tc_hold_time_100ns (dc_trigger (dl_config dl)) \<le> call_time c dl - start
        then dl_state (dl_run cf [c] dl) = DL_Triggered \<or> dl_state (dl_run cf [c] dl) = DL_AcquisitionCompleted
        else dl_state (dl_run cf [c] dl) = DL_Armed \<and> dl_previous_val (dl_run cf [c] dl)
          \<and> dl_rising_edge_timestamp (dl_run cf [c] dl) = start"
    "\<not> dl_manual_trigger (dl_run cf [c] dl)" "dl_timebase (dl_run cf [c] dl) = dl_timebase dl"
    "dl_config (dl_run cf [c] dl) = dl_config dl" "\<not> re_error (dl_encoder (dl_run cf [c] dl))"
proof -
  obtain timebases junk w where c: "c = (timebases, junk, w)" by (cases c)
  define dl1 where "dl1 = fst (process_acquisition cf timebases junk dl w)"
  define w1 where "w1 = snd (process_acquisition cf timebases junk dl w)"
  have ring: "dl_ring cf dl" and checks: "configure_checks cf (dl_active_condition dl) (dl_config dl)"
    using assms(1,2,4) unfolding dl_inv_def dl_active_def by blast+
  have nb: "unat (ac_operand_count (dl_active_condition dl)) \<le> 3"
    using checks by (auto simp: configure_checks_def Let_def)
  have run: "dl_run cf [c] dl = process_completion timebases (fst (process_trigger cf timebases junk dl1 w1))"
    using assms(2,4) by (simp add: c dl_process_def case_prod_beta dl1_def w1_def)
  have dl1: "dl_state dl1 = DL_Armed" "\<not> dl_manual_trigger dl1" "dl_config dl1 = dl_config dl"
    "dl_active_condition dl1 = dl_active_condition dl" "dl_timebase dl1 = dl_timebase dl"
    "dl_previous_val dl1 = dl_previous_val dl" "dl_rising_edge_timestamp dl1 = dl_rising_edge_timestamp dl"
    "dl_condition_data dl1 = dl_condition_data dl"
    using assms(2,3) by (simp_all add: dl1_def)
  obtain success ops w2 where fetch: "fetch_operands cf (fst junk) (dl_owner dl1)
      (take (unat (ac_operand_count (dl_active_condition dl))) (tc_operands (dc_trigger (dl_config dl))))
      0 (dl_ops_data dl1) w1 = (success, ops, w2)" by (metis prod_cases3)
  obtain res cd where eval: "ac_eval_fn (dl_active_condition dl) (dl_condition_data dl) ops = (res, cd)" by fastforce
  have outcome: "condition_outcome cf c dl = (if success then Some res else None)"
    using fetch eval dl1 by (simp add: c case_prod_beta dl1_def [symmetric] w1_def [symmetric])
  have time: "call_time c dl = get_timestamp (timebases (the (dl_timebase dl)))" by (simp add: c)
  have check: "fst (snd (check_trigger cf timebases junk dl1 w1)) =
      (if \<not> success then dl1\<lparr>dl_ops_data := ops\<rparr>
       else dl1\<lparr>dl_ops_data := ops, dl_condition_data := cd, dl_previous_val := res,
              dl_rising_edge_timestamp := (if res then start else dl_rising_edge_timestamp dl)\<rparr>)"
    "fst (check_trigger cf timebases junk dl1 w1) =
      (success \<and> res \<and> tc_hold_time_100ns (dc_trigger (dl_config dl)) \<le> call_time c dl - start)"
    using nb fetch eval dl1 unfolding start time
    by (simp_all add: check_trigger_def Let_def has_expired_def elapsed_since_def get_timestamp_def)
  define dl2 where "dl2 = fst (snd (check_trigger cf timebases junk dl1 w1))"
  define fires where "fires = (success \<and> res \<and> tc_hold_time_100ns (dc_trigger (dl_config dl)) \<le> call_time c dl - start)"
  have st2: "dl_state dl2 = DL_Armed" using dl1 by (simp add: dl2_def)
  have run2: "dl_run cf [c] dl = (if fires
      then process_completion timebases ((stamp_trigger_point timebases dl2)\<lparr>dl_state := DL_Triggered\<rparr>) else dl2)"
    using check(2) dl1(1) st2 unfolding run process_trigger_def
    by (simp add: case_prod_beta fires_def dl2_def [symmetric] process_completion_def)
  have ring1: "dl_ring cf dl1" unfolding dl1_def by (rule process_acquisition_ring(1) [OF ring])
  show "case condition_outcome cf c dl of
      None \<Rightarrow> dl_state (dl_run cf [c] dl) = DL_Armed \<and> dl_previous_val (dl_run cf [c] dl) = dl_previous_val dl
        \<and> dl_rising_edge_timestamp (dl_run cf [c] dl) = dl_rising_edge_timestamp dl
    | Some False \<Rightarrow> dl_state (dl_run cf [c] dl) = DL_Armed \<and> \<not> dl_previous_val (dl_run cf [c] dl)
    | Some True \<Rightarrow>
        if tc_hold_time_100ns (dc_trigger (dl_config dl)) \<le> call_time c dl - start
        then dl_state (dl_run cf [c] dl) = DL_Triggered \<or> dl_state (dl_run cf [c] dl) = DL_AcquisitionCompleted
        else dl_state (dl_run cf [c] dl) = DL_Armed \<and> dl_previous_val (dl_run cf [c] dl)
          \<and> dl_rising_edge_timestamp (dl_run cf [c] dl) = start"
  proof (cases fires)
    case True
    then show ?thesis using completion_state unfolding run2 outcome by (auto simp: fires_def)
  next
    case False
    then have "dl_run cf [c] dl = dl2" by (simp add: run2)
    then show ?thesis
      using False check(1) dl1 st2 unfolding outcome
      by (cases success; cases res) (simp_all add: dl2_def [symmetric] fires_def)
  qed
  show "\<not> dl_manual_trigger (dl_run cf [c] dl)"
  proof -
    have "\<not> dl_manual_trigger dl2" using check(1) dl1 by (simp add: dl2_def)
    then show ?thesis unfolding run2 by (simp add: process_completion_def stamp_trigger_point_def Let_def)
  qed
  show "dl_timebase (dl_run cf [c] dl) = dl_timebase dl" "dl_config (dl_run cf [c] dl) = dl_config dl"
    unfolding run using dl1 by simp_all
  show "\<not> re_error (dl_encoder (dl_run cf [c] dl))"
    unfolding run using process_trigger_cases [of cf timebases junk dl1 w1] ring_error [OF ring1]
    by (auto simp: reset_write_counter_def)
qed

lemma run_snoc: "dl_run cf (calls @ [c]) dl = dl_run cf [c] (dl_run cf calls dl)"
  by (induction calls arbitrary: dl) auto

lemma observe_snoc:
  "observe cf (calls @ [c]) dl = observe cf calls dl
    @ [(call_time c (dl_run cf calls dl), condition_outcome cf c (dl_run cf calls dl))]"
  by (induction calls arbitrary: dl) (auto simp: case_prod_beta)

text \<open>Once the datalogger is not armed any more, it is not armed again by \<open>process\<close>.\<close>

lemma armed_before: "dl_state (dl_run cf [c] dl) = DL_Armed \<Longrightarrow> dl_state dl = DL_Armed"
proof -
  obtain timebases junk w where c: "c = (timebases, junk, w)" by (cases c)
  assume "dl_state (dl_run cf [c] dl) = DL_Armed"
  then show ?thesis
    using process_trigger_cases [of cf timebases junk "fst (process_acquisition cf timebases junk dl w)"
        "snd (process_acquisition cf timebases junk dl w)"]
    by (auto simp: c dl_process_def case_prod_beta process_completion_def split: if_splits)
qed

lemma armed_run:
  assumes "dl_inv cf dl" "dl_state dl = DL_Armed" "\<not> dl_manual_trigger dl" "\<not> re_error (dl_encoder dl)"
    and "\<not> dl_previous_val dl" "dl_state (dl_run cf calls dl) = DL_Armed"
  shows "dl_inv cf (dl_run cf calls dl) \<and> \<not> dl_manual_trigger (dl_run cf calls dl)
    \<and> \<not> re_error (dl_encoder (dl_run cf calls dl)) \<and> dl_config (dl_run cf calls dl) = dl_config dl
    \<and> (case true_since (observe cf calls dl) of None \<Rightarrow> \<not> dl_previous_val (dl_run cf calls dl)
       | Some start \<Rightarrow> dl_previous_val (dl_run cf calls dl) \<and> dl_rising_edge_timestamp (dl_run cf calls dl) = start)"
  using assms(6)
proof (induction calls rule: rev_induct)
  case Nil
  then show ?case using assms by simp
next
  case (snoc c calls)
  have armed: "dl_state (dl_run cf calls dl) = DL_Armed"
    using snoc.prems armed_before [of cf c "dl_run cf calls dl"] by (simp only: run_snoc)
  note ih = snoc.IH [OF armed]
  from ih have inv: "dl_inv cf (dl_run cf calls dl)" and man: "\<not> dl_manual_trigger (dl_run cf calls dl)"
    and err: "\<not> re_error (dl_encoder (dl_run cf calls dl))" by blast+
  note step = armed_step [OF inv armed man err refl, of c]
  obtain timebases junk w where c: "c = (timebases, junk, w)" by (cases c)
  have inv': "dl_inv cf (dl_run cf [c] (dl_run cf calls dl))"
    using inv_process [OF inv] by (simp add: c)
  show ?case
    using step ih inv' snoc.prems unfolding run_snoc observe_snoc
    by (auto split: option.splits bool.splits if_splits simp del: dl_run.simps)
qed

text \<open>
  C30: the hold time of the trigger. While a datalogger that was just configured and armed waits, it
  leaves the armed state at a call of \<open>process\<close> exactly when the condition is true there and has
  been true, at every call that could see it, since an observation at least the hold time ago.
\<close>

theorem trigger_hold_time:
  assumes "dl_reachable cf dl" "rpvs_supported cf" "dl_state dl = DL_Armed" "\<not> dl_manual_trigger dl"
    and "\<not> re_error (dl_encoder dl)" "\<not> dl_previous_val dl" "dl_state (dl_run cf calls dl) = DL_Armed"
  shows "dl_state (dl_run cf (calls @ [c]) dl) \<noteq> DL_Armed
    \<longleftrightarrow> held_for (tc_hold_time_100ns (dc_trigger (dl_config dl))) (observe cf (calls @ [c]) dl)"
proof -
  from armed_run [OF dl_reachable_inv [OF assms(1,2)] assms(3-7)]
  have inv: "dl_inv cf (dl_run cf calls dl)" and man: "\<not> dl_manual_trigger (dl_run cf calls dl)"
    and err: "\<not> re_error (dl_encoder (dl_run cf calls dl))" and cfg: "dl_config (dl_run cf calls dl) = dl_config dl"
    and since: "case true_since (observe cf calls dl) of None \<Rightarrow> \<not> dl_previous_val (dl_run cf calls dl)
       | Some start \<Rightarrow> dl_previous_val (dl_run cf calls dl) \<and> dl_rising_edge_timestamp (dl_run cf calls dl) = start"
    by blast+
  note step = armed_step(1) [OF inv assms(7) man err refl, of c]
  show ?thesis
    using step since cfg unfolding run_snoc observe_snoc held_for_def
    by (auto split: option.splits bool.splits if_splits simp del: dl_run.simps)
qed

text \<open>An always-true condition with a hold time of 100, seen at the times 50 and 150.\<close>

definition demo_hold_config :: dl_config where
  "demo_hold_config = demo_dl_config\<lparr>dc_trigger := (dc_trigger demo_dl_config)\<lparr>tc_hold_time_100ns := 100\<rparr>\<rparr>"

definition demo_hold_armed :: "unit datalogger" where
  "demo_hold_armed = arm_trigger (dl_configure config_clear (Some 0) 7 (demo_initialised\<lparr>dl_config := demo_hold_config\<rparr>))"

definition demo_timed_call :: "timestamp \<Rightarrow> unit process_call" where
  "demo_timed_call t = (\<lambda>_. \<lparr>tb_time_100ns = t\<rparr>, (\<lparr>rpv_id = 0, rpv_type = VT_unknown\<rparr>, 0),
     \<lparr>w_memory = (\<lambda>a. ucast a), w_user = ()\<rparr>)"

lemma demo_hold_fields:
  "dc_items demo_hold_config = [demo_item]" "dc_items_count demo_hold_config = 1" "dc_decimation demo_hold_config = 1"
  "dc_timeout_100ns demo_hold_config = 0" "dc_probe_location demo_hold_config = 128"
  "tc_operand_count (dc_trigger demo_hold_config) = 0"
  "tc_condition (dc_trigger demo_hold_config) = Condition_AlwaysTrue"
  "tc_hold_time_100ns (dc_trigger demo_hold_config) = 100"
  using demo_config_items by (simp_all add: demo_hold_config_def demo_dl_config_def dc_items_def)

lemma demo_hold_armed_eq:
  "demo_hold_armed = demo_initialised\<lparr>dl_config := demo_hold_config, dl_timebase := Some 0, dl_config_id := 7,
     dl_config_valid := True, dl_state := DL_Armed,
     dl_encoder := (dl_encoder demo_initialised)\<lparr>re_timebase := Some 0\<rparr>\<rparr>"
  by (simp add: demo_hold_armed_def arm_trigger_def dl_configure_def dl_reset_def demo_initialised_eq
      demo_new_datalogger_def configure_checks_def dc_operands_def item_valid_def condition_config_lut_def
      demo_encoder_defs demo_hold_fields Let_def)

lemma demo_hold_reachable: "dl_reachable config_clear demo_hold_armed"
  unfolding demo_hold_armed_def demo_initialised_def by (intro reach_arm reach_configure reach_init) simp_all

lemma always_true_outcome:
  "dl_active_condition dl = \<lparr>ac_eval_fn = always_true_evaluate, ac_reset_fn = None, ac_operand_count = 0\<rparr> \<Longrightarrow>
    condition_outcome cf c dl = Some True"
  by (cases c) (simp add: case_prod_beta always_true_evaluate_def)

lemma run_frame [simp]:
  "dl_active_condition (dl_run cf calls dl) = dl_active_condition dl"
proof (induction calls arbitrary: dl)
  case (Cons c calls)
  then show ?case by (cases c) (simp add: dl_process_def case_prod_beta)
qed simp

lemma demo_call_time: "call_time (demo_timed_call t) dl = t"
  by (simp add: demo_timed_call_def get_timestamp_def)

lemma demo_observe:
  "observe config_clear (map demo_timed_call ts) demo_hold_armed = map (\<lambda>t. (t, Some True)) ts"
proof -
  have "observe config_clear (map demo_timed_call ts) dl = map (\<lambda>t. (t, Some True)) ts"
    if "dl_active_condition dl = \<lparr>ac_eval_fn = always_true_evaluate, ac_reset_fn = None, ac_operand_count = 0\<rparr>"
    for dl :: "unit datalogger"
    using that by (induction ts arbitrary: dl)
      (simp_all add: demo_call_time always_true_outcome del: dl_run.simps condition_outcome.simps call_time.simps)
  then show ?thesis
    by (simp add: demo_hold_armed_eq demo_initialised_eq demo_new_datalogger_def)
qed

lemma trigger_hold_time_witness:
  "dl_state (dl_run config_clear [demo_timed_call 50] demo_hold_armed) = DL_Armed
    \<and> dl_state (dl_run config_clear [demo_timed_call 50, demo_timed_call 150] demo_hold_armed) \<noteq> DL_Armed"
proof -
  have fields: "dl_state demo_hold_armed = DL_Armed" "\<not> dl_manual_trigger demo_hold_armed"
    "\<not> re_error (dl_encoder demo_hold_armed)" "\<not> dl_previous_val demo_hold_armed"
    "tc_hold_time_100ns (dc_trigger (dl_config demo_hold_armed)) = 100"
    by (simp_all add: demo_hold_armed_eq demo_initialised_eq demo_new_datalogger_def demo_hold_fields)
  note hold = trigger_hold_time [OF demo_hold_reachable demo_supported fields(1-4), unfolded fields(5)]
  have one: "dl_state (dl_run config_clear [demo_timed_call 50] demo_hold_armed) = DL_Armed"
    using hold [of "[]" "demo_timed_call 50"] demo_observe [of "[50]"] fields(1)
    by (simp add: held_for_def true_since_def del: dl_run.simps(2))
  with hold [of "[demo_timed_call 50]" "demo_timed_call 150"] demo_observe [of "[50, 150]"] show ?thesis
    by (simp add: held_for_def true_since_def del: dl_run.simps(2))
qed

text \<open>
  C31: arming again skips the hold time. The result of the condition at the trigger is kept through
  the acquisition and the arming that follows: a condition that is true when the datalogger first
  looks at it again counts as true since before the last trigger, and fires at once.
\<close>

theorem rearm_skips_hold_time:
  assumes "dl_reachable cf dl" "rpvs_supported cf" "dl_state dl = DL_AcquisitionCompleted" "dl_previous_val dl"
    and "\<not> dl_manual_trigger dl" "\<not> re_error (dl_encoder dl)"
    and "condition_outcome cf c (arm_trigger dl) = Some True"
    and "tc_hold_time_100ns (dc_trigger (dl_config dl)) \<le> call_time c dl - dl_rising_edge_timestamp dl"
  shows "dl_state (dl_run cf [c] (arm_trigger dl)) \<in> {DL_Triggered, DL_AcquisitionCompleted}"
proof -
  have inv: "dl_inv cf (arm_trigger dl)" by (rule inv_arm [OF dl_reachable_inv [OF assms(1,2)]])
  have armed: "arm_trigger dl = dl\<lparr>dl_state := DL_Armed\<rparr>" using assms(3) by (simp add: arm_trigger_def)
  have time: "call_time c (arm_trigger dl) = call_time c dl" by (cases c) (simp add: armed)
  have "dl_state (arm_trigger dl) = DL_Armed" "\<not> dl_manual_trigger (arm_trigger dl)"
    "\<not> re_error (dl_encoder (arm_trigger dl))" using assms by (simp_all add: armed)
  from armed_step(1) [OF inv this refl, of c, unfolded assms(7) time] show ?thesis
    using assms(4,8) by (simp add: armed del: dl_run.simps)
qed

definition demo_hold_completed :: "unit datalogger" where
  "demo_hold_completed = dl_run config_clear (map demo_timed_call [50, 150, 160]) demo_hold_armed"

lemma not_two_le_one: "\<not> (2 :: u32) \<le> 1"
  by (simp add: word_le_nat_alt)

lemma demo_hold_completed_fields:
  "dl_state demo_hold_completed = DL_AcquisitionCompleted \<and> dl_previous_val demo_hold_completed
    \<and> \<not> dl_manual_trigger demo_hold_completed \<and> \<not> re_error (dl_encoder demo_hold_completed)
    \<and> dl_config demo_hold_completed = demo_hold_config \<and> dl_rising_edge_timestamp demo_hold_completed = 50"
  by (simp add: demo_hold_completed_def demo_timed_call_def demo_hold_armed_eq demo_initialised_eq
      demo_new_datalogger_def dl_process_def process_acquisition_def encode_next_entry_def demo_hold_fields
      demo_item_def encode_item_def mem_read_def upt_rec blit_def process_trigger_def check_trigger_def
      always_true_evaluate_def has_expired_def elapsed_since_def get_timestamp_def stamp_trigger_point_def
      remaining_bytes_to_full_def get_buffer_effective_size_def get_write_cursor_def reset_write_counter_def
      process_completion_def acquisition_completed_def get_data_write_counter_def Let_def not_two_le_one)

lemma rearm_skips_hold_time_witness:
  "dl_state (dl_run config_clear [demo_timed_call 1000] (arm_trigger demo_hold_completed))
    \<in> {DL_Triggered, DL_AcquisitionCompleted}"
proof -
  have "dl_reachable config_clear demo_hold_completed"
    unfolding demo_hold_completed_def demo_timed_call_def list.map dl_run.simps
    by (intro reach_process demo_hold_reachable)
  moreover have "condition_outcome config_clear (demo_timed_call 1000) (arm_trigger demo_hold_completed) = Some True"
    by (rule always_true_outcome) (simp add: demo_hold_completed_def arm_trigger_def demo_hold_armed_eq
        demo_initialised_eq demo_new_datalogger_def del: dl_run.simps)
  ultimately show ?thesis
    using rearm_skips_hold_time [of config_clear demo_hold_completed "demo_timed_call 1000"] demo_hold_completed_fields
    by (simp add: demo_supported demo_hold_fields demo_call_time del: dl_run.simps)
qed

end
