(* ===== verification/Acquisition.thy ===== *)
theory Acquisition
  imports DatalogRun AcquisitionDownload
begin

text \<open>
  An acquisition from its configuration to its download. The abstract log of a session of the
  datalogger is the list of the snapshots of every \<open>decimation\<close>-th call of \<open>process\<close>; the ring refines it
  whatever is armed, disarmed or forced between the calls, and the download hands out the part of
  it that fits.
\<close>

section \<open>Sessions\<close>

datatype 'u dl_event = Arm | Disarm | Force | Process "'u process_call"

fun dl_event_step :: "'u config \<Rightarrow> 'u dl_event \<Rightarrow> 'u datalogger \<Rightarrow> 'u datalogger" where
  "dl_event_step cf Arm dl = arm_trigger dl"
| "dl_event_step cf Disarm dl = disarm_trigger dl"
| "dl_event_step cf Force dl = force_trigger dl"
| "dl_event_step cf (Process call) dl = dl_run cf [call] dl"

fun dl_session :: "'u config \<Rightarrow> 'u dl_event list \<Rightarrow> 'u datalogger \<Rightarrow> 'u datalogger" where
  "dl_session cf [] dl = dl"
| "dl_session cf (ev # evs) dl = dl_session cf evs (dl_event_step cf ev dl)"

text \<open>The calls of \<open>process\<close> among the events, and that none comes after the acquisition is completed.\<close>

fun process_calls :: "'u dl_event list \<Rightarrow> 'u process_call list" where
  "process_calls [] = []"
| "process_calls (Process call # evs) = call # process_calls evs"
| "process_calls (ev # evs) = process_calls evs"

fun until_completed :: "'u config \<Rightarrow> 'u dl_event list \<Rightarrow> 'u datalogger \<Rightarrow> bool" where
  "until_completed cf [] dl = True"
| "until_completed cf (ev # evs) dl =
    (dl_state dl \<noteq> DL_AcquisitionCompleted \<and> until_completed cf evs (dl_event_step cf ev dl))"

text \<open>Every \<open>d\<close>-th element, the \<open>d\<close>-th first.\<close>

definition every :: "nat \<Rightarrow> 'a list \<Rightarrow> 'a list" where
  "every d xs = map ((!) xs) (filter (\<lambda>i. (i + 1) mod d = 0) [0..<length xs])"

text \<open>The same, one element after the other, with \<open>c\<close> elements counted before.\<close>

fun every_from :: "nat \<Rightarrow> nat \<Rightarrow> 'a list \<Rightarrow> 'a list" where
  "every_from d c [] = []"
| "every_from d c (x # xs) = (if c + 1 < d then every_from d (c + 1) xs else x # every_from d 0 xs)"

lemma every_from_eq:
  "c < d \<Longrightarrow> every_from d c xs = map ((!) xs) (filter (\<lambda>i. (i + 1 + c) mod d = 0) [0..<length xs])"
proof (induction xs arbitrary: c)
  case (Cons x xs)
  have shift: "map ((!) (x # xs)) (filter P [Suc 0..<Suc (length xs)]) = map ((!) xs) (filter (\<lambda>i. P (Suc i)) [0..<length xs])" for P
    unfolding map_Suc_upt [symmetric] by (simp add: filter_map comp_def)
  show ?case
  proof (cases "c + 1 < d")
    case True
    then show ?thesis using Cons.IH [of "c + 1"] by (simp add: upt_conv_Cons shift del: upt_Suc)
  next
    case False
    then have "c + 1 = d" using Cons.prems by simp
    then have "(Suc (Suc (i + c))) mod d = Suc i mod d" for i
      by (metis add.commute add_Suc_right mod_add_self2 plus_1_eq_Suc)
    then show ?thesis using Cons.IH [of 0] Cons.prems \<open>c + 1 = d\<close> by (simp add: upt_conv_Cons shift del: upt_Suc)
  qed
qed simp

lemma every_eq: "0 < d \<Longrightarrow> every_from d 0 xs = every d xs"
  by (simp add: every_from_eq every_def)

section \<open>Progress\<close>

text \<open>The states in the order of the numbers that a status request answers, which \<open>process\<close> only increases.\<close>

instantiation dl_state :: linorder
begin

definition less_eq_dl_state :: "dl_state \<Rightarrow> dl_state \<Rightarrow> bool" where
  "less_eq_dl_state s t = (dl_state_byte s \<le> dl_state_byte t)"

definition less_dl_state :: "dl_state \<Rightarrow> dl_state \<Rightarrow> bool" where
  "less_dl_state s t = (dl_state_byte s < dl_state_byte t)"

instance
proof
  fix s t :: dl_state
  assume "s \<le> t" "t \<le> s"
  then have "dl_state_byte s = dl_state_byte t" by (simp add: less_eq_dl_state_def)
  then show "s = t" by (cases s; cases t) simp_all
qed (auto simp: less_eq_dl_state_def less_dl_state_def)

end

lemma process_forward: "dl_state dl \<le> dl_state (fst (dl_process cf tbs junk dl w))"
proof -
  define dl1 where "dl1 = fst (process_acquisition cf tbs junk dl w)"
  define w1 where "w1 = snd (process_acquisition cf tbs junk dl w)"
  have "dl_state dl \<le> dl_state dl1" by (simp add: dl1_def)
  also have "\<dots> \<le> dl_state (fst (process_trigger cf tbs junk dl1 w1))"
    using process_trigger_cases [of cf tbs junk dl1 w1] by (auto simp: less_eq_dl_state_def)
  also have "\<dots> \<le> dl_state (process_completion tbs (fst (process_trigger cf tbs junk dl1 w1)))"
    by (simp add: process_completion_def less_eq_dl_state_def)
  finally show ?thesis
    by (auto simp: dl_process_def case_prod_beta dl1_def w1_def less_eq_dl_state_def)
qed

lemma run_forward: "dl_state dl \<le> dl_state (dl_run cf calls dl)"
proof (induction cf calls dl rule: dl_run.induct)
  case (2 cf tbs junk w calls dl)
  then show ?case using process_forward order_trans by (metis dl_run.simps(2))
qed simp

section \<open>The ring refines the log\<close>

text \<open>What a call of \<open>process\<close> logs.\<close>

definition call_snapshot :: "'u config \<Rightarrow> dl_config \<Rightarrow> loop_ref option \<Rightarrow> loop_ref option \<Rightarrow> 'u process_call \<Rightarrow> u8 list" where
  "call_snapshot cf dc timebase owner call =
    (case call of (tbs, junk, w) \<Rightarrow> snapshot cf dc timebase (tbs, junk, owner, w))"

definition running :: "'u config \<Rightarrow> 'u datalogger \<Rightarrow> bool" where
  "running cf dl = (dl_inv cf dl \<and> dl_active (dl_state dl) \<and> \<not> re_error (dl_encoder dl))"

text \<open>What a session keeps.\<close>

definition same_log :: "'u datalogger \<Rightarrow> 'u datalogger \<Rightarrow> bool" where
  "same_log dl dl' = (dl_config dl' = dl_config dl \<and> dl_owner dl' = dl_owner dl
     \<and> re_timebase (dl_encoder dl') = re_timebase (dl_encoder dl)
     \<and> re_max_entries (dl_encoder dl') = re_max_entries (dl_encoder dl))"

lemma same_log_trans: "same_log a b \<Longrightarrow> same_log b c \<Longrightarrow> same_log a c"
  by (simp add: same_log_def)

lemma order_step:
  assumes "running cf dl" "ev = Arm \<or> ev = Disarm \<or> ev = Force"
  shows "running cf (dl_event_step cf ev dl)" "same_log dl (dl_event_step cf ev dl)"
    "dl_encoder (dl_event_step cf ev dl) = dl_encoder dl"
    "dl_decimation_counter (dl_event_step cf ev dl) = dl_decimation_counter dl"
proof -
  have inv: "dl_inv cf (dl_event_step cf ev dl)"
    using assms inv_arm inv_disarm inv_force by (auto simp: running_def)
  have rest: "dl_encoder (dl_event_step cf ev dl) = dl_encoder dl \<and> same_log dl (dl_event_step cf ev dl)
    \<and> dl_decimation_counter (dl_event_step cf ev dl) = dl_decimation_counter dl
    \<and> (dl_active (dl_state dl) \<longrightarrow> dl_active (dl_state (dl_event_step cf ev dl)))"
    using assms(2) by (auto simp: same_log_def arm_trigger_def disarm_trigger_def force_trigger_def dl_active_def)
  show "running cf (dl_event_step cf ev dl)" "same_log dl (dl_event_step cf ev dl)"
    "dl_encoder (dl_event_step cf ev dl) = dl_encoder dl"
    "dl_decimation_counter (dl_event_step cf ev dl) = dl_decimation_counter dl"
    using inv rest assms(1) by (simp_all add: running_def)
qed

text \<open>What the steps of \<open>process\<close> leave alone.\<close>

lemma trigger_owner: "dl_owner (fst (process_trigger cf tbs junk dl w)) = dl_owner dl"
  by (simp add: process_trigger_def check_trigger_def stamp_trigger_point_def Let_def case_prod_beta)

lemma completion_owner: "dl_owner (process_completion tbs dl) = dl_owner dl"
  by (simp add: process_completion_def)

lemma completion_active: "dl_active (dl_state dl) \<Longrightarrow> dl_active (dl_state (process_completion tbs dl))"
  by (simp add: process_completion_def dl_active_def)

lemma process_step:
  assumes "running cf dl" "dl_state dl \<noteq> DL_AcquisitionCompleted" "ring_holds (dl_encoder dl) hist"
    and "dl' = fst (dl_process cf tbs junk dl w)"
  shows "running cf dl'" "same_log dl dl'"
    "if dl_decimation_counter dl + 1 < dc_decimation (dl_config dl)
     then ring_holds (dl_encoder dl') hist \<and> dl_decimation_counter dl' = dl_decimation_counter dl + 1
     else ring_holds (dl_encoder dl') (hist @ [call_snapshot cf (dl_config dl) (re_timebase (dl_encoder dl)) (dl_owner dl) (tbs, junk, w)])
       \<and> dl_decimation_counter dl' = 0"
proof -
  let ?bs = "call_snapshot cf (dl_config dl) (re_timebase (dl_encoder dl)) (dl_owner dl) (tbs, junk, w)"
  let ?now = "get_timestamp (tbs (the (re_timebase (dl_encoder dl))))"
  define dl1 where "dl1 = fst (process_acquisition cf tbs junk dl w)"
  define w1 where "w1 = snd (process_acquisition cf tbs junk dl w)"
  define dl2 where "dl2 = fst (process_trigger cf tbs junk dl1 w1)"
  have inv: "dl_inv cf dl" "dl_active (dl_state dl)" "\<not> re_error (dl_encoder dl)" using assms(1) by (simp_all add: running_def)
  then have ring: "dl_ring cf dl" by (auto simp: dl_inv_def)
  have dl': "dl' = process_completion tbs dl2"
    using inv(2,3) assms(2) unfolding assms(4) dl2_def dl1_def w1_def
    by (auto simp: dl_process_def dl_active_def case_prod_beta)
  have len: "length (fst (entry_bytes cf junk (dl_owner dl) ?now (dc_items (dl_config dl)) w)) = unat (re_entry_size (dl_encoder dl))"
    using ring unfolding dl_ring_def by blast
  note step = encode_next_entry_ring [where timebases = tbs, OF refl assms(3) len]
  have bs: "fst (entry_bytes cf junk (dl_owner dl) ?now (dc_items (dl_config dl)) w) = ?bs"
    by (simp add: call_snapshot_def)
  have one: "if dl_decimation_counter dl + 1 < dc_decimation (dl_config dl)
     then ring_holds (dl_encoder dl1) hist \<and> dl_decimation_counter dl1 = dl_decimation_counter dl + 1
     else ring_holds (dl_encoder dl1) (hist @ [?bs]) \<and> dl_decimation_counter dl1 = 0"
    using step(1) assms(3) bs
    by (auto simp: dl1_def process_acquisition_def Let_def case_prod_beta not_less)
  have same1: "same_log dl dl1"
    using step(3,5) by (simp add: same_log_def dl1_def process_acquisition_def Let_def case_prod_beta)
  note c2 = process_trigger_cases [of cf tbs junk dl1 w1, folded dl2_def]
  have enc2: "dl_encoder dl2 = dl_encoder dl1 \<or> dl_encoder dl2 = reset_write_counter (dl_encoder dl1)" using c2 by blast
  then have holds2: "ring_holds (dl_encoder dl2) = ring_holds (dl_encoder dl1)"
    and log2: "re_timebase (dl_encoder dl2) = re_timebase (dl_encoder dl1)" "re_max_entries (dl_encoder dl2) = re_max_entries (dl_encoder dl1)"
    by (auto simp: reset_write_counter_def)
  have f2: "dl_config dl2 = dl_config dl1" "dl_owner dl2 = dl_owner dl1" "dl_decimation_counter dl2 = dl_decimation_counter dl1"
    by (simp_all add: dl2_def trigger_owner)
  show "same_log dl dl'" using same1 f2 log2 by (simp add: same_log_def dl' completion_owner)
  show third: "if dl_decimation_counter dl + 1 < dc_decimation (dl_config dl)
     then ring_holds (dl_encoder dl') hist \<and> dl_decimation_counter dl' = dl_decimation_counter dl + 1
     else ring_holds (dl_encoder dl') (hist @ [?bs]) \<and> dl_decimation_counter dl' = 0"
    using one by (simp add: dl' f2 holds2)
  have "dl_active (dl_state dl2)" using c2 inv(2) by (auto simp: dl1_def dl_active_def)
  then have act: "dl_active (dl_state dl')" by (simp add: dl' completion_active)
  moreover have "\<exists>h. ring_holds (dl_encoder dl') h" using third by (auto split: if_splits)
  then have "\<not> re_error (dl_encoder dl')" by (auto simp: ring_holds_def ring_ok_def Let_def)
  ultimately show "running cf dl'" using inv_process [OF inv(1), of tbs junk w] by (simp add: running_def assms(4))
qed

lemma session_ring:
  assumes "running cf dl" "ring_holds (dl_encoder dl) hist" "until_completed cf evs dl"
  shows "ring_holds (dl_encoder (dl_session cf evs dl)) (hist @ map (call_snapshot cf (dl_config dl) (re_timebase (dl_encoder dl)) (dl_owner dl))
      (every_from (unat (dc_decimation (dl_config dl))) (unat (dl_decimation_counter dl)) (process_calls evs)))
    \<and> same_log dl (dl_session cf evs dl)"
  using assms
proof (induction evs arbitrary: dl hist)
  case (Cons ev evs)
  let ?dl = "dl_event_step cf ev dl"
  have go: "until_completed cf evs ?dl" "dl_state dl \<noteq> DL_AcquisitionCompleted" using Cons.prems(3) by simp_all
  show ?case
  proof (cases ev)
    case (Process call)
    obtain tbs junk w where call: "call = (tbs, junk, w)" by (cases call)
    have dl': "?dl = fst (dl_process cf tbs junk dl w)" by (simp add: Process call)
    note st = process_step [OF Cons.prems(1) go(2) Cons.prems(2) dl']
    have logs: "dl_config ?dl = dl_config dl" "dl_owner ?dl = dl_owner dl" "re_timebase (dl_encoder ?dl) = re_timebase (dl_encoder dl)"
      using st(2) by (simp_all add: same_log_def)
    have counter: "dl_decimation_counter dl + 1 < dc_decimation (dl_config dl)
        \<longleftrightarrow> unat (dl_decimation_counter dl) + 1 < unat (dc_decimation (dl_config dl))"
      and suc: "unat (dl_decimation_counter dl + 1) = unat (dl_decimation_counter dl) + 1"
    proof -
      have "dl_decimation_counter dl < dc_decimation (dl_config dl)"
        using Cons.prems(1) by (auto simp: running_def dl_inv_def dl_ring_def)
      then have "unat (dl_decimation_counter dl) < unat (dc_decimation (dl_config dl))" by (simp add: word_less_nat_alt)
      then have "unat (dl_decimation_counter dl) + 1 < 65536"
        using unat_u16_lt [of "dc_decimation (dl_config dl)"] by linarith
      then show "unat (dl_decimation_counter dl + 1) = unat (dl_decimation_counter dl) + 1"
        by (simp add: unat_word_ariths)
      then show "dl_decimation_counter dl + 1 < dc_decimation (dl_config dl)
        \<longleftrightarrow> unat (dl_decimation_counter dl) + 1 < unat (dc_decimation (dl_config dl))"
        by (simp add: word_less_nat_alt)
    qed
    show ?thesis
    proof (cases "dl_decimation_counter dl + 1 < dc_decimation (dl_config dl)")
      case True
      then have "ring_holds (dl_encoder ?dl) hist" "dl_decimation_counter ?dl = dl_decimation_counter dl + 1" using st(3) by simp_all
      from Cons.IH [OF st(1) this(1) go(1)] this(2) show ?thesis
        using True counter suc same_log_trans [OF st(2)] by (simp add: Process logs [unfolded Process dl_event_step.simps])
    next
      case False
      then have "ring_holds (dl_encoder ?dl) (hist @ [call_snapshot cf (dl_config dl) (re_timebase (dl_encoder dl)) (dl_owner dl) call])"
        "dl_decimation_counter ?dl = 0" using st(3) by (simp_all add: call)
      from Cons.IH [OF st(1) this(1) go(1)] this(2) show ?thesis
        using False counter same_log_trans [OF st(2)] by (simp add: Process logs [unfolded Process dl_event_step.simps])
    qed
  next
    case Arm
    note st = order_step [OF Cons.prems(1), of ev]
    show ?thesis using Cons.IH [of ?dl hist] st go(1) Cons.prems(2) same_log_trans by (simp add: Arm same_log_def)
  next
    case Disarm
    note st = order_step [OF Cons.prems(1), of ev]
    show ?thesis using Cons.IH [of ?dl hist] st go(1) Cons.prems(2) same_log_trans by (simp add: Disarm same_log_def)
  next
    case Force
    note st = order_step [OF Cons.prems(1), of ev]
    show ?thesis using Cons.IH [of ?dl hist] st go(1) Cons.prems(2) same_log_trans by (simp add: Force same_log_def)
  qed
qed (simp add: same_log_def)

section \<open>From the configuration to the download\<close>

lemma configured_running:
  assumes "dl_reachable cf dl0" "rpvs_supported cf" "dl = dl_configure cf (Some l) config_id (dl0\<lparr>dl_config := dc\<rparr>)"
    and "dl_state dl = DL_Configured" "\<not> re_error (dl_encoder dl)"
  shows "running cf dl" "ring_holds (dl_encoder dl) []" "dl_decimation_counter dl = 0" "dl_config dl = dc"
    "re_timebase (dl_encoder dl) = Some l" "0 < unat (dc_decimation dc)"
proof -
  have inv: "dl_inv cf dl0" by (rule dl_reachable_inv [OF assms(1,2)])
  then obtain buf where buf: "re_buffer (dl_encoder dl0) = Some buf" "length buf = unat (re_buffer_size (dl_encoder dl0))"
    unfolding dl_inv_def by metis
  let ?e = "set_timebase (Some l) (dl_encoder dl0)"
  have e: "re_buffer ?e = Some buf" "length buf = unat (re_buffer_size ?e)" "re_timebase ?e = Some l"
    using buf by (simp_all add: set_timebase_def)
  have enc: "dl_encoder dl = re_reset cf dc ?e" and fields: "dl_decimation_counter dl = 0" "dl_config dl = dc"
    using assms(4) by (auto simp: assms(3) dl_configure_def dl_reset_def Let_def split: if_splits)
  note reset = re_reset_ring [OF e(1,2) assms(5) [unfolded enc] assms(2)]
  show "ring_holds (dl_encoder dl) []" "re_timebase (dl_encoder dl) = Some l"
    unfolding enc using reset(1,3) e(3) by simp_all
  show run: "running cf dl"
    using inv_configure [OF inv assms(2), of l config_id dc] assms(4,5)
    by (simp add: running_def assms(3) [symmetric] dl_active_def)
  show "dl_decimation_counter dl = 0" "dl_config dl = dc" by (fact fields)+
  have "dl_ring cf dl" using run by (simp add: running_def dl_inv_def)
  then have "dl_decimation_counter dl < dc_decimation (dl_config dl)" by (simp add: dl_ring_def)
  then show "0 < unat (dc_decimation dc)" by (simp add: fields word_less_nat_alt)
qed

text \<open>
  C33: an acquisition, from its configuration to its download. After a configuration that the
  datalogger accepts, in whatever order the trigger is armed, disarmed and forced between the calls
  of \<open>process\<close> until the acquisition is completed, requests with a transmission buffer of \<open>M\<close> bytes get,
  in as many responses as the bytes and the CRC need, numbered from 0, the snapshots of the loggable
  items that every \<open>decimation\<close>-th call of \<open>process\<close> saw, as many of the last ones as the buffer holds,
  oldest first, followed by their CRC; the last response, and no other, says that it is the last.
\<close>

theorem acquisition_end_to_end:
  assumes "dl_reachable cf dl0" "rpvs_supported cf" "dl = dl_configure cf (Some l) config_id (dl0\<lparr>dl_config := dc\<rparr>)"
    and "dl_state dl = DL_Configured" "\<not> re_error (dl_encoder dl)"
    and "until_completed cf evs dl" "md_datalogger d = dl_session cf evs dl"
    and "md_owner d \<noteq> None" "datalogging_data_available d" "\<not> md_reading_in_progress d"
    and "logged = every (unat (dc_decimation dc)) (process_calls evs)" "logged \<noteq> []"
    and "bs = concat (kept (unat (re_max_entries (dl_encoder dl))) (map (call_snapshot cf dc (Some l) (dl_owner dl)) logged))"
    and "\<forall>rs \<in> set rss. rs_ready rs \<and> unat (rs_data_max_length rs) = M" "4 < M"
    and "length rss = (length bs + M - 1) div (M - 4)"
  shows "\<exists>ps d'. downloads rss d = Some (ps, d') \<and> length ps = length rss \<and> \<not> md_reading_in_progress d'
    \<and> (\<forall>j < length ps. fst (ps ! j) = RC_OK \<and> take 4 (snd (ps ! j))
          = piece_header (j = length ps - 1) (of_nat j) (dl_acquisition_id (md_datalogger d)))
    \<and> concat (map (\<lambda>p. drop 4 (snd p)) ps) = bs @ encode_32_bits_big_endian (crc32 bs 0)"
proof -
  note start = configured_running [OF assms(1-5)]
  let ?hist = "map (call_snapshot cf dc (Some l) (dl_owner dl)) logged"
  have "every_from (unat (dc_decimation dc)) 0 (process_calls evs) = logged"
    using start(6) by (simp add: every_eq assms(11))
  then have ring: "ring_holds (dl_encoder (md_datalogger d)) ?hist"
    and same: "re_max_entries (dl_encoder (md_datalogger d)) = re_max_entries (dl_encoder dl)"
    using session_ring [OF start(1,2) assms(6)] start(3-5) by (simp_all add: assms(7) same_log_def)
  have bs: "bs = concat (drop (length ?hist - unat (re_max_entries (dl_encoder (md_datalogger d)))) ?hist)"
    by (simp add: assms(13) kept_def same)
  show ?thesis
    by (rule acquisition_downloaded [OF ring _ assms(8-10,14,15) bs assms(16)]) (use assms(12) in simp)
qed

text \<open>The demonstration configuration, armed before two calls, the second of which completes it.\<close>

definition demo_events :: "unit dl_event list" where
  "demo_events = [Arm, Process (demo_process_call 1), Process (demo_process_call 2)]"

definition demo_session :: "unit datalogging" where
  "demo_session = (demo_completed re_new)\<lparr>md_datalogger := dl_session config_clear demo_events demo_configured\<rparr>"

lemma demo_two_snapshots:
  "map (call_snapshot config_clear demo_dl_config (Some 0) None) [demo_process_call 1, demo_process_call 2]
    = [[101, 102], [102, 103]]"
  by (simp add: call_snapshot_def demo_process_call_def demo_config_items demo_item_def encode_item_def
      mem_read_def upt_rec)

lemma demo_until_completed: "until_completed config_clear demo_events demo_configured"
proof -
  have "dl_state (dl_run config_clear [demo_process_call 1] (arm_trigger demo_configured)) = DL_Triggered"
    using demo_triggered_eq by (simp add: demo_triggered_def)
  then show ?thesis
    by (simp add: demo_events_def arm_trigger_def demo_configured_eq)
qed

lemma acquisition_end_to_end_witness:
  "\<exists>ps d'. downloads [demo_piece_response] demo_session = Some (ps, d')
    \<and> concat (map (\<lambda>p. drop 4 (snd p)) ps)
        = [101, 102, 102, 103] @ encode_32_bits_big_endian (crc32 [101, 102, 102, 103] 0)"
proof -
  have ready: "\<forall>rs \<in> set [demo_piece_response]. rs_ready rs \<and> unat (rs_data_max_length rs) = 32"
    by (simp add: demo_piece_response_def rs_ready_def)
  have init: "dl_reachable config_clear demo_initialised"
    unfolding demo_initialised_def by (rule reach_init) simp_all
  have logged: "[demo_process_call 1, demo_process_call 2]
      = every (unat (dc_decimation demo_dl_config)) (process_calls demo_events)"
    by (simp add: demo_events_def demo_dl_fields every_def upt_rec)
  have cfg: "dl_state demo_configured = DL_Configured" "\<not> re_error (dl_encoder demo_configured)"
    "re_max_entries (dl_encoder demo_configured) = 2" "dl_owner demo_configured = None"
    by (simp_all add: demo_configured_eq demo_initialised_eq demo_new_datalogger_def)
  have fields: "md_datalogger demo_session = dl_session config_clear demo_events demo_configured"
    "md_owner demo_session \<noteq> None" "datalogging_data_available demo_session" "\<not> md_reading_in_progress demo_session"
    by (simp_all add: demo_session_def demo_completed_def datalogging_data_available_def)
  have bs: "[101, 102, 102, 103] = concat (kept (unat (re_max_entries (dl_encoder demo_configured)))
      (map (call_snapshot config_clear demo_dl_config (Some 0) (dl_owner demo_configured))
        [demo_process_call 1, demo_process_call 2]))"
    unfolding cfg(4) demo_two_snapshots by (simp add: cfg(3) kept_def)
  show ?thesis
    using acquisition_end_to_end [OF init demo_supported demo_configured_def cfg(1,2) demo_until_completed fields
        logged _ bs ready] by (simp del: downloads.simps) blast
qed

end
