(* ===== verification/Ownership.thy ===== *)
theory Ownership
  imports MainSession
begin

text \<open>
  The ownership of the datalogger, which the main handler and the loop handlers hand to one another
  through their mailboxes. The tasks are interleaved: a step is one pass of the main handler over
  the messages of the loops, one pass over its messages to them, one datalogging request, one call
  of a loop's \<open>process\<close>, or a change of the target's memory. The lemmas follow the ownership through its phases; a request that
  configures the datalogger while an offer of ownership is still on its way breaks them.
\<close>

section \<open>Steps\<close>

type_synonym 'u shared = "'u datalogging \<times> loops \<times> 'u world"

text \<open>The requests that come are those that \<open>ok\<close> lets through.\<close>

inductive own_step :: "'u config \<Rightarrow> (request \<Rightarrow> 'u shared \<Rightarrow> bool) \<Rightarrow> 'u shared \<Rightarrow> 'u shared \<Rightarrow> bool" for cf ok where
  messages: "process_loops (config_loops cf) d loops = (d', loops') \<Longrightarrow> own_step cf ok (d, loops, w) (d', loops', w)"
| logic: "process_datalogging_logic d loops = (d', loops') \<Longrightarrow> own_step cf ok (d, loops, w) (d', loops', w)"
| request: "ok rq (d, loops, w) \<Longrightarrow> process_datalog_control cf loops rq d rs = Some (code, d', rs') \<Longrightarrow>
    own_step cf ok (d, loops, w) (d', loops, w)"
| loop: "l \<in> set (config_loops cf) \<Longrightarrow>
    process_common cf junk l timestep loops (md_datalogger d) w = (loops', dl', w') \<Longrightarrow>
    own_step cf ok (d, loops, w) (d\<lparr>md_datalogger := dl'\<rparr>, loops', w')"
| target: "own_step cf ok (d, loops, w) (d, loops, w')"

section \<open>What the steps do to the ownership\<close>

definition boxes_in :: "loops \<Rightarrow> loop_ref \<Rightarrow> main2loop_message option" where
  "boxes_in loops l = ipc_content (lp_main2loop_msg (loops l))"

definition boxes_out :: "loops \<Rightarrow> loop_ref \<Rightarrow> loop2main_message option" where
  "boxes_out loops l = ipc_content (lp_loop2main_msg (loops l))"

lemma boxes_upd [simp]:
  "boxes_in (loops(l := x)) = (boxes_in loops)(l := ipc_content (lp_main2loop_msg x))"
  "boxes_out (loops(l := x)) = (boxes_out loops)(l := ipc_content (lp_loop2main_msg x))"
  by (auto simp: boxes_in_def boxes_out_def)

lemma boxes_full:
  "ipc_has_content (lp_main2loop_msg (loops l)) \<longleftrightarrow> boxes_in loops l \<noteq> None"
  "ipc_has_content (lp_loop2main_msg (loops l)) \<longleftrightarrow> boxes_out loops l \<noteq> None"
  by (simp_all add: boxes_in_def boxes_out_def ipc_full)

lemma main_send_boxes [simp]:
  "boxes_in (main_send l msg loops) = (boxes_in loops)(l := Some msg)"
  "boxes_out (main_send l msg loops) = boxes_out loops"
  by (auto simp: main_send_def) (auto simp: boxes_out_def)

text \<open>The datalogger's own operations leave its owner alone.\<close>

lemma dl_owner_kept [simp]:
  "dl_owner (dl_reset dl) = dl_owner dl" "dl_owner (arm_trigger dl) = dl_owner dl"
  "dl_owner (disarm_trigger dl) = dl_owner dl" "dl_owner (dl_configure cf tb cid dl) = dl_owner dl"
  "dl_owner (fst (dl_process cf tbs junk dl w)) = dl_owner dl"
  by (simp_all add: dl_reset_def arm_trigger_def disarm_trigger_def dl_configure_def Let_def)
    (simp add: dl_process_def process_trigger_def process_completion_def process_acquisition_def check_trigger_def
      stamp_trigger_point_def Let_def case_prod_beta split: option.split)

text \<open>A loop that owns the datalogger reports something when its answer has room.\<close>

definition report :: "loop2main_message \<Rightarrow> bool" where
  "report msg = (case msg of DATALOGGER_DATA_ACQUIRED \<Rightarrow> True | DATALOGGER_STATUS_UPDATE _ _ _ \<Rightarrow> True | _ \<Rightarrow> False)"

lemma report_simps [simp]:
  "report DATALOGGER_DATA_ACQUIRED" "report (DATALOGGER_STATUS_UPDATE a b c)"
  "\<not> report DATALOGGER_OWNERSHIP_TAKEN" "\<not> report DATALOGGER_OWNERSHIP_RELEASED"
  by (simp_all add: report_def)

text \<open>What a call of the loop \<open>me\<close> makes of the two boxes and the owner.\<close>

inductive loop_effect ::
  "loop_ref \<Rightarrow> main2loop_message option \<Rightarrow> loop2main_message option \<Rightarrow> loop_ref option \<Rightarrow>
   main2loop_message option \<Rightarrow> loop2main_message option \<Rightarrow> loop_ref option \<Rightarrow> bool" for me where
  taken: "loop_effect me (Some TAKE_DATALOGGER_OWNERSHIP) None own None (Some DATALOGGER_OWNERSHIP_TAKEN) (Some me)"
| released: "loop_effect me (Some RELEASE_DATALOGGER_OWNERSHIP) None (Some me) None (Some DATALOGGER_OWNERSHIP_RELEASED) None"
| refused: "own \<noteq> Some me \<Longrightarrow> msg \<noteq> TAKE_DATALOGGER_OWNERSHIP \<Longrightarrow> loop_effect me (Some msg) None own None None own"
| ordered: "msg = DATALOGGER_ARM_TRIGGER \<or> msg = DATALOGGER_DISARM_TRIGGER \<Longrightarrow> report r \<Longrightarrow>
    loop_effect me (Some msg) None (Some me) None (Some r) (Some me)"
| reported: "report r \<Longrightarrow> loop_effect me None None (Some me) None (Some r) (Some me)"
| idle: "box_out \<noteq> None \<or> box_in = None \<and> own \<noteq> Some me \<Longrightarrow> loop_effect me box_in box_out own box_in box_out own"

lemma process_common_effect:
  assumes "process_common cf junk me timestep loops dl w = (loops', dl', w')"
  shows "\<exists>i r. boxes_in loops' = (boxes_in loops)(me := i) \<and> boxes_out loops' = (boxes_out loops)(me := r)
    \<and> loop_effect me (boxes_in loops me) (boxes_out loops me) (dl_owner dl) i r (dl_owner dl')"
proof -
  define l where "l = (loops me)\<lparr>lp_timebase := tb_step timestep (lp_timebase (loops me))\<rparr>"
  obtain l1 dl1 where handled: "loop_handle_message me l dl = (l1, dl1)" by force
  obtain dl2 w2 where run: "dl_process cf (timebases (loops(me := l1))) junk dl1 w = (dl2, w2)" by force
  have own2: "dl_owner dl2 = dl_owner dl1"
    using dl_owner_kept(5) [of cf "timebases (loops(me := l1))" junk dl1 w] by (simp add: run)
  let ?i = "boxes_in loops me" and ?o = "boxes_out loops me"
  have l: "ipc_content (lp_main2loop_msg l) = ?i" "ipc_content (lp_loop2main_msg l) = ?o"
    by (simp_all add: l_def boxes_in_def boxes_out_def)
  have l1: "ipc_content (lp_main2loop_msg l1) = (if ?i \<noteq> None \<and> ?o = None then None else ?i)
    \<and> (?i = None \<or> ?o \<noteq> None \<longrightarrow> ipc_content (lp_loop2main_msg l1) = ?o \<and> dl_owner dl1 = dl_owner dl)
    \<and> (\<forall>msg. ?i = Some msg \<and> ?o = None \<longrightarrow>
         ipc_content (lp_loop2main_msg l1) =
           (if msg = TAKE_DATALOGGER_OWNERSHIP then Some DATALOGGER_OWNERSHIP_TAKEN
            else if msg = RELEASE_DATALOGGER_OWNERSHIP \<and> dl_owner dl = Some me then Some DATALOGGER_OWNERSHIP_RELEASED
            else None)
       \<and> dl_owner dl1 =
           (if msg = TAKE_DATALOGGER_OWNERSHIP then Some me
            else if msg = RELEASE_DATALOGGER_OWNERSHIP \<and> dl_owner dl = Some me then None else dl_owner dl))"
    using handled l ipc_popped [of "lp_main2loop_msg l"]
    by (auto simp: loop_handle_message_def ipc_full loop_send_def owns_datalogger_def set_owner_def case_prod_beta
        Let_def split: main2loop_message.splits if_splits)
  have rep: "ipc_content (lp_main2loop_msg (loop_report l1 dl2)) = ipc_content (lp_main2loop_msg l1)"
    "\<exists>r. report r \<and> ipc_content (lp_loop2main_msg (loop_report l1 dl2))
      = (if ipc_content (lp_loop2main_msg l1) = None then Some r else ipc_content (lp_loop2main_msg l1))"
    by (auto simp: loop_report_def loop_send_def ipc_full intro: report_simps)
  then obtain r where r: "report r" "ipc_content (lp_loop2main_msg (loop_report l1 dl2))
      = (if ipc_content (lp_loop2main_msg l1) = None then Some r else ipc_content (lp_loop2main_msg l1))" by blast
  have res: "boxes_in loops' = (boxes_in loops)(me := ipc_content (lp_main2loop_msg l1))"
    "boxes_out loops' = (boxes_out loops)(me := if dl_owner dl1 = Some me \<and> ipc_content (lp_loop2main_msg l1) = None
       then Some r else ipc_content (lp_loop2main_msg l1))"
    "dl_owner dl' = dl_owner dl1"
    using assms handled run own2 rep(1) r(2)
    by (auto simp: process_common_def l_def owns_datalogger_def Let_def split: if_splits)
  have "loop_effect me ?i ?o (dl_owner dl) (ipc_content (lp_main2loop_msg l1))
    (if dl_owner dl1 = Some me \<and> ipc_content (lp_loop2main_msg l1) = None
       then Some r else ipc_content (lp_loop2main_msg l1)) (dl_owner dl1)"
  proof (cases "?i = None \<or> ?o \<noteq> None")
    case True
    then show ?thesis using l1 r(1) by (cases ?o) (auto intro: loop_effect.intros)
  next
    case False
    then obtain msg where msg: "?i = Some msg" "?o = None" by auto
    with l1 r(1) show ?thesis
      by (cases msg; cases "dl_owner dl = Some me") (simp_all add: loop_effect.intros)
  qed
  then show ?thesis unfolding res by blast
qed

text \<open>What the requests and the main handler's own pass do.\<close>

definition array_ok :: "'u config \<Rightarrow> bool" where
  "array_ok cf = (case cf_loops cf of None \<Rightarrow> False | Some ls \<Rightarrow> unat (cf_loop_count cf) \<le> length ls)"

lemma array_ok_nth:
  assumes "array_ok cf" "i < cf_loop_count cf"
  shows "the (cf_loops cf) ! unat i \<in> set (config_loops cf)"
proof -
  obtain ls where ls: "cf_loops cf = Some ls" "unat (cf_loop_count cf) \<le> length ls"
    using assms(1) by (auto simp: array_ok_def split: option.splits)
  have "unat i < unat (cf_loop_count cf)" using assms(2) by (simp add: word_less_nat_alt)
  then show ?thesis
    using ls by (auto simp: config_loops_def array_upto_def in_set_conv_nth intro!: exI [of _ "unat i"])
qed

definition same_ownership :: "'u datalogging \<Rightarrow> 'u datalogging \<Rightarrow> bool" where
  "same_ownership d d' = (md_owner d' = md_owner d \<and> md_error d' = md_error d
     \<and> md_pending_ownership_release d' = md_pending_ownership_release d
     \<and> dl_owner (md_datalogger d') = dl_owner (md_datalogger d))"

definition same_requests :: "'u datalogging \<Rightarrow> 'u datalogging \<Rightarrow> bool" where
  "same_requests d d' = (same_ownership d d' \<and> md_new_owner d' = md_new_owner d
     \<and> (md_request_ownership_release d' \<longrightarrow> md_request_ownership_release d
          \<or> md_owner d \<noteq> None \<and> \<not> md_pending_ownership_release d))"

lemma configure_effect:
  assumes "datalog_configure cf loops rq d = (code, d')" "array_ok cf"
  shows "same_ownership d d'
    \<and> (md_request_ownership_release d' \<longrightarrow> md_request_ownership_release d \<or> md_owner d \<noteq> None \<and> \<not> md_pending_ownership_release d)
    \<and> (md_new_owner d' = md_new_owner d
       \<or> md_owner d = None \<and> code = RC_OK \<and> (\<exists>l \<in> set (config_loops cf). md_new_owner d' = Some l))
    \<and> (code = RC_OK \<longrightarrow> md_owner d = None \<and> (\<exists>l \<in> set (config_loops cf). md_new_owner d' = Some l))
    \<and> (md_owner d \<noteq> None \<longrightarrow> code = RC_ProcessAgain)"
proof (cases "md_owner d")
  case None
  then show ?thesis
    using assms array_ok_nth [OF assms(2)]
    by (auto simp: datalog_configure_def same_ownership_def on_datalogger_def Let_def not_le case_prod_beta
        split: if_splits prod.splits)
next
  case (Some l)
  then show ?thesis
    using assms by (auto simp: datalog_configure_def same_ownership_def request_release_def Let_def split: if_splits)
qed

lemma request_effect:
  assumes "process_datalog_control cf loops rq d rs = Some (code, d', rs')" "array_ok cf"
  shows "same_requests d d' \<or> rq_subfunction_id rq = DataLogControl_Configure \<and> md_owner d = None
    \<and> same_ownership d d' \<and> (md_request_ownership_release d' \<longrightarrow> md_request_ownership_release d)
    \<and> (\<exists>l \<in> set (config_loops cf). md_new_owner d' = Some l)"
proof (cases "rq_subfunction_id rq = DataLogControl_Configure \<and> is_datalogging_configured cf")
  case True
  obtain code1 d1 where conf: "datalog_configure cf loops rq d = (code1, d1)" by force
  from assms(1) True conf have "d' = (if code1 \<noteq> RC_OK \<and> code1 \<noteq> RC_ProcessAgain then on_datalogger dl_reset d1 else d1)"
    by (auto simp: process_datalog_control_def Let_def)
  with configure_effect [OF conf assms(2)] True show ?thesis
    by (auto simp: same_requests_def same_ownership_def on_datalogger_def)
next
  case False
  have ra: "dl_owner (md_datalogger d') = dl_owner (md_datalogger d) \<and> same_requests d d'"
    if "datalog_read_acquisition d rs = Some (code, d', rs')"
    using that by (auto simp: datalog_read_acquisition_def same_requests_def same_ownership_def on_datalogger_def Let_def
        split: if_splits option.splits prod.splits)
  show ?thesis
    using assms(1) False ra
    by (auto simp: process_datalog_control_def datalog_arm_trigger_def datalog_disarm_trigger_def datalog_reset_def
        request_release_def on_datalogger_def same_requests_def same_ownership_def Let_def
        split: if_splits prod.splits)
qed

section \<open>Phases of the ownership\<close>

text \<open>
  Nobody owns the datalogger; it is offered to a loop; the loop has taken it and says so; the main
  handler knows; the loop has given it back and says so.
\<close>

datatype phase =
  Free | Offered loop_ref | Taken loop_ref | Owned loop_ref | Released loop_ref

inductive next_phase :: "phase \<Rightarrow> phase \<Rightarrow> bool" where
  "next_phase Free (Offered l)" | "next_phase (Offered l) (Taken l)" | "next_phase (Taken l) (Owned l)"
| "next_phase (Owned l) (Released l)" | "next_phase (Released l) Free"

type_synonym in_box = "loop_ref \<Rightarrow> main2loop_message option"
type_synonym out_box = "loop_ref \<Rightarrow> loop2main_message option"

text \<open>
  An order to arm or disarm the trigger may stay behind in the box of a loop that no longer owns
  the datalogger: the loop will ignore it.
\<close>

definition order_only :: "main2loop_message option \<Rightarrow> bool" where
  "order_only x = (\<forall>m. x = Some m \<longrightarrow> m = DATALOGGER_ARM_TRIGGER \<or> m = DATALOGGER_DISARM_TRIGGER)"

lemma order_only_simps [simp]:
  "order_only None" "order_only (Some DATALOGGER_ARM_TRIGGER)" "order_only (Some DATALOGGER_DISARM_TRIGGER)"
  "\<not> order_only (Some TAKE_DATALOGGER_OWNERSHIP)" "\<not> order_only (Some RELEASE_DATALOGGER_OWNERSHIP)"
  by (simp_all add: order_only_def)

definition quiet :: "loop_ref set \<Rightarrow> in_box \<Rightarrow> out_box \<Rightarrow> bool" where
  "quiet L i r = (\<forall>k \<in> L. order_only (i k) \<and> r k = None)"

text \<open>
  The owner that the main handler knows, the one that the datalogger has, whether a release is pending,
  and the boxes to and from the loops.
\<close>

fun in_phase :: "loop_ref set \<Rightarrow> phase \<Rightarrow> loop_ref option \<Rightarrow> loop_ref option \<Rightarrow> bool \<Rightarrow> in_box \<Rightarrow> out_box \<Rightarrow> bool" where
  "in_phase L Free own dl_own pending i r = (own = None \<and> dl_own = None \<and> \<not> pending \<and> quiet L i r)"
| "in_phase L (Offered l) own dl_own pending i r =
    (l \<in> L \<and> own = None \<and> dl_own = None \<and> \<not> pending \<and> quiet (L - {l}) i r
     \<and> i l = Some TAKE_DATALOGGER_OWNERSHIP \<and> r l = None)"
| "in_phase L (Taken l) own dl_own pending i r =
    (l \<in> L \<and> own = None \<and> dl_own = Some l \<and> \<not> pending \<and> quiet (L - {l}) i r
     \<and> order_only (i l) \<and> r l = Some DATALOGGER_OWNERSHIP_TAKEN)"
| "in_phase L (Owned l) own dl_own pending i r =
    (l \<in> L \<and> own = Some l \<and> dl_own = Some l \<and> quiet (L - {l}) i r
     \<and> (if pending then i l = Some RELEASE_DATALOGGER_OWNERSHIP else order_only (i l))
     \<and> (\<forall>m. r l = Some m \<longrightarrow> report m))"
| "in_phase L (Released l) own dl_own pending i r =
    (l \<in> L \<and> own = Some l \<and> dl_own = None \<and> pending \<and> quiet (L - {l}) i r
     \<and> order_only (i l) \<and> r l = Some DATALOGGER_OWNERSHIP_RELEASED)"

lemma quiet_upd_in: "quiet (L - {k}) (i(k := x)) r = quiet (L - {k}) i r"
  by (auto simp: quiet_def)

lemma quiet_upd_out: "quiet (L - {k}) i (r(k := x)) = quiet (L - {k}) i r"
  by (auto simp: quiet_def)

lemmas quiet_simps = quiet_upd_in quiet_upd_out

lemma quiet_all: "l \<in> L \<Longrightarrow> quiet L i r \<longleftrightarrow> quiet (L - {l}) i r \<and> order_only (i l) \<and> r l = None"
  by (auto simp: quiet_def)

fun phase_loop :: "phase \<Rightarrow> loop_ref option" where
  "phase_loop Free = None" | "phase_loop (Offered l) = Some l" | "phase_loop (Taken l) = Some l"
| "phase_loop (Owned l) = Some l" | "phase_loop (Released l) = Some l"

lemma in_phase_other:
  "in_phase L ph own dl_own pending i r \<Longrightarrow> me \<in> L \<Longrightarrow> phase_loop ph \<noteq> Some me \<Longrightarrow>
    order_only (i me) \<and> r me = None \<and> dl_own \<noteq> Some me \<and> own \<noteq> Some me
    \<and> (order_only x \<longrightarrow> in_phase L ph own dl_own pending (i(me := x)) r)"
  by (cases ph) (auto simp: quiet_def)

lemma effect_quiet:
  "loop_effect me i None own x y own' \<Longrightarrow> order_only i \<Longrightarrow> own \<noteq> Some me \<Longrightarrow> order_only x \<and> y = None \<and> own' = own"
  by (auto elim: loop_effect.cases)

text \<open>A loop moves the phase on, or leaves it as it was.\<close>

lemma phase_loop_step:
  assumes "in_phase L ph own dl_own pending i r" "me \<in> L" "loop_effect me (i me) (r me) dl_own x y dl_own'"
  shows "\<exists>ph'. in_phase L ph' own dl_own' pending (i(me := x)) (r(me := y)) \<and> (ph' = ph \<or> next_phase ph ph' \<and> ph \<noteq> Free)"
proof (cases "phase_loop ph = Some me")
  case False
  note other = in_phase_other [OF assms(1,2) False]
  then have new: "order_only x" "y = None" "dl_own' = dl_own" using effect_quiet assms(3) by auto
  have "r(me := y) = r" using other new(2) by auto
  then show ?thesis using other new(1,3) by auto
next
  case True
  show ?thesis
  proof (cases ph)
    case (Offered l)
    then have "x = None" "y = Some DATALOGGER_OWNERSHIP_TAKEN" "dl_own' = Some me"
      using assms(1,3) True by (auto elim: loop_effect.cases)
    then show ?thesis using assms(1) Offered True
      by (intro exI [of _ "Taken l"]) (auto simp: quiet_simps intro: next_phase.intros)
  next
    case (Taken l)
    then have "x = i me" "y = r me" "dl_own' = dl_own"
      using assms(1,3) True by (auto elim: loop_effect.cases)
    then show ?thesis using assms(1) by auto
  next
    case (Owned l)
    from assms(3) show ?thesis
    proof cases
      case released
      then show ?thesis using assms(1) Owned True
        by (intro exI [of _ "Released l"]) (auto simp: quiet_simps intro: next_phase.intros split: if_splits)
    qed (use assms(1) Owned True in \<open>auto simp: quiet_simps split: if_splits intro!: exI [of _ "Owned l"]\<close>)
  next
    case (Released l)
    then have "x = i me" "y = r me" "dl_own' = dl_own"
      using assms(1,3) True by (auto elim: loop_effect.cases)
    then show ?thesis using assms(1) by auto
  qed (use True in auto)
qed

section \<open>The invariant\<close>

definition own_inv :: "loop_ref set \<Rightarrow> phase \<Rightarrow> 'u datalogging \<Rightarrow> loops \<Rightarrow> bool" where
  "own_inv L ph d loops =
    (in_phase L ph (md_owner d) (dl_owner (md_datalogger d)) (md_pending_ownership_release d)
       (boxes_in loops) (boxes_out loops)
     \<and> md_error d = NoError
     \<and> (md_request_ownership_release d \<longrightarrow> md_owner d \<noteq> None \<and> \<not> md_pending_ownership_release d)
     \<and> (\<forall>l. md_new_owner d = Some l \<longrightarrow> l \<in> L \<and> ph = Free))"

lemma own_inv_message:
  assumes "own_inv L ph d loops" "l \<in> L" "boxes_out loops l = Some msg" "ipc_content box = None"
  defines "loops' \<equiv> loops(l := (loops l)\<lparr>lp_loop2main_msg := box\<rparr>)"
  shows "\<exists>ph'. own_inv L ph' (process_datalogging_loop_msg l msg d) loops' \<and> (ph' = ph \<or> next_phase ph ph')
    \<and> (\<forall>k \<in> L. boxes_out loops' k = None)"
proof -
  have boxes: "boxes_in loops' = boxes_in loops" "boxes_out loops' = (boxes_out loops)(l := None)"
    by (auto simp: loops'_def assms(4)) (auto simp: boxes_in_def)
  have "phase_loop ph = Some l"
    using in_phase_other [of L ph _ _ _ _ "boxes_out loops" l] assms(1-3) by (auto simp: own_inv_def)
  have out: "\<forall>k \<in> L. boxes_out loops' k = None"
  proof
    fix k assume "k \<in> L"
    then show "boxes_out loops' k = None"
      using in_phase_other [of L ph "md_owner d" "dl_owner (md_datalogger d)" "md_pending_ownership_release d"
          "boxes_in loops" "boxes_out loops" k] assms(1) \<open>phase_loop ph = Some l\<close>
      by (cases "k = l") (simp_all add: boxes own_inv_def)
  qed
  show ?thesis
  proof (cases ph)
    case (Taken k)
    then have "own_inv L (Owned l) (process_datalogging_loop_msg l msg d) loops'"
      using assms(1,3) \<open>phase_loop ph = Some l\<close>
      by (simp add: own_inv_def process_datalogging_loop_msg_def boxes quiet_simps)
    with out Taken \<open>phase_loop ph = Some l\<close> show ?thesis by (auto intro: next_phase.intros)
  next
    case (Owned k)
    have "own_inv L (Owned l) (process_datalogging_loop_msg l msg d) loops'"
      using assms(1,3) \<open>phase_loop ph = Some l\<close> Owned
      by (cases msg) (auto simp: own_inv_def process_datalogging_loop_msg_def boxes quiet_simps Let_def)
    with out Owned \<open>phase_loop ph = Some l\<close> show ?thesis by auto
  next
    case (Released k)
    then have "own_inv L Free (process_datalogging_loop_msg l msg d) loops'"
      using assms(1,3) \<open>phase_loop ph = Some l\<close>
      by (auto simp: own_inv_def process_datalogging_loop_msg_def boxes quiet_all [OF assms(2)] quiet_simps
          on_datalogger_def)
    with out Released \<open>phase_loop ph = Some l\<close> show ?thesis by (auto intro: next_phase.intros)
  qed (use assms(1,3) \<open>phase_loop ph = Some l\<close> in \<open>auto simp: own_inv_def\<close>)
qed

lemma process_loops_nothing:
  "\<forall>k \<in> set ls. boxes_out loops k = None \<Longrightarrow> process_loops ls d loops = (d, loops)"
  by (induction ls) (auto simp: boxes_full)

lemma process_loops_pop:
  assumes "boxes_out loops l = Some msg"
  shows "\<exists>loops1. process_loops (l # ls) d loops = process_loops ls (process_datalogging_loop_msg l msg d) loops1
    \<and> boxes_in loops1 = boxes_in loops \<and> boxes_out loops1 = (boxes_out loops)(l := None)
    \<and> (\<exists>box. ipc_content box = None \<and> loops1 = loops(l := (loops l)\<lparr>lp_loop2main_msg := box\<rparr>))"
proof -
  obtain box where pop: "ipc_pop (lp_loop2main_msg (loops l)) = (msg, box)" "ipc_content box = None"
    using assms ipc_popped [of "lp_loop2main_msg (loops l)" msg] ipc_simps(10) [of "lp_loop2main_msg (loops l)"]
    by (cases "ipc_pop (lp_loop2main_msg (loops l))") (auto simp: boxes_out_def)
  let ?loops = "loops(l := (loops l)\<lparr>lp_loop2main_msg := box\<rparr>)"
  have "boxes_in ?loops = boxes_in loops" "boxes_out ?loops = (boxes_out loops)(l := None)"
    by (auto simp: pop(2)) (auto simp: boxes_in_def)
  moreover have "process_loops (l # ls) d loops = process_loops ls (process_datalogging_loop_msg l msg d) ?loops"
    using assms pop(1) by (simp add: boxes_full)
  ultimately show ?thesis using pop(2) by blast
qed

lemma own_inv_messages:
  "own_inv L ph d loops \<Longrightarrow> set ls \<subseteq> L \<Longrightarrow> process_loops ls d loops = (d', loops') \<Longrightarrow>
    \<exists>ph'. own_inv L ph' d' loops' \<and> (ph' = ph \<or> next_phase ph ph')"
proof (induction ls)
  case (Cons l ls)
  show ?case
  proof (cases "boxes_out loops l")
    case None
    with Cons show ?thesis by (simp add: boxes_full)
  next
    case (Some msg)
    obtain loops1 box where pop: "process_loops (l # ls) d loops = process_loops ls (process_datalogging_loop_msg l msg d) loops1"
      "ipc_content box = None" "loops1 = loops(l := (loops l)\<lparr>lp_loop2main_msg := box\<rparr>)"
      using process_loops_pop [OF Some] by blast
    from own_inv_message [OF Cons.prems(1) _ Some pop(2)] Cons.prems(2) obtain ph' where
      ph': "own_inv L ph' (process_datalogging_loop_msg l msg d) loops1" "ph' = ph \<or> next_phase ph ph'"
      "\<forall>k \<in> L. boxes_out loops1 k = None" unfolding pop(3) by auto
    have "process_loops ls (process_datalogging_loop_msg l msg d) loops1 = (process_datalogging_loop_msg l msg d, loops1)"
      using bspec [OF ph'(3)] subsetD [OF Cons.prems(2)] by (intro process_loops_nothing ballI) (meson list.set_intros(2))
    then show ?thesis using Cons.prems(3) pop(1) ph'(1,2) by auto
  qed
qed auto

lemma own_inv_logic:
  assumes "own_inv L ph d loops" "process_datalogging_logic d loops = (d', loops')"
  shows "\<exists>ph'. own_inv L ph' d' loops' \<and> (ph' = ph \<or> next_phase ph ph')"
proof (cases "md_owner d")
  case None
  show ?thesis
  proof (cases "md_new_owner d")
    case None
    then have "own_inv L ph d' loops'"
      using assms \<open>md_owner d = None\<close> by (auto simp: process_datalogging_logic_def own_inv_def Let_def)
    then show ?thesis by blast
  next
    case (Some l)
    then have free: "ph = Free" "l \<in> L"
      using assms(1) by (auto simp: own_inv_def)
    show ?thesis
    proof (cases "boxes_in loops l")
      case full: (Some m)
      then have "own_inv L ph d' loops'"
        using assms \<open>md_owner d = None\<close> Some by (auto simp: process_datalogging_logic_def own_inv_def boxes_full)
      then show ?thesis by blast
    next
    case free3: None
    have "d' = d\<lparr>md_datalogger_state := dl_state (md_datalogger d), md_new_owner := None,
        md_request_arm_trigger := False, md_request_disarm_trigger := False\<rparr>"
      "loops' = main_send l TAKE_DATALOGGER_OWNERSHIP loops"
      using assms(1,2) \<open>md_owner d = None\<close> Some free3
      by (simp_all add: process_datalogging_logic_def boxes_full own_inv_def)
    then have "own_inv L (Offered l) d' loops'"
      using assms(1) free \<open>md_owner d = None\<close> by (simp add: own_inv_def quiet_all [OF free(2)] quiet_simps)
    then show ?thesis using free by (auto intro: next_phase.intros)
    qed
  qed
next
  case (Some l)
  have "own_inv L ph d' loops'"
    using assms Some
    by (cases ph) (auto simp: process_datalogging_logic_def own_inv_def boxes_full quiet_simps split: if_splits)
  then show ?thesis by blast
qed

text \<open>
  The discipline: no request to configure the datalogger while an offer of ownership is on its way to
  a loop, or the answer to it on its way back.
\<close>

definition offer_pending :: "'u config \<Rightarrow> loops \<Rightarrow> bool" where
  "offer_pending cf loops = (\<exists>l \<in> set (config_loops cf).
     boxes_in loops l = Some TAKE_DATALOGGER_OWNERSHIP \<or> boxes_out loops l = Some DATALOGGER_OWNERSHIP_TAKEN)"

definition calm :: "'u config \<Rightarrow> request \<Rightarrow> 'u shared \<Rightarrow> bool" where
  "calm cf rq s = (rq_subfunction_id rq = DataLogControl_Configure \<longrightarrow> \<not> offer_pending cf (fst (snd s)))"

lemma own_inv_request:
  assumes "own_inv (set (config_loops cf)) ph d loops" "array_ok cf" "calm cf rq (d, loops, w)"
    "process_datalog_control cf loops rq d rs = Some (code, d', rs')"
  shows "own_inv (set (config_loops cf)) ph d' loops"
  using request_effect [OF assms(4,2)]
proof
  assume "same_requests d d'"
  then show ?thesis using assms(1) by (auto simp: own_inv_def same_requests_def same_ownership_def)
next
  assume conf: "rq_subfunction_id rq = DataLogControl_Configure \<and> md_owner d = None
    \<and> same_ownership d d' \<and> (md_request_ownership_release d' \<longrightarrow> md_request_ownership_release d)
    \<and> (\<exists>l \<in> set (config_loops cf). md_new_owner d' = Some l)"
  with assms(3) have "\<not> offer_pending cf loops" by (simp add: calm_def)
  with assms(1) conf have "ph = Free" by (cases ph) (auto simp: own_inv_def offer_pending_def)
  with assms(1) conf show ?thesis by (auto simp: own_inv_def same_ownership_def)
qed

lemma own_inv_step:
  assumes "own_step cf (calm cf) (d, loops, w) (d', loops', w')" "own_inv (set (config_loops cf)) ph d loops" "array_ok cf"
  shows "\<exists>ph'. own_inv (set (config_loops cf)) ph' d' loops' \<and> (ph' = ph \<or> next_phase ph ph')"
  using assms(1)
proof cases
  case messages
  then show ?thesis using own_inv_messages [OF assms(2) subset_refl] by blast
next
  case logic
  then show ?thesis using own_inv_logic [OF assms(2)] by blast
next
  case (request rq rs code rs')
  then show ?thesis using own_inv_request [OF assms(2,3)] by blast
next
  case (loop me junk timestep dl')
  obtain i r where eff: "boxes_in loops' = (boxes_in loops)(me := i)" "boxes_out loops' = (boxes_out loops)(me := r)"
    "loop_effect me (boxes_in loops me) (boxes_out loops me) (dl_owner (md_datalogger d)) i r (dl_owner dl')"
    using process_common_effect [OF loop(3)] by blast
  have "in_phase (set (config_loops cf)) ph (md_owner d) (dl_owner (md_datalogger d))
      (md_pending_ownership_release d) (boxes_in loops) (boxes_out loops)"
    using assms(2) by (simp add: own_inv_def)
  from phase_loop_step [OF this loop(2) eff(3)] obtain ph' where
    ph': "in_phase (set (config_loops cf)) ph' (md_owner d) (dl_owner dl') (md_pending_ownership_release d)
        (boxes_in loops') (boxes_out loops')" "ph' = ph \<or> next_phase ph ph' \<and> ph \<noteq> Free"
    unfolding eff(1,2) by blast
  have "own_inv (set (config_loops cf)) ph' d' loops'"
    using ph' assms(2) loop(1) by (auto simp: own_inv_def)
  with ph'(2) show ?thesis by blast
next
  case target
  then show ?thesis using assms(2) by blast
qed

lemma own_inv_steps:
  assumes "(own_step cf (calm cf))\<^sup>*\<^sup>* s s'" "own_inv (set (config_loops cf)) ph (fst s) (fst (snd s))" "array_ok cf"
  shows "\<exists>ph'. own_inv (set (config_loops cf)) ph' (fst s') (fst (snd s')) \<and> next_phase\<^sup>*\<^sup>* ph ph'"
  using assms(1)
proof (induction rule: rtranclp_induct)
  case base
  with assms(2) show ?case by blast
next
  case (step s1 s2)
  then obtain ph1 where ph1: "own_inv (set (config_loops cf)) ph1 (fst s1) (fst (snd s1))" "next_phase\<^sup>*\<^sup>* ph ph1" by blast
  obtain ph2 where "own_inv (set (config_loops cf)) ph2 (fst s2) (fst (snd s2))" "ph2 = ph1 \<or> next_phase ph1 ph2"
    using own_inv_step [of cf "fst s1" "fst (snd s1)" "snd (snd s1)" "fst s2" "fst (snd s2)" "snd (snd s2)" ph1]
      step.hyps(2) ph1(1) assms(3) by auto
  with ph1(2) show ?case by (auto intro: rtranclp.rtrancl_into_rtrancl)
qed

lemma own_inv_init:
  assumes "\<forall>l \<in> L. loops l = loop_init (loops0 l)"
  shows "own_inv L Free (datalogging_init cf d0) loops"
  using assms
  by (simp add: own_inv_def datalogging_init_def on_datalogger_def dl_init_def quiet_def boxes_in_def boxes_out_def
      loop_init_def Let_def)

section \<open>One call of the main handler is a sequence of steps\<close>

lemma mh_loops_steps:
  assumes "mh_loops h loops = (h', loops')" "mh_config h = cf"
  shows "(own_step cf ok)\<^sup>*\<^sup>* (mh_datalogging h, loops, w) (mh_datalogging h', loops', w)"
proof -
  obtain d1 l1 where 1: "process_loops (config_loops cf) (mh_datalogging h) loops = (d1, l1)" by force
  obtain d2 l2 where 2: "process_datalogging_logic d1 l1 = (d2, l2)" by force
  have "mh_datalogging h' = d2" "loops' = l2" using assms 1 2 by (auto simp: mh_loops_def)
  then show ?thesis using own_step.messages [OF 1] own_step.logic [OF 2]
    by (meson rtranclp.rtrancl_into_rtrancl rtranclp.rtrancl_refl)
qed

lemma process_request_frame:
  assumes "process_request sid stk rq rs h loops w = Some (h', w', rs')"
  shows "mh_config h' = mh_config h
    \<and> (mh_datalogging h' = mh_datalogging h
       \<or> (\<exists>rs0 code rs1. process_datalog_control (mh_config h) loops rq (mh_datalogging h) rs0
             = Some (code, mh_datalogging h', rs1)))"
  using assms
  by (auto simp: process_request_def Let_def split: if_splits option.splits prod.splits)

lemma process_request_step:
  assumes "process_request sid stk rq rs h loops w = Some (h', w', rs')" "ok rq (mh_datalogging h, loops, w)" "mh_config h = cf"
  shows "(own_step cf ok)\<^sup>*\<^sup>* (mh_datalogging h, loops, w) (mh_datalogging h', loops, w')"
proof -
  have "(own_step cf ok)\<^sup>*\<^sup>* (mh_datalogging h, loops, w) (mh_datalogging h', loops, w)"
    using process_request_frame [OF assms(1)] assms(2,3) by (auto intro: own_step.request)
  then show ?thesis using own_step.target by (rule rtranclp.rtrancl_into_rtrancl)
qed

lemma conclude_frame [simp]:
  "mh_datalogging (conclude_request rs h) = mh_datalogging h" "mh_config (conclude_request rs h) = mh_config h"
  by (simp_all add: conclude_request_def on_comm_def Let_def)

lemma check_finished_frame [simp]:
  "mh_datalogging (check_finished_sending h) = mh_datalogging h" "mh_config (check_finished_sending h) = mh_config h"
  by (simp_all add: check_finished_sending_def on_comm_def Let_def)

lemma comm_process_request:
  "cm_request_received (comm_process tb c) \<Longrightarrow> cm_active_request (comm_process tb c) = cm_active_request c"
  by (auto simp: comm_process_def comm_reset_def reset_rx_def reset_tx_def Let_def split: if_splits)

lemma mh_process_steps:
  assumes "mh_process sid stk t h loops w = Some (h', loops', w')" "mh_enabled h" "mh_config h = cf"
    and ok: "\<And>d1 l1. process_loops (config_loops cf) (mh_datalogging h) loops = (d1, l1) \<Longrightarrow>
      ok (cm_active_request (mh_comm h)) (fst (process_datalogging_logic d1 l1), snd (process_datalogging_logic d1 l1), w)"
  shows "(own_step cf ok)\<^sup>*\<^sup>* (mh_datalogging h, loops, w) (mh_datalogging h', loops', w')"
proof -
  define h2 where "h2 = on_comm (comm_process (tb_step t (mh_timebase h))) (h\<lparr>mh_timebase := tb_step t (mh_timebase h)\<rparr>)"
  have h2: "mh_config h2 = cf" "mh_datalogging h2 = mh_datalogging h"
    "mh_comm h2 = comm_process (tb_step t (mh_timebase h)) (mh_comm h)"
    using assms(3) by (simp_all add: h2_def on_comm_def)
  obtain h3 l3 where 3: "mh_loops h2 loops = (h3, l3)" by force
  then have h3: "mh_config h3 = cf" "mh_comm h3 = mh_comm h2" using h2(1) by (auto simp: mh_loops_def split: prod.splits)
  obtain h4 w4 where 4: "handle_request sid stk h3 l3 w = Some (h4, w4)"
    using assms(1,2) 3 by (auto simp: mh_process_def h2_def Let_def split: option.splits)
  have 5: "mh_loops (check_finished_sending h4) l3 = (h', loops')" "w' = w4"
    using assms(1,2) 3 4 by (auto simp: mh_process_def h2_def Let_def split: prod.splits)
  have first: "(own_step cf ok)\<^sup>*\<^sup>* (mh_datalogging h, loops, w) (mh_datalogging h3, l3, w)"
    using mh_loops_steps [OF 3 h2(1)] h2(2) by simp
  have second: "(own_step cf ok)\<^sup>*\<^sup>* (mh_datalogging h3, l3, w) (mh_datalogging h4, l3, w4) \<and> mh_config h4 = cf"
  proof (cases "cm_request_received (mh_comm h3) \<and> \<not> mh_processing_request h3")
    case True
    then have rq: "cm_active_request (mh_comm h3) = cm_active_request (mh_comm h)"
      using comm_process_request [of _ "mh_comm h"] h3(2) h2(3) by simp
    obtain d1 l1 where 1: "process_loops (config_loops cf) (mh_datalogging h) loops = (d1, l1)" by force
    have dl: "(mh_datalogging h3, l3) = process_datalogging_logic d1 l1"
      using 3 1 h2 by (auto simp: mh_loops_def split: prod.splits)
    have allowed: "ok (cm_active_request (mh_comm h)) (mh_datalogging h3, l3, w)"
      using ok [OF 1] by (simp flip: dl)
    let ?p = "on_comm prepare_response h3"
    obtain h5 w5 rs where 6: "process_request sid stk (cm_active_request (mh_comm h)) (cm_active_response (mh_comm ?p)) ?p l3 w
        = Some (h5, w5, rs)" "h4 = conclude_request rs h5" "w4 = w5"
      using 4 True rq by (auto simp: handle_request_def on_comm_def prepare_response_def split: option.splits)
    have "mh_datalogging ?p = mh_datalogging h3" "mh_config ?p = cf" using h3 by (simp_all add: on_comm_def)
    then show ?thesis
      using process_request_step [OF 6(1), of ok cf] process_request_frame [OF 6(1)] allowed 6(2,3) by simp
  next
    case False
    then show ?thesis using 4 h3(1) by (auto simp: handle_request_def)
  qed
  have "(own_step cf ok)\<^sup>*\<^sup>* (mh_datalogging h4, l3, w4) (mh_datalogging h', loops', w')"
    using mh_loops_steps [OF 5(1), of cf ok w4] second 5(2) by simp
  with first second show ?thesis by (meson rtranclp_trans)
qed

section \<open>The error is for ever\<close>

definition stuck :: "loop_ref set \<Rightarrow> 'u datalogging \<Rightarrow> loops \<Rightarrow> bool" where
  "stuck L d loops = (md_error d \<noteq> NoError \<and> md_owner d \<noteq> None
     \<and> (\<forall>k \<in> L. boxes_in loops k \<noteq> Some RELEASE_DATALOGGER_OWNERSHIP
          \<and> boxes_out loops k \<noteq> Some DATALOGGER_OWNERSHIP_RELEASED))"

lemma process_loops_boxes:
  "process_loops ls d loops = (d', loops') \<Longrightarrow>
    boxes_in loops' = boxes_in loops \<and> (\<forall>k. boxes_out loops' k = None \<or> boxes_out loops' k = boxes_out loops k)"
proof (induction ls arbitrary: d loops)
  case (Cons l ls)
  show ?case
  proof (cases "boxes_out loops l")
    case None
    with Cons show ?thesis by (simp add: boxes_full)
  next
    case (Some msg)
    from process_loops_pop [OF Some, of ls d] obtain loops1 where
      1: "process_loops (l # ls) d loops = process_loops ls (process_datalogging_loop_msg l msg d) loops1"
      "boxes_in loops1 = boxes_in loops" "boxes_out loops1 = (boxes_out loops)(l := None)" by blast
    have "process_loops ls (process_datalogging_loop_msg l msg d) loops1 = (d', loops')" using Cons.prems 1(1) by simp
    from Cons.IH [OF this] show ?thesis using 1(2,3) by (auto split: if_splits)
  qed
qed simp

text \<open>A loop that claims while there is an owner, or two that claim: the error stays.\<close>

definition claims :: "loop_ref list \<Rightarrow> 'u datalogging \<Rightarrow> loops \<Rightarrow> bool" where
  "claims ls d loops =
    (md_error d \<noteq> NoError \<and> md_owner d \<noteq> None
     \<or> md_owner d \<noteq> None \<and> (\<exists>k \<in> set ls. boxes_out loops k = Some DATALOGGER_OWNERSHIP_TAKEN)
     \<or> (\<exists>j \<in> set ls. \<exists>k \<in> set ls. j \<noteq> k \<and> boxes_out loops j = Some DATALOGGER_OWNERSHIP_TAKEN
          \<and> boxes_out loops k = Some DATALOGGER_OWNERSHIP_TAKEN))"

lemma claims_message:
  assumes "claims (l # ls) d loops" "boxes_out loops l = Some msg" "msg \<noteq> DATALOGGER_OWNERSHIP_RELEASED"
    "boxes_out loops1 = (boxes_out loops)(l := None)"
  shows "claims ls (process_datalogging_loop_msg l msg d) loops1"
proof (cases "msg = DATALOGGER_OWNERSHIP_TAKEN")
  case True
  have "md_error d \<noteq> NoError \<or> md_owner d \<noteq> None
    \<or> (\<exists>k \<in> set ls. k \<noteq> l \<and> boxes_out loops k = Some DATALOGGER_OWNERSHIP_TAKEN)"
    using assms(1) by (auto simp: claims_def) metis
  then show ?thesis using True assms(4) by (auto simp: claims_def process_datalogging_loop_msg_def)
next
  case False
  have "md_owner (process_datalogging_loop_msg l msg d) = md_owner d \<and> md_error (process_datalogging_loop_msg l msg d) = md_error d"
    using False assms(3) by (cases msg) (auto simp: process_datalogging_loop_msg_def Let_def)
  then have same: "md_owner (process_datalogging_loop_msg l msg d) = md_owner d"
    "md_error (process_datalogging_loop_msg l msg d) = md_error d" by auto
  have other: "boxes_out loops1 k = Some DATALOGGER_OWNERSHIP_TAKEN \<longleftrightarrow> boxes_out loops k = Some DATALOGGER_OWNERSHIP_TAKEN" for k
    using assms(2,4) False by auto
  have "boxes_out loops l \<noteq> Some DATALOGGER_OWNERSHIP_TAKEN" using assms(2) False by simp
  then show ?thesis using assms(1) unfolding claims_def same other by auto
qed

lemma claims_end:
  "claims ls d loops \<Longrightarrow> \<forall>k \<in> set ls. boxes_out loops k \<noteq> Some DATALOGGER_OWNERSHIP_RELEASED \<Longrightarrow>
    process_loops ls d loops = (d', loops') \<Longrightarrow> md_error d' \<noteq> NoError \<and> md_owner d' \<noteq> None"
proof (induction ls arbitrary: d loops)
  case (Cons l ls)
  show ?case
  proof (cases "boxes_out loops l")
    case None
    then have "claims ls d loops" using Cons.prems(1) by (auto simp: claims_def)
    then show ?thesis using Cons.IH [of d loops] Cons.prems(2,3) None by (simp add: boxes_full)
  next
    case (Some msg)
    from process_loops_pop [OF Some, of ls d] obtain loops1 where
      1: "process_loops (l # ls) d loops = process_loops ls (process_datalogging_loop_msg l msg d) loops1"
      "boxes_out loops1 = (boxes_out loops)(l := None)" by blast
    have "claims ls (process_datalogging_loop_msg l msg d) loops1"
      using claims_message [OF Cons.prems(1) Some _ 1(2)] Cons.prems(2) Some by auto
    from Cons.IH [OF this] show ?thesis using Cons.prems(2,3) 1 by auto
  qed
qed (simp add: claims_def)

lemma stuck_messages:
  assumes "stuck L d loops" "set ls \<subseteq> L" "process_loops ls d loops = (d', loops')"
  shows "stuck L d' loops'"
proof -
  have "claims ls d loops" using assms(1) by (simp add: claims_def stuck_def)
  then have "md_error d' \<noteq> NoError \<and> md_owner d' \<noteq> None"
    using claims_end [OF _ _ assms(3)] assms(1,2) by (auto simp: stuck_def)
  then show ?thesis
    using process_loops_boxes [OF assms(3)] assms(1) unfolding stuck_def by (metis option.distinct(1))
qed

lemma stuck_step:
  assumes "own_step cf ok (d, loops, w) (d', loops', w')" "stuck (set (config_loops cf)) d loops" "array_ok cf"
  shows "stuck (set (config_loops cf)) d' loops'"
  using assms(1)
proof cases
  case messages
  then show ?thesis using stuck_messages [OF assms(2) subset_refl] by blast
next
  case logic
  then show ?thesis using assms(2) by (simp add: process_datalogging_logic_def stuck_def)
next
  case (request rq rs code rs')
  then show ?thesis using request_effect [OF request(4) assms(3)] assms(2)
    by (auto simp: stuck_def same_requests_def same_ownership_def)
next
  case (loop me junk timestep dl')
  obtain i r where eff: "boxes_in loops' = (boxes_in loops)(me := i)" "boxes_out loops' = (boxes_out loops)(me := r)"
    "loop_effect me (boxes_in loops me) (boxes_out loops me) (dl_owner (md_datalogger d)) i r (dl_owner dl')"
    using process_common_effect [OF loop(3)] by blast
  have "i \<noteq> Some RELEASE_DATALOGGER_OWNERSHIP \<and> r \<noteq> Some DATALOGGER_OWNERSHIP_RELEASED"
    using eff(3) assms(2) loop(2) by (auto simp: stuck_def elim!: loop_effect.cases)
  then show ?thesis using assms(2) loop(1) eff(1,2) by (auto simp: stuck_def)
next
  case target
  then show ?thesis using assms(2) by simp
qed

lemma stuck_steps:
  assumes "(own_step cf ok)\<^sup>*\<^sup>* s s'" "stuck (set (config_loops cf)) (fst s) (fst (snd s))" "array_ok cf"
  shows "stuck (set (config_loops cf)) (fst s') (fst (snd s'))"
  using assms(1)
proof (induction rule: rtranclp_induct)
  case (step s1 s2)
  then show ?case
    using stuck_step [of cf ok "fst s1" "fst (snd s1)" "snd (snd s1)" "fst s2" "fst (snd s2)" "snd (snd s2)"] assms(3)
    by simp
qed (rule assms(2))

lemma owned_process_again:
  assumes "process_datalog_control cf loops rq d rs = Some (code, d', rs')" "md_owner d \<noteq> None"
    "is_datalogging_configured cf"
    "rq_subfunction_id rq = DataLogControl_Configure \<or> rq_subfunction_id rq = DataLogControl_ResetDatalogger"
  shows "code = RC_ProcessAgain"
  using assms by (auto simp: process_datalog_control_def datalog_configure_def datalog_reset_def Let_def
      split: prod.splits if_splits)

section \<open>Properties\<close>

text \<open>
  C34: the main handler and the loops agree on who owns the datalogger. As long as no configuration is
  requested while an offer of ownership is on its way, in every interleaving of the tasks the
  ownership goes through its phases one by one: no claim or release is ever unexpected, the loop that
  runs the datalogger is the one that the main handler knows or has just told it, and once the main
  handler sees no owner and has no offer under way, no loop runs the datalogger.
\<close>

theorem ownership_agreed:
  assumes "array_ok cf" "\<forall>l \<in> set (config_loops cf). loops0 l = loop_init (raw_loops l)"
    and "(own_step cf (calm cf))\<^sup>*\<^sup>* (datalogging_init cf raw, loops0, w0) (d, loops, w)"
  shows "(\<exists>ph. next_phase\<^sup>*\<^sup>* Free ph \<and> own_inv (set (config_loops cf)) ph d loops)
    \<and> md_error d = NoError
    \<and> (\<forall>l. dl_owner (md_datalogger d) = Some l \<longrightarrow> md_owner d = Some l
         \<or> md_owner d = None \<and> boxes_out loops l = Some DATALOGGER_OWNERSHIP_TAKEN)
    \<and> (md_owner d = None \<and> \<not> offer_pending cf loops \<longrightarrow> dl_owner (md_datalogger d) = None)"
proof -
  obtain ph where ph: "own_inv (set (config_loops cf)) ph d loops" "next_phase\<^sup>*\<^sup>* Free ph"
    using own_inv_steps [OF assms(3) _ assms(1), of Free] own_inv_init [OF assms(2), of cf raw] by auto
  moreover have "(\<forall>l. dl_owner (md_datalogger d) = Some l \<longrightarrow> md_owner d = Some l
         \<or> md_owner d = None \<and> boxes_out loops l = Some DATALOGGER_OWNERSHIP_TAKEN)
    \<and> (md_owner d = None \<and> \<not> offer_pending cf loops \<longrightarrow> dl_owner (md_datalogger d) = None)"
    using ph(1) by (cases ph) (auto simp: own_inv_def offer_pending_def)
  ultimately show ?thesis by (auto simp: own_inv_def)
qed

text \<open>Two loops, and a request to log two bytes of memory in one of them.\<close>

definition demo_wish :: "u8 \<Rightarrow> request" where
  "demo_wish l =
    \<lparr>rq_command_id = CommandId_DataLogControl, rq_subfunction_id = DataLogControl_Configure,
     rq_data_length = 27, rq_data_max_length = 64,
     rq_data = [l, 0, 7, 0, 1, 128, 0, 0, 0, 0, 0, 0, 0, 0, 0, 0, 1, 0, 0, 0, 0, 0, 0, 0, 0x20, 0, 2], rq_crc = 0\<rparr>"

definition demo_fleet :: "unit config" where
  "demo_fleet = config_clear\<lparr>cf_loops := Some [0, 1], cf_loop_count := 2,
     cf_datalogger_buffer := Some (replicate 8 0), cf_datalogger_buffer_size := 8\<rparr>"

lemma decode_wish:
  "decode_datalogging_configure_request (demo_wish l) (0, 0) demo_dl_config
    = (RC_OK, (l, 7), demo_dl_config\<lparr>dc_items_to_log := (replicate 16 demo_item)[0 := demo_item\<lparr>it_address := 0x2000, it_size := 2\<rparr>]\<rparr>)"
  by (simp add: demo_wish_def decode_datalogging_configure_request_def Let_def demo_dl_config_def demo_item_def
   decode_16_bits_big_endian_def decode_32_bits_big_endian_def decode_address_big_endian_def decode_64_bits_big_endian_def decode_item_def)

definition demo_idle :: "unit datalogging" where
  "demo_idle = datalogging_init demo_fleet (demo_completed demo_encoder)"

definition demo_ready_loops :: loops where
  "demo_ready_loops l = loop_init (demo_loops l)"

lemma demo_fleet_loops: "config_loops demo_fleet = [0, 1]" "array_ok demo_fleet" "is_datalogging_configured demo_fleet"
  by (simp_all add: demo_fleet_def config_loops_def array_upto_def array_ok_def is_datalogging_configured_def)

lemma demo_idle_fields:
  "md_owner demo_idle = None" "md_error demo_idle = NoError" "md_new_owner demo_idle = None"
  "md_pending_ownership_release demo_idle = False" "md_request_ownership_release demo_idle = False"
  "dl_owner (md_datalogger demo_idle) = None" "dl_config (md_datalogger demo_idle) = demo_dl_config"
  by (simp_all add: demo_idle_def datalogging_init_def on_datalogger_def dl_init_def dl_reset_def demo_completed_def Let_def)

definition demo_wished :: dl_config where
  "demo_wished = demo_dl_config\<lparr>dc_items_to_log := (replicate 16 demo_item)[0 := demo_item\<lparr>it_address := 0x2000, it_size := 2\<rparr>]\<rparr>"

lemma demo_wished_fields:
  "dc_operands demo_wished = []" "dc_items demo_wished = [demo_item\<lparr>it_address := 0x2000, it_size := 2\<rparr>]"
  "dc_items_count demo_wished = 1" "dc_decimation demo_wished = 1" "tc_operand_count (dc_trigger demo_wished) = 0"
  "tc_condition (dc_trigger demo_wished) = 0"
  by (simp_all add: demo_wished_def dc_operands_def dc_items_def demo_dl_config_def take_Cons' numeral_eq_Suc)

lemma demo_wish_accepted:
  assumes "l = 0 \<or> l = 1" "\<forall>k. datalogging_allowed (loops k)"
  shows "\<exists>d'. process_datalog_control demo_fleet loops (demo_wish l) demo_idle rs = Some (RC_OK, d', rs)
    \<and> md_new_owner d' = Some (unat l)"
proof -
  have nf: "\<not> touches_forbidden_region demo_fleet a n" for a n
    by (simp add: touches_forbidden_region_def is_forbidden_address_range_set_def demo_fleet_def config_clear_def)
  have item: "it_type demo_item = LoggableType_Memory" by (simp add: demo_item_def)
  have valid: "dl_config_valid (dl_configure demo_fleet tb cid (dl\<lparr>dl_config := demo_wished\<rparr>))" for tb cid dl
    by (simp add: dl_configure_def configure_checks_def Let_def dl_reset_def demo_wished_fields
        condition_config_lut_def item_valid_def item)
  have loop: "the (cf_loops demo_fleet) ! unat l = unat l" "l < cf_loop_count demo_fleet"
    using assms(1) by (auto simp: demo_fleet_def)
  have "datalog_configure demo_fleet loops (demo_wish l) demo_idle
      = (RC_OK, (on_datalogger (dl_configure demo_fleet (Some (unat l)) 7)
          (on_datalogger (\<lambda>dl. dl\<lparr>dl_config := demo_wished\<rparr>) (demo_idle\<lparr>md_reading_in_progress := False\<rparr>)))
            \<lparr>md_new_owner := Some (unat l)\<rparr>)"
    using loop assms(2)
    by (simp add: datalog_configure_def Let_def demo_idle_fields on_datalogger_def decode_wish [folded demo_wished_def]
        demo_wished_fields nf valid item leD)
  then show ?thesis
    by (simp add: process_datalog_control_def demo_fleet_loops demo_wish_def Let_def)
qed

theorem ownership_agreed_witness:
  "\<exists>d1 rs1 d2 loops2.
     process_datalog_control demo_fleet demo_ready_loops (demo_wish 0) demo_idle demo_piece_response = Some (RC_OK, d1, rs1)
   \<and> process_datalogging_logic d1 demo_ready_loops = (d2, loops2)
   \<and> md_error d2 = NoError \<and> (\<exists>ph. next_phase\<^sup>*\<^sup>* Free ph \<and> own_inv {0, 1} ph d2 loops2)"
proof -
  obtain d1 where d1: "process_datalog_control demo_fleet demo_ready_loops (demo_wish 0) demo_idle demo_piece_response
      = Some (RC_OK, d1, demo_piece_response)"
    using demo_wish_accepted [of 0 demo_ready_loops demo_piece_response]
    by (auto simp: datalogging_allowed_def demo_ready_loops_def loop_init_def demo_loops_def)
  obtain d2 loops2 where d2: "process_datalogging_logic d1 demo_ready_loops = (d2, loops2)" by force
  have "calm demo_fleet (demo_wish 0) (demo_idle, demo_ready_loops, demo_world)"
    by (simp add: calm_def offer_pending_def demo_fleet_loops boxes_in_def boxes_out_def demo_ready_loops_def loop_init_def)
  from own_step.request [of "calm demo_fleet", OF this d1] own_step.logic [OF d2]
  have "(own_step demo_fleet (calm demo_fleet))\<^sup>*\<^sup>* (demo_idle, demo_ready_loops, demo_world) (d2, loops2, demo_world)"
    by (meson converse_rtranclp_into_rtranclp rtranclp.rtrancl_refl)
  from ownership_agreed [OF demo_fleet_loops(2) _ this [unfolded demo_idle_def], of demo_loops] d1 d2
  show ?thesis by (auto simp: demo_ready_loops_def demo_fleet_loops)
qed

text \<open>
  C35: without that discipline the datalogger can be lost until the next \<open>init\<close>. A configuration for
  another loop that is accepted while a loop has an offer it has not taken yet makes both loops
  claim the datalogger, in the schedule in which the main handler sends the second offer and both loops
  run before it reads its mailboxes again; the second claim is an error after which the main handler sends nothing any
  more, so no loop ever releases the datalogger: whatever happens later, every request to configure
  or reset it is put off, and times out.
\<close>

theorem configure_race_stuck:
  assumes "array_ok cf" "is_datalogging_configured cf" "own_inv (set (config_loops cf)) (Offered l) d0 loops0"
    and "boxes_in loops0 l' = None" "l' \<noteq> l" "l' \<in> set (config_loops cf)"
    and "process_datalog_control cf loops0 rq d0 rs = Some (RC_OK, d1, rs1)"
      "rq_subfunction_id rq = DataLogControl_Configure" "md_new_owner d1 = Some l'"
    and "process_datalogging_logic d1 loops0 = (d2, loops2)"
    and "process_common cf junk l t loops2 (md_datalogger d2) w2 = (loops3, dl3, w3)"
    and "process_common cf junk' l' t' loops3 dl3 w3 = (loops4, dl4, w4)"
    and "process_loops (config_loops cf) (d2\<lparr>md_datalogger := dl4\<rparr>) loops4 = (d5, loops5)"
    and "(own_step cf (\<lambda>_ _. True))\<^sup>*\<^sup>* (d5, loops5, w4) (d, loops, w)"
    and "rq_subfunction_id rq' \<in> {DataLogControl_Configure, DataLogControl_ResetDatalogger}"
      "process_datalog_control cf loops rq' d rs' = Some (code, d', rs'')"
  shows "md_error d \<noteq> NoError \<and> code = RC_ProcessAgain"
proof -
  let ?L = "set (config_loops cf)"
  have d0: "md_owner d0 = None" "md_error d0 = NoError" "quiet (?L - {l}) (boxes_in loops0) (boxes_out loops0)"
    "boxes_in loops0 l = Some TAKE_DATALOGGER_OWNERSHIP" "boxes_out loops0 l = None" "l \<in> ?L"
    using assms(3) by (simp_all add: own_inv_def)
  have "boxes_out loops0 l' = None" using d0(3) assms(5,6) by (simp add: quiet_def)
  have d1: "md_owner d1 = None" "md_error d1 = NoError"
    using request_effect [OF assms(7,1)] d0(1,2) by (auto simp: same_requests_def same_ownership_def)
  then have 2: "md_owner d2 = None" "loops2 = main_send l' TAKE_DATALOGGER_OWNERSHIP loops0"
    using assms(4,9,10) by (auto simp: process_datalogging_logic_def boxes_full)
  obtain i r where 3: "boxes_in loops3 = (boxes_in loops2)(l := i)" "boxes_out loops3 = (boxes_out loops2)(l := r)"
    "loop_effect l (boxes_in loops2 l) (boxes_out loops2 l) (dl_owner (md_datalogger d2)) i r (dl_owner dl3)"
    using process_common_effect [OF assms(11)] by blast
  have ir: "i = None" "r = Some DATALOGGER_OWNERSHIP_TAKEN"
    using 3(3) assms(5) d0(4,5) by (auto simp: 2(2) elim: loop_effect.cases)
  obtain i' r' where 4: "boxes_in loops4 = (boxes_in loops3)(l' := i')" "boxes_out loops4 = (boxes_out loops3)(l' := r')"
    "loop_effect l' (boxes_in loops3 l') (boxes_out loops3 l') (dl_owner dl3) i' r' (dl_owner dl4)"
    using process_common_effect [OF assms(12)] by blast
  have ir': "i' = None" "r' = Some DATALOGGER_OWNERSHIP_TAKEN"
    using 4(3) assms(5) \<open>boxes_out loops0 l' = None\<close> by (auto simp: 3(1,2) 2(2) elim: loop_effect.cases)
  have boxes: "boxes_in loops4 = (boxes_in loops0)(l := None, l' := None)"
    "boxes_out loops4 = (boxes_out loops0)(l := Some DATALOGGER_OWNERSHIP_TAKEN, l' := Some DATALOGGER_OWNERSHIP_TAKEN)"
    using assms(5) by (auto simp: 4 3 2(2) ir ir')
  have free: "\<forall>k \<in> ?L. boxes_in loops4 k \<noteq> Some RELEASE_DATALOGGER_OWNERSHIP
      \<and> boxes_out loops4 k \<noteq> Some DATALOGGER_OWNERSHIP_RELEASED"
    using d0(3) by (auto simp: boxes quiet_def order_only_def)
  have "claims (config_loops cf) (d2\<lparr>md_datalogger := dl4\<rparr>) loops4"
    unfolding claims_def using assms(5,6) d0(6) boxes(2) by auto
  then have "md_error d5 \<noteq> NoError \<and> md_owner d5 \<noteq> None" using claims_end [OF _ _ assms(13)] free by auto
  then have "stuck ?L d5 loops5"
    using process_loops_boxes [OF assms(13)] free unfolding stuck_def by (metis option.distinct(1))
  then have "stuck ?L d loops" using stuck_steps [OF assms(14) _ assms(1)] by simp
  then show ?thesis
    using owned_process_again [OF assms(16) _ assms(2)] assms(15) by (auto simp: stuck_def)
qed


definition demo_offer :: loops where
  "demo_offer = main_send 0 TAKE_DATALOGGER_OWNERSHIP demo_ready_loops"

theorem configure_race_stuck_witness:
  "\<exists>d1 rs1 d2 loops2 loops3 dl3 w3 loops4 dl4 w4 d5 loops5 d' rs''.
     process_datalog_control demo_fleet demo_offer (demo_wish 1) demo_idle demo_piece_response = Some (RC_OK, d1, rs1)
   \<and> process_datalogging_logic d1 demo_offer = (d2, loops2)
   \<and> process_common demo_fleet (\<lparr>rpv_id = 0, rpv_type = 0\<rparr>, 0) 0 100 loops2 (md_datalogger d2) demo_world = (loops3, dl3, w3)
   \<and> process_common demo_fleet (\<lparr>rpv_id = 0, rpv_type = 0\<rparr>, 0) 1 100 loops3 dl3 w3 = (loops4, dl4, w4)
   \<and> process_loops [0, 1] (d2\<lparr>md_datalogger := dl4\<rparr>) loops4 = (d5, loops5)
   \<and> md_error d5 \<noteq> NoError
   \<and> process_datalog_control demo_fleet loops5 (demo_wish 0) d5 demo_piece_response = Some (RC_ProcessAgain, d', rs'')"
proof -
  have boxes: "boxes_in demo_offer = (\<lambda>_. None)(0 := Some TAKE_DATALOGGER_OWNERSHIP)" "boxes_out demo_offer = (\<lambda>_. None)"
    by (auto simp: demo_offer_def) (auto simp: boxes_in_def boxes_out_def demo_ready_loops_def loop_init_def)
  have inv: "own_inv (set (config_loops demo_fleet)) (Offered 0) demo_idle demo_offer"
    by (simp add: own_inv_def demo_idle_fields boxes demo_fleet_loops quiet_def)
  have allowed: "\<forall>k. datalogging_allowed (demo_offer k)"
    by (simp add: datalogging_allowed_def demo_offer_def main_send_def demo_ready_loops_def loop_init_def demo_loops_def)
  obtain d1 where d1: "process_datalog_control demo_fleet demo_offer (demo_wish 1) demo_idle demo_piece_response
      = Some (RC_OK, d1, demo_piece_response)" "md_new_owner d1 = Some 1"
    using demo_wish_accepted [OF _ allowed, of 1 demo_piece_response] by auto
  obtain d2 loops2 where 2: "process_datalogging_logic d1 demo_offer = (d2, loops2)" by force
  obtain loops3 dl3 w3 where 3: "process_common demo_fleet (\<lparr>rpv_id = 0, rpv_type = 0\<rparr>, 0) 0 100 loops2 (md_datalogger d2)
      demo_world = (loops3, dl3, w3)" by (metis prod_cases3)
  obtain loops4 dl4 w4 where 4: "process_common demo_fleet (\<lparr>rpv_id = 0, rpv_type = 0\<rparr>, 0) 1 100 loops3 dl3 w3
      = (loops4, dl4, w4)" by (metis prod_cases3)
  obtain d5 loops5 where 5: "process_loops (config_loops demo_fleet) (d2\<lparr>md_datalogger := dl4\<rparr>) loops4 = (d5, loops5)" by force
  have sub: "rq_subfunction_id (demo_wish l) = DataLogControl_Configure" for l by (simp add: demo_wish_def)
  obtain code d' rs'' where 6: "process_datalog_control demo_fleet loops5 (demo_wish 0) d5 demo_piece_response = Some (code, d', rs'')"
    by (cases "datalog_configure demo_fleet loops5 (demo_wish 0) d5")
      (auto simp: process_datalog_control_def demo_fleet_loops sub Let_def)
  have "md_error d5 \<noteq> NoError \<and> code = RC_ProcessAgain"
    by (rule configure_race_stuck [OF demo_fleet_loops(2,3) inv _ _ _ d1(1) sub d1(2) 2 3 4 5 rtranclp.rtrancl_refl _ 6])
      (simp_all add: boxes demo_fleet_loops sub)
  with d1(1) 2 3 4 5 [unfolded demo_fleet_loops] 6 show ?thesis by blast
qed

end
