(* ===== verification/CWrapper.thy ===== *)
theory CWrapper
  imports MainSession
begin

text \<open>
  The C interface of the library: \<open>cwrapper/scrutiny_cwrapper.cpp\<close>. A handle is a pointer to the object
  that was constructed in the caller's memory; each function casts it back and calls the method. What
  the wrapper decides is whether an object fits the memory it is given; the sizes of the classes are
  the compiler's, and arguments here. An enumeration of C is an \<open>int\<close>. The C callbacks of published values
  return an \<open>int\<close> where the library's return a \<open>bool\<close>, and the pointers are cast without a
  conversion of the result: what the caller finds in it is an argument, \<open>as_bool\<close>. Lemmas: a program
  that drives the library through this interface runs as one that calls the classes.
\<close>

type_synonym c_int = u32

abbreviation (input) SCRUTINY_C_SUCCESS :: c_int where "SCRUTINY_C_SUCCESS \<equiv> 0"
abbreviation (input) SCRUTINY_C_ERROR :: c_int where "SCRUTINY_C_ERROR \<equiv> 1"

section \<open>Construction\<close>

text \<open>An object in \<open>size\<close> bytes of memory, at a pointer that may be null; \<open>None\<close> is the null handle.\<close>

definition scrutiny_c_main_handler_construct :: "nat \<Rightarrow> 'u main_handler \<Rightarrow> bool \<Rightarrow> nat \<Rightarrow> 'u main_handler option" where
  "scrutiny_c_main_handler_construct class_size fresh mem_null size' =
    (if size' < class_size \<or> mem_null then None else Some fresh)"

definition scrutiny_c_config_construct :: "nat \<Rightarrow> bool \<Rightarrow> nat \<Rightarrow> 'u config option" where
  "scrutiny_c_config_construct class_size mem_null bufsize =
    (if bufsize < class_size \<or> mem_null then None else Some config_clear)"

definition scrutiny_c_loop_handler_fixed_freq_construct :: "nat \<Rightarrow> bool \<Rightarrow> nat \<Rightarrow> u32 \<Rightarrow> u8 list option \<Rightarrow> loop_info option" where
  "scrutiny_c_loop_handler_fixed_freq_construct class_size mem_null size' timestep_100ns name =
    (if size' < class_size \<or> mem_null then None else Some (fixed_frequency_loop timestep_100ns name))"

definition scrutiny_c_loop_handler_variable_freq_construct :: "nat \<Rightarrow> bool \<Rightarrow> nat \<Rightarrow> u8 list option \<Rightarrow> loop_info option" where
  "scrutiny_c_loop_handler_variable_freq_construct class_size mem_null size' name =
    (if size' < class_size \<or> mem_null then None else Some (variable_frequency_loop name))"

section \<open>Configuration\<close>

definition scrutiny_c_config_set_buffers ::
  "'u config \<Rightarrow> u8 list option \<Rightarrow> u16 \<Rightarrow> u8 list option \<Rightarrow> u16 \<Rightarrow> 'u config" where
  "scrutiny_c_config_set_buffers config rx_buffer rx_buffer_size tx_buffer tx_buffer_size =
    set_buffers rx_buffer rx_buffer_size tx_buffer tx_buffer_size config"

definition scrutiny_c_config_set_forbidden_address_range :: "'u config \<Rightarrow> address_range list option \<Rightarrow> u8 \<Rightarrow> 'u config" where
  "scrutiny_c_config_set_forbidden_address_range config ranges count = set_forbidden_address_range ranges count config"

definition scrutiny_c_config_set_readonly_address_range :: "'u config \<Rightarrow> address_range list option \<Rightarrow> u8 \<Rightarrow> 'u config" where
  "scrutiny_c_config_set_readonly_address_range config ranges count = set_readonly_address_range ranges count config"

type_synonym 'u c_rpv_read_callback = "rpv \<Rightarrow> anytype \<Rightarrow> loop_ref option \<Rightarrow> 'u world \<Rightarrow> c_int \<times> anytype \<times> 'u world"
type_synonym 'u c_rpv_write_callback = "rpv \<Rightarrow> anytype \<Rightarrow> 'u world \<Rightarrow> c_int \<times> 'u world"

definition cast_read_callback :: "(c_int \<Rightarrow> bool) \<Rightarrow> 'u c_rpv_read_callback \<Rightarrow> 'u rpv_read_callback" where
  "cast_read_callback as_bool cb rpv v caller w = (case cb rpv v caller w of (r, v, w) \<Rightarrow> (as_bool r, v, w))"

definition cast_write_callback :: "(c_int \<Rightarrow> bool) \<Rightarrow> 'u c_rpv_write_callback \<Rightarrow> 'u rpv_write_callback" where
  "cast_write_callback as_bool cb rpv v w = (case cb rpv v w of (r, w) \<Rightarrow> (as_bool r, w))"

definition scrutiny_c_config_set_published_values ::
  "(c_int \<Rightarrow> bool) \<Rightarrow> 'u config \<Rightarrow> rpv list option \<Rightarrow> u16 \<Rightarrow> 'u c_rpv_read_callback option \<Rightarrow> 'u c_rpv_write_callback option
    \<Rightarrow> 'u config" where
  "scrutiny_c_config_set_published_values as_bool config array nbr rd_cb wr_cb =
    set_published_values array nbr (map_option (cast_read_callback as_bool) rd_cb)
      (map_option (cast_write_callback as_bool) wr_cb) config"

definition scrutiny_c_config_set_loops :: "'u config \<Rightarrow> loop_ref list option \<Rightarrow> u8 \<Rightarrow> 'u config" where
  "scrutiny_c_config_set_loops config loops loop_count = set_loops loops loop_count config"

definition scrutiny_c_config_set_user_command_callback :: "'u config \<Rightarrow> 'u user_command_callback option \<Rightarrow> 'u config" where
  "scrutiny_c_config_set_user_command_callback config callback = set_user_command_callback callback config"

definition scrutiny_c_config_set_datalogging_buffers :: "'u config \<Rightarrow> u8 list option \<Rightarrow> u32 \<Rightarrow> 'u config" where
  "scrutiny_c_config_set_datalogging_buffers config buffer size' = set_datalogging_buffers buffer size' config"

definition scrutiny_c_config_set_datalogging_trigger_callback :: "'u config \<Rightarrow> 'u trigger_callback option \<Rightarrow> 'u config" where
  "scrutiny_c_config_set_datalogging_trigger_callback config callback = set_datalogging_trigger_callback callback config"

definition scrutiny_c_config_set_max_bitrate :: "'u config \<Rightarrow> u32 \<Rightarrow> 'u config" where
  "scrutiny_c_config_set_max_bitrate config bitrate = config\<lparr>cf_max_bitrate := bitrate\<rparr>"

definition scrutiny_c_config_set_session_counter_seed :: "'u config \<Rightarrow> u32 \<Rightarrow> 'u config" where
  "scrutiny_c_config_set_session_counter_seed config seed = config\<lparr>cf_session_counter_seed := seed\<rparr>"

definition scrutiny_c_config_set_display_name :: "'u config \<Rightarrow> u8 list option \<Rightarrow> 'u config" where
  "scrutiny_c_config_set_display_name config name = config\<lparr>cf_display_name := name\<rparr>"

definition scrutiny_c_config_memory_write_enable :: "'u config \<Rightarrow> c_int \<Rightarrow> 'u config" where
  "scrutiny_c_config_memory_write_enable config val = config\<lparr>cf_memory_write_enable := (val \<noteq> 0)\<rparr>"

section \<open>Running\<close>

definition scrutiny_c_main_handler_init ::
  "'u main_handler \<Rightarrow> 'u config \<Rightarrow> loops \<Rightarrow> c_int \<times> 'u main_handler \<times> loops" where
  "scrutiny_c_main_handler_init mh config loops =
    (case mh_init config mh loops of (ok, mh, loops) \<Rightarrow> (if ok then SCRUTINY_C_SUCCESS else SCRUTINY_C_ERROR, mh, loops))"

definition scrutiny_c_main_handler_process ::
  "u8 list \<Rightarrow> mh_stack \<Rightarrow> 'u main_handler \<Rightarrow> timediff \<Rightarrow> loops \<Rightarrow> 'u world \<Rightarrow> ('u main_handler \<times> loops \<times> 'u world) option" where
  "scrutiny_c_main_handler_process software_id stk mh timestep loops w = mh_process software_id stk timestep mh loops w"

definition scrutiny_c_main_handler_receive_data :: "'u main_handler \<Rightarrow> u8 list \<Rightarrow> 'u main_handler option" where
  "scrutiny_c_main_handler_receive_data mh data = mh_receive_data data mh"

definition scrutiny_c_main_handler_pop_data :: "'u main_handler \<Rightarrow> u16 \<Rightarrow> u8 list \<times> 'u main_handler" where
  "scrutiny_c_main_handler_pop_data mh len = mh_pop_data len mh"

definition scrutiny_c_main_handler_data_to_send :: "'u main_handler \<Rightarrow> u16" where
  "scrutiny_c_main_handler_data_to_send mh = mh_data_to_send mh"

text \<open>The wrapper of a fixed frequency loop calls the overload that takes a time step; the one of the class is not used.\<close>

definition scrutiny_c_loop_handler_fixed_freq_process ::
  "'u config \<Rightarrow> junk \<Rightarrow> loop_ref \<Rightarrow> timediff \<Rightarrow> loops \<Rightarrow> 'u datalogger \<Rightarrow> 'u world \<Rightarrow> loops \<times> 'u datalogger \<times> 'u world" where
  "scrutiny_c_loop_handler_fixed_freq_process cf junk me timestep_100ns loops dl w =
    process_common cf junk me timestep_100ns loops dl w"

definition scrutiny_c_loop_handler_variable_freq_process ::
  "'u config \<Rightarrow> junk \<Rightarrow> loop_ref \<Rightarrow> timediff \<Rightarrow> loops \<Rightarrow> 'u datalogger \<Rightarrow> 'u world \<Rightarrow> loops \<times> 'u datalogger \<times> 'u world" where
  "scrutiny_c_loop_handler_variable_freq_process cf junk me timestep_100ns loops dl w =
    process_common cf junk me timestep_100ns loops dl w"

section \<open>A program in C\<close>

text \<open>The main loop of a C program: the bytes that came in, \<open>process\<close>, and the bytes to send, if there are any.\<close>

definition c_iteration ::
  "u8 list \<Rightarrow> mh_stack \<Rightarrow> iteration \<Rightarrow> 'u main_handler \<Rightarrow> loops \<Rightarrow> 'u world \<Rightarrow>
   (u8 list \<times> 'u main_handler \<times> loops \<times> 'u world) option" where
  "c_iteration software_id stk it mh loops w =
    (case it of (timestep, data, room) \<Rightarrow>
     case scrutiny_c_main_handler_receive_data mh data of None \<Rightarrow> None | Some mh \<Rightarrow>
     case scrutiny_c_main_handler_process software_id stk mh timestep loops w of None \<Rightarrow> None | Some (mh, loops, w) \<Rightarrow>
     case scrutiny_c_main_handler_pop_data mh room of (bs, mh) \<Rightarrow> Some (bs, mh, loops, w))"

lemma c_iteration_eq: "c_iteration = main_iteration"
  unfolding c_iteration_def [abs_def] main_iteration_def [abs_def] scrutiny_c_main_handler_receive_data_def
    scrutiny_c_main_handler_process_def scrutiny_c_main_handler_pop_data_def by (rule refl)

text \<open>A callback that returns 0 or 1 is not changed by the cast, however the caller reads other values.\<close>

lemma cast_read_callback_ok:
  assumes "as_bool 0 = False" "as_bool 1 = True" "\<And>rpv v c w. fst (cb rpv v c w) = (if fst (good rpv v c w) then 1 else 0)"
    and "\<And>rpv v c w. snd (cb rpv v c w) = snd (good rpv v c w)"
  shows "cast_read_callback as_bool cb = good"
proof (intro ext)
  fix rpv v c w
  show "cast_read_callback as_bool cb rpv v c w = good rpv v c w"
    using assms(1,2) assms(3,4) [of rpv v c w]
    by (cases "cb rpv v c w"; cases "good rpv v c w") (auto simp: cast_read_callback_def)
qed

end
