(* ===== verification/PublishedStore.thy ===== *)
theory PublishedStore
  imports CWrapper
begin

text \<open>
  The published values of an application as a store: a table of values, and a pair of callbacks that
  read and write a cell for each. The locale states what an application promises of its callbacks;
  inside it, requests that write and read published values act on the cells as assignments and
  look-ups. The test applications provide two instances.
\<close>

section \<open>Members of the union\<close>

text \<open>The part of a value that a published value holds: as many bytes as its type has.\<close>

definition value_of_type :: "rpv \<Rightarrow> anytype \<Rightarrow> anytype" where
  "value_of_type r v = take_bit (8 * unat (get_type_size_8bits (rpv_type r))) v"

lemma take_bit_set_value:
  "n \<in> {1, 2, 4, 8} \<Longrightarrow> take_bit (8 * unat n) (set_value n x v) = take_bit (8 * unat n) x"
  by (auto simp: set_value_def set_uint8_def set_uint16_def set_uint32_def intro!: bit_word_eqI)
    (auto simp: bit_simps)

lemma encode_anytype_take_bit:
  "n \<in> {1, 2, 4, 8} \<Longrightarrow> encode_anytype_big_endian_sz (take_bit (8 * unat n) x) n = encode_anytype_big_endian_sz x n"
  by (auto simp: encode_anytype_big_endian_sz_def unsigned_take_bit_eq intro!: arg_cong [where f = encode_16_bits_big_endian]
      arg_cong [where f = encode_32_bits_big_endian] arg_cong [where f = encode_64_bits_big_endian] bit_word_eqI)
    (auto simp: bit_simps)

lemma value_of_type_eq_item:
  assumes "is_supported_type (rpv_type r)" "value_of_type r x = value_of_type r y"
  shows "rpv_item r x = rpv_item r y"
  using assms(2) supported_type_size [OF assms(1)]
    encode_anytype_take_bit [of "get_type_size_8bits (rpv_type r)" x]
    encode_anytype_take_bit [of "get_type_size_8bits (rpv_type r)" y]
  by (simp add: rpv_item_def encode_anytype_big_endian_def value_of_type_def)

text \<open>Cells after assignments in their order.\<close>

fun assigned :: "(rpv \<times> anytype) list \<Rightarrow> (rpv \<Rightarrow> anytype) \<Rightarrow> rpv \<Rightarrow> anytype" where
  "assigned [] c = c"
| "assigned ((r, x) # vs) c = assigned vs (c(r := x))"

lemma assigned_last: "assigned vs c r = (case map_of (rev vs) r of None \<Rightarrow> c r | Some x \<Rightarrow> x)"
  by (induction vs arbitrary: c) (auto simp: map_add_def split: option.splits)

section \<open>The store\<close>

locale published_store =
  fixes table :: "rpv list"
    and rd :: "'u rpv_read_callback"
    and wr :: "'u rpv_write_callback"
    and cell :: "rpv \<Rightarrow> 'u world \<Rightarrow> anytype"
  assumes distinct_ids: "distinct (map rpv_id table)"
    and supported: "r \<in> set table \<Longrightarrow> is_supported_type (rpv_type r)"
    and rd_cell: "r \<in> set table \<Longrightarrow> rd r v None w = (True, set_value (get_type_size_8bits (rpv_type r)) (cell r w) v, w)"
    and wr_ok: "r \<in> set table \<Longrightarrow> fst (wr r v w)"
    and wr_cell: "r \<in> set table \<Longrightarrow> r' \<in> set table \<Longrightarrow>
      cell r' (snd (wr r v w)) = (if r' = r then value_of_type r v else cell r' w)"
begin

lemma table_find: "r \<in> set table \<Longrightarrow> find (\<lambda>s. rpv_id s = rpv_id r) table = Some r"
  using distinct_ids by (induction table) (auto simp: image_iff)

lemma type_size: "r \<in> set table \<Longrightarrow> get_type_size_8bits (rpv_type r) \<in> {1, 2, 4, 8}"
  using supported_type_size [OF supported] .

text \<open>The callbacks of a request to write make its assignments.\<close>

lemma write_values_assigned:
  assumes "fst ` set vs \<subseteq> set table" "\<forall>r\<in>set table. value_of_type r (cell r w) = value_of_type r (c r)"
  shows "\<exists>w'. write_values wr w v vs = Some w'
    \<and> (\<forall>r\<in>set table. value_of_type r (cell r w') = value_of_type r (assigned vs c r))"
  using assms
proof (induction vs arbitrary: w v c)
  case (Cons a vs)
  obtain r x where a: "a = (r, x)" by force
  then have r: "r \<in> set table" using Cons.prems(1) by simp
  let ?v = "set_value (get_type_size_8bits (rpv_type r)) x v"
  let ?w = "snd (wr r ?v w)"
  have "value_of_type r ?v = value_of_type r x"
    using take_bit_set_value [OF type_size [OF r]] by (simp add: value_of_type_def)
  then have "\<forall>s\<in>set table. value_of_type s (cell s ?w) = value_of_type s ((c(r := x)) s)"
    using wr_cell [OF r, of _ ?v w] Cons.prems(2) by (simp add: value_of_type_def)
  moreover have "fst ` set vs \<subseteq> set table" using Cons.prems(1) by simp
  ultimately obtain w' where "write_values wr ?w ?v vs = Some w'"
    "\<forall>s\<in>set table. value_of_type s (cell s w') = value_of_type s (assigned vs (c(r := x)) s)"
    using Cons.IH by blast
  with a wr_ok [OF r, of ?v w] show ?case by (cases "wr r ?v w") (simp add: Let_def)
qed simp

text \<open>Those of a request to read look the cells up, and change nothing.\<close>

lemma read_values_cells:
  assumes "set rs \<subseteq> set table" "\<And>r. r \<in> set table \<Longrightarrow> get_rpv cf (rpv_id r) = Some r"
  obtains vs where "read_values cf rd w v (map rpv_id rs) = Some (vs, w)"
    "rpv_items vs = rpv_items (map (\<lambda>r. (r, cell r w)) rs)"
  using assms
proof (induction rs arbitrary: v thesis)
  case (Cons r rs)
  then have r: "r \<in> set table" "get_rpv cf (rpv_id r) = Some r" by simp_all
  let ?v = "set_value (get_type_size_8bits (rpv_type r)) (cell r w) v"
  obtain vs where vs: "read_values cf rd w ?v (map rpv_id rs) = Some (vs, w)"
    "rpv_items vs = rpv_items (map (\<lambda>r. (r, cell r w)) rs)"
    using Cons.IH [of ?v] Cons.prems(2,3) by auto
  have "rpv_item r ?v = rpv_item r (cell r w)"
    using take_bit_set_value [OF type_size [OF r(1)]]
    by (intro value_of_type_eq_item [OF supported [OF r(1)]]) (simp add: value_of_type_def)
  with vs r rd_cell [OF r(1), of v w] Cons.prems(1) [of "(r, ?v) # vs"] show ?case by simp
qed simp

text \<open>A configuration that holds the table and the callbacks.\<close>

definition serves :: "'u config \<Rightarrow> bool" where
  "serves cf = (cf_rpvs cf = Some table \<and> unat (cf_rpv_count cf) = length table \<and> table \<noteq> []
    \<and> cf_rpv_read_callback cf = Some rd \<and> cf_rpv_write_callback cf = Some wr)"

lemma serves_config:
  assumes "serves cf"
  shows "is_read_published_values_configured cf" "is_write_published_values_configured cf" "rpvs_supported cf"
    "r \<in> set table \<Longrightarrow> get_rpv cf (rpv_id r) = Some r"
proof -
  have "config_rpvs cf = table" using assms by (simp add: serves_def config_rpvs_def array_upto_def)
  moreover have "cf_rpv_count cf > 0" using assms by (auto simp: serves_def word_less_nat_alt)
  ultimately show "is_read_published_values_configured cf" "is_write_published_values_configured cf" "rpvs_supported cf"
    "r \<in> set table \<Longrightarrow> get_rpv cf (rpv_id r) = Some r"
    using assms supported table_find
    by (simp_all add: serves_def is_read_published_values_configured_def is_write_published_values_configured_def
        rpvs_supported_def list_all_iff get_rpv_def)
qed

text \<open>A request that writes values and one that reads some of them afterwards.\<close>

lemma written_then_read:
  assumes "serves cf" "fst ` set vs \<subseteq> set table" "vs \<noteq> []" "set rs \<subseteq> set table" "rs \<noteq> []"
    and "rq_subfunction_id wq = MemoryControl_WriteRPV" "has_payload wq (rpv_items vs)" "3 * length vs \<le> unat tx_size"
    and "rq_subfunction_id rq = MemoryControl_ReadRPV" "has_payload rq (rpv_ids (map rpv_id rs))"
    and "length (rpv_items (map (\<lambda>r. (r, 0)) rs)) \<le> unat tx_size"
    and "unat tx_size \<le> length (rs_data resp)" "unat tx_size \<le> length (rs_data resp')"
  shows "\<exists>w' resp1 resp2. process_memory_control cf tx_size w stk wq resp = Some (RC_OK, w', resp1)
      \<and> response_payload resp1 = rpv_acks vs
      \<and> process_memory_control cf tx_size w' stk' rq resp' = Some (RC_OK, w', resp2)
      \<and> response_payload resp2 = rpv_items (map (\<lambda>r. (r, assigned vs (\<lambda>r. cell r w) r)) rs)"
proof -
  note cf = serves_config [OF assms(1)]
  have cbs: "cf_rpv_read_callback cf = Some rd" "cf_rpv_write_callback cf = Some wr"
    using assms(1) by (simp_all add: serves_def)
  obtain w' where w': "write_values wr w (stk_value stk) vs = Some w'"
    "\<forall>r\<in>set table. value_of_type r (cell r w') = value_of_type r (assigned vs (\<lambda>r. cell r w) r)"
    using write_values_assigned [OF assms(2), of w "\<lambda>r. cell r w"] by blast
  have known: "\<forall>(r, x)\<in>set vs. get_rpv cf (rpv_id r) = Some r" using assms(2) cf(4) by force
  obtain vals where vals: "read_values cf rd w' (stk_value stk') (map rpv_id rs) = Some (vals, w')"
    "rpv_items vals = rpv_items (map (\<lambda>r. (r, cell r w')) rs)"
    using read_values_cells [OF assms(4) cf(4)] by blast
  have items: "rpv_items (map (\<lambda>r. (r, cell r w')) rs') = rpv_items (map (\<lambda>r. (r, assigned vs (\<lambda>r. cell r w) r)) rs')"
    if "set rs' \<subseteq> set table" for rs'
    using that by (induction rs') (auto intro!: value_of_type_eq_item supported w'(2) [rule_format])
  have len: "length (rpv_items (map (\<lambda>r. (r, f r)) rs')) = length (rpv_items (map (\<lambda>r. (r, 0)) rs'))"
    if "set rs' \<subseteq> set table" for f rs'
    using that by (induction rs') (simp_all add: length_rpv_item supported)
  obtain resp1 where "process_write_rpv cf tx_size w (stk_rpv stk) (stk_value stk) wq resp = Some (RC_OK, w', resp1)"
    "response_payload resp1 = rpv_acks vs"
    using process_write_rpv_values [OF cbs(2) cf(2,3) assms(7,3) known w'(1) assms(8,12)] by blast
  moreover have "length (rpv_items vals) \<le> unat tx_size"
    using len [OF assms(4), of "\<lambda>r. cell r w'"] assms(11) by (simp add: vals(2))
  then obtain resp2 where "process_read_rpv cf tx_size w' (stk_id stk') (stk_value stk') rq resp' = Some (RC_OK, w', resp2)"
    "response_payload resp2 = rpv_items vals"
    using process_read_rpv_values [OF cbs(1) cf(1,3) assms(10) _ vals(1) _ assms(13)] assms(5) by auto
  ultimately show ?thesis
    using assms(6,9) vals(2) items [OF assms(4)] by (simp add: process_memory_control_def)
qed

end

end
