(* ===== verification/Printing.thy ===== *)
theory Printing
  imports Prelude
begin

text \<open>
  Numbers as text, as the programs of the repository print and read them: the digits of a number, the
  conversions of the C library that read one (\<open>strtoll\<close>, \<open>strtol\<close> and \<open>atoi\<close> of a target where \<open>long\<close>
  has 64 bits), and an output stream with its base, its fill character and its width. Lemmas: what is
  printed in a base is read back in it.
\<close>

section \<open>Digits\<close>

definition hex_digit :: "nat \<Rightarrow> char" where "hex_digit d = ''0123456789abcdef'' ! d"

text \<open>The digits in a base from 2 to 16; \<open>%lx\<close> and \<open>%u\<close>.\<close>

fun digits :: "nat \<Rightarrow> nat \<Rightarrow> string" where
  "digits b n = (if n < b \<or> b < 2 then [hex_digit n] else digits b (n div b) @ [hex_digit (n mod b)])"

declare digits.simps [simp del]

abbreviation (input) hex :: "nat \<Rightarrow> string" where "hex \<equiv> digits 16"
abbreviation (input) dec :: "nat \<Rightarrow> string" where "dec \<equiv> digits 10"
abbreviation (input) newline :: string where "newline \<equiv> [CHR 0x0A]"

definition digit_of :: "char \<Rightarrow> nat option" where
  "digit_of c =
    (let n = of_char c :: nat
     in if 48 \<le> n \<and> n \<le> 57 then Some (n - 48)
        else if 97 \<le> n \<and> n \<le> 122 then Some (n - 87)
        else if 65 \<le> n \<and> n \<le> 90 then Some (n - 55)
        else None)"

definition is_digit :: "nat \<Rightarrow> char \<Rightarrow> bool" where
  "is_digit b c = (case digit_of c of None \<Rightarrow> False | Some d \<Rightarrow> d < b)"

definition digits_value :: "nat \<Rightarrow> string \<Rightarrow> nat" where
  "digits_value b cs = foldl (\<lambda>v c. v * b + the (digit_of c)) 0 cs"

lemma less_16_cases: "(n :: nat) < 16 \<Longrightarrow> n \<in> {0, 1, 2, 3, 4, 5, 6, 7, 8, 9, 10, 11, 12, 13, 14, 15}"
  unfolding insert_iff empty_iff by presburger

lemma digit_of_hex_digit [simp]: "d < 16 \<Longrightarrow> digit_of (hex_digit d) = Some d"
  by (drule less_16_cases) (auto simp: hex_digit_def digit_of_def)

lemma hex_digit_not_special:
  "d < 16 \<Longrightarrow> hex_digit d \<notin> {CHR '' '', CHR 0x09, CHR 0x0A, CHR 0x0B, CHR 0x0C, CHR 0x0D, CHR ''-'', CHR ''+'', CHR ''x'', CHR ''X'', CHR 0x00}"
  by (drule less_16_cases) (auto simp: hex_digit_def)

lemma hex_digit_zero: "d < 16 \<Longrightarrow> hex_digit d = CHR ''0'' \<longleftrightarrow> d = 0"
  by (drule less_16_cases) (auto simp: hex_digit_def)

lemma digits_not_Nil [simp]: "digits b n \<noteq> []"
  by (subst digits.simps) simp

lemma set_digits:
  assumes "2 \<le> b" "b \<le> 16"
  shows "\<forall>c\<in>set (digits b n). \<exists>d<b. c = hex_digit d"
  using assms
proof (induction b n rule: digits.induct)
  case (1 b n)
  have "\<exists>d<b. hex_digit (n mod b) = hex_digit d" using 1(2) by (intro exI [of _ "n mod b"]) simp
  with 1 show ?case by (subst digits.simps) auto
qed

lemma digits_value_append: "digits_value b (cs @ [c]) = digits_value b cs * b + the (digit_of c)"
  by (simp add: digits_value_def)

text \<open>What is printed is read back.\<close>

lemma digits_value_digits:
  assumes "2 \<le> b" "b \<le> 16"
  shows "digits_value b (digits b n) = n"
  using assms
proof (induction b n rule: digits.induct)
  case (1 b n)
  have "n mod b < 16" using 1(2,3) mod_less_divisor [of b n] by linarith
  with 1 show ?case
    by (subst digits.simps) (auto simp: digits_value_append, simp add: digits_value_def)
qed

lemma digits_all_digits:
  assumes "2 \<le> b" "b \<le> 16"
  shows "list_all (is_digit b) (digits b n)"
  using set_digits [OF assms, of n] assms by (auto simp: list_all_iff is_digit_def)

lemma length_digits:
  assumes "2 \<le> b" "n < b ^ k" "0 < k"
  shows "length (digits b n) \<le> k"
  using assms
proof (induction b n arbitrary: k rule: digits.induct)
  case (1 b n)
  show ?case
  proof (cases "n < b")
    case True
    then show ?thesis using 1(4) by (subst digits.simps) simp
  next
    case False
    with 1(3) 1(4) obtain j where j: "k = Suc j" "0 < j" by (cases k; cases "k - 1") auto
    have "n div b < b ^ j" using 1(2,3) j by (simp add: less_mult_imp_div_less mult.commute)
    with 1(1) False 1(2) j have "length (digits b (n div b)) \<le> j" by simp
    with j False 1(2) show ?thesis by (subst digits.simps) simp
  qed
qed

section \<open>Reading a number\<close>

definition is_space :: "char \<Rightarrow> bool" where
  "is_space c = (c \<in> {CHR '' '', CHR 0x09, CHR 0x0A, CHR 0x0B, CHR 0x0C, CHR 0x0D})"

text \<open>
  The number at the start of a text: white space, a sign, a prefix in base 16, digits; 0 where there
  are none. What follows is not looked at.
\<close>

definition strto :: "nat \<Rightarrow> string \<Rightarrow> int" where
  "strto base s =
    (let s = dropWhile is_space s;
         negative = (s \<noteq> [] \<and> hd s = CHR ''-'');
         s = (if s \<noteq> [] \<and> (hd s = CHR ''-'' \<or> hd s = CHR ''+'') then tl s else s);
         s = (if base = 16 \<and> 2 < length s \<and> s ! 0 = CHR ''0'' \<and> (s ! 1 = CHR ''x'' \<or> s ! 1 = CHR ''X'') \<and> is_digit 16 (s ! 2)
              then drop 2 s else s);
         v = int (digits_value base (takeWhile (is_digit base) s))
     in if negative then - v else v)"

text \<open>A value out of the range of 64 signed bits is replaced by the nearest one in it.\<close>

definition strtoll :: "string \<Rightarrow> nat \<Rightarrow> u64" where
  "strtoll s base = word_of_int (max (- (2 ^ 63)) (min (2 ^ 63 - 1) (strto base s)))"

definition atoi :: "string \<Rightarrow> u32" where
  "atoi s = ucast (strtoll s 10)"

lemma digits_not_space:
  assumes "2 \<le> b" "b \<le> 16" "c \<in> set (digits b n)"
  shows "\<not> is_space c" "c \<notin> {CHR ''-'', CHR ''+'', CHR ''x'', CHR ''X'', CHR 0x00}"
proof -
  obtain d where "d < b" "c = hex_digit d" using set_digits [OF assms(1,2), of n] assms(3) by blast
  then have "d < 16" "c = hex_digit d" using assms(2) by simp_all
  with hex_digit_not_special [OF this(1)]
  show "\<not> is_space c" "c \<notin> {CHR ''-'', CHR ''+'', CHR ''x'', CHR ''X'', CHR 0x00}"
    by (auto simp: is_space_def)
qed

lemma strto_digits:
  assumes "2 \<le> b" "b \<le> 16"
  shows "strto b (digits b n) = int n"
proof -
  obtain c cs where d: "digits b n = c # cs" by (cases "digits b n") auto
  have c: "\<not> is_space c" "c \<noteq> CHR ''-''" "c \<noteq> CHR ''+''"
    using digits_not_space [OF assms, of c n] d by auto
  have second: "\<not> (2 < length (digits b n) \<and> (digits b n ! 1 = CHR ''x'' \<or> digits b n ! 1 = CHR ''X''))"
    using digits_not_space(2) [OF assms nth_mem, of 1 n] by auto
  have all: "takeWhile (is_digit b) (digits b n) = digits b n"
    using digits_all_digits [OF assms, of n] by (simp add: list_all_iff takeWhile_eq_all_conv)
  have start: "dropWhile is_space (digits b n) = digits b n" "hd (digits b n) = c"
    using c d by simp_all
  show ?thesis
    unfolding strto_def Let_def start using c second
    by (auto simp: all digits_value_digits [OF assms])
qed

lemma strtoll_digits:
  assumes "2 \<le> b" "b \<le> 16"
  shows "strtoll (digits b n) b = word_of_int (min (2 ^ 63 - 1) (int n))"
  by (simp add: strtoll_def strto_digits [OF assms])

section \<open>An output stream\<close>

text \<open>The base and the fill character stay until they are changed; the width holds for one item.\<close>

record ostream =
  os_text :: string
  os_base :: nat
  os_fill :: char
  os_width :: nat

definition cout_start :: ostream where
  "cout_start = \<lparr>os_text = [], os_base = 10, os_fill = CHR '' '', os_width = 0\<rparr>"

definition pad :: "char \<Rightarrow> nat \<Rightarrow> string \<Rightarrow> string" where
  "pad c w s = replicate (w - length s) c @ s"

definition os_string :: "string \<Rightarrow> ostream \<Rightarrow> ostream" where
  "os_string s o' = o'\<lparr>os_text := os_text o' @ pad (os_fill o') (os_width o') s, os_width := 0\<rparr>"

definition os_number :: "nat \<Rightarrow> ostream \<Rightarrow> ostream" where
  "os_number n o' = os_string (digits (os_base o') n) o'"

definition os_endl :: "ostream \<Rightarrow> ostream" where
  "os_endl o' = o'\<lparr>os_text := os_text o' @ newline\<rparr>"

definition setw :: "nat \<Rightarrow> ostream \<Rightarrow> ostream" where "setw n o' = o'\<lparr>os_width := n\<rparr>"
definition setfill :: "char \<Rightarrow> ostream \<Rightarrow> ostream" where "setfill c o' = o'\<lparr>os_fill := c\<rparr>"
definition setbase :: "nat \<Rightarrow> ostream \<Rightarrow> ostream" where "setbase b o' = o'\<lparr>os_base := b\<rparr>"

named_theorems os_simps \<open>what the operations of a stream do to it\<close>

lemmas os_defs [os_simps] = os_string_def os_number_def os_endl_def setw_def setfill_def setbase_def

lemma pad_0 [simp]: "pad c 0 s = s"
  by (simp add: pad_def)

text \<open>A byte as two hexadecimal digits, an address as sixteen.\<close>

definition hex_byte :: "u8 \<Rightarrow> string" where
  "hex_byte b = pad (CHR ''0'') 2 (hex (unat b))"

definition hex_address :: "u64 \<Rightarrow> string" where
  "hex_address a = pad (CHR ''0'') 16 (hex (unat a))"

lemma length_hex_byte [simp]: "length (hex_byte b) = 2"
  using length_digits [of 16 "unat b" 2] by (simp add: hex_byte_def pad_def)

lemma length_hex_address [simp]: "length (hex_address a) = 16"
proof -
  have "unat a < 18446744073709551616" using unsigned_less [of a] by simp
  then have "unat a < 16 ^ 16" by simp
  from length_digits [OF _ this] show ?thesis by (simp add: hex_address_def pad_def)
qed

end
