(* ===== verification/ArgParser.thy ===== *)
theory ArgParser
  imports Printing
begin

text \<open>
  The command line of the test applications: the class of
  \<open>projects/testapp/src/argument_parser.cpp\<close> and its translation to C in
  \<open>projects/c_testapp/src/argument_parser.c\<close>, which copies the arguments into buffers of a fixed size.
  Lemmas: the regions of memory that the command \<open>memdump\<close> is given are read back as they were
  written, and the two parsers agree on arguments that fit the buffers.
\<close>

section \<open>The parser in C++\<close>

datatype test_app_command = No_Command | Memdump | UdpListen | SerialListen

record memory_region =
  rg_start_address :: uintptr
  rg_length :: u32

record serial_config =
  sc_port_name :: string
  sc_baudrate :: u32

record arg_parser =
  ap_valid :: bool
  ap_command :: test_app_command
  ap_region_index :: u32
  ap_argc :: u32
  ap_argv :: "string list"
  ap_udp_port :: u16
  ap_serial_config :: serial_config
  ap_last_error :: string

text \<open>The constructor leaves the port and the baud rate as they are.\<close>

definition arg_parser_new :: "u16 \<Rightarrow> u32 \<Rightarrow> arg_parser" where
  "arg_parser_new junk_port junk_baudrate =
    \<lparr>ap_valid = False, ap_command = No_Command, ap_region_index = 0, ap_argc = 0, ap_argv = [],
     ap_udp_port = junk_port, ap_serial_config = \<lparr>sc_port_name = [], sc_baudrate = junk_baudrate\<rparr>,
     ap_last_error = []\<rparr>"

definition tolower :: "char \<Rightarrow> char" where
  "tolower c = (let n = of_char c :: nat in if 65 \<le> n \<and> n \<le> 90 then char_of (n + 32) else c)"

text \<open>
  The options of \<open>serial-listen\<close>: the baud rate in the configuration, which keeps what was read
  before an error, and the error. The value of an option is looked at as an option too.
\<close>

fun serial_options :: "string list \<Rightarrow> u32 \<Rightarrow> u32 \<times> string option" where
  "serial_options [] configured = (configured, None)"
| "serial_options (arg # args) configured =
    (if arg = ''--baudrate'' then
       (case args of
          [] \<Rightarrow> (configured, Some ''Missing baudrate'')
        | v # _ \<Rightarrow>
          (let baudrate = atoi v
           in if sint baudrate \<le> 0 \<or> sint baudrate > 0x7FFFFFFF then (configured, Some ''Invalid baudrate'')
              else serial_options args baudrate))
     else serial_options args configured)"

text \<open>\<open>argc\<close> is the number of the arguments, the name of the program among them.\<close>

definition parse :: "string list \<Rightarrow> arg_parser \<Rightarrow> arg_parser" where
  "parse argv p =
    (let argc = length argv; p = p\<lparr>ap_argc := of_nat argc, ap_argv := argv\<rparr>
     in if argc < 2 then p\<lparr>ap_valid := False, ap_last_error := ''Missing command''\<rparr>
        else
          let cmd = map tolower (argv ! 1)
          in if cmd = ''memdump'' then
               (let p = p\<lparr>ap_command := Memdump\<rparr>
                in if argc \<ge> 4 \<and> argc mod 2 = 0 then p\<lparr>ap_valid := True\<rparr>
                   else p\<lparr>ap_last_error := ''Bad number of arguments''\<rparr>)
             else if cmd = ''udp-listen'' then
               (let p = p\<lparr>ap_command := UdpListen\<rparr>
                in if argc \<ge> 3 then
                     (let port = atoi (argv ! 2)
                      in if sint port > 0 \<and> sint port < 0x10000
                         then p\<lparr>ap_udp_port := ucast port, ap_valid := True\<rparr>
                         else p\<lparr>ap_last_error := ''Port not in range 0-65535''\<rparr>)
                   else p\<lparr>ap_last_error := ''Missing port''\<rparr>)
             else if cmd = ''serial-listen'' then
               (let p = p\<lparr>ap_command := SerialListen\<rparr>
                in if argc \<ge> 3 then
                     (case serial_options (drop 3 argv) 115200 of (baudrate, arg_error) \<Rightarrow>
                       (let p = p\<lparr>ap_serial_config := \<lparr>sc_port_name = argv ! 2, sc_baudrate = baudrate\<rparr>\<rparr>
                        in case arg_error of
                             None \<Rightarrow> p\<lparr>ap_valid := True\<rparr>
                           | Some msg \<Rightarrow> p\<lparr>ap_last_error := msg\<rparr>))
                   else p\<lparr>ap_last_error := ''Missing port name''\<rparr>)
             else p\<lparr>ap_last_error := ''Unknown command '' @ cmd\<rparr>)"

definition has_another_memory_region :: "arg_parser \<Rightarrow> bool" where
  "has_another_memory_region p =
    (if ap_argc p < 2 then False else if ap_argc p - 2 < ap_region_index p + 1 then False else True)"

text \<open>The errors it throws, and the read of an argument that is not there.\<close>

datatype arg_error = WrongCommand | Depleted | NoArgument

definition text_and_base :: "string \<Rightarrow> string \<times> nat" where
  "text_and_base s = (if length s > 2 \<and> take 2 s = ''0x'' then (drop 2 s, 16) else (s, 10))"

definition next_memory_region :: "arg_parser \<Rightarrow> arg_error + memory_region \<times> arg_parser" where
  "next_memory_region p =
    (if ap_command p \<noteq> Memdump \<or> \<not> ap_valid p then Inl WrongCommand
     else if \<not> has_another_memory_region p then Inl Depleted
     else
       let i = unat (ap_region_index p + 2); j = unat (ap_region_index p + 2 + 1)
       in if \<not> i < length (ap_argv p) \<or> \<not> j < length (ap_argv p) then Inl NoArgument
          else
            (case text_and_base (ap_argv p ! i) of (start_address, base1) \<Rightarrow>
             case text_and_base (ap_argv p ! j) of (len, base2) \<Rightarrow>
               Inr (\<lparr>rg_start_address = strtoll start_address base1, rg_length = ucast (strtoll len base2)\<rparr>,
                    p\<lparr>ap_region_index := ap_region_index p + 2\<rparr>)))"

section \<open>The regions of memdump\<close>

text \<open>A number as a user writes it, in hexadecimal or in decimal.\<close>

definition number_text :: "bool \<Rightarrow> nat \<Rightarrow> string" where
  "number_text hexadecimal n = (if hexadecimal then ''0x'' @ hex n else dec n)"

definition read_number :: "string \<Rightarrow> u64" where
  "read_number s = (case text_and_base s of (t, base) \<Rightarrow> strtoll t base)"

definition region_of :: "string \<Rightarrow> string \<Rightarrow> memory_region" where
  "region_of a n = \<lparr>rg_start_address = read_number a, rg_length = ucast (read_number n)\<rparr>"

lemma read_number_strtoll: "read_number (number_text h n) = word_of_int (min (2 ^ 63 - 1) (int n))"
proof (cases h)
  case False
  have "\<not> (length (dec n) > 2 \<and> take 2 (dec n) = ''0x'')"
  proof
    assume a: "length (dec n) > 2 \<and> take 2 (dec n) = ''0x''"
    then have "take 2 (dec n) ! 1 = CHR ''x''" by simp
    then have "dec n ! 1 = CHR ''x''" by simp
    moreover have "dec n ! 1 \<in> set (dec n)" using a by (intro nth_mem) simp
    ultimately show False using digits_not_space(2) [of 10 "CHR ''x''" n] by simp
  qed
  then show ?thesis
    using False strtoll_digits [of 10 n] by (auto simp: read_number_def number_text_def text_and_base_def)
next
  case True
  then show ?thesis
    using strtoll_digits [of 16 n] by (simp add: read_number_def number_text_def text_and_base_def)
qed

lemma read_number_text: "n < 2 ^ 63 \<Longrightarrow> read_number (number_text h n) = of_nat n"
proof -
  assume "n < 2 ^ 63"
  then have "min (2 ^ 63 - 1) (int n) = int n" by simp
  then show ?thesis by (simp add: read_number_strtoll)
qed

text \<open>An address in the upper half of the address space is replaced by the last one of the lower half.\<close>

lemma read_number_clamped: "2 ^ 63 \<le> n \<Longrightarrow> read_number (number_text h n) = 0x7FFFFFFFFFFFFFFF"
  by (simp add: read_number_strtoll min_def)

text \<open>A parser that holds the regions of a list of arguments and has given out the first ones.\<close>

definition at_region :: "string list \<Rightarrow> nat \<Rightarrow> arg_parser \<Rightarrow> bool" where
  "at_region argv k p =
    (ap_valid p \<and> ap_command p = Memdump \<and> ap_argv p = argv \<and> ap_argc p = of_nat (length argv)
     \<and> ap_region_index p = of_nat (2 * k) \<and> even (length argv) \<and> length argv < 2 ^ 31)"

lemma at_region_steps:
  assumes "at_region argv k p" "2 + 2 * k \<le> length argv"
  shows "has_another_memory_region p \<longleftrightarrow> 2 + 2 * k < length argv"
    and "2 + 2 * k < length argv \<Longrightarrow>
      next_memory_region p = Inr (region_of (argv ! (2 + 2 * k)) (argv ! (3 + 2 * k)), p\<lparr>ap_region_index := of_nat (2 * Suc k)\<rparr>)"
    and "at_region argv (Suc k) (p\<lparr>ap_region_index := of_nat (2 * Suc k)\<rparr>)"
    and "unat (ap_region_index p + 2) = 2 + 2 * k" "unat (ap_region_index p + 2 + 1) = 3 + 2 * k"
proof -
  define n where "n = length argv"
  have n: "n < 2147483648" "even n" "2 + 2 * k \<le> n" using assms by (simp_all add: at_region_def n_def)
  have idx: "ap_region_index p = of_nat (2 * k)" "ap_argc p = of_nat n" "ap_argv p = argv"
    "ap_command p = Memdump" "ap_valid p"
    using assms(1) by (simp_all add: at_region_def n_def)
  have argc: "\<not> ap_argc p < 2" using n by (simp add: idx word_less_nat_alt)
  have left: "unat (ap_argc p - 2) = n - 2" using unat_sub_no_wrap [of 2 "ap_argc p"] argc n by (simp add: idx linorder_not_less)
  have inc: "ap_region_index p + of_nat c = of_nat (2 * k + c)" for c by (simp add: idx)
  have pos: "unat (ap_region_index p + of_nat c) = 2 * k + c" if "c \<le> 3" for c
    unfolding inc using that n by (intro unat_of_nat_u32) linarith
  show another: "has_another_memory_region p \<longleftrightarrow> 2 + 2 * k < length argv"
  proof -
    have "ap_argc p - 2 < ap_region_index p + 1 \<longleftrightarrow> n - 2 < 2 * k + 1"
      using left pos [of 1] by (simp add: word_less_nat_alt)
    then show ?thesis using argc n unfolding has_another_memory_region_def n_def by (simp, presburger)
  qed
  show "at_region argv (Suc k) (p\<lparr>ap_region_index := of_nat (2 * Suc k)\<rparr>)"
    using assms(1) by (simp add: at_region_def)
  show at: "unat (ap_region_index p + 2) = 2 + 2 * k" "unat (ap_region_index p + 2 + 1) = 3 + 2 * k"
    using pos [of 2] pos [of 3] by (simp_all add: add.assoc)
  assume more: "2 + 2 * k < length argv"
  then have "3 + 2 * k < n" using n(2) unfolding n_def by presburger
  with at show "next_memory_region p = Inr (region_of (argv ! (2 + 2 * k)) (argv ! (3 + 2 * k)), p\<lparr>ap_region_index := of_nat (2 * Suc k)\<rparr>)"
    using more idx another inc [of 2]
    by (simp add: next_memory_region_def region_of_def read_number_def n_def split: prod.split)
qed

lemma parse_memdump:
  assumes "map tolower cmd = ''memdump''" "even (length args)" "args \<noteq> []" "length args + 2 < 2 ^ 31"
  shows "at_region (prog # cmd # args) 0 (parse (prog # cmd # args) (arg_parser_new junk junk'))"
proof -
  have "2 \<le> length args" using assms(2,3) by (cases args; cases "tl args") auto
  then show ?thesis using assms by (auto simp: parse_def Let_def at_region_def arg_parser_new_def mod_2_eq_odd)
qed

section \<open>The parser in C\<close>

text \<open>
  A buffer is the list of its characters, a string in it what comes before the first zero. The source
  of the copy may be the buffer it writes to, so the character read depends on the buffer.
\<close>

abbreviation (input) NUL :: char where "NUL \<equiv> CHR 0x00"

definition c_string :: "string \<Rightarrow> string" where
  "c_string buf = takeWhile (\<lambda>c. c \<noteq> NUL) buf"

function c_testapp_strncpy_loop :: "(string \<Rightarrow> nat \<Rightarrow> char) \<Rightarrow> nat \<Rightarrow> nat \<Rightarrow> string \<Rightarrow> nat \<times> string" where
  "c_testapp_strncpy_loop src maxlen n dst =
    (if n < maxlen then
       (let c = src dst n; dst = dst[n := c]
        in if c = NUL then (n, dst) else c_testapp_strncpy_loop src maxlen (Suc n) dst)
     else (n, dst))"
  by pat_completeness auto
termination by (relation "measure (\<lambda>(src, maxlen, n, dst). maxlen - n)") auto

declare c_testapp_strncpy_loop.simps [simp del]

definition c_testapp_strncpy :: "string \<Rightarrow> (string \<Rightarrow> nat \<Rightarrow> char) \<Rightarrow> nat \<Rightarrow> nat \<times> string" where
  "c_testapp_strncpy dst src maxlen =
    (case c_testapp_strncpy_loop src maxlen 0 dst of (n, dst) \<Rightarrow> (n, if n \<ge> maxlen then dst[maxlen - 1 := NUL] else dst))"

text \<open>A string elsewhere in memory, and one in the buffer itself.\<close>

definition from_string :: "string \<Rightarrow> string \<Rightarrow> nat \<Rightarrow> char" where
  "from_string s buf n = (s @ [NUL]) ! n"

definition from_buffer :: "nat \<Rightarrow> string \<Rightarrow> nat \<Rightarrow> char" where
  "from_buffer i buf n = buf ! (i + n)"

record c_arg_parser =
  cp_valid :: bool
  cp_command :: test_app_command
  cp_region_index :: u32
  cp_argc :: u32
  cp_argv :: "string list"
  cp_udp_port :: u16
  cp_port_name :: string
  cp_baudrate :: u32
  cp_last_error :: string

definition c_testapp_argument_parser_init :: "c_arg_parser \<Rightarrow> c_arg_parser" where
  "c_testapp_argument_parser_init p =
    p\<lparr>cp_valid := False, cp_command := No_Command, cp_region_index := 0, cp_argc := 0, cp_argv := [], cp_last_error := []\<rparr>"

definition c_testapp_argument_parser_parse :: "c_arg_parser \<Rightarrow> string list \<Rightarrow> c_arg_parser" where
  "c_testapp_argument_parser_parse p argv =
    (let argc = length argv; p = p\<lparr>cp_argc := of_nat argc, cp_argv := argv\<rparr>
     in if argc < 2 then p\<lparr>cp_valid := False, cp_last_error := ''Missing command''\<rparr>
        else
          let buf = snd (c_testapp_strncpy (replicate 255 NUL) (from_string (argv ! 1)) 255);
              cmd = map tolower (c_string buf)
          in if cmd = ''memdump'' then
               (let p = p\<lparr>cp_command := Memdump\<rparr>
                in if argc \<ge> 4 \<and> argc mod 2 = 0 then p\<lparr>cp_valid := True\<rparr>
                   else p\<lparr>cp_last_error := ''Bad number of arguments''\<rparr>)
             else if cmd = ''udp-listen'' then
               (let p = p\<lparr>cp_command := UdpListen\<rparr>
                in if argc \<ge> 3 then
                     (let port = atoi (argv ! 2)
                      in if sint port > 0 \<and> sint port < 0x10000
                         then p\<lparr>cp_udp_port := ucast port, cp_valid := True\<rparr>
                         else p\<lparr>cp_last_error := ''Port not in range 0-65535''\<rparr>)
                   else p\<lparr>cp_last_error := ''Missing port''\<rparr>)
             else if cmd = ''serial-listen'' then
               (let p = p\<lparr>cp_command := SerialListen\<rparr>
                in if argc \<ge> 3 then
                     (let p = p\<lparr>cp_port_name := snd (c_testapp_strncpy (cp_port_name p) (from_string (argv ! 2)) 255)\<rparr>
                      in case serial_options (drop 3 argv) 115200 of (baudrate, arg_error) \<Rightarrow>
                           (let p = p\<lparr>cp_baudrate := baudrate\<rparr>
                            in case arg_error of
                                 None \<Rightarrow> p\<lparr>cp_valid := True\<rparr>
                               | Some msg \<Rightarrow> p\<lparr>cp_last_error := msg\<rparr>))
                   else p\<lparr>cp_last_error := ''Missing port name''\<rparr>)
             else p\<lparr>cp_last_error := ''Unknown command''\<rparr>)"

definition c_testapp_argument_parser_has_another_memory_region :: "c_arg_parser \<Rightarrow> bool" where
  "c_testapp_argument_parser_has_another_memory_region p =
    (if cp_argc p < 2 then False else if cp_argc p - 2 < cp_region_index p + 1 then False else True)"

text \<open>An argument in a buffer of 32 characters, moved back over its prefix if it has one.\<close>

definition c_text_and_base :: "string \<Rightarrow> string \<times> nat" where
  "c_text_and_base arg =
    (let buf = snd (c_testapp_strncpy (replicate 32 NUL) (from_string arg) 32)
     in if length (c_string buf) > 2 \<and> buf ! 0 = CHR ''0'' \<and> buf ! 1 = CHR ''x''
        then (c_string (snd (c_testapp_strncpy buf (from_buffer 2) 30)), 16)
        else (c_string buf, 10))"

definition c_testapp_argument_parser_next_memory_region :: "c_arg_parser \<Rightarrow> arg_error + memory_region \<times> c_arg_parser" where
  "c_testapp_argument_parser_next_memory_region p =
    (if cp_command p \<noteq> Memdump \<or> \<not> cp_valid p then Inl WrongCommand
     else if \<not> c_testapp_argument_parser_has_another_memory_region p then Inl Depleted
     else
       let i = unat (cp_region_index p + 2); j = unat (cp_region_index p + 2 + 1)
       in if \<not> i < length (cp_argv p) \<or> \<not> j < length (cp_argv p) then Inl NoArgument
          else
            (case c_text_and_base (cp_argv p ! i) of (start_address, base1) \<Rightarrow>
             case c_text_and_base (cp_argv p ! j) of (len, base2) \<Rightarrow>
               Inr (\<lparr>rg_start_address = strtoll start_address base1, rg_length = ucast (strtoll len base2)\<rparr>,
                    p\<lparr>cp_region_index := cp_region_index p + 2\<rparr>)))"

section \<open>The two parsers agree\<close>

text \<open>A copy of a text, whatever its source, as long as what is still to be read has not been written over.\<close>

lemma c_strncpy_loop_text:
  assumes "\<And>dst n. length dst = length buf \<Longrightarrow> drop n dst = drop n buf \<Longrightarrow> n \<le> length t \<Longrightarrow> n < maxlen \<Longrightarrow> src dst n = (t @ [NUL]) ! n"
    and "NUL \<notin> set t" "maxlen \<le> length buf" "length dst = length buf" "n \<le> maxlen" "n \<le> length t"
    and "take n dst = take n t" "drop n dst = drop n buf"
    and "c_testapp_strncpy_loop src maxlen n dst = (m, d)"
  shows "length d = length buf \<and> (if length t < maxlen then m = length t \<and> take (Suc (length t)) d = t @ [NUL]
    else m = maxlen \<and> take maxlen d = take maxlen t)"
  using assms(4-)
proof (induction "maxlen - n" arbitrary: n dst)
  case 0
  then have "n = maxlen" "(m, d) = (n, dst)" by (simp_all add: c_testapp_strncpy_loop.simps)
  with 0 show ?case by auto
next
  case (Suc x)
  then have n: "n < maxlen" by simp
  have c: "src dst n = (t @ [NUL]) ! n" using Suc.prems n by (intro assms(1))
  have len: "n < length dst" using n Suc.prems(1) assms(3) by simp
  show ?case
  proof (cases "n = length t")
    case True
    then have "(m, d) = (n, dst[n := NUL])"
      using Suc.prems(6) n c by (auto simp: c_testapp_strncpy_loop.simps [of src maxlen "length t" dst])
    with True n len Suc.prems(1,4) show ?thesis by (simp add: take_Suc_conv_app_nth)
  next
    case False
    then have nt: "n < length t" using Suc.prems(3) by simp
    then have t: "t ! n \<noteq> NUL" using assms(2) nth_mem by metis
    let ?dst = "dst[n := t ! n]"
    have "c_testapp_strncpy_loop src maxlen (Suc n) ?dst = (m, d)"
      using Suc.prems(6) n c nt t by (simp add: c_testapp_strncpy_loop.simps [of src maxlen n] nth_append)
    moreover have "take (Suc n) ?dst = take (Suc n) t"
      using Suc.prems(4) len nt by (simp add: take_Suc_conv_app_nth)
    moreover have "drop (Suc n) ?dst = drop (Suc n) buf"
      using arg_cong [OF Suc.prems(5), of "drop 1"] by simp
    ultimately show ?thesis using Suc.prems(1) Suc.hyps(2) n nt by (intro Suc.hyps(1)) auto
  qed
qed

lemma c_strncpy_text:
  assumes "\<And>dst n. length dst = length buf \<Longrightarrow> drop n dst = drop n buf \<Longrightarrow> n \<le> length t \<Longrightarrow> n < maxlen \<Longrightarrow> src dst n = (t @ [NUL]) ! n"
    and "NUL \<notin> set t" "maxlen \<le> length buf" "0 < maxlen"
  shows "c_string (snd (c_testapp_strncpy buf src maxlen)) = take (maxlen - 1) t"
    and "length (snd (c_testapp_strncpy buf src maxlen)) = length buf"
proof -
  obtain m d where l: "c_testapp_strncpy_loop src maxlen 0 buf = (m, d)" by force
  have upto: "takeWhile (\<lambda>c. c \<noteq> NUL) (s @ NUL # r) = s" if "NUL \<notin> set s" for s r
    using that by (induction s) auto
  have d: "length d = length buf" "if length t < maxlen then m = length t \<and> take (Suc (length t)) d = t @ [NUL]
    else m = maxlen \<and> take maxlen d = take maxlen t"
    using c_strncpy_loop_text [OF assms(1-3) _ _ _ _ _ l] by auto
  have copy: "snd (c_testapp_strncpy buf src maxlen) = (if m \<ge> maxlen then d[maxlen - 1 := NUL] else d)"
    by (simp add: c_testapp_strncpy_def l)
  show "length (snd (c_testapp_strncpy buf src maxlen)) = length buf" using copy d(1) by simp
  show "c_string (snd (c_testapp_strncpy buf src maxlen)) = take (maxlen - 1) t"
  proof (cases "length t < maxlen")
    case True
    then have "d = t @ NUL # drop (Suc (length t)) d" "\<not> m \<ge> maxlen"
      using d(2) append_take_drop_id [of "Suc (length t)" d] by auto
    moreover from this(1) have "takeWhile (\<lambda>c. c \<noteq> NUL) d = t" using upto [OF assms(2)] by metis
    ultimately show ?thesis using copy True by (simp add: c_string_def)
  next
    case False
    then have m: "m = maxlen" "take maxlen d = take maxlen t" using d(2) by auto
    have "take (maxlen - 1) d = take (maxlen - 1) t"
      using arg_cong [OF m(2), of "take (maxlen - 1)"] by (simp add: min_def split: if_splits)
    then have "d[maxlen - 1 := NUL] = take (maxlen - 1) t @ NUL # drop maxlen d"
      using assms(3,4) d(1) by (simp add: upd_conv_take_nth_drop)
    moreover have "NUL \<notin> set (take (maxlen - 1) t)" using assms(2) by (meson in_set_takeD)
    ultimately show ?thesis using copy m(1) upto by (simp add: c_string_def)
  qed
qed

lemma c_strncpy_from_string:
  assumes "NUL \<notin> set t" "maxlen \<le> length buf" "0 < maxlen"
  shows "c_string (snd (c_testapp_strncpy buf (from_string t) maxlen)) = take (maxlen - 1) t"
    and "length (snd (c_testapp_strncpy buf (from_string t) maxlen)) = length buf"
  using c_strncpy_text [where src = "from_string t", OF _ assms] by (simp_all add: from_string_def)

lemma c_string_prefix: "c_string buf \<noteq> [] \<Longrightarrow> buf ! 0 = c_string buf ! 0"
  "1 < length (c_string buf) \<Longrightarrow> buf ! 1 = c_string buf ! 1"
  unfolding c_string_def by (metis length_greater_0_conv takeWhile_nth) (metis takeWhile_nth)

lemma c_text_and_base_eq:
  assumes "NUL \<notin> set t" "length t < 32"
  shows "c_text_and_base t = text_and_base t"
proof -
  define buf where "buf = snd (c_testapp_strncpy (replicate 32 NUL) (from_string t) 32)"
  have buf: "c_string buf = t" "length buf = 32"
    using c_strncpy_from_string [OF assms(1), of 32 "replicate 32 NUL"] assms(2) by (simp_all add: buf_def)
  have prefix: "length t > 2 \<and> buf ! 0 = CHR ''0'' \<and> buf ! 1 = CHR ''x'' \<longleftrightarrow> length t > 2 \<and> take 2 t = ''0x''"
  proof (cases "length t > 2")
    case True
    then have "t \<noteq> []" "1 < length t" by auto
    then have "buf ! 0 = t ! 0" "buf ! 1 = t ! 1" using c_string_prefix [of buf] buf(1) by simp_all
    moreover have "take 2 t = [t ! 0, t ! 1]" using True by (cases t; cases "tl t") auto
    ultimately show ?thesis by simp
  qed simp
  have ends: "\<exists>r. buf = t @ NUL # r"
  proof -
    have "length (c_string buf) < length buf" using buf assms(2) by simp
    then have "dropWhile (\<lambda>c. c \<noteq> NUL) buf \<noteq> []" unfolding c_string_def
      by (metis append_Nil2 less_irrefl takeWhile_dropWhile_id)
    then obtain c r where rest: "dropWhile (\<lambda>c. c \<noteq> NUL) buf = c # r" by (cases "dropWhile (\<lambda>c. c \<noteq> NUL) buf") auto
    then have "c = NUL" using hd_dropWhile [of "\<lambda>c. c \<noteq> NUL" buf] by auto
    then have "buf = t @ NUL # r"
      using takeWhile_dropWhile_id [of "\<lambda>c. c \<noteq> NUL" buf] rest buf(1) unfolding c_string_def by simp
    then show ?thesis by blast
  qed
  have moved: "c_string (snd (c_testapp_strncpy buf (from_buffer 2) 30)) = drop 2 t" if "length t > 2"
  proof -
    have "from_buffer 2 d n = (drop 2 t @ [NUL]) ! n"
      if d: "length d = length buf" "drop n d = drop n buf" "n \<le> length (drop 2 t)" "n < 30" for d n
    proof -
      have "n \<le> length d" "n \<le> length buf" using d buf(2) by simp_all
      from nth_drop [OF this(1), of 2] nth_drop [OF this(2), of 2] d(2)
      have "d ! (2 + n) = buf ! (2 + n)" by (simp add: add.commute)
      also have "\<dots> = (drop 2 t @ [NUL]) ! n"
      proof -
        obtain r where "buf = t @ NUL # r" using ends by blast
        then show ?thesis using d(3) \<open>length t > 2\<close> by (auto simp: nth_append)
      qed
      finally show ?thesis by (simp add: from_buffer_def)
    qed
    moreover have "NUL \<notin> set (drop 2 t)" using assms(1) by (meson in_set_dropD)
    ultimately have "c_string (snd (c_testapp_strncpy buf (from_buffer 2) 30)) = take (30 - 1) (drop 2 t)"
      using buf(2) by (intro c_strncpy_text(1)) auto
    then show ?thesis using assms(2) by simp
  qed
  show ?thesis
    unfolding c_text_and_base_def text_and_base_def Let_def buf_def [symmetric] buf(1)
    using prefix moved by auto
qed

text \<open>The states of the two parsers; only the message on an unknown command differs.\<close>

definition same_parser :: "arg_parser \<Rightarrow> c_arg_parser \<Rightarrow> bool" where
  "same_parser p q =
    (cp_valid q = ap_valid p \<and> cp_command q = ap_command p \<and> cp_region_index q = ap_region_index p
     \<and> cp_argc q = ap_argc p \<and> cp_argv q = ap_argv p)"

lemma same_parser_simps:
  assumes "same_parser p q"
  shows "cp_valid q = ap_valid p" "cp_command q = ap_command p" "cp_region_index q = ap_region_index p"
    "cp_argc q = ap_argc p" "cp_argv q = ap_argv p"
    "c_testapp_argument_parser_has_another_memory_region q = has_another_memory_region p"
  using assms by (simp_all add: same_parser_def c_testapp_argument_parser_has_another_memory_region_def
      has_another_memory_region_def)

lemma same_next_memory_region:
  assumes "same_parser p q"
    and "\<And>i. i \<in> {unat (ap_region_index p + 2), unat (ap_region_index p + 2 + 1)} \<Longrightarrow> i < length (ap_argv p) \<Longrightarrow>
      NUL \<notin> set (ap_argv p ! i) \<and> length (ap_argv p ! i) < 32"
  shows "case next_memory_region p of
      Inl e \<Rightarrow> c_testapp_argument_parser_next_memory_region q = Inl e
    | Inr (r, p') \<Rightarrow> \<exists>q'. c_testapp_argument_parser_next_memory_region q = Inr (r, q') \<and> same_parser p' q' \<and> ap_argv p' = ap_argv p"
  unfolding next_memory_region_def c_testapp_argument_parser_next_memory_region_def
  using assms(2)
  by (auto simp: same_parser_simps [OF assms(1)] Let_def c_text_and_base_eq split: prod.split)
    (use assms(1) in \<open>simp_all add: same_parser_def\<close>)

lemma same_parse:
  assumes "1 < length argv \<longrightarrow> NUL \<notin> set (argv ! 1) \<and> length (argv ! 1) < 255"
    "cp_valid q = ap_valid p" "cp_command q = ap_command p" "cp_region_index q = ap_region_index p"
  shows "same_parser (parse argv p) (c_testapp_argument_parser_parse q argv)"
proof -
  have cmd: "c_string (snd (c_testapp_strncpy (replicate 255 NUL) (from_string (argv ! 1)) 255)) = argv ! 1"
    if "1 < length argv"
    using c_strncpy_from_string(1) [of "argv ! 1" 255 "replicate 255 NUL"] assms(1) that by simp
  show ?thesis
    using assms(2-4) cmd
    by (auto simp: parse_def c_testapp_argument_parser_parse_def same_parser_def Let_def split: prod.split option.split)
qed

end
