(* ===== verification/MemDump.thy ===== *)
theory MemDump
  imports ArgParser BlockCodec
begin

text \<open>
  The entry points of the test applications (\<open>main\<close> of \<open>projects/testapp/src/main.cpp\<close> and of
  \<open>projects/c_testapp/src/main.c\<close>) and their command \<open>memdump\<close>, which prints regions of the
  memory. The specification is the text of a region, 16 bytes to a line; the lemmas say that the
  program prints it for each region it was given, and when it does not. What the program does on a
  communication channel is in \<open>TestApp\<close>.
\<close>

section \<open>memdump\<close>

definition memdump_line :: "memory \<Rightarrow> uintptr \<Rightarrow> uintptr \<Rightarrow> ostream \<Rightarrow> ostream" where
  "memdump_line m addr nToPrint cout =
    (let cout = os_string ''0x'' cout;
         cout = os_number (unat addr) (setfill (CHR ''0'') (setw 16 (setbase 16 cout)));
         cout = os_string ('':'' @ [CHR 0x09]) cout;
         cout = fold (\<lambda>i cout. os_number (unat (m (addr + of_nat i))) (setfill (CHR ''0'') (setw 2 (setbase 16 cout))))
                  [0..<unat nToPrint] cout
     in os_endl cout)"

text \<open>An address moves towards the end of the region and does not pass it.\<close>

lemma memdump_next:
  fixes addr :: uintptr
  assumes "addr < stop'" "left = stop' - addr" "n = (if left > 16 then 16 else left)"
  shows "unat (addr + n) = unat addr + unat n" "unat addr + unat n \<le> unat stop'" "0 < unat n"
    "unat n = min 16 (unat stop' - unat addr)"
proof -
  have d: "unat (stop' - addr) = unat stop' - unat addr" using assms(1) by (intro unat_sub_no_wrap) simp
  have lt: "unat addr < unat stop'" "unat stop' < 18446744073709551616"
    using assms(1) unsigned_less [of stop'] by (simp_all add: word_less_nat_alt)
  show n: "unat n = min 16 (unat stop' - unat addr)"
    using d assms(2,3) by (auto simp: word_less_nat_alt)
  then show "unat addr + unat n \<le> unat stop'" "0 < unat n" using lt by auto
  then show "unat (addr + n) = unat addr + unat n" using lt by (simp add: unat_word_ariths)
qed

function memdump_loop :: "memory \<Rightarrow> uintptr \<Rightarrow> u32 \<Rightarrow> uintptr \<Rightarrow> ostream \<Rightarrow> ostream" where
  "memdump_loop m startAddr len addr cout =
    (if addr < startAddr + ucast len then
       (let nToPrint = startAddr + ucast len - addr;
            nToPrint = (if nToPrint > 16 then 16 else nToPrint)
        in memdump_loop m startAddr len (addr + nToPrint) (memdump_line m addr nToPrint cout))
     else cout)"
  by pat_completeness auto

termination
proof (relation "measure (\<lambda>(m, startAddr, len, addr, cout). unat (startAddr + ucast len) - unat addr)", goal_cases)
  case (2 m startAddr len addr cout n n')
  from memdump_next(1-3) [OF 2] 2(1) show ?case by (simp add: word_less_nat_alt)
qed simp

declare memdump_loop.simps [simp del]

definition memdump :: "memory \<Rightarrow> uintptr \<Rightarrow> u32 \<Rightarrow> ostream \<Rightarrow> ostream" where
  "memdump m startAddr len cout = memdump_loop m startAddr len startAddr cout"

text \<open>The same in C, over the text that \<open>printf\<close> has printed.\<close>

definition c_memdump_line :: "memory \<Rightarrow> uintptr \<Rightarrow> uintptr \<Rightarrow> string \<Rightarrow> string" where
  "c_memdump_line m addr nToPrint out =
    (let out = out @ ''0x'' @ pad (CHR ''0'') 16 (hex (unat addr)) @ '':'' @ [CHR 0x09];
         out = fold (\<lambda>i out. out @ pad (CHR ''0'') 2 (hex (unat (m (addr + of_nat i))))) [0..<unat nToPrint] out
     in out @ newline)"

function c_memdump_loop :: "memory \<Rightarrow> uintptr \<Rightarrow> u32 \<Rightarrow> uintptr \<Rightarrow> string \<Rightarrow> string" where
  "c_memdump_loop m startAddr len addr out =
    (if addr < startAddr + ucast len then
       (let nToPrint = startAddr + ucast len - addr;
            nToPrint = (if nToPrint > 16 then 16 else nToPrint)
        in c_memdump_loop m startAddr len (addr + nToPrint) (c_memdump_line m addr nToPrint out))
     else out)"
  by pat_completeness auto

termination
proof (relation "measure (\<lambda>(m, startAddr, len, addr, out). unat (startAddr + ucast len) - unat addr)", goal_cases)
  case (2 m startAddr len addr out n n')
  from memdump_next(1-3) [OF 2] 2(1) show ?case by (simp add: word_less_nat_alt)
qed simp

declare c_memdump_loop.simps [simp del]

definition c_memdump :: "memory \<Rightarrow> uintptr \<Rightarrow> u32 \<Rightarrow> string \<Rightarrow> string" where
  "c_memdump m startAddr len out = c_memdump_loop m startAddr len startAddr out"

section \<open>The text of a region\<close>

definition dump_line :: "memory \<Rightarrow> uintptr \<Rightarrow> nat \<Rightarrow> string" where
  "dump_line m a n =
    ''0x'' @ hex_address a @ '':'' @ [CHR 0x09] @ concat (map hex_byte (mem_read m a n)) @ newline"

fun dump :: "memory \<Rightarrow> uintptr \<Rightarrow> nat \<Rightarrow> string" where
  "dump m a n = (if n = 0 then [] else dump_line m a (min 16 n) @ dump m (a + 16) (n - 16))"

declare dump.simps [simp del]

lemma mem_read_Suc: "mem_read m a (Suc n) = mem_read m a n @ [m (a + of_nat n)]"
  by (simp add: mem_read_def)

lemma os_bytes:
  assumes "os_width cout = 0"
  shows "os_text (fold (\<lambda>i cout. os_number (unat (m (a + of_nat i))) (setfill (CHR ''0'') (setw 2 (setbase 16 cout)))) [0..<n] cout)
      = os_text cout @ concat (map hex_byte (mem_read m a n))
    \<and> os_width (fold (\<lambda>i cout. os_number (unat (m (a + of_nat i))) (setfill (CHR ''0'') (setw 2 (setbase 16 cout)))) [0..<n] cout) = 0"
  using assms by (induction n) (simp_all add: mem_read_Suc hex_byte_def os_simps, simp add: mem_read_def)

lemma memdump_line_text:
  "os_width cout = 0 \<Longrightarrow> os_text (memdump_line m a n cout) = os_text cout @ dump_line m a (unat n) \<and> os_width (memdump_line m a n cout) = 0"
  using os_bytes [of "os_string ('':'' @ [CHR 0x09]) (os_number (unat a) (setfill (CHR ''0'') (setw 16 (setbase 16 (os_string ''0x'' cout)))))" m a "unat n"]
  by (simp add: memdump_line_def Let_def dump_line_def hex_address_def) (simp add: os_simps)

lemma c_bytes:
  "fold (\<lambda>i out. out @ pad (CHR ''0'') 2 (hex (unat (m (a + of_nat i))))) [0..<n] out = out @ concat (map hex_byte (mem_read m a n))"
  by (induction n) (simp_all add: mem_read_Suc hex_byte_def, simp add: mem_read_def)

lemma c_memdump_line_text: "c_memdump_line m a n out = out @ dump_line m a (unat n)"
  by (simp add: c_memdump_line_def Let_def c_bytes dump_line_def hex_address_def)

lemma dump_unfold: "0 < n \<Longrightarrow> dump m a n = dump_line m a (min 16 n) @ dump m (a + of_nat (min 16 n)) (n - min 16 n)"
  by (cases "16 \<le> n") (simp_all add: dump.simps [of m a n] min_def dump.simps [of m _ 0])

lemma dump_step:
  assumes "unat n = min 16 k" "0 < k"
  shows "dump m a k = dump_line m a (unat n) @ dump m (a + n) (k - unat n)"
proof -
  have "a + of_nat (min 16 k) = a + n" by (simp flip: assms(1))
  then show ?thesis using dump_unfold [OF assms(2), of m a] by (simp add: assms(1))
qed

lemma memdump_loop_text:
  assumes "os_width cout = 0"
  shows "os_text (memdump_loop m startAddr len addr cout) = os_text cout @ dump m addr (unat (startAddr + ucast len) - unat addr)
    \<and> os_width (memdump_loop m startAddr len addr cout) = 0"
  using assms
proof (induction m startAddr len addr cout rule: memdump_loop.induct)
  case (1 m startAddr len addr cout)
  let ?stop = "startAddr + ucast len"
  show ?case
  proof (cases "addr < ?stop")
    case False
    then show ?thesis
      using 1(2) by (subst (1 2) memdump_loop.simps) (simp add: dump.simps [of m addr 0] word_less_nat_alt)
  next
    case True
    define n where "n = (if ?stop - addr > 16 then 16 else ?stop - addr)"
    note next' = memdump_next [OF True refl n_def]
    have line: "os_text (memdump_line m addr n cout) = os_text cout @ dump_line m addr (unat n)"
      "os_width (memdump_line m addr n cout) = 0"
      using memdump_line_text [OF 1(2)] by auto
    have step: "memdump_loop m startAddr len addr cout = memdump_loop m startAddr len (addr + n) (memdump_line m addr n cout)"
      using True by (subst memdump_loop.simps) (simp add: n_def Let_def)
    have "dump m addr (unat ?stop - unat addr) = dump_line m addr (unat n) @ dump m (addr + n) (unat ?stop - unat (addr + n))"
      using dump_step [OF next'(4), of m addr] next'(1-3) True by (simp add: word_less_nat_alt)
    with 1(1) [OF True refl n_def line(2)] line(1) step show ?thesis by simp
  qed
qed

lemma c_memdump_loop_text:
  "c_memdump_loop m startAddr len addr out = out @ dump m addr (unat (startAddr + ucast len) - unat addr)"
proof (induction m startAddr len addr out rule: c_memdump_loop.induct)
  case (1 m startAddr len addr out)
  let ?stop = "startAddr + ucast len"
  show ?case
  proof (cases "addr < ?stop")
    case False
    then show ?thesis
      by (subst c_memdump_loop.simps) (simp add: dump.simps [of m addr 0] word_less_nat_alt)
  next
    case True
    define n where "n = (if ?stop - addr > 16 then 16 else ?stop - addr)"
    note next' = memdump_next [OF True refl n_def]
    have step: "c_memdump_loop m startAddr len addr out = c_memdump_loop m startAddr len (addr + n) (c_memdump_line m addr n out)"
      using True by (subst c_memdump_loop.simps) (simp add: n_def Let_def)
    have "dump m addr (unat ?stop - unat addr) = dump_line m addr (unat n) @ dump m (addr + n) (unat ?stop - unat (addr + n))"
      using dump_step [OF next'(4), of m addr] next'(1-3) True by (simp add: word_less_nat_alt)
    with 1 [OF True refl n_def] step show ?thesis by (simp add: c_memdump_line_text)
  qed
qed

text \<open>What is printed for a region, and nothing when its end is past the last address.\<close>

definition region_dump :: "memory \<Rightarrow> memory_region \<Rightarrow> string" where
  "region_dump m r = dump m (rg_start_address r) (unat (rg_start_address r + ucast (rg_length r)) - unat (rg_start_address r))"

lemma unat_ucast_u32_u64: "unat (ucast (n :: u32) :: u64) = unat n"
  using unat_u32_lt [of n] by (simp add: unsigned_ucast_eq take_bit_nat_eq_self del: unat_u32_lt)

lemma region_dump_exact:
  "unat a + unat n < 2 ^ 64 \<Longrightarrow> region_dump m \<lparr>rg_start_address = a, rg_length = n\<rparr> = dump m a (unat n)"
  by (simp add: region_dump_def unat_word_ariths unat_ucast_u32_u64)

lemma region_dump_wraps:
  assumes "2 ^ 64 \<le> unat a + unat n"
  shows "region_dump m \<lparr>rg_start_address = a, rg_length = n\<rparr> = []"
proof -
  define x where "x = unat a + unat n"
  have "unat a < 18446744073709551616" "unat n < 4294967296" using unsigned_less [of a] by simp_all
  then have small: "x - 18446744073709551616 < 18446744073709551616" "x - 18446744073709551616 \<le> unat a"
    unfolding x_def by linarith+
  have "x mod 18446744073709551616 = (x - 18446744073709551616) mod 18446744073709551616"
    using assms by (intro le_mod_geq) (simp add: x_def)
  then have "x mod 18446744073709551616 - unat a = 0" using small by simp
  then show ?thesis unfolding x_def by (simp add: region_dump_def unat_word_ariths unat_ucast_u32_u64 dump.simps)
qed

section \<open>main\<close>

text \<open>
  How a program ends, and the channel that it is asked to listen on. The errors of the parser in C++
  are not of a class derived from \<open>std::exception\<close>, so nothing catches them.
\<close>

datatype run_end = Returned int | Aborted
datatype channel = Udp_Channel u16 | Serial_Channel string u32

partial_function (option) memdump_regions :: "memory \<Rightarrow> arg_parser \<Rightarrow> ostream \<Rightarrow> (run_end \<times> ostream) option" where
  "memdump_regions m parser cout =
    (if has_another_memory_region parser then
       (case next_memory_region parser of
          Inl _ \<Rightarrow> Some (Aborted, cout)
        | Inr (region, parser) \<Rightarrow>
            memdump_regions m parser (memdump m (rg_start_address region) (rg_length region) cout))
     else Some (Returned 0, cout))"

definition test_app_main ::
  "memory \<Rightarrow> u16 \<Rightarrow> u32 \<Rightarrow> string list \<Rightarrow> (run_end \<times> ostream \<times> string \<times> channel option) option" where
  "test_app_main m junk_port junk_baudrate argv =
    (let parser = parse argv (arg_parser_new junk_port junk_baudrate); cout = cout_start
     in if \<not> ap_valid parser then
          Some (Returned (- 1), cout, ''Invalid usage'' @ newline @ ap_last_error parser @ newline, None)
        else if ap_command parser = Memdump then
          map_option (\<lambda>(ending, cout). (ending, cout, [], None)) (memdump_regions m parser cout)
        else if ap_command parser = UdpListen then
          (let cout = os_endl (os_number (unat (ap_udp_port parser)) (os_string ''UDP comm on port '' cout))
           in Some (Returned 0, cout, [], Some (Udp_Channel (ap_udp_port parser))))
        else if ap_command parser = SerialListen then
          (let config = ap_serial_config parser;
               cout = os_string (sc_port_name config) (os_string ''Serial comm on '' cout);
               cout = os_endl (os_string '' baud'' (os_number (unat (sc_baudrate config)) (os_string '' @'' cout)))
           in Some (Returned 0, cout, [], Some (Serial_Channel (sc_port_name config) (sc_baudrate config))))
        else Some (Returned 0, cout, [], None))"

text \<open>In C, the region is printed before the error is looked at.\<close>

partial_function (option) c_memdump_regions ::
  "memory \<Rightarrow> c_arg_parser \<Rightarrow> memory_region \<Rightarrow> string \<Rightarrow> (run_end \<times> string) option" where
  "c_memdump_regions m parser region out =
    (if c_testapp_argument_parser_has_another_memory_region parser then
       (case c_testapp_argument_parser_next_memory_region parser of
          Inl err \<Rightarrow>
            if err = NoArgument then Some (Aborted, out)
            else Some (Returned (- 1), c_memdump m (rg_start_address region) (rg_length region) out)
        | Inr (region, parser) \<Rightarrow>
            c_memdump_regions m parser region (c_memdump m (rg_start_address region) (rg_length region) out))
     else Some (Returned 0, out))"

definition c_test_app_main ::
  "memory \<Rightarrow> c_arg_parser \<Rightarrow> memory_region \<Rightarrow> string list \<Rightarrow> (run_end \<times> string \<times> string \<times> channel option) option" where
  "c_test_app_main m junk_parser junk_region argv =
    (let parser = c_testapp_argument_parser_parse (c_testapp_argument_parser_init junk_parser) argv
     in if \<not> cp_valid parser then
          Some (Returned (- 1), [], ''Invalid usage. '' @ cp_last_error parser @ newline, None)
        else if cp_command parser = Memdump then
          map_option (\<lambda>(ending, out). (ending, out, [], None)) (c_memdump_regions m parser junk_region [])
        else if cp_command parser = UdpListen then
          Some (Returned 0, ''UDP comm on port '' @ dec (unat (cp_udp_port parser)) @ newline, [],
                Some (Udp_Channel (cp_udp_port parser)))
        else if cp_command parser = SerialListen then
          Some (Returned 0,
                ''Serial comm on '' @ c_string (cp_port_name parser) @ ''@'' @ dec (unat (cp_baudrate parser)) @ '' baud'' @ newline,
                [], Some (Serial_Channel (c_string (cp_port_name parser)) (cp_baudrate parser)))
        else Some (Returned 0, [], [], None))"

section \<open>The regions of the command line\<close>

text \<open>Regions as a user writes them: an address and a length, each in the base that is wanted.\<close>

type_synonym written_region = "(bool \<times> nat) \<times> (bool \<times> nat)"

definition region_args :: "written_region list \<Rightarrow> string list" where
  "region_args rs = concat (map (\<lambda>((h, a), (k, n)). [number_text h a, number_text k n]) rs)"

lemma region_args_simps [simp]:
  "region_args [] = []"
  "region_args (((h, a), (k, n)) # rs) = number_text h a # number_text k n # region_args rs"
  by (simp_all add: region_args_def)

lemma length_region_args [simp]: "length (region_args rs) = 2 * length rs"
  by (induction rs) auto

lemma nth_region_args:
  "i < length rs \<Longrightarrow> region_args rs ! (2 * i) = case_prod number_text (fst (rs ! i))
    \<and> region_args rs ! Suc (2 * i) = case_prod number_text (snd (rs ! i))"
proof (induction rs arbitrary: i)
  case (Cons r rs)
  obtain h a k n where "r = ((h, a), (k, n))" by (metis surj_pair)
  with Cons show ?case by (cases i) auto
qed simp

lemma number_text_fits:
  assumes "n < 2 ^ 63"
  shows "CHR 0x00 \<notin> set (number_text h n)" "length (number_text h n) < 32"
proof -
  have "length (hex n) \<le> 16" "length (dec n) \<le> 19"
    using length_digits [of 16 n 16] length_digits [of 10 n 19] assms by simp_all
  then show "length (number_text h n) < 32" by (simp add: number_text_def)
  show "CHR 0x00 \<notin> set (number_text h n)"
    using digits_not_space(2) [of 16 "CHR 0x00" n] digits_not_space(2) [of 10 "CHR 0x00" n]
    by (auto simp: number_text_def)
qed

definition written_ok :: "written_region \<Rightarrow> bool" where
  "written_ok r = (case r of ((h, a), (k, n)) \<Rightarrow> a < 2 ^ 63 \<and> n < 2 ^ 32)"

definition written_dump :: "memory \<Rightarrow> written_region \<Rightarrow> string" where
  "written_dump m r = (case r of ((h, a), (k, n)) \<Rightarrow> dump m (of_nat a) n)"

text \<open>A region that was written is the one that is read, and its bytes are printed.\<close>

lemma written_region_read:
  assumes "written_ok r" "reg = region_of (case_prod number_text (fst r)) (case_prod number_text (snd r))"
  shows "region_dump m reg = written_dump m r"
proof -
  obtain h a k n where r: "r = ((h, a), (k, n))" by (metis surj_pair)
  then have bounds: "a < 9223372036854775808" "n < 4294967296" using assms(1) by (simp_all add: written_ok_def)
  then have "reg = \<lparr>rg_start_address = of_nat a, rg_length = of_nat n\<rparr>"
    using assms(2) by (simp add: r region_of_def read_number_text unsigned_of_nat take_bit_nat_eq_self)
  moreover have "unat (of_nat a :: u64) = a" "unat (of_nat n :: u32) = n"
    using bounds by (simp_all add: unat_of_nat take_bit_nat_eq_self)
  ultimately show ?thesis
    using region_dump_exact [of "of_nat a" "of_nat n" m] bounds by (simp add: r written_dump_def)
qed

lemma memdump_text:
  "os_width cout = 0 \<Longrightarrow> os_text (memdump m (rg_start_address r) (rg_length r) cout) = os_text cout @ region_dump m r
    \<and> os_width (memdump m (rg_start_address r) (rg_length r) cout) = 0"
  by (simp add: memdump_def memdump_loop_text region_dump_def)

lemma c_memdump_text: "c_memdump m (rg_start_address r) (rg_length r) out = out @ region_dump m r"
  by (simp add: c_memdump_def c_memdump_loop_text region_dump_def)

lemma region_step:
  assumes "argv = prog # cmd # region_args rs" "at_region argv k p" "same_parser p q" "k < length rs" "list_all written_ok rs"
  obtains region p' q' where "has_another_memory_region p" "next_memory_region p = Inr (region, p')"
    "c_testapp_argument_parser_next_memory_region q = Inr (region, q')"
    "at_region argv (Suc k) p'" "same_parser p' q'" "region_dump m region = written_dump m (rs ! k)"
proof -
  have args: "argv ! (2 + 2 * k) = case_prod number_text (fst (rs ! k))"
    "argv ! (3 + 2 * k) = case_prod number_text (snd (rs ! k))"
    using nth_region_args [OF assms(4)] by (simp_all add: assms(1) eval_nat_numeral)
  have ok: "written_ok (rs ! k)" using assms(4,5) by (simp add: list_all_length)
  have len: "2 + 2 * k < length argv" "2 + 2 * k \<le> length argv" using assms(4) by (simp_all add: assms(1))
  note s = at_region_steps [OF assms(2) len(2)]
  have fits: "CHR 0x00 \<notin> set (argv ! i) \<and> length (argv ! i) < 32" if "i \<in> {2 + 2 * k, 3 + 2 * k}" for i
  proof -
    obtain h a b n where r: "rs ! k = ((h, a), (b, n))" by (metis surj_pair)
    with ok have "a < 2 ^ 63" "n < 2 ^ 63" by (simp_all add: written_ok_def)
    with that args r number_text_fits [of a] number_text_fits [of n] show ?thesis by auto
  qed
  have argv: "ap_argv p = argv" using assms(2) by (simp add: at_region_def)
  have fits': "CHR 0x00 \<notin> set (ap_argv p ! i) \<and> length (ap_argv p ! i) < 32"
    if "i \<in> {unat (ap_region_index p + 2), unat (ap_region_index p + 2 + 1)}" for i
    using fits that unfolding s(4,5) argv .
  from same_next_memory_region [OF assms(3) fits'] s(2) [OF len(1)]
  obtain q' where "c_testapp_argument_parser_next_memory_region q = Inr (region_of (argv ! (2 + 2 * k)) (argv ! (3 + 2 * k)), q')"
    "same_parser (p\<lparr>ap_region_index := of_nat (2 * Suc k)\<rparr>) q'"
    by auto
  with that s(1,3) s(2) [OF len(1)] len(1) written_region_read [OF ok refl, of m] args show thesis by metis
qed

lemma region_end:
  assumes "argv = prog # cmd # region_args rs" "at_region argv (length rs) p"
  shows "\<not> has_another_memory_region p"
  using at_region_steps(1) [OF assms(2)] by (simp add: assms(1))

lemma drop_nth: "k < length rs \<Longrightarrow> drop k rs = rs ! k # drop (Suc k) rs"
  by (rule Cons_nth_drop_Suc [symmetric])

lemma memdump_regions_run:
  assumes "argv = prog # cmd # region_args rs" "at_region argv k p" "same_parser p q" "k \<le> length rs"
    "list_all written_ok rs" "os_width cout = 0"
  shows "\<exists>cout'. memdump_regions m p cout = Some (Returned 0, cout')
      \<and> os_text cout' = os_text cout @ concat (map (written_dump m) (drop k rs))"
  using assms(2-4,6)
proof (induction "length rs - k" arbitrary: k p q cout)
  case 0
  then show ?case using region_end [OF assms(1)] by (subst memdump_regions.simps) simp
next
  case (Suc x)
  then have k: "k < length rs" by simp
  obtain region p' q' where s: "has_another_memory_region p" "next_memory_region p = Inr (region, p')"
    "at_region argv (Suc k) p'" "same_parser p' q'" "region_dump m region = written_dump m (rs ! k)"
    by (rule region_step [OF assms(1) Suc.prems(1,2) k assms(5)])
  let ?cout = "memdump m (rg_start_address region) (rg_length region) cout"
  have t: "os_text ?cout = os_text cout @ written_dump m (rs ! k)" "os_width ?cout = 0"
    using memdump_text [OF Suc.prems(4)] s(5) by simp_all
  have run: "memdump_regions m p cout = memdump_regions m p' ?cout"
    using s(1,2) by (subst memdump_regions.simps) simp
  show ?case using Suc.hyps(1) [OF _ s(3,4) _ t(2)] Suc.hyps(2) k by (simp add: run t(1) drop_nth)
qed

lemma c_memdump_regions_run:
  assumes "argv = prog # cmd # region_args rs" "at_region argv k p" "same_parser p q" "k \<le> length rs"
    "list_all written_ok rs"
  shows "c_memdump_regions m q reg out = Some (Returned 0, out @ concat (map (written_dump m) (drop k rs)))"
  using assms(2-4)
proof (induction "length rs - k" arbitrary: k p q reg out)
  case 0
  then show ?case
    using region_end [OF assms(1)] by (subst c_memdump_regions.simps) (simp add: same_parser_simps(6) [OF 0(3)])
next
  case (Suc x)
  then have k: "k < length rs" by simp
  obtain region p' q' where s: "has_another_memory_region p"
    "c_testapp_argument_parser_next_memory_region q = Inr (region, q')"
    "at_region argv (Suc k) p'" "same_parser p' q'" "region_dump m region = written_dump m (rs ! k)"
    by (rule region_step [OF assms(1) Suc.prems(1,2) k assms(5)])
  let ?out = "c_memdump m (rg_start_address region) (rg_length region) out"
  have run: "c_memdump_regions m q reg out = c_memdump_regions m q' region ?out"
    using s(1,2) by (subst c_memdump_regions.simps) (simp add: same_parser_simps(6) [OF Suc.prems(2)])
  show ?case using Suc.hyps(1) [OF _ s(3,4)] Suc.hyps(2) k s(5) by (simp add: run c_memdump_text drop_nth)
qed

text \<open>C40: \<open>memdump\<close> prints the regions of the command line. Whatever the case of the command and the
  bases in which addresses and lengths are written, both programs read back every region, print
  its bytes, 16 to a line after their address, and return 0: the same text in C++ and in C.\<close>

theorem memdump_prints_regions:
  assumes "map tolower cmd = ''memdump''" "rs \<noteq> []" "length rs < 2 ^ 29" "list_all written_ok rs"
  shows "(\<exists>cout. test_app_main m junk_port junk_baudrate (prog # cmd # region_args rs) = Some (Returned 0, cout, [], None)
        \<and> os_text cout = concat (map (written_dump m) rs))
    \<and> c_test_app_main m junk_parser junk_region (prog # cmd # region_args rs)
      = Some (Returned 0, concat (map (written_dump m) rs), [], None)"
proof -
  let ?argv = "prog # cmd # region_args rs"
  let ?p = "parse ?argv (arg_parser_new junk_port junk_baudrate)"
  let ?q = "c_testapp_argument_parser_parse (c_testapp_argument_parser_init junk_parser) ?argv"
  have at: "at_region ?argv 0 ?p"
  proof (rule parse_memdump [OF assms(1)])
    have "length (region_args rs) \<noteq> 0" using assms(2) by simp
    then show "region_args rs \<noteq> []" by (rule contrapos_nn) simp
    show "length (region_args rs) + 2 < 2 ^ 31" using assms(3) by simp
  qed simp
  have "length cmd = 7" using arg_cong [OF assms(1), of length] by simp
  moreover have "CHR 0x00 \<notin> set cmd"
  proof
    assume "CHR 0x00 \<in> set cmd"
    then have "tolower (CHR 0x00) \<in> set (map tolower cmd)" by force
    then show False using assms(1) by (simp add: tolower_def)
  qed
  ultimately have same: "same_parser ?p ?q"
    by (intro same_parse) (simp_all add: arg_parser_new_def c_testapp_argument_parser_init_def)
  obtain cout where run: "memdump_regions m ?p cout_start = Some (Returned 0, cout)"
    "os_text cout = concat (map (written_dump m) rs)"
    using memdump_regions_run [OF refl at same _ assms(4), of cout_start m] by (auto simp: cout_start_def)
  have p: "ap_valid ?p" "ap_command ?p = Memdump" using at by (simp_all add: at_region_def)
  have q: "cp_valid ?q" "cp_command ?q = Memdump" using p same_parser_simps(1,2) [OF same] by simp_all
  have "c_memdump_regions m ?q junk_region [] = Some (Returned 0, concat (map (written_dump m) rs))"
    using c_memdump_regions_run [OF refl at same _ assms(4), of m junk_region "[]"] by simp
  with run p q show ?thesis
    unfolding test_app_main_def c_test_app_main_def Let_def by simp
qed

text \<open>Three bytes from an address in hexadecimal and one from an address in decimal, with capitals in the command.\<close>

lemma memdump_prints_regions_witness:
  "\<exists>cout. test_app_main (\<lambda>a. ucast a) 0 0 [''testapp'', ''MemDump'', ''0xfe'', ''3'', ''16'', ''0x1'']
      = Some (Returned 0, cout, [], None)
    \<and> os_text cout = ''0x00000000000000fe:'' @ [CHR 0x09] @ ''feff00'' @ [CHR 0x0A]
        @ ''0x0000000000000010:'' @ [CHR 0x09] @ ''10'' @ [CHR 0x0A]"
proof -
  have args: "region_args [((True, 0xfe), (False, 3)), ((False, 16), (True, 1))] = [''0xfe'', ''3'', ''16'', ''0x1'']"
    by (simp add: number_text_def digits.simps hex_digit_def)
  have "written_dump (\<lambda>a. ucast a) ((True, 0xfe), (False, 3)) = ''0x00000000000000fe:'' @ [CHR 0x09] @ ''feff00'' @ [CHR 0x0A]"
    "written_dump (\<lambda>a. ucast a) ((False, 16), (True, 1)) = ''0x0000000000000010:'' @ [CHR 0x09] @ ''10'' @ [CHR 0x0A]"
    by code_simp+
  moreover have "map tolower ''MemDump'' = ''memdump''" by code_simp
  ultimately show ?thesis using memdump_prints_regions [of "''MemDump''" "[((True, 0xfe), (False, 3)), ((False, 16), (True, 1))]"
      "\<lambda>a. ucast a" 0 0 "''testapp''", unfolded args]
    by (simp add: written_ok_def)
qed

end
