(* ===== verification/TestApp.thy ===== *)
theory TestApp
  imports PublishedStore MemDump
begin

text \<open>
  The test application in C++, \<open>projects/testapp/src/main.cpp\<close>: the values it publishes and its
  callbacks, its user commands, its configuration, and the loop that runs the library on a
  communication channel. Its variables are the user's part of the world; they are not looked for in the
  memory of the target. A float is its bits and a \<open>bool\<close> its byte, which a copy keeps and a test
  compares with 0. Lemmas: its published values are a store, its user commands stay in the buffer.
\<close>

section \<open>State\<close>

record rpv_storage =
  rpv_id_1000 :: u8
  rpv_id_1001 :: u16
  rpv_id_1002 :: u32
  rpv_id_2000 :: u8
  rpv_id_2001 :: u16
  rpv_id_2002 :: u32
  rpv_id_3000 :: u32
  rpv_id_4000 :: u8
  rpv_id_5000 :: u8
  rpv_id_5001 :: u16
  rpv_id_1003 :: u64
  rpv_id_2003 :: u64
  rpv_id_3001 :: u64

text \<open>With the static variables of \<open>process_interactive_data\<close> and the standard output.\<close>

record app =
  app_rpvStorage :: rpv_storage
  app_enable :: bool
  app_counter :: u16
  app_step :: u16
  app_cout :: ostream

definition rpvs :: "rpv list" where
  "rpvs =
    [\<lparr>rpv_id = 0x1000, rpv_type = VT_sint8\<rparr>,
     \<lparr>rpv_id = 0x1001, rpv_type = VT_sint16\<rparr>,
     \<lparr>rpv_id = 0x1002, rpv_type = VT_sint32\<rparr>,
     \<lparr>rpv_id = 0x2000, rpv_type = VT_uint8\<rparr>,
     \<lparr>rpv_id = 0x2001, rpv_type = VT_uint16\<rparr>,
     \<lparr>rpv_id = 0x2002, rpv_type = VT_uint32\<rparr>,
     \<lparr>rpv_id = 0x3000, rpv_type = VT_float32\<rparr>,
     \<lparr>rpv_id = 0x4000, rpv_type = VT_boolean\<rparr>,
     \<lparr>rpv_id = 0x5000, rpv_type = VT_boolean\<rparr>,
     \<lparr>rpv_id = 0x5001, rpv_type = VT_uint16\<rparr>,
     \<lparr>rpv_id = 0x1003, rpv_type = VT_sint64\<rparr>,
     \<lparr>rpv_id = 0x2003, rpv_type = VT_uint64\<rparr>,
     \<lparr>rpv_id = 0x3001, rpv_type = VT_float64\<rparr>]"

definition init_all_values :: "app \<Rightarrow> app" where
  "init_all_values a =
    (let s = app_rpvStorage a;
         s = s\<lparr>rpv_id_1000 := - 10, rpv_id_1001 := - 30000, rpv_id_1002 := 0xABCDEF,
               rpv_id_2000 := 0xAB, rpv_id_2001 := 0x1234, rpv_id_2002 := 0x12345678,
               rpv_id_3000 := 0x40490FDA, rpv_id_4000 := 1, rpv_id_5000 := 0, rpv_id_5001 := 0\<rparr>;
         s = s\<lparr>rpv_id_1003 := 0xAABBCCDDEEFF, rpv_id_2003 := 0x111111111111, rpv_id_3001 := 0x4005BF0995AAF790\<rparr>
     in a\<lparr>app_rpvStorage := s\<rparr>)"

text \<open>The start of the program: static variables are zero unless they are given a value.\<close>

definition app_start :: app where
  "app_start =
    init_all_values
      \<lparr>app_rpvStorage =
         \<lparr>rpv_id_1000 = 0, rpv_id_1001 = 0, rpv_id_1002 = 0, rpv_id_2000 = 0, rpv_id_2001 = 0, rpv_id_2002 = 0,
          rpv_id_3000 = 0, rpv_id_4000 = 0, rpv_id_5000 = 0, rpv_id_5001 = 0, rpv_id_1003 = 0, rpv_id_2003 = 0,
          rpv_id_3001 = 0\<rparr>,
       app_enable = False, app_counter = 0, app_step = 1, app_cout = cout_start\<rparr>"

definition app_world :: "memory \<Rightarrow> app world" where
  "app_world m = \<lparr>w_memory = m, w_user = app_start\<rparr>"

section \<open>Callbacks\<close>

definition TestAppRPVReadCallback :: "app rpv_read_callback" where
  "TestAppRPVReadCallback rpv outval caller w =
    (let s = app_rpvStorage (w_user w)
     in if rpv_id rpv = 0x1000 then (True, set_uint8 (rpv_id_1000 s) outval, w)
        else if rpv_id rpv = 0x1001 then (True, set_uint16 (rpv_id_1001 s) outval, w)
        else if rpv_id rpv = 0x1002 then (True, set_uint32 (rpv_id_1002 s) outval, w)
        else if rpv_id rpv = 0x1003 then (True, rpv_id_1003 s, w)
        else if rpv_id rpv = 0x2000 then (True, set_uint8 (rpv_id_2000 s) outval, w)
        else if rpv_id rpv = 0x2001 then (True, set_uint16 (rpv_id_2001 s) outval, w)
        else if rpv_id rpv = 0x2002 then (True, set_uint32 (rpv_id_2002 s) outval, w)
        else if rpv_id rpv = 0x2003 then (True, rpv_id_2003 s, w)
        else if rpv_id rpv = 0x3000 then (True, set_uint32 (rpv_id_3000 s) outval, w)
        else if rpv_id rpv = 0x3001 then (True, rpv_id_3001 s, w)
        else if rpv_id rpv = 0x4000 then (True, set_uint8 (rpv_id_4000 s) outval, w)
        else if rpv_id rpv = 0x5000 then (True, set_uint8 (rpv_id_5000 s) outval, w)
        else if rpv_id rpv = 0x5001 then (True, set_uint16 (rpv_id_5001 s) outval, w)
        else (False, outval, w))"

definition TestAppRPVWriteCallback :: "app rpv_write_callback" where
  "TestAppRPVWriteCallback rpv inval w =
    (let s = app_rpvStorage (w_user w);
         store = (\<lambda>s. w\<lparr>w_user := (w_user w)\<lparr>app_rpvStorage := s\<rparr>\<rparr>)
     in if rpv_id rpv = 0x1000 then (True, store (s\<lparr>rpv_id_1000 := ucast inval\<rparr>))
        else if rpv_id rpv = 0x1001 then (True, store (s\<lparr>rpv_id_1001 := ucast inval\<rparr>))
        else if rpv_id rpv = 0x1002 then (True, store (s\<lparr>rpv_id_1002 := ucast inval\<rparr>))
        else if rpv_id rpv = 0x1003 then (True, store (s\<lparr>rpv_id_1003 := inval\<rparr>))
        else if rpv_id rpv = 0x2000 then (True, store (s\<lparr>rpv_id_2000 := ucast inval\<rparr>))
        else if rpv_id rpv = 0x2001 then (True, store (s\<lparr>rpv_id_2001 := ucast inval\<rparr>))
        else if rpv_id rpv = 0x2002 then (True, store (s\<lparr>rpv_id_2002 := ucast inval\<rparr>))
        else if rpv_id rpv = 0x2003 then (True, store (s\<lparr>rpv_id_2003 := inval\<rparr>))
        else if rpv_id rpv = 0x3000 then (True, store (s\<lparr>rpv_id_3000 := ucast inval\<rparr>))
        else if rpv_id rpv = 0x3001 then (True, store (s\<lparr>rpv_id_3001 := inval\<rparr>))
        else if rpv_id rpv = 0x4000 then (True, store (s\<lparr>rpv_id_4000 := ucast inval\<rparr>))
        else if rpv_id rpv = 0x5000 then (True, store (s\<lparr>rpv_id_5000 := ucast inval\<rparr>))
        else if rpv_id rpv = 0x5001 then (True, store (s\<lparr>rpv_id_5001 := ucast inval\<rparr>))
        else (False, w))"

definition process_interactive_data :: "app \<Rightarrow> app" where
  "process_interactive_data a =
    (let s = app_rpvStorage a;
         a = (if rpv_id_5000 s \<noteq> 0 then a\<lparr>app_rpvStorage := s\<lparr>rpv_id_5001 := rpv_id_5001 s + app_step a\<rparr>\<rparr> else a)
     in if app_enable a then a\<lparr>app_counter := app_counter a + app_step a\<rparr> else a)"

text \<open>What is printed goes to the output of the application.\<close>

definition on_cout :: "(ostream \<Rightarrow> ostream) \<Rightarrow> app world \<Rightarrow> app world" where
  "on_cout f w = w\<lparr>w_user := (w_user w)\<lparr>app_cout := f (app_cout (w_user w))\<rparr>\<rparr>"

definition datalogging_callback :: "app trigger_callback" where
  "datalogging_callback w = on_cout (\<lambda>cout. os_endl (os_string ''Graph Triggered!'' cout)) w"

text \<open>Bytes as the program prints them, which leaves the stream in hexadecimal.\<close>

definition print_bytes :: "u8 list \<Rightarrow> ostream \<Rightarrow> ostream" where
  "print_bytes bs cout = fold (\<lambda>b cout. os_number (unat b) (setfill (CHR ''0'') (setw 2 (setbase 16 cout)))) bs cout"

definition my_user_command :: "app user_command_callback" where
  "my_user_command subfunction request_data response_data response_data_length response_max_data_length w =
    (let w = on_cout (\<lambda>cout.
           let cout = os_number (unat subfunction) (os_string ''User command: Subfunction #'' cout);
               cout = os_number (length request_data) (os_string '' with '' cout);
               cout = os_string '' data bytes: '' cout
           in os_endl (print_bytes request_data cout)) w
     in if response_max_data_length < 1 then (response_data, 0, w)
        else if subfunction = 0 \<and> response_max_data_length \<ge> 8 then
          (blit (response_data[0 := subfunction]) 1 (map of_nat [0..<7]), 8, w)
        else if subfunction = 1 then
          (blit (response_data[0 := subfunction]) 1 (map of_nat [1..<unat response_max_data_length]),
           response_max_data_length, w)
        else if subfunction = 2 then (response_data, response_max_data_length + 1, w)
        else if subfunction = 3 then (response_data, 0, w)
        else if subfunction = 4 then
          (let max_echo_size = min (of_nat (length request_data)) (response_max_data_length - 1)
           in (blit (response_data[0 := subfunction]) 1 (take (unat max_echo_size) request_data), max_echo_size + 1, w))
        else (response_data[0 := 0xFF], 1, w))"

section \<open>Configuration\<close>

text \<open>A string constant, with its zero.\<close>

definition c_chars :: "string \<Rightarrow> u8 list" where
  "c_chars s = map of_char s @ [0]"

text \<open>The loops of the application: the fixed frequency loop, then the other. The buffers are static.\<close>

abbreviation (input) ff_loop :: loop_ref where "ff_loop \<equiv> 0"
abbreviation (input) vf_loop :: loop_ref where "vf_loop \<equiv> 1"

definition ff_loop_info :: loop_info where
  "ff_loop_info = fixed_frequency_loop 100000 (Some (c_chars ''100Hz Loop''))"

definition vf_loop_info :: loop_info where
  "vf_loop_info = variable_frequency_loop (Some (c_chars ''Variable freq loop''))"

definition test_app_config :: "app config" where
  "test_app_config =
    (let config = config_clear;
         config = set_buffers (Some (replicate 128 0)) 128 (Some (replicate 256 0)) 256 config;
         config = set_published_values (Some rpvs) (of_nat (length rpvs))
                    (Some TestAppRPVReadCallback) (Some TestAppRPVWriteCallback) config;
         config = set_loops (Some [ff_loop, vf_loop]) 2 config;
         config = set_user_command_callback (Some my_user_command) config;
         config = set_datalogging_trigger_callback (Some datalogging_callback) config;
         config = set_datalogging_buffers (Some (replicate 4096 0)) 4096 config
     in config\<lparr>cf_max_bitrate := 100000, cf_display_name := Some (c_chars ''TestApp Executable''),
               cf_session_counter_seed := 0xDEADBEEF\<rparr>)"

section \<open>The published values are a store\<close>

definition app_cell :: "rpv \<Rightarrow> app world \<Rightarrow> anytype" where
  "app_cell r w =
    (let s = app_rpvStorage (w_user w); i = rpv_id r
     in if i = 0x1000 then ucast (rpv_id_1000 s)
        else if i = 0x1001 then ucast (rpv_id_1001 s)
        else if i = 0x1002 then ucast (rpv_id_1002 s)
        else if i = 0x1003 then rpv_id_1003 s
        else if i = 0x2000 then ucast (rpv_id_2000 s)
        else if i = 0x2001 then ucast (rpv_id_2001 s)
        else if i = 0x2002 then ucast (rpv_id_2002 s)
        else if i = 0x2003 then rpv_id_2003 s
        else if i = 0x3000 then ucast (rpv_id_3000 s)
        else if i = 0x3001 then rpv_id_3001 s
        else if i = 0x4000 then ucast (rpv_id_4000 s)
        else if i = 0x5000 then ucast (rpv_id_5000 s)
        else if i = 0x5001 then ucast (rpv_id_5001 s)
        else 0)"

lemma rpvs_types:
  "r \<in> set rpvs \<Longrightarrow> is_supported_type (rpv_type r)"
  by (auto simp: rpvs_def is_supported_type_iff)

lemma type_sizes:
  "get_type_size_8bits VT_sint8 = 1" "get_type_size_8bits VT_sint16 = 2" "get_type_size_8bits VT_sint32 = 4"
  "get_type_size_8bits VT_sint64 = 8" "get_type_size_8bits VT_uint8 = 1" "get_type_size_8bits VT_uint16 = 2"
  "get_type_size_8bits VT_uint32 = 4" "get_type_size_8bits VT_uint64 = 8" "get_type_size_8bits VT_float32 = 4"
  "get_type_size_8bits VT_float64 = 8" "get_type_size_8bits VT_boolean = 1"
  by code_simp+

lemma ucast_take_bit:
  "ucast (ucast (v :: u64) :: u8) = take_bit 8 v" "ucast (ucast v :: u16) = take_bit 16 v"
  "ucast (ucast v :: u32) = take_bit 32 v" "take_bit 64 v = v"
  by (rule bit_word_eqI; auto simp: bit_simps)+

lemma ucast_back:
  "ucast (ucast (b :: u8) :: u64) = b" "ucast (ucast (h :: u16) :: u64) = h" "ucast (ucast (x :: u32) :: u64) = x"
  by (rule bit_word_eqI; auto simp: bit_simps)+

lemma set_value_members:
  "set_value 1 (ucast (b :: u8)) v = set_uint8 b v" "set_value 2 (ucast (h :: u16)) v = set_uint16 h v"
  "set_value 4 (ucast (x :: u32)) v = set_uint32 x v" "set_value 8 y v = y"
  by (simp_all add: set_value_def ucast_back)

interpretation cpp_app: published_store rpvs TestAppRPVReadCallback TestAppRPVWriteCallback app_cell
proof unfold_locales
  show cpp_ids: "distinct (map rpv_id rpvs)" by (simp add: rpvs_def)
  fix r assume r: "r \<in> set rpvs"
  then show "is_supported_type (rpv_type r)" by (rule rpvs_types)
  show "TestAppRPVReadCallback r v None w = (True, set_value (get_type_size_8bits (rpv_type r)) (app_cell r w) v, w)" for v w
    using r unfolding rpvs_def list.set insert_iff empty_iff
    by (elim disjE) (simp_all add: TestAppRPVReadCallback_def app_cell_def type_sizes set_value_members)
  show "fst (TestAppRPVWriteCallback r v w)" for v w
    using r unfolding rpvs_def list.set insert_iff empty_iff
    by (elim disjE) (simp_all add: TestAppRPVWriteCallback_def)
  show "app_cell r' (snd (TestAppRPVWriteCallback r v w)) = (if r' = r then value_of_type r v else app_cell r' w)"
    if r': "r' \<in> set rpvs" for r' v w
  proof -
    have "r' = r \<longleftrightarrow> rpv_id r' = rpv_id r"
      using r r' cpp_ids by (auto simp: distinct_map inj_on_def)
    then show ?thesis
      using r unfolding rpvs_def list.set insert_iff empty_iff
      by (elim disjE) (simp_all cong: if_cong add: TestAppRPVWriteCallback_def app_cell_def value_of_type_def type_sizes ucast_take_bit Let_def)
  qed
qed

lemma test_app_config_fields:
  "cf_rpvs test_app_config = Some rpvs" "cf_rpv_count test_app_config = of_nat (length rpvs)"
  "cf_rpv_read_callback test_app_config = Some TestAppRPVReadCallback"
  "cf_rpv_write_callback test_app_config = Some TestAppRPVWriteCallback"
  "cf_user_command_callback test_app_config = Some my_user_command"
  "cf_tx_buffer test_app_config = Some (replicate 256 0)" "cf_tx_buffer_size test_app_config = 256"
  "cf_rx_buffer test_app_config = Some (replicate 128 0)" "cf_rx_buffer_size test_app_config = 128"
  by (simp_all add: test_app_config_def Let_def set_buffers_def set_published_values_def set_loops_def
      set_user_command_callback_def set_datalogging_trigger_callback_def set_datalogging_buffers_def config_clear_def)

lemma test_app_serves: "cpp_app.serves test_app_config"
  by (simp add: cpp_app.serves_def test_app_config_fields) (simp add: rpvs_def)

text \<open>C39: what a server writes to the published values of the test application is what it reads. After
  a request that writes values of the table, in any order and as often as it likes, a request that
  reads values is answered with the last one written to each, in the size of its type, and with the
  value it had before where none was written.\<close>

theorem published_values_roundtrip:
  assumes "fst ` set vs \<subseteq> set rpvs" "vs \<noteq> []" "set rs \<subseteq> set rpvs" "rs \<noteq> []"
    and "rq_subfunction_id wq = MemoryControl_WriteRPV" "has_payload wq (rpv_items vs)" "3 * length vs \<le> 256"
    and "rq_subfunction_id rq = MemoryControl_ReadRPV" "has_payload rq (rpv_ids (map rpv_id rs))"
    and "length (rpv_items (map (\<lambda>r. (r, 0)) rs)) \<le> 256"
    and "256 \<le> length (rs_data resp)" "256 \<le> length (rs_data resp')"
  shows "\<exists>w' resp1 resp2. process_memory_control test_app_config 256 w stk wq resp = Some (RC_OK, w', resp1)
      \<and> response_payload resp1 = rpv_acks vs
      \<and> process_memory_control test_app_config 256 w' stk' rq resp' = Some (RC_OK, w', resp2)
      \<and> response_payload resp2
          = rpv_items (map (\<lambda>r. (r, case map_of (rev vs) r of None \<Rightarrow> app_cell r w | Some x \<Rightarrow> x)) rs)"
  using cpp_app.written_then_read [OF test_app_serves assms(1-6) _ assms(8,9), of 256 resp resp' w stk stk'] assms(7,10-)
  by (simp add: assigned_last)

text \<open>A byte written twice, and a number of 32 bits that keeps its first value.\<close>

lemma published_values_roundtrip_witness:
  "\<exists>w' resp1 resp2. process_memory_control test_app_config 256 (app_world (\<lambda>_. 0)) demo_stack
        (demo_request 3 MemoryControl_WriteRPV [0x10, 0x00, 7, 0x20, 0x01, 0xAB, 0xCD, 0x10, 0x00, 9])
        (demo_blank_response\<lparr>rs_data := replicate 256 0\<rparr>) = Some (RC_OK, w', resp1)
      \<and> response_payload resp1 = [0x10, 0x00, 1, 0x20, 0x01, 2, 0x10, 0x00, 1]
      \<and> process_memory_control test_app_config 256 w' demo_stack
        (demo_request 3 MemoryControl_ReadRPV [0x10, 0x00, 0x20, 0x02])
        (demo_blank_response\<lparr>rs_data := replicate 256 0\<rparr>) = Some (RC_OK, w', resp2)
      \<and> response_payload resp2 = [0x10, 0x00, 9, 0x20, 0x02, 0x12, 0x34, 0x56, 0x78]"
proof -
  let ?b = "\<lparr>rpv_id = 0x1000, rpv_type = VT_sint8\<rparr>" and ?h = "\<lparr>rpv_id = 0x2001, rpv_type = VT_uint16\<rparr>"
    and ?x = "\<lparr>rpv_id = 0x2002, rpv_type = VT_uint32\<rparr>" and ?resp = "demo_blank_response\<lparr>rs_data := replicate 256 0\<rparr>"
  let ?vs = "[(?b, 7), (?h, 0xABCD), (?b, 9)]"
  have bytes: "rpv_items ?vs = [0x10, 0x00, 7, 0x20, 0x01, 0xAB, 0xCD, 0x10, 0x00, 9]"
    "rpv_acks ?vs = [0x10, 0x00, 1, 0x20, 0x01, 2, 0x10, 0x00, 1]"
    "rpv_ids (map rpv_id [?b, ?x]) = [0x10, 0x00, 0x20, 0x02]"
    "rpv_items (map (\<lambda>r. (r, 0)) [?b, ?x]) = [0x10, 0x00, 0, 0x20, 0x02, 0, 0, 0, 0]"
    "rpv_items [(?b, 9), (?x, 0x12345678)] = [0x10, 0x00, 9, 0x20, 0x02, 0x12, 0x34, 0x56, 0x78]"
    by code_simp+
  have members: "?b \<in> set rpvs" "?h \<in> set rpvs" "?x \<in> set rpvs" by (simp_all add: rpvs_def)
  have first: "app_cell ?x (app_world (\<lambda>_. 0)) = 0x12345678"
    by (simp add: app_cell_def app_world_def app_start_def init_all_values_def Let_def)
  show ?thesis
    using published_values_roundtrip [of ?vs "[?b, ?x]" "demo_request 3 MemoryControl_WriteRPV (rpv_items ?vs)"
        "demo_request 3 MemoryControl_ReadRPV (rpv_ids (map rpv_id [?b, ?x]))" ?resp ?resp
        "app_world (\<lambda>_. 0)" demo_stack demo_stack] members
    by (simp add: bytes demo_request_payload first del: rpv_list_simps list.map)
      (simp add: demo_request_def first bytes(5) del: rpv_list_simps)
qed

section \<open>User commands\<close>

text \<open>What the answer to a user command holds, when there is one.\<close>

definition user_command_answer :: "u8 \<Rightarrow> u8 list \<Rightarrow> u8 list" where
  "user_command_answer subfunction data =
    (if subfunction = 0 then subfunction # map of_nat [0..<7]
     else if subfunction = 1 then subfunction # map of_nat [1..<256]
     else if subfunction = 3 then []
     else if subfunction = 4 then subfunction # take 255 data
     else [0xFF])"

lemma take_blit_after_first:
  assumes "1 + length bs \<le> length buf" "n = 1 + length bs"
  shows "take n (blit (buf[0 := x]) 1 bs) = x # bs"
  using assms by (cases buf) (simp_all add: blit_def)

lemma my_user_command_256:
  assumes "length buf = 256" "length bs < 65536"
  shows "case my_user_command sub bs buf 0 256 w of (d, n, w') \<Rightarrow>
    length d = 256 \<and> (n > 256 \<longleftrightarrow> sub = 2) \<and> (sub \<noteq> 2 \<longrightarrow> take (unat n) d = user_command_answer sub bs)"
proof -
  have echo: "unat (min (of_nat (length bs)) (256 - 1) :: u16) = min (length bs) 255"
    "unat (min (of_nat (length bs)) (256 - 1) + 1 :: u16) = Suc (min (length bs) 255)"
    using assms(2) by (auto simp: min_def word_le_nat_alt unat_word_ariths)
  have one: "take (Suc 0) (buf[0 := x]) = [x]" for x using assms(1) by (cases buf) auto
  have counted: "take 8 (blit (buf[0 := 0]) 1 (map of_nat [0..<7])) = 0 # map of_nat [0..<7]"
    by (rule take_blit_after_first) (simp_all add: assms(1))
  have full: "take 256 (blit (buf[0 := 1]) 1 (map of_nat [1..<256])) = 1 # map of_nat [1..<256]"
    by (rule take_blit_after_first) (simp_all add: assms(1) del: upt_rec_numeral)
  have cut: "take (min (length bs) 255) bs = take 255 bs" by (simp add: min_def)
  have echoed: "take (Suc (min (length bs) 255)) (blit (buf[0 := 4]) 1 (take (min (length bs) 255) bs))
      = 4 # take (min (length bs) 255) bs"
    by (rule take_blit_after_first) (simp_all add: assms(1))
  consider "sub = 0" | "sub = 1" | "sub = 2" | "sub = 3" | "sub = 4" | "sub \<notin> {0, 1, 2, 3, 4}" by blast
  then show ?thesis
  proof cases
    case 1
    then show ?thesis
      using counted by (simp del: upt_rec_numeral add: my_user_command_def user_command_answer_def Let_def assms(1))
  next
    case 2
    then show ?thesis
      using full by (simp del: upt_rec_numeral add: my_user_command_def user_command_answer_def Let_def assms(1))
  next
    case 5
    then show ?thesis
      using echoed echo cut
      by (simp add: my_user_command_def user_command_answer_def Let_def assms(1) word_less_nat_alt)
  qed (use one in \<open>simp_all add: my_user_command_def user_command_answer_def Let_def assms(1)\<close>)
qed

text \<open>A user command of the test application is answered with what its subfunction says, and never
  writes past the buffer it is given: 8 bytes that count for subfunction 0, a full buffer for 1, no data
  for 3, an echo of what fits for 4 and \<open>0xFF\<close> for the others. Subfunction 2 claims one byte more than
  there is, which the library refuses.\<close>

theorem user_command_answered:
  assumes "has_payload rq bs" "length (rs_data resp) = 256"
  shows "\<exists>w' resp'. process_user_command test_app_config 256 w rq resp
        = (if rq_subfunction_id rq = 2 then RC_Overflow else RC_OK, w', resp')
      \<and> length (rs_data resp') = 256
      \<and> (rq_subfunction_id rq \<noteq> 2 \<longrightarrow> response_payload resp' = user_command_answer (rq_subfunction_id rq) bs)"
proof -
  have data: "take (unat (rq_data_length rq)) (rq_data rq) = bs" "length bs < 65536"
    using assms(1) unat_u16_lt [of "rq_data_length rq"] by (simp_all add: has_payload_def)
  obtain d n w' where run: "my_user_command (rq_subfunction_id rq) bs (rs_data resp) 0 256 w = (d, n, w')"
    by (metis prod_cases3)
  from my_user_command_256 [OF assms(2) data(2), of "rq_subfunction_id rq" w] run show ?thesis
    by (simp add: process_user_command_def test_app_config_fields data(1) response_payload_def)
qed

lemma user_command_answered_witness:
  "\<exists>w' resp'. process_user_command test_app_config 256 (app_world (\<lambda>_. 0))
        (demo_request 4 4 [0xAA, 0xBB]) (demo_blank_response\<lparr>rs_data := replicate 256 0\<rparr>) = (RC_OK, w', resp')
      \<and> length (rs_data resp') = 256 \<and> response_payload resp' = [4, 0xAA, 0xBB]"
  using user_command_answered [OF demo_request_payload, of "[0xAA, 0xBB]" "demo_blank_response\<lparr>rs_data := replicate 256 0\<rparr>"
      "app_world (\<lambda>_. 0)" 4 4]
  by (simp add: user_command_answer_def demo_request_def)

section \<open>The loop\<close>

text \<open>
  What a turn finds: the buffer after the channel was asked for data and what the channel returned,
  an \<open>int\<close>, and the time since the start and since the last turn.
\<close>

record turn =
  tn_buffer :: "u8 list"
  tn_len_received :: u32
  tn_time_since_start_us :: u32
  tn_timestep_us :: u32

text \<open>A turn can read past its buffer; \<open>Stuck\<close> is a loop of the library that does not return.\<close>

datatype turn_error = Reads_past_buffer | Stuck

definition print_in :: "turn \<Rightarrow> ostream \<Rightarrow> ostream" where
  "print_in t cout =
    (let cout = os_number (unat (tn_time_since_start_us t)) (setw 0 (setbase 10 cout));
         cout = os_string ''  in:  ('' cout;
         cout = os_number (unat (tn_len_received t)) (setfill (CHR '' '') (setw 2 cout));
         cout = os_string '')  '' cout
     in os_endl (print_bytes (take (unat (tn_len_received t)) (tn_buffer t)) cout))"

definition print_out :: "turn \<Rightarrow> u8 list \<Rightarrow> ostream \<Rightarrow> ostream" where
  "print_out t bs cout =
    (let cout = os_number (unat (tn_time_since_start_us t)) (setw 0 (setbase 10 cout));
         cout = os_string ''  out: ('' cout;
         cout = os_number (length bs) (setfill (CHR '' '') (setw 2 cout));
         cout = os_string '')  '' cout
     in os_endl (print_bytes bs cout))"

definition app_turn ::
  "u8 list \<Rightarrow> mh_stack \<Rightarrow> junk \<Rightarrow> turn \<Rightarrow> app main_handler \<Rightarrow> loops \<Rightarrow> app world \<Rightarrow>
   turn_error + u8 list \<times> app main_handler \<times> loops \<times> app world" where
  "app_turn software_id stk junk t h loops w =
    (let w = w\<lparr>w_user := process_interactive_data (w_user w)\<rparr>;
         buffer = tn_buffer t; len = tn_len_received t; timestep_100ns = tn_timestep_us t * 10
     in if sint len > int (length buffer) \<or> unat (ucast len :: u16) > length buffer then Inl Reads_past_buffer
        else
          let w = (if sint len > 0 then on_cout (print_in t) w else w)
          in case mh_receive_data (take (unat (ucast len :: u16)) buffer) h of None \<Rightarrow> Inl Stuck | Some h \<Rightarrow>
             case mh_process software_id stk timestep_100ns h loops w of None \<Rightarrow> Inl Stuck | Some (h, loops, w) \<Rightarrow>
               (let data_to_send = min (mh_data_to_send h) 1024
                in case (if data_to_send > 0 then
                           (case mh_pop_data data_to_send h of (bs, h) \<Rightarrow>
                             (let sent = take (unat data_to_send) (blit buffer 0 bs)
                              in (sent, h, on_cout (print_out t sent) w)))
                         else ([], h, w)) of (sent, h, w) \<Rightarrow>
                   case process_common (mh_config h) junk vf_loop timestep_100ns loops
                          (md_datalogger (mh_datalogging h)) w of (loops, dl, w) \<Rightarrow>
                   case process_common (mh_config h) junk ff_loop timestep_100ns loops dl w of (loops, dl, w) \<Rightarrow>
                     Inr (sent, h\<lparr>mh_datalogging := (mh_datalogging h)\<lparr>md_datalogger := dl\<rparr>\<rparr>, loops, w)))"

text \<open>
  The serial port returns the result of \<open>read\<close>, which is -1 when it fails. The length that the
  library is given is then 65535, and it reads past the buffer.
\<close>

lemma failed_read_overruns:
  "tn_len_received t = - 1 \<Longrightarrow> length (tn_buffer t) = 1024 \<Longrightarrow> app_turn sid stk junk t h loops w = Inl Reads_past_buffer"
proof -
  assume a: "tn_len_received t = - 1" "length (tn_buffer t) = 1024"
  have "(ucast (- 1 :: u32) :: u16) = - 1" by (rule bit_word_eqI) (simp add: bit_simps)
  moreover have "unat (- 1 :: u16) = 65535" by (simp add: unsigned_minus_1_eq_mask mask_eq_exp_minus_1)
  ultimately have "unat (ucast (- 1 :: u32) :: u16) = 65535" by (simp only:)
  then have "unat (ucast (tn_len_received t) :: u16) > length (tn_buffer t)" unfolding a by simp
  then have "(sint (tn_len_received t) > int (length (tn_buffer t)) \<or> unat (ucast (tn_len_received t) :: u16) > length (tn_buffer t)) = True"
    by (intro eqTrueI disjI2)
  then show ?thesis unfolding app_turn_def Let_def by (simp only: if_True)
qed

text \<open>
  Otherwise a turn is an iteration of the main loop of \<open>MainSession\<close>, with the bytes received and room
  for what there is to send, between the application's own work and the loop handlers.
\<close>

lemma app_turn_iteration:
  assumes "sint (tn_len_received t) = int n" "n \<le> length (tn_buffer t)" "length (tn_buffer t) = 1024"
    and "app_turn sid stk junk t h loops w = Inr (sent, h', loops', w')" "sent \<noteq> []"
  shows "\<exists>room w1 bs h1 loops1 w2. room \<le> 1024 \<and> w_memory w1 = w_memory w
    \<and> main_iteration sid stk (tn_timestep_us t * 10, take n (tn_buffer t), room) h loops w1 = Some (bs, h1, loops1, w2)
    \<and> sent = take (unat room) (blit (tn_buffer t) 0 bs) \<and> mh_comm h' = mh_comm h1"
proof -
  have "tn_len_received t = of_nat n"
    using arg_cong [OF assms(1), of "of_int :: int \<Rightarrow> u32"] by simp
  then have "(ucast (tn_len_received t) :: u16) = of_nat n" by (simp add: unsigned_of_nat) (rule bit_word_eqI, simp add: bit_simps)
  then have len: "unat (ucast (tn_len_received t) :: u16) = n" using assms(2,3) by simp
  define w1 where "w1 = (let w = w\<lparr>w_user := process_interactive_data (w_user w)\<rparr>
    in if sint (tn_len_received t) > 0 then on_cout (print_in t) w else w)"
  have mem: "w_memory w1 = w_memory w" by (simp add: w1_def Let_def on_cout_def)
  from assms(4) obtain h1 h2 loops2 w2 where run: "mh_receive_data (take n (tn_buffer t)) h = Some h1"
    "mh_process sid stk (tn_timestep_us t * 10) h1 loops w1 = Some (h2, loops2, w2)"
    using assms(1-3) unfolding app_turn_def len Let_def w1_def
    by (auto split: if_splits option.splits prod.splits)
  define room where "room = min (mh_data_to_send h2) 1024"
  obtain bs h3 where pop: "mh_pop_data room h2 = (bs, h3)" by force
  have iteration: "main_iteration sid stk (tn_timestep_us t * 10, take n (tn_buffer t), room) h loops w1 = Some (bs, h3, loops2, w2)"
    by (simp add: main_iteration_def run pop)
  have "sent = take (unat room) (blit (tn_buffer t) 0 bs) \<and> mh_comm h' = mh_comm h3"
    using assms(4,5) run pop unfolding app_turn_def len Let_def w1_def room_def
    by (auto split: if_splits option.splits prod.splits)
  moreover have "room \<le> 1024" by (simp add: room_def)
  ultimately show ?thesis using iteration mem by blast
qed

end
