(* ===== verification/CTestApp.thy ===== *)
theory CTestApp
  imports TestApp
begin

text \<open>
  The test application in C, \<open>projects/c_testapp/src/main.c\<close>, which drives the library through its C
  interface. Its published values are the store of \<open>PublishedStore\<close> once its callbacks are cast, and
  its user commands answer as those of the application in C++.
\<close>

section \<open>State\<close>

record c_rpv_storage =
  c_rpv_id_1000 :: u8
  c_rpv_id_1001 :: u16
  c_rpv_id_1002 :: u32
  c_rpv_id_2000 :: u8
  c_rpv_id_2001 :: u16
  c_rpv_id_2002 :: u32
  c_rpv_id_3000 :: u32
  c_rpv_id_1003 :: u64
  c_rpv_id_2003 :: u64
  c_rpv_id_3001 :: u64

record c_app =
  capp_rpvStorage :: c_rpv_storage
  capp_enable :: bool
  capp_counter :: u16
  capp_step :: u16
  capp_out :: string

definition c_rpvs :: "rpv list" where
  "c_rpvs =
    [\<lparr>rpv_id = 0x1000, rpv_type = VT_sint8\<rparr>,
     \<lparr>rpv_id = 0x1001, rpv_type = VT_sint16\<rparr>,
     \<lparr>rpv_id = 0x1002, rpv_type = VT_sint32\<rparr>,
     \<lparr>rpv_id = 0x2000, rpv_type = VT_uint8\<rparr>,
     \<lparr>rpv_id = 0x2001, rpv_type = VT_uint16\<rparr>,
     \<lparr>rpv_id = 0x2002, rpv_type = VT_uint32\<rparr>,
     \<lparr>rpv_id = 0x3000, rpv_type = VT_float32\<rparr>,
     \<lparr>rpv_id = 0x1003, rpv_type = VT_sint64\<rparr>,
     \<lparr>rpv_id = 0x2003, rpv_type = VT_uint64\<rparr>,
     \<lparr>rpv_id = 0x3001, rpv_type = VT_float64\<rparr>]"

definition c_init_all_values :: "c_app \<Rightarrow> c_app" where
  "c_init_all_values a =
    (let s = capp_rpvStorage a;
         s = s\<lparr>c_rpv_id_1000 := - 10, c_rpv_id_1001 := - 30000, c_rpv_id_1002 := 0xABCDEF,
               c_rpv_id_2000 := 0xAB, c_rpv_id_2001 := 0x1234, c_rpv_id_2002 := 0x12345678,
               c_rpv_id_3000 := 0x40490FDA\<rparr>;
         s = s\<lparr>c_rpv_id_1003 := 0xAABBCCDDEEFF, c_rpv_id_2003 := 0x111111111111, c_rpv_id_3001 := 0x4005BF0995AAF790\<rparr>
     in a\<lparr>capp_rpvStorage := s\<rparr>)"

section \<open>Callbacks\<close>

definition c_TestAppRPVReadCallback :: "c_app c_rpv_read_callback" where
  "c_TestAppRPVReadCallback rpv outval caller w =
    (let s = capp_rpvStorage (w_user w)
     in if rpv_id rpv = 0x1000 then (1, set_uint8 (c_rpv_id_1000 s) outval, w)
        else if rpv_id rpv = 0x1001 then (1, set_uint16 (c_rpv_id_1001 s) outval, w)
        else if rpv_id rpv = 0x1002 then (1, set_uint32 (c_rpv_id_1002 s) outval, w)
        else if rpv_id rpv = 0x1003 then (1, c_rpv_id_1003 s, w)
        else if rpv_id rpv = 0x2000 then (1, set_uint8 (c_rpv_id_2000 s) outval, w)
        else if rpv_id rpv = 0x2001 then (1, set_uint16 (c_rpv_id_2001 s) outval, w)
        else if rpv_id rpv = 0x2002 then (1, set_uint32 (c_rpv_id_2002 s) outval, w)
        else if rpv_id rpv = 0x2003 then (1, c_rpv_id_2003 s, w)
        else if rpv_id rpv = 0x3000 then (1, set_uint32 (c_rpv_id_3000 s) outval, w)
        else if rpv_id rpv = 0x3001 then (1, c_rpv_id_3001 s, w)
        else (0, outval, w))"

definition c_TestAppRPVWriteCallback :: "c_app c_rpv_write_callback" where
  "c_TestAppRPVWriteCallback rpv inval w =
    (let s = capp_rpvStorage (w_user w);
         store = (\<lambda>s. w\<lparr>w_user := (w_user w)\<lparr>capp_rpvStorage := s\<rparr>\<rparr>)
     in if rpv_id rpv = 0x1000 then (1, store (s\<lparr>c_rpv_id_1000 := ucast inval\<rparr>))
        else if rpv_id rpv = 0x1001 then (1, store (s\<lparr>c_rpv_id_1001 := ucast inval\<rparr>))
        else if rpv_id rpv = 0x1002 then (1, store (s\<lparr>c_rpv_id_1002 := ucast inval\<rparr>))
        else if rpv_id rpv = 0x1003 then (1, store (s\<lparr>c_rpv_id_1003 := inval\<rparr>))
        else if rpv_id rpv = 0x2000 then (1, store (s\<lparr>c_rpv_id_2000 := ucast inval\<rparr>))
        else if rpv_id rpv = 0x2001 then (1, store (s\<lparr>c_rpv_id_2001 := ucast inval\<rparr>))
        else if rpv_id rpv = 0x2002 then (1, store (s\<lparr>c_rpv_id_2002 := ucast inval\<rparr>))
        else if rpv_id rpv = 0x2003 then (1, store (s\<lparr>c_rpv_id_2003 := inval\<rparr>))
        else if rpv_id rpv = 0x3000 then (1, store (s\<lparr>c_rpv_id_3000 := ucast inval\<rparr>))
        else if rpv_id rpv = 0x3001 then (1, store (s\<lparr>c_rpv_id_3001 := inval\<rparr>))
        else (0, w))"

definition c_process_interactive_data :: "c_app \<Rightarrow> c_app" where
  "c_process_interactive_data a =
    (if capp_enable a then a\<lparr>capp_counter := capp_counter a + capp_step a\<rparr> else a)"

definition printf :: "string \<Rightarrow> c_app world \<Rightarrow> c_app world" where
  "printf s w = w\<lparr>w_user := (w_user w)\<lparr>capp_out := capp_out (w_user w) @ s\<rparr>\<rparr>"

definition c_datalogging_callback :: "c_app trigger_callback" where
  "c_datalogging_callback w = printf (''Graph Triggered!'' @ newline) w"

definition c_my_user_command :: "c_app user_command_callback" where
  "c_my_user_command subfunction request_data response_data response_data_length response_max_data_length w =
    (let w = printf (''User command: Subfunction #'' @ dec (unat subfunction) @ '' with '' @ dec (length request_data)
               @ '' data bytes: '' @ concat (map hex_byte request_data) @ newline) w
     in if response_max_data_length < 1 then (response_data, 0, w)
        else if subfunction = 0 \<and> response_max_data_length \<ge> 8 then
          (blit (response_data[0 := subfunction]) 1 (map of_nat [0..<7]), 8, w)
        else if subfunction = 1 then
          (blit (response_data[0 := subfunction]) 1 (map of_nat [1..<unat response_max_data_length]),
           response_max_data_length, w)
        else if subfunction = 2 then (response_data, response_max_data_length + 1, w)
        else if subfunction = 3 then (response_data, 0, w)
        else if subfunction = 4 then
          (let max_echo_size = (if of_nat (length request_data) < response_max_data_length - 1
                                then of_nat (length request_data) else response_max_data_length - 1)
           in (blit (response_data[0 := subfunction]) 1 (take (unat max_echo_size) request_data), max_echo_size + 1, w))
        else (response_data[0 := 0xFF], 1, w))"

section \<open>Configuration\<close>

text \<open>\<open>as_bool\<close> is what the library finds in the \<open>int\<close> that a callback of published values returns.\<close>

definition c_test_app_config :: "(c_int \<Rightarrow> bool) \<Rightarrow> c_app config \<Rightarrow> c_app config" where
  "c_test_app_config as_bool config =
    (let config = scrutiny_c_config_set_buffers config (Some (replicate 128 0)) 128 (Some (replicate 256 0)) 256;
         config = scrutiny_c_config_set_published_values as_bool config (Some c_rpvs) (of_nat (length c_rpvs))
                    (Some c_TestAppRPVReadCallback) (Some c_TestAppRPVWriteCallback);
         config = scrutiny_c_config_set_loops config (Some [ff_loop, vf_loop]) 2;
         config = scrutiny_c_config_set_user_command_callback config (Some c_my_user_command);
         config = scrutiny_c_config_set_datalogging_trigger_callback config (Some c_datalogging_callback);
         config = scrutiny_c_config_set_datalogging_buffers config (Some (replicate 4096 0)) 4096;
         config = scrutiny_c_config_set_max_bitrate config 100000;
         config = scrutiny_c_config_set_display_name config (Some (c_chars ''TestApp Executable''))
     in scrutiny_c_config_set_session_counter_seed config 0xDEADBEEF)"

section \<open>The loop\<close>

text \<open>A turn with the status of the channel; an error of the channel ends the loop with a message.\<close>

datatype c_turn_end = Channel_Error string | C_Reads_past_buffer | C_Stuck

definition c_print_bytes :: "string \<Rightarrow> u64 \<Rightarrow> nat \<Rightarrow> u8 list \<Rightarrow> string" where
  "c_print_bytes direction time_since_start n bs =
    dec (unat time_since_start) @ direction @ pad (CHR '' '') 2 (dec n) @ '')  '' @ concat (map hex_byte bs) @ newline"

definition c_app_turn ::
  "u8 list \<Rightarrow> mh_stack \<Rightarrow> junk \<Rightarrow> bool \<Rightarrow> u8 list \<Rightarrow> u32 \<Rightarrow> u64 \<Rightarrow> u32 \<Rightarrow> bool \<Rightarrow>
   c_app main_handler \<Rightarrow> loops \<Rightarrow> c_app world \<Rightarrow>
   c_turn_end + u8 list \<times> c_app main_handler \<times> loops \<times> c_app world" where
  "c_app_turn software_id stk junk received_ok buffer len time_since_start timestep_us sent_ok h loops w =
    (let w = w\<lparr>w_user := c_process_interactive_data (w_user w)\<rparr>
     in if \<not> received_ok then Inl (Channel_Error ''Error while receiving'')
        else if sint len > int (length buffer) \<or> unat (ucast len :: u16) > length buffer then Inl C_Reads_past_buffer
        else
          let w = (if sint len > 0
                   then printf (c_print_bytes ''  in:  ('' time_since_start (unat len) (take (unat len) buffer)) w else w)
          in case scrutiny_c_main_handler_receive_data h (take (unat (ucast len :: u16)) buffer) of
               None \<Rightarrow> Inl C_Stuck
             | Some h \<Rightarrow>
             case scrutiny_c_main_handler_process software_id stk h (timestep_us * 10) loops w of
               None \<Rightarrow> Inl C_Stuck
             | Some (h, loops, w) \<Rightarrow>
               (let data_to_send = scrutiny_c_main_handler_data_to_send h;
                    data_to_send = (if data_to_send < 1024 then data_to_send else 1024);
                    (bs, h) = (if data_to_send > 0 then scrutiny_c_main_handler_pop_data h data_to_send else ([], h));
                    sent = take (unat data_to_send) (blit buffer 0 bs)
                in if data_to_send > 0 \<and> \<not> sent_ok then Inl (Channel_Error ''Failed to start comm channel'')
                   else
                     let w = (if data_to_send > 0
                              then printf (c_print_bytes ''  out: ('' time_since_start (unat data_to_send) sent) w else w);
                         timestep_100ns = timestep_us * 10
                     in case scrutiny_c_loop_handler_variable_freq_process (mh_config h) junk vf_loop timestep_100ns loops
                               (md_datalogger (mh_datalogging h)) w of (loops, dl, w) \<Rightarrow>
                        case scrutiny_c_loop_handler_fixed_freq_process (mh_config h) junk ff_loop timestep_100ns loops dl w of
                          (loops, dl, w) \<Rightarrow>
                            Inr (sent, h\<lparr>mh_datalogging := (mh_datalogging h)\<lparr>md_datalogger := dl\<rparr>\<rparr>, loops, w)))"

section \<open>The published values are a store\<close>

definition c_app_cell :: "rpv \<Rightarrow> c_app world \<Rightarrow> anytype" where
  "c_app_cell r w =
    (let s = capp_rpvStorage (w_user w); i = rpv_id r
     in if i = 0x1000 then ucast (c_rpv_id_1000 s)
        else if i = 0x1001 then ucast (c_rpv_id_1001 s)
        else if i = 0x1002 then ucast (c_rpv_id_1002 s)
        else if i = 0x1003 then c_rpv_id_1003 s
        else if i = 0x2000 then ucast (c_rpv_id_2000 s)
        else if i = 0x2001 then ucast (c_rpv_id_2001 s)
        else if i = 0x2002 then ucast (c_rpv_id_2002 s)
        else if i = 0x2003 then c_rpv_id_2003 s
        else if i = 0x3000 then ucast (c_rpv_id_3000 s)
        else if i = 0x3001 then c_rpv_id_3001 s
        else 0)"

interpretation c_app: published_store c_rpvs "cast_read_callback (\<lambda>n. n \<noteq> 0) c_TestAppRPVReadCallback"
  "cast_write_callback (\<lambda>n. n \<noteq> 0) c_TestAppRPVWriteCallback" c_app_cell
proof unfold_locales
  show c_ids: "distinct (map rpv_id c_rpvs)" by (simp add: c_rpvs_def)
  fix r assume r: "r \<in> set c_rpvs"
  then show "is_supported_type (rpv_type r)" by (auto simp: c_rpvs_def is_supported_type_iff)
  show "cast_read_callback (\<lambda>n. n \<noteq> 0) c_TestAppRPVReadCallback r v None w
      = (True, set_value (get_type_size_8bits (rpv_type r)) (c_app_cell r w) v, w)" for v w
    using r unfolding c_rpvs_def list.set insert_iff empty_iff
    by (elim disjE) (simp_all add: cast_read_callback_def c_TestAppRPVReadCallback_def c_app_cell_def type_sizes set_value_members)
  show "fst (cast_write_callback (\<lambda>n. n \<noteq> 0) c_TestAppRPVWriteCallback r v w)" for v w
    using r unfolding c_rpvs_def list.set insert_iff empty_iff
    by (elim disjE) (simp_all add: cast_write_callback_def c_TestAppRPVWriteCallback_def)
  show "c_app_cell r' (snd (cast_write_callback (\<lambda>n. n \<noteq> 0) c_TestAppRPVWriteCallback r v w))
      = (if r' = r then value_of_type r v else c_app_cell r' w)"
    if r': "r' \<in> set c_rpvs" for r' v w
  proof -
    have "r' = r \<longleftrightarrow> rpv_id r' = rpv_id r"
      using r r' c_ids by (auto simp: distinct_map inj_on_def)
    then show ?thesis
      using r unfolding c_rpvs_def list.set insert_iff empty_iff
      by (elim disjE) (simp_all cong: if_cong add: cast_write_callback_def c_TestAppRPVWriteCallback_def c_app_cell_def
          value_of_type_def type_sizes ucast_take_bit Let_def)
  qed
qed

text \<open>The callbacks return 0 or 1, so it does not matter how the library reads other numbers.\<close>

lemma c_callbacks_cast:
  assumes "\<not> as_bool 0" "as_bool 1"
  shows "cast_read_callback as_bool c_TestAppRPVReadCallback = cast_read_callback (\<lambda>n. n \<noteq> 0) c_TestAppRPVReadCallback"
    "cast_write_callback as_bool c_TestAppRPVWriteCallback = cast_write_callback (\<lambda>n. n \<noteq> 0) c_TestAppRPVWriteCallback"
  using assms
  by (auto simp: fun_eq_iff cast_read_callback_def cast_write_callback_def c_TestAppRPVReadCallback_def
      c_TestAppRPVWriteCallback_def Let_def)

lemma c_test_app_serves:
  assumes "\<not> as_bool 0" "as_bool 1"
  shows "c_app.serves (c_test_app_config as_bool config_clear)"
  unfolding c_app.serves_def
  by (simp add: c_test_app_config_def Let_def c_callbacks_cast [OF assms]
      scrutiny_c_config_set_buffers_def set_buffers_def scrutiny_c_config_set_published_values_def set_published_values_def
      scrutiny_c_config_set_loops_def set_loops_def scrutiny_c_config_set_user_command_callback_def
      set_user_command_callback_def scrutiny_c_config_set_datalogging_trigger_callback_def
      set_datalogging_trigger_callback_def scrutiny_c_config_set_datalogging_buffers_def set_datalogging_buffers_def
      scrutiny_c_config_set_max_bitrate_def scrutiny_c_config_set_display_name_def
      scrutiny_c_config_set_session_counter_seed_def) (simp add: c_rpvs_def)

text \<open>So the application in C serves its published values as the one in C++ does.\<close>

lemmas c_published_values_roundtrip = c_app.written_then_read [OF c_test_app_serves]

text \<open>The answers to the user commands are those of the application in C++.\<close>

lemma min_strict: "min a b = (if a < b then a else (b :: u16))"
  by (auto simp: min_def)

lemma c_user_command_same:
  "fst (c_my_user_command sub bs buf n len w) = fst (my_user_command sub bs buf n len w')"
  "fst (snd (c_my_user_command sub bs buf n len w)) = fst (snd (my_user_command sub bs buf n len w'))"
  by (simp_all add: c_my_user_command_def my_user_command_def Let_def min_strict [symmetric])

end
