(* ===== verification/ElfFile.thy ===== *)
theory ElfFile
  imports Codecs "HOL-Library.Char_ord"
begin

text \<open>
  The readers of the ELF symbol dumper: \<open>cwrapper/elf-symdump/src/elf.c\<close> and its header, and the
  command line of \<open>cmd.c\<close>. The dumper runs on the build machine: it reads the sizes of the library's
  classes from an object file, for the C wrapper. A file is the list of its bytes; an open file is
  the list of the bytes from its position on, since every read that follows another one starts with
  a seek or goes on where the last one stopped. A failed check ends the program with a message; an
  access outside an array is a value of its own. Lemmas: the readers give the number that the bytes
  stand for in the byte order of the file.
\<close>

section \<open>Ends of the program\<close>

datatype dump_error =
    Exit string  \<comment> \<open>a message on \<open>stderr\<close> and \<open>EXIT_FAILURE\<close>\<close>
  | Out_of_bounds  \<comment> \<open>undefined behaviour\<close>

type_synonym 'a run = "dump_error + 'a"

fun andthen :: "'a run \<Rightarrow> ('a \<Rightarrow> 'b run) \<Rightarrow> 'b run" where
  "andthen (Inl e) f = Inl e"
| "andthen (Inr x) f = f x"

definition CHECK :: "bool \<Rightarrow> string \<Rightarrow> 'a run \<Rightarrow> 'a run" where
  "CHECK cond msg rest = (if cond then rest else Inl (Exit msg))"

lemma andthen_goes_on:
  assumes "andthen r k = Inr v"
  obtains x where "r = Inr x" "k x = Inr v"
  using assms by (cases r) simp_all

lemma CHECK_Inr: "CHECK c msg r = Inr y \<longleftrightarrow> c \<and> r = Inr y"
  by (simp add: CHECK_def)

lemma CHECK_true [simp]: "CHECK True msg r = r"
  by (simp add: CHECK_def)

section \<open>Files\<close>

text \<open>\<open>fseek\<close> takes a \<open>long\<close>: an offset with the sign bit is refused. \<open>fread\<close> gives what is left.\<close>

definition fseek :: "u8 list \<Rightarrow> u64 \<Rightarrow> u8 list option" where
  "fseek content offset = (if unat offset < 2 ^ 63 then Some (drop (unat offset) content) else None)"

definition fread :: "nat \<Rightarrow> u8 list \<Rightarrow> u8 list \<times> u8 list" where
  "fread n f = (take n f, drop n f)"

section \<open>The structures\<close>

abbreviation (input) ELF_ENDIAN_LITTLE :: u8 where "ELF_ENDIAN_LITTLE \<equiv> 1"
abbreviation (input) ELF_ENDIAN_BIG :: u8 where "ELF_ENDIAN_BIG \<equiv> 2"
abbreviation (input) ELF_CLASS_32BITS :: u8 where "ELF_CLASS_32BITS \<equiv> 1"
abbreviation (input) ELF_CLASS_64BITS :: u8 where "ELF_CLASS_64BITS \<equiv> 2"
abbreviation (input) SHT_SYMTAB :: u32 where "SHT_SYMTAB \<equiv> 2"
abbreviation (input) STT_OBJECT :: u8 where "STT_OBJECT \<equiv> 1"

definition ELF_MAGIC :: "u8 list" where "ELF_MAGIC = [0x7F, 0x45, 0x4C, 0x46]"

abbreviation (input) ELF_HEADER_P1_SIZE :: nat where "ELF_HEADER_P1_SIZE \<equiv> 24"
abbreviation (input) ELF_HEADER_32BITS_SIZE :: nat where "ELF_HEADER_32BITS_SIZE \<equiv> 52"
abbreviation (input) ELF_HEADER_64BITS_SIZE :: nat where "ELF_HEADER_64BITS_SIZE \<equiv> 64"

definition ELF_ST_TYPE :: "u8 \<Rightarrow> u8" where "ELF_ST_TYPE val = val AND 0xF"

record elf_header =
  e_magic :: "u8 list"
  e_class :: u8
  e_endianness :: u8
  e_type :: u16
  e_phoff :: u64
  e_shoff :: u64
  e_phentsize :: u16
  e_phnum :: u16
  e_shentsize :: u16
  e_shnum :: u16
  e_shstrndx :: u16

record elf_section_header =
  sh_name :: u32
  sh_type :: u32
  sh_flags :: u64
  sh_addr :: u64
  sh_offset :: u64
  sh_size :: u64
  sh_link :: u32
  sh_info :: u32
  sh_addralign :: u64
  sh_entsize :: u64

record elf_symbol =
  st_name :: u32
  st_value :: u64
  st_size :: u64
  st_info :: u8
  st_other :: u8
  st_shndx :: u16

record elf_symbol_table =
  stab_offset :: u64
  stab_size :: u64
  strtab_index :: u16

section \<open>Integers in the byte order of the file\<close>

definition read_8 :: "u8 \<Rightarrow> u8 list \<Rightarrow> u8" where
  "read_8 endianness buf = buf ! 0"

definition read_16 :: "u8 \<Rightarrow> u8 list \<Rightarrow> u16" where
  "read_16 endianness buf =
    (if endianness = ELF_ENDIAN_LITTLE
     then push_bit 8 (ucast (buf ! 1)) OR push_bit 0 (ucast (buf ! 0))
     else if endianness = ELF_ENDIAN_BIG
     then push_bit 8 (ucast (buf ! 0)) OR push_bit 0 (ucast (buf ! 1))
     else 0)"

definition read_32 :: "u8 \<Rightarrow> u8 list \<Rightarrow> u32" where
  "read_32 endianness buf =
    (if endianness = ELF_ENDIAN_LITTLE
     then push_bit 24 (ucast (buf ! 3)) OR push_bit 16 (ucast (buf ! 2)) OR push_bit 8 (ucast (buf ! 1))
       OR push_bit 0 (ucast (buf ! 0))
     else if endianness = ELF_ENDIAN_BIG
     then push_bit 24 (ucast (buf ! 0)) OR push_bit 16 (ucast (buf ! 1)) OR push_bit 8 (ucast (buf ! 2))
       OR push_bit 0 (ucast (buf ! 3))
     else 0)"

definition read_64 :: "u8 \<Rightarrow> u8 list \<Rightarrow> u64" where
  "read_64 endianness buf =
    (if endianness = ELF_ENDIAN_LITTLE
     then push_bit 56 (ucast (buf ! 7)) OR push_bit 48 (ucast (buf ! 6)) OR push_bit 40 (ucast (buf ! 5))
       OR push_bit 32 (ucast (buf ! 4)) OR push_bit 24 (ucast (buf ! 3)) OR push_bit 16 (ucast (buf ! 2))
       OR push_bit 8 (ucast (buf ! 1)) OR push_bit 0 (ucast (buf ! 0))
     else if endianness = ELF_ENDIAN_BIG
     then push_bit 56 (ucast (buf ! 0)) OR push_bit 48 (ucast (buf ! 1)) OR push_bit 40 (ucast (buf ! 2))
       OR push_bit 32 (ucast (buf ! 3)) OR push_bit 24 (ucast (buf ! 4)) OR push_bit 16 (ucast (buf ! 5))
       OR push_bit 8 (ucast (buf ! 6)) OR push_bit 0 (ucast (buf ! 7))
     else 0)"

text \<open>The padded sizes: the number must fit the last 64 bits, else the result is 0.\<close>

definition read_128 :: "u8 \<Rightarrow> u8 list \<Rightarrow> u64" where
  "read_128 endianness buf =
    (let lo = (if endianness = ELF_ENDIAN_LITTLE then buf else drop 8 buf);
         hi = (if endianness = ELF_ENDIAN_LITTLE then drop 8 buf else buf)
     in if list_ex (\<lambda>i. hi ! i \<noteq> 0) [0..<8] then 0 else read_64 endianness lo)"

definition read_256 :: "u8 \<Rightarrow> u8 list \<Rightarrow> u64" where
  "read_256 endianness buf =
    (let lo = (if endianness = ELF_ENDIAN_LITTLE then buf else drop 24 buf);
         hi = (if endianness = ELF_ENDIAN_LITTLE then drop 8 buf else buf)
     in if list_ex (\<lambda>i. hi ! i \<noteq> 0) [0..<24] then 0 else read_64 endianness lo)"

section \<open>Reading the structures\<close>

definition elf_read_section_header :: "elf_header \<Rightarrow> u8 list \<Rightarrow> elf_section_header option" where
  "elf_read_section_header h data =
    (let e = e_endianness h in
     if e_class h = ELF_CLASS_32BITS then
       Some \<lparr>sh_name = read_32 e data, sh_type = read_32 e (drop 0x4 data),
         sh_flags = ucast (read_32 e (drop 0x8 data)), sh_addr = ucast (read_32 e (drop 0xC data)),
         sh_offset = ucast (read_32 e (drop 0x10 data)), sh_size = ucast (read_32 e (drop 0x14 data)),
         sh_link = read_32 e (drop 0x18 data), sh_info = read_32 e (drop 0x1C data),
         sh_addralign = ucast (read_32 e (drop 0x20 data)), sh_entsize = ucast (read_32 e (drop 0x24 data))\<rparr>
     else if e_class h = ELF_CLASS_64BITS then
       Some \<lparr>sh_name = read_32 e data, sh_type = read_32 e (drop 0x4 data),
         sh_flags = read_64 e (drop 0x8 data), sh_addr = read_64 e (drop 0x10 data),
         sh_offset = read_64 e (drop 0x18 data), sh_size = read_64 e (drop 0x20 data),
         sh_link = read_32 e (drop 0x28 data), sh_info = read_32 e (drop 0x2C data),
         sh_addralign = read_64 e (drop 0x30 data), sh_entsize = read_64 e (drop 0x38 data)\<rparr>
     else None)"

definition elf_read_symbol :: "elf_header \<Rightarrow> u8 list \<Rightarrow> elf_symbol option" where
  "elf_read_symbol h buf =
    (let e = e_endianness h in
     if e_class h = ELF_CLASS_32BITS then
       Some \<lparr>st_name = read_32 e buf, st_value = ucast (read_32 e (drop 4 buf)),
         st_size = ucast (read_32 e (drop 8 buf)), st_info = read_8 e (drop 12 buf),
         st_other = read_8 e (drop 13 buf), st_shndx = read_16 e (drop 14 buf)\<rparr>
     else if e_class h = ELF_CLASS_64BITS then
       Some \<lparr>st_name = read_32 e buf, st_value = read_64 e (drop 8 buf), st_size = read_64 e (drop 16 buf),
         st_info = read_8 e (drop 4 buf), st_other = read_8 e (drop 5 buf), st_shndx = read_16 e (drop 6 buf)\<rparr>
     else None)"

text \<open>The characters up to the terminator, at most \<open>n\<close> with it.\<close>

fun read_str_loop :: "nat \<Rightarrow> u8 list \<Rightarrow> string option" where
  "read_str_loop 0 f = None"
| "read_str_loop (Suc n) [] = None"
| "read_str_loop (Suc n) (b # f) =
    (if b = 0 then Some [] else map_option ((#) (char_of (unat b))) (read_str_loop n f))"

definition elf_read_str :: "u8 list \<Rightarrow> elf_section_header \<Rightarrow> u64 \<Rightarrow> u64 \<Rightarrow> string option" where
  "elf_read_str content strtab_header strtab_offset size' =
    (if strtab_offset \<ge> sh_size strtab_header then None
     else case fseek content (sh_offset strtab_header + strtab_offset) of
       None \<Rightarrow> None
     | Some f \<Rightarrow>
         (let max_size = size';
              dist_to_end = sh_size strtab_header - strtab_offset;
              max_size = (if dist_to_end < max_size then dist_to_end else max_size)
          in read_str_loop (unat max_size) f))"

text \<open>The first part of the header says how the rest is laid out. The seek back to the start of the file works.\<close>

definition elf_read_header :: "u8 list \<Rightarrow> elf_header option" where
  "elf_read_header content =
    (case fread ELF_HEADER_P1_SIZE content of (buf, f) \<Rightarrow>
     if length buf \<noteq> ELF_HEADER_P1_SIZE then None
     else
       let magic = take 4 buf; class' = buf ! 4; e = buf ! 5; type' = ucast (buf ! 0x10) in
       if magic \<noteq> ELF_MAGIC then None
       else if \<not> (e = ELF_ENDIAN_LITTLE \<or> e = ELF_ENDIAN_BIG) then None
       else if \<not> (class' = ELF_CLASS_32BITS \<or> class' = ELF_CLASS_64BITS) then None
       else if class' = ELF_CLASS_32BITS then
         (case fread ELF_HEADER_32BITS_SIZE content of (buf, f) \<Rightarrow>
          if length buf \<noteq> ELF_HEADER_32BITS_SIZE then None
          else Some \<lparr>e_magic = magic, e_class = class', e_endianness = e, e_type = type',
            e_phoff = ucast (read_32 e (drop 0x1C buf)), e_shoff = ucast (read_32 e (drop 0x20 buf)),
            e_phentsize = ucast (read_32 e (drop 0x2A buf)), e_phnum = read_16 e (drop 0x2C buf),
            e_shentsize = read_16 e (drop 0x2E buf), e_shnum = read_16 e (drop 0x30 buf),
            e_shstrndx = read_16 e (drop 0x32 buf)\<rparr>)
       else
         (case fread ELF_HEADER_64BITS_SIZE content of (buf, f) \<Rightarrow>
          if length buf \<noteq> ELF_HEADER_64BITS_SIZE then None
          else Some \<lparr>e_magic = magic, e_class = class', e_endianness = e, e_type = type',
            e_phoff = read_64 e (drop 0x20 buf), e_shoff = read_64 e (drop 0x28 buf),
            e_phentsize = ucast (read_32 e (drop 0x36 buf)), e_phnum = read_16 e (drop 0x38 buf),
            e_shentsize = read_16 e (drop 0x3A buf), e_shnum = read_16 e (drop 0x3C buf),
            e_shstrndx = read_16 e (drop 0x3E buf)\<rparr>))"

definition elf_symbol_size :: "elf_header \<Rightarrow> nat" where
  "elf_symbol_size h = (if e_class h = ELF_CLASS_32BITS then 16 else 24)"

definition elf_read_symtab :: "elf_header \<Rightarrow> elf_section_header \<Rightarrow> elf_symbol_table option" where
  "elf_read_symtab h sh =
    (if unat (sh_size sh) mod elf_symbol_size h \<noteq> 0 then None
     else if \<not> sh_link sh < ucast (e_shnum h) then None
     else Some \<lparr>stab_offset = sh_offset sh, stab_size = sh_size sh, strtab_index = ucast (sh_link sh)\<rparr>)"

section \<open>The command line\<close>

record cmd_options =
  opt_ofile :: "string option"
  opt_ifile :: "string option"
  opt_symbols :: "string list option"
  opt_symbol_name_prefix :: "string option"

definition no_options :: cmd_options where
  "no_options = \<lparr>opt_ofile = None, opt_ifile = None, opt_symbols = None, opt_symbol_name_prefix = None\<rparr>"

text \<open>The arguments from the cursor on.\<close>

fun parse_cmd_loop :: "string list \<Rightarrow> cmd_options \<Rightarrow> cmd_options run" where
  "parse_cmd_loop [] o' = Inr o'"
| "parse_cmd_loop (a # args) o' =
    (if a = ''-i'' then
       (case args of [] \<Rightarrow> Inl (Exit ''Missing input file'')
        | v # args \<Rightarrow> CHECK (opt_ifile o' = None) ''Only one input file can be specified''
            (parse_cmd_loop args (o'\<lparr>opt_ifile := Some v\<rparr>)))
     else if a = ''-o'' then
       (case args of [] \<Rightarrow> Inl (Exit ''Missing output file'')
        | v # args \<Rightarrow> CHECK (opt_ofile o' = None) ''Only one output file can be specified''
            (parse_cmd_loop args (o'\<lparr>opt_ofile := Some v\<rparr>)))
     else if a = ''-p'' then
       (case args of [] \<Rightarrow> Inl (Exit ''Missing symbol name prefix'')
        | v # args \<Rightarrow> CHECK (opt_symbol_name_prefix o' = None) ''Only one symbol prefix can be specified''
            (parse_cmd_loop args (o'\<lparr>opt_symbol_name_prefix := Some v\<rparr>)))
     else Inr (o'\<lparr>opt_symbols := Some (a # args)\<rparr>))"

definition parse_cmd :: "string list \<Rightarrow> cmd_options run" where
  "parse_cmd argv =
    andthen (parse_cmd_loop (tl argv) no_options) (\<lambda>o'.
      CHECK (opt_ifile o' \<noteq> None) ''Input file must be specified''
        (CHECK (opt_symbols o' \<noteq> None) ''No symbols were provided''
          (CHECK (0 < length (the (opt_symbols o'))) ''No symbols were provided'' (Inr o'))))"

section \<open>What the integers stand for\<close>

text \<open>The number of a list of bytes, the lowest first.\<close>

fun bytes_num :: "u8 list \<Rightarrow> nat" where
  "bytes_num [] = 0"
| "bytes_num (b # bs) = unat b + 256 * bytes_num bs"

definition in_order :: "u8 \<Rightarrow> u8 list \<Rightarrow> u8 list" where
  "in_order endianness bs = (if endianness = ELF_ENDIAN_LITTLE then bs else rev bs)"

definition endian_ok :: "u8 \<Rightarrow> bool" where
  "endian_ok e = (e = ELF_ENDIAN_LITTLE \<or> e = ELF_ENDIAN_BIG)"

lemma bytes_num_bound: "bytes_num bs < 256 ^ length bs"
proof (induction bs)
  case (Cons b bs)
  have "unat b + 256 * bytes_num bs < 256 * (bytes_num bs + 1)" by (simp add: add.commute)
  also have "\<dots> \<le> 256 * 256 ^ length bs" using Cons.IH by (intro mult_le_mono2) simp
  finally show ?case by simp
qed simp

lemma bytes_word_Cons:
  "(of_nat (bytes_num (b # bs)) :: 'a::len word) = push_bit 8 (of_nat (bytes_num bs)) OR ucast b"
proof -
  let ?x = "push_bit 8 (of_nat (bytes_num bs)) :: 'a word"
  have "?x AND ucast b = 0"
    by (rule bit_word_eqI) (auto simp: bit_simps dest: bit_imp_le_length)
  then have "?x OR ucast b = ?x + ucast b" by (simp add: disjunctive_add_eq_or)
  moreover have "(of_nat (unat b) :: 'a word) = ucast b" by simp
  moreover have "?x = 256 * of_nat (bytes_num bs)" by (simp add: push_bit_eq_mult)
  ultimately show ?thesis by simp
qed

text \<open>The readers give the number, whatever follows its bytes.\<close>

lemma list_of_length:
  "length bs = 2 \<Longrightarrow> \<exists>a b. bs = [a, b]"
  "length bs = 4 \<Longrightarrow> \<exists>a b c d. bs = [a, b, c, d]"
  "length bs = 8 \<Longrightarrow> \<exists>a b c d e f g h. bs = [a, b, c, d, e, f, g, h]"
  by (simp_all add: numeral_eq_Suc length_Suc_conv) blast+

lemmas bytes_word = bytes_word_Cons push_bit_or push_bit_push_bit ac_simps

lemma read_8_num: "length bs = 1 \<Longrightarrow> read_8 e (bs @ rest) = of_nat (bytes_num (in_order e bs))"
  by (auto simp: length_Suc_conv read_8_def in_order_def)

lemma read_16_num: "endian_ok e \<Longrightarrow> length bs = 2 \<Longrightarrow> read_16 e (bs @ rest) = of_nat (bytes_num (in_order e bs))"
  by (auto dest!: list_of_length(1) simp: read_16_def in_order_def endian_ok_def bytes_word simp del: bytes_num.simps(2) of_nat_add)

lemma read_32_num: "endian_ok e \<Longrightarrow> length bs = 4 \<Longrightarrow> read_32 e (bs @ rest) = of_nat (bytes_num (in_order e bs))"
  by (auto dest!: list_of_length(2) simp: read_32_def in_order_def endian_ok_def bytes_word simp del: bytes_num.simps(2))

lemma read_64_num: "endian_ok e \<Longrightarrow> length bs = 8 \<Longrightarrow> read_64 e (bs @ rest) = of_nat (bytes_num (in_order e bs))"
  by (auto dest!: list_of_length(3) simp: read_64_def in_order_def endian_ok_def bytes_word simp del: bytes_num.simps(2))

lemma bytes_num_append: "bytes_num (bs @ cs) = bytes_num bs + 256 ^ length bs * bytes_num cs"
  by (induction bs) (simp_all add: algebra_simps)

lemma bytes_num_zero: "bytes_num bs = 0 \<longleftrightarrow> (\<forall>b \<in> set bs. b = 0)"
  by (induction bs) (auto simp: unat_eq_zero)

end
