(* ===== verification/ElfSymdump.thy ===== *)
theory ElfSymdump
  imports ElfFile Printing
begin

text \<open>
  The program of the ELF symbol dumper: \<open>main\<close> of \<open>cwrapper/elf-symdump/src/main.c\<close>, one definition per
  loop. The static buffer \<open>fbuf\<close> is passed along, since a short read leaves its old bytes. Memory
  allocation is taken to succeed. The specification is the list of the symbols of a file, in the order of
  its symbol tables; the lemmas say that the program finds the first symbol of each name wanted and
  prints the number its bytes stand for.
\<close>

section \<open>The section headers\<close>

abbreviation (input) fbuf_size :: nat where "fbuf_size \<equiv> 1024"

text \<open>One section header into \<open>fbuf\<close>, and what it says.\<close>

definition read_section :: "elf_header \<Rightarrow> u8 list \<Rightarrow> u8 list \<Rightarrow> (u8 list \<times> u8 list \<times> elf_section_header) run" where
  "read_section h f fbuf =
    (case fread (unat (e_shentsize h)) f of (data, f) \<Rightarrow>
     let fbuf = blit fbuf 0 data in
     CHECK (length data = unat (e_shentsize h)) ''Cannot read Section header''
       (case elf_read_section_header h fbuf of
          None \<Rightarrow> Inl (Exit ''Failed to read section header'')
        | Some sh \<Rightarrow> Inr (f, fbuf, sh)))"

text \<open>The first pass: \<open>n\<close> headers are left.\<close>

primrec section_headers_loop ::
  "nat \<Rightarrow> elf_header \<Rightarrow> u8 list \<Rightarrow> u8 list \<Rightarrow> (u8 list \<times> elf_section_header list) run" where
  "section_headers_loop 0 h f fbuf = Inr (fbuf, [])"
| "section_headers_loop (Suc n) h f fbuf =
    andthen (read_section h f fbuf) (\<lambda>(f, fbuf, sh).
    andthen (section_headers_loop n h f fbuf) (\<lambda>(fbuf, shs).
      Inr (fbuf, sh # shs)))"

text \<open>The second pass collects the symbol tables, of which the first one counted \<open>room\<close>.\<close>

primrec symtabs_loop ::
  "nat \<Rightarrow> nat \<Rightarrow> elf_header \<Rightarrow> u8 list \<Rightarrow> u8 list \<Rightarrow> (u8 list \<times> elf_symbol_table list) run" where
  "symtabs_loop 0 room h f fbuf = Inr (fbuf, [])"
| "symtabs_loop (Suc n) room h f fbuf =
    andthen (read_section h f fbuf) (\<lambda>(f, fbuf, sh).
    if sh_type sh = SHT_SYMTAB then
      (if room = 0 then Inl Out_of_bounds
       else case elf_read_symtab h sh of
          None \<Rightarrow> Inl (Exit ''Failed to read Symbol table'')
        | Some t \<Rightarrow> andthen (symtabs_loop n (room - 1) h f fbuf) (\<lambda>(fbuf, ts). Inr (fbuf, t # ts)))
    else symtabs_loop n room h f fbuf)"

section \<open>The search of a symbol\<close>

text \<open>The symbol at a file offset, and its name.\<close>

definition read_named_symbol ::
  "elf_header \<Rightarrow> elf_section_header list \<Rightarrow> u8 list \<Rightarrow> elf_symbol_table \<Rightarrow> u64 \<Rightarrow> u8 list \<Rightarrow> (u8 list \<times> string \<times> elf_symbol) run" where
  "read_named_symbol h shs content t fileoffset fbuf =
    (case fseek content fileoffset of
       None \<Rightarrow> Inl (Exit ''Failed to seek in ELF file'')
     | Some f \<Rightarrow>
       (case fread (elf_symbol_size h) f of (data, f) \<Rightarrow>
        let fbuf = blit fbuf 0 data in
        CHECK (length data = elf_symbol_size h) ''Failed to read symbol''
        (case elf_read_symbol h fbuf of
           None \<Rightarrow> Inl (Exit ''Failed to read symbol'')
         | Some symbol \<Rightarrow>
           if \<not> unat (strtab_index t) < length shs then Inl Out_of_bounds
           else case elf_read_str content (shs ! unat (strtab_index t)) (ucast (st_name symbol)) 256 of
              None \<Rightarrow> Inl (Exit ''Cannot read symbol name'')
            | Some name \<Rightarrow> Inr (fbuf, name, symbol))))"

text \<open>
  The symbols of one table from number \<open>j\<close> on, \<open>n\<close> of them; \<open>Some\<close> when the wanted one is found. The
  count, an \<open>uint32_t\<close>, is cut to 32 bits.
\<close>

primrec symbols_loop ::
  "nat \<Rightarrow> u64 \<Rightarrow> elf_header \<Rightarrow> elf_section_header list \<Rightarrow> u8 list \<Rightarrow> elf_symbol_table \<Rightarrow> string \<Rightarrow> u8 list
    \<Rightarrow> (u8 list \<times> (string \<times> elf_symbol) option) run" where
  "symbols_loop 0 j h shs content t wanted fbuf = Inr (fbuf, None)"
| "symbols_loop (Suc n) j h shs content t wanted fbuf =
    andthen (read_named_symbol h shs content t (stab_offset t + j * of_nat (elf_symbol_size h)) fbuf) (\<lambda>(fbuf, name, symbol).
    if 0 < length name \<and> name = wanted then
      (if ELF_ST_TYPE (st_info symbol) \<noteq> STT_OBJECT
       then Inl (Exit (''Symbol '' @ wanted @ '' is not a defined variable''))
       else if st_shndx symbol = 0
       then Inl (Exit (''Symbol '' @ wanted @ '' has an undefined section''))
       else Inr (fbuf, Some (name, symbol)))
    else symbols_loop n (j + 1) h shs content t wanted fbuf)"

primrec tables_loop ::
  "elf_symbol_table list \<Rightarrow> elf_header \<Rightarrow> elf_section_header list \<Rightarrow> u8 list \<Rightarrow> string \<Rightarrow> u8 list
    \<Rightarrow> (u8 list \<times> (string \<times> elf_symbol) option) run" where
  "tables_loop [] h shs content wanted fbuf = Inr (fbuf, None)"
| "tables_loop (t # ts) h shs content wanted fbuf =
    (let symbol_count = unat (of_nat (unat (stab_size t) div elf_symbol_size h) :: u32) in
     andthen (symbols_loop symbol_count 0 h shs content t wanted fbuf) (\<lambda>(fbuf, found).
     if found \<noteq> None then Inr (fbuf, found) else tables_loop ts h shs content wanted fbuf))"

primrec wanted_loop ::
  "string list \<Rightarrow> elf_symbol_table list \<Rightarrow> elf_header \<Rightarrow> elf_section_header list \<Rightarrow> u8 list \<Rightarrow> u8 list
    \<Rightarrow> (u8 list \<times> (string \<times> elf_symbol) list) run" where
  "wanted_loop [] ts h shs content fbuf = Inr (fbuf, [])"
| "wanted_loop (wanted # ws) ts h shs content fbuf =
    andthen (tables_loop ts h shs content wanted fbuf) (\<lambda>(fbuf, found).
    case found of
      None \<Rightarrow> Inl (Exit (''Could not find symbol '' @ wanted))
    | Some d \<Rightarrow> andthen (wanted_loop ws ts h shs content fbuf) (\<lambda>(fbuf, ds). Inr (fbuf, d # ds)))"

section \<open>The output\<close>

definition symbol_value :: "u8 \<Rightarrow> string \<Rightarrow> u64 \<Rightarrow> u8 list \<Rightarrow> u64 run" where
  "symbol_value e wanted size' fbuf =
    (if size' = 1 then Inr (ucast (read_8 e fbuf))
     else if size' = 2 then Inr (ucast (read_16 e fbuf))
     else if size' = 4 then Inr (ucast (read_32 e fbuf))
     else if size' = 8 then Inr (read_64 e fbuf)
     else if size' = 16 then
       (if read_128 e fbuf = 0 then Inl (Exit (''Size too big to decode (0x'' @ hex (unat size') @ '') for '' @ wanted))
        else Inr (read_128 e fbuf))
     else if size' = 32 then
       (if read_256 e fbuf = 0 then Inl (Exit (''Size too big to decode (0x'' @ hex (unat size') @ '') for '' @ wanted))
        else Inr (read_256 e fbuf))
     else Inl (Exit (''Unsupported symbol size 0x'' @ hex (unat size') @ '' for '' @ wanted)))"

text \<open>
  A value read from its section. The size is not compared with that of the buffer, nor the index of
  the section with the number of sections.
\<close>

definition read_value ::
  "elf_header \<Rightarrow> elf_section_header list \<Rightarrow> u8 list \<Rightarrow> string \<Rightarrow> elf_symbol \<Rightarrow> u8 list \<Rightarrow> (u8 list \<times> u64) run" where
  "read_value h shs content wanted symbol fbuf =
    (if \<not> unat (st_shndx symbol) < length shs then Inl Out_of_bounds
     else
       let section' = shs ! unat (st_shndx symbol);
           value_section_offset = st_value symbol - sh_addr section'
       in case fseek content (sh_offset section' + value_section_offset) of
            None \<Rightarrow> Inl (Exit ''Failed to seek in ELF file'')
          | Some f \<Rightarrow>
            (case fread (unat (st_size symbol)) f of (data, f) \<Rightarrow>
             if fbuf_size < length data then Inl Out_of_bounds
             else
               let fbuf = blit fbuf 0 data in
               CHECK (length data = unat (st_size symbol)) ''Failed to read symbol value''
                 (andthen (symbol_value (e_endianness h) wanted (st_size symbol) fbuf) (\<lambda>v. Inr (fbuf, v)))))"

text \<open>A line of the header that is written, or of the standard output.\<close>

definition output_line :: "bool \<Rightarrow> string \<Rightarrow> string \<Rightarrow> u64 \<Rightarrow> string" where
  "output_line to_file prefix name v =
    (if to_file then ''#define '' @ prefix @ name @ '' 0x'' @ hex (unat v) @ newline
     else prefix @ name @ ''=0x'' @ hex (unat v) @ newline)"

text \<open>The output so far is kept when the program ends early. The names are those of the command line and of the file.\<close>

fun values_loop ::
  "(string \<times> string \<times> elf_symbol) list \<Rightarrow> elf_header \<Rightarrow> elf_section_header list \<Rightarrow> u8 list \<Rightarrow> bool \<Rightarrow> string \<Rightarrow> u8 list
    \<Rightarrow> string \<times> unit run" where
  "values_loop [] h shs content to_file prefix fbuf = ('''', Inr ())"
| "values_loop ((wanted, name, symbol) # ds) h shs content to_file prefix fbuf =
    (case read_value h shs content wanted symbol fbuf of
       Inl e \<Rightarrow> ('''', Inl e)
     | Inr (fbuf, v) \<Rightarrow>
       (case values_loop ds h shs content to_file prefix fbuf of
          (out, r) \<Rightarrow> (output_line to_file prefix name v @ out, r)))"

section \<open>The program\<close>

definition file_head :: string where
  "file_head = ''#ifndef _SCRUTINY_C_WRAPPER_CPP_CONSTANTS_H_'' @ newline
     @ ''#define _SCRUTINY_C_WRAPPER_CPP_CONSTANTS_H_'' @ newline @ newline"

definition file_tail :: string where "file_tail = newline @ ''#endif'' @ newline"

text \<open>What is read before anything is written: the headers, the tables and the wanted symbols.\<close>

definition load_symbols ::
  "string list \<Rightarrow> u8 list \<Rightarrow> (elf_header \<times> elf_section_header list \<times> (string \<times> elf_symbol) list \<times> u8 list) run" where
  "load_symbols wanted content =
    (case elf_read_header content of
       None \<Rightarrow> Inl (Exit ''Failed to read ELF header'')
     | Some h \<Rightarrow>
       CHECK (unat (e_phentsize h) \<le> fbuf_size) ''e_phentsize too big''
       (CHECK (unat (e_shentsize h) \<le> fbuf_size) ''e_shentsize too big''
       (case fseek content (e_shoff h) of
          None \<Rightarrow> Inl (Exit ''Failed to seek in ELF file'')
        | Some f \<Rightarrow>
          andthen (section_headers_loop (unat (e_shnum h)) h f (replicate fbuf_size 0)) (\<lambda>(fbuf, shs).
          let symtab_count = length (filter (\<lambda>sh. sh_type sh = SHT_SYMTAB) shs) in
          CHECK (0 < symtab_count) ''No symbol table found''
          (CHECK (symtab_count < 4096) ''Too many symbol table found''
          (andthen (symtabs_loop (unat (e_shnum h)) symtab_count h f fbuf) (\<lambda>(fbuf, ts).
           andthen (wanted_loop wanted ts h shs content fbuf) (\<lambda>(fbuf, ds).
           Inr (h, shs, ds, fbuf)))))))))"

text \<open>
  \<open>main\<close>: the files are looked up by name, and \<open>writable\<close> says whether the output can be opened. The
  result is what was written, to the file or to the standard output, and how the program ends.
\<close>

definition symdump_main :: "(string \<Rightarrow> u8 list option) \<Rightarrow> (string \<Rightarrow> bool) \<Rightarrow> string list \<Rightarrow> string \<times> unit run" where
  "symdump_main files writable argv =
    (case parse_cmd argv of
       Inl e \<Rightarrow> ('''', Inl e)
     | Inr args \<Rightarrow>
       let prefix = (case opt_symbol_name_prefix args of None \<Rightarrow> '''' | Some p \<Rightarrow> p);
           wanted = the (opt_symbols args)
       in case files (the (opt_ifile args)) of
            None \<Rightarrow> ('''', Inl (Exit (''Failed to open file '' @ the (opt_ifile args))))
          | Some content \<Rightarrow>
            (case load_symbols wanted content of
               Inl e \<Rightarrow> ('''', Inl e)
             | Inr (h, shs, ds, fbuf) \<Rightarrow>
               (case opt_ofile args of
                  None \<Rightarrow> values_loop (zip wanted ds) h shs content False prefix fbuf
                | Some ofile \<Rightarrow>
                  if \<not> writable ofile then ('''', Inl (Exit (''Cannot open output file '' @ ofile)))
                  else (case values_loop (zip wanted ds) h shs content True prefix fbuf of
                          (out, Inl e) \<Rightarrow> (file_head @ out, Inl e)
                        | (out, Inr u) \<Rightarrow> (file_head @ out @ file_tail, Inr ())))))"


section \<open>Specification\<close>

definition section_size :: "elf_header \<Rightarrow> nat" where
  "section_size h = (if e_class h = ELF_CLASS_32BITS then 40 else 64)"

definition section_at :: "elf_header \<Rightarrow> u8 list \<Rightarrow> nat \<Rightarrow> elf_section_header" where
  "section_at h content i =
    the (elf_read_section_header h (drop (unat (e_shoff h) + i * unat (e_shentsize h)) content))"

definition sections :: "elf_header \<Rightarrow> u8 list \<Rightarrow> elf_section_header list" where
  "sections h content = map (section_at h content) [0..<unat (e_shnum h)]"

definition symbol_tables :: "elf_header \<Rightarrow> u8 list \<Rightarrow> elf_symbol_table list" where
  "symbol_tables h content =
    map (\<lambda>sh. the (elf_read_symtab h sh)) (filter (\<lambda>sh. sh_type sh = SHT_SYMTAB) (sections h content))"

text \<open>A file whose headers and symbol tables are where they say.\<close>

definition elf_image :: "u8 list \<Rightarrow> elf_header \<Rightarrow> bool" where
  "elf_image content h =
    (elf_read_header content = Some h \<and> length content < 2 ^ 32
     \<and> unat (e_phentsize h) \<le> fbuf_size \<and> section_size h \<le> unat (e_shentsize h) \<and> unat (e_shentsize h) \<le> fbuf_size
     \<and> unat (e_shoff h) + unat (e_shnum h) * unat (e_shentsize h) \<le> length content
     \<and> 0 < length (symbol_tables h content) \<and> length (symbol_tables h content) < 4096
     \<and> list_all (\<lambda>sh. sh_type sh = SHT_SYMTAB \<longrightarrow> elf_read_symtab h sh \<noteq> None
          \<and> unat (sh_offset sh) + unat (sh_size sh) \<le> length content) (sections h content))"

text \<open>The symbols, each with its name when it can be read, in the order of the tables.\<close>

definition symbol_at :: "elf_header \<Rightarrow> u8 list \<Rightarrow> elf_symbol_table \<Rightarrow> nat \<Rightarrow> string option \<times> elf_symbol" where
  "symbol_at h content t j =
    (let s = the (elf_read_symbol h (drop (unat (stab_offset t) + j * elf_symbol_size h) content))
     in (elf_read_str content (sections h content ! unat (strtab_index t)) (ucast (st_name s)) 256, s))"

definition table_symbols :: "elf_header \<Rightarrow> u8 list \<Rightarrow> elf_symbol_table \<Rightarrow> (string option \<times> elf_symbol) list" where
  "table_symbols h content t = map (symbol_at h content t) [0..<unat (stab_size t) div elf_symbol_size h]"

definition file_symbols :: "elf_header \<Rightarrow> u8 list \<Rightarrow> (string option \<times> elf_symbol) list" where
  "file_symbols h content = concat (map (table_symbols h content) (symbol_tables h content))"

text \<open>The first symbol of a name; a name that cannot be read before it ends the search.\<close>

fun search :: "(string option \<times> elf_symbol) list \<Rightarrow> string \<Rightarrow> (string \<times> elf_symbol) option run" where
  "search [] wanted = Inr None"
| "search ((None, s) # xs) wanted = Inl (Exit ''Cannot read symbol name'')"
| "search ((Some name, s) # xs) wanted =
    (if 0 < length name \<and> name = wanted then
       (if ELF_ST_TYPE (st_info s) \<noteq> STT_OBJECT
        then Inl (Exit (''Symbol '' @ wanted @ '' is not a defined variable''))
        else if st_shndx s = 0
        then Inl (Exit (''Symbol '' @ wanted @ '' has an undefined section''))
        else Inr (Some (name, s)))
     else search xs wanted)"

text \<open>The bytes of a symbol's value, and the number they stand for.\<close>

definition value_bytes :: "elf_header \<Rightarrow> u8 list \<Rightarrow> elf_symbol \<Rightarrow> u8 list" where
  "value_bytes h content s =
    (let section' = sections h content ! unat (st_shndx s)
     in take (unat (st_size s)) (drop (unat (sh_offset section' + (st_value s - sh_addr section'))) content))"

text \<open>The sizes that can be printed; a padded one holds 64 bits, and not 0.\<close>

definition decodable :: "nat \<Rightarrow> nat \<Rightarrow> bool" where
  "decodable n num = (n \<in> {1, 2, 4, 8} \<or> n \<in> {16, 32} \<and> 0 < num \<and> num < 2 ^ 64)"

definition symbol_number :: "elf_header \<Rightarrow> u8 list \<Rightarrow> string \<Rightarrow> nat option" where
  "symbol_number h content wanted =
    (case search (file_symbols h content) wanted of
       Inr (Some (name, s)) \<Rightarrow>
         let bs = value_bytes h content s; v = bytes_num (in_order (e_endianness h) bs)
         in if unat (st_shndx s) < unat (e_shnum h) \<and> length bs = unat (st_size s)
               \<and> decodable (length bs) v
            then Some v else None
     | _ \<Rightarrow> None)"

section \<open>The readers do not look past their bytes\<close>

lemma read_ext:
  "1 \<le> length bs \<Longrightarrow> read_8 e (bs @ rest) = read_8 e bs"
  "2 \<le> length bs \<Longrightarrow> read_16 e (bs @ rest) = read_16 e bs"
  "4 \<le> length bs \<Longrightarrow> read_32 e (bs @ rest) = read_32 e bs"
  "8 \<le> length bs \<Longrightarrow> read_64 e (bs @ rest) = read_64 e bs"
  by (auto simp: read_8_def read_16_def read_32_def read_64_def nth_append)

lemma read_section_header_ext:
  "section_size h \<le> length bs \<Longrightarrow> elf_read_section_header h (bs @ rest) = elf_read_section_header h bs"
  by (simp add: elf_read_section_header_def section_size_def Let_def read_ext split: if_splits)

lemma read_symbol_ext:
  "elf_symbol_size h \<le> length bs \<Longrightarrow> elf_read_symbol h (bs @ rest) = elf_read_symbol h bs"
  by (simp add: elf_read_symbol_def elf_symbol_size_def Let_def read_ext split: if_splits)

lemma take_ext:
  assumes "\<And>bs rest. n \<le> length bs \<Longrightarrow> rd (bs @ rest) = rd bs" "n \<le> k" "n \<le> length f" "k \<le> length f"
  shows "rd (blit fbuf 0 (take k f)) = rd f"
proof -
  have "rd (blit fbuf 0 (take k f)) = rd (take k f)" using assms by (simp add: blit_def)
  also have "\<dots> = rd (take k f @ drop k f)" by (rule assms(1) [symmetric]) (use assms in simp)
  finally show ?thesis by simp
qed

definition header_ok :: "elf_header \<Rightarrow> bool" where
  "header_ok h = (endian_ok (e_endianness h) \<and> (e_class h = ELF_CLASS_32BITS \<or> e_class h = ELF_CLASS_64BITS))"

lemma read_header_ok: "elf_read_header content = Some h \<Longrightarrow> header_ok h"
  by (auto simp: elf_read_header_def header_ok_def endian_ok_def Let_def fread_def split: if_splits prod.splits)

lemma header_ok_reads:
  "header_ok h \<Longrightarrow> elf_read_section_header h data = Some (the (elf_read_section_header h data))"
  "header_ok h \<Longrightarrow> elf_read_symbol h data = Some (the (elf_read_symbol h data))"
  by (auto simp: header_ok_def elf_read_section_header_def elf_read_symbol_def Let_def)

section \<open>The loops over the headers\<close>

text \<open>What a run gives beside the buffer; the buffer keeps its size.\<close>

definition result :: "(u8 list \<times> 'a) run \<Rightarrow> 'a run" where
  "result = map_sum id snd"

definition keeps_fbuf :: "(u8 list \<times> 'a) run \<Rightarrow> bool" where
  "keeps_fbuf r = (\<forall>fbuf x. r = Inr (fbuf, x) \<longrightarrow> length fbuf = fbuf_size)"

lemma result_simps [simp]: "result (Inl e) = Inl e" "result (Inr (fbuf, x)) = Inr x"
  by (simp_all add: result_def)

lemma keeps_fbuf_simps [simp]: "keeps_fbuf (Inl e)" "keeps_fbuf (Inr (fbuf, x)) \<longleftrightarrow> length fbuf = fbuf_size"
  by (auto simp: keeps_fbuf_def)

lemma run_cases:
  obtains (stop) e where "r = Inl e" "result r = Inl e"
    | (go) fbuf x where "r = Inr (fbuf, x)" "result r = Inr x"
  by (cases r) auto

lemma read_section:
  assumes "header_ok h" "section_size h \<le> unat (e_shentsize h)" "unat (e_shentsize h) \<le> length f"
  shows "read_section h f fbuf = Inr (drop (unat (e_shentsize h)) f, blit fbuf 0 (take (unat (e_shentsize h)) f),
    the (elf_read_section_header h f))"
proof -
  have "elf_read_section_header h (blit fbuf 0 (take (unat (e_shentsize h)) f)) = elf_read_section_header h f"
    by (rule take_ext [where n = "section_size h"]) (use assms in \<open>auto simp: read_section_header_ext\<close>)
  then show ?thesis using assms header_ok_reads(1) [OF assms(1), of f]
    by (cases "elf_read_section_header h f") (simp_all add: read_section_def fread_def Let_def)
qed

lemma section_headers_loop:
  assumes "header_ok h" "section_size h \<le> sz" "sz \<le> fbuf_size" "sz = unat (e_shentsize h)"
  shows "n * sz \<le> length f \<Longrightarrow> length fbuf = fbuf_size \<Longrightarrow>
    \<exists>fbuf'. section_headers_loop n h f fbuf = Inr (fbuf', map (\<lambda>i. the (elf_read_section_header h (drop (i * sz) f))) [0..<n])
      \<and> length fbuf' = fbuf_size"
proof (induction n arbitrary: f fbuf)
  case (Suc n)
  have step: "read_section h f fbuf = Inr (drop sz f, blit fbuf 0 (take sz f), the (elf_read_section_header h f))"
    using read_section [OF assms(1)] assms(2,4) Suc.prems(1) by simp
  have rest: "n * sz \<le> length (drop sz f)" "length (blit fbuf 0 (take sz f)) = fbuf_size"
    using Suc.prems assms(3) by (simp_all add: min_def)
  obtain fbuf' where "section_headers_loop n h (drop sz f) (blit fbuf 0 (take sz f))
      = Inr (fbuf', map (\<lambda>i. the (elf_read_section_header h (drop (i * sz) (drop sz f)))) [0..<n])" "length fbuf' = fbuf_size"
    using Suc.IH [OF rest(1,2)] by blast
  then show ?case
    by (simp add: step upt_conv_Cons map_Suc_upt [symmetric] add.commute del: upt_Suc)
qed simp

lemma symtabs_loop:
  assumes "header_ok h" "section_size h \<le> sz" "sz \<le> fbuf_size" "sz = unat (e_shentsize h)"
  shows "n * sz \<le> length f \<Longrightarrow> length fbuf = fbuf_size \<Longrightarrow>
    shs = map (\<lambda>i. the (elf_read_section_header h (drop (i * sz) f))) [0..<n] \<Longrightarrow>
    \<forall>sh \<in> set shs. sh_type sh = SHT_SYMTAB \<longrightarrow> elf_read_symtab h sh \<noteq> None \<Longrightarrow>
    length (filter (\<lambda>sh. sh_type sh = SHT_SYMTAB) shs) \<le> room \<Longrightarrow>
    \<exists>fbuf'. symtabs_loop n room h f fbuf
        = Inr (fbuf', map (\<lambda>sh. the (elf_read_symtab h sh)) (filter (\<lambda>sh. sh_type sh = SHT_SYMTAB) shs))
      \<and> length fbuf' = fbuf_size"
proof (induction n arbitrary: f fbuf shs room)
  case (Suc n)
  let ?sh = "the (elf_read_section_header h f)" and ?f = "drop sz f" and ?b = "blit fbuf 0 (take sz f)"
  let ?shs = "map (\<lambda>i. the (elf_read_section_header h (drop (i * sz) ?f))) [0..<n]"
  have step: "read_section h f fbuf = Inr (?f, ?b, ?sh)"
    using read_section [OF assms(1)] assms(2,4) Suc.prems(1) by simp
  have shs: "shs = ?sh # ?shs" by (simp add: Suc.prems(3) upt_conv_Cons map_Suc_upt [symmetric] add.commute del: upt_Suc)
  have rest: "n * sz \<le> length ?f" "length ?b = fbuf_size"
    using Suc.prems(1,2) assms(3) by (simp_all add: min_def)
  have sub: "\<forall>sh \<in> set ?shs. sh_type sh = SHT_SYMTAB \<longrightarrow> elf_read_symtab h sh \<noteq> None"
    using Suc.prems(4) unfolding shs by (meson list.set_intros(2))
  have IH: "\<exists>fbuf'. symtabs_loop n room h ?f ?b
        = Inr (fbuf', map (\<lambda>sh. the (elf_read_symtab h sh)) (filter (\<lambda>sh. sh_type sh = SHT_SYMTAB) ?shs)) \<and> length fbuf' = fbuf_size"
    if "length (filter (\<lambda>sh. sh_type sh = SHT_SYMTAB) ?shs) \<le> room" for room
    by (rule Suc.IH [OF rest refl sub that])
  show ?case
  proof (cases "sh_type ?sh = SHT_SYMTAB")
    case True
    then obtain t where t: "elf_read_symtab h ?sh = Some t" using Suc.prems(4) shs by auto
    have "length (filter (\<lambda>sh. sh_type sh = SHT_SYMTAB) ?shs) \<le> room - 1" "room \<noteq> 0"
      using Suc.prems(5) shs True by auto
    then show ?thesis using IH [of "room - 1"] True t by (auto simp: step shs)
  next
    case False
    then show ?thesis using IH [of room] Suc.prems(5) by (auto simp: step shs)
  qed
qed simp

section \<open>The search\<close>

lemma image_header: "elf_image content h \<Longrightarrow> header_ok h"
  by (auto simp: elf_image_def dest: read_header_ok)

lemma length_sections [simp]: "length (sections h content) = unat (e_shnum h)"
  by (simp add: sections_def)

lemma image_table:
  assumes "elf_image content h" "t \<in> set (symbol_tables h content)"
  shows "unat (stab_offset t) + unat (stab_size t) \<le> length content" "unat (strtab_index t) < unat (e_shnum h)"
proof -
  obtain sh where sh: "sh \<in> set (sections h content)" "sh_type sh = SHT_SYMTAB" "t = the (elf_read_symtab h sh)"
    using assms(2) by (auto simp: symbol_tables_def)
  then have ok: "elf_read_symtab h sh \<noteq> None" "unat (sh_offset sh) + unat (sh_size sh) \<le> length content"
    using assms(1) by (auto simp: elf_image_def list_all_iff)
  then have t: "stab_offset t = sh_offset sh" "stab_size t = sh_size sh" "strtab_index t = ucast (sh_link sh)"
      and link: "sh_link sh < ucast (e_shnum h)"
    using sh(3) by (auto simp: elf_read_symtab_def split: if_splits)
  show "unat (stab_offset t) + unat (stab_size t) \<le> length content" using ok(2) t by simp
  have "unat (ucast (e_shnum h) :: u32) = unat (e_shnum h)"
    by (simp add: unsigned_ucast_eq take_bit_nat_eq_self_iff less_trans [OF unat_u16_lt])
  then have lt: "unat (sh_link sh) < unat (e_shnum h)" using link by (simp add: word_less_nat_alt)
  then have "unat (sh_link sh) < 65536" using unat_u16_lt less_trans by blast
  then have "unat (strtab_index t) = unat (sh_link sh)"
    using t(3) by (simp add: unsigned_ucast_eq take_bit_nat_eq_self_iff)
  then show "unat (strtab_index t) < unat (e_shnum h)" using lt by simp
qed

lemma symbol_size_bounds: "0 < elf_symbol_size h" "elf_symbol_size h \<le> 24"
  by (simp_all add: elf_symbol_size_def)

lemma symbol_place:
  assumes "elf_image content h" "t \<in> set (symbol_tables h content)" "j < unat (stab_size t) div elf_symbol_size h"
  shows "unat (stab_offset t) + j * elf_symbol_size h + elf_symbol_size h \<le> length content" (is ?fits)
    and "unat (stab_offset t + of_nat j * of_nat (elf_symbol_size h)) = unat (stab_offset t) + j * elf_symbol_size h"
proof -
  have "Suc j * elf_symbol_size h \<le> unat (stab_size t) div elf_symbol_size h * elf_symbol_size h"
    using assms(3) by (intro mult_le_mono1) simp
  also have "\<dots> \<le> unat (stab_size t)" by simp
  finally show fits: ?fits using image_table(1) [OF assms(1,2)] by simp
  then have "unat (stab_offset t) + j * elf_symbol_size h < 2 ^ 64"
    using assms(1) by (simp add: elf_image_def)
  then have "unat (of_nat (unat (stab_offset t) + j * elf_symbol_size h) :: u64) = unat (stab_offset t) + j * elf_symbol_size h"
    by (subst unat_of_nat) (simp add: take_bit_eq_mod)
  moreover have "of_nat (unat (stab_offset t) + j * elf_symbol_size h) = stab_offset t + of_nat j * of_nat (elf_symbol_size h)"
    by simp
  ultimately show "unat (stab_offset t + of_nat j * of_nat (elf_symbol_size h)) = unat (stab_offset t) + j * elf_symbol_size h"
    by metis
qed

lemma read_named_symbol:
  fixes h content t j defines "place \<equiv> stab_offset t + of_nat j * of_nat (elf_symbol_size h)"
  assumes "elf_image content h" "t \<in> set (symbol_tables h content)" "j < unat (stab_size t) div elf_symbol_size h"
    and "length fbuf = fbuf_size"
  shows "result (read_named_symbol h (sections h content) content t place fbuf)
      = (case symbol_at h content t j of
           (None, s) \<Rightarrow> Inl (Exit ''Cannot read symbol name'') | (Some name, s) \<Rightarrow> Inr (name, s))"
    and "keeps_fbuf (read_named_symbol h (sections h content) content t place fbuf)"
proof -
  note img = image_header [OF assms(2)] symbol_place [OF assms(2,3,4)] image_table(2) [OF assms(2,3)]
  let ?f = "drop (unat (stab_offset t) + j * elf_symbol_size h) content"
  let ?sz = "elf_symbol_size h"
  have seek: "fseek content place = Some ?f"
    using img(2,3) assms(2) by (simp add: fseek_def place_def elf_image_def)
  have len: "?sz \<le> length ?f" using img(2) by simp
  have rd: "elf_read_symbol h (blit fbuf 0 (take ?sz ?f)) = Some (the (elf_read_symbol h ?f))"
    using take_ext [of ?sz "elf_read_symbol h" ?sz ?f fbuf] len header_ok_reads(2) [OF img(1), of ?f]
    by (simp add: read_symbol_ext)
  have keep: "length (blit fbuf 0 (take ?sz ?f)) = fbuf_size"
    using assms(5) symbol_size_bounds(2) [of h] len by (intro trans [OF length_blit]) simp_all
  show "result (read_named_symbol h (sections h content) content t place fbuf)
      = (case symbol_at h content t j of
           (None, s) \<Rightarrow> Inl (Exit ''Cannot read symbol name'') | (Some name, s) \<Rightarrow> Inr (name, s))"
    using len img(4) by (simp add: read_named_symbol_def seek fread_def Let_def rd symbol_at_def split: option.split)
  show "keeps_fbuf (read_named_symbol h (sections h content) content t place fbuf)"
    using len img(4) keep by (simp add: read_named_symbol_def seek fread_def Let_def rd split: option.split)
qed

lemma symbols_loop:
  assumes "elf_image content h" "t \<in> set (symbol_tables h content)"
  shows "j + n \<le> unat (stab_size t) div elf_symbol_size h \<Longrightarrow> length fbuf = fbuf_size \<Longrightarrow>
    result (symbols_loop n (of_nat j) h (sections h content) content t wanted fbuf)
      = search (map (symbol_at h content t) [j..<j + n]) wanted
    \<and> keeps_fbuf (symbols_loop n (of_nat j) h (sections h content) content t wanted fbuf)"
proof (induction n arbitrary: j fbuf)
  case (Suc n)
  let ?r = "read_named_symbol h (sections h content) content t (stab_offset t + of_nat j * of_nat (elf_symbol_size h)) fbuf"
  have j: "j < unat (stab_size t) div elf_symbol_size h" using Suc.prems(1) by simp
  note r = read_named_symbol [OF assms j Suc.prems(2)]
  have list: "map (symbol_at h content t) [j..<j + Suc n]
      = symbol_at h content t j # map (symbol_at h content t) [Suc j..<Suc j + n]"
    by (simp add: upt_conv_Cons del: upt_Suc)
  obtain name s where at: "symbol_at h content t j = (name, s)" by force
  show ?case
  proof (cases name)
    case None
    then obtain e where "?r = Inl e" "e = Exit ''Cannot read symbol name''" using r(1) at by (cases ?r rule: run_cases) auto
    then show ?thesis using None by (simp only: list at) simp
  next
    case (Some nm)
    then obtain fbuf' where r': "?r = Inr (fbuf', nm, s)" using r(1) at by (cases ?r rule: run_cases) auto
    then have "length fbuf' = fbuf_size" using r(2) by simp
    then have IH: "result (symbols_loop n (of_nat (Suc j)) h (sections h content) content t wanted fbuf')
        = search (map (symbol_at h content t) [Suc j..<Suc j + n]) wanted
      \<and> keeps_fbuf (symbols_loop n (of_nat (Suc j)) h (sections h content) content t wanted fbuf')"
      by (rule Suc.IH [rotated]) (use Suc.prems(1) in simp)
    have "of_nat j + 1 = (of_nat (Suc j) :: u64)" by simp
    then show ?thesis using IH \<open>length fbuf' = fbuf_size\<close> Some
      by (simp only: list at symbols_loop.simps r' andthen.simps search.simps prod.case) simp
  qed
qed simp

lemma search_append:
  "search (xs @ ys) wanted = (case search xs wanted of Inr None \<Rightarrow> search ys wanted | r \<Rightarrow> r)"
  by (induction xs wanted rule: search.induct) auto

lemma table_count:
  assumes "elf_image content h" "t \<in> set (symbol_tables h content)"
  shows "unat (of_nat (unat (stab_size t) div elf_symbol_size h) :: u32) = unat (stab_size t) div elf_symbol_size h"
proof -
  have "unat (stab_size t) div elf_symbol_size h \<le> unat (stab_size t)" by (rule div_le_dividend)
  also have "\<dots> < 4294967296" using image_table(1) [OF assms] assms(1) by (simp add: elf_image_def)
  finally show ?thesis by (rule unat_of_nat_u32)
qed

lemma tables_loop:
  assumes "elf_image content h"
  shows "set ts \<subseteq> set (symbol_tables h content) \<Longrightarrow> length fbuf = fbuf_size \<Longrightarrow>
    result (tables_loop ts h (sections h content) content wanted fbuf)
      = search (concat (map (table_symbols h content) ts)) wanted
    \<and> keeps_fbuf (tables_loop ts h (sections h content) content wanted fbuf)"
proof (induction ts arbitrary: fbuf)
  case (Cons t ts)
  then have t: "t \<in> set (symbol_tables h content)" by simp
  let ?n = "unat (stab_size t) div elf_symbol_size h"
  let ?r = "symbols_loop ?n 0 h (sections h content) content t wanted fbuf"
  have r: "result ?r = search (table_symbols h content t) wanted" "keeps_fbuf ?r"
    using symbols_loop [OF assms t, of 0 ?n fbuf wanted] Cons.prems(2) by (simp_all add: table_symbols_def)
  have count: "unat (of_nat ?n :: u32) = ?n" by (rule table_count [OF assms t])
  show ?case
  proof (cases ?r rule: run_cases)
    case (stop e)
    then have "search (table_symbols h content t) wanted = Inl e" using r(1) by simp
    then show ?thesis using stop by (simp add: count search_append Let_def del: of_nat_div unat_of_nat)
  next
    case (go fbuf' found)
    then have "length fbuf' = fbuf_size" using r(2) by simp
    then have "result (tables_loop ts h (sections h content) content wanted fbuf')
        = search (concat (map (table_symbols h content) ts)) wanted
      \<and> keeps_fbuf (tables_loop ts h (sections h content) content wanted fbuf')"
      using Cons.IH Cons.prems(1) by simp
    moreover have "search (table_symbols h content t) wanted = Inr found" using r(1) go(1) by simp
    ultimately show ?thesis using go(1) \<open>length fbuf' = fbuf_size\<close>
      by (cases found) (simp_all add: count search_append Let_def del: of_nat_div unat_of_nat)
  qed
qed simp

fun search_all :: "(string option \<times> elf_symbol) list \<Rightarrow> string list \<Rightarrow> (string \<times> elf_symbol) list run" where
  "search_all xs [] = Inr []"
| "search_all xs (wanted # ws) =
    andthen (search xs wanted) (\<lambda>found. case found of
      None \<Rightarrow> Inl (Exit (''Could not find symbol '' @ wanted))
    | Some d \<Rightarrow> andthen (search_all xs ws) (\<lambda>ds. Inr (d # ds)))"

lemma wanted_loop:
  assumes "elf_image content h"
  shows "length fbuf = fbuf_size \<Longrightarrow>
    result (wanted_loop ws (symbol_tables h content) h (sections h content) content fbuf) = search_all (file_symbols h content) ws
    \<and> keeps_fbuf (wanted_loop ws (symbol_tables h content) h (sections h content) content fbuf)"
proof (induction ws arbitrary: fbuf)
  case (Cons w ws)
  let ?r = "tables_loop (symbol_tables h content) h (sections h content) content w fbuf"
  have r: "result ?r = search (file_symbols h content) w" "keeps_fbuf ?r"
    using tables_loop [OF assms, of "symbol_tables h content" fbuf w] Cons.prems by (simp_all add: file_symbols_def)
  show ?case
  proof (cases ?r rule: run_cases)
    case (stop e)
    then have "search (file_symbols h content) w = Inl e" using r(1) by simp
    then show ?thesis using stop by simp
  next
    case (go fbuf' found)
    then have found: "search (file_symbols h content) w = Inr found" "length fbuf' = fbuf_size" using r by simp_all
    show ?thesis
    proof (cases found)
      case (Some d)
      let ?q = "wanted_loop ws (symbol_tables h content) h (sections h content) content fbuf'"
      note IH = Cons.IH [OF found(2)]
      show ?thesis
      proof (cases ?q rule: run_cases)
        case (stop e)
        then have "search_all (file_symbols h content) ws = Inl e" using IH by simp
        then show ?thesis using stop go Some found by simp
      next
        case (go fbuf'' ds)
        then have "search_all (file_symbols h content) ws = Inr ds" "length fbuf'' = fbuf_size" using IH by simp_all
        then show ?thesis using go \<open>?r = Inr (fbuf', found)\<close> Some found by simp
      qed
    qed (use go found in simp)
  qed
qed simp

lemma load_symbols:
  assumes "elf_image content h"
  shows "case search_all (file_symbols h content) ws of
      Inl e \<Rightarrow> load_symbols ws content = Inl e
    | Inr ds \<Rightarrow> \<exists>fbuf. load_symbols ws content = Inr (h, sections h content, ds, fbuf) \<and> length fbuf = fbuf_size"
proof -
  note img = assms [unfolded elf_image_def]
  let ?f = "drop (unat (e_shoff h)) content" and ?sz = "unat (e_shentsize h)"
  let ?syms = "filter (\<lambda>sh. sh_type sh = SHT_SYMTAB) (sections h content)"
  have f: "fseek content (e_shoff h) = Some ?f" using img by (simp add: fseek_def)
  have "unat (e_shoff h) + unat (e_shnum h) * ?sz \<le> length content" using img by blast
  then have len: "unat (e_shnum h) * ?sz \<le> length ?f" by simp
  have secs: "sections h content = map (\<lambda>i. the (elf_read_section_header h (drop (i * ?sz) ?f))) [0..<unat (e_shnum h)]"
    by (simp add: sections_def section_at_def add.commute)
  obtain b1 where b1: "section_headers_loop (unat (e_shnum h)) h ?f (replicate fbuf_size 0) = Inr (b1, sections h content)"
      "length b1 = fbuf_size"
    using section_headers_loop [OF image_header [OF assms] _ _ refl len, of "replicate fbuf_size 0"] img secs by auto
  have ok: "\<forall>sh \<in> set (sections h content). sh_type sh = SHT_SYMTAB \<longrightarrow> elf_read_symtab h sh \<noteq> None"
    using img by (auto simp: list_all_iff)
  obtain b2 where b2: "symtabs_loop (unat (e_shnum h)) (length ?syms) h ?f b1 = Inr (b2, symbol_tables h content)"
      "length b2 = fbuf_size"
    using symtabs_loop [OF image_header [OF assms] _ _ refl len b1(2) secs ok order_refl] img
    unfolding symbol_tables_def by blast
  have count: "0 < length ?syms" "length ?syms < 4096" using img by (simp_all add: symbol_tables_def)
  have "load_symbols ws content = andthen (wanted_loop ws (symbol_tables h content) h (sections h content) content b2)
      (\<lambda>(fbuf, ds). Inr (h, sections h content, ds, fbuf))"
    unfolding load_symbols_def using img f b1(1) b2(1) count by (simp add: Let_def)
  moreover note w = wanted_loop [OF assms b2(2), of ws]
  ultimately show ?thesis
    by (cases "wanted_loop ws (symbol_tables h content) h (sections h content) content b2" rule: run_cases)
      (auto simp: eq_commute [of "Inl _" "search_all _ _"] eq_commute [of "Inr _" "search_all _ _"])
qed

section \<open>The values\<close>

lemma length_in_order [simp]: "length (in_order e bs) = length bs"
  by (simp add: in_order_def)

lemma padded_num:
  assumes "endian_ok e" "length lo = 8" "num = bytes_num (in_order e lo) + 2 ^ 64 * bytes_num (in_order e hi)"
  shows "(if list_ex (\<lambda>i. (hi @ rest) ! i \<noteq> 0) [0..<length hi] then 0 else read_64 e (lo @ rest'))
    = (if num < 2 ^ 64 then of_nat num else 0)"
proof -
  have "list_ex (\<lambda>i. (hi @ rest) ! i \<noteq> 0) [0..<length hi] \<longleftrightarrow> (\<exists>i < length hi. hi ! i \<noteq> 0)"
    by (auto simp: list_ex_iff nth_append Bex_def)
  also have "\<dots> \<longleftrightarrow> (\<exists>b \<in> set hi. b \<noteq> 0)" by (metis in_set_conv_nth)
  also have "\<dots> \<longleftrightarrow> bytes_num (in_order e hi) \<noteq> 0" by (auto simp: bytes_num_zero in_order_def)
  finally have zero: "list_ex (\<lambda>i. (hi @ rest) ! i \<noteq> 0) [0..<length hi] \<longleftrightarrow> bytes_num (in_order e hi) \<noteq> 0" .
  have "bytes_num (in_order e lo) < 2 ^ 64"
    using bytes_num_bound [of "in_order e lo"] assms(2) by simp
  then show ?thesis unfolding zero using read_64_num [OF assms(1,2), of rest'] assms(3)
    by (cases "bytes_num (in_order e hi)") simp_all
qed

lemma split_at: "length bs = n + k \<Longrightarrow> \<exists>a b. bs = a @ b \<and> length a = n \<and> length b = k"
  by (metis add_diff_cancel_left' append_take_drop_id le_add1 length_drop length_take min_absorb2)

lemma low_high_num:
  "length a = 8 \<Longrightarrow> bytes_num (in_order 1 (a @ b)) = bytes_num (in_order 1 a) + 2 ^ 64 * bytes_num (in_order 1 b)"
  "length b = 8 \<Longrightarrow> e \<noteq> 1 \<Longrightarrow> bytes_num (in_order e (a @ b)) = bytes_num (in_order e b) + 2 ^ 64 * bytes_num (in_order e a)"
  by (simp_all add: in_order_def bytes_num_append)

lemma read_128_num:
  assumes "endian_ok e" "num = bytes_num (in_order e bs)" "length bs = 16"
  shows "read_128 e (bs @ rest) = (if num < 2 ^ 64 then of_nat num else 0)"
proof (cases "e = ELF_ENDIAN_LITTLE")
  case True
  obtain a b where ab: "bs = a @ b" "length a = 8" "length b = 8" using split_at [of bs 8 8] assms(3) by auto
  then have "num = bytes_num (in_order e a) + 2 ^ 64 * bytes_num (in_order e b)"
    using low_high_num(1) assms(2) True by simp
  from padded_num [OF assms(1) ab(2) this, of rest "b @ rest"] show ?thesis
    using ab True by (auto simp: read_128_def split: if_splits)
next
  case False
  obtain a b where ab: "bs = a @ b" "length a = 8" "length b = 8" using split_at [of bs 8 8] assms(3) by auto
  then have "num = bytes_num (in_order e b) + 2 ^ 64 * bytes_num (in_order e a)"
    using low_high_num(2) assms(2) False by simp
  from padded_num [OF assms(1) ab(3) this, of "b @ rest" rest] show ?thesis
    using ab False by (simp add: read_128_def)
qed

lemma read_256_num:
  assumes "endian_ok e" "num = bytes_num (in_order e bs)" "length bs = 32"
  shows "read_256 e (bs @ rest) = (if num < 2 ^ 64 then of_nat num else 0)"
proof (cases "e = ELF_ENDIAN_LITTLE")
  case True
  obtain a b where ab: "bs = a @ b" "length a = 8" "length b = 24" using split_at [of bs 8 24] assms(3) by auto
  then have "num = bytes_num (in_order e a) + 2 ^ 64 * bytes_num (in_order e b)"
    using low_high_num(1) assms(2) True by simp
  from padded_num [OF assms(1) ab(2) this, of rest "b @ rest"] show ?thesis
    using ab True by (auto simp: read_256_def split: if_splits)
next
  case False
  obtain a b where ab: "bs = a @ b" "length a = 24" "length b = 8" using split_at [of bs 24 8] assms(3) by auto
  then have "num = bytes_num (in_order e b) + 2 ^ 64 * bytes_num (in_order e a)"
    using low_high_num(2) assms(2) False by simp
  from padded_num [OF assms(1) ab(3) this, of "b @ rest" rest] show ?thesis
    using ab False by (simp add: read_256_def)
qed

lemma symbol_value:
  assumes "endian_ok e" "length bs = unat size'" "num = bytes_num (in_order e bs)"
  shows "symbol_value e wanted size' (bs @ rest) = Inr v \<longleftrightarrow> decodable (length bs) num \<and> v = of_nat num"
    and "symbol_value e wanted size' (bs @ rest) \<noteq> Inl Out_of_bounds"
proof -
  have sizes: "size' = 1 \<longleftrightarrow> length bs = 1" "size' = 2 \<longleftrightarrow> length bs = 2" "size' = 4 \<longleftrightarrow> length bs = 4"
    "size' = 8 \<longleftrightarrow> length bs = 8" "size' = 16 \<longleftrightarrow> length bs = 16" "size' = 32 \<longleftrightarrow> length bs = 32"
    unfolding assms(2) by (simp_all add: word_unat_eq_iff)
  have bound: "num < 256 ^ length bs" using bytes_num_bound [of "in_order e bs"] assms(3) by simp
  have zero: "(of_nat num :: u64) = 0 \<longleftrightarrow> num = 0" if "num < 2 ^ 64"
    using that by (simp add: word_of_nat_eq_0_iff dvd_def) auto
  have small: "ucast (of_nat num :: 'a::len word) = (of_nat num :: u64)" if "num < 2 ^ LENGTH('a)"
    using that by (simp add: unsigned_of_nat take_bit_nat_eq_self)
  note rd = read_8_num [of bs e rest] read_16_num [OF assms(1), of bs rest] read_32_num [OF assms(1), of bs rest]
    read_64_num [OF assms(1), of bs rest] read_128_num [OF assms(1,3), of rest] read_256_num [OF assms(1,3), of rest]
  consider "length bs = 1" | "length bs = 2" | "length bs = 4" | "length bs = 8" | "length bs = 16" | "length bs = 32"
    | "length bs \<notin> {1, 2, 4, 8, 16, 32}" by auto
  then show "symbol_value e wanted size' (bs @ rest) = Inr v \<longleftrightarrow> decodable (length bs) num \<and> v = of_nat num"
    by cases (use bound rd in \<open>auto simp: symbol_value_def sizes decodable_def small zero assms(3) [symmetric]\<close>)
  show "symbol_value e wanted size' (bs @ rest) \<noteq> Inl Out_of_bounds" by (simp add: symbol_value_def)
qed

lemma read_value:
  assumes "elf_image content h" "length fbuf = fbuf_size"
    and "bs = value_bytes h content s" "num = bytes_num (in_order (e_endianness h) bs)"
  shows "result (read_value h (sections h content) content wanted s fbuf) = Inr v
      \<longleftrightarrow> unat (st_shndx s) < unat (e_shnum h) \<and> length bs = unat (st_size s) \<and> decodable (length bs) num \<and> v = of_nat num"
    and "result (read_value h (sections h content) content wanted s fbuf) = Inl Out_of_bounds
      \<longleftrightarrow> \<not> unat (st_shndx s) < unat (e_shnum h) \<or> fbuf_size < length bs"
    and "keeps_fbuf (read_value h (sections h content) content wanted s fbuf)"
proof -
  let ?r = "read_value h (sections h content) content wanted s fbuf"
  let ?sec = "sections h content ! unat (st_shndx s)"
  let ?off = "sh_offset ?sec + (st_value s - sh_addr ?sec)"
  have bs: "bs = take (unat (st_size s)) (drop (unat ?off) content)" by (simp add: assms(3) value_bytes_def Let_def)
  have e: "endian_ok (e_endianness h)" using image_header [OF assms(1)] by (simp add: header_ok_def)
  have some: "unat ?off < 2 ^ 63" if "0 < length bs"
    using that assms(1) by (simp add: bs elf_image_def)
  have r: "?r = (if \<not> unat (st_shndx s) < unat (e_shnum h) then Inl Out_of_bounds
      else if \<not> unat ?off < 2 ^ 63 then Inl (Exit ''Failed to seek in ELF file'')
      else if fbuf_size < length bs then Inl Out_of_bounds
      else if length bs \<noteq> unat (st_size s) then Inl (Exit ''Failed to read symbol value'')
      else andthen (symbol_value (e_endianness h) wanted (st_size s) (blit fbuf 0 bs)) (\<lambda>v. Inr (blit fbuf 0 bs, v)))"
    by (simp add: read_value_def Let_def fseek_def fread_def bs CHECK_def)
  have blit: "blit fbuf 0 bs = bs @ drop (length bs) fbuf" by (simp add: blit_def)
  have keep: "length (blit fbuf 0 bs) = fbuf_size" if "\<not> fbuf_size < length bs"
    using that assms(2) by simp
  note sv = symbol_value [OF e _ assms(4), of "st_size s" wanted "drop (length bs) fbuf", folded blit]
  show "result ?r = Inr v
      \<longleftrightarrow> unat (st_shndx s) < unat (e_shnum h) \<and> length bs = unat (st_size s) \<and> decodable (length bs) num \<and> v = of_nat num"
    using some sv(1)
    by (cases "symbol_value (e_endianness h) wanted (st_size s) (blit fbuf 0 bs)"; cases "bs = []") (auto simp: r decodable_def)
  show "result ?r = Inl Out_of_bounds \<longleftrightarrow> \<not> unat (st_shndx s) < unat (e_shnum h) \<or> fbuf_size < length bs"
    using some sv(2)
    by (cases "symbol_value (e_endianness h) wanted (st_size s) (blit fbuf 0 bs)"; cases "bs = []") (auto simp: r)
  show "keeps_fbuf ?r"
    using keep by (cases "symbol_value (e_endianness h) wanted (st_size s) (blit fbuf 0 bs)") (auto simp: r)
qed

lemma search_name: "search xs wanted = Inr (Some (name, s)) \<Longrightarrow> name = wanted"
  by (induction xs wanted rule: search.induct) (auto split: if_splits)

lemma values_loop:
  assumes "elf_image content h"
  shows "search_all (file_symbols h content) ws = Inr ds \<Longrightarrow> length fbuf = fbuf_size \<Longrightarrow>
    values_loop (zip ws ds) h (sections h content) content to_file prefix fbuf = (out, r) \<Longrightarrow>
    (r = Inr () \<longleftrightarrow> (\<forall>w \<in> set ws. symbol_number h content w \<noteq> None))
    \<and> (r = Inr () \<longrightarrow> out = concat (map (\<lambda>w. output_line to_file prefix w (of_nat (the (symbol_number h content w)))) ws))"
proof (induction ws arbitrary: ds fbuf out r)
  case (Cons w ws)
  obtain s ds' where found: "search (file_symbols h content) w = Inr (Some (w, s))"
      and ds': "ds = (w, s) # ds'" "search_all (file_symbols h content) ws = Inr ds'"
    using Cons.prems(1) search_name by (auto elim!: andthen_goes_on split: option.splits)
  let ?v = "read_value h (sections h content) content w s fbuf"
  note rv = read_value [OF assms Cons.prems(2) refl refl, where s = s and wanted = w]
  have num: "symbol_number h content w = Some n \<longleftrightarrow> n = bytes_num (in_order (e_endianness h) (value_bytes h content s))
      \<and> (\<exists>v. result ?v = Inr v)" for n
    unfolding rv(1) by (auto simp: symbol_number_def found Let_def)
  show ?case
  proof (cases ?v rule: run_cases)
    case (stop e)
    then show ?thesis using Cons.prems(3) num by (auto simp: ds'(1))
  next
    case (go fbuf' v)
    obtain out' where out': "values_loop (zip ws ds') h (sections h content) content to_file prefix fbuf' = (out', r)"
        "out = output_line to_file prefix w v @ out'"
      using Cons.prems(3) go(1) by (auto simp: ds'(1) split: prod.splits)
    have "length fbuf' = fbuf_size" using rv(3) go by simp
    note IH = Cons.IH [OF ds'(2) this out'(1)]
    have "symbol_number h content w = Some (bytes_num (in_order (e_endianness h) (value_bytes h content s)))"
      unfolding num using go(2) by blast
    moreover have "v = of_nat (bytes_num (in_order (e_endianness h) (value_bytes h content s)))"
      using iffD1 [OF rv(1) go(2)] by blast
    ultimately show ?thesis using IH out'(2) by simp
  qed
qed simp

lemma search_all_stops:
  "search_all (file_symbols h content) ws = Inl e \<Longrightarrow> \<exists>w \<in> set ws. symbol_number h content w = None"
proof (induction ws)
  case (Cons w ws)
  show ?case
  proof (cases "symbol_number h content w")
    case (Some n)
    then obtain d where "search (file_symbols h content) w = Inr (Some d)"
      by (auto simp: symbol_number_def split: sum.splits option.splits)
    then have "search_all (file_symbols h content) ws = Inl e"
      using Cons.prems by (cases "search_all (file_symbols h content) ws") auto
    then show ?thesis using Cons.IH by auto
  qed auto
qed simp

section \<open>Properties\<close>

text \<open>
  C37: the dumper prints what the file says. On an image whose headers and symbol tables are where they
  say, it succeeds exactly when every name wanted has a symbol, the first of its name, that is a
  variable in a section of the file with a size that can be printed and a value inside the file; it
  then writes one line per name, in order, with the number that the bytes of the value stand
  for in the byte order of the file.
\<close>

theorem symdump_prints:
  assumes "parse_cmd argv = Inr args" "files (the (opt_ifile args)) = Some content" "elf_image content h"
    and "opt_ofile args = Some ofile" "writable ofile" "symdump_main files writable argv = (out, r)"
  shows "(r = Inr () \<longleftrightarrow> (\<forall>w \<in> set (the (opt_symbols args)). symbol_number h content w \<noteq> None))
    \<and> (r = Inr () \<longrightarrow> out = file_head
        @ concat (map (\<lambda>w. output_line True (case opt_symbol_name_prefix args of None \<Rightarrow> '''' | Some p \<Rightarrow> p) w
            (of_nat (the (symbol_number h content w)))) (the (opt_symbols args)))
        @ file_tail)"
proof (cases "search_all (file_symbols h content) (the (opt_symbols args))")
  case (Inl e)
  then have "load_symbols (the (opt_symbols args)) content = Inl e"
    using load_symbols [OF assms(3), of "the (opt_symbols args)"] by simp
  then have "r = Inl e" using assms(1,2,4-6) by (simp add: symdump_main_def)
  then show ?thesis using search_all_stops [OF Inl] by auto
next
  case (Inr ds)
  let ?ws = "the (opt_symbols args)" and ?p = "case opt_symbol_name_prefix args of None \<Rightarrow> '''' | Some p \<Rightarrow> p"
  obtain fbuf where load: "load_symbols ?ws content = Inr (h, sections h content, ds, fbuf)" "length fbuf = fbuf_size"
    using load_symbols [OF assms(3), of ?ws] Inr by auto
  obtain out' r' where v: "values_loop (zip ?ws ds) h (sections h content) content True ?p fbuf = (out', r')" by force
  have "r = r' \<and> (r' = Inr () \<longrightarrow> out = file_head @ out' @ file_tail)"
    using assms(1,2,4-6) load(1) v by (cases r') (auto simp: symdump_main_def)
  then show ?thesis using values_loop [OF assms(3) Inr load(2) v] by auto
qed

text \<open>An image with a symbol table, its names and a section of data; \<open>x\<close> is a variable of the section \<open>n\<close>.\<close>

definition demo_elf :: "u8 \<Rightarrow> u8 \<Rightarrow> u8 list" where
  "demo_elf lo hi =
    [0x7F, 0x45, 0x4C, 0x46, 1, 1, 0, 0, 0, 0, 0, 0, 0, 0, 0, 0, 0, 0, 0, 0, 0, 0, 0, 0,
     0, 0, 0, 0, 0, 0, 0, 0, 52, 0, 0, 0, 0, 0, 0, 0, 0, 0, 0, 0, 0, 0, 40, 0, 3, 0, 0, 0,
     0, 0, 0, 0, 2, 0, 0, 0, 0, 0, 0, 0, 0, 0, 0, 0, 172, 0, 0, 0, 16, 0, 0, 0, 1, 0, 0, 0, 0, 0, 0, 0, 0, 0, 0, 0, 0, 0, 0, 0,
     0, 0, 0, 0, 3, 0, 0, 0, 0, 0, 0, 0, 0, 0, 0, 0, 188, 0, 0, 0, 3, 0, 0, 0, 0, 0, 0, 0, 0, 0, 0, 0, 0, 0, 0, 0, 0, 0, 0, 0,
     0, 0, 0, 0, 1, 0, 0, 0, 0, 0, 0, 0, 0, 1, 0, 0, 191, 0, 0, 0, 4, 0, 0, 0, 0, 0, 0, 0, 0, 0, 0, 0, 0, 0, 0, 0, 0, 0, 0, 0,
     1, 0, 0, 0, 0, 1, 0, 0, 4, 0, 0, 0, 1, 0, lo, hi,
     0, 0x78, 0,
     0x2A, 0, 0, 0]"

definition demo_elf_header :: elf_header where
  "demo_elf_header = \<lparr>e_magic = ELF_MAGIC, e_class = 1, e_endianness = 1, e_type = 0, e_phoff = 0, e_shoff = 52,
    e_phentsize = 0, e_phnum = 0, e_shentsize = 40, e_shnum = 3, e_shstrndx = 0\<rparr>"

definition demo_x :: "u16 \<Rightarrow> elf_symbol" where
  "demo_x n = \<lparr>st_name = 1, st_value = 0x100, st_size = 4, st_info = 1, st_other = 0, st_shndx = n\<rparr>"

lemma demo_elf_header_read: "elf_read_header (demo_elf lo hi) = Some demo_elf_header"
  by (simp add: elf_read_header_def fread_def Let_def demo_elf_def demo_elf_header_def ELF_MAGIC_def read_16_def read_32_def)

lemma demo_elf_sections:
  "sections demo_elf_header (demo_elf lo hi) =
    [\<lparr>sh_name = 0, sh_type = 2, sh_flags = 0, sh_addr = 0, sh_offset = 172, sh_size = 16, sh_link = 1, sh_info = 0, sh_addralign = 0, sh_entsize = 0\<rparr>,
     \<lparr>sh_name = 0, sh_type = 3, sh_flags = 0, sh_addr = 0, sh_offset = 188, sh_size = 3, sh_link = 0, sh_info = 0, sh_addralign = 0, sh_entsize = 0\<rparr>,
     \<lparr>sh_name = 0, sh_type = 1, sh_flags = 0, sh_addr = 0x100, sh_offset = 191, sh_size = 4, sh_link = 0, sh_info = 0, sh_addralign = 0, sh_entsize = 0\<rparr>]"
  by (simp add: sections_def section_at_def demo_elf_header_def upt_conv_Cons elf_read_section_header_def Let_def
      read_32_def demo_elf_def)

lemma demo_elf_fields:
  "e_class demo_elf_header = 1" "e_endianness demo_elf_header = 1" "e_shentsize demo_elf_header = 40" "e_shnum demo_elf_header = 3"
  "e_phentsize demo_elf_header = 0" "e_shoff demo_elf_header = 52"
  by (simp_all add: demo_elf_header_def)

lemma demo_elf_parts:
  "length (demo_elf lo hi) = 195" "drop 172 (demo_elf lo hi) = [1, 0, 0, 0, 0, 1, 0, 0, 4, 0, 0, 0, 1, 0, lo, hi, 0, 0x78, 0, 0x2A, 0, 0, 0]"
  "drop 189 (demo_elf lo hi) = [0x78, 0, 0x2A, 0, 0, 0]" "drop 191 (demo_elf lo hi) = [0x2A, 0, 0, 0]"
  by (simp_all add: demo_elf_def)

lemma demo_elf_tables:
  "symbol_tables demo_elf_header (demo_elf lo hi) = [\<lparr>stab_offset = 172, stab_size = 16, strtab_index = 1\<rparr>]"
  by (simp add: symbol_tables_def demo_elf_sections elf_read_symtab_def elf_symbol_size_def demo_elf_fields)

lemma demo_elf_image: "elf_image (demo_elf lo hi) demo_elf_header"
  unfolding elf_image_def demo_elf_tables demo_elf_sections demo_elf_header_read
  by (simp add: elf_read_symtab_def elf_symbol_size_def section_size_def demo_elf_fields demo_elf_parts)

lemma demo_elf_symbols:
  "file_symbols demo_elf_header (demo_elf lo hi) = [(Some ''x'', demo_x (push_bit 8 (ucast hi) OR ucast lo))]"
proof -
  have x: "elf_read_symbol demo_elf_header (drop 172 (demo_elf lo hi)) = Some (demo_x (push_bit 8 (ucast hi) OR ucast lo))"
    by (simp add: elf_read_symbol_def Let_def demo_elf_fields demo_elf_parts demo_x_def read_8_def read_16_def read_32_def)
  have name: "read_str_loop 2 (drop 189 (demo_elf lo hi)) = Some ''x''"
    unfolding demo_elf_parts numeral_2_eq_2 read_str_loop.simps by (simp add: char_of_def bit_Suc_0_iff)
  have "symbol_at demo_elf_header (demo_elf lo hi) \<lparr>stab_offset = 172, stab_size = 16, strtab_index = 1\<rparr> 0
      = (Some ''x'', demo_x (push_bit 8 (ucast hi) OR ucast lo))"
    by (simp add: symbol_at_def demo_elf_sections x elf_symbol_size_def demo_elf_fields Let_def)
      (simp add: demo_x_def elf_read_str_def fseek_def name word_le_nat_alt)
  then show ?thesis by (simp add: file_symbols_def demo_elf_tables table_symbols_def elf_symbol_size_def demo_elf_fields)
qed

definition demo_argv :: "string list" where
  "demo_argv = [''symdump'', ''-i'', ''a.o'', ''-p'', ''P_'', ''-o'', ''out.h'', ''x'']"

definition demo_args :: cmd_options where
  "demo_args = \<lparr>opt_ofile = Some ''out.h'', opt_ifile = Some ''a.o'', opt_symbols = Some [''x''],
    opt_symbol_name_prefix = Some ''P_''\<rparr>"

lemma demo_argv_parsed: "parse_cmd demo_argv = Inr demo_args"
  by (simp add: parse_cmd_def demo_argv_def demo_args_def no_options_def CHECK_def)

lemma demo_search:
  assumes "n \<noteq> 0" shows "search [(Some ''x'', demo_x n)] ''x'' = Inr (Some (''x'', demo_x n))"
  using assms by (simp add: demo_x_def ELF_ST_TYPE_def)

lemma demo_number: "symbol_number demo_elf_header (demo_elf 2 0) ''x'' = Some 42"
proof -
  have bytes: "value_bytes demo_elf_header (demo_elf 2 0) (demo_x 2) = [0x2A, 0, 0, 0]"
    by (simp add: value_bytes_def demo_elf_sections demo_x_def demo_elf_parts)
  show ?thesis
    using demo_search
    by (simp add: symbol_number_def demo_elf_symbols bytes del: search.simps)
      (simp add: demo_x_def demo_elf_fields decodable_def in_order_def)
qed

theorem symdump_prints_witness:
  "symdump_main [''a.o'' \<mapsto> demo_elf 2 0] (\<lambda>_. True) demo_argv
    = (file_head @ output_line True ''P_'' ''x'' 42 @ file_tail, Inr ())"
proof -
  obtain out r where run: "symdump_main [''a.o'' \<mapsto> demo_elf 2 0] (\<lambda>_. True) demo_argv = (out, r)" by force
  have "[''a.o'' \<mapsto> demo_elf 2 0] (the (opt_ifile demo_args)) = Some (demo_elf 2 0)"
    "opt_ofile demo_args = Some ''out.h''" by (simp_all add: demo_args_def)
  from symdump_prints [where writable = "\<lambda>_. True", OF demo_argv_parsed this(1) demo_elf_image this(2) TrueI run]
  show ?thesis by (simp add: run) (simp add: demo_args_def demo_number)
qed

text \<open>
  C38: the dumper reads outside its arrays for a variable that has no section of its own, such as
  one with an absolute value, since the index of the section is not compared with the number of
  sections, and writes behind its buffer for a variable of more than 1024 bytes, since the size is
  looked at only after the bytes are read; and these are the only ways it does.
\<close>

theorem symdump_out_of_bounds:
  assumes "parse_cmd argv = Inr args" "files (the (opt_ifile args)) = Some content" "elf_image content h"
    and "opt_symbols args = Some [w]" "opt_ofile args = Some ofile" "writable ofile"
    and "search (file_symbols h content) w = Inr (Some (name, s))"
  shows "snd (symdump_main files writable argv) = Inl Out_of_bounds
    \<longleftrightarrow> \<not> unat (st_shndx s) < unat (e_shnum h) \<or> 1024 < length (value_bytes h content s)"
proof -
  have ds: "search_all (file_symbols h content) [w] = Inr [(name, s)]" using assms(7) by simp
  obtain fbuf where load: "load_symbols [w] content = Inr (h, sections h content, [(name, s)], fbuf)" "length fbuf = fbuf_size"
    using load_symbols [OF assms(3), of "[w]"] ds by auto
  let ?v = "read_value h (sections h content) content w s fbuf"
  have "snd (symdump_main files writable argv) = Inl Out_of_bounds \<longleftrightarrow> result ?v = Inl Out_of_bounds"
    using assms(1,2,4-6) load(1) by (cases ?v rule: run_cases) (simp_all add: symdump_main_def)
  then show ?thesis using read_value(2) [OF assms(3) load(2) refl refl] by simp
qed

theorem symdump_out_of_bounds_witness:
  "snd (symdump_main [''a.o'' \<mapsto> demo_elf 0xF1 0xFF] (\<lambda>_. True) demo_argv) = Inl Out_of_bounds"
proof -
  have inp: "[''a.o'' \<mapsto> demo_elf 0xF1 0xFF] (the (opt_ifile demo_args)) = Some (demo_elf 0xF1 0xFF)"
    "opt_symbols demo_args = Some [''x'']" "opt_ofile demo_args = Some ''out.h''" by (simp_all add: demo_args_def)
  have "search (file_symbols demo_elf_header (demo_elf 0xF1 0xFF)) ''x'' = Inr (Some (''x'', demo_x 0xFFF1))"
    using demo_search by (simp add: demo_elf_symbols del: search.simps)
  from symdump_out_of_bounds [where writable = "\<lambda>_. True" and files = "[''a.o'' \<mapsto> demo_elf 0xF1 0xFF]",
      OF demo_argv_parsed inp(1) demo_elf_image inp(2,3) TrueI this]
  show ?thesis by (simp add: demo_x_def demo_elf_fields)
qed

end
