(* ===== verification/Spec2Isabelle.thy ===== *)
theory Spec2Isabelle
  imports CharTools CharCodecs IpcTargets CommSession MainInvariant MemoryService SessionService DatalogRun Acquisition Ownership CTestApp ElfSymdump
begin

text \<open>
  A verification development of the Scrutiny embedded library (\<open>src/lib\<close>), the C++ library that a
  firmware links to let a remote server read and write its memory, call back for published values,
  and log variables around an event, with its C interface and the build tool of that interface
  (\<open>src/cwrapper\<close>), and the two test applications that use it (\<open>src/projects\<close>). File names below are
  relative to \<open>src/lib\<close> unless they start with \<open>src/cwrapper\<close> or with \<open>projects\<close>.

  THE PROGRAM. The application calls \<open>MainHandler::process\<close> periodically, hands it the bytes that
  come in (\<open>receive_data\<close>) and takes away those that go out (\<open>pop_data\<close>). The communication
  handler turns bytes into a request and a response into bytes; the main handler dispatches the
  request to a service, which decodes it with the codec and encodes the response. Loop handlers
  are called by other tasks; the one that owns the datalogger runs it, and each exchanges messages
  with the main handler through two one-place mailboxes.

  THE THEORIES, in the order of their imports.

  Shared: \<open>Prelude\<close> (machine integers, buffers, fact collections, lemmas on lists and words),
  \<open>Tools\<close> (\<open>src/scrutiny_tools.cpp\<close>: types, CRC32, strings), \<open>CharTools\<close> (the copies between bytes
  and chars of 8 or 16 bits, which undo each other, and the string copy), \<open>Codecs\<close>
  (\<open>scrutiny_common_codecs\<close>), \<open>CharCodecs\<close> (the codecs of that file for chars of 16 bits), \<open>Timebase\<close>, \<open>Protocol\<close> (\<open>scrutiny_protocol_definitions\<close>), \<open>Config\<close>
  (\<open>scrutiny_config\<close>, with the tests of protected regions of the main handler).

  Communication: \<open>CommHandler\<close> models \<open>src/protocol/scrutiny_comm_handler.cpp\<close>. \<open>CommReceive\<close> shows
  what reception makes of a frame cut anyhow, valid or damaged; \<open>CommInvariant\<close> the invariant of the
  state and the end of the reception loop; \<open>CommTransmit\<close> that popping in any sizes is taking
  prefixes of one frame, the abstract specification of transmission; \<open>CommSession\<close> what holds after any
  order of operations, the one call that breaks the invariant (\<open>prepare_breaks_transmission\<close>), the
  session, the timeouts and the error paths.

  Services: \<open>BlockCodec\<close>, \<open>ResponseCodec\<close> and \<open>ConfigureCodec\<close> model
  \<open>src/protocol/scrutiny_codec_v1_0.cpp\<close>: block lists, messages of a fixed layout, the configuration
  of the datalogger. \<open>MemoryControl\<close> and \<open>InfoService\<close> model the services of
  \<open>src/scrutiny_main_handler.cpp\<close> over them, and \<open>MemoryService\<close> and \<open>SessionService\<close> say what a
  server can rely on: exact answers, refusals, memory that is never read or written, exclusivity of
  the session, and bounds of the buffers.

  Datalogging: \<open>DatalogTypes\<close>, \<open>Float32\<close> and \<open>Trigger\<close> (operands and conditions), \<open>RawEncoder\<close>
  (the ring of entries and its reader), \<open>DataLogger\<close> (the class). \<open>AcquisitionRing\<close> gives the ring
  its abstract specification, the list of what was logged, and shows that reading it gives the most
  recent part of that list. \<open>DatalogRun\<close> has the reachable states of the datalogger, the end of
  acquisitions and the hold time of triggers.

  Tasks: \<open>Ipc\<close> (the mailbox: each method as the list of its accesses to memory, and two tasks whose
  accesses interleave), \<open>MaskedMailbox\<close> (a mailbox that disables the interrupts around its flag),
  \<open>IpcTargets\<close> (the mailboxes of four other targets, \<open>inc/ipc/scrutiny_ipc_x86.hpp\<close> and the like), \<open>LoopHandler\<close>, \<open>DatalogControl\<close> (the main handler's part of the
  datalogging), \<open>AcquisitionDownload\<close> (an acquisition read piece after piece), \<open>Acquisition\<close> (one from
  its configuration to its download), \<open>MainHandler\<close> (dispatch and \<open>process\<close>), \<open>MainSession\<close> (a
  memory read from the first byte of the request to the last byte of the answer), \<open>MainInvariant\<close> (the
  main handler as a state machine: its operations in any order keep the invariant of the communication
  handler, since no service leaves the response's buffer and \<open>process\<close> prepares no response while one is
  being sent), \<open>Ownership\<close> (the interleavings of the tasks that hand the datalogger over).

  The C interface: \<open>CWrapper\<close> (\<open>src/cwrapper/scrutiny_cwrapper.cpp\<close>, function by function), and the
  symbol dumper that its build runs on an object file to find the sizes of the classes: \<open>ElfFile\<close>
  (\<open>elf.c\<close> and \<open>cmd.c\<close>) and \<open>ElfSymdump\<close> (\<open>main.c\<close>), which specifies what a file says of its
  variables and shows that the program prints it, and when it leaves its arrays. Numbers as text are in
  \<open>Printing\<close>.

  The test applications (\<open>projects/testapp\<close> in C++, \<open>projects/c_testapp\<close> in C): \<open>ArgParser\<close> (the command
  line, which both read alike), \<open>MemDump\<close> (\<open>main\<close>, and the command that prints memory),
  \<open>PublishedStore\<close> (published values as cells that a server assigns and looks up), \<open>TestApp\<close> and
  \<open>CTestApp\<close> (the values, callbacks, user commands and configuration of each, and the turn of the loop
  that runs the library on a channel, which is an iteration of \<open>MainSession\<close>).

  HOW THE CODE IS MODELLED. An object is a record with one field per member, a method a definition
  that returns the object updated, with the code returned as a response code where there is one. A
  pointer to an object is the object where it has one user, and a reference into a store where
  it has several: a loop handler is its index, and the loop handlers are a function from indices.
  A null pointer is \<open>None\<close>. A pointer to bytes is a list of bytes; the write of a block is
  \<open>blit\<close>. The memory of the target is a function from addresses to bytes, in the record \<open>world\<close>
  with the state of the user's callbacks; the callbacks are parameters of the model, functions on
  the world. The library's own objects are not in that memory. Reads of uninitialised stack
  variables are reads of an argument that is not constrained (\<open>junk\<close>, \<open>mh_stack\<close>).

  The build: x64, little endian, 8-bit chars, C++11, with the default configuration: 64-bit types,
  datalogging with a 32-bit \<open>buffer_size_t\<close>, protected regions, at most 16 logged items. Integers
  have their width and wrap around; enumerations received from the wire are bytes. A \<open>float\<close> is its 32
  bits, and \<open>Float32\<close> gives the comparisons and the addition that the triggers use.

  INTERFACES. \<open>byte_codec\<close> (an encoding of a fixed length that its decoder inverts), interpreted on
  every pair of codecs; \<open>chained_checksum\<close>, on the CRC; \<open>cell_codec\<close> (an operand or an item decoded
  into one cell of an array), on both; \<open>repacking\<close> (bytes and chars), on the copies of every target;
  \<open>char_codec\<close> (a codec whose chars have 8 or 16 bits), on the eight pairs; \<open>mailbox\<close> (offers and
  polls), which \<open>flag_box\<close> (data and a flag that shows when there is data) gives, and its two extensions by the
  accesses of the methods, \<open>atomic_mailbox\<close> (the flag changes at once) and \<open>masked_mailbox\<close> (a plain store
  with the interrupts disabled), on the mailbox of every target; \<open>acquisition_format\<close> (a ring and a
  reader), on the raw format; \<open>published_store\<close> (a table of values and their callbacks), on both test
  applications.

  LOOPS. No fuel is used. A loop over a list is structural recursion; the nibble recursion of
  the CRC has a measure; a loop that could run forever (reception, the parsers' traversals, the
  services' loops, the reader, the regions of a command line) is a partial function into \<open>option\<close>, and it is proved to return:
  from every reachable state for reception (\<open>receive_data_returns\<close>, \<open>safe_receive_returns\<close>), for every request for the
  memory services (\<open>memory_control_returns\<close>), in every state of an encoder for the reader.

  CONCURRENCY. The main handler and the loops run in different tasks. In \<open>Ipc\<close> a method of the mailbox
  is the list of its accesses, in the order of its statements, and running it alone is executing that list.
  A producer and a consumer interleave these accesses one by one; the step relation fixes no order of its
  own, a plain store is not indivisible (the other task may run in its middle and find any value), and no
  other task runs while the interrupts are disabled. In every mailbox the two are never at the data together and what is
  taken is what was sent (\<open>mailboxes_race_free\<close>), so sending and taking are atomic. Memory is
  sequentially consistent, and a compiler that moves the accesses is not modelled. Above it, one pass of the main handler over
  its mailboxes, one request and one call of a loop are steps that interleave in any order. Finer
  interleavings, of the bodies of these steps, are not modelled; the owner of the datalogger is
  the one task that touches it, which is what \<open>ownership_agreed\<close> is about.

  WHAT THE MODEL SHOWED. Some theorems state behaviour that the code does not mean to have: an
  acknowledgement left out without an error (\<open>write_last_ack_missing\<close>), a valid read refused
  (\<open>read_large_block_rejected\<close>), a wrapping block that escapes the protection
  (\<open>wrapping_write_reaches_protected\<close>), a response lost to an early byte
  (\<open>late_byte_blocks_response\<close>), an empty acquisition that reads as stale bytes
  (\<open>empty_acquisition_read\<close>), a trigger that fires on an unchanged value
  (\<open>unchanged_value_triggers\<close>), a hold time skipped (\<open>rearm_skips_hold_time\<close>), a datalogger that is lost
  until the next start (\<open>configure_race_stuck\<close>), a mailbox that is never empty (\<open>tricore_stale_flag\<close>), a response spoilt while it is being sent,
  if a caller other than the main handler prepares the next one (\<open>prepare_breaks_transmission\<close>), a dumper that reads outside its arrays
  (\<open>symdump_out_of_bounds\<close>), and, in the test application, a failed read taken for 65535 bytes
  (\<open>failed_read_overruns\<close>) and addresses that are replaced (\<open>read_number_clamped\<close>).

  NOT MODELLED. The headers of the compilers have no operations, and the declarations of the C
  interface are those of its functions. Of the test applications, the sockets and serial ports are calls
  of the operating system, whose results are arguments of a turn, and the variables of their other files
  are only there to be looked at; their variables are kept apart from the memory of the target. The
  board examples and the unit tests are not part of the library. Arrays of a constant size (the items and operands of a configuration) are lists, and the
  assertions of the code that are checked by the compiler only are not stated.
\<close>

end
